(* ===== verification/Prelude.thy ===== *)
theory Prelude
  imports Main "HOL-Library.Word" "HOL-Library.Char_ord" "HOL-Library.Sublist"
  "HOL-Library.Code_Target_Nat"
begin

text \<open>
  The vocabulary every component shares: C strings and the handful of C library
  functions the sources call on them, machine-integer synonyms, decimal and
  hexadecimal printing, and generic lemmas on lists that the component proofs use.

  A C string is modelled by the list of its bytes up to, and without, the
  terminating NUL; \<open>cstr\<close> cuts an arbitrary byte buffer at its first NUL, which is
  what every \<open>char *\<close> consumer sees. \<open>strlen\<close> is \<^const>\<open>length\<close>, \<open>strcmp(a, b) == 0\<close> is
  equality, and \<open>strcmp\<close>'s order is the lexicographic order on unsigned bytes
  (\<open>strcmp_less\<close>).
\<close>

section \<open>Fact collections\<close>

named_theorems usbs_invariant \<open>well-formedness facts of the components\<close>
named_theorems usbs_frame \<open>fields that an operation leaves alone\<close>
named_theorems usbs_bounds \<open>length bounds of produced buffers\<close>

section \<open>Machine integers\<close>

type_synonym usbs_u8 = "8 word"
type_synonym usbs_u16 = "16 word"
type_synonym usbs_u32 = "32 word"
type_synonym usbs_u64 = "64 word"

text \<open>\<open>SIZE_MAX\<close> of the 64-bit targets the project ships for.\<close>

definition SIZE_MAX :: nat where
  "SIZE_MAX = 18446744073709551615"

section \<open>C strings\<close>

definition cstr :: "string \<Rightarrow> string" where
  "cstr s = takeWhile (\<lambda>c. c \<noteq> CHR 0x00) s"

definition is_cstr :: "string \<Rightarrow> bool" where
  "is_cstr s \<longleftrightarrow> CHR 0x00 \<notin> set s"

lemma cstr_id [simp]: "is_cstr s \<Longrightarrow> cstr s = s"
  unfolding is_cstr_def cstr_def by (rule takeWhile_eq_all_conv [THEN iffD2]) auto

lemma is_cstr_cstr [simp, intro]: "is_cstr (cstr s)"
  unfolding is_cstr_def cstr_def by (auto dest: set_takeWhileD)

lemma length_cstr_le: "length (cstr s) \<le> length s"
  unfolding cstr_def by (rule length_takeWhile_le)

lemma is_cstr_Nil [simp]: "is_cstr []"
  and is_cstr_Cons [simp]: "is_cstr (c # s) \<longleftrightarrow> c \<noteq> CHR 0x00 \<and> is_cstr s"
  and is_cstr_append [simp]: "is_cstr (s @ t) \<longleftrightarrow> is_cstr s \<and> is_cstr t"
  by (auto simp: is_cstr_def)

lemma is_cstr_take [simp]: "is_cstr s \<Longrightarrow> is_cstr (take n s)"
  unfolding is_cstr_def by (auto dest: in_set_takeD)

lemma is_cstr_drop [simp]: "is_cstr s \<Longrightarrow> is_cstr (drop n s)"
  unfolding is_cstr_def by (auto dest: in_set_dropD)

text \<open>
  \<open>snprintf(out, cap, "%s", s)\<close> into a buffer of \<open>cap > 0\<close> bytes stores at most
  \<open>cap - 1\<close> of them; the value it returns is the untruncated length.
\<close>

definition snprintf_buf :: "nat \<Rightarrow> string \<Rightarrow> string" where
  "snprintf_buf cap s = take (cap - 1) s"

lemma snprintf_buf_fits [simp]: "length s < cap \<Longrightarrow> snprintf_buf cap s = s"
  by (simp add: snprintf_buf_def)

lemma length_snprintf_buf [usbs_bounds]: "0 < cap \<Longrightarrow> length (snprintf_buf cap s) < cap"
  by (simp add: snprintf_buf_def)

lemma is_cstr_snprintf_buf [simp]: "is_cstr s \<Longrightarrow> is_cstr (snprintf_buf cap s)"
  by (simp add: snprintf_buf_def)

text \<open>\<open>strcmp(a, b) < 0\<close>: the first differing byte decides, a proper prefix is smaller.\<close>

fun strcmp_less :: "string \<Rightarrow> string \<Rightarrow> bool" where
  "strcmp_less _ [] = False"
| "strcmp_less [] (_ # _) = True"
| "strcmp_less (a # as) (b # bs) = (a < b \<or> a = b \<and> strcmp_less as bs)"

lemma strcmp_less_irrefl [simp]: "\<not> strcmp_less s s"
  by (induction s) auto

lemma strcmp_less_trans: "strcmp_less a b \<Longrightarrow> strcmp_less b c \<Longrightarrow> strcmp_less a c"
proof (induction b arbitrary: a c)
  case Nil
  then show ?case by simp
next
  case (Cons y ys)
  then obtain z zs where c: "c = z # zs" by (cases c) auto
  show ?case
  proof (cases a)
    case Nil
    with c show ?thesis by simp
  next
    case (Cons x xs)
    with Cons.prems c have "x < y \<or> x = y \<and> strcmp_less xs ys" and "y < z \<or> y = z \<and> strcmp_less ys zs"
      by auto
    with Cons.IH [of xs zs] have "x < z \<or> x = z \<and> strcmp_less xs zs" by auto
    with \<open>a = x # xs\<close> c show ?thesis by simp
  qed
qed

lemma strcmp_less_total: "a \<noteq> b \<Longrightarrow> strcmp_less a b \<or> strcmp_less b a"
  by (induction a b rule: strcmp_less.induct) (auto simp: neq_Nil_conv)

text \<open>\<open>memchr\<close>/\<open>strchr\<close> as a split at the first occurrence, \<open>strrchr\<close> at the last.\<close>

fun split_first :: "char \<Rightarrow> string \<Rightarrow> (string \<times> string) option" where
  "split_first c [] = None"
| "split_first c (x # xs) =
     (if x = c then Some ([], xs)
      else map_option (\<lambda>(a, b). (x # a, b)) (split_first c xs))"

lemma split_first_Some:
  "split_first c s = Some (a, b) \<longleftrightarrow> s = a @ c # b \<and> c \<notin> set a"
proof (induction s arbitrary: a)
  case Nil
  show ?case by simp
next
  case (Cons x xs)
  show ?case by (cases a) (auto simp: Cons.IH split: prod.splits)
qed

lemma split_first_None: "split_first c s = None \<longleftrightarrow> c \<notin> set s"
  by (induction s) auto

lemma length_split_first: "split_first c s = Some (a, b) \<Longrightarrow> length b < length s"
  by (simp add: split_first_Some)

section \<open>ASCII case folding\<close>

text \<open>
  \<open>lower_ascii\<close> of location.c; autorun.c, lnk_inspect.c and suspicious_filename.c
  write the same two-line folding inline.
\<close>

definition lower_ascii :: "char \<Rightarrow> char" where
  "lower_ascii c =
     (if CHR ''A'' \<le> c \<and> c \<le> CHR ''Z''
      then char_of (of_char c - of_char CHR ''A'' + of_char CHR ''a'' :: nat) else c)"

lemma of_char_lower_ascii:
  "of_char (lower_ascii c) =
     (if 65 \<le> (of_char c :: nat) \<and> (of_char c :: nat) \<le> 90 then of_char c + 32 else of_char c :: nat)"
proof -
  have "(of_char c :: nat) < 256" by (rule nat_of_char_less_256)
  then show ?thesis by (auto simp: lower_ascii_def less_eq_char_def)
qed

lemma lower_ascii_idem [simp]: "lower_ascii (lower_ascii c) = lower_ascii c"
proof -
  have "(of_char (lower_ascii (lower_ascii c)) :: nat) = of_char (lower_ascii c)"
    by (simp add: of_char_lower_ascii)
  then show ?thesis by simp
qed

lemma lower_ascii_NUL [simp]: "lower_ascii c = CHR 0x00 \<longleftrightarrow> c = CHR 0x00"
proof -
  have "(of_char (lower_ascii c) :: nat) = 0 \<longleftrightarrow> (of_char c :: nat) = 0"
    by (simp add: of_char_lower_ascii)
  moreover have "(of_char CHR 0x00 :: nat) = 0" by simp
  ultimately show ?thesis by (metis of_char_eq_iff)
qed

abbreviation fold_case :: "string \<Rightarrow> string" where
  "fold_case s \<equiv> map lower_ascii s"

text \<open>\<open>isspace\<close> in the C locale.\<close>

definition is_c_space :: "char \<Rightarrow> bool" where
  "is_c_space c \<longleftrightarrow> c = CHR '' '' \<or> CHR 0x09 \<le> c \<and> c \<le> CHR 0x0D"

section \<open>Printing numbers\<close>

definition digit_char :: "nat \<Rightarrow> char" where
  "digit_char d = char_of (48 + d)"

fun dec_of_nat :: "nat \<Rightarrow> string" where
  "dec_of_nat n = (if n < 10 then [digit_char n] else dec_of_nat (n div 10) @ [digit_char (n mod 10)])"

declare dec_of_nat.simps [simp del]

definition dec_of_int :: "int \<Rightarrow> string" where
  "dec_of_int i = (if i < 0 then CHR ''-'' # dec_of_nat (nat (- i)) else dec_of_nat (nat i))"

definition is_digit :: "char \<Rightarrow> bool" where
  "is_digit c \<longleftrightarrow> CHR ''0'' \<le> c \<and> c \<le> CHR ''9''"

definition digit_val :: "char \<Rightarrow> nat" where
  "digit_val c = of_char c - 48"

definition nat_of_digits :: "string \<Rightarrow> nat" where
  "nat_of_digits s = foldl (\<lambda>acc c. 10 * acc + digit_val c) 0 s"

lemma is_digit_digit_char [simp]: "d < 10 \<Longrightarrow> is_digit (digit_char d)"
  by (simp add: is_digit_def digit_char_def less_eq_char_def)

lemma digit_val_digit_char [simp]: "d < 10 \<Longrightarrow> digit_val (digit_char d) = d"
  by (simp add: digit_val_def digit_char_def)

lemma dec_of_nat_digits: "list_all is_digit (dec_of_nat n)"
  by (induction n rule: dec_of_nat.induct) (subst dec_of_nat.simps, simp)

lemma dec_of_nat_nonempty [simp]: "dec_of_nat n \<noteq> []"
  by (subst dec_of_nat.simps) simp

lemma nat_of_digits_snoc: "nat_of_digits (s @ [c]) = 10 * nat_of_digits s + digit_val c"
  by (simp add: nat_of_digits_def)

lemma nat_of_digits_dec [simp]: "nat_of_digits (dec_of_nat n) = n"
proof (induction n rule: dec_of_nat.induct)
  case (1 n)
  show ?case
  proof (cases "n < 10")
    case True
    then show ?thesis by (subst dec_of_nat.simps) (simp add: nat_of_digits_def)
  next
    case False
    with 1 have "nat_of_digits (dec_of_nat (n div 10)) = n div 10" by simp
    with False show ?thesis by (subst dec_of_nat.simps) (simp add: nat_of_digits_snoc)
  qed
qed

lemma length_dec_of_nat: "n < 10 ^ k \<Longrightarrow> 0 < k \<Longrightarrow> length (dec_of_nat n) \<le> k"
proof (induction n arbitrary: k rule: dec_of_nat.induct)
  case (1 n)
  show ?case
  proof (cases "n < 10")
    case True
    with 1 show ?thesis by (subst dec_of_nat.simps) simp
  next
    case False
    with "1.prems" obtain j where k: "k = Suc j" "0 < j" by (cases k; cases "k - 1") auto
    with "1.prems" have "n div 10 < 10 ^ j" by (simp add: less_mult_imp_div_less mult.commute)
    with False k "1.IH" have "length (dec_of_nat (n div 10)) \<le> j" by simp
    with False k show ?thesis by (subst dec_of_nat.simps) simp
  qed
qed

lemma u64_dec_length: "length (dec_of_nat (unat (n :: usbs_u64))) \<le> 20"
proof -
  have "unat n < 2 ^ 64" using unsigned_less [of n, where ?'a = nat] by simp
  then have "unat n < 10 ^ 20" by simp
  then show ?thesis by (rule length_dec_of_nat) simp
qed

text \<open>Hexadecimal digits: \<open>%x\<close> is lower case, \<open>%X\<close> upper case.\<close>

definition hex_lower :: "nat \<Rightarrow> char" where
  "hex_lower d = char_of (if d < 10 then 48 + d else 87 + d)"

definition hex_upper :: "nat \<Rightarrow> char" where
  "hex_upper d = char_of (if d < 10 then 48 + d else 55 + d)"

definition is_lower_hex :: "char \<Rightarrow> bool" where
  "is_lower_hex c \<longleftrightarrow>
     CHR ''0'' \<le> c \<and> c \<le> CHR ''9'' \<or> CHR ''a'' \<le> c \<and> c \<le> CHR ''f''"

lemma lower_hex_upper: "CHR ''A'' \<le> c \<Longrightarrow> c \<le> CHR ''F'' \<Longrightarrow> is_lower_hex (lower_ascii c)"
  using of_char_lower_ascii [of c] by (auto simp: is_lower_hex_def less_eq_char_def)

lemma hex_lower_is_lower_hex: "d < 16 \<Longrightarrow> is_lower_hex (hex_lower d)"
  by (simp add: is_lower_hex_def hex_lower_def less_eq_char_def)

section \<open>Lists\<close>

lemma length_dropWhile_less: "xs \<noteq> [] \<Longrightarrow> P (hd xs) \<Longrightarrow> length (dropWhile P xs) < length xs"
  by (cases xs) (auto simp: le_imp_less_Suc length_dropWhile_le)

lemma takeWhile_append_stop:
  "list_all P xs \<Longrightarrow> ys = [] \<or> \<not> P (hd ys) \<Longrightarrow> takeWhile P (xs @ ys) = xs"
  by (induction xs) (cases ys; auto)+

lemma dropWhile_append_stop:
  "list_all P xs \<Longrightarrow> ys = [] \<or> \<not> P (hd ys) \<Longrightarrow> dropWhile P (xs @ ys) = ys"
  by (induction xs) (cases ys; auto)+

lemma all_char_cases: "(\<And>n. n < 256 \<Longrightarrow> P (char_of (n :: nat))) \<Longrightarrow> P c"
  by (metis char_of_char nat_of_char_less_256)

end
