(* ===== verification/Status.thy ===== *)
theory Status
  imports Prelude
begin

text \<open>
  The error model of the project (include/usbsentinel/error.h, src/core/error.c): every
  fallible C function returns a \<open>usbs_status_t\<close> and delivers its result through an
  out-parameter. A model of such a function returns \<open>usbs_status + 'a\<close>, with \<open>Inl\<close> the
  non-OK status and \<open>Inr\<close> what the out-parameter receives, or a pair of a status and the
  updated state where the C code updates state on error paths too.
\<close>

section \<open>Status codes\<close>

datatype usbs_status =
    USBS_OK
  | USBS_ERR_INVALID_ARG
  | USBS_ERR_NOT_FOUND
  | USBS_ERR_IO
  | USBS_ERR_ACCESS_DENIED
  | USBS_ERR_NO_MEMORY
  | USBS_ERR_UNSUPPORTED
  | USBS_ERR_INTERNAL
  | USBS_STATUS_COUNT

definition usbs_ok :: "usbs_status \<Rightarrow> bool" where
  "usbs_ok status \<longleftrightarrow> status = USBS_OK"

fun usbs_status_string :: "usbs_status \<Rightarrow> string" where
  "usbs_status_string USBS_OK = ''USBS_OK''"
| "usbs_status_string USBS_ERR_INVALID_ARG = ''USBS_ERR_INVALID_ARG''"
| "usbs_status_string USBS_ERR_NOT_FOUND = ''USBS_ERR_NOT_FOUND''"
| "usbs_status_string USBS_ERR_IO = ''USBS_ERR_IO''"
| "usbs_status_string USBS_ERR_ACCESS_DENIED = ''USBS_ERR_ACCESS_DENIED''"
| "usbs_status_string USBS_ERR_NO_MEMORY = ''USBS_ERR_NO_MEMORY''"
| "usbs_status_string USBS_ERR_UNSUPPORTED = ''USBS_ERR_UNSUPPORTED''"
| "usbs_status_string USBS_ERR_INTERNAL = ''USBS_ERR_INTERNAL''"
| "usbs_status_string USBS_STATUS_COUNT = ''USBS_ERR_UNKNOWN''"

lemma usbs_ok_simps [simp]: "usbs_ok USBS_OK" "status \<noteq> USBS_OK \<Longrightarrow> \<not> usbs_ok status"
  by (simp_all add: usbs_ok_def)

lemma usbs_status_string_inj:
  "usbs_status_string a = usbs_status_string b \<longleftrightarrow> a = b"
  by (cases a; cases b) simp_all

section \<open>Allocation\<close>

text \<open>
  What the C allocator answers is an input of the model: \<open>mem n\<close> says whether a
  \<open>malloc\<close>, \<open>calloc\<close> or \<open>realloc\<close> request for \<open>n\<close> bytes is granted. Every
  \<open>== NULL\<close> branch after an allocation is a branch on this oracle.
\<close>

type_synonym allocator = "nat \<Rightarrow> bool"

definition mem_always :: allocator where
  "mem_always n = True"

lemma mem_always: "mem_always n"
  by (simp add: mem_always_def)

end
