(* ===== verification/Growable.thy ===== *)
theory Growable
  imports Status
begin

text \<open>
  The growable array idiom the code repeats six times (finding, check, device and
  signature lists, JSON arrays and JSON objects): items, a count and a capacity that
  doubles. \<open>vec_push\<close> is the shared body; the components instantiate it with their first
  capacity, element size and overflow guard. The locale \<open>growable_array\<close> states what the
  clients of such an array rely on, and proves once what a sequence of pushes does.
\<close>

section \<open>The array and its push\<close>

record 'a vec =
  v_items :: "'a list"
  v_capacity :: nat

definition vec_init :: "'a vec" where
  "vec_init = \<lparr>v_items = [], v_capacity = 0\<rparr>"

text \<open>
  \<open>count == capacity\<close> triggers the growth: \<open>first\<close> elements, then twice as many; the
  multiplication by the element size is guarded where \<open>guarded\<close> says so, and a refused
  \<open>realloc\<close> leaves the array as it was.
\<close>

definition vec_push :: "nat \<Rightarrow> nat \<Rightarrow> bool \<Rightarrow> allocator \<Rightarrow> 'a vec \<Rightarrow> 'a \<Rightarrow> usbs_status \<times> 'a vec" where
  "vec_push first elem_size guarded mem v x =
     (if length (v_items v) = v_capacity v then
        (let next_cap = (if v_capacity v = 0 then first else v_capacity v * 2)
         in if guarded \<and> next_cap > SIZE_MAX div elem_size then (USBS_ERR_NO_MEMORY, v)
            else if \<not> mem (next_cap * elem_size) then (USBS_ERR_NO_MEMORY, v)
            else (USBS_OK, \<lparr>v_items = v_items v @ [x], v_capacity = next_cap\<rparr>))
      else (USBS_OK, v\<lparr>v_items := v_items v @ [x]\<rparr>))"

section \<open>The interface of a growable array\<close>

locale growable_array =
  fixes push :: "allocator \<Rightarrow> 'v \<Rightarrow> 'a \<Rightarrow> usbs_status \<times> 'v"
    and items :: "'v \<Rightarrow> 'a list"
    and capacity :: "'v \<Rightarrow> nat"
    and empty :: 'v
  assumes items_empty: "items empty = []"
    and capacity_empty: "capacity empty = 0"
    and push_ok: "push mem v x = (USBS_OK, v') \<Longrightarrow> items v' = items v @ [x]"
    and push_error: "push mem v x = (st, v') \<Longrightarrow> st \<noteq> USBS_OK \<Longrightarrow> st = USBS_ERR_NO_MEMORY \<and> v' = v"
    and push_room: "length (items v) < capacity v \<Longrightarrow> fst (push mem v x) = USBS_OK"
    and push_capacity: "length (items v) \<le> capacity v \<Longrightarrow> push mem v x = (st, v') \<Longrightarrow>
      length (items v') \<le> capacity v'"
begin

definition well_formed :: "'v \<Rightarrow> bool" where
  "well_formed v \<longleftrightarrow> length (items v) \<le> capacity v"

fun push_all :: "allocator \<Rightarrow> 'v \<Rightarrow> 'a list \<Rightarrow> usbs_status \<times> 'v" where
  "push_all mem v [] = (USBS_OK, v)"
| "push_all mem v (x # xs) =
     (case push mem v x of
        (st, v') \<Rightarrow> if st = USBS_OK then push_all mem v' xs else (st, v'))"

lemma well_formed_empty: "well_formed empty"
  by (simp add: well_formed_def items_empty)

lemma push_well_formed: "well_formed v \<Longrightarrow> push mem v x = (st, v') \<Longrightarrow> well_formed v'"
  unfolding well_formed_def by (rule push_capacity)

lemma push_all_well_formed: "well_formed v \<Longrightarrow> push_all mem v xs = (st, v') \<Longrightarrow> well_formed v'"
  by (induction xs arbitrary: v) (auto split: prod.splits if_splits intro: push_well_formed)

lemma push_all_ok: "push_all mem v xs = (USBS_OK, v') \<Longrightarrow> items v' = items v @ xs"
proof (induction xs arbitrary: v)
  case Nil
  then show ?case by simp
next
  case (Cons x xs)
  then obtain w where w: "push mem v x = (USBS_OK, w)" "push_all mem w xs = (USBS_OK, v')"
    by (auto split: prod.splits if_splits)
  with Cons.IH [OF w(2)] push_ok [OF w(1)] show ?case by simp
qed

text \<open>A sequence of pushes that runs out of memory keeps a prefix of the elements, in order.\<close>

lemma push_all_prefix:
  "push_all mem v xs = (st, v') \<Longrightarrow> \<exists>k \<le> length xs. items v' = items v @ take k xs"
proof (induction xs arbitrary: v)
  case Nil
  then show ?case by simp
next
  case (Cons x xs)
  obtain st1 w where w: "push mem v x = (st1, w)" by (cases "push mem v x") auto
  show ?case
  proof (cases "st1 = USBS_OK")
    case True
    with Cons.prems w have "push_all mem w xs = (st, v')" by simp
    with Cons.IH obtain k where "k \<le> length xs" "items v' = items w @ take k xs" by blast
    with push_ok [of mem v x w] w True show ?thesis by (intro exI [of _ "Suc k"]) simp
  next
    case False
    with Cons.prems w push_error [OF w] show ?thesis by (intro exI [of _ 0]) simp
  qed
qed

lemma push_status: "push mem v x = (st, v') \<Longrightarrow> st = USBS_OK \<or> st = USBS_ERR_NO_MEMORY"
  using push_error by blast

end

section \<open>Facts about the shared body\<close>

lemma vec_push_ok:
  "vec_push first es g mem v x = (USBS_OK, v') \<Longrightarrow> v_items v' = v_items v @ [x]"
  by (auto simp: vec_push_def Let_def split: if_splits)

lemma vec_push_error:
  "vec_push first es g mem v x = (st, v') \<Longrightarrow> st \<noteq> USBS_OK \<Longrightarrow> st = USBS_ERR_NO_MEMORY \<and> v' = v"
  by (auto simp: vec_push_def Let_def split: if_splits)

lemma vec_push_room:
  "length (v_items v) < v_capacity v \<Longrightarrow> fst (vec_push first es g mem v x) = USBS_OK"
  by (simp add: vec_push_def)

lemma vec_push_capacity:
  "0 < first \<Longrightarrow> length (v_items v) \<le> v_capacity v \<Longrightarrow> vec_push first es g mem v x = (st, v') \<Longrightarrow>
     length (v_items v') \<le> v_capacity v'"
  by (auto simp: vec_push_def Let_def split: if_splits)

lemma growable_vec_push:
  "0 < first \<Longrightarrow> growable_array (vec_push first es g) v_items v_capacity vec_init"
  by unfold_locales
     (auto simp: vec_init_def vec_push_ok vec_push_room
           dest: vec_push_error intro: vec_push_capacity)

end
