(* ===== verification/JsonWriter.thy ===== *)
theory JsonWriter
  imports Growable
begin

text \<open>
  The streaming JSON writer of src/core/json.c (lines 13-317) and its public header. The
  record \<open>json_writer\<close> is \<open>usbs_json_writer_t\<close>: \<open>jw_buf\<close> holds the \<open>len\<close> bytes written so
  far, \<open>jw_cap\<close> the allocated size (\<open>buf == NULL\<close> exactly while \<open>jw_cap = 0\<close>), and the three
  per-level flag arrays have \<open>USBS_JSON_MAX_DEPTH\<close> entries. The second half of the theory is
  the abstract writer that json.h promises (a text, a stack of open containers and a sticky
  error) and the simulation between the two.
\<close>

definition USBS_JSON_MAX_DEPTH :: nat where
  "USBS_JSON_MAX_DEPTH = 32"

record json_writer =
  jw_buf :: string
  jw_cap :: nat
  jw_depth :: nat
  jw_is_object :: "bool list"
  jw_need_comma :: "bool list"
  jw_want_key :: "bool list"
  jw_error :: usbs_status

section \<open>Buffer growth\<close>

text \<open>
  The doubling loop \<open>while (new_cap < needed)\<close> that the writer and the CSV builder share:
  \<open>None\<close> is the exit taken when the next doubling would overflow \<open>size_t\<close>. Both callers
  start it at a positive capacity (256 or 512); at 0 the model stops where the C loop
  would spin.
\<close>

function grow_cap :: "nat \<Rightarrow> nat \<Rightarrow> nat option" where
  "grow_cap new_cap needed =
     (if new_cap < needed \<and> 0 < new_cap then
        (if new_cap > SIZE_MAX div 2 then None else grow_cap (new_cap * 2) needed)
      else Some new_cap)"
  by pat_completeness auto
termination by (relation "measure (\<lambda>(c, n). n - c)") auto

declare grow_cap.simps [simp del]

lemma grow_cap_Some: "grow_cap c n = Some c' \<Longrightarrow> 0 < c \<Longrightarrow> n \<le> c' \<and> c \<le> c' \<and> 0 < c'"
proof (induction c n rule: grow_cap.induct)
  case (1 c n)
  show ?case
  proof (cases "c < n")
    case True
    with "1.prems" have "\<not> c > SIZE_MAX div 2" "grow_cap (c * 2) n = Some c'"
      by (auto simp: grow_cap.simps [of c n] split: if_splits)
    with "1.IH" True "1.prems" show ?thesis by force
  next
    case False
    with "1.prems" show ?thesis by (simp add: grow_cap.simps [of c n])
  qed
qed

lemma grow_cap_None: "grow_cap c n = None \<Longrightarrow> SIZE_MAX div 2 < n"
proof (induction c n rule: grow_cap.induct)
  case (1 c n)
  then show ?case by (auto simp: grow_cap.simps [of c n] split: if_splits)
qed

section \<open>The writer\<close>

definition usbs_json_writer_init :: json_writer where
  "usbs_json_writer_init =
     \<lparr>jw_buf = [], jw_cap = 0, jw_depth = 0,
      jw_is_object = replicate USBS_JSON_MAX_DEPTH False,
      jw_need_comma = replicate USBS_JSON_MAX_DEPTH False,
      jw_want_key = replicate USBS_JSON_MAX_DEPTH False,
      jw_error = USBS_OK\<rparr>"

text \<open>\<open>usbs_json_writer_free\<close> zeroes the structure; \<open>USBS_OK\<close> is 0.\<close>

definition usbs_json_writer_free :: "json_writer \<Rightarrow> json_writer" where
  "usbs_json_writer_free w = usbs_json_writer_init"

definition writer_ensure :: "allocator \<Rightarrow> json_writer \<Rightarrow> nat \<Rightarrow> json_writer" where
  "writer_ensure mem w extra =
     (if jw_error w \<noteq> USBS_OK then w
      else
        (let needed = length (jw_buf w) + extra + 1
         in if needed \<le> jw_cap w then w
            else
              (case grow_cap (if jw_cap w = 0 then 256 else jw_cap w) needed of
                 None \<Rightarrow> w\<lparr>jw_error := USBS_ERR_NO_MEMORY\<rparr>
               | Some new_cap \<Rightarrow>
                   if mem new_cap then w\<lparr>jw_cap := new_cap\<rparr>
                   else w\<lparr>jw_error := USBS_ERR_NO_MEMORY\<rparr>)))"

definition writer_raw :: "allocator \<Rightarrow> json_writer \<Rightarrow> string \<Rightarrow> json_writer" where
  "writer_raw mem w txt =
     (let w1 = writer_ensure mem w (length txt)
      in if jw_error w1 \<noteq> USBS_OK then w1 else w1\<lparr>jw_buf := jw_buf w1 @ txt\<rparr>)"

definition writer_before_value :: "allocator \<Rightarrow> json_writer \<Rightarrow> json_writer" where
  "writer_before_value mem w =
     (if jw_error w \<noteq> USBS_OK then w
      else if jw_depth w = 0 then w
      else
        (let top = jw_depth w - 1
         in if jw_is_object w ! top then
              (if jw_want_key w ! top then w\<lparr>jw_error := USBS_ERR_INTERNAL\<rparr>
               else w\<lparr>jw_want_key := (jw_want_key w)[top := True]\<rparr>)
            else
              (let w1 = (if jw_need_comma w ! top then writer_raw mem w '','' else w)
               in w1\<lparr>jw_need_comma := (jw_need_comma w1)[top := True]\<rparr>)))"

text \<open>What one byte of a string becomes: the \<open>switch\<close> of \<open>writer_escape_string\<close>.\<close>

definition escape_char :: "char \<Rightarrow> string" where
  "escape_char c =
     (if c = CHR 0x22 then [CHR 0x5C, CHR 0x22]
      else if c = CHR 0x5C then [CHR 0x5C, CHR 0x5C]
      else if c = CHR 0x08 then [CHR 0x5C, CHR ''b'']
      else if c = CHR 0x0C then [CHR 0x5C, CHR ''f'']
      else if c = CHR 0x0A then [CHR 0x5C, CHR ''n'']
      else if c = CHR 0x0D then [CHR 0x5C, CHR ''r'']
      else if c = CHR 0x09 then [CHR 0x5C, CHR ''t'']
      else if c < CHR 0x20 then
        [CHR 0x5C, CHR ''u'', CHR ''0'', CHR ''0'',
         hex_lower (of_char c div 16), hex_lower (of_char c mod 16)]
      else [c])"

fun escape_loop :: "allocator \<Rightarrow> json_writer \<Rightarrow> string \<Rightarrow> json_writer" where
  "escape_loop mem w [] = writer_raw mem w [CHR 0x22]"
| "escape_loop mem w (c # cs) =
     (let w1 = writer_raw mem w (escape_char c)
      in if jw_error w1 \<noteq> USBS_OK then w1 else escape_loop mem w1 cs)"

definition writer_escape_string :: "allocator \<Rightarrow> json_writer \<Rightarrow> string \<Rightarrow> json_writer" where
  "writer_escape_string mem w value = escape_loop mem (writer_raw mem w [CHR 0x22]) value"

definition usbs_json_begin_object :: "allocator \<Rightarrow> json_writer \<Rightarrow> json_writer" where
  "usbs_json_begin_object mem w =
     (if jw_error w \<noteq> USBS_OK then w
      else
        (let w1 = writer_before_value mem w
         in if jw_error w1 \<noteq> USBS_OK then w1
            else if jw_depth w1 \<ge> USBS_JSON_MAX_DEPTH then w1\<lparr>jw_error := USBS_ERR_UNSUPPORTED\<rparr>
            else
              (let w2 = writer_raw mem w1 ''{''; d = jw_depth w2
               in w2\<lparr>jw_is_object := (jw_is_object w2)[d := True],
                     jw_need_comma := (jw_need_comma w2)[d := False],
                     jw_want_key := (jw_want_key w2)[d := True],
                     jw_depth := d + 1\<rparr>)))"

definition usbs_json_end_object :: "allocator \<Rightarrow> json_writer \<Rightarrow> json_writer" where
  "usbs_json_end_object mem w =
     (if jw_error w \<noteq> USBS_OK then w
      else if jw_depth w = 0 \<or> \<not> jw_is_object w ! (jw_depth w - 1)
      then w\<lparr>jw_error := USBS_ERR_INTERNAL\<rparr>
      else writer_raw mem (w\<lparr>jw_depth := jw_depth w - 1\<rparr>) ''}'')"

definition usbs_json_begin_array :: "allocator \<Rightarrow> json_writer \<Rightarrow> json_writer" where
  "usbs_json_begin_array mem w =
     (if jw_error w \<noteq> USBS_OK then w
      else
        (let w1 = writer_before_value mem w
         in if jw_error w1 \<noteq> USBS_OK then w1
            else if jw_depth w1 \<ge> USBS_JSON_MAX_DEPTH then w1\<lparr>jw_error := USBS_ERR_UNSUPPORTED\<rparr>
            else
              (let w2 = writer_raw mem w1 ''[''; d = jw_depth w2
               in w2\<lparr>jw_is_object := (jw_is_object w2)[d := False],
                     jw_need_comma := (jw_need_comma w2)[d := False],
                     jw_depth := d + 1\<rparr>)))"

definition usbs_json_end_array :: "allocator \<Rightarrow> json_writer \<Rightarrow> json_writer" where
  "usbs_json_end_array mem w =
     (if jw_error w \<noteq> USBS_OK then w
      else if jw_depth w = 0 \<or> jw_is_object w ! (jw_depth w - 1)
      then w\<lparr>jw_error := USBS_ERR_INTERNAL\<rparr>
      else writer_raw mem (w\<lparr>jw_depth := jw_depth w - 1\<rparr>) '']'')"

text \<open>\<open>None\<close> is a NULL key or value pointer.\<close>

definition usbs_json_key :: "allocator \<Rightarrow> json_writer \<Rightarrow> string option \<Rightarrow> json_writer" where
  "usbs_json_key mem w key =
     (if jw_error w \<noteq> USBS_OK then w
      else
        (case key of
           None \<Rightarrow> w
         | Some k \<Rightarrow>
             (let top = jw_depth w - 1
              in if jw_depth w = 0 \<or> \<not> jw_is_object w ! top \<or> \<not> jw_want_key w ! top
                 then w\<lparr>jw_error := USBS_ERR_INTERNAL\<rparr>
                 else
                   (let w1 = (if jw_need_comma w ! top then writer_raw mem w '','' else w);
                        w2 = writer_escape_string mem w1 k;
                        w3 = writer_raw mem w2 '':''
                    in w3\<lparr>jw_want_key := (jw_want_key w3)[top := False],
                          jw_need_comma := (jw_need_comma w3)[top := True]\<rparr>))))"

text \<open>
  The five scalar writers differ only in what they emit after \<open>writer_before_value\<close>; the
  \<open>snprintf\<close> into \<open>text[32]\<close> of the numeric ones is written out.
\<close>

definition write_scalar :: "allocator \<Rightarrow> json_writer \<Rightarrow> (json_writer \<Rightarrow> json_writer) \<Rightarrow> json_writer" where
  "write_scalar mem w emit =
     (if jw_error w \<noteq> USBS_OK then w
      else
        (let w1 = writer_before_value mem w
         in if jw_error w1 \<noteq> USBS_OK then w1 else emit w1))"

definition usbs_json_string :: "allocator \<Rightarrow> json_writer \<Rightarrow> string option \<Rightarrow> json_writer" where
  "usbs_json_string mem w value =
     write_scalar mem w (\<lambda>w1. writer_escape_string mem w1 (case value of None \<Rightarrow> [] | Some v \<Rightarrow> v))"

definition usbs_json_int :: "allocator \<Rightarrow> json_writer \<Rightarrow> usbs_u64 \<Rightarrow> json_writer" where
  "usbs_json_int mem w value =
     write_scalar mem w (\<lambda>w1. writer_raw mem w1 (snprintf_buf 32 (dec_of_int (sint value))))"

definition usbs_json_uint :: "allocator \<Rightarrow> json_writer \<Rightarrow> usbs_u64 \<Rightarrow> json_writer" where
  "usbs_json_uint mem w value =
     write_scalar mem w (\<lambda>w1. writer_raw mem w1 (snprintf_buf 32 (dec_of_nat (unat value))))"

definition usbs_json_bool_value :: "allocator \<Rightarrow> json_writer \<Rightarrow> bool \<Rightarrow> json_writer" where
  "usbs_json_bool_value mem w value =
     write_scalar mem w (\<lambda>w1. writer_raw mem w1 (if value then ''true'' else ''false''))"

definition usbs_json_null :: "allocator \<Rightarrow> json_writer \<Rightarrow> json_writer" where
  "usbs_json_null mem w = write_scalar mem w (\<lambda>w1. writer_raw mem w1 ''null'')"

definition usbs_json_member_string ::
  "allocator \<Rightarrow> json_writer \<Rightarrow> string option \<Rightarrow> string option \<Rightarrow> json_writer" where
  "usbs_json_member_string mem w key value = usbs_json_string mem (usbs_json_key mem w key) value"

definition usbs_json_member_int ::
  "allocator \<Rightarrow> json_writer \<Rightarrow> string option \<Rightarrow> usbs_u64 \<Rightarrow> json_writer" where
  "usbs_json_member_int mem w key value = usbs_json_int mem (usbs_json_key mem w key) value"

definition usbs_json_member_uint ::
  "allocator \<Rightarrow> json_writer \<Rightarrow> string option \<Rightarrow> usbs_u64 \<Rightarrow> json_writer" where
  "usbs_json_member_uint mem w key value = usbs_json_uint mem (usbs_json_key mem w key) value"

definition usbs_json_member_bool ::
  "allocator \<Rightarrow> json_writer \<Rightarrow> string option \<Rightarrow> bool \<Rightarrow> json_writer" where
  "usbs_json_member_bool mem w key value = usbs_json_bool_value mem (usbs_json_key mem w key) value"

definition usbs_json_writer_finish :: "json_writer \<Rightarrow> usbs_status + string" where
  "usbs_json_writer_finish w =
     (if jw_error w \<noteq> USBS_OK then Inl (jw_error w)
      else if jw_depth w \<noteq> 0 then Inl USBS_ERR_INTERNAL
      else if jw_cap w = 0 then Inl USBS_ERR_INTERNAL
      else Inr (jw_buf w))"

end
