(* ===== verification/JsonWriterSpec.thy ===== *)
theory JsonWriterSpec
  imports JsonWriter
begin

text \<open>
  What json.h promises of the writer, as an abstract machine: a text that only grows, a
  stack of open containers and a sticky error; no buffer, no capacity, no fixed-size flag
  arrays. \<open>jw_abs\<close> maps a concrete writer to it. \<open>jw_sim\<close> is the simulation: the concrete
  writer is well formed and either shows the abstract state or has run out of memory, the
  latter only if the allocator refused a request or the text outgrew \<open>SIZE_MAX / 2\<close>.
\<close>

section \<open>The abstract writer\<close>

datatype frame =
    InObject (need_comma: bool) (want_key: bool)
  | InArray (need_comma: bool)

record abstract_writer =
  aw_text :: string
  aw_frames :: "frame list"
  aw_error :: usbs_status

definition aw_init :: abstract_writer where
  "aw_init = \<lparr>aw_text = [], aw_frames = [], aw_error = USBS_OK\<rparr>"

definition aw_emit :: "string \<Rightarrow> abstract_writer \<Rightarrow> abstract_writer" where
  "aw_emit t a = (if aw_error a = USBS_OK then a\<lparr>aw_text := aw_text a @ t\<rparr> else a)"

definition escape_string :: "string \<Rightarrow> string" where
  "escape_string s = concat (map escape_char s)"

definition quoted :: "string \<Rightarrow> string" where
  "quoted s = CHR 0x22 # escape_string s @ [CHR 0x22]"

definition comma_if :: "bool \<Rightarrow> string" where
  "comma_if b = (if b then '','' else [])"

fun aw_before_value :: "abstract_writer \<Rightarrow> abstract_writer" where
  "aw_before_value a =
     (if aw_error a \<noteq> USBS_OK then a
      else case aw_frames a of
        [] \<Rightarrow> a
      | InObject n True # fs \<Rightarrow> a\<lparr>aw_error := USBS_ERR_INTERNAL\<rparr>
      | InObject n False # fs \<Rightarrow> a\<lparr>aw_frames := InObject n True # fs\<rparr>
      | InArray n # fs \<Rightarrow> aw_emit (comma_if n) (a\<lparr>aw_frames := InArray True # fs\<rparr>))"

definition aw_begin :: "string \<Rightarrow> frame \<Rightarrow> abstract_writer \<Rightarrow> abstract_writer" where
  "aw_begin bracket f a =
     (let b = aw_before_value a
      in if aw_error b \<noteq> USBS_OK then b
         else if length (aw_frames b) \<ge> USBS_JSON_MAX_DEPTH then b\<lparr>aw_error := USBS_ERR_UNSUPPORTED\<rparr>
         else aw_emit bracket (b\<lparr>aw_frames := f # aw_frames b\<rparr>))"

fun aw_end_object :: "abstract_writer \<Rightarrow> abstract_writer" where
  "aw_end_object a =
     (if aw_error a \<noteq> USBS_OK then a
      else case aw_frames a of
        InObject _ _ # fs \<Rightarrow> aw_emit ''}'' (a\<lparr>aw_frames := fs\<rparr>)
      | _ \<Rightarrow> a\<lparr>aw_error := USBS_ERR_INTERNAL\<rparr>)"

fun aw_end_array :: "abstract_writer \<Rightarrow> abstract_writer" where
  "aw_end_array a =
     (if aw_error a \<noteq> USBS_OK then a
      else case aw_frames a of
        InArray _ # fs \<Rightarrow> aw_emit '']'' (a\<lparr>aw_frames := fs\<rparr>)
      | _ \<Rightarrow> a\<lparr>aw_error := USBS_ERR_INTERNAL\<rparr>)"

fun aw_key :: "string \<Rightarrow> abstract_writer \<Rightarrow> abstract_writer" where
  "aw_key k a =
     (if aw_error a \<noteq> USBS_OK then a
      else case aw_frames a of
        InObject n True # fs \<Rightarrow>
          aw_emit (comma_if n @ quoted k @ '':'') (a\<lparr>aw_frames := InObject True False # fs\<rparr>)
      | _ \<Rightarrow> a\<lparr>aw_error := USBS_ERR_INTERNAL\<rparr>)"

definition aw_scalar :: "string \<Rightarrow> abstract_writer \<Rightarrow> abstract_writer" where
  "aw_scalar t a = aw_emit t (aw_before_value a)"

text \<open>The calls a client can make, and what each does concretely and abstractly.\<close>

datatype json_call =
    BeginObject | EndObject | BeginArray | EndArray
  | Key string | WriteString string | WriteInt usbs_u64 | WriteUint usbs_u64
  | WriteBool bool | WriteNull

fun json_step :: "allocator \<Rightarrow> json_call \<Rightarrow> json_writer \<Rightarrow> json_writer" where
  "json_step mem BeginObject w = usbs_json_begin_object mem w"
| "json_step mem EndObject w = usbs_json_end_object mem w"
| "json_step mem BeginArray w = usbs_json_begin_array mem w"
| "json_step mem EndArray w = usbs_json_end_array mem w"
| "json_step mem (Key k) w = usbs_json_key mem w (Some k)"
| "json_step mem (WriteString s) w = usbs_json_string mem w (Some s)"
| "json_step mem (WriteInt i) w = usbs_json_int mem w i"
| "json_step mem (WriteUint n) w = usbs_json_uint mem w n"
| "json_step mem (WriteBool b) w = usbs_json_bool_value mem w b"
| "json_step mem WriteNull w = usbs_json_null mem w"

fun aw_step :: "json_call \<Rightarrow> abstract_writer \<Rightarrow> abstract_writer" where
  "aw_step BeginObject a = aw_begin ''{'' (InObject False True) a"
| "aw_step EndObject a = aw_end_object a"
| "aw_step BeginArray a = aw_begin ''['' (InArray False) a"
| "aw_step EndArray a = aw_end_array a"
| "aw_step (Key k) a = aw_key k a"
| "aw_step (WriteString s) a = aw_scalar (quoted s) a"
| "aw_step (WriteInt i) a = aw_scalar (dec_of_int (sint i)) a"
| "aw_step (WriteUint n) a = aw_scalar (dec_of_nat (unat n)) a"
| "aw_step (WriteBool b) a = aw_scalar (if b then ''true'' else ''false'') a"
| "aw_step WriteNull a = aw_scalar ''null'' a"

definition json_run :: "allocator \<Rightarrow> json_call list \<Rightarrow> json_writer \<Rightarrow> json_writer" where
  "json_run mem calls w = fold (json_step mem) calls w"

definition aw_run :: "json_call list \<Rightarrow> abstract_writer \<Rightarrow> abstract_writer" where
  "aw_run calls a = fold aw_step calls a"

section \<open>Well-formed writers and the abstraction\<close>

definition jw_wf :: "json_writer \<Rightarrow> bool" where
  "jw_wf w \<longleftrightarrow>
     jw_depth w \<le> USBS_JSON_MAX_DEPTH \<and>
     length (jw_is_object w) = USBS_JSON_MAX_DEPTH \<and>
     length (jw_need_comma w) = USBS_JSON_MAX_DEPTH \<and>
     length (jw_want_key w) = USBS_JSON_MAX_DEPTH \<and>
     (if jw_cap w = 0 then jw_buf w = [] else length (jw_buf w) < jw_cap w)"

definition frame_at :: "json_writer \<Rightarrow> nat \<Rightarrow> frame" where
  "frame_at w i =
     (if jw_is_object w ! i then InObject (jw_need_comma w ! i) (jw_want_key w ! i)
      else InArray (jw_need_comma w ! i))"

definition jw_abs :: "json_writer \<Rightarrow> abstract_writer" where
  "jw_abs w =
     \<lparr>aw_text = jw_buf w, aw_frames = map (frame_at w) (rev [0..<jw_depth w]),
      aw_error = jw_error w\<rparr>"

text \<open>When a refused allocation is the only thing that can have gone wrong.\<close>

definition out_of_memory :: "allocator \<Rightarrow> string \<Rightarrow> bool" where
  "out_of_memory mem txt \<longleftrightarrow> (\<exists>n. \<not> mem n) \<or> SIZE_MAX div 2 < length txt + 1"

definition jw_sim :: "allocator \<Rightarrow> json_writer \<Rightarrow> abstract_writer \<Rightarrow> bool" where
  "jw_sim mem w a \<longleftrightarrow>
     jw_wf w \<and>
     (jw_abs w = a \<or> jw_error w = USBS_ERR_NO_MEMORY \<and> out_of_memory mem (aw_text a))"

lemma out_of_memory_append: "out_of_memory mem t \<Longrightarrow> out_of_memory mem (t @ u)"
  by (auto simp: out_of_memory_def)

lemma jw_abs_simps [simp]:
  "aw_text (jw_abs w) = jw_buf w" "aw_error (jw_abs w) = jw_error w"
  "aw_frames (jw_abs w) = map (frame_at w) (rev [0..<jw_depth w])"
  by (simp_all add: jw_abs_def)

lemma frames_top:
  "jw_depth w = Suc k \<Longrightarrow>
     aw_frames (jw_abs w) = frame_at w k # map (frame_at w) (rev [0..<k])"
  by simp

text \<open>Writing the flags of one level changes no other level's frame.\<close>

lemma frames_cong:
  "(\<And>i. i < k \<Longrightarrow> frame_at w i = frame_at v i) \<Longrightarrow>
     map (frame_at w) (rev [0..<k]) = map (frame_at v) (rev [0..<k])"
  by simp

lemma jw_wf_init [usbs_invariant]: "jw_wf usbs_json_writer_init"
  by (simp add: jw_wf_def usbs_json_writer_init_def)

lemma jw_abs_init: "jw_abs usbs_json_writer_init = aw_init"
  by (simp add: jw_abs_def usbs_json_writer_init_def aw_init_def)

lemma jw_sim_init: "jw_sim mem usbs_json_writer_init aw_init"
  by (simp add: jw_sim_def jw_wf_init jw_abs_init)

section \<open>The simulation, operation by operation\<close>

lemma writer_ensure_cases:
  assumes "jw_wf w" and "jw_error w = USBS_OK"
  shows "(\<exists>c. writer_ensure mem w n = w\<lparr>jw_cap := c\<rparr> \<and> length (jw_buf w) + n < c) \<or>
         writer_ensure mem w n = w\<lparr>jw_error := USBS_ERR_NO_MEMORY\<rparr> \<and>
           ((\<exists>k. \<not> mem k) \<or> SIZE_MAX div 2 < length (jw_buf w) + n + 1)"
proof (cases "length (jw_buf w) + n + 1 \<le> jw_cap w")
  case True
  with assms show ?thesis by (intro disjI1 exI [of _ "jw_cap w"]) (simp add: writer_ensure_def)
next
  case False
  define start where "start = (if jw_cap w = 0 then 256 else jw_cap w)"
  have "0 < start" by (simp add: start_def)
  show ?thesis
  proof (cases "grow_cap start (length (jw_buf w) + n + 1)")
    case None
    with False assms grow_cap_None [OF None] show ?thesis
      by (simp add: writer_ensure_def start_def)
  next
    case (Some c)
    with grow_cap_Some [OF Some \<open>0 < start\<close>] False assms show ?thesis
      by (cases "mem c") (auto simp: writer_ensure_def start_def)
  qed
qed

lemma writer_raw_cases:
  assumes "jw_wf w" and "jw_error w = USBS_OK"
  shows "(\<exists>c. writer_raw mem w t = w\<lparr>jw_cap := c, jw_buf := jw_buf w @ t\<rparr> \<and>
              length (jw_buf w @ t) < c) \<or>
         writer_raw mem w t = w\<lparr>jw_error := USBS_ERR_NO_MEMORY\<rparr> \<and> out_of_memory mem (jw_buf w @ t)"
  using writer_ensure_cases [OF assms, of mem "length t"] assms(2)
  by (auto simp: writer_raw_def Let_def out_of_memory_def)

lemma writer_raw_error [simp]: "jw_error w \<noteq> USBS_OK \<Longrightarrow> writer_raw mem w t = w"
  by (simp add: writer_raw_def writer_ensure_def)

lemma writer_raw_flags [simp]:
  "jw_depth (writer_raw mem w t) = jw_depth w"
  "jw_is_object (writer_raw mem w t) = jw_is_object w"
  "jw_need_comma (writer_raw mem w t) = jw_need_comma w"
  "jw_want_key (writer_raw mem w t) = jw_want_key w"
  by (auto simp: writer_raw_def writer_ensure_def Let_def split: option.splits)

lemma frame_at_writer_raw [simp]: "frame_at (writer_raw mem w t) = frame_at w"
  by (simp add: frame_at_def fun_eq_iff)

lemma sim_error: "jw_sim mem w a \<Longrightarrow> jw_error w = USBS_OK \<Longrightarrow> jw_wf w \<and> a = jw_abs w"
  by (auto simp: jw_sim_def)

lemma sim_stuck:
  "jw_sim mem w a \<Longrightarrow> jw_error w \<noteq> USBS_OK \<Longrightarrow> aw_error a = USBS_OK \<Longrightarrow>
     jw_error w = USBS_ERR_NO_MEMORY \<and> out_of_memory mem (aw_text a)"
  by (auto simp: jw_sim_def)

lemma sim_writer_raw:
  assumes "jw_sim mem w a"
  shows "jw_sim mem (writer_raw mem w t) (aw_emit t a)"
proof (cases "jw_error w = USBS_OK")
  case True
  with sim_error [OF assms] have wf: "jw_wf w" and a: "a = jw_abs w" by auto
  from writer_raw_cases [OF wf True, of mem t] show ?thesis
  proof (elim disjE exE conjE)
    fix c
    assume "writer_raw mem w t = w\<lparr>jw_cap := c, jw_buf := jw_buf w @ t\<rparr>"
      and "length (jw_buf w @ t) < c"
    with wf a True show ?thesis
      by (auto simp: jw_sim_def jw_wf_def aw_emit_def jw_abs_def frame_at_def)
  next
    assume "writer_raw mem w t = w\<lparr>jw_error := USBS_ERR_NO_MEMORY\<rparr>"
      and "out_of_memory mem (jw_buf w @ t)"
    with wf a True show ?thesis
      by (auto simp: jw_sim_def jw_wf_def aw_emit_def)
  qed
next
  case False
  with assms show ?thesis
    by (auto simp: jw_sim_def aw_emit_def intro: out_of_memory_append)
qed

text \<open>
  A change of the flags alone is simulated by a change of the frames alone, whatever the
  state of the buffer.
\<close>

lemma sim_flags:
  assumes "jw_sim mem w a" and "jw_wf w \<Longrightarrow> jw_wf (f w)"
    and "jw_error (f w) = jw_error w" and "jw_buf (f w) = jw_buf w"
    and "a = jw_abs w \<Longrightarrow> aw_frames (g a) = aw_frames (jw_abs (f w))"
    and "aw_text (g a) = aw_text a" and "aw_error (g a) = aw_error a"
  shows "jw_sim mem (f w) (g a)"
proof -
  have "jw_abs w = a \<Longrightarrow> jw_abs (f w) = g a"
    using assms(3-7) by (intro abstract_writer.equality) auto
  with assms show ?thesis by (auto simp: jw_sim_def)
qed

lemma aw_text_emit_mono: "\<exists>u. aw_text (aw_emit t a) = aw_text a @ u"
  by (auto simp: aw_emit_def)

lemma sim_escape_loop:
  "jw_sim mem w a \<Longrightarrow> jw_sim mem (escape_loop mem w s) (aw_emit (escape_string s @ [CHR 0x22]) a)"
proof (induction s arbitrary: w a)
  case Nil
  then show ?case by (simp add: escape_string_def sim_writer_raw)
next
  case (Cons c cs)
  let ?w1 = "writer_raw mem w (escape_char c)" and ?a1 = "aw_emit (escape_char c) a"
  have s1: "jw_sim mem ?w1 ?a1" by (rule sim_writer_raw [OF Cons.prems])
  have emit: "aw_emit (escape_string (c # cs) @ [CHR 0x22]) a =
      aw_emit (escape_string cs @ [CHR 0x22]) ?a1"
    by (simp add: aw_emit_def escape_string_def)
  show ?case
  proof (cases "jw_error ?w1 = USBS_OK")
    case True
    with Cons.IH [OF s1] emit show ?thesis by (simp add: Let_def)
  next
    case False
    have "jw_sim mem ?w1 (aw_emit (escape_string cs @ [CHR 0x22]) ?a1)"
      using sim_writer_raw [OF s1, of "escape_string cs @ [CHR 0x22]"] False by simp
    with False emit show ?thesis by (simp add: Let_def)
  qed
qed

lemma sim_escape_string:
  "jw_sim mem w a \<Longrightarrow> jw_sim mem (writer_escape_string mem w s) (aw_emit (quoted s) a)"
  using sim_escape_loop [OF sim_writer_raw, of mem w a "[CHR 0x22]" s]
  by (simp add: writer_escape_string_def quoted_def aw_emit_def split: if_splits)


text \<open>A writer that has stopped on an error is simulated by whatever the abstract one goes on to do.\<close>

lemma sim_stopped:
  assumes "jw_sim mem w a" and "jw_error w \<noteq> USBS_OK"
    and "aw_error a \<noteq> USBS_OK \<Longrightarrow> b = a" and "prefix (aw_text a) (aw_text b)"
  shows "jw_sim mem w b"
  using assms by (auto simp: jw_sim_def prefix_def intro: out_of_memory_append)

lemma aw_emit_error [simp]: "aw_error a \<noteq> USBS_OK \<Longrightarrow> aw_emit t a = a"
  by (simp add: aw_emit_def)

lemma aw_emit_simps [simp]:
  "aw_error (aw_emit t a) = aw_error a" "aw_frames (aw_emit t a) = aw_frames a"
  "aw_error a = USBS_OK \<Longrightarrow> aw_text (aw_emit t a) = aw_text a @ t"
  by (simp_all add: aw_emit_def)

lemma prefix_emit [simp]: "prefix (aw_text a) (aw_text (aw_emit t a))"
  by (cases "aw_error a = USBS_OK") simp_all

lemma prefix_before_value [simp]: "prefix (aw_text a) (aw_text (aw_before_value a))"
  by (auto simp: aw_emit_def split: list.splits frame.splits bool.splits)

lemma before_value_error [simp]: "aw_error a \<noteq> USBS_OK \<Longrightarrow> aw_before_value a = a"
  by simp

declare aw_before_value.simps [simp del]

lemma frames_of_object:
  assumes "jw_depth w = Suc k" and "jw_is_object w ! k"
  shows "aw_frames (jw_abs w) =
    InObject (jw_need_comma w ! k) (jw_want_key w ! k) # map (frame_at w) (rev [0..<k])"
  using assms by (simp add: frame_at_def)

lemma frames_of_array:
  assumes "jw_depth w = Suc k" and "\<not> jw_is_object w ! k"
  shows "aw_frames (jw_abs w) = InArray (jw_need_comma w ! k) # map (frame_at w) (rev [0..<k])"
  using assms by (simp add: frame_at_def)

lemma wf_flags:
  "jw_wf w \<Longrightarrow> jw_wf (w\<lparr>jw_want_key := (jw_want_key w)[i := b]\<rparr>)"
  "jw_wf w \<Longrightarrow> jw_wf (w\<lparr>jw_need_comma := (jw_need_comma w)[i := b]\<rparr>)"
  by (simp_all add: jw_wf_def)

lemma aw_emit_Nil [simp]: "aw_emit [] a = a"
  by (simp add: aw_emit_def)

lemma sim_comma:
  "jw_sim mem w a \<Longrightarrow> jw_sim mem (if b then writer_raw mem w '','' else w) (aw_emit (comma_if b) a)"
  by (cases b) (simp_all add: comma_if_def sim_writer_raw)

lemma sim_before_value:
  assumes "jw_sim mem w a"
  shows "jw_sim mem (writer_before_value mem w) (aw_before_value a)"
proof (cases "jw_error w = USBS_OK")
  case False
  with assms show ?thesis
    by (auto simp: writer_before_value_def intro: sim_stopped)
next
  case ok: True
  with sim_error [OF assms] have wf: "jw_wf w" and a: "a = jw_abs w" by auto
  show ?thesis
  proof (cases "jw_depth w")
    case 0
    with ok a assms show ?thesis by (simp add: writer_before_value_def aw_before_value.simps)
  next
    case (Suc k)
    with wf have k: "k < USBS_JSON_MAX_DEPTH" by (simp add: jw_wf_def)
    show ?thesis
    proof (cases "jw_is_object w ! k")
      case True
      show ?thesis
      proof (cases "jw_want_key w ! k")
        case want: True
        with ok Suc True wf a frames_of_object [OF Suc True] show ?thesis
          by (auto simp: writer_before_value_def aw_before_value.simps jw_sim_def jw_wf_def jw_abs_def
              frame_at_def Let_def)
      next
        case False
        let ?w' = "w\<lparr>jw_want_key := (jw_want_key w)[k := True]\<rparr>"
        have "writer_before_value mem w = ?w'"
          using ok Suc True False by (simp add: writer_before_value_def)
        moreover have "jw_abs ?w' = aw_before_value a"
          using ok Suc True False wf k a
          by (auto simp: aw_before_value.simps jw_abs_def frame_at_def jw_wf_def)
        ultimately show ?thesis using wf by (simp add: jw_sim_def wf_flags)
      qed
    next
      case False
      let ?n = "jw_need_comma w ! k"
      let ?f = "\<lambda>v. v\<lparr>jw_need_comma := (jw_need_comma v)[k := True]\<rparr>"
      let ?g = "\<lambda>b. b\<lparr>aw_frames := InArray True # tl (aw_frames b)\<rparr>"
      let ?w1 = "if ?n then writer_raw mem w '','' else w"
      have s1: "jw_sim mem ?w1 (aw_emit (comma_if ?n) a)"
        by (rule sim_comma [OF assms])
      have depth: "jw_depth ?w1 = Suc k" "jw_is_object ?w1 = jw_is_object w"
          "jw_need_comma ?w1 = jw_need_comma w"
        using Suc by simp_all
      have "jw_sim mem (?f ?w1) (?g (aw_emit (comma_if ?n) a))"
      proof (rule sim_flags [OF s1])
        show "aw_frames (?g (aw_emit (comma_if ?n) a)) = aw_frames (jw_abs (?f ?w1))"
          if "aw_emit (comma_if ?n) a = jw_abs ?w1"
          using that depth False k wf Suc a by (auto simp: frame_at_def jw_wf_def)
      qed (simp_all add: wf_flags)
      moreover have "writer_before_value mem w = ?f ?w1"
        using ok Suc False by (simp add: writer_before_value_def Let_def)
      moreover have "?g (aw_emit (comma_if ?n) a) = aw_before_value a"
        using ok Suc False a frames_of_array [OF Suc False]
        by (simp add: aw_before_value.simps aw_emit_def)
      ultimately show ?thesis by simp
    qed
  qed
qed


lemma sim_set_error:
  "jw_wf w \<Longrightarrow> jw_sim mem (w\<lparr>jw_error := e\<rparr>) ((jw_abs w)\<lparr>aw_error := e\<rparr>)"
  by (auto simp: jw_sim_def jw_wf_def jw_abs_def frame_at_def)

text \<open>Opening a container: both C functions have this shape, up to the flags they set.\<close>

lemma sim_begin:
  assumes sim: "jw_sim mem w a" and f: "\<And>v. jw_wf v \<Longrightarrow> jw_depth v < USBS_JSON_MAX_DEPTH \<Longrightarrow> jw_wf (f v) \<and>
      jw_error (f v) = jw_error v \<and> jw_buf (f v) = jw_buf v \<and>
      aw_frames (jw_abs (f v)) = fr # aw_frames (jw_abs v)"
  shows "jw_sim mem
    (if jw_error w \<noteq> USBS_OK then w
     else let w1 = writer_before_value mem w
          in if jw_error w1 \<noteq> USBS_OK then w1
             else if jw_depth w1 \<ge> USBS_JSON_MAX_DEPTH then w1\<lparr>jw_error := USBS_ERR_UNSUPPORTED\<rparr>
             else f (writer_raw mem w1 br))
    (aw_begin br fr a)"
proof -
  let ?w1 = "writer_before_value mem w" and ?b = "aw_before_value a"
  have s1: "jw_sim mem ?w1 ?b" by (rule sim_before_value [OF sim])
  have pre: "prefix (aw_text ?b) (aw_text (aw_begin br fr a))"
    by (simp add: aw_begin_def Let_def aw_emit_def)
  have err: "aw_error ?b \<noteq> USBS_OK \<Longrightarrow> aw_begin br fr a = ?b"
    by (simp add: aw_begin_def Let_def)
  consider (stop) "jw_error w \<noteq> USBS_OK" | (stop1) "jw_error w = USBS_OK" "jw_error ?w1 \<noteq> USBS_OK"
    | (deep) "jw_error w = USBS_OK" "jw_error ?w1 = USBS_OK" "jw_depth ?w1 \<ge> USBS_JSON_MAX_DEPTH"
    | (go) "jw_error w = USBS_OK" "jw_error ?w1 = USBS_OK" "jw_depth ?w1 < USBS_JSON_MAX_DEPTH"
    by force
  then show ?thesis
  proof cases
    case stop
    have "jw_sim mem w (aw_begin br fr a)"
      by (rule sim_stopped [OF sim stop])
         (auto simp: err intro: prefix_order.order_trans [OF prefix_before_value pre])
    with stop show ?thesis by simp
  next
    case stop1
    have "jw_sim mem ?w1 (aw_begin br fr a)"
      by (rule sim_stopped [OF s1 stop1(2)]) (auto simp: err pre)
    with stop1 show ?thesis by (simp add: Let_def)
  next
    case deep
    with sim_error [OF s1] have "jw_wf ?w1" and b: "?b = jw_abs ?w1" by auto
    then have "jw_sim mem (?w1\<lparr>jw_error := USBS_ERR_UNSUPPORTED\<rparr>) (?b\<lparr>aw_error := USBS_ERR_UNSUPPORTED\<rparr>)"
      by (simp add: sim_set_error)
    with deep b show ?thesis by (simp add: Let_def aw_begin_def)
  next
    case go
    with sim_error [OF s1] have wf: "jw_wf ?w1" and b: "?b = jw_abs ?w1" by auto
    let ?w2 = "writer_raw mem ?w1 br" and ?c = "aw_emit br ?b"
    let ?g = "\<lambda>c. c\<lparr>aw_frames := fr # aw_frames c\<rparr>"
    have s2: "jw_sim mem ?w2 ?c" by (rule sim_writer_raw [OF s1])
    then have wf2: "jw_wf ?w2" by (simp add: jw_sim_def)
    have f2: "jw_wf (f ?w2) \<and> jw_error (f ?w2) = jw_error ?w2 \<and> jw_buf (f ?w2) = jw_buf ?w2 \<and>
        aw_frames (jw_abs (f ?w2)) = fr # aw_frames (jw_abs ?w2)"
      using go by (intro f wf2) simp
    have "jw_sim mem (f ?w2) (?g ?c)"
      by (rule sim_flags [OF s2]) (use f2 in simp_all)
    moreover have "?g ?c = aw_begin br fr a"
      using go b by (simp add: aw_begin_def Let_def aw_emit_def)
    ultimately show ?thesis using go by (simp add: Let_def)
  qed
qed

lemma map_frame_cong:
  "(\<And>i. i < d \<Longrightarrow> frame_at v i = frame_at w i) \<Longrightarrow>
     map (frame_at v) (rev [0..<d]) = map (frame_at w) (rev [0..<d])"
  by simp

lemma sim_begin_object:
  assumes "jw_sim mem w a"
  shows "jw_sim mem (usbs_json_begin_object mem w) (aw_begin ''{'' (InObject False True) a)"
proof -
  let ?f = "\<lambda>v. v\<lparr>jw_is_object := (jw_is_object v)[jw_depth v := True],
      jw_need_comma := (jw_need_comma v)[jw_depth v := False],
      jw_want_key := (jw_want_key v)[jw_depth v := True], jw_depth := jw_depth v + 1\<rparr>"
  show ?thesis
    using sim_begin [where f = ?f and fr = "InObject False True" and br = "''{''", OF assms]
    by (auto simp: usbs_json_begin_object_def Let_def jw_wf_def frame_at_def)
qed

lemma sim_begin_array:
  assumes "jw_sim mem w a"
  shows "jw_sim mem (usbs_json_begin_array mem w) (aw_begin ''['' (InArray False) a)"
proof -
  let ?f = "\<lambda>v. v\<lparr>jw_is_object := (jw_is_object v)[jw_depth v := False],
      jw_need_comma := (jw_need_comma v)[jw_depth v := False], jw_depth := jw_depth v + 1\<rparr>"
  show ?thesis
    using sim_begin [where f = ?f and fr = "InArray False" and br = "''[''", OF assms]
    by (auto simp: usbs_json_begin_array_def Let_def jw_wf_def frame_at_def)
qed

text \<open>Closing a container.\<close>

lemma sim_end_object:
  assumes "jw_sim mem w a"
  shows "jw_sim mem (usbs_json_end_object mem w) (aw_end_object a)"
proof (cases "jw_error w = USBS_OK")
  case False
  have "prefix (aw_text a) (aw_text (aw_end_object a))"
    by (auto simp: aw_emit_def split: list.splits frame.splits)
  with False assms show ?thesis
    by (auto simp: usbs_json_end_object_def intro!: sim_stopped [of mem w a])
next
  case ok: True
  with sim_error [OF assms] have wf: "jw_wf w" and a: "a = jw_abs w" by auto
  show ?thesis
  proof (cases "jw_depth w = 0 \<or> \<not> jw_is_object w ! (jw_depth w - 1)")
    case True
    with ok a have "aw_end_object a = (jw_abs w)\<lparr>aw_error := USBS_ERR_INTERNAL\<rparr>"
      by (cases "jw_depth w") (auto simp: frame_at_def)
    with True ok wf show ?thesis by (simp add: usbs_json_end_object_def sim_set_error)
  next
    case False
    then obtain k where k: "jw_depth w = Suc k" "jw_is_object w ! k" by (cases "jw_depth w") auto
    let ?w1 = "w\<lparr>jw_depth := k\<rparr>" and ?a1 = "a\<lparr>aw_frames := tl (aw_frames a)\<rparr>"
    have "jw_sim mem ?w1 ?a1"
      using wf a k by (auto simp: jw_sim_def jw_wf_def jw_abs_def frame_at_def)
    then have "jw_sim mem (writer_raw mem ?w1 ''}'') (aw_emit ''}'' ?a1)" by (rule sim_writer_raw)
    with k ok a show ?thesis by (simp add: usbs_json_end_object_def frame_at_def)
  qed
qed

lemma sim_end_array:
  assumes "jw_sim mem w a"
  shows "jw_sim mem (usbs_json_end_array mem w) (aw_end_array a)"
proof (cases "jw_error w = USBS_OK")
  case False
  have "prefix (aw_text a) (aw_text (aw_end_array a))"
    by (auto simp: aw_emit_def split: list.splits frame.splits)
  with False assms show ?thesis
    by (auto simp: usbs_json_end_array_def intro!: sim_stopped [of mem w a])
next
  case ok: True
  with sim_error [OF assms] have wf: "jw_wf w" and a: "a = jw_abs w" by auto
  show ?thesis
  proof (cases "jw_depth w = 0 \<or> jw_is_object w ! (jw_depth w - 1)")
    case True
    with ok a have "aw_end_array a = (jw_abs w)\<lparr>aw_error := USBS_ERR_INTERNAL\<rparr>"
      by (cases "jw_depth w") (auto simp: frame_at_def)
    with True ok wf show ?thesis by (simp add: usbs_json_end_array_def sim_set_error)
  next
    case False
    then obtain k where k: "jw_depth w = Suc k" "\<not> jw_is_object w ! k" by (cases "jw_depth w") auto
    let ?w1 = "w\<lparr>jw_depth := k\<rparr>" and ?a1 = "a\<lparr>aw_frames := tl (aw_frames a)\<rparr>"
    have "jw_sim mem ?w1 ?a1"
      using wf a k by (auto simp: jw_sim_def jw_wf_def jw_abs_def frame_at_def)
    then have "jw_sim mem (writer_raw mem ?w1 '']'') (aw_emit '']'' ?a1)" by (rule sim_writer_raw)
    with k ok a show ?thesis by (simp add: usbs_json_end_array_def frame_at_def)
  qed
qed


text \<open>Keys and scalars.\<close>

lemma writer_escape_flags [simp]:
  "jw_depth (escape_loop mem w s) = jw_depth w" "jw_is_object (escape_loop mem w s) = jw_is_object w"
  "jw_need_comma (escape_loop mem w s) = jw_need_comma w"
  "jw_want_key (escape_loop mem w s) = jw_want_key w"
  by (induction s arbitrary: w) (simp_all add: Let_def)

lemma sim_key:
  assumes "jw_sim mem w a"
  shows "jw_sim mem (usbs_json_key mem w (Some s)) (aw_key s a)"
proof (cases "jw_error w = USBS_OK")
  case False
  have "prefix (aw_text a) (aw_text (aw_key s a))"
    by (auto simp: aw_emit_def split: list.splits frame.splits bool.splits)
  with False assms show ?thesis
    by (auto simp: usbs_json_key_def intro!: sim_stopped [of mem w a])
next
  case ok: True
  with sim_error [OF assms] have wf: "jw_wf w" and a: "a = jw_abs w" by auto
  show ?thesis
  proof (cases "jw_depth w = 0 \<or> \<not> jw_is_object w ! (jw_depth w - 1) \<or> \<not> jw_want_key w ! (jw_depth w - 1)")
    case True
    with ok a have "aw_key s a = (jw_abs w)\<lparr>aw_error := USBS_ERR_INTERNAL\<rparr>"
      by (cases "jw_depth w") (auto simp: frame_at_def)
    moreover from True ok have "usbs_json_key mem w (Some s) = w\<lparr>jw_error := USBS_ERR_INTERNAL\<rparr>"
      by (auto simp: usbs_json_key_def Let_def)
    ultimately show ?thesis using wf by (simp add: sim_set_error)
  next
    case False
    then obtain k where k: "jw_depth w = Suc k" "jw_is_object w ! k" "jw_want_key w ! k"
      by (cases "jw_depth w") auto
    let ?n = "jw_need_comma w ! k"
    let ?w1 = "if ?n then writer_raw mem w '','' else w"
    let ?w3 = "writer_raw mem (writer_escape_string mem ?w1 s) '':''"
    let ?b = "aw_emit '':'' (aw_emit (quoted s) (aw_emit (comma_if ?n) a))"
    let ?f = "\<lambda>v. v\<lparr>jw_want_key := (jw_want_key v)[k := False], jw_need_comma := (jw_need_comma v)[k := True]\<rparr>"
    let ?g = "\<lambda>b. b\<lparr>aw_frames := InObject True False # tl (aw_frames b)\<rparr>"
    have s3: "jw_sim mem ?w3 ?b"
      by (intro sim_writer_raw sim_escape_string sim_comma assms)
    have flags: "jw_depth ?w3 = Suc k" "jw_is_object ?w3 = jw_is_object w"
        "jw_want_key ?w3 = jw_want_key w" "jw_need_comma ?w3 = jw_need_comma w"
      using k by (simp_all add: writer_escape_string_def)
    have "jw_sim mem (?f ?w3) (?g ?b)"
    proof (rule sim_flags [OF s3])
      show "aw_frames (?g ?b) = aw_frames (jw_abs (?f ?w3))" if "?b = jw_abs ?w3"
        using that flags k wf a by (auto simp: frame_at_def jw_wf_def)
    qed (simp_all add: jw_wf_def)
    moreover have "usbs_json_key mem w (Some s) = ?f ?w3"
      using ok k flags(3,4) by (simp add: usbs_json_key_def Let_def)
    moreover have "?g ?b = aw_key s a"
      using ok k a by (simp add: frame_at_def aw_emit_def)
    ultimately show ?thesis by simp
  qed
qed

lemma sim_scalar:
  assumes sim: "jw_sim mem w a"
    and emit: "\<And>v b. jw_sim mem v b \<Longrightarrow> jw_sim mem (emit v) (aw_emit t b)"
  shows "jw_sim mem (write_scalar mem w emit) (aw_scalar t a)"
proof -
  let ?w1 = "writer_before_value mem w" and ?b = "aw_before_value a"
  have s1: "jw_sim mem ?w1 ?b" by (rule sim_before_value [OF sim])
  consider (stop) "jw_error w \<noteq> USBS_OK" | (stop1) "jw_error w = USBS_OK" "jw_error ?w1 \<noteq> USBS_OK"
    | (go) "jw_error w = USBS_OK" "jw_error ?w1 = USBS_OK"
    by auto
  then show ?thesis
  proof cases
    case stop
    have "jw_sim mem w (aw_scalar t a)"
      by (rule sim_stopped [OF sim stop])
         (auto simp: aw_scalar_def intro: prefix_order.order_trans [OF prefix_before_value prefix_emit])
    with stop show ?thesis by (simp add: write_scalar_def)
  next
    case stop1
    have "jw_sim mem ?w1 (aw_scalar t a)"
      by (rule sim_stopped [OF s1 stop1(2)]) (auto simp: aw_scalar_def)
    with stop1 show ?thesis by (simp add: write_scalar_def)
  next
    case go
    with emit [OF s1] show ?thesis by (simp add: write_scalar_def aw_scalar_def)
  qed
qed

lemma i64_dec_length: "length (dec_of_int (sint (n :: usbs_u64))) \<le> 21"
proof -
  have "sint n < 2 ^ 63" "- (2 ^ 63) \<le> sint n" using sint_lt [of n] sint_ge [of n] by simp_all
  then have "nat (sint n) < 10 ^ 20" "nat (- sint n) < 10 ^ 20" by simp_all
  from this [THEN length_dec_of_nat] show ?thesis by (simp add: dec_of_int_def)
qed

text \<open>The \<open>text[32]\<close> buffers of the integer writers never truncate.\<close>

lemma int_buffers [simp]:
  "snprintf_buf 32 (dec_of_nat (unat (n :: usbs_u64))) = dec_of_nat (unat n)"
  "snprintf_buf 32 (dec_of_int (sint (m :: usbs_u64))) = dec_of_int (sint m)"
  using u64_dec_length [of n] i64_dec_length [of m] by simp_all

lemma sim_step:
  assumes "jw_sim mem w a"
  shows "jw_sim mem (json_step mem call w) (aw_step call a)"
  using assms
  by (cases call)
     (auto intro!: sim_begin_object sim_end_object sim_begin_array sim_end_array sim_key sim_scalar
        sim_escape_string sim_writer_raw
      simp: usbs_json_string_def usbs_json_int_def usbs_json_uint_def usbs_json_bool_value_def
        usbs_json_null_def simp del: aw_end_object.simps aw_end_array.simps aw_key.simps)

lemma sim_run: "jw_sim mem w a \<Longrightarrow> jw_sim mem (json_run mem calls w) (aw_run calls a)"
  unfolding json_run_def aw_run_def
  by (induction calls arbitrary: w a) (simp_all add: sim_step)

declare aw_end_object.simps [simp del] aw_end_array.simps [simp del] aw_key.simps [simp del]

section \<open>What a finished writer returns\<close>

lemma json_run_wf [usbs_invariant]: "jw_wf (json_run mem calls usbs_json_writer_init)"
  using sim_run [OF jw_sim_init] by (auto simp: jw_sim_def)

text \<open>A writer that reports success has written exactly the abstract text.\<close>

lemma finish_ok:
  assumes "usbs_json_writer_finish (json_run mem calls usbs_json_writer_init) = Inr txt"
  shows "aw_run calls aw_init = \<lparr>aw_text = txt, aw_frames = [], aw_error = USBS_OK\<rparr>"
proof -
  let ?w = "json_run mem calls usbs_json_writer_init"
  from assms have w: "jw_error ?w = USBS_OK" "jw_depth ?w = 0" "jw_buf ?w = txt"
    by (auto simp: usbs_json_writer_finish_def split: if_splits)
  with sim_run [OF jw_sim_init, of mem calls] have "aw_run calls aw_init = jw_abs ?w"
    by (auto simp: jw_sim_def)
  with w show ?thesis by (simp add: jw_abs_def)
qed

lemma finish_complete:
  assumes "aw_run calls aw_init = \<lparr>aw_text = txt, aw_frames = [], aw_error = USBS_OK\<rparr>"
    and "txt \<noteq> []" and "\<not> out_of_memory mem txt"
  shows "usbs_json_writer_finish (json_run mem calls usbs_json_writer_init) = Inr txt"
proof -
  let ?w = "json_run mem calls usbs_json_writer_init"
  from sim_run [OF jw_sim_init, of mem calls] assms(1,3)
  have wf: "jw_wf ?w" and abs: "jw_abs ?w = \<lparr>aw_text = txt, aw_frames = [], aw_error = USBS_OK\<rparr>"
    by (auto simp: jw_sim_def)
  from arg_cong [OF abs, of aw_text] arg_cong [OF abs, of aw_frames] arg_cong [OF abs, of aw_error]
  have fields: "jw_buf ?w = txt" "jw_depth ?w = 0" "jw_error ?w = USBS_OK" by simp_all
  with wf assms(2) have "jw_cap ?w \<noteq> 0" by (cases "jw_cap ?w = 0") (simp_all add: jw_wf_def)
  with fields show ?thesis by (simp add: usbs_json_writer_finish_def)
qed

section \<open>The contract\<close>




end
