(* ===== verification/JsonReader.thy ===== *)
theory JsonReader
  imports JsonWriter
begin

text \<open>
  The JSON reader of src/core/json.c (lines 319-998). A parser position is the unread rest
  of the text: \<open>p->text + p->pos\<close> up to \<open>p->len\<close> is one byte list, \<open>++p->pos\<close> takes its tail and
  \<open>at_end\<close> is emptiness; the recursion depth is an argument, because every path of the C code
  restores it. The \<open>switch\<close> and loop structure, the allocations and the order of the checks
  are those of the source.
\<close>

section \<open>Numbers: \<open>strtod\<close> and doubles\<close>

text \<open>
  A finite double is \<open>m * 2 ^ e\<close>. \<open>round_ratio\<close> is the correctly rounded (to nearest, ties to
  even) double of a non-negative ratio, with gradual underflow and overflow to infinity.
\<close>

datatype cdouble = Dyadic int int | Infinite bool

fun log2_floor :: "nat \<Rightarrow> nat" where
  "log2_floor n = (if n < 2 then 0 else Suc (log2_floor (n div 2)))"

declare log2_floor.simps [simp del]

definition scale_down :: "nat \<Rightarrow> nat \<Rightarrow> int \<Rightarrow> nat \<times> nat" where
  "scale_down num den e =
     (if 0 \<le> e then (num, den * 2 ^ nat e) else (num * 2 ^ nat (- e), den))"

definition round_half_even :: "nat \<Rightarrow> nat \<Rightarrow> nat" where
  "round_half_even num den =
     (let q = num div den; r = num mod den
      in if 2 * r < den \<or> 2 * r = den \<and> even q then q else q + 1)"

definition round_ratio :: "bool \<Rightarrow> nat \<Rightarrow> nat \<Rightarrow> cdouble" where
  "round_ratio neg num den =
     (if num = 0 then Dyadic 0 0
      else
        (let e0 = int (log2_floor num) - int (log2_floor den) - 52;
             (n0, d0) = scale_down num den e0;
             e1 = (if n0 div d0 < 2 ^ 52 then e0 - 1 else e0);
             e = max e1 (- 1074);
             (n, d) = scale_down num den e;
             m = round_half_even n d
         in if e \<ge> 972 \<or> e = 971 \<and> m \<ge> 2 ^ 53 then Infinite neg
            else Dyadic (if neg then - int m else int m) e))"

text \<open>
  \<open>strtod\<close> on the inputs it gets here (an optional minus sign, digits, a point, an exponent; no
  blanks, no hexadecimal, no names): the value and the unconverted rest, which is the whole
  input when there is no digit to convert.
\<close>

definition c_strtod :: "string \<Rightarrow> cdouble \<times> string" where
  "c_strtod s =
     (let neg = (s \<noteq> [] \<and> hd s = CHR ''-'');
          s1 = (if neg then tl s else s);
          ip = takeWhile is_digit s1;
          s2 = dropWhile is_digit s1;
          point = (s2 \<noteq> [] \<and> hd s2 = CHR ''.'');
          fp = (if point then takeWhile is_digit (tl s2) else []);
          s3 = (if point then dropWhile is_digit (tl s2) else s2)
      in if ip = [] \<and> fp = [] then (Dyadic 0 0, s)
         else
           (let mark = (s3 \<noteq> [] \<and> (hd s3 = CHR ''e'' \<or> hd s3 = CHR ''E''));
                t = tl s3;
                signed = (mark \<and> t \<noteq> [] \<and> (hd t = CHR ''+'' \<or> hd t = CHR ''-''));
                t1 = (if signed then tl t else t);
                ep = takeWhile is_digit t1;
                has_exp = (mark \<and> ep \<noteq> []);
                x = (if has_exp
                     then (if signed \<and> hd t = CHR ''-'' then - int (nat_of_digits ep)
                           else int (nat_of_digits ep))
                     else 0);
                rest = (if has_exp then dropWhile is_digit t1 else s3);
                mant = nat_of_digits (ip @ fp);
                e10 = x - int (length fp)
            in (if 0 \<le> e10 then round_ratio neg (mant * 10 ^ nat e10) 1
                else round_ratio neg mant (10 ^ nat (- e10)), rest)))"

section \<open>The document tree\<close>

text \<open>
  \<open>usbs_json_value_t\<close>. A string is its whole decoded buffer; the accessors hand it out as a C
  string, that is up to its first NUL.
\<close>

datatype json_value =
    JSON_NULL
  | JSON_BOOL bool
  | JSON_NUMBER cdouble
  | JSON_STRING string
  | JSON_ARRAY "json_value list"
  | JSON_OBJECT "(string \<times> json_value) list"

datatype usbs_json_type_t =
  USBS_JSON_NULL | USBS_JSON_BOOL | USBS_JSON_NUMBER | USBS_JSON_STRING | USBS_JSON_ARRAY
| USBS_JSON_OBJECT

definition USBS_JSON_PARSE_MAX_DEPTH :: nat where
  "USBS_JSON_PARSE_MAX_DEPTH = 32"

text \<open>\<open>sizeof\<close> of \<open>usbs_json_value\<close>, \<open>usbs_json_member\<close> and a pointer on the 64-bit targets.\<close>

definition SIZEOF_JSON_VALUE :: nat where "SIZEOF_JSON_VALUE = 32"
definition SIZEOF_JSON_MEMBER :: nat where "SIZEOF_JSON_MEMBER = 16"
definition SIZEOF_POINTER :: nat where "SIZEOF_POINTER = 8"

definition object_push ::
  "allocator \<Rightarrow> (string \<times> json_value) vec \<Rightarrow> string \<times> json_value \<Rightarrow>
   usbs_status \<times> (string \<times> json_value) vec" where
  "object_push = vec_push 4 SIZEOF_JSON_MEMBER False"

definition array_push ::
  "allocator \<Rightarrow> json_value vec \<Rightarrow> json_value \<Rightarrow> usbs_status \<times> json_value vec" where
  "array_push = vec_push 4 SIZEOF_POINTER False"

interpretation object_members: growable_array object_push v_items v_capacity vec_init
  unfolding object_push_def by (rule growable_vec_push) simp

interpretation array_elements: growable_array array_push v_items v_capacity vec_init
  unfolding array_push_def by (rule growable_vec_push) simp

section \<open>Scanning\<close>

definition is_json_ws :: "char \<Rightarrow> bool" where
  "is_json_ws c \<longleftrightarrow> c = CHR '' '' \<or> c = CHR 0x09 \<or> c = CHR 0x0A \<or> c = CHR 0x0D"

definition skip_ws :: "string \<Rightarrow> string" where
  "skip_ws s = dropWhile is_json_ws s"

definition peek :: "string \<Rightarrow> char" where
  "peek s = (case s of [] \<Rightarrow> CHR 0x00 | c # _ \<Rightarrow> c)"

text \<open>The single-character escapes of \<open>parse_string_literal\<close>'s \<open>switch\<close>.\<close>

definition simple_escape :: "char \<Rightarrow> char option" where
  "simple_escape e =
     (if e = CHR 0x22 then Some CHR 0x22
      else if e = CHR 0x5C then Some CHR 0x5C
      else if e = CHR ''/'' then Some CHR ''/''
      else if e = CHR ''b'' then Some CHR 0x08
      else if e = CHR ''f'' then Some CHR 0x0C
      else if e = CHR ''n'' then Some CHR 0x0A
      else if e = CHR ''r'' then Some CHR 0x0D
      else if e = CHR ''t'' then Some CHR 0x09
      else None)"

definition hex_value :: "char \<Rightarrow> nat option" where
  "hex_value h =
     (if CHR ''0'' \<le> h \<and> h \<le> CHR ''9'' then Some (of_char h - of_char CHR ''0'')
      else if CHR ''a'' \<le> h \<and> h \<le> CHR ''f'' then Some (of_char h - of_char CHR ''a'' + 10)
      else if CHR ''A'' \<le> h \<and> h \<le> CHR ''F'' then Some (of_char h - of_char CHR ''A'' + 10)
      else None)"

text \<open>
  The four-digit loop: \<open>code <<= 4; code |= digit\<close>. The digit is below 16, so the bitwise or is
  an addition.
\<close>

fun hex_loop :: "string \<Rightarrow> nat \<Rightarrow> nat option" where
  "hex_loop [] code = Some code"
| "hex_loop (h # hs) code =
     (case hex_value h of None \<Rightarrow> None | Some v \<Rightarrow> hex_loop hs (code * 16 + v))"

text \<open>
  The UTF-8 encoding of a code point below 65536; \<open>0xC0 | (code >> 6)\<close> and its like are sums
  because the two operands share no bit.
\<close>

definition utf8_encode :: "nat \<Rightarrow> string" where
  "utf8_encode code =
     (if code < 128 then [char_of code]
      else if code < 2048 then [char_of (192 + code div 64), char_of (128 + code mod 64)]
      else [char_of (224 + code div 4096), char_of (128 + (code div 64) mod 64),
            char_of (128 + code mod 64)])"

text \<open>Appending to the growing buffer: one byte (one doubling), or a multi-byte sequence (a loop).\<close>

definition str_push1 :: "allocator \<Rightarrow> string \<Rightarrow> nat \<Rightarrow> char \<Rightarrow> usbs_status + (string \<times> nat)" where
  "str_push1 mem buf cap c =
     (if length buf + 1 \<ge> cap then
        (if mem (cap * 2) then Inr (buf @ [c], cap * 2) else Inl USBS_ERR_NO_MEMORY)
      else Inr (buf @ [c], cap))"

function grow_str :: "nat \<Rightarrow> nat \<Rightarrow> nat" where
  "grow_str need cap = (if need \<ge> cap \<and> 0 < cap then grow_str need (cap * 2) else cap)"
  by pat_completeness auto
termination by (relation "measure (\<lambda>(n, c). Suc n - c)") auto

declare grow_str.simps [simp del]

definition str_push_n :: "allocator \<Rightarrow> string \<Rightarrow> nat \<Rightarrow> string \<Rightarrow> usbs_status + (string \<times> nat)" where
  "str_push_n mem buf cap enc =
     (if length buf + length enc \<ge> cap then
        (let cap2 = grow_str (length buf + length enc) cap
         in if mem cap2 then Inr (buf @ enc, cap2) else Inl USBS_ERR_NO_MEMORY)
      else Inr (buf @ enc, cap))"

definition str_push_code :: "allocator \<Rightarrow> string \<Rightarrow> nat \<Rightarrow> nat \<Rightarrow> usbs_status + (string \<times> nat)" where
  "str_push_code mem buf cap code =
     (if code < 128 then str_push1 mem buf cap (char_of code)
      else str_push_n mem buf cap (utf8_encode code))"

function str_loop :: "allocator \<Rightarrow> string \<Rightarrow> string \<Rightarrow> nat \<Rightarrow> usbs_status + (string \<times> string)" where
  "str_loop mem [] buf cap = Inl USBS_ERR_INVALID_ARG"
| "str_loop mem (c # s) buf cap =
     (if c = CHR 0x22 then Inr (buf, s)
      else if c = CHR 0x5C then
        (case s of
           [] \<Rightarrow> Inl USBS_ERR_INVALID_ARG
         | e # s2 \<Rightarrow>
             if e = CHR ''u'' then
               (if length s2 < 4 then Inl USBS_ERR_INVALID_ARG
                else case hex_loop (take 4 s2) 0 of
                  None \<Rightarrow> Inl USBS_ERR_INVALID_ARG
                | Some code \<Rightarrow>
                    (case str_push_code mem buf cap code of
                       Inl st \<Rightarrow> Inl st
                     | Inr (buf2, cap2) \<Rightarrow> str_loop mem (drop 4 s2) buf2 cap2))
             else
               (case simple_escape e of
                  None \<Rightarrow> Inl USBS_ERR_INVALID_ARG
                | Some d \<Rightarrow>
                    (case str_push1 mem buf cap d of
                       Inl st \<Rightarrow> Inl st
                     | Inr (buf2, cap2) \<Rightarrow> str_loop mem s2 buf2 cap2)))
      else
        (case str_push1 mem buf cap c of
           Inl st \<Rightarrow> Inl st
         | Inr (buf2, cap2) \<Rightarrow> str_loop mem s buf2 cap2))"
  by pat_completeness auto
termination by (relation "measure (\<lambda>(mem, s, buf, cap). length s)") auto

definition parse_string_literal :: "allocator \<Rightarrow> string \<Rightarrow> usbs_status + (string \<times> string)" where
  "parse_string_literal mem s =
     (if \<not> mem 32 then Inl USBS_ERR_NO_MEMORY
      else if peek s \<noteq> CHR 0x22 then Inl USBS_ERR_INVALID_ARG
      else str_loop mem (tl s) [] 32)"

text \<open>\<open>parse_number\<close> first skips over everything that looks like a number, then converts it.\<close>

definition number_scan :: "string \<Rightarrow> string" where
  "number_scan s =
     (let s1 = (if peek s = CHR ''-'' then tl s else s);
          s2 = dropWhile is_digit s1;
          s3 = (if s2 \<noteq> [] \<and> peek s2 = CHR ''.'' then dropWhile is_digit (tl s2) else s2)
      in if s3 \<noteq> [] \<and> (peek s3 = CHR ''e'' \<or> peek s3 = CHR ''E'') then
           (let t = tl s3;
                t1 = (if t \<noteq> [] \<and> (peek t = CHR ''+'' \<or> peek t = CHR ''-'') then tl t else t)
            in dropWhile is_digit t1)
         else s3)"

definition parse_number :: "string \<Rightarrow> usbs_status + (cdouble \<times> string)" where
  "parse_number s =
     (let s4 = number_scan s; n = length s - length s4
      in if n = 0 \<or> n \<ge> 64 then Inl USBS_ERR_INVALID_ARG
         else
           (case c_strtod (take n s) of
              (v, rest) \<Rightarrow> if rest \<noteq> [] then Inl USBS_ERR_INVALID_ARG else Inr (v, s4)))"

definition match_literal :: "string \<Rightarrow> string \<Rightarrow> string option" where
  "match_literal literal s =
     (if length s < length literal then None
      else if take (length literal) s \<noteq> literal then None
      else Some (drop (length literal) s))"

section \<open>Lengths: every successful scan moves forward\<close>

lemma skip_ws_length: "length (skip_ws s) \<le> length s"
  by (simp add: skip_ws_def length_dropWhile_le)

lemma skip_ws_idem [simp]: "skip_ws (skip_ws s) = skip_ws s"
  by (simp add: skip_ws_def)

lemma str_loop_length: "str_loop mem s buf cap = Inr (v, r) \<Longrightarrow> length r < length s"
  by (induction mem s buf cap rule: str_loop.induct)
     (fastforce split: if_splits list.splits option.splits sum.splits prod.splits)+

lemma parse_string_literal_length: "parse_string_literal mem s = Inr (v, r) \<Longrightarrow> length r < length s"
  by (cases s) (auto simp: parse_string_literal_def peek_def split: if_splits dest: str_loop_length)

lemma match_literal_length: "match_literal l s = Some r \<Longrightarrow> length r = length s - length l"
  by (auto simp: match_literal_def split: if_splits)

text \<open>\<open>value_new\<close> followed by the NULL check of its callers, and the filling of the node.\<close>

definition value_new :: "allocator \<Rightarrow> json_value \<Rightarrow> string \<Rightarrow> usbs_status + (json_value \<times> string)" where
  "value_new mem v rest = (if mem SIZEOF_JSON_VALUE then Inr (v, rest) else Inl USBS_ERR_NO_MEMORY)"

text \<open>The cases of \<open>parse_value\<close>'s \<open>switch\<close> that do not recurse.\<close>

definition parse_scalar :: "allocator \<Rightarrow> string \<Rightarrow> usbs_status + (json_value \<times> string)" where
  "parse_scalar mem s =
     (if peek s = CHR 0x22 then
        (case parse_string_literal mem s of
           Inl st \<Rightarrow> Inl st
         | Inr (v, r) \<Rightarrow> value_new mem (JSON_STRING v) r)
      else if peek s = CHR ''t'' then
        (case match_literal ''true'' s of
           None \<Rightarrow> Inl USBS_ERR_INVALID_ARG
         | Some r \<Rightarrow> value_new mem (JSON_BOOL True) r)
      else if peek s = CHR ''f'' then
        (case match_literal ''false'' s of
           None \<Rightarrow> Inl USBS_ERR_INVALID_ARG
         | Some r \<Rightarrow> value_new mem (JSON_BOOL False) r)
      else if peek s = CHR ''n'' then
        (case match_literal ''null'' s of
           None \<Rightarrow> Inl USBS_ERR_INVALID_ARG
         | Some r \<Rightarrow> value_new mem JSON_NULL r)
      else if peek s = CHR ''-'' \<or> is_digit (peek s) then
        (case parse_number s of
           Inl st \<Rightarrow> Inl st
         | Inr (v, r) \<Rightarrow> value_new mem (JSON_NUMBER v) r)
      else Inl USBS_ERR_INVALID_ARG)"

section \<open>The non-recursive cases move forward too\<close>

lemma peek_NUL_Nil [simp]: "peek [] = CHR 0x00"
  by (simp add: peek_def)

lemma peek_Cons [simp]: "peek (c # s) = c"
  by (simp add: peek_def)

lemma value_new_Inr [simp]: "value_new mem v r = Inr (w, r') \<longleftrightarrow> mem SIZEOF_JSON_VALUE \<and> w = v \<and> r' = r"
  by (auto simp: value_new_def)

lemma parse_number_rest: "parse_number s = Inr (v, r) \<Longrightarrow> length r < length s"
  by (auto simp: parse_number_def Let_def split: if_splits prod.splits)

lemma match_literal_less: "match_literal l s = Some r \<Longrightarrow> l \<noteq> [] \<Longrightarrow> length r < length s"
  by (cases l) (auto simp: match_literal_def split: if_splits)

lemma parse_scalar_length: "parse_scalar mem s = Inr (v, r) \<Longrightarrow> length r < length s"
  unfolding parse_scalar_def
  by (simp only: split: if_splits sum.splits option.splits prod.splits)
     (auto dest: parse_string_literal_length match_literal_less parse_number_rest)

lemma skip_ws_tl_less: "peek (skip_ws s) \<noteq> CHR 0x00 \<Longrightarrow> length (tl (skip_ws s)) < length s"
  using skip_ws_length [of s] by (cases "skip_ws s") auto

lemma skip_ws_tl_le: "length (skip_ws (tl (skip_ws s))) \<le> length s - 1"
  using skip_ws_length [of "tl (skip_ws s)"] skip_ws_length [of s] by simp

end
