(* ===== verification/JsonParser.thy ===== *)
theory JsonParser
  imports JsonReader
begin

text \<open>
  The recursive part of the JSON reader of src/core/json.c (\<open>parse_value\<close>, \<open>parse_object\<close>,
  \<open>parse_array\<close>, \<open>usbs_json_parse\<close>) and the accessors on the finished tree. The three C
  functions and the two loops are one mutual recursion; that it ends is proved from the fact
  that a successful parse never returns a longer rest than it was given.
\<close>

section \<open>The parser\<close>

text \<open>
  \<open>depth\<close> is \<open>p->depth\<close> on entry. \<open>parse_object\<close> and \<open>parse_array\<close> start at their opening
  bracket; \<open>object_loop\<close> and \<open>array_loop\<close> are the \<open>for (;;)\<close> loops.
\<close>

function
  parse_value :: "allocator \<Rightarrow> nat \<Rightarrow> string \<Rightarrow> usbs_status + (json_value \<times> string)" and
  parse_object :: "allocator \<Rightarrow> nat \<Rightarrow> string \<Rightarrow> usbs_status + (json_value \<times> string)" and
  object_loop :: "allocator \<Rightarrow> nat \<Rightarrow> (string \<times> json_value) vec \<Rightarrow> string \<Rightarrow>
     usbs_status + (json_value \<times> string)" and
  parse_array :: "allocator \<Rightarrow> nat \<Rightarrow> string \<Rightarrow> usbs_status + (json_value \<times> string)" and
  array_loop :: "allocator \<Rightarrow> nat \<Rightarrow> json_value vec \<Rightarrow> string \<Rightarrow>
     usbs_status + (json_value \<times> string)"
where
  "parse_value mem depth s =
     (if depth \<ge> USBS_JSON_PARSE_MAX_DEPTH then Inl USBS_ERR_UNSUPPORTED
      else if skip_ws s = [] then Inl USBS_ERR_INVALID_ARG
      else if peek (skip_ws s) = CHR ''{'' then parse_object mem (depth + 1) (skip_ws s)
      else if peek (skip_ws s) = CHR ''['' then parse_array mem (depth + 1) (skip_ws s)
      else parse_scalar mem (skip_ws s))"
| "parse_object mem depth s =
     (if \<not> mem SIZEOF_JSON_VALUE then Inl USBS_ERR_NO_MEMORY
      else if peek (skip_ws (tl s)) = CHR ''}'' then Inr (JSON_OBJECT [], tl (skip_ws (tl s)))
      else object_loop mem depth vec_init (skip_ws (tl s)))"
| "object_loop mem depth obj s =
     (case parse_string_literal mem (skip_ws s) of
        Inl st \<Rightarrow> Inl st
      | Inr (key, s1) \<Rightarrow>
          if peek (skip_ws s1) \<noteq> CHR '':'' then Inl USBS_ERR_INVALID_ARG
          else
            (case parse_value mem depth (skip_ws (tl (skip_ws s1))) of
               Inl st \<Rightarrow> Inl st
             | Inr (val, s2) \<Rightarrow>
                 (case object_push mem obj (key, val) of
                    (st, obj2) \<Rightarrow>
                      if \<not> usbs_ok st then Inl st
                      else if peek (skip_ws s2) = CHR '','' then
                        object_loop mem depth obj2 (tl (skip_ws s2))
                      else if peek (skip_ws s2) = CHR ''}'' then
                        Inr (JSON_OBJECT (v_items obj2), tl (skip_ws s2))
                      else Inl USBS_ERR_INVALID_ARG)))"
| "parse_array mem depth s =
     (if \<not> mem SIZEOF_JSON_VALUE then Inl USBS_ERR_NO_MEMORY
      else if peek (skip_ws (tl s)) = CHR '']'' then Inr (JSON_ARRAY [], tl (skip_ws (tl s)))
      else array_loop mem depth vec_init (skip_ws (tl s)))"
| "array_loop mem depth arr s =
     (case parse_value mem depth (skip_ws s) of
        Inl st \<Rightarrow> Inl st
      | Inr (val, s1) \<Rightarrow>
          (case array_push mem arr val of
             (st, arr2) \<Rightarrow>
               if \<not> usbs_ok st then Inl st
               else if peek (skip_ws s1) = CHR '','' then array_loop mem depth arr2 (tl (skip_ws s1))
               else if peek (skip_ws s1) = CHR '']'' then
                 Inr (JSON_ARRAY (v_items arr2), tl (skip_ws s1))
               else Inl USBS_ERR_INVALID_ARG))"
  by pat_completeness auto

section \<open>Termination\<close>

lemma parse_lengths_dom:
  "parse_value_parse_object_object_loop_parse_array_array_loop_dom (Inl (Inl (mem, depth, s))) \<Longrightarrow>
    \<forall>v r. parse_value mem depth s = Inr (v, r) \<longrightarrow> length r \<le> length s"
  "parse_value_parse_object_object_loop_parse_array_array_loop_dom (Inl (Inr (mem, depth, s))) \<Longrightarrow>
    \<forall>v r. parse_object mem depth s = Inr (v, r) \<longrightarrow> length r \<le> length s"
  "parse_value_parse_object_object_loop_parse_array_array_loop_dom (Inr (Inl (mem, depth, ov, s))) \<Longrightarrow>
    \<forall>v r. object_loop mem depth ov s = Inr (v, r) \<longrightarrow> length r \<le> length s"
  "parse_value_parse_object_object_loop_parse_array_array_loop_dom (Inr (Inr (Inl (mem, depth, s)))) \<Longrightarrow>
    \<forall>v r. parse_array mem depth s = Inr (v, r) \<longrightarrow> length r \<le> length s"
  "parse_value_parse_object_object_loop_parse_array_array_loop_dom (Inr (Inr (Inr (mem, depth, av, s)))) \<Longrightarrow>
    \<forall>v r. array_loop mem depth av s = Inr (v, r) \<longrightarrow> length r \<le> length s"
proof (induction mem depth s and mem depth s and mem depth ov s and mem depth s and mem depth av s
    rule: parse_value_parse_object_object_loop_parse_array_array_loop.pinduct)
  case (1 mem depth s)
  show ?case
  proof (intro allI impI)
    fix v r
    assume "parse_value mem depth s = Inr (v, r)"
    then show "length r \<le> length s"
      using skip_ws_length [of s] 1(2,3)
      by (auto simp: parse_value.psimps [OF 1(1)] split: if_splits dest!: parse_scalar_length)
  qed
next
  case (2 mem depth s)
  show ?case
  proof (intro allI impI)
    fix v r
    assume "parse_object mem depth s = Inr (v, r)"
    then show "length r \<le> length s"
      using skip_ws_length [of "tl s"] 2(2)
      by (fastforce simp: parse_object.psimps [OF 2(1)] split: if_splits)
  qed
next
  case (3 mem depth ov s)
  show ?case
  proof (intro allI impI)
    fix v r
    assume a: "object_loop mem depth ov s = Inr (v, r)"
    then obtain key s1 val s2 where
      k: "parse_string_literal mem (skip_ws s) = Inr (key, s1)" "peek (skip_ws s1) = CHR '':''"
        "parse_value mem depth (skip_ws (tl (skip_ws s1))) = Inr (val, s2)"
      by (auto simp: object_loop.psimps [OF 3(1)] split: if_splits sum.splits prod.splits)
    have "length s2 \<le> length (skip_ws (tl (skip_ws s1)))" using 3(2) k by blast
    with k(1) skip_ws_tl_le [of s1] skip_ws_length [of s] skip_ws_length [of s2]
      parse_string_literal_length [OF k(1)]
    have "length (tl (skip_ws s2)) \<le> length s" by simp
    with a k show "length r \<le> length s"
      using 3(3) by (fastforce simp: object_loop.psimps [OF 3(1)] split: if_splits prod.splits)
  qed
next
  case (4 mem depth s)
  show ?case
  proof (intro allI impI)
    fix v r
    assume "parse_array mem depth s = Inr (v, r)"
    then show "length r \<le> length s"
      using skip_ws_length [of "tl s"] 4(2)
      by (fastforce simp: parse_array.psimps [OF 4(1)] split: if_splits)
  qed
next
  case (5 mem depth av s)
  show ?case
  proof (intro allI impI)
    fix v r
    assume a: "array_loop mem depth av s = Inr (v, r)"
    then obtain val s2 where
      k: "parse_value mem depth (skip_ws s) = Inr (val, s2)"
      by (auto simp: array_loop.psimps [OF 5(1)] split: if_splits sum.splits prod.splits)
    have "length s2 \<le> length (skip_ws s)" using 5(2) k by blast
    with skip_ws_length [of s] skip_ws_length [of s2]
    have "length (tl (skip_ws s2)) \<le> length s" by simp
    with a k show "length r \<le> length s"
      using 5(3) by (fastforce simp: array_loop.psimps [OF 5(1)] split: if_splits prod.splits)
  qed
qed

definition parse_measure where
  "parse_measure =
     (\<lambda>x. case x of
        Inl (Inl (mem :: allocator, depth :: nat, s :: string)) \<Rightarrow> 4 * length s + 3
      | Inl (Inr (mem :: allocator, depth :: nat, s :: string)) \<Rightarrow> 4 * length s + 2
      | Inr (Inl (mem :: allocator, depth :: nat, ov :: (string \<times> json_value) vec, s :: string)) \<Rightarrow> 4 * length s
      | Inr (Inr (Inl (mem :: allocator, depth :: nat, s :: string))) \<Rightarrow>
          (if s = [] then 5 else 4 * length s + 2)
      | Inr (Inr (Inr (mem :: allocator, depth :: nat, av :: json_value vec, s :: string))) \<Rightarrow> 4 * length s + 4)"

lemma parse_value_length_dom:
  "parse_value_parse_object_object_loop_parse_array_array_loop_dom (Inl (Inl (mem, depth, s))) \<Longrightarrow>
    parse_value mem depth s = Inr (v, r) \<Longrightarrow> length r \<le> length s"
  using parse_lengths_dom(1) by blast

termination parse_value
proof (relation "measure parse_measure", goal_cases)
  case 1
  show ?case by simp
next
  case (2 mem depth s)
  then show ?case using skip_ws_length [of s] by (simp add: parse_measure_def)
next
  case (3 mem depth s)
  then show ?case using skip_ws_length [of s] by (simp add: parse_measure_def)
next
  case (4 mem depth s)
  then show ?case using skip_ws_length [of "tl s"] by (cases s) (auto simp: parse_measure_def skip_ws_def)
next
  case (5 mem depth obj s b key s1)
  then have k: "parse_string_literal mem (skip_ws s) = Inr (key, s1)" by simp
  show ?case
    using skip_ws_tl_le [of s1] parse_string_literal_length [OF k] skip_ws_length [of s]
    by (simp add: parse_measure_def)
next
  case (6 mem depth obj s b key s1 c val s2 st obj2)
  then have k: "parse_string_literal mem (skip_ws s) = Inr (key, s1)"
    and v: "parse_value mem depth (skip_ws (tl (skip_ws s1))) = Inr (val, s2)" by simp_all
  have "length s2 \<le> length (skip_ws (tl (skip_ws s1)))" by (rule parse_value_length_dom [OF 6(9) v])
  then show ?case
    using skip_ws_tl_le [of s1] parse_string_literal_length [OF k] skip_ws_length [of s]
      skip_ws_length [of s2]
    by (simp add: parse_measure_def)
next
  case (7 mem depth s)
  then show ?case using skip_ws_length [of "tl s"] by (cases s) (auto simp: parse_measure_def skip_ws_def)
next
  case (8 mem depth arr s)
  then show ?case using skip_ws_length [of s] by (simp add: parse_measure_def)
next
  case (9 mem depth arr s c val s2 st arr2)
  then have v: "parse_value mem depth (skip_ws s) = Inr (val, s2)" by simp
  have "length s2 \<le> length (skip_ws s)" by (rule parse_value_length_dom [OF 9(6) v])
  moreover have "length (tl (skip_ws s2)) < length s2" using 9(5) by (intro skip_ws_tl_less) simp
  ultimately show ?case using skip_ws_length [of s] by (simp add: parse_measure_def)
qed

declare parse_value.simps [simp del] parse_object.simps [simp del] object_loop.simps [simp del]
  parse_array.simps [simp del] array_loop.simps [simp del]

section \<open>The entry point\<close>

definition usbs_json_parse :: "allocator \<Rightarrow> string \<Rightarrow> usbs_status + json_value" where
  "usbs_json_parse mem text =
     (case parse_value mem 0 text of
        Inl st \<Rightarrow> Inl st
      | Inr (v, r) \<Rightarrow> if skip_ws r \<noteq> [] then Inl USBS_ERR_INVALID_ARG else Inr v)"

section \<open>Reading the tree\<close>

text \<open>
  The accessors take a node or NULL, and hand out a node or NULL. Strings and keys are the C
  strings their buffers hold.
\<close>

definition usbs_json_type :: "json_value option \<Rightarrow> usbs_json_type_t" where
  "usbs_json_type value =
     (case value of
        None \<Rightarrow> USBS_JSON_NULL
      | Some JSON_NULL \<Rightarrow> USBS_JSON_NULL
      | Some (JSON_BOOL _) \<Rightarrow> USBS_JSON_BOOL
      | Some (JSON_NUMBER _) \<Rightarrow> USBS_JSON_NUMBER
      | Some (JSON_STRING _) \<Rightarrow> USBS_JSON_STRING
      | Some (JSON_ARRAY _) \<Rightarrow> USBS_JSON_ARRAY
      | Some (JSON_OBJECT _) \<Rightarrow> USBS_JSON_OBJECT)"

fun member_search :: "(string \<times> json_value) list \<Rightarrow> string \<Rightarrow> json_value option" where
  "member_search [] key = None"
| "member_search ((k, v) # ms) key = (if cstr k = key then Some v else member_search ms key)"

definition usbs_json_object_get :: "json_value option \<Rightarrow> string \<Rightarrow> json_value option" where
  "usbs_json_object_get object key =
     (case object of Some (JSON_OBJECT ms) \<Rightarrow> member_search ms key | _ \<Rightarrow> None)"

definition usbs_json_object_count :: "json_value option \<Rightarrow> nat" where
  "usbs_json_object_count object = (case object of Some (JSON_OBJECT ms) \<Rightarrow> length ms | _ \<Rightarrow> 0)"

definition usbs_json_object_key_at :: "json_value option \<Rightarrow> nat \<Rightarrow> string option" where
  "usbs_json_object_key_at object index =
     (case object of
        Some (JSON_OBJECT ms) \<Rightarrow> if index \<ge> length ms then None else Some (cstr (fst (ms ! index)))
      | _ \<Rightarrow> None)"

definition usbs_json_object_value_at :: "json_value option \<Rightarrow> nat \<Rightarrow> json_value option" where
  "usbs_json_object_value_at object index =
     (case object of
        Some (JSON_OBJECT ms) \<Rightarrow> if index \<ge> length ms then None else Some (snd (ms ! index))
      | _ \<Rightarrow> None)"

definition usbs_json_array_count :: "json_value option \<Rightarrow> nat" where
  "usbs_json_array_count array = (case array of Some (JSON_ARRAY vs) \<Rightarrow> length vs | _ \<Rightarrow> 0)"

definition usbs_json_array_at :: "json_value option \<Rightarrow> nat \<Rightarrow> json_value option" where
  "usbs_json_array_at array index =
     (case array of
        Some (JSON_ARRAY vs) \<Rightarrow> if index \<ge> length vs then None else Some (vs ! index)
      | _ \<Rightarrow> None)"

definition usbs_json_as_string :: "json_value option \<Rightarrow> string option" where
  "usbs_json_as_string value = (case value of Some (JSON_STRING s) \<Rightarrow> Some (cstr s) | _ \<Rightarrow> None)"

text \<open>
  \<open>modf\<close> is zero exactly on integral (and infinite) doubles. The conversion to \<open>long long\<close> is
  undefined in C outside the range of the type: \<open>Cast_undefined\<close>.
\<close>

datatype cast_result = Cast int | Cast_undefined

definition long_long_range :: "int \<Rightarrow> bool" where
  "long_long_range i \<longleftrightarrow> - (2 ^ 63) \<le> i \<and> i < 2 ^ 63"

fun double_to_long_long :: "cdouble \<Rightarrow> cast_result" where
  "double_to_long_long (Infinite _) = Cast_undefined"
| "double_to_long_long (Dyadic m e) =
     (let i = (if 0 \<le> e then m * 2 ^ nat e else m div 2 ^ nat (- e))
      in if long_long_range i then Cast i else Cast_undefined)"

fun double_integral :: "cdouble \<Rightarrow> bool" where
  "double_integral (Infinite _) = True"
| "double_integral (Dyadic m e) = (0 \<le> e \<or> m mod 2 ^ nat (- e) = 0)"

definition usbs_json_as_int :: "json_value option \<Rightarrow> cast_result option" where
  "usbs_json_as_int value =
     (case value of
        Some (JSON_NUMBER d) \<Rightarrow>
          if \<not> double_integral d then None else Some (double_to_long_long d)
      | _ \<Rightarrow> None)"

definition usbs_json_as_bool :: "json_value option \<Rightarrow> bool option" where
  "usbs_json_as_bool value = (case value of Some (JSON_BOOL b) \<Rightarrow> Some b | _ \<Rightarrow> None)"

lemmas usbs_json_accessor_defs =
  usbs_json_type_def usbs_json_object_get_def usbs_json_object_count_def
  usbs_json_object_key_at_def usbs_json_object_value_at_def usbs_json_array_count_def
  usbs_json_array_at_def usbs_json_as_string_def usbs_json_as_int_def usbs_json_as_bool_def

text \<open>Lookup by key agrees with a scan over the positions: the first match wins.\<close>

lemma member_search_first:
  "member_search ms key = Some v \<longleftrightarrow>
     (\<exists>i < length ms. cstr (fst (ms ! i)) = key \<and> snd (ms ! i) = v \<and>
        (\<forall>j < i. cstr (fst (ms ! j)) \<noteq> key))"
proof (induction ms key rule: member_search.induct)
  case (1 key)
  show ?case by simp
next
  case (2 k w ms key)
  show ?case
    by (cases "cstr k = key") (auto simp: 2 Ex_less_Suc2 All_less_Suc2)
qed

section \<open>Nesting is bounded\<close>

fun vheight :: "json_value \<Rightarrow> nat" where
  "vheight (JSON_ARRAY vs) = Suc (Max (insert 0 (set (map vheight vs))))"
| "vheight (JSON_OBJECT ms) = Suc (Max (insert 0 (set (map (\<lambda>(k, v). vheight v) ms))))"
| "vheight _ = 1"

lemma vheight_array:
  "vheight (JSON_ARRAY vs) \<le> n \<longleftrightarrow> 0 < n \<and> (\<forall>v \<in> set vs. Suc (vheight v) \<le> n)"
  by (cases n) auto

lemma vheight_object:
  "vheight (JSON_OBJECT ms) \<le> n \<longleftrightarrow> 0 < n \<and> (\<forall>m \<in> set ms. Suc (vheight (snd m)) \<le> n)"
  by (cases n) (auto split: prod.splits)

lemma parse_scalar_height: "parse_scalar mem s = Inr (v, r) \<Longrightarrow> vheight v = 1"
  unfolding parse_scalar_def
  by (simp only: split: if_splits sum.splits option.splits prod.splits) auto

lemma push_ok_items:
  "object_push mem ov m = (st, ov') \<Longrightarrow> usbs_ok st \<Longrightarrow> v_items ov' = v_items ov @ [m]"
  "array_push mem av v = (st, av') \<Longrightarrow> usbs_ok st \<Longrightarrow> v_items av' = v_items av @ [v]"
  using object_members.push_ok array_elements.push_ok by (auto simp: usbs_ok_def)

lemma parse_heights:
  "parse_value mem depth s = Inr (v, r) \<Longrightarrow> depth + vheight v \<le> USBS_JSON_PARSE_MAX_DEPTH"
  "parse_object mem depth s = Inr (v, r) \<Longrightarrow> depth \<le> USBS_JSON_PARSE_MAX_DEPTH \<Longrightarrow>
     depth + vheight v \<le> Suc USBS_JSON_PARSE_MAX_DEPTH"
  "object_loop mem depth ov s = Inr (v, r) \<Longrightarrow> depth \<le> USBS_JSON_PARSE_MAX_DEPTH \<Longrightarrow>
     \<forall>m \<in> set (v_items ov). depth + vheight (snd m) \<le> USBS_JSON_PARSE_MAX_DEPTH \<Longrightarrow>
     depth + vheight v \<le> Suc USBS_JSON_PARSE_MAX_DEPTH"
  "parse_array mem depth s = Inr (v, r) \<Longrightarrow> depth \<le> USBS_JSON_PARSE_MAX_DEPTH \<Longrightarrow>
     depth + vheight v \<le> Suc USBS_JSON_PARSE_MAX_DEPTH"
  "array_loop mem depth av s = Inr (v, r) \<Longrightarrow> depth \<le> USBS_JSON_PARSE_MAX_DEPTH \<Longrightarrow>
     \<forall>w \<in> set (v_items av). depth + vheight w \<le> USBS_JSON_PARSE_MAX_DEPTH \<Longrightarrow>
     depth + vheight v \<le> Suc USBS_JSON_PARSE_MAX_DEPTH"
proof (induction mem depth s and mem depth s and mem depth ov s and mem depth s and mem depth av s
    arbitrary: v r and v r and v r and v r and v r
    rule: parse_value_parse_object_object_loop_parse_array_array_loop.induct)
  case (1 mem depth s)
  from 1(3) [unfolded parse_value.simps [of mem depth s]] show ?case
    using 1(1,2) by (fastforce split: if_splits dest: parse_scalar_height)
next
  case (2 mem depth s)
  from 2(2) [unfolded parse_object.simps [of mem depth s]] show ?case
    using 2(1,3) by (auto simp: vec_init_def split: if_splits)
next
  case (3 mem depth ov s)
  from 3(3) [unfolded object_loop.simps [of mem depth ov s]] obtain key s1 val s2 st ov2 where
    k: "parse_string_literal mem (skip_ws s) = Inr (key, s1)" "peek (skip_ws s1) = CHR '':''"
      "parse_value mem depth (skip_ws (tl (skip_ws s1))) = Inr (val, s2)"
      "object_push mem ov (key, val) = (st, ov2)" "usbs_ok st"
    and e: "(if peek (skip_ws s2) = CHR '','' then object_loop mem depth ov2 (tl (skip_ws s2))
        else if peek (skip_ws s2) = CHR ''}'' then Inr (JSON_OBJECT (v_items ov2), tl (skip_ws s2))
        else Inl USBS_ERR_INVALID_ARG) = Inr (v, r)"
    by (auto split: if_splits sum.splits prod.splits)
  have "depth + vheight val \<le> USBS_JSON_PARSE_MAX_DEPTH" using 3(1) k by blast
  with 3(5) push_ok_items(1) [OF k(4,5)]
  have all: "\<forall>m \<in> set (v_items ov2). depth + vheight (snd m) \<le> USBS_JSON_PARSE_MAX_DEPTH" by auto
  show ?case
  proof (cases "peek (skip_ws s2) = CHR '',''")
    case True
    with e k 3(4) all show ?thesis by (intro 3(2)) auto
  next
    case False
    with e have "v = JSON_OBJECT (v_items ov2)" by (auto split: if_splits)
    moreover have "vheight (JSON_OBJECT (v_items ov2)) \<le> Suc USBS_JSON_PARSE_MAX_DEPTH - depth"
      using all 3(4) unfolding vheight_object by fastforce
    ultimately show ?thesis using 3(4) by simp
  qed
next
  case (4 mem depth s)
  from 4(2) [unfolded parse_array.simps [of mem depth s]] show ?case
    using 4(1,3) by (auto simp: vec_init_def split: if_splits)
next
  case (5 mem depth av s)
  from 5(3) [unfolded array_loop.simps [of mem depth av s]] obtain val s2 st av2 where
    k: "parse_value mem depth (skip_ws s) = Inr (val, s2)"
      "array_push mem av val = (st, av2)" "usbs_ok st"
    and e: "(if peek (skip_ws s2) = CHR '','' then array_loop mem depth av2 (tl (skip_ws s2))
        else if peek (skip_ws s2) = CHR '']'' then Inr (JSON_ARRAY (v_items av2), tl (skip_ws s2))
        else Inl USBS_ERR_INVALID_ARG) = Inr (v, r)"
    by (auto split: if_splits sum.splits prod.splits)
  have "depth + vheight val \<le> USBS_JSON_PARSE_MAX_DEPTH" using 5(1) k by blast
  with 5(5) push_ok_items(2) [OF k(2,3)]
  have all: "\<forall>w \<in> set (v_items av2). depth + vheight w \<le> USBS_JSON_PARSE_MAX_DEPTH" by auto
  show ?case
  proof (cases "peek (skip_ws s2) = CHR '',''")
    case True
    with e k 5(4) all show ?thesis by (intro 5(2)) auto
  next
    case False
    with e have "v = JSON_ARRAY (v_items av2)" by (auto split: if_splits)
    moreover have "vheight (JSON_ARRAY (v_items av2)) \<le> Suc USBS_JSON_PARSE_MAX_DEPTH - depth"
      using all 5(4) unfolding vheight_array by fastforce
    ultimately show ?thesis using 5(4) by simp
  qed
qed

text \<open>
  C37 Whatever bytes the reader is given, a tree it accepts is at most 32 levels deep (a scalar
  counts as one level): no input makes a later recursive walk of the tree go deeper.
\<close>

theorem json_parse_depth_bounded:
  assumes "usbs_json_parse mem text = Inr v"
  shows "vheight v \<le> USBS_JSON_PARSE_MAX_DEPTH"
  using assms parse_heights(1) [of mem 0]
  by (fastforce simp: usbs_json_parse_def split: sum.splits prod.splits if_splits)

lemma json_parse_depth_bounded_witness: "vheight (JSON_ARRAY [JSON_BOOL True]) \<le> USBS_JSON_PARSE_MAX_DEPTH"
proof (rule json_parse_depth_bounded)
  show "usbs_json_parse mem_always '' [true] '' = Inr (JSON_ARRAY [JSON_BOOL True])" by code_simp
qed

end
