(* ===== verification/JsonRoundtrip.thy ===== *)
theory JsonRoundtrip
  imports JsonWriterSpec JsonParser
begin

text \<open>
  The two halves of src/core/json.c fit together: the text the writer produces for a document
  tree is the text the reader turns back into that tree. \<open>jdoc\<close> is such a tree, \<open>calls_of\<close> the
  writer calls that emit it, \<open>render\<close> the text and \<open>jvalue\<close> the tree the reader builds.
\<close>

section \<open>Documents\<close>

datatype jdoc =
    DNull
  | DBool bool
  | DInt usbs_u64
  | DUint usbs_u64
  | DString string
  | DArray "jdoc list"
  | DObject "(string \<times> jdoc) list"

fun calls_of :: "jdoc \<Rightarrow> json_call list" where
  "calls_of DNull = [WriteNull]"
| "calls_of (DBool b) = [WriteBool b]"
| "calls_of (DInt i) = [WriteInt i]"
| "calls_of (DUint n) = [WriteUint n]"
| "calls_of (DString s) = [WriteString s]"
| "calls_of (DArray ds) = BeginArray # concat (map calls_of ds) @ [EndArray]"
| "calls_of (DObject ms) =
     BeginObject # concat (map (\<lambda>(k, d). Key k # calls_of d) ms) @ [EndObject]"

fun commas :: "string list \<Rightarrow> string" where
  "commas [] = []"
| "commas [x] = x"
| "commas (x # y # ys) = x @ '','' @ commas (y # ys)"

fun render :: "jdoc \<Rightarrow> string" where
  "render DNull = ''null''"
| "render (DBool b) = (if b then ''true'' else ''false'')"
| "render (DInt i) = dec_of_int (sint i)"
| "render (DUint n) = dec_of_nat (unat n)"
| "render (DString s) = quoted s"
| "render (DArray ds) = ''['' @ commas (map render ds) @ '']''"
| "render (DObject ms) = ''{'' @ commas (map (\<lambda>(k, d). quoted k @ '':'' @ render d) ms) @ ''}''"

definition double_of_int :: "int \<Rightarrow> cdouble" where
  "double_of_int i = round_ratio (i < 0) (nat \<bar>i\<bar>) 1"

fun jvalue :: "jdoc \<Rightarrow> json_value" where
  "jvalue DNull = JSON_NULL"
| "jvalue (DBool b) = JSON_BOOL b"
| "jvalue (DInt i) = JSON_NUMBER (double_of_int (sint i))"
| "jvalue (DUint n) = JSON_NUMBER (double_of_int (uint n))"
| "jvalue (DString s) = JSON_STRING s"
| "jvalue (DArray ds) = JSON_ARRAY (map jvalue ds)"
| "jvalue (DObject ms) = JSON_OBJECT (map (\<lambda>(k, d). (k, jvalue d)) ms)"

text \<open>Nesting levels, counting a scalar as one: what the reader's depth limit bounds.\<close>

fun jheight :: "jdoc \<Rightarrow> nat" where
  "jheight (DArray ds) = Suc (Max (insert 0 (set (map jheight ds))))"
| "jheight (DObject ms) = Suc (Max (insert 0 (set (map (\<lambda>(k, d). jheight d) ms))))"
| "jheight _ = 1"

lemma jheight_array: "jheight (DArray ds) \<le> n \<longleftrightarrow> 0 < n \<and> (\<forall>d \<in> set ds. Suc (jheight d) \<le> n)"
  by (cases n) auto

lemma jheight_object:
  "jheight (DObject ms) \<le> n \<longleftrightarrow> 0 < n \<and> (\<forall>(k, d) \<in> set ms. Suc (jheight d) \<le> n)"
  by (cases n) (auto split: prod.splits)

section \<open>The writer renders the document\<close>

lemma aw_run_append: "aw_run (xs @ ys) a = aw_run ys (aw_run xs a)"
  by (simp add: aw_run_def)

lemma aw_run_simps [simp]: "aw_run [] a = a" "aw_run (c # cs) a = aw_run cs (aw_step c a)"
  by (simp_all add: aw_run_def)

lemma aw_emit_emit: "aw_emit t (aw_emit s a) = aw_emit (s @ t) a"
  by (simp add: aw_emit_def)

lemma aw_emit_frames [simp]: "aw_frames (aw_emit t a) = aw_frames a"
  by (simp add: aw_emit_def)

lemma aw_frames_update_emit:
  "(aw_emit t a)\<lparr>aw_frames := fs\<rparr> = aw_emit t (a\<lparr>aw_frames := fs\<rparr>)"
  by (simp add: aw_emit_def)

text \<open>Emitting each document of a list inside an array, and each member inside an object.\<close>

definition emits :: "jdoc \<Rightarrow> bool" where
  "emits d \<longleftrightarrow>
     (\<forall>a. aw_error (aw_before_value a) = USBS_OK \<longrightarrow>
        length (aw_frames a) + jheight d \<le> USBS_JSON_MAX_DEPTH \<longrightarrow>
        aw_run (calls_of d) a = aw_emit (render d) (aw_before_value a))"

lemma before_value_ok: "aw_error (aw_before_value a) = USBS_OK \<Longrightarrow> aw_error a = USBS_OK"
  by (auto simp: aw_before_value.simps split: if_splits)

lemma before_value_frames [simp]:
  "length (aw_frames (aw_before_value a)) = length (aw_frames a)"
  by (auto simp: aw_before_value.simps split: list.splits frame.splits bool.splits)

lemma run_elements:
  assumes "\<And>d. d \<in> set ds \<Longrightarrow> emits d"
    and "aw_error a = USBS_OK" and "aw_frames a = InArray n # fs"
    and "\<And>d. d \<in> set ds \<Longrightarrow> Suc (length fs) + jheight d \<le> USBS_JSON_MAX_DEPTH"
  shows "aw_run (concat (map calls_of ds)) a =
     (if ds = [] then a
      else aw_emit (comma_if n @ commas (map render ds)) (a\<lparr>aw_frames := InArray True # fs\<rparr>))"
  using assms
proof (induction ds arbitrary: a n)
  case Nil
  show ?case by simp
next
  case (Cons d ds)
  have e: "emits d" by (rule Cons.prems(1)) simp
  have "aw_before_value a = aw_emit (comma_if n) (a\<lparr>aw_frames := InArray True # fs\<rparr>)"
    using Cons.prems(2,3) by (simp add: aw_before_value.simps)
  moreover have "Suc (length fs) + jheight d \<le> USBS_JSON_MAX_DEPTH" by (rule Cons.prems(4)) simp
  ultimately have "aw_run (calls_of d) a =
      aw_emit (comma_if n @ render d) (a\<lparr>aw_frames := InArray True # fs\<rparr>)" (is "_ = ?b")
    using e Cons.prems(2,3) by (simp add: emits_def aw_emit_emit)
  moreover have "aw_run (concat (map calls_of ds)) ?b =
     (if ds = [] then ?b
      else aw_emit (comma_if True @ commas (map render ds)) (?b\<lparr>aw_frames := InArray True # fs\<rparr>))"
    using Cons.prems by (intro Cons.IH) auto
  ultimately show ?case
    by (cases ds) (auto simp: aw_run_append aw_frames_update_emit aw_emit_emit comma_if_def)
qed

lemma run_members:
  assumes "\<And>k d. (k, d) \<in> set ms \<Longrightarrow> emits d"
    and "aw_error a = USBS_OK" and "aw_frames a = InObject n True # fs"
    and "\<And>k d. (k, d) \<in> set ms \<Longrightarrow> Suc (length fs) + jheight d \<le> USBS_JSON_MAX_DEPTH"
  shows "aw_run (concat (map (\<lambda>(k, d). Key k # calls_of d) ms)) a =
     (if ms = [] then a
      else aw_emit (comma_if n @ commas (map (\<lambda>(k, d). quoted k @ '':'' @ render d) ms))
             (a\<lparr>aw_frames := InObject True True # fs\<rparr>))"
  using assms
proof (induction ms arbitrary: a n)
  case Nil
  show ?case by simp
next
  case (Cons m ms)
  obtain k d where m: "m = (k, d)" by (cases m) auto
  have e: "emits d" by (rule Cons.prems(1) [of k]) (simp add: m)
  let ?k = "aw_emit (comma_if n @ quoted k @ '':'') (a\<lparr>aw_frames := InObject True False # fs\<rparr>)"
  have key: "aw_key k a = ?k" using Cons.prems(2,3) by (simp add: aw_key.simps)
  have bv: "aw_before_value ?k =
      aw_emit (comma_if n @ quoted k @ '':'') (a\<lparr>aw_frames := InObject True True # fs\<rparr>)"
    using Cons.prems(2) by (simp add: aw_before_value.simps aw_frames_update_emit)
  have "Suc (length fs) + jheight d \<le> USBS_JSON_MAX_DEPTH"
    by (rule Cons.prems(4) [of k]) (simp add: m)
  with e key bv Cons.prems(2) have "aw_run (Key k # calls_of d) a =
      aw_emit (comma_if n @ quoted k @ '':'' @ render d) (a\<lparr>aw_frames := InObject True True # fs\<rparr>)"
      (is "_ = ?b")
    by (simp add: emits_def aw_emit_emit)
  moreover have "aw_run (concat (map (\<lambda>(k, d). Key k # calls_of d) ms)) ?b =
     (if ms = [] then ?b
      else aw_emit (comma_if True @ commas (map (\<lambda>(k, d). quoted k @ '':'' @ render d) ms))
             (?b\<lparr>aw_frames := InObject True True # fs\<rparr>))"
    using Cons.prems by (intro Cons.IH) auto
  ultimately show ?case
    by (cases ms)
       (auto simp: m aw_run_append aw_frames_update_emit aw_emit_emit comma_if_def)
qed

lemma run_scalar: "aw_run [c] a = aw_step c a"
  by simp

lemma emit_end:
  assumes "aw_error a = USBS_OK"
  shows "aw_end_array (aw_emit t (a\<lparr>aw_frames := InArray n # aw_frames a\<rparr>)) = aw_emit (t @ '']'') a"
    and "aw_end_object (aw_emit t (a\<lparr>aw_frames := InObject n k # aw_frames a\<rparr>)) = aw_emit (t @ ''}'') a"
  using assms
  by (simp_all add: aw_end_array.simps aw_end_object.simps aw_frames_update_emit aw_emit_emit)

lemma aw_begin_ok:
  assumes "aw_error (aw_before_value a) = USBS_OK" and "length (aw_frames a) < USBS_JSON_MAX_DEPTH"
  shows "aw_begin br f a =
     aw_emit br ((aw_before_value a)\<lparr>aw_frames := f # aw_frames (aw_before_value a)\<rparr>)"
  using assms by (simp add: aw_begin_def Let_def)

lemma emits_array:
  assumes sub: "\<And>d. d \<in> set ds \<Longrightarrow> emits d"
  shows "emits (DArray ds)"
  unfolding emits_def
proof (intro allI impI)
  fix a
  assume ok: "aw_error (aw_before_value a) = USBS_OK"
    and "length (aw_frames a) + jheight (DArray ds) \<le> USBS_JSON_MAX_DEPTH"
  then have h: "jheight (DArray ds) \<le> USBS_JSON_MAX_DEPTH - length (aw_frames a)" by linarith
  let ?b = "aw_before_value a"
  let ?c = "aw_emit ''['' (?b\<lparr>aw_frames := InArray False # aw_frames ?b\<rparr>)"
  have b: "aw_step BeginArray a = ?c"
    using ok h by (simp add: aw_begin_ok jheight_array)
  have run: "aw_run (concat (map calls_of ds)) ?c =
     (if ds = [] then ?c
      else aw_emit (comma_if False @ commas (map render ds)) (?c\<lparr>aw_frames := InArray True # aw_frames ?b\<rparr>))"
    using h ok sub unfolding jheight_array by (intro run_elements) fastforce+
  show "aw_run (calls_of (DArray ds)) a = aw_emit (render (DArray ds)) ?b"
    using ok b run
    by (simp add: aw_run_append aw_frames_update_emit aw_emit_emit emit_end comma_if_def
        del: aw_step.simps(1,3) split: if_splits)
qed

lemma emits_object:
  assumes sub: "\<And>k d. (k, d) \<in> set ms \<Longrightarrow> emits d"
  shows "emits (DObject ms)"
  unfolding emits_def
proof (intro allI impI)
  fix a
  assume ok: "aw_error (aw_before_value a) = USBS_OK"
    and "length (aw_frames a) + jheight (DObject ms) \<le> USBS_JSON_MAX_DEPTH"
  then have h: "jheight (DObject ms) \<le> USBS_JSON_MAX_DEPTH - length (aw_frames a)" by linarith
  let ?b = "aw_before_value a"
  let ?c = "aw_emit ''{'' (?b\<lparr>aw_frames := InObject False True # aw_frames ?b\<rparr>)"
  have b: "aw_step BeginObject a = ?c"
    using ok h by (simp add: aw_begin_ok jheight_object)
  have run: "aw_run (concat (map (\<lambda>(k, d). Key k # calls_of d) ms)) ?c =
     (if ms = [] then ?c
      else aw_emit (comma_if False @ commas (map (\<lambda>(k, d). quoted k @ '':'' @ render d) ms))
             (?c\<lparr>aw_frames := InObject True True # aw_frames ?b\<rparr>))"
    using h ok sub unfolding jheight_object by (intro run_members) fastforce+
  show "aw_run (calls_of (DObject ms)) a = aw_emit (render (DObject ms)) ?b"
    using ok b run
    by (simp add: aw_run_append aw_frames_update_emit aw_emit_emit emit_end comma_if_def
        del: aw_step.simps(1,3) split: if_splits)
qed

lemma emits_all: "emits d"
proof (induction d)
  case (DArray ds)
  then show ?case by (intro emits_array)
next
  case (DObject ms)
  then show ?case by (intro emits_object) (auto simp: snds.simps)
qed (simp_all add: emits_def aw_scalar_def)

lemma run_render:
  assumes "jheight d \<le> USBS_JSON_MAX_DEPTH"
  shows "aw_run (calls_of d) aw_init = \<lparr>aw_text = render d, aw_frames = [], aw_error = USBS_OK\<rparr>"
  using emits_all [of d] assms
  by (simp add: emits_def aw_before_value.simps aw_init_def aw_emit_def)

section \<open>The reader undoes the escaping\<close>

lemma hex_value_hex_lower: "d < 16 \<Longrightarrow> hex_value (hex_lower d) = Some d"
proof -
  assume "d < 16"
  then have "d = 0 \<or> d = 1 \<or> d = 2 \<or> d = 3 \<or> d = 4 \<or> d = 5 \<or> d = 6 \<or> d = 7 \<or> d = 8 \<or>
      d = 9 \<or> d = 10 \<or> d = 11 \<or> d = 12 \<or> d = 13 \<or> d = 14 \<or> d = 15"
    by presburger
  then show ?thesis by (auto simp: hex_value_def hex_lower_def less_eq_char_def)
qed

lemma hex_value_0: "hex_value CHR ''0'' = Some 0"
  by (simp add: hex_value_def less_eq_char_def)

lemma take_4: "take 4 (a # b # c # d # r) = [a, b, c, d]" "drop 4 (a # b # c # d # r) = r"
  by (simp_all add: numeral_eq_Suc)

lemma str_push1_ok: "str_push1 mem_always buf cap c = Inr (buf @ [c], if length buf + 1 \<ge> cap then cap * 2 else cap)"
  by (simp add: str_push1_def mem_always)

lemma str_loop_plain:
  "c \<noteq> CHR 0x22 \<Longrightarrow> c \<noteq> CHR 0x5C \<Longrightarrow>
     str_loop mem_always (c # r) buf cap =
     str_loop mem_always r (buf @ [c]) (if length buf + 1 \<ge> cap then cap * 2 else cap)"
  by (simp add: str_push1_ok)

lemma str_loop_simple:
  "simple_escape e = Some c \<Longrightarrow> e \<noteq> CHR ''u'' \<Longrightarrow>
     str_loop mem_always (CHR 0x5C # e # r) buf cap =
     str_loop mem_always r (buf @ [c]) (if length buf + 1 \<ge> cap then cap * 2 else cap)"
  by (simp add: str_push1_ok)

lemma str_loop_hex:
  assumes "n < 128"
  shows "str_loop mem_always (CHR 0x5C # CHR ''u'' # CHR ''0'' # CHR ''0'' # hex_lower (n div 16)
        # hex_lower (n mod 16) # r) buf cap =
     str_loop mem_always r (buf @ [char_of n]) (if length buf + 1 \<ge> cap then cap * 2 else cap)"
proof -
  have "hex_loop [CHR ''0'', CHR ''0'', hex_lower (n div 16), hex_lower (n mod 16)] 0 = Some n"
    using assms by (simp add: hex_value_hex_lower hex_value_0)
  with assms show ?thesis by (simp add: str_push_code_def str_push1_ok take_4 del: hex_loop.simps)
qed

lemma escape_char_cases:
  "(\<exists>e. escape_char c = [CHR 0x5C, e] \<and> simple_escape e = Some c \<and> e \<noteq> CHR ''u'') \<or>
   c < CHR 0x20 \<and> escape_char c = [CHR 0x5C, CHR ''u'', CHR ''0'', CHR ''0'',
     hex_lower (of_char c div 16), hex_lower (of_char c mod 16)] \<or>
   escape_char c = [c] \<and> c \<noteq> CHR 0x22 \<and> c \<noteq> CHR 0x5C"
  by (simp add: escape_char_def simple_escape_def)

lemma str_loop_escape_char:
  "\<exists>cap'. str_loop mem_always (escape_char c @ r) buf cap = str_loop mem_always r (buf @ [c]) cap'"
proof -
  consider (esc) e where "escape_char c = [CHR 0x5C, e]" "simple_escape e = Some c" "e \<noteq> CHR ''u''"
    | (hex) "c < CHR 0x20" "escape_char c = [CHR 0x5C, CHR ''u'', CHR ''0'', CHR ''0'',
         hex_lower (of_char c div 16), hex_lower (of_char c mod 16)]"
    | (plain) "escape_char c = [c]" "c \<noteq> CHR 0x22" "c \<noteq> CHR 0x5C"
    using escape_char_cases [of c] by blast
  then show ?thesis
  proof cases
    case esc
    then show ?thesis using str_loop_simple [of e c r buf cap] by auto
  next
    case hex
    then have "of_char c < (128 :: nat)" by (simp add: less_char_def)
    from str_loop_hex [OF this, of r buf cap] hex show ?thesis by auto
  next
    case plain
    then show ?thesis using str_loop_plain [of c r buf cap] by auto
  qed
qed

lemma str_loop_escape_string:
  "str_loop mem_always (escape_string s @ CHR 0x22 # r) buf cap = Inr (buf @ s, r)"
proof (induction s arbitrary: buf cap)
  case Nil
  show ?case by (simp add: escape_string_def)
next
  case (Cons c s)
  obtain cap' where "str_loop mem_always (escape_char c @ escape_string s @ CHR 0x22 # r) buf cap =
      str_loop mem_always (escape_string s @ CHR 0x22 # r) (buf @ [c]) cap'"
    using str_loop_escape_char by blast
  with Cons.IH [of "buf @ [c]" cap'] show ?case by (simp add: escape_string_def)
qed

lemma parse_quoted: "parse_string_literal mem_always (quoted s @ r) = Inr (s, r)"
  using str_loop_escape_string [of s r "[]" 32] by (simp add: parse_string_literal_def quoted_def mem_always)

section \<open>The reader undoes the number printing\<close>

definition number_stop :: "string \<Rightarrow> bool" where
  "number_stop r \<longleftrightarrow> (r = [] \<or> \<not> is_digit (hd r) \<and> hd r \<notin> {CHR ''.'', CHR ''e'', CHR ''E''})"

lemma not_digit_minus [simp]: "\<not> is_digit CHR ''-''"
  by (simp add: is_digit_def less_eq_char_def)

lemma number_stop_peek:
  "number_stop r \<Longrightarrow> peek r \<noteq> CHR ''.'' \<and> peek r \<noteq> CHR ''e'' \<and> peek r \<noteq> CHR ''E''"
  by (cases r) (auto simp: number_stop_def)

lemma dec_of_int_split: "dec_of_int i = (if i < 0 then ''-'' else []) @ dec_of_nat (nat \<bar>i\<bar>)"
  by (simp add: dec_of_int_def)

lemma dec_digits_hd: "dec_of_nat n = c # cs \<Longrightarrow> is_digit c"
  using dec_of_nat_digits [of n] by simp

lemma peek_dec_of_int: "peek (dec_of_int i @ r) = CHR ''-'' \<and> i < 0 \<or> is_digit (peek (dec_of_int i @ r)) \<and> 0 \<le> i"
  using dec_digits_hd [of "nat \<bar>i\<bar>"] by (cases "dec_of_nat (nat \<bar>i\<bar>)") (auto simp: dec_of_int_split)

lemma number_scan_digits:
  assumes "number_stop r" and "list_all is_digit ds" and "ds \<noteq> []"
  shows "number_scan (ds @ r) = r" and "number_scan (CHR ''-'' # ds @ r) = r"
proof -
  have drop: "dropWhile is_digit (ds @ r) = r"
    using assms by (intro dropWhile_append_stop) (auto simp: number_stop_def)
  have "peek (ds @ r) \<noteq> CHR ''-''" using assms by (cases ds) auto
  then show "number_scan (ds @ r) = r"
    using number_stop_peek [OF assms(1)] by (simp add: number_scan_def drop)
  show "number_scan (CHR ''-'' # ds @ r) = r"
    using number_stop_peek [OF assms(1)] by (simp add: number_scan_def drop)
qed

lemma number_scan_dec: "number_stop r \<Longrightarrow> number_scan (dec_of_int i @ r) = r"
  by (simp add: dec_of_int_def number_scan_digits dec_of_nat_digits)

lemma c_strtod_digits:
  assumes "list_all is_digit ds" and "ds \<noteq> []"
  shows "c_strtod ds = (round_ratio False (nat_of_digits ds) 1, [])"
    and "c_strtod (CHR ''-'' # ds) = (round_ratio True (nat_of_digits ds) 1, [])"
proof -
  have tw: "takeWhile is_digit ds = ds" and dw: "dropWhile is_digit ds = []"
    using assms(1) by (simp_all add: list_all_iff)
  have "hd ds \<noteq> CHR ''-''" using assms by (cases ds) auto
  moreover have all: "\<forall>x \<in> set ds. is_digit x" using assms(1) by (simp add: list_all_iff)
  ultimately show "c_strtod ds = (round_ratio False (nat_of_digits ds) 1, [])"
    by (simp add: c_strtod_def tw dw assms(2))
  from all show "c_strtod (CHR ''-'' # ds) = (round_ratio True (nat_of_digits ds) 1, [])"
    by (simp add: c_strtod_def tw dw assms(2))
qed

lemma c_strtod_dec: "c_strtod (dec_of_int i) = (double_of_int i, [])"
  by (simp add: dec_of_int_def double_of_int_def c_strtod_digits dec_of_nat_digits)

lemma parse_number_dec:
  assumes "number_stop r" and "length (dec_of_int i) < 64"
  shows "parse_number (dec_of_int i @ r) = Inr (double_of_int i, r)"
proof -
  have "dec_of_int i \<noteq> []" by (simp add: dec_of_int_def)
  then show ?thesis
    using assms by (simp add: parse_number_def number_scan_dec c_strtod_dec)
qed

lemma parse_scalar_dec:
  assumes "number_stop r" and "length (dec_of_int i) < 64"
  shows "parse_scalar mem_always (dec_of_int i @ r) = Inr (JSON_NUMBER (double_of_int i), r)"
proof -
  let ?p = "peek (dec_of_int i @ r)"
  have "?p = CHR ''-'' \<or> is_digit ?p" using peek_dec_of_int by blast
  moreover from this have "?p \<noteq> CHR 0x22" "?p \<noteq> CHR ''t''" "?p \<noteq> CHR ''f''" "?p \<noteq> CHR ''n''"
    by (auto simp: is_digit_def less_eq_char_def)
  ultimately show ?thesis
    by (simp add: parse_scalar_def parse_number_dec [OF assms] value_new_def mem_always)
qed

section \<open>The reader rebuilds the tree\<close>

definition parses :: "jdoc \<Rightarrow> bool" where
  "parses d \<longleftrightarrow>
     (\<forall>depth r. depth + jheight d \<le> USBS_JSON_PARSE_MAX_DEPTH \<longrightarrow> number_stop r \<longrightarrow>
        parse_value mem_always depth (render d @ r) = Inr (jvalue d, r))"

lemma push_always:
  "\<exists>v'. object_push mem_always ov m = (USBS_OK, v') \<and> v_items v' = v_items ov @ [m]"
  "\<exists>v'. array_push mem_always av x = (USBS_OK, v') \<and> v_items v' = v_items av @ [x]"
  by (simp_all add: object_push_def array_push_def vec_push_def mem_always)

lemma skip_ws_start: "\<not> is_json_ws (peek s) \<Longrightarrow> skip_ws s = s"
  by (cases s) (auto simp: skip_ws_def)

lemma number_start:
  "\<not> is_json_ws (peek (dec_of_int i @ r)) \<and> peek (dec_of_int i @ r) \<notin> {CHR ''}'', CHR '']''}"
  using peek_dec_of_int [of i r] by (auto simp: is_json_ws_def is_digit_def less_eq_char_def)

lemma dec_of_nat_int: "dec_of_nat (unat n) = dec_of_int (uint n)"
proof -
  have "nat (uint n) = unat n" and "\<not> uint n < 0" by (simp_all add: not_less)
  then show ?thesis by (simp only: dec_of_int_def if_False)
qed

lemma render_start:
  "\<not> is_json_ws (peek (render d @ r)) \<and> peek (render d @ r) \<noteq> CHR ''}'' \<and>
     peek (render d @ r) \<noteq> CHR '']''"
proof (cases d)
  case (DInt i)
  then show ?thesis using number_start by simp
next
  case (DUint n)
  then show ?thesis using number_start by (simp add: dec_of_nat_int)
qed (auto simp: is_json_ws_def quoted_def)

lemma render_nonempty: "render d \<noteq> []"
  by (cases d) (auto simp: quoted_def dec_of_int_def)

lemma commas_Cons: "commas (x # xs) @ r = x @ (if xs = [] then r else CHR '','' # commas xs @ r)"
  by (cases xs) auto

lemma number_stop_sep [simp]:
  "number_stop (CHR '','' # r)" "number_stop (CHR '']'' # r)" "number_stop (CHR ''}'' # r)" "number_stop []"
  by (simp_all add: number_stop_def is_digit_def less_eq_char_def)

lemma sep_not_ws [simp]:
  "skip_ws (CHR '','' # r) = CHR '','' # r" "skip_ws (CHR '']'' # r) = CHR '']'' # r"
  "skip_ws (CHR ''}'' # r) = CHR ''}'' # r" "skip_ws (CHR '':'' # r) = CHR '':'' # r"
  "skip_ws (CHR 0x22 # r) = CHR 0x22 # r"
  by (simp_all add: skip_ws_def is_json_ws_def)

lemma skip_ws_render [simp]: "skip_ws (render d @ r) = render d @ r"
  by (simp add: skip_ws_start render_start)

lemma skip_ws_quoted [simp]: "skip_ws (quoted s @ r) = quoted s @ r"
  by (simp add: quoted_def)

lemma array_loop_render:
  assumes "\<And>d. d \<in> set ds \<Longrightarrow> parses d" and "ds \<noteq> []"
    and "\<And>d. d \<in> set ds \<Longrightarrow> depth + jheight d \<le> USBS_JSON_PARSE_MAX_DEPTH"
  shows "array_loop mem_always depth av (commas (map render ds) @ CHR '']'' # r) =
     Inr (JSON_ARRAY (v_items av @ map jvalue ds), r)"
  using assms
proof (induction ds arbitrary: av)
  case Nil
  then show ?case by simp
next
  case (Cons d ds)
  let ?rest = "if ds = [] then CHR '']'' # r else CHR '','' # commas (map render ds) @ CHR '']'' # r"
  have "parses d" and "depth + jheight d \<le> USBS_JSON_PARSE_MAX_DEPTH"
    using Cons.prems(1,3) by simp_all
  then have p: "parse_value mem_always depth (render d @ ?rest) = Inr (jvalue d, ?rest)"
    by (simp add: parses_def)
  obtain av' where push: "array_push mem_always av (jvalue d) = (USBS_OK, av')"
    "v_items av' = v_items av @ [jvalue d]"
    using push_always(2) by blast
  have "array_loop mem_always depth av (render d @ ?rest) =
      (if ds = [] then Inr (JSON_ARRAY (v_items av'), r)
       else array_loop mem_always depth av' (commas (map render ds) @ CHR '']'' # r))"
    by (subst array_loop.simps) (use p push in \<open>simp split: if_split\<close>)
  then show ?case
    using Cons push(2) by (auto simp: commas_Cons)
qed

lemma object_loop_render:
  assumes "\<And>k d. (k, d) \<in> set ms \<Longrightarrow> parses d" and "ms \<noteq> []"
    and "\<And>k d. (k, d) \<in> set ms \<Longrightarrow> depth + jheight d \<le> USBS_JSON_PARSE_MAX_DEPTH"
  shows "object_loop mem_always depth ov
       (commas (map (\<lambda>(k, d). quoted k @ '':'' @ render d) ms) @ CHR ''}'' # r) =
     Inr (JSON_OBJECT (v_items ov @ map (\<lambda>(k, d). (k, jvalue d)) ms), r)"
  using assms
proof (induction ms arbitrary: ov)
  case Nil
  then show ?case by simp
next
  case (Cons m ms)
  obtain k d where m: "m = (k, d)" by (cases m) auto
  let ?tail = "commas (map (\<lambda>(k, d). quoted k @ '':'' @ render d) ms) @ CHR ''}'' # r"
  let ?rest = "if ms = [] then CHR ''}'' # r else CHR '','' # ?tail"
  have "parses d" and "depth + jheight d \<le> USBS_JSON_PARSE_MAX_DEPTH"
    using Cons.prems(1,3) [of k d] by (simp_all add: m)
  then have p: "parse_value mem_always depth (render d @ ?rest) = Inr (jvalue d, ?rest)"
    by (simp add: parses_def)
  obtain ov' where push: "object_push mem_always ov (k, jvalue d) = (USBS_OK, ov')"
    "v_items ov' = v_items ov @ [(k, jvalue d)]"
    using push_always(1) by blast
  have "object_loop mem_always depth ov (quoted k @ CHR '':'' # render d @ ?rest) =
      (if ms = [] then Inr (JSON_OBJECT (v_items ov'), r)
       else object_loop mem_always depth ov' ?tail)"
    by (subst object_loop.simps) (use p push in \<open>simp add: parse_quoted split: if_split\<close>)
  moreover have "object_loop mem_always depth ov' ?tail =
      Inr (JSON_OBJECT (v_items ov' @ map (\<lambda>(k, d). (k, jvalue d)) ms), r)" if "ms \<noteq> []"
    using Cons.prems that by (intro Cons.IH) auto
  ultimately show ?case
    using push(2) by (auto simp: m commas_Cons)
qed

lemma commas_peek:
  "ds \<noteq> [] \<Longrightarrow> \<not> is_json_ws (peek (commas (map render ds) @ r)) \<and>
     peek (commas (map render ds) @ r) \<noteq> CHR '']''"
  by (cases ds) (auto simp: commas_Cons render_start)

lemma commas_peek_object:
  "ms \<noteq> [] \<Longrightarrow> peek (commas (map (\<lambda>(k, d). quoted k @ '':'' @ render d) ms) @ r) = CHR 0x22"
  by (cases ms) (auto simp: commas_Cons quoted_def)

lemma parses_array:
  assumes sub: "\<And>d. d \<in> set ds \<Longrightarrow> parses d"
  shows "parses (DArray ds)"
  unfolding parses_def
proof (intro allI impI)
  fix depth r
  assume "depth + jheight (DArray ds) \<le> USBS_JSON_PARSE_MAX_DEPTH"
  then have h: "jheight (DArray ds) \<le> USBS_JSON_PARSE_MAX_DEPTH - depth" by linarith
  then have room: "depth < USBS_JSON_PARSE_MAX_DEPTH" by (simp add: jheight_array del: jheight.simps)
  let ?body = "commas (map render ds) @ CHR '']'' # r"
  have "parse_value mem_always depth (render (DArray ds) @ r) =
      parse_array mem_always (depth + 1) (CHR ''['' # ?body)"
    using room skip_ws_start [of "CHR ''['' # ?body"]
    by (simp add: parse_value.simps is_json_ws_def)
  also have "\<dots> = Inr (JSON_ARRAY (map jvalue ds), r)"
  proof (cases "ds = []")
    case True
    then show ?thesis by (simp add: parse_array.simps mem_always)
  next
    case False
    then have "array_loop mem_always (depth + 1) vec_init ?body = Inr (JSON_ARRAY (map jvalue ds), r)"
      using h sub unfolding jheight_array
      by (subst array_loop_render) (fastforce simp: vec_init_def)+
    with False commas_peek [OF False] show ?thesis
      by (simp add: parse_array.simps skip_ws_start mem_always)
  qed
  finally show "parse_value mem_always depth (render (DArray ds) @ r) = Inr (jvalue (DArray ds), r)"
    by simp
qed

lemma parses_object:
  assumes sub: "\<And>k d. (k, d) \<in> set ms \<Longrightarrow> parses d"
  shows "parses (DObject ms)"
  unfolding parses_def
proof (intro allI impI)
  fix depth r
  assume "depth + jheight (DObject ms) \<le> USBS_JSON_PARSE_MAX_DEPTH"
  then have h: "jheight (DObject ms) \<le> USBS_JSON_PARSE_MAX_DEPTH - depth" by linarith
  then have room: "depth < USBS_JSON_PARSE_MAX_DEPTH" by (simp add: jheight_object del: jheight.simps)
  let ?body = "commas (map (\<lambda>(k, d). quoted k @ '':'' @ render d) ms) @ CHR ''}'' # r"
  have "parse_value mem_always depth (render (DObject ms) @ r) =
      parse_object mem_always (depth + 1) (CHR ''{'' # ?body)"
    using room skip_ws_start [of "CHR ''{'' # ?body"]
    by (simp add: parse_value.simps is_json_ws_def)
  also have "\<dots> = Inr (JSON_OBJECT (map (\<lambda>(k, d). (k, jvalue d)) ms), r)"
  proof (cases "ms = []")
    case True
    then show ?thesis by (simp add: parse_object.simps mem_always)
  next
    case False
    then have "object_loop mem_always (depth + 1) vec_init ?body =
        Inr (JSON_OBJECT (map (\<lambda>(k, d). (k, jvalue d)) ms), r)"
      using h sub unfolding jheight_object
      by (subst object_loop_render) (fastforce simp: vec_init_def)+
    with False commas_peek_object [OF False] show ?thesis
      by (simp add: parse_object.simps skip_ws_start mem_always is_json_ws_def)
  qed
  finally show "parse_value mem_always depth (render (DObject ms) @ r) = Inr (jvalue (DObject ms), r)"
    by simp
qed

text \<open>A scalar is parsed by \<open>parse_scalar\<close>.\<close>

lemma parses_scalar:
  assumes "jheight d = 1"
    and "\<And>r. peek (render d @ r) \<notin> {CHR ''{'', CHR ''[''}"
    and "\<And>r. number_stop r \<Longrightarrow> parse_scalar mem_always (render d @ r) = Inr (jvalue d, r)"
  shows "parses d"
  using assms by (simp add: parses_def parse_value.simps render_nonempty)

lemma peek_number: "peek (dec_of_int i @ r) \<noteq> CHR ''{'' \<and> peek (dec_of_int i @ r) \<noteq> CHR ''[''"
  using peek_dec_of_int [of i r] by (auto simp: is_digit_def less_eq_char_def)

lemma literal_ok: "match_literal l (l @ r) = Some r"
  by (simp add: match_literal_def)

lemma parses_all: "parses d"
proof (induction d)
  case DNull
  show ?case
    using literal_ok [of "''null''"] by (intro parses_scalar) (auto simp: parse_scalar_def value_new_def mem_always)
next
  case (DBool b)
  show ?case
    using literal_ok [of "''true''"] literal_ok [of "''false''"]
    by (intro parses_scalar) (auto simp: parse_scalar_def value_new_def mem_always)
next
  case (DInt i)
  have "length (dec_of_int (sint i)) < 64" using i64_dec_length [of i] by linarith
  then show ?case by (intro parses_scalar) (simp_all add: peek_number parse_scalar_dec)
next
  case (DUint n)
  have "length (dec_of_int (uint n)) < 64" using u64_dec_length [of n] by (simp flip: dec_of_nat_int)
  then show ?case by (intro parses_scalar) (simp_all add: dec_of_nat_int peek_number parse_scalar_dec)
next
  case (DString s)
  have "peek (quoted s @ r) = CHR 0x22" for r by (simp add: quoted_def)
  then show ?case by (intro parses_scalar) (simp_all add: parse_scalar_def parse_quoted value_new_def mem_always)
next
  case (DArray ds)
  then show ?case by (intro parses_array)
next
  case (DObject ms)
  then show ?case by (intro parses_object) (auto simp: snds.simps)
qed

lemma parse_render:
  assumes "jheight d \<le> USBS_JSON_PARSE_MAX_DEPTH"
  shows "usbs_json_parse mem_always (render d) = Inr (jvalue d)"
  using parses_all [of d] assms
  by (auto simp: parses_def usbs_json_parse_def skip_ws_def dest!: spec [of _ 0] spec [of _ "[]"])

section \<open>Small integers survive the double\<close>

lemma log2_floor_bounds: "0 < n \<Longrightarrow> 2 ^ log2_floor n \<le> n \<and> n < 2 ^ Suc (log2_floor n)"
proof (induction n rule: log2_floor.induct)
  case (1 n)
  show ?case
  proof (cases "n < 2")
    case True
    with 1 show ?thesis by (simp add: log2_floor.simps)
  next
    case False
    then have "2 ^ log2_floor (n div 2) \<le> n div 2 \<and> n div 2 < 2 ^ Suc (log2_floor (n div 2))"
      using 1 by simp
    then have "2 * 2 ^ log2_floor (n div 2) \<le> n" "n < 4 * 2 ^ log2_floor (n div 2)" by auto
    with False show ?thesis by (simp add: log2_floor.simps [of n])
  qed
qed

lemma log2_floor_1: "log2_floor 1 = 0" "log2_floor (Suc 0) = 0"
  by (subst log2_floor.simps, simp)+

lemma round_ratio_small:
  assumes "0 < n" and "n < 2 ^ 53"
  shows "\<exists>k. round_ratio neg n 1 = Dyadic (if neg then - int (n * 2 ^ k) else int (n * 2 ^ k)) (- int k)"
proof -
  let ?l = "log2_floor n"
  have l: "2 ^ ?l \<le> n" "n < 2 ^ Suc ?l" using log2_floor_bounds [OF assms(1)] by simp_all
  have "2 ^ ?l < (2 :: nat) ^ 53" using l(1) assms(2) by linarith
  then have "?l < 53" by (rule power_less_imp_less_exp [rotated]) simp
  then have le: "?l \<le> 52" by simp
  define k where "k = 52 - ?l"
  have e0: "int ?l - int (log2_floor 1) - 52 = - int k"
    using le by (simp add: k_def log2_floor_1 of_nat_diff)
  have "2 ^ 52 = 2 ^ ?l * (2 :: nat) ^ k" using le by (simp add: k_def flip: power_add)
  also have "\<dots> \<le> n * 2 ^ k" using l(1) by simp
  finally have big: "2 ^ 52 \<le> n * 2 ^ k" .
  have sd: "scale_down n 1 (- int k) = (n * 2 ^ k, 1)" by (simp add: scale_down_def)
  have max: "max (- int k) (- 1074) = - int k" using le by (simp add: k_def)
  have whole: "(n * 2 ^ k div 1 < 2 ^ 52) = False" using big by (simp add: not_less)
  have exact: "round_half_even (n * 2 ^ k) 1 = n * 2 ^ k" by (simp add: round_half_even_def)
  have fits: "(- int k \<ge> 972 \<or> - int k = 971 \<and> n * 2 ^ k \<ge> 2 ^ 53) = False" by simp
  have "round_ratio neg n 1 =
      Dyadic (if neg then - int (n * 2 ^ k) else int (n * 2 ^ k)) (- int k)"
    using assms(1)
    by (simp only: round_ratio_def Let_def e0 sd max whole exact fits prod.case if_False) simp
  then show ?thesis by blast
qed

lemma as_int_double_of_int:
  assumes "\<bar>i\<bar> < 2 ^ 53"
  shows "usbs_json_as_int (Some (JSON_NUMBER (double_of_int i))) = Some (Cast i)"
proof (cases "i = 0")
  case True
  then show ?thesis
    by (simp add: usbs_json_as_int_def double_of_int_def round_ratio_def long_long_range_def)
next
  case False
  then have "0 < nat \<bar>i\<bar>" "nat \<bar>i\<bar> < 2 ^ 53" using assms by (simp_all add: nat_less_iff)
  from round_ratio_small [OF this, of "i < 0"] obtain k where
    "double_of_int i = Dyadic (i * 2 ^ k) (- int k)"
    by (auto simp: double_of_int_def)
  with assms show ?thesis
    by (auto simp: usbs_json_as_int_def long_long_range_def)
qed

section \<open>Round trip\<close>

lemma written_document_parses:
  assumes "jheight d \<le> USBS_JSON_PARSE_MAX_DEPTH" and "length (render d) < SIZE_MAX div 2"
  shows "usbs_json_writer_finish (json_run mem_always (calls_of d) usbs_json_writer_init) = Inr (render d) \<and>
    usbs_json_parse mem_always (render d) = Inr (jvalue d)"
proof
  have "\<not> out_of_memory mem_always (render d)"
    using assms(2) by (simp add: out_of_memory_def mem_always)
  then show "usbs_json_writer_finish (json_run mem_always (calls_of d) usbs_json_writer_init) =
      Inr (render d)"
    using assms(1)
    by (intro finish_complete run_render render_nonempty)
       (simp add: USBS_JSON_MAX_DEPTH_def USBS_JSON_PARSE_MAX_DEPTH_def)
  show "usbs_json_parse mem_always (render d) = Inr (jvalue d)"
    by (rule parse_render [OF assms(1)])
qed


definition sample_document :: jdoc where
  "sample_document =
     DObject [(''id'', DUint 7), (''tags'', DArray [DString [CHR 0x0A, CHR 0x22], DBool True, DNull]),
       (''n'', DInt (- 3))]"


text \<open>
  Integers below 2^53 in magnitude come back exactly: the reader's double of the printed
  number converts to the same \<open>long long\<close>.
\<close>

theorem json_int_exact:
  assumes "\<bar>sint i\<bar> < 2 ^ 53"
  shows "usbs_json_as_int (Some (jvalue (DInt i))) = Some (Cast (sint i))"
  using as_int_double_of_int [OF assms] by simp

lemma json_int_exact_witness: "usbs_json_as_int (Some (jvalue (DInt (- 1234567)))) = Some (Cast (- 1234567))"
  using json_int_exact [of "- 1234567"] by simp

end
