(* ===== verification/Paths.thy ===== *)
theory Paths
  imports Status
begin

text \<open>
  Host paths and the environment: src/core/path.c and src/core/env.c. The \<open>#if\<close> branches of
  the two files are an argument of type \<open>host\<close>. A function that fills a caller's buffer returns
  the status together with what the buffer then holds, because the C code writes a truncated
  text before it reports USBS_ERR_NO_MEMORY.
\<close>

datatype host = Windows | MacOS | Posix

section \<open>Path separators\<close>

definition USBS_PATH_SEP :: "host \<Rightarrow> char" where
  "USBS_PATH_SEP h = (if h = Windows then CHR 0x5C else CHR ''/'')"

definition usbs_path_is_separator :: "host \<Rightarrow> char \<Rightarrow> bool" where
  "usbs_path_is_separator h c =
     (if h = Windows then c = CHR 0x5C \<or> c = CHR ''/'' else c = CHR ''/'')"

text \<open>The separator test as the clients see it (same on every host up to the set it accepts).\<close>

definition joined_path :: "host \<Rightarrow> string \<Rightarrow> string \<Rightarrow> string" where
  "joined_path h base leaf =
     (if base \<noteq> [] \<and> usbs_path_is_separator h (last base) then base @ leaf
      else base @ USBS_PATH_SEP h # leaf)"

definition usbs_path_join :: "host \<Rightarrow> nat \<Rightarrow> string \<Rightarrow> string \<Rightarrow> usbs_status \<times> string" where
  "usbs_path_join h cap base leaf =
     (if cap = 0 then (USBS_ERR_INVALID_ARG, [])
      else
        (let full = joined_path h base leaf
         in if length full \<ge> cap then (USBS_ERR_NO_MEMORY, snprintf_buf cap full)
            else (USBS_OK, full)))"

lemma path_sep_is_separator [simp]: "usbs_path_is_separator h (USBS_PATH_SEP h)"
  by (cases h) (simp_all add: usbs_path_is_separator_def USBS_PATH_SEP_def)

lemma usbs_path_join_ok:
  "usbs_path_join h cap base leaf = (USBS_OK, out) \<longleftrightarrow>
     out = joined_path h base leaf \<and> length out < cap"
  by (auto simp: usbs_path_join_def Let_def)

lemma length_usbs_path_join [usbs_bounds]:
  "0 < cap \<Longrightarrow> usbs_path_join h cap base leaf = (st, out) \<Longrightarrow> length out < cap"
  by (auto simp: usbs_path_join_def Let_def snprintf_buf_def split: if_splits)

text \<open>Joining never doubles a separator and always leaves one between base and leaf.\<close>

lemma joined_path_shape:
  "\<exists>b c. joined_path h base leaf = b @ c # leaf \<and> usbs_path_is_separator h c \<and>
     (base = b @ [c] \<or> base = b \<and> (b = [] \<or> \<not> usbs_path_is_separator h (last b)))"
proof (cases "base \<noteq> [] \<and> usbs_path_is_separator h (last base)")
  case True
  then show ?thesis
    by (intro exI [of _ "butlast base"] exI [of _ "last base"]) (simp add: joined_path_def)
next
  case False
  then show ?thesis
    by (intro exI [of _ base] exI [of _ "USBS_PATH_SEP h"]) (auto simp: joined_path_def)
qed

lemma joined_path_length:
  "length (joined_path h base leaf) \<le> length base + length leaf + 1"
  "length base + length leaf \<le> length (joined_path h base leaf)"
  by (auto simp: joined_path_def)

section \<open>The environment\<close>

text \<open>The process environment maps a name to its value; \<open>getenv\<close> yields NULL outside its domain.\<close>

type_synonym environment = "string \<Rightarrow> string option"

definition usbs_getenv :: "environment \<Rightarrow> string \<Rightarrow> nat \<Rightarrow> usbs_status \<times> string" where
  "usbs_getenv env name cap =
     (if cap = 0 then (USBS_ERR_INVALID_ARG, [])
      else
        (case env name of
           None \<Rightarrow> (USBS_ERR_NOT_FOUND, [])
         | Some value \<Rightarrow>
             if value = [] then (USBS_ERR_NOT_FOUND, [])
             else if length value \<ge> cap then (USBS_ERR_NO_MEMORY, [])
             else (USBS_OK, snprintf_buf cap value)))"

text \<open>
  The POSIX branch: \<open>setenv\<close> refuses an empty name or one holding an equals sign (EINVAL);
  \<open>unsetenv\<close>'s result is ignored. \<open>grant\<close> says whether \<open>setenv\<close> found the memory it needs.
\<close>

definition valid_env_name :: "string \<Rightarrow> bool" where
  "valid_env_name name \<longleftrightarrow> name \<noteq> [] \<and> CHR ''='' \<notin> set name"

definition usbs_setenv ::
  "bool \<Rightarrow> environment \<Rightarrow> string \<Rightarrow> string option \<Rightarrow> usbs_status \<times> environment" where
  "usbs_setenv grant env name value =
     (let v = (case value of None \<Rightarrow> [] | Some v \<Rightarrow> v)
      in if v = [] then
           (USBS_OK, if valid_env_name name then env(name := None) else env)
         else if \<not> valid_env_name name \<or> \<not> grant then (USBS_ERR_INTERNAL, env)
         else (USBS_OK, env(name := Some v)))"

definition data_dir_under :: "host \<Rightarrow> nat \<Rightarrow> string \<Rightarrow> string \<Rightarrow> string \<Rightarrow> usbs_status \<times> string" where
  "data_dir_under h cap base middle leaf =
     (case usbs_path_join h 512 base middle of
        (st, dir) \<Rightarrow> if \<not> usbs_ok st then (st, []) else usbs_path_join h cap dir leaf)"

definition usbs_user_data_dir :: "host \<Rightarrow> environment \<Rightarrow> nat \<Rightarrow> usbs_status \<times> string" where
  "usbs_user_data_dir h env cap =
     (if cap = 0 then (USBS_ERR_INVALID_ARG, [])
      else
        (case h of
           Windows \<Rightarrow>
             (case usbs_getenv env ''LOCALAPPDATA'' 512 of
                (st, base) \<Rightarrow>
                  if \<not> usbs_ok st then (USBS_ERR_NOT_FOUND, [])
                  else usbs_path_join h cap base ''USBSentinel'')
         | MacOS \<Rightarrow>
             (case usbs_getenv env ''HOME'' 512 of
                (st, base) \<Rightarrow>
                  if \<not> usbs_ok st then (USBS_ERR_NOT_FOUND, [])
                  else data_dir_under h cap base ''Library/Application Support'' ''USBSentinel'')
         | Posix \<Rightarrow>
             (case usbs_getenv env ''XDG_DATA_HOME'' 512 of
                (st, base) \<Rightarrow>
                  if usbs_ok st then usbs_path_join h cap base ''usb-sentinel''
                  else
                    (case usbs_getenv env ''HOME'' 512 of
                       (st2, base2) \<Rightarrow>
                         if \<not> usbs_ok st2 then (USBS_ERR_NOT_FOUND, [])
                         else data_dir_under h cap base2 ''.local/share'' ''usb-sentinel''))))"

lemma usbs_getenv_ok:
  "usbs_getenv env name cap = (USBS_OK, out) \<longleftrightarrow> env name = Some out \<and> out \<noteq> [] \<and> length out < cap"
  by (auto simp: usbs_getenv_def split: option.splits)

lemma usbs_setenv_getenv:
  "valid_env_name name \<Longrightarrow> usbs_setenv True env name (Some v) = (st, env') \<Longrightarrow> length v < cap \<Longrightarrow>
     usbs_getenv env' name cap = (if v = [] then (USBS_ERR_NOT_FOUND, []) else (USBS_OK, v))"
  by (auto simp: usbs_setenv_def usbs_getenv_def Let_def split: if_splits)

lemma length_usbs_user_data_dir [usbs_bounds]:
  "0 < cap \<Longrightarrow> usbs_user_data_dir h env cap = (st, out) \<Longrightarrow> length out < cap"
  unfolding usbs_user_data_dir_def data_dir_under_def
  by (cases h) (auto split: prod.splits if_splits dest: length_usbs_path_join)

text \<open>The XDG rule on its own: which directory a POSIX environment stands for.\<close>

definition usable :: "environment \<Rightarrow> string \<Rightarrow> string option" where
  "usable env name =
     (case env name of Some v \<Rightarrow> if v \<noteq> [] \<and> length v < 512 then Some v else None | None \<Rightarrow> None)"

definition posix_store :: "environment \<Rightarrow> string option" where
  "posix_store env =
     (case usable env ''XDG_DATA_HOME'' of
        Some base \<Rightarrow> Some (joined_path Posix base ''usb-sentinel'')
      | None \<Rightarrow>
          map_option (\<lambda>home. joined_path Posix (joined_path Posix home ''.local/share'') ''usb-sentinel'')
            (usable env ''HOME''))"

lemma usbs_getenv_usable:
  "usbs_getenv env name 512 =
     (case usable env name of
        Some v \<Rightarrow> (USBS_OK, v)
      | None \<Rightarrow> (fst (usbs_getenv env name 512), []))"
  "usable env name = None \<Longrightarrow> \<not> usbs_ok (fst (usbs_getenv env name 512))"
  by (auto simp: usable_def usbs_getenv_def split: option.splits)

text \<open>
  Where the Linux store lives, for the buffers of at most 512 bytes the program passes: a
  usable XDG_DATA_HOME decides, otherwise HOME/.local/share; the directory is returned whole
  when it fits, and without a usable variable it is not found.
\<close>

theorem posix_data_dir:
  assumes "0 < cap" and "cap \<le> 512"
  shows "case posix_store env of
      None \<Rightarrow> usbs_user_data_dir Posix env cap = (USBS_ERR_NOT_FOUND, [])
    | Some dir \<Rightarrow> length dir < cap \<longrightarrow> usbs_user_data_dir Posix env cap = (USBS_OK, dir)"
proof (cases "usable env ''XDG_DATA_HOME''")
  case (Some base)
  then have "usbs_getenv env ''XDG_DATA_HOME'' 512 = (USBS_OK, base)"
    using usbs_getenv_usable(1) [of env "''XDG_DATA_HOME''"] by simp
  with Some assms show ?thesis
    by (simp add: posix_store_def usbs_user_data_dir_def usbs_path_join_def)
next
  case xdg: None
  obtain st where "usbs_getenv env ''XDG_DATA_HOME'' 512 = (st, [])" "\<not> usbs_ok st"
    using xdg usbs_getenv_usable [of env "''XDG_DATA_HOME''"] by auto
  note step = this
  show ?thesis
  proof (cases "usable env ''HOME''")
    case (Some home)
    then have "usbs_getenv env ''HOME'' 512 = (USBS_OK, home)"
      using usbs_getenv_usable(1) [of env "''HOME''"] by simp
    with xdg Some step assms show ?thesis
      using joined_path_length(2) [of "joined_path Posix home ''.local/share''" "''usb-sentinel''" Posix]
      by (auto simp: posix_store_def usbs_user_data_dir_def data_dir_under_def usbs_path_join_def)
  next
    case None
    obtain st2 where "usbs_getenv env ''HOME'' 512 = (st2, [])" "\<not> usbs_ok st2"
      using None usbs_getenv_usable [of env "''HOME''"] by auto
    with xdg None step assms show ?thesis
      by (simp add: posix_store_def usbs_user_data_dir_def)
  qed
qed

lemma posix_data_dir_witness:
  "usbs_user_data_dir Posix [''HOME'' \<mapsto> ''/home/u''] 512 = (USBS_OK, ''/home/u/.local/share/usb-sentinel'')"
proof -
  have "posix_store [''HOME'' \<mapsto> ''/home/u''] = Some ''/home/u/.local/share/usb-sentinel''" by code_simp
  then show ?thesis using posix_data_dir [of 512 "[''HOME'' \<mapsto> ''/home/u'']"] by simp
qed

end
