(* ===== verification/Device.thy ===== *)
theory Device
  imports Growable
begin

text \<open>
  The device model: include/usbsentinel/device.h and src/core/device.c. The fixed-size text
  fields are the C strings they hold; \<open>mount_points\<close> is the part of the array below
  \<open>mount_point_count\<close>, which its length stands for.
\<close>

section \<open>Types\<close>

definition USBS_VOLUME_PATH_MAX :: nat where "USBS_VOLUME_PATH_MAX = 512"
definition USBS_MOUNT_POINT_MAX :: nat where "USBS_MOUNT_POINT_MAX = 512"
definition USBS_MOUNT_POINTS_MAX :: nat where "USBS_MOUNT_POINTS_MAX = 4"
definition USBS_IDENTITY_MAX :: nat where "USBS_IDENTITY_MAX = USBS_VOLUME_PATH_MAX + 32"
definition SIZEOF_DEVICE :: nat where "SIZEOF_DEVICE = 3152"

datatype usbs_bus_type =
    USBS_BUS_UNKNOWN | USBS_BUS_USB | USBS_BUS_SATA | USBS_BUS_NVME | USBS_BUS_SCSI
  | USBS_BUS_SD | USBS_BUS_OTHER | USBS_BUS_NETWORK

datatype usbs_enum_mode = USBS_ENUM_USB_ONLY | USBS_ENUM_ALL_VOLUMES

record usbs_device =
  volume_path :: string
  mount_points :: "string list"
  label :: string
  filesystem :: string
  capacity_bytes :: usbs_u64
  free_bytes :: usbs_u64
  bus_type :: usbs_bus_type
  disk_number :: usbs_u32
  has_disk_number :: bool
  vendor :: string
  product :: string
  serial :: string
  usb_vid :: string
  usb_pid :: string
  removable_media :: bool
  media_present :: bool

definition usbs_device_init :: usbs_device where
  "usbs_device_init =
     \<lparr>volume_path = [], mount_points = [], label = [], filesystem = [], capacity_bytes = 0,
      free_bytes = 0, bus_type = USBS_BUS_UNKNOWN, disk_number = 0, has_disk_number = False,
      vendor = [], product = [], serial = [], usb_vid = [], usb_pid = [],
      removable_media = False, media_present = False\<rparr>"

text \<open>The bounds the field sizes impose on every device value.\<close>

definition device_wf :: "usbs_device \<Rightarrow> bool" where
  "device_wf d \<longleftrightarrow>
     length (volume_path d) < USBS_VOLUME_PATH_MAX \<and> length (mount_points d) \<le> 4 \<and>
     length (label d) < 128 \<and> length (filesystem d) < 32 \<and>
     length (vendor d) < 128 \<and> length (product d) < 128 \<and> length (serial d) < 128 \<and>
     length (usb_vid d) < 5 \<and> length (usb_pid d) < 5"

section \<open>Operations\<close>

fun usbs_bus_type_string :: "usbs_bus_type \<Rightarrow> string" where
  "usbs_bus_type_string USBS_BUS_UNKNOWN = ''unknown''"
| "usbs_bus_type_string USBS_BUS_USB = ''USB''"
| "usbs_bus_type_string USBS_BUS_SATA = ''SATA''"
| "usbs_bus_type_string USBS_BUS_NVME = ''NVMe''"
| "usbs_bus_type_string USBS_BUS_SCSI = ''SCSI''"
| "usbs_bus_type_string USBS_BUS_SD = ''SD''"
| "usbs_bus_type_string USBS_BUS_OTHER = ''other''"
| "usbs_bus_type_string USBS_BUS_NETWORK = ''network''"

definition is_known_non_usb_bus :: "usbs_bus_type \<Rightarrow> bool" where
  "is_known_non_usb_bus bus \<longleftrightarrow> bus \<noteq> USBS_BUS_USB \<and> bus \<noteq> USBS_BUS_UNKNOWN"

text \<open>The text of the identity, before \<open>snprintf\<close> cuts it to the buffer.\<close>

definition identity_text :: "usbs_device \<Rightarrow> string" where
  "identity_text d =
     (let have_usb_ids = (usb_vid d \<noteq> [] \<and> usb_pid d \<noteq> []);
          have_serial = (serial d \<noteq> [] \<and> \<not> is_known_non_usb_bus (bus_type d))
      in if have_usb_ids \<and> have_serial then
           ''usb:'' @ usb_vid d @ ''-'' @ usb_pid d @ '':'' @ serial d
         else if have_usb_ids then ''usb:'' @ usb_vid d @ ''-'' @ usb_pid d
         else if have_serial then ''serial:'' @ serial d
         else ''volume:'' @ volume_path d)"

definition usbs_device_identity :: "usbs_device \<Rightarrow> nat \<Rightarrow> usbs_status \<times> string" where
  "usbs_device_identity d cap =
     (if cap = 0 then (USBS_ERR_INVALID_ARG, [])
      else if length (identity_text d) \<ge> cap
      then (USBS_ERR_NO_MEMORY, snprintf_buf cap (identity_text d))
      else (USBS_OK, identity_text d))"

definition usbs_device_is_scannable_usb :: "usbs_device \<Rightarrow> bool" where
  "usbs_device_is_scannable_usb d \<longleftrightarrow> bus_type d = USBS_BUS_USB \<and> media_present d"

definition usbs_device_is_scannable :: "usbs_device \<Rightarrow> usbs_enum_mode \<Rightarrow> bool" where
  "usbs_device_is_scannable d mode =
     (if mode \<noteq> USBS_ENUM_ALL_VOLUMES then usbs_device_is_scannable_usb d
      else media_present d \<and> mount_points d \<noteq> [] \<and> volume_path d \<noteq> [])"

type_synonym usbs_device_list = "usbs_device vec"

definition usbs_device_list_push ::
  "allocator \<Rightarrow> usbs_device_list \<Rightarrow> usbs_device \<Rightarrow> usbs_status \<times> usbs_device_list" where
  "usbs_device_list_push = vec_push 8 SIZEOF_DEVICE True"

interpretation device_list: growable_array usbs_device_list_push v_items v_capacity vec_init
  unfolding usbs_device_list_push_def by (rule growable_vec_push) simp

text \<open>
  An enumeration source is an optional function (a NULL pointer is \<open>None\<close>) that fills a list;
  on failure the list is freed, whatever the source had pushed.
\<close>

definition usbs_device_enumerate ::
  "('w \<Rightarrow> usbs_device_list \<Rightarrow> usbs_status \<times> usbs_device_list \<times> 'w) option \<Rightarrow> 'w \<Rightarrow>
     usbs_status \<times> usbs_device_list \<times> 'w" where
  "usbs_device_enumerate source w =
     (case source of
        None \<Rightarrow> (USBS_ERR_UNSUPPORTED, vec_init, w)
      | Some enum_fn \<Rightarrow>
          (case enum_fn w vec_init of
             (st, l, w') \<Rightarrow> if \<not> usbs_ok st then (st, vec_init, w') else (st, l, w')))"

section \<open>Properties\<close>

text \<open>
  Identity: the buffer of USBS_IDENTITY_MAX bytes that every caller passes is large enough
  for any device whose fields fit their arrays, so identity never fails there and is never cut.
\<close>

theorem identity_fits:
  assumes "device_wf d"
  shows "usbs_device_identity d USBS_IDENTITY_MAX = (USBS_OK, identity_text d)"
  using assms
  by (auto simp: usbs_device_identity_def identity_text_def device_wf_def USBS_IDENTITY_MAX_def
      USBS_VOLUME_PATH_MAX_def Let_def)

definition sample_stick :: usbs_device where
  "sample_stick = usbs_device_init\<lparr>volume_path := ''/media/u/'', bus_type := USBS_BUS_USB,
     usb_vid := ''0781'', usb_pid := ''5583'', serial := ''A1'', media_present := True\<rparr>"

lemma identity_fits_witness:
  "usbs_device_identity sample_stick USBS_IDENTITY_MAX = (USBS_OK, ''usb:0781-5583:A1'')"
proof -
  have "device_wf sample_stick" by code_simp
  moreover have "identity_text sample_stick = ''usb:0781-5583:A1''" by code_simp
  ultimately show ?thesis using identity_fits [of sample_stick] by simp
qed

text \<open>
  Two volumes of an internal disk do not share an identity through the disk's serial number:
  on a known non-USB bus without USB ids the identity is the volume path alone, and on any bus
  it never mentions a mount point.
\<close>

theorem internal_identity_is_the_volume:
  assumes "is_known_non_usb_bus (bus_type d)" and "usb_vid d = [] \<or> usb_pid d = []"
  shows "identity_text d = ''volume:'' @ volume_path d \<and>
    identity_text (d\<lparr>serial := s, mount_points := ms\<rparr>) = identity_text d"
  using assms by (auto simp: identity_text_def)

lemma internal_identity_is_the_volume_witness:
  "identity_text (usbs_device_init\<lparr>bus_type := USBS_BUS_NVME, volume_path := ''C'', serial := ''S''\<rparr>) = ''volume:C''"
  using internal_identity_is_the_volume
    [of "usbs_device_init\<lparr>bus_type := USBS_BUS_NVME, volume_path := ''C'', serial := ''S''\<rparr>"]
  by (simp add: is_known_non_usb_bus_def usbs_device_init_def)

text \<open>The header says such a device always gets the volume form; with USB ids it does not.\<close>

lemma internal_with_usb_ids_is_not_the_volume:
  "identity_text (sample_stick\<lparr>bus_type := USBS_BUS_SCSI\<rparr>) = ''usb:0781-5583''"
  by code_simp

end
