(* ===== verification/ScanModel.thy ===== *)
theory ScanModel
  imports Device
begin

text \<open>
  The in-memory scan result of src/core/scan.c and include/usbsentinel/scan.h: findings,
  checks and the result that the scanner produces, the detectors fill and the reports render.
  Fixed-size text fields are the C strings they hold; filling one is \<open>snprintf_buf\<close> with the
  field's size.
\<close>

section \<open>Types\<close>

definition USBS_FINDING_MESSAGE_MAX :: nat where "USBS_FINDING_MESSAGE_MAX = 256"
definition USBS_FINDING_PATH_MAX :: nat where "USBS_FINDING_PATH_MAX = 1024"
definition USBS_CHECK_ID_MAX :: nat where "USBS_CHECK_ID_MAX = 64"
definition USBS_SKIP_REASON_MAX :: nat where "USBS_SKIP_REASON_MAX = 128"
definition USBS_CHECK_MESSAGE_MAX :: nat where "USBS_CHECK_MESSAGE_MAX = 256"
definition USBS_SCAN_ID_MAX :: nat where "USBS_SCAN_ID_MAX = 40"
definition USBS_TIMESTAMP_MAX :: nat where "USBS_TIMESTAMP_MAX = 32"

definition SIZEOF_FINDING :: nat where "SIZEOF_FINDING = 1284"
definition SIZEOF_CHECK_RESULT :: nat where "SIZEOF_CHECK_RESULT = 496"

datatype usbs_scan_status = USBS_SCAN_COMPLETED | USBS_SCAN_ABORTED
datatype usbs_check_status = USBS_CHECK_RAN | USBS_CHECK_SKIPPED | USBS_CHECK_FAILED
datatype usbs_severity = USBS_SEVERITY_INFO | USBS_SEVERITY_WARNING | USBS_SEVERITY_HIGH

text \<open>The C enumeration order, which comparisons of severities use.\<close>

instantiation usbs_severity :: linorder
begin

fun severity_rank :: "usbs_severity \<Rightarrow> nat" where
  "severity_rank USBS_SEVERITY_INFO = 0"
| "severity_rank USBS_SEVERITY_WARNING = 1"
| "severity_rank USBS_SEVERITY_HIGH = 2"

definition less_eq_usbs_severity :: "usbs_severity \<Rightarrow> usbs_severity \<Rightarrow> bool" where
  "a \<le> b \<longleftrightarrow> severity_rank a \<le> severity_rank b"

definition less_usbs_severity :: "usbs_severity \<Rightarrow> usbs_severity \<Rightarrow> bool" where
  "a < b \<longleftrightarrow> severity_rank a < severity_rank b"

instance
proof
  fix a b :: usbs_severity
  show "a \<le> b \<Longrightarrow> b \<le> a \<Longrightarrow> a = b"
    by (cases a; cases b) (simp_all add: less_eq_usbs_severity_def)
qed (auto simp: less_eq_usbs_severity_def less_usbs_severity_def)

end

record usbs_finding =
  severity :: usbs_severity
  f_message :: string
  f_path :: string

type_synonym usbs_finding_list = "usbs_finding vec"

record usbs_check_result =
  check_id :: string
  check_status :: usbs_check_status
  skip_reason :: string
  check_message :: string
  findings :: usbs_finding_list
  policy_suppressed :: usbs_u64
  policy_lowered :: usbs_u64

type_synonym usbs_check_list = "usbs_check_result vec"

record usbs_capabilities =
  can_read_raw_volume :: bool
  can_read_physical_disk :: bool

record usbs_scan_result =
  scan_id :: string
  started_at :: string
  finished_at :: string
  scan_status :: usbs_scan_status
  scan_device :: usbs_device
  capabilities :: usbs_capabilities
  checks :: usbs_check_list
  paths_skipped :: usbs_u64
  paths_excluded :: usbs_u64

section \<open>Names\<close>

fun usbs_check_status_string :: "usbs_check_status \<Rightarrow> string" where
  "usbs_check_status_string USBS_CHECK_RAN = ''ran''"
| "usbs_check_status_string USBS_CHECK_SKIPPED = ''skipped''"
| "usbs_check_status_string USBS_CHECK_FAILED = ''failed''"

fun usbs_scan_status_string :: "usbs_scan_status \<Rightarrow> string" where
  "usbs_scan_status_string USBS_SCAN_COMPLETED = ''completed''"
| "usbs_scan_status_string USBS_SCAN_ABORTED = ''aborted''"

fun usbs_severity_string :: "usbs_severity \<Rightarrow> string" where
  "usbs_severity_string USBS_SEVERITY_INFO = ''info''"
| "usbs_severity_string USBS_SEVERITY_WARNING = ''warning''"
| "usbs_severity_string USBS_SEVERITY_HIGH = ''high''"

section \<open>Findings and checks\<close>

definition usbs_finding_list_init :: usbs_finding_list where
  "usbs_finding_list_init = vec_init"

definition usbs_finding_list_push ::
  "allocator \<Rightarrow> usbs_finding_list \<Rightarrow> usbs_finding \<Rightarrow> usbs_status \<times> usbs_finding_list" where
  "usbs_finding_list_push = vec_push 4 SIZEOF_FINDING True"

definition usbs_finding_list_free :: "usbs_finding_list \<Rightarrow> usbs_finding_list" where
  "usbs_finding_list_free l = vec_init"

interpretation finding_list: growable_array usbs_finding_list_push v_items v_capacity usbs_finding_list_init
  unfolding usbs_finding_list_push_def usbs_finding_list_init_def by (rule growable_vec_push) simp

definition usbs_check_result_init :: "string \<Rightarrow> usbs_check_result" where
  "usbs_check_result_init name =
     \<lparr>check_id = snprintf_buf USBS_CHECK_ID_MAX name, check_status = USBS_CHECK_RAN,
      skip_reason = [], check_message = [], findings = usbs_finding_list_init,
      policy_suppressed = 0, policy_lowered = 0\<rparr>"

definition usbs_check_result_free :: "usbs_check_result \<Rightarrow> usbs_check_result" where
  "usbs_check_result_free r = r\<lparr>findings := usbs_finding_list_free (findings r)\<rparr>"

definition usbs_check_result_set_skipped :: "usbs_check_result \<Rightarrow> string option \<Rightarrow> usbs_check_result" where
  "usbs_check_result_set_skipped r reason =
     r\<lparr>findings := usbs_finding_list_init, check_status := USBS_CHECK_SKIPPED,
       skip_reason := snprintf_buf USBS_SKIP_REASON_MAX (case reason of None \<Rightarrow> [] | Some t \<Rightarrow> t)\<rparr>"

definition usbs_check_result_set_failed :: "usbs_check_result \<Rightarrow> string option \<Rightarrow> usbs_check_result" where
  "usbs_check_result_set_failed r message =
     r\<lparr>findings := usbs_finding_list_init, check_status := USBS_CHECK_FAILED,
       check_message := snprintf_buf USBS_CHECK_MESSAGE_MAX (case message of None \<Rightarrow> [] | Some t \<Rightarrow> t)\<rparr>"

text \<open>Pushing a check moves it: the source is zeroed, which no caller looks at afterwards.\<close>

definition usbs_check_list_push ::
  "allocator \<Rightarrow> usbs_check_list \<Rightarrow> usbs_check_result \<Rightarrow> usbs_status \<times> usbs_check_list" where
  "usbs_check_list_push = vec_push 4 SIZEOF_CHECK_RESULT True"

interpretation check_list: growable_array usbs_check_list_push v_items v_capacity vec_init
  unfolding usbs_check_list_push_def by (rule growable_vec_push) simp

definition usbs_scan_result_init :: usbs_scan_result where
  "usbs_scan_result_init =
     \<lparr>scan_id = [], started_at = [], finished_at = [], scan_status = USBS_SCAN_COMPLETED,
      scan_device = usbs_device_init,
      capabilities = \<lparr>can_read_raw_volume = False, can_read_physical_disk = False\<rparr>,
      checks = vec_init, paths_skipped = 0, paths_excluded = 0\<rparr>"

definition usbs_scan_result_free :: "usbs_scan_result \<Rightarrow> usbs_scan_result" where
  "usbs_scan_result_free r = r\<lparr>checks := vec_init\<rparr>"

section \<open>Well-formedness\<close>

text \<open>Every text fits its field, the findings fit their allocation.\<close>

definition finding_wf :: "usbs_finding \<Rightarrow> bool" where
  "finding_wf f \<longleftrightarrow>
     length (f_message f) < USBS_FINDING_MESSAGE_MAX \<and> length (f_path f) < USBS_FINDING_PATH_MAX"

definition check_wf :: "usbs_check_result \<Rightarrow> bool" where
  "check_wf r \<longleftrightarrow>
     length (check_id r) < USBS_CHECK_ID_MAX \<and> length (skip_reason r) < USBS_SKIP_REASON_MAX \<and>
     length (check_message r) < USBS_CHECK_MESSAGE_MAX \<and>
     finding_list.well_formed (findings r) \<and> list_all finding_wf (v_items (findings r)) \<and>
     (check_status r \<noteq> USBS_CHECK_RAN \<longrightarrow> v_items (findings r) = [])"

lemmas usbs_scan_sizes =
  USBS_FINDING_MESSAGE_MAX_def USBS_FINDING_PATH_MAX_def USBS_CHECK_ID_MAX_def
  USBS_SKIP_REASON_MAX_def USBS_CHECK_MESSAGE_MAX_def USBS_SCAN_ID_MAX_def USBS_TIMESTAMP_MAX_def

lemma check_wf_init [usbs_invariant, intro]: "check_wf (usbs_check_result_init name)"
  by (simp add: check_wf_def usbs_check_result_init_def usbs_scan_sizes snprintf_buf_def
      finding_list.well_formed_empty finding_list.items_empty)

lemma check_wf_set_skipped [usbs_invariant, intro]:
  "check_wf r \<Longrightarrow> check_wf (usbs_check_result_set_skipped r reason)"
  by (simp add: check_wf_def usbs_check_result_set_skipped_def usbs_scan_sizes snprintf_buf_def
      finding_list.well_formed_empty finding_list.items_empty)

lemma check_wf_set_failed [usbs_invariant, intro]:
  "check_wf r \<Longrightarrow> check_wf (usbs_check_result_set_failed r message)"
  by (simp add: check_wf_def usbs_check_result_set_failed_def usbs_scan_sizes snprintf_buf_def
      finding_list.well_formed_empty finding_list.items_empty)

lemma check_wf_push [usbs_invariant]:
  assumes "check_wf r" and "check_status r = USBS_CHECK_RAN" and "finding_wf f"
  shows "check_wf (r\<lparr>findings := snd (usbs_finding_list_push mem (findings r) f)\<rparr>)"
proof -
  obtain st l where p: "usbs_finding_list_push mem (findings r) f = (st, l)" by fastforce
  have "finding_list.well_formed l"
    using assms(1) p finding_list.push_well_formed by (auto simp: check_wf_def)
  moreover have "v_items l = v_items (findings r) \<or> v_items l = v_items (findings r) @ [f]"
    using p finding_list.push_ok finding_list.push_error by (cases "st = USBS_OK") blast+
  ultimately show ?thesis using assms p by (auto simp: check_wf_def)
qed

end
