(* ===== verification/Platform.thy ===== *)
theory Platform
  imports Paths ScanModel
begin

text \<open>
  The platform boundary of include/usbsentinel/platform.h and the detector interface of
  include/usbsentinel/detector.h. Behind the boundary is the operating system, so its operations
  are a record of functions over an arbitrary world \<open>'w\<close>: each takes the world and returns the
  next one. Handles are the pointers the C code passes around. The record also carries what the
  process is given once: the host, the environment and the allocator.
\<close>

section \<open>The boundary\<close>

definition USBS_NAME_MAX :: nat where "USBS_NAME_MAX = 1024"

record usbs_dir_entry =
  entry_name :: string
  is_directory :: bool
  is_reparse_point :: bool
  is_hidden :: bool
  size_bytes :: usbs_u64

record 'w platform =
  p_host :: host
  p_env :: environment
  p_mem :: allocator
  dir_open :: "string \<Rightarrow> 'w \<Rightarrow> (usbs_status + nat) \<times> 'w"
  dir_next :: "nat \<Rightarrow> 'w \<Rightarrow> (usbs_status + usbs_dir_entry) \<times> 'w"
  dir_close :: "nat \<Rightarrow> 'w \<Rightarrow> 'w"
  file_open_read :: "string \<Rightarrow> 'w \<Rightarrow> (usbs_status + nat) \<times> 'w"
  file_read :: "nat \<Rightarrow> nat \<Rightarrow> 'w \<Rightarrow> (usbs_status + string) \<times> 'w"
  file_close :: "nat \<Rightarrow> 'w \<Rightarrow> 'w"
  make_dirs :: "string \<Rightarrow> 'w \<Rightarrow> usbs_status \<times> 'w"
  write_file :: "string \<Rightarrow> string \<Rightarrow> 'w \<Rightarrow> usbs_status \<times> 'w"
  replace_file :: "string \<Rightarrow> string \<Rightarrow> 'w \<Rightarrow> usbs_status \<times> 'w"
  delete_file :: "string \<Rightarrow> 'w \<Rightarrow> usbs_status \<times> 'w"
  probe_capabilities :: "usbs_device \<Rightarrow> 'w \<Rightarrow> usbs_status \<times> usbs_capabilities \<times> 'w"

text \<open>What a C caller may rely on of \<open>file_read\<close>: never more bytes than asked for.\<close>

definition reads_bounded :: "'w platform \<Rightarrow> bool" where
  "reads_bounded P \<longleftrightarrow> (\<forall>h n w bytes w'. file_read P h n w = (Inr bytes, w') \<longrightarrow> length bytes \<le> n)"

text \<open>
  What an open directory will list: its entries up to the first answer that is not an entry, and
  that answer. A specification function, with fuel because a listing is not obliged to end.
\<close>

fun dir_list :: "nat \<Rightarrow> 'w platform \<Rightarrow> nat \<Rightarrow> 'w \<Rightarrow> (usbs_dir_entry list \<times> usbs_status \<times> 'w) option" where
  "dir_list 0 P it w = None"
| "dir_list (Suc fuel) P it w =
     (case dir_next P it w of
        (Inl st, w1) \<Rightarrow> Some ([], st, w1)
      | (Inr entry, w1) \<Rightarrow> map_option (\<lambda>(es, r). (entry # es, r)) (dir_list fuel P it w1))"

section \<open>Detectors\<close>

record detect_context =
  dc_device :: "usbs_device option"
  dc_volume_path :: "string option"
  dc_capabilities :: usbs_capabilities

section \<open>A fixture\<close>

text \<open>
  A small platform on which the properties' hypotheses are shown to be satisfiable: the world is
  the list of chunks the next reads return, every file opens, the root directory is empty.
\<close>

definition fixture_platform :: "string list platform" where
  "fixture_platform =
     \<lparr>p_host = Posix, p_env = (\<lambda>_. None), p_mem = mem_always,
      dir_open = (\<lambda>_ w. (Inr 1, w)),
      dir_next = (\<lambda>_ w. (Inl USBS_ERR_NOT_FOUND, w)),
      dir_close = (\<lambda>_ w. w),
      file_open_read = (\<lambda>_ w. (Inr 1, w)),
      file_read = (\<lambda>_ n w. case w of [] \<Rightarrow> (Inr [], []) | c # cs \<Rightarrow> (Inr (take n c), cs)),
      file_close = (\<lambda>_ w. w),
      make_dirs = (\<lambda>_ w. (USBS_OK, w)),
      write_file = (\<lambda>_ _ w. (USBS_OK, w)),
      replace_file = (\<lambda>_ _ w. (USBS_OK, w)),
      delete_file = (\<lambda>_ w. (USBS_OK, w)),
      probe_capabilities = (\<lambda>_ w. (USBS_OK, \<lparr>can_read_raw_volume = False, can_read_physical_disk = False\<rparr>, w))\<rparr>"

text \<open>Here the world is the rest of the one directory there is; files are empty.\<close>

definition root_listing :: "usbs_dir_entry list platform" where
  "root_listing =
     \<lparr>p_host = Posix, p_env = (\<lambda>_. None), p_mem = mem_always,
      dir_open = (\<lambda>_ w. (Inr 1, w)),
      dir_next = (\<lambda>_ w. case w of [] \<Rightarrow> (Inl USBS_ERR_NOT_FOUND, []) | e # es \<Rightarrow> (Inr e, es)),
      dir_close = (\<lambda>_ w. w),
      file_open_read = (\<lambda>_ w. (Inr 1, w)),
      file_read = (\<lambda>_ n w. (Inr [], w)),
      file_close = (\<lambda>_ w. w),
      make_dirs = (\<lambda>_ w. (USBS_OK, w)),
      write_file = (\<lambda>_ _ w. (USBS_OK, w)),
      replace_file = (\<lambda>_ _ w. (USBS_OK, w)),
      delete_file = (\<lambda>_ w. (USBS_OK, w)),
      probe_capabilities = (\<lambda>_ w. (USBS_OK, \<lparr>can_read_raw_volume = False, can_read_physical_disk = False\<rparr>, w))\<rparr>"

definition fixture_ctx :: detect_context where
  "fixture_ctx = \<lparr>dc_device = None, dc_volume_path = Some ''/m/'',
     dc_capabilities = \<lparr>can_read_raw_volume = False, can_read_physical_disk = False\<rparr>\<rparr>"

definition fixture_entry :: "string \<Rightarrow> usbs_u64 \<Rightarrow> usbs_dir_entry" where
  "fixture_entry name sz = \<lparr>entry_name = name, is_directory = False, is_reparse_point = False,
     is_hidden = False, size_bytes = sz\<rparr>"

lemma fixture_simps [simp]:
  "size_bytes (fixture_entry name sz) = sz"
  "file_open_read fixture_platform path w = (Inr 1, w)"
  "p_mem fixture_platform = mem_always"
  by (simp_all add: fixture_entry_def fixture_platform_def)

lemma fixture_reads_bounded: "reads_bounded fixture_platform"
  by (auto simp: reads_bounded_def fixture_platform_def split: list.splits)

end
