(* ===== verification/Storage.thy ===== *)
theory Storage
  imports Platform JsonParser JsonWriter
begin

text \<open>
  The report store of src/storage/storage.c: where a device's reports live, the names that carry
  their time and scan id, the lookup of the last scan, the write through a temporary file, and the
  index.json cache. The loops over a directory and over a file's chunks are bounded by nothing in
  the code, so they have fuel, and running out of it is \<open>None\<close>; so is the one undefined
  conversion, of an index entry whose count does not fit \<open>long long\<close>.
\<close>

section \<open>Names\<close>

definition USBS_STORE_PATH_MAX :: nat where "USBS_STORE_PATH_MAX = 512"
definition USBS_INDEX_SCHEMA_VERSION :: usbs_u64 where "USBS_INDEX_SCHEMA_VERSION = 1"

record usbs_store =
  store_root :: string

definition scans_root :: "host \<Rightarrow> usbs_store \<Rightarrow> nat \<Rightarrow> usbs_status \<times> string" where
  "scans_root h store cap = usbs_path_join h cap (store_root store) ''scans''"

definition device_dir :: "host \<Rightarrow> usbs_store \<Rightarrow> string \<Rightarrow> nat \<Rightarrow> usbs_status \<times> string" where
  "device_dir h store safe_id cap =
     (case scans_root h store USBS_STORE_PATH_MAX of
        (st, root) \<Rightarrow> if \<not> usbs_ok st then (st, []) else usbs_path_join h cap root safe_id)"

definition index_path :: "host \<Rightarrow> usbs_store \<Rightarrow> nat \<Rightarrow> usbs_status \<times> string" where
  "index_path h store cap = usbs_path_join h cap (store_root store) ''index.json''"

definition is_safe_char :: "char \<Rightarrow> bool" where
  "is_safe_char c \<longleftrightarrow>
     CHR ''A'' \<le> c \<and> c \<le> CHR ''Z'' \<or> CHR ''a'' \<le> c \<and> c \<le> CHR ''z'' \<or>
     CHR ''0'' \<le> c \<and> c \<le> CHR ''9'' \<or> c = CHR ''.'' \<or> c = CHR ''-'' \<or> c = CHR ''_''"

definition safe_unit :: "char \<Rightarrow> string" where
  "safe_unit c =
     (if is_safe_char c then [c]
      else [CHR ''_'', hex_upper (of_char c div 16), hex_upper (of_char c mod 16)])"

fun safe_id_loop :: "nat \<Rightarrow> string \<Rightarrow> string \<Rightarrow> usbs_status + string" where
  "safe_id_loop cap out [] = Inr out"
| "safe_id_loop cap out (c # cs) =
     (if length out + length (safe_unit c) \<ge> cap then Inl USBS_ERR_NO_MEMORY
      else safe_id_loop cap (out @ safe_unit c) cs)"

definition usbs_store_safe_id :: "string \<Rightarrow> nat \<Rightarrow> usbs_status + string" where
  "usbs_store_safe_id device_identity cap =
     (if cap = 0 then Inl USBS_ERR_INVALID_ARG
      else
        (case safe_id_loop cap [] device_identity of
           Inl st \<Rightarrow> Inl st
         | Inr out \<Rightarrow> if out = [] then Inl USBS_ERR_INVALID_ARG else Inr out))"

text \<open>The loop refuses as soon as a kept character would not leave room for the NUL.\<close>

definition compact_timestamp :: "string \<Rightarrow> nat \<Rightarrow> usbs_status + string" where
  "compact_timestamp stamp cap =
     (if cap < 17 then Inl USBS_ERR_INVALID_ARG
      else
        (let kept = filter (\<lambda>c. c \<noteq> CHR ''-'' \<and> c \<noteq> CHR '':'') stamp
         in if length kept \<ge> cap then Inl USBS_ERR_INVALID_ARG
            else if length kept \<noteq> 16 then Inl USBS_ERR_INVALID_ARG
            else Inr kept))"

definition expand_timestamp :: "string \<Rightarrow> nat \<Rightarrow> usbs_status + string" where
  "expand_timestamp compact cap =
     (if length compact \<noteq> 16 \<or> cap < 21 then Inl USBS_ERR_INVALID_ARG
      else Inr (snprintf_buf cap
        (take 4 compact @ ''-'' @ take 2 (drop 4 compact) @ ''-'' @ take 2 (drop 6 compact) @ ''T'' @
         take 2 (drop 9 compact) @ '':'' @ take 2 (drop 11 compact) @ '':'' @ take 2 (drop 13 compact) @ ''Z'')))"

definition ends_with :: "string \<Rightarrow> string \<Rightarrow> bool" where
  "ends_with s suf = (if length suf > length s then False else drop (length s - length suf) s = suf)"

section \<open>Opening\<close>

definition usbs_store_open_at :: "'w platform \<Rightarrow> string \<Rightarrow> 'w \<Rightarrow> (usbs_status + usbs_store) \<times> 'w" where
  "usbs_store_open_at P root w =
     (let store = \<lparr>store_root = snprintf_buf USBS_STORE_PATH_MAX root\<rparr>
      in (case make_dirs P (store_root store) w of
            (st, w1) \<Rightarrow>
              if \<not> usbs_ok st then (Inl st, w1)
              else
                (case scans_root (p_host P) store USBS_STORE_PATH_MAX of
                   (st2, scans) \<Rightarrow>
                     if \<not> usbs_ok st2 then (Inl st2, w1)
                     else
                       (case make_dirs P scans w1 of
                          (st3, w2) \<Rightarrow> if \<not> usbs_ok st3 then (Inl st3, w2) else (Inr store, w2)))))"

definition usbs_store_open :: "'w platform \<Rightarrow> 'w \<Rightarrow> (usbs_status + usbs_store) \<times> 'w" where
  "usbs_store_open P w =
     (case usbs_user_data_dir (p_host P) (p_env P) USBS_STORE_PATH_MAX of
        (st, root) \<Rightarrow> if \<not> usbs_ok st then (Inl USBS_ERR_NOT_FOUND, w) else usbs_store_open_at P root w)"

section \<open>The last scan\<close>

record usbs_store_last_scan_t =
  ls_scan_id :: string
  ls_scanned_at :: string
  ls_report_count :: nat
  ls_found :: bool

definition last_scan_zero :: usbs_store_last_scan_t where
  "last_scan_zero = \<lparr>ls_scan_id = [], ls_scanned_at = [], ls_report_count = 0, ls_found = False\<rparr>"

text \<open>\<open>best\<close> is \<open>None\<close> while \<open>have_best\<close> is false.\<close>

definition note_entry :: "usbs_dir_entry \<Rightarrow> nat \<times> string option \<Rightarrow> nat \<times> string option" where
  "note_entry entry acc =
     (case acc of
        (count, best) \<Rightarrow>
          if is_directory entry \<or> \<not> ends_with (entry_name entry) ''.json'' then (count, best)
          else
            (count + 1,
             (case best of
                None \<Rightarrow> Some (snprintf_buf USBS_NAME_MAX (entry_name entry))
              | Some b \<Rightarrow>
                  if strcmp_less b (entry_name entry) then Some (snprintf_buf USBS_NAME_MAX (entry_name entry))
                  else Some b)))"

fun last_scan_loop ::
  "nat \<Rightarrow> 'w platform \<Rightarrow> nat \<Rightarrow> nat \<times> string option \<Rightarrow> 'w \<Rightarrow>
     (usbs_status \<times> (nat \<times> string option) \<times> 'w) option" where
  "last_scan_loop 0 P it acc w = None"
| "last_scan_loop (Suc fuel) P it acc w =
     (case dir_next P it w of
        (Inl st, w1) \<Rightarrow> Some (if st = USBS_ERR_NOT_FOUND then USBS_OK else st, acc, w1)
      | (Inr entry, w1) \<Rightarrow> last_scan_loop fuel P it (note_entry entry acc) w1)"

text \<open>What a report's file name says: the compact stamp, a dash, the scan id, the extension.\<close>

definition read_name :: "string \<Rightarrow> usbs_store_last_scan_t \<Rightarrow> usbs_store_last_scan_t" where
  "read_name best info =
     (if 22 \<le> length best \<and> best ! 16 = CHR ''-'' \<and> ends_with best ''.json'' then
        (let id_len = length best - 17 - 5;
             info1 = (case expand_timestamp (take 16 best) 32 of
                        Inl st \<Rightarrow> info | Inr stamp \<Rightarrow> info\<lparr>ls_scanned_at := stamp\<rparr>)
         in if id_len < 64 then info1\<lparr>ls_scan_id := take id_len (drop 17 best)\<rparr> else info1)
      else info)"

definition usbs_store_last_scan ::
  "nat \<Rightarrow> 'w platform \<Rightarrow> usbs_store \<Rightarrow> string \<Rightarrow> 'w \<Rightarrow> (usbs_status \<times> usbs_store_last_scan_t \<times> 'w) option" where
  "usbs_store_last_scan fuel P store device_identity w =
     (case usbs_store_safe_id device_identity USBS_STORE_PATH_MAX of
        Inl st \<Rightarrow> Some (st, last_scan_zero, w)
      | Inr safe_id \<Rightarrow>
          (case device_dir (p_host P) store safe_id USBS_STORE_PATH_MAX of
             (st, dir) \<Rightarrow>
               if \<not> usbs_ok st then Some (st, last_scan_zero, w)
               else
                 (case dir_open P dir w of
                    (Inl st2, w1) \<Rightarrow>
                      Some (if st2 = USBS_ERR_NOT_FOUND then USBS_OK else st2, last_scan_zero, w1)
                  | (Inr it, w1) \<Rightarrow>
                      (case last_scan_loop fuel P it (0, None) w1 of
                         None \<Rightarrow> None
                       | Some (st3, (count, best), w2) \<Rightarrow>
                           (let w3 = dir_close P it w2;
                                info = last_scan_zero\<lparr>ls_report_count := count\<rparr>
                            in if \<not> usbs_ok st3 then Some (st3, info, w3)
                               else
                                 (case best of
                                    None \<Rightarrow> Some (USBS_OK, info, w3)
                                  | Some b \<Rightarrow> Some (USBS_OK, (read_name b info)\<lparr>ls_found := True\<rparr>, w3)))))))"

section \<open>The index\<close>

text \<open>The buffer starts at 4096 bytes and doubles whenever fewer than 4096 are left.\<close>

fun read_whole_loop ::
  "nat \<Rightarrow> 'w platform \<Rightarrow> nat \<Rightarrow> string \<Rightarrow> nat \<Rightarrow> 'w \<Rightarrow> ((usbs_status + string) \<times> 'w) option" where
  "read_whole_loop 0 P fh buf cap w = None"
| "read_whole_loop (Suc fuel) P fh buf cap w =
     (let grow = (length buf + 4096 > cap);
          cap2 = (if grow then (if cap = 0 then 4096 else cap * 2) else cap)
      in if grow \<and> \<not> p_mem P cap2 then Some (Inl USBS_ERR_NO_MEMORY, w)
         else
           (case file_read P fh (cap2 - length buf) w of
              (Inl st, w1) \<Rightarrow> Some (Inl st, w1)
            | (Inr bytes, w1) \<Rightarrow>
                if bytes = [] then Some (Inr buf, w1)
                else read_whole_loop fuel P fh (buf @ bytes) cap2 w1))"

definition read_whole_file :: "nat \<Rightarrow> 'w platform \<Rightarrow> string \<Rightarrow> 'w \<Rightarrow> ((usbs_status + string) \<times> 'w) option" where
  "read_whole_file fuel P path w =
     (case file_open_read P path w of
        (Inl st, w1) \<Rightarrow> Some (Inl st, w1)
      | (Inr fh, w1) \<Rightarrow>
          map_option (\<lambda>(r, w2). (r, file_close P fh w2)) (read_whole_loop fuel P fh [] 0 w1))"

text \<open>One entry of the index, as the writer emits it.\<close>

definition write_index_entry ::
  "allocator \<Rightarrow> string \<Rightarrow> string option \<Rightarrow> string option \<Rightarrow> usbs_u64 \<Rightarrow> json_writer \<Rightarrow> json_writer" where
  "write_index_entry mem key scan_id' scanned_at count jw =
     (let j1 = usbs_json_key mem jw (Some key);
          j2 = usbs_json_begin_object mem j1;
          j3 = usbs_json_member_string mem j2 (Some ''last_scan_id'') scan_id';
          j4 = usbs_json_member_string mem j3 (Some ''last_scan_at'') scanned_at;
          j5 = usbs_json_member_int mem j4 (Some ''report_count'') count
      in usbs_json_end_object mem j5)"

text \<open>
  The entry at one position of the old index: the device being refreshed and malformed entries
  are dropped, every other one is written again. \<open>None\<close> is the undefined conversion.
\<close>

definition carry_entry ::
  "allocator \<Rightarrow> string \<Rightarrow> json_value option \<Rightarrow> nat \<Rightarrow> json_writer \<Rightarrow> json_writer option" where
  "carry_entry mem safe_id existing_devices i jw =
     (case usbs_json_object_key_at existing_devices i of
        None \<Rightarrow> Some jw
      | Some key \<Rightarrow>
          if key = safe_id then Some jw
          else
            (let v = usbs_json_object_value_at existing_devices i;
                 v_id = usbs_json_object_get v ''last_scan_id'';
                 v_at = usbs_json_object_get v ''last_scan_at'';
                 v_count = usbs_json_object_get v ''report_count''
             in if v_id = None \<or> v_at = None then Some jw
                else
                  (case usbs_json_as_int v_count of
                     None \<Rightarrow> Some jw
                   | Some Cast_undefined \<Rightarrow> None
                   | Some (Cast n) \<Rightarrow>
                       Some (write_index_entry mem key (usbs_json_as_string v_id) (usbs_json_as_string v_at)
                               (word_of_int n) jw))))"

fun carry_entries ::
  "allocator \<Rightarrow> string \<Rightarrow> json_value option \<Rightarrow> nat list \<Rightarrow> json_writer \<Rightarrow> json_writer option" where
  "carry_entries mem safe_id devs [] jw = Some jw"
| "carry_entries mem safe_id devs (i # js) jw =
     (case carry_entry mem safe_id devs i jw of
        None \<Rightarrow> None
      | Some jw1 \<Rightarrow> carry_entries mem safe_id devs js jw1)"

definition write_index ::
  "allocator \<Rightarrow> string \<Rightarrow> json_value option \<Rightarrow> usbs_store_last_scan_t \<Rightarrow> json_writer option" where
  "write_index mem safe_id existing_devices prev =
     (let j1 = usbs_json_begin_object mem usbs_json_writer_init;
          j2 = usbs_json_member_int mem j1 (Some ''schema_version'') USBS_INDEX_SCHEMA_VERSION;
          j3 = usbs_json_key mem j2 (Some ''devices'');
          j4 = usbs_json_begin_object mem j3
      in (case carry_entries mem safe_id existing_devices [0..<usbs_json_object_count existing_devices] j4 of
            None \<Rightarrow> None
          | Some j5 \<Rightarrow>
              (let j6 = (if ls_found prev
                         then write_index_entry mem safe_id (Some (ls_scan_id prev)) (Some (ls_scanned_at prev))
                                (of_nat (ls_report_count prev)) j5
                         else j5)
               in Some (usbs_json_end_object mem (usbs_json_end_object mem j6)))))"

text \<open>The temporary file is written and renamed over the index; on failure it is deleted.\<close>

definition replace_index :: "'w platform \<Rightarrow> string \<Rightarrow> string \<Rightarrow> 'w \<Rightarrow> 'w" where
  "replace_index P path t w =
     (let full = path @ ''.tmp''
      in if length full \<ge> USBS_STORE_PATH_MAX then w
         else
           (case write_file P full t w of
              (st, w1) \<Rightarrow>
                (case (if usbs_ok st then replace_file P path full w1 else (st, w1)) of
                   (st2, w2) \<Rightarrow> if \<not> usbs_ok st2 then snd (delete_file P full w2) else w2)))"

definition refresh_index :: "nat \<Rightarrow> 'w platform \<Rightarrow> usbs_store \<Rightarrow> string \<Rightarrow> 'w \<Rightarrow> 'w option" where
  "refresh_index fuel P store device_identity w =
     (case usbs_store_safe_id device_identity USBS_STORE_PATH_MAX of
        Inl st \<Rightarrow> Some w
      | Inr safe_id \<Rightarrow>
          (case index_path (p_host P) store USBS_STORE_PATH_MAX of
             (st, path) \<Rightarrow>
               if \<not> usbs_ok st then Some w
               else
                 (case usbs_store_last_scan fuel P store device_identity w of
                    None \<Rightarrow> None
                  | Some (st2, prev, w1) \<Rightarrow>
                      if \<not> usbs_ok st2 then Some w1
                      else
                        (case read_whole_file fuel P path w1 of
                           None \<Rightarrow> None
                         | Some (r, w2) \<Rightarrow>
                             (let existing_root =
                                    (case r of
                                       Inl _ \<Rightarrow> None
                                     | Inr t \<Rightarrow>
                                         (case usbs_json_parse (p_mem P) t of Inl _ \<Rightarrow> None | Inr v \<Rightarrow> Some v));
                                  existing_devices = usbs_json_object_get existing_root ''devices''
                              in (case write_index (p_mem P) safe_id existing_devices prev of
                                    None \<Rightarrow> None
                                  | Some jw \<Rightarrow>
                                      (case usbs_json_writer_finish jw of
                                         Inl st3 \<Rightarrow> Some w2
                                       | Inr t \<Rightarrow> Some (replace_index P path t w2))))))))"

section \<open>Writing a report\<close>

definition write_report_file ::
  "'w platform \<Rightarrow> usbs_store \<Rightarrow> string \<Rightarrow> string \<Rightarrow> string \<Rightarrow> string \<Rightarrow> string \<Rightarrow> nat \<Rightarrow> 'w \<Rightarrow>
     (usbs_status + string) \<times> 'w" where
  "write_report_file P store device_identity scan_id' timestamp_utc extension content out_path_cap w =
     (if CHR 0x5C \<in> set scan_id' \<or> CHR ''/'' \<in> set scan_id' then (Inl USBS_ERR_INVALID_ARG, w)
      else
        (case usbs_store_safe_id device_identity USBS_STORE_PATH_MAX of
           Inl st \<Rightarrow> (Inl st, w)
         | Inr safe_id \<Rightarrow>
             (case device_dir (p_host P) store safe_id USBS_STORE_PATH_MAX of
                (st, dir) \<Rightarrow>
                  if \<not> usbs_ok st then (Inl st, w)
                  else
                    (case make_dirs P dir w of
                       (st2, w1) \<Rightarrow>
                         if \<not> usbs_ok st2 then (Inl st2, w1)
                         else
                           (case compact_timestamp timestamp_utc 17 of
                              Inl st3 \<Rightarrow> (Inl st3, w1)
                            | Inr compact \<Rightarrow>
                                (case usbs_path_join (p_host P) USBS_STORE_PATH_MAX dir
                                        (snprintf_buf 300 (compact @ ''-'' @ scan_id' @ ''.'' @ extension)) of
                                   (st4, final_path) \<Rightarrow>
                                     if \<not> usbs_ok st4 then (Inl st4, w1)
                                     else
                                       (let temp_path = snprintf_buf USBS_STORE_PATH_MAX (final_path @ ''.tmp'')
                                        in (case write_file P temp_path content w1 of
                                              (st5, w2) \<Rightarrow>
                                                if \<not> usbs_ok st5 then (Inl st5, snd (delete_file P temp_path w2))
                                                else
                                                  (case replace_file P final_path temp_path w2 of
                                                     (st6, w3) \<Rightarrow>
                                                       if \<not> usbs_ok st6
                                                       then (Inl st6, snd (delete_file P temp_path w3))
                                                       else (Inr (snprintf_buf out_path_cap final_path), w3))))))))))"

definition usbs_store_write_report ::
  "nat \<Rightarrow> 'w platform \<Rightarrow> usbs_store \<Rightarrow> string \<Rightarrow> string \<Rightarrow> string \<Rightarrow> string \<Rightarrow> nat \<Rightarrow> 'w \<Rightarrow>
     ((usbs_status + string) \<times> 'w) option" where
  "usbs_store_write_report fuel P store device_identity scan_id' timestamp_utc json_text out_path_cap w =
     (case write_report_file P store device_identity scan_id' timestamp_utc ''json'' json_text out_path_cap w of
        (Inl st, w1) \<Rightarrow> Some (Inl st, w1)
      | (Inr path, w1) \<Rightarrow> map_option (\<lambda>w2. (Inr path, w2)) (refresh_index fuel P store device_identity w1))"

definition usbs_store_write_report_csv ::
  "'w platform \<Rightarrow> usbs_store \<Rightarrow> string \<Rightarrow> string \<Rightarrow> string \<Rightarrow> string \<Rightarrow> nat \<Rightarrow> 'w \<Rightarrow>
     (usbs_status + string) \<times> 'w" where
  "usbs_store_write_report_csv P store device_identity scan_id' timestamp_utc csv_text out_path_cap w =
     write_report_file P store device_identity scan_id' timestamp_utc ''csv'' csv_text out_path_cap w"

end
