(* ===== verification/StoreNames.thy ===== *)
theory StoreNames
  imports Storage
begin

text \<open>
  The names of the report store: an identity becomes one path component, a time stamp and a scan
  id become a file name from which both come back, and the last scan is the greatest such name.
\<close>

section \<open>Identities as path components\<close>

lemma safe_id_loop_ok:
  "safe_id_loop cap out cs = Inr r \<longleftrightarrow>
     r = out @ concat (map safe_unit cs) \<and> (cs = [] \<or> length r < cap)"
proof (induction cap out cs rule: safe_id_loop.induct)
  case (2 cap out c cs)
  then show ?case by (cases "cs = []") (auto simp: not_le)
qed auto

lemma safe_id_ok:
  "usbs_store_safe_id i cap = Inr s \<longleftrightarrow>
     s = concat (map safe_unit i) \<and> i \<noteq> [] \<and> length s < cap"
proof -
  have "concat (map safe_unit i) \<noteq> []" if "i \<noteq> []"
    using that by (cases i) (auto simp: safe_unit_def)
  note ne = this
  note loop = safe_id_loop_ok [of cap "[]" i, unfolded append_Nil]
  show ?thesis
  proof (cases "safe_id_loop cap [] i")
    case (Inl st)
    with loop [of "concat (map safe_unit i)"] have "i \<noteq> []" "\<not> length (concat (map safe_unit i)) < cap" by simp_all
    with Inl show ?thesis by (simp add: usbs_store_safe_id_def)
  next
    case (Inr r)
    from iffD1 [OF loop Inr] have r: "r = concat (map safe_unit i)" "i = [] \<or> length r < cap" by blast+
    show ?thesis
    proof (cases "i = []")
      case True
      with Inr r show ?thesis by (simp add: usbs_store_safe_id_def)
    next
      case False
      have "r \<noteq> []" using ne False r(1) by metis
      moreover have "length r < cap" using r(2) False by blast
      ultimately show ?thesis using Inr r False unfolding usbs_store_safe_id_def by auto
    qed
  qed
qed

lemma of_char_nibbles: "(of_char c :: nat) div 16 < 16" "(of_char c :: nat) mod 16 < 16"
  by (rule less_mult_imp_div_less, simp, simp)

lemma hex_upper_safe: "d < 16 \<Longrightarrow> is_safe_char (hex_upper d)"
  by (auto simp: is_safe_char_def hex_upper_def less_eq_char_def)

lemma safe_unit_safe: "list_all is_safe_char (safe_unit c)"
  using hex_upper_safe [OF of_char_nibbles(1)] hex_upper_safe [OF of_char_nibbles(2)]
  by (auto simp: safe_unit_def is_safe_char_def)

lemma hex_upper_inj: "a < 16 \<Longrightarrow> b < 16 \<Longrightarrow> hex_upper a = hex_upper b \<Longrightarrow> a = b"
  by (auto simp: hex_upper_def split: if_splits)

lemma unsafe_unit_inj:
  assumes "[hex_upper (of_char c div 16), hex_upper (of_char c mod 16)] =
    [hex_upper (of_char d div 16), hex_upper (of_char d mod 16)]"
  shows "c = d"
proof -
  have "of_char c div 16 = (of_char d div 16 :: nat)" "of_char c mod 16 = (of_char d mod 16 :: nat)"
    using assms of_char_nibbles by (auto intro: hex_upper_inj)
  then have "(of_char c :: nat) = of_char d" by (metis mod_mult_div_eq)
  then show ?thesis by simp
qed

lemma safe_units_inj:
  "concat (map safe_unit a) = concat (map safe_unit b) \<Longrightarrow> CHR ''_'' \<notin> set a \<Longrightarrow> CHR ''_'' \<notin> set b \<Longrightarrow> a = b"
proof (induction a arbitrary: b)
  case Nil
  then show ?case by (cases b) (auto simp: safe_unit_def split: if_splits)
next
  case (Cons c cs)
  then obtain d ds where b: "b = d # ds" by (cases b) (auto simp: safe_unit_def split: if_splits)
  have "c = d \<and> concat (map safe_unit cs) = concat (map safe_unit ds)"
  proof (cases "is_safe_char c = is_safe_char d")
    case True
    with Cons.prems b unsafe_unit_inj [of c d] show ?thesis by (auto simp: safe_unit_def [of c] safe_unit_def [of d])
  next
    case False
    with Cons.prems b show ?thesis by (auto simp: safe_unit_def split: if_splits)
  qed
  with Cons b show ?case by auto
qed

text \<open>
  C36 A device's report directory is one plain path component: the encoded identity is not empty,
  fits its buffer, and has only letters, digits, dots, dashes and underscores - no separator of
  any host and no NUL; two identities without underscores get the same directory only if they
  are equal.
\<close>

theorem safe_id_is_one_component:
  assumes "usbs_store_safe_id i cap = Inr s"
  shows "s \<noteq> [] \<and> length s < cap \<and> is_cstr s \<and> list_all is_safe_char s \<and>
    (\<forall>h c. c \<in> set s \<longrightarrow> \<not> usbs_path_is_separator h c) \<and>
    (\<forall>j. CHR ''_'' \<notin> set i \<longrightarrow> CHR ''_'' \<notin> set j \<longrightarrow> usbs_store_safe_id j cap = Inr s \<longrightarrow> i = j)"
proof -
  have s: "s = concat (map safe_unit i)" "i \<noteq> []" "length s < cap" using assms unfolding safe_id_ok by blast+
  have all: "list_all is_safe_char s"
    unfolding s(1) list_all_iff using safe_unit_safe by (auto simp: list_all_iff)
  moreover have "\<not> usbs_path_is_separator h c" if "is_safe_char c" for h c
    using that by (auto simp: is_safe_char_def usbs_path_is_separator_def less_eq_char_def split: if_splits)
  moreover have "c \<noteq> CHR 0x00" if "is_safe_char c" for c
    using that by (auto simp: is_safe_char_def less_eq_char_def)
  moreover have "s \<noteq> []"
    using s by (cases i) (auto simp: safe_unit_def)
  moreover have "i = j" if "CHR ''_'' \<notin> set i" "CHR ''_'' \<notin> set j" "usbs_store_safe_id j cap = Inr s" for j
    using that s(1) safe_units_inj [of i j] by (simp add: safe_id_ok)
  ultimately show ?thesis using s(3) by (auto simp: list_all_iff is_cstr_def)
qed

lemma safe_id_is_one_component_witness:
  "list_all is_safe_char ''usb_3A0781-5581''"
proof -
  have "usbs_store_safe_id ''usb:0781-5581'' 512 = Inr ''usb_3A0781-5581''" by code_simp
  from safe_id_is_one_component [OF this] show ?thesis by blast
qed

text \<open>Underscores are not escaped, so they can be forged: two identities share a directory.\<close>

lemma safe_id_collision: "usbs_store_safe_id ''a:'' 512 = usbs_store_safe_id ''a_3A'' 512"
  by code_simp

section \<open>Time stamps and names\<close>

definition stamp_fields :: "string list \<Rightarrow> bool" where
  "stamp_fields fs \<longleftrightarrow> map length fs = [4, 2, 2, 2, 2, 2] \<and> list_all (list_all is_digit) fs"

definition iso_stamp :: "string list \<Rightarrow> string" where
  "iso_stamp fs =
     fs ! 0 @ ''-'' @ fs ! 1 @ ''-'' @ fs ! 2 @ ''T'' @ fs ! 3 @ '':'' @ fs ! 4 @ '':'' @ fs ! 5 @ ''Z''"

definition compact_stamp :: "string list \<Rightarrow> string" where
  "compact_stamp fs = fs ! 0 @ fs ! 1 @ fs ! 2 @ ''T'' @ fs ! 3 @ fs ! 4 @ fs ! 5 @ ''Z''"

definition report_name :: "string list \<Rightarrow> string \<Rightarrow> string" where
  "report_name fs i = compact_stamp fs @ ''-'' @ i @ ''.json''"

lemma stamp_fieldsE:
  assumes "stamp_fields fs"
  obtains y mo d h mi s where "fs = [y, mo, d, h, mi, s]"
    and "length y = 4" "length mo = 2" "length d = 2" "length h = 2" "length mi = 2" "length s = 2"
    and "\<forall>f \<in> {y, mo, d, h, mi, s}. list_all is_digit f"
  using assms by (auto simp: stamp_fields_def map_eq_Cons_conv)

lemma digit_not_sep: "is_digit c \<Longrightarrow> c \<noteq> CHR ''-'' \<and> c \<noteq> CHR '':''"
  by (auto simp: is_digit_def less_eq_char_def)

lemma filter_digits: "list_all is_digit f \<Longrightarrow> filter (\<lambda>c. c \<noteq> CHR ''-'' \<and> c \<noteq> CHR '':'') f = f"
  using digit_not_sep by (induction f) auto

lemma length_compact_stamp: "stamp_fields fs \<Longrightarrow> length (compact_stamp fs) = 16"
  by (erule stamp_fieldsE) (simp add: compact_stamp_def)

lemma compact_iso: "stamp_fields fs \<Longrightarrow> compact_timestamp (iso_stamp fs) 17 = Inr (compact_stamp fs)"
  by (erule stamp_fieldsE)
     (simp add: compact_timestamp_def iso_stamp_def compact_stamp_def filter_digits Let_def)

lemma expand_compact: "stamp_fields fs \<Longrightarrow> 21 \<le> cap \<Longrightarrow> expand_timestamp (compact_stamp fs) cap = Inr (iso_stamp fs)"
  by (erule stamp_fieldsE)
     (simp add: expand_timestamp_def iso_stamp_def compact_stamp_def snprintf_buf_def)

lemma ends_with_append [simp]: "ends_with (s @ t) t"
  by (simp add: ends_with_def)

lemma read_report_name:
  assumes "stamp_fields fs" and "length i < 64"
  shows "read_name (report_name fs i) info = info\<lparr>ls_scanned_at := iso_stamp fs, ls_scan_id := i\<rparr>"
proof -
  have len: "length (compact_stamp fs) = 16" using assms(1) by (rule length_compact_stamp)
  have "ends_with (report_name fs i) ''.json''"
    using ends_with_append [of "compact_stamp fs @ ''-'' @ i" "''.json''"] by (simp add: report_name_def)
  moreover have "report_name fs i ! 16 = CHR ''-''" "take 16 (report_name fs i) = compact_stamp fs"
      "length (report_name fs i) = length i + 22" "take (length i) (drop 17 (report_name fs i)) = i"
    using len by (simp_all add: report_name_def nth_append)
  ultimately show ?thesis
    using assms by (simp add: read_name_def Let_def expand_compact)
qed

section \<open>The last scan\<close>

definition is_report :: "usbs_dir_entry \<Rightarrow> bool" where
  "is_report e \<longleftrightarrow> \<not> is_directory e \<and> ends_with (entry_name e) ''.json''"

lemma note_entry_spec:
  "length (entry_name e) < USBS_NAME_MAX \<Longrightarrow>
   note_entry e (count, best) =
     (if is_report e then
        (count + 1, Some (case best of None \<Rightarrow> entry_name e
           | Some b \<Rightarrow> if strcmp_less b (entry_name e) then entry_name e else b))
      else (count, best))"
  by (auto simp: note_entry_def is_report_def split: option.splits)

lemma last_scan_loop_list:
  "dir_list fuel P it w = Some (es, fin, w') \<Longrightarrow>
   last_scan_loop fuel P it acc w =
     Some (if fin = USBS_ERR_NOT_FOUND then USBS_OK else fin, fold note_entry es acc, w')"
proof (induction fuel P it acc w arbitrary: es rule: last_scan_loop.induct)
  case (2 fuel P it acc w)
  then show ?case by (auto split: prod.splits sum.splits)
qed simp

text \<open>Folding over a listing counts the reports and keeps the greatest name.\<close>

definition newest :: "usbs_dir_entry list \<Rightarrow> string option \<Rightarrow> bool" where
  "newest es best \<longleftrightarrow>
     (case best of
        None \<Rightarrow> (\<forall>e \<in> set es. \<not> is_report e)
      | Some b \<Rightarrow> b \<in> entry_name ` {e \<in> set es. is_report e} \<and>
          (\<forall>e \<in> set es. is_report e \<longrightarrow> \<not> strcmp_less b (entry_name e)))"

lemma newest_step:
  assumes "newest es best" and "is_report e"
  shows "newest (es @ [e]) (Some (case best of None \<Rightarrow> entry_name e
     | Some b \<Rightarrow> if strcmp_less b (entry_name e) then entry_name e else b))"
proof (cases best)
  case None
  with assms show ?thesis by (auto simp: newest_def)
next
  case (Some b)
  show ?thesis
  proof (cases "strcmp_less b (entry_name e)")
    case True
    have "\<not> strcmp_less (entry_name e) (entry_name e')" if "e' \<in> set es" "is_report e'" for e'
      using that assms(1) Some True strcmp_less_trans unfolding newest_def by fastforce
    with assms Some True show ?thesis by (auto simp: newest_def)
  next
    case False
    with assms Some show ?thesis by (auto simp: newest_def)
  qed
qed

lemma fold_note_entry:
  assumes "\<forall>e \<in> set es. length (entry_name e) < USBS_NAME_MAX"
  shows "\<exists>best. fold note_entry es (0, None) = (length (filter is_report es), best) \<and> newest es best"
  using assms
proof (induction es rule: rev_induct)
  case Nil
  show ?case by (simp add: newest_def)
next
  case (snoc e es)
  then obtain best where b: "fold note_entry es (0, None) = (length (filter is_report es), best)" "newest es best"
    by auto
  show ?case
  proof (cases "is_report e")
    case True
    with b snoc.prems newest_step [OF b(2) True] show ?thesis by (auto simp: note_entry_spec)
  next
    case False
    moreover from False b(2) have "newest (es @ [e]) best" by (auto simp: newest_def split: option.splits)
    ultimately show ?thesis using b snoc.prems by (auto simp: note_entry_spec)
  qed
qed

lemma newest_unique:
  assumes "newest es best" and "e \<in> set es" and "is_report e"
    and "\<forall>e' \<in> set es. is_report e' \<longrightarrow> \<not> strcmp_less (entry_name e) (entry_name e')"
  shows "best = Some (entry_name e)"
proof (cases best)
  case None
  with assms show ?thesis by (auto simp: newest_def)
next
  case (Some b)
  then obtain e' where e': "e' \<in> set es" "is_report e'" "b = entry_name e'"
    using assms(1) by (auto simp: newest_def)
  have "\<not> strcmp_less b (entry_name e)" using assms(1-3) Some by (simp add: newest_def)
  moreover have "\<not> strcmp_less (entry_name e) b" using assms(4) e' by simp
  ultimately show ?thesis using Some strcmp_less_total by blast
qed

text \<open>
  The last scan comes from the names alone: if the device's directory lists \<open>es\<close> and the greatest
  report name among them is the one of time stamp \<open>fs\<close> and scan id \<open>i\<close>, the lookup answers
  exactly that stamp in ISO form, that id, and the number of reports.
\<close>

theorem last_scan_reports_newest:
  assumes "usbs_store_safe_id identity USBS_STORE_PATH_MAX = Inr safe"
    and "device_dir (p_host P) store safe USBS_STORE_PATH_MAX = (USBS_OK, dir)"
    and "dir_open P dir w = (Inr it, w1)"
    and "dir_list fuel P it w1 = Some (es, USBS_ERR_NOT_FOUND, w2)"
    and names: "\<forall>e \<in> set es. length (entry_name e) < USBS_NAME_MAX"
    and e: "e \<in> set es" "is_report e" "entry_name e = report_name fs i"
    and fs: "stamp_fields fs" "length i < 64"
    and greatest: "\<forall>e' \<in> set es. is_report e' \<longrightarrow> \<not> strcmp_less (entry_name e) (entry_name e')"
  shows "usbs_store_last_scan fuel P store identity w =
    Some (USBS_OK, \<lparr>ls_scan_id = i, ls_scanned_at = iso_stamp fs,
      ls_report_count = length (filter is_report es), ls_found = True\<rparr>, dir_close P it w2)"
proof -
  obtain best where best: "fold note_entry es (0, None) = (length (filter is_report es), best)" "newest es best"
    using fold_note_entry [OF names] by blast
  have "best = Some (report_name fs i)"
    using newest_unique [OF best(2) e(1,2) greatest] e(3) by simp
  with best last_scan_loop_list [OF assms(4), of "(0, None)"] assms(1-3) read_report_name [OF fs] show ?thesis
    by (simp add: usbs_store_last_scan_def last_scan_zero_def)
qed

lemma last_scan_reports_newest_witness:
  "usbs_store_last_scan 2 root_listing \<lparr>store_root = ''/s''\<rparr> ''usb:0781-5581''
      [fixture_entry ''20260911T140203Z-ab.json'' 7] =
    Some (USBS_OK, \<lparr>ls_scan_id = ''ab'',
        ls_scanned_at = iso_stamp [''2026'', ''09'', ''11'', ''14'', ''02'', ''03''],
        ls_report_count = length (filter is_report [fixture_entry ''20260911T140203Z-ab.json'' 7]), ls_found = True\<rparr>,
      dir_close root_listing 1 [])"
proof (rule last_scan_reports_newest)
  show "usbs_store_safe_id ''usb:0781-5581'' USBS_STORE_PATH_MAX = Inr ''usb_3A0781-5581''" by code_simp
  show "device_dir (p_host root_listing) \<lparr>store_root = ''/s''\<rparr> ''usb_3A0781-5581'' USBS_STORE_PATH_MAX =
      (USBS_OK, ''/s/scans/usb_3A0781-5581'')"
    by code_simp
  show "dir_open root_listing ''/s/scans/usb_3A0781-5581'' [fixture_entry ''20260911T140203Z-ab.json'' 7] =
      (Inr 1, [fixture_entry ''20260911T140203Z-ab.json'' 7])"
    by (simp add: root_listing_def)
  show "dir_list 2 root_listing 1 [fixture_entry ''20260911T140203Z-ab.json'' 7] =
      Some ([fixture_entry ''20260911T140203Z-ab.json'' 7], USBS_ERR_NOT_FOUND, [])"
    by (simp add: root_listing_def numeral_2_eq_2)
  show "fixture_entry ''20260911T140203Z-ab.json'' 7 \<in> set [fixture_entry ''20260911T140203Z-ab.json'' 7]" by simp
  show "is_report (fixture_entry ''20260911T140203Z-ab.json'' 7)" by code_simp
  show "entry_name (fixture_entry ''20260911T140203Z-ab.json'' 7) =
      report_name [''2026'', ''09'', ''11'', ''14'', ''02'', ''03''] ''ab''"
    by code_simp
  show "stamp_fields [''2026'', ''09'', ''11'', ''14'', ''02'', ''03'']" by code_simp
qed (simp_all add: fixture_entry_def USBS_NAME_MAX_def)

text \<open>
  A report's file name gives back the time and the scan id: compacting the ISO stamp of any date,
  building the name the writer uses and reading it again yields the same stamp and id, for every
  scan id shorter than 64 bytes.
\<close>

theorem report_name_roundtrip:
  assumes "stamp_fields fs" and "length i < 64"
  shows "\<exists>c. compact_timestamp (iso_stamp fs) 17 = Inr c \<and>
    (let name = snprintf_buf 300 (c @ ''-'' @ i @ ''.'' @ ''json'')
     in read_name name info = info\<lparr>ls_scanned_at := iso_stamp fs, ls_scan_id := i\<rparr>)"
proof -
  have "length (compact_stamp fs @ ''-'' @ i @ ''.'' @ ''json'') < 300"
    using assms length_compact_stamp [OF assms(1)] by simp
  then have "snprintf_buf 300 (compact_stamp fs @ ''-'' @ i @ ''.'' @ ''json'') = report_name fs i"
    by (simp add: report_name_def)
  with compact_iso [OF assms(1)] read_report_name [OF assms] show ?thesis by (simp add: Let_def)
qed

lemma report_name_roundtrip_witness:
  "\<exists>c. compact_timestamp (iso_stamp [''2026'', ''09'', ''11'', ''14'', ''02'', ''03'']) 17 = Inr c \<and>
    (let name = snprintf_buf 300 (c @ ''-'' @ ''ab'' @ ''.'' @ ''json'')
     in read_name name last_scan_zero = last_scan_zero\<lparr>ls_scanned_at :=
          iso_stamp [''2026'', ''09'', ''11'', ''14'', ''02'', ''03''], ls_scan_id := ''ab''\<rparr>)"
  by (rule report_name_roundtrip) code_simp+

text \<open>
  The order of the names is the order of the stamps: the comparison that picks the newest report
  is decided by the compact stamp, before the scan id is looked at.
\<close>

lemma strcmp_less_append:
  "length a = length b \<Longrightarrow> strcmp_less (a @ x) (b @ y) \<longleftrightarrow> strcmp_less a b \<or> a = b \<and> strcmp_less x y"
  by (induction a b rule: list_induct2) auto

lemma report_names_in_time_order:
  assumes "stamp_fields fs" and "stamp_fields gs" and "strcmp_less (compact_stamp fs) (compact_stamp gs)"
  shows "strcmp_less (report_name fs i) (report_name gs j)"
  using assms by (simp add: report_name_def strcmp_less_append length_compact_stamp)

end
