(* ===== verification/Disk.thy ===== *)
theory Disk
  imports Platform
begin

text \<open>
  A concrete machine behind the platform boundary: files with contents, directories with listings,
  fresh handles, and a script of faults that the next fallible operations answer with. It is the
  instance on which the interfaces of this development are interpreted; a property stated over it
  holds for every fault script. A write that fails leaves a torn file, the way a full disk does.
\<close>

section \<open>The machine\<close>

record disk =
  d_files :: "string \<Rightarrow> string option"
  d_dirs :: "string \<Rightarrow> usbs_dir_entry list option"
  d_open_dirs :: "nat \<Rightarrow> usbs_dir_entry list option"
  d_open_files :: "nat \<Rightarrow> string option"
  d_next :: nat
  d_faults :: "usbs_status list"

definition disk_fault :: "disk \<Rightarrow> usbs_status \<times> disk" where
  "disk_fault d = (case d_faults d of [] \<Rightarrow> (USBS_OK, d) | f # fs \<Rightarrow> (f, d\<lparr>d_faults := fs\<rparr>))"

definition disk_dir_open :: "string \<Rightarrow> disk \<Rightarrow> (usbs_status + nat) \<times> disk" where
  "disk_dir_open p d =
     (case disk_fault d of
        (st, d1) \<Rightarrow>
          if st \<noteq> USBS_OK then (Inl st, d1)
          else
            (case d_dirs d1 p of
               None \<Rightarrow> (Inl USBS_ERR_NOT_FOUND, d1)
             | Some es \<Rightarrow>
                 (Inr (d_next d1),
                  d1\<lparr>d_open_dirs := (d_open_dirs d1)(d_next d1 \<mapsto> es), d_next := Suc (d_next d1)\<rparr>)))"

definition disk_dir_next :: "nat \<Rightarrow> disk \<Rightarrow> (usbs_status + usbs_dir_entry) \<times> disk" where
  "disk_dir_next h d =
     (case disk_fault d of
        (st, d1) \<Rightarrow>
          if st \<noteq> USBS_OK then (Inl st, d1)
          else
            (case d_open_dirs d1 h of
               Some (e # es) \<Rightarrow> (Inr e, d1\<lparr>d_open_dirs := (d_open_dirs d1)(h \<mapsto> es)\<rparr>)
             | _ \<Rightarrow> (Inl USBS_ERR_NOT_FOUND, d1)))"

definition disk_file_open :: "string \<Rightarrow> disk \<Rightarrow> (usbs_status + nat) \<times> disk" where
  "disk_file_open p d =
     (case disk_fault d of
        (st, d1) \<Rightarrow>
          if st \<noteq> USBS_OK then (Inl st, d1)
          else
            (case d_files d1 p of
               None \<Rightarrow> (Inl USBS_ERR_NOT_FOUND, d1)
             | Some c \<Rightarrow>
                 (Inr (d_next d1),
                  d1\<lparr>d_open_files := (d_open_files d1)(d_next d1 \<mapsto> c), d_next := Suc (d_next d1)\<rparr>)))"

definition disk_file_read :: "nat \<Rightarrow> nat \<Rightarrow> disk \<Rightarrow> (usbs_status + string) \<times> disk" where
  "disk_file_read h n d =
     (case disk_fault d of
        (st, d1) \<Rightarrow>
          if st \<noteq> USBS_OK then (Inl st, d1)
          else
            (case d_open_files d1 h of
               None \<Rightarrow> (Inl USBS_ERR_INVALID_ARG, d1)
             | Some c \<Rightarrow> (Inr (take n c), d1\<lparr>d_open_files := (d_open_files d1)(h \<mapsto> drop n c)\<rparr>)))"

definition disk_write :: "string \<Rightarrow> string \<Rightarrow> disk \<Rightarrow> usbs_status \<times> disk" where
  "disk_write p content d =
     (case disk_fault d of
        (st, d1) \<Rightarrow>
          if st \<noteq> USBS_OK then (st, d1\<lparr>d_files := (d_files d1)(p \<mapsto> take (length content div 2) content)\<rparr>)
          else (USBS_OK, d1\<lparr>d_files := (d_files d1)(p \<mapsto> content)\<rparr>))"

definition disk_replace :: "string \<Rightarrow> string \<Rightarrow> disk \<Rightarrow> usbs_status \<times> disk" where
  "disk_replace dst src d =
     (case disk_fault d of
        (st, d1) \<Rightarrow>
          if st \<noteq> USBS_OK then (st, d1)
          else
            (case d_files d1 src of
               None \<Rightarrow> (USBS_ERR_NOT_FOUND, d1)
             | Some c \<Rightarrow> (USBS_OK, d1\<lparr>d_files := (d_files d1)(src := None, dst \<mapsto> c)\<rparr>)))"

definition disk_delete :: "string \<Rightarrow> disk \<Rightarrow> usbs_status \<times> disk" where
  "disk_delete p d =
     (case disk_fault d of
        (st, d1) \<Rightarrow>
          if st \<noteq> USBS_OK then (st, d1) else (USBS_OK, d1\<lparr>d_files := (d_files d1)(p := None)\<rparr>))"

definition disk_make_dirs :: "string \<Rightarrow> disk \<Rightarrow> usbs_status \<times> disk" where
  "disk_make_dirs p d =
     (case disk_fault d of
        (st, d1) \<Rightarrow>
          if st \<noteq> USBS_OK then (st, d1)
          else
            (case d_dirs d1 p of
               None \<Rightarrow> (USBS_OK, d1\<lparr>d_dirs := (d_dirs d1)(p \<mapsto> [])\<rparr>)
             | Some _ \<Rightarrow> (USBS_OK, d1)))"

definition disk_platform :: "host \<Rightarrow> environment \<Rightarrow> disk platform" where
  "disk_platform h env =
     \<lparr>p_host = h, p_env = env, p_mem = mem_always,
      dir_open = disk_dir_open, dir_next = disk_dir_next,
      dir_close = (\<lambda>i d. d\<lparr>d_open_dirs := (d_open_dirs d)(i := None)\<rparr>),
      file_open_read = disk_file_open, file_read = disk_file_read,
      file_close = (\<lambda>i d. d\<lparr>d_open_files := (d_open_files d)(i := None)\<rparr>),
      make_dirs = disk_make_dirs, write_file = disk_write, replace_file = disk_replace,
      delete_file = disk_delete,
      probe_capabilities = (\<lambda>_ d. (USBS_OK, \<lparr>can_read_raw_volume = False, can_read_physical_disk = False\<rparr>, d))\<rparr>"

lemmas disk_op_defs =
  disk_dir_open_def disk_dir_next_def disk_file_open_def disk_file_read_def disk_write_def
  disk_replace_def disk_delete_def disk_make_dirs_def

lemma disk_platform_simps [simp]:
  "p_host (disk_platform h env) = h" "p_env (disk_platform h env) = env"
  "p_mem (disk_platform h env) = mem_always"
  "dir_open (disk_platform h env) = disk_dir_open" "dir_next (disk_platform h env) = disk_dir_next"
  "dir_close (disk_platform h env) i d = d\<lparr>d_open_dirs := (d_open_dirs d)(i := None)\<rparr>"
  "file_open_read (disk_platform h env) = disk_file_open" "file_read (disk_platform h env) = disk_file_read"
  "file_close (disk_platform h env) i d = d\<lparr>d_open_files := (d_open_files d)(i := None)\<rparr>"
  "make_dirs (disk_platform h env) = disk_make_dirs" "write_file (disk_platform h env) = disk_write"
  "replace_file (disk_platform h env) = disk_replace" "delete_file (disk_platform h env) = disk_delete"
  by (simp_all add: disk_platform_def)

lemma disk_fault_frame [simp]:
  "disk_fault d = (st, d1) \<Longrightarrow> d_files d1 = d_files d \<and> d_dirs d1 = d_dirs d \<and> d_open_dirs d1 = d_open_dirs d \<and>
     d_open_files d1 = d_open_files d \<and> d_next d1 = d_next d"
  by (auto simp: disk_fault_def split: list.splits)

lemma disk_no_fault [simp]: "d_faults d = [] \<Longrightarrow> disk_fault d = (USBS_OK, d)"
  by (simp add: disk_fault_def)

lemma disk_reads_bounded: "reads_bounded (disk_platform h env)"
  by (auto simp: reads_bounded_def disk_file_read_def split: prod.splits if_splits option.splits)

section \<open>The file store interface\<close>

text \<open>What making the store's directories promises; \<open>contents\<close> is whatever it must leave alone.\<close>

locale store_dirs =
  fixes P :: "'w platform"
    and contents :: "'w \<Rightarrow> 'c"
  assumes make_dirs_same: "make_dirs P p w = (st, w') \<Longrightarrow> contents w' = contents w"
begin

text \<open>The protocol of both writers: write \<open>tmp\<close>, rename it over \<open>dst\<close>, delete \<open>tmp\<close> if that failed.\<close>

definition publish :: "string \<Rightarrow> string \<Rightarrow> string \<Rightarrow> 'w \<Rightarrow> usbs_status \<times> 'w" where
  "publish dst tmp c w =
     (case write_file P tmp c w of
        (st, w1) \<Rightarrow>
          (case (if usbs_ok st then replace_file P dst tmp w1 else (st, w1)) of
             (st2, w2) \<Rightarrow> (st2, if \<not> usbs_ok st2 then snd (delete_file P tmp w2) else w2)))"

end

text \<open>
  What a client that writes through temporary files relies on: a write touches only its path and
  leaves the content when it succeeds, a rename moves the content whole or does nothing, a delete
  touches only its path, and nothing else touches a file.
\<close>

locale file_store = store_dirs P contents
  for P :: "'w platform" and contents :: "'w \<Rightarrow> string \<Rightarrow> string option" +
  assumes write_ok: "write_file P p c w = (USBS_OK, w') \<Longrightarrow> contents w' = (contents w)(p \<mapsto> c)"
    and write_other: "write_file P p c w = (st, w') \<Longrightarrow> q \<noteq> p \<Longrightarrow> contents w' q = contents w q"
    and replace_ok: "replace_file P dst src w = (USBS_OK, w') \<Longrightarrow>
      contents w src = Some c \<Longrightarrow> contents w' = (contents w)(src := None, dst \<mapsto> c)"
    and replace_fail: "replace_file P dst src w = (st, w') \<Longrightarrow> st \<noteq> USBS_OK \<Longrightarrow> contents w' = contents w"
    and replace_other: "replace_file P dst src w = (st, w') \<Longrightarrow> q \<noteq> dst \<Longrightarrow> q \<noteq> src \<Longrightarrow> contents w' q = contents w q"
    and delete_other: "delete_file P p w = (st, w') \<Longrightarrow> q \<noteq> p \<Longrightarrow> contents w' q = contents w q"
    and dir_open_same: "dir_open P p w = (ri, w') \<Longrightarrow> contents w' = contents w"
    and dir_next_same: "dir_next P i w = (re, w') \<Longrightarrow> contents w' = contents w"
    and dir_close_same: "contents (dir_close P i w) = contents w"
    and file_open_same: "file_open_read P p w = (ri, w') \<Longrightarrow> contents w' = contents w"
    and file_read_same: "file_read P i n w = (rs, w') \<Longrightarrow> contents w' = contents w"
    and file_close_same: "contents (file_close P i w) = contents w"
begin

text \<open>Whatever fails, \<open>dst\<close> holds its old content or the whole new one, and no third file changes.\<close>

lemma delete_snd: "q \<noteq> p \<Longrightarrow> contents (snd (delete_file P p w)) q = contents w q"
  by (cases "delete_file P p w") (simp add: delete_other)

lemma publish_atomic:
  assumes "publish dst tmp c w = (st, w')" and "dst \<noteq> tmp"
  shows "(\<forall>q. q \<noteq> dst \<longrightarrow> q \<noteq> tmp \<longrightarrow> contents w' q = contents w q) \<and>
    contents w' dst = (if st = USBS_OK then Some c else contents w dst) \<and>
    (st = USBS_OK \<longrightarrow> contents w' tmp = None)"
proof -
  obtain st1 w1 where wr: "write_file P tmp c w = (st1, w1)" by fastforce
  show ?thesis
  proof (cases "st1 = USBS_OK")
    case False
    with wr assms show ?thesis
      by (auto simp: publish_def usbs_ok_def delete_snd write_other [OF wr])
  next
    case True
    with wr have c1: "contents w1 = (contents w)(tmp \<mapsto> c)" using write_ok by blast
    obtain st2 w2 where re: "replace_file P dst tmp w1 = (st2, w2)" by fastforce
    show ?thesis
    proof (cases "st2 = USBS_OK")
      case True
      with re c1 have "contents w2 = (contents w1)(tmp := None, dst \<mapsto> c)"
        using replace_ok [of dst tmp w1 w2 c] by simp
      with True wr \<open>st1 = USBS_OK\<close> re assms c1 show ?thesis by (auto simp: publish_def usbs_ok_def)
    next
      case False
      with re have "contents w2 = contents w1" using replace_fail by blast
      with False wr \<open>st1 = USBS_OK\<close> re assms c1 show ?thesis
        by (auto simp: publish_def usbs_ok_def delete_snd)
    qed
  qed
qed

end

interpretation disk_store: file_store "disk_platform h env" d_files
  by unfold_locales (auto simp: disk_op_defs split: prod.splits if_splits option.splits list.splits)

declare disk_fault_frame [simp del]

end
