(* ===== verification/StoreWrite.thy ===== *)
theory StoreWrite
  imports StoreNames Disk
begin

text \<open>
  What writing a report does to the files of the machine: proved once against the file store
  interface, for every failure of every operation.
\<close>

section \<open>The two files a report write may touch\<close>

definition report_path :: "host \<Rightarrow> usbs_store \<Rightarrow> string \<Rightarrow> string \<Rightarrow> string \<Rightarrow> string \<Rightarrow> string" where
  "report_path h store safe i compact extension =
     joined_path h (joined_path h (joined_path h (store_root store) ''scans'') safe)
       (snprintf_buf 300 (compact @ ''-'' @ i @ ''.'' @ extension))"

lemma store_errors:
  "usbs_store_safe_id i cap = Inl st \<Longrightarrow> st \<noteq> USBS_OK"
  "compact_timestamp t cap = Inl st \<Longrightarrow> st \<noteq> USBS_OK"
proof -
  have "safe_id_loop n out cs = Inl st \<Longrightarrow> st \<noteq> USBS_OK" for n out cs
    by (induction n out cs rule: safe_id_loop.induct) (auto split: if_splits)
  then show "usbs_store_safe_id i cap = Inl st \<Longrightarrow> st \<noteq> USBS_OK"
    by (auto simp: usbs_store_safe_id_def split: if_splits sum.splits)
qed (auto simp: compact_timestamp_def Let_def split: if_splits)

context store_dirs
begin

lemma publish_unfold:
  "(case write_file P tmp c w of
      (st5, w2) \<Rightarrow>
        if \<not> usbs_ok st5 then (Inl st5, snd (delete_file P tmp w2))
        else
          (case replace_file P dst tmp w2 of
             (st6, w3) \<Rightarrow> if \<not> usbs_ok st6 then (Inl st6, snd (delete_file P tmp w3)) else (Inr x, w3))) =
   (case publish dst tmp c w of (st, w') \<Rightarrow> (if usbs_ok st then Inr x else Inl st, w'))"
  by (auto simp: publish_def split: prod.splits)

text \<open>Either the call fails before anything is written, or it is one publication.\<close>

lemma write_report_cases:
  assumes "write_report_file P store identity i stamp ext c cap w = (r, w')"
  shows "(\<exists>st. r = Inl st \<and> st \<noteq> USBS_OK \<and> contents w' = contents w) \<or>
    (\<exists>safe compact w1 st. usbs_store_safe_id identity USBS_STORE_PATH_MAX = Inr safe \<and>
       compact_timestamp stamp 17 = Inr compact \<and> contents w1 = contents w \<and>
       length (report_path (p_host P) store safe i compact ext) < USBS_STORE_PATH_MAX \<and>
       publish (report_path (p_host P) store safe i compact ext)
         (snprintf_buf USBS_STORE_PATH_MAX (report_path (p_host P) store safe i compact ext @ ''.tmp'')) c w1 = (st, w') \<and>
       r = (if usbs_ok st then Inr (snprintf_buf cap (report_path (p_host P) store safe i compact ext)) else Inl st))"
proof (cases "CHR 0x5C \<in> set i \<or> CHR ''/'' \<in> set i")
  case True
  with assms show ?thesis by (intro disjI1) (auto simp: write_report_file_def usbs_ok_def split: if_splits)
next
  case sep: False
  show ?thesis
  proof (cases "usbs_store_safe_id identity USBS_STORE_PATH_MAX")
    case (Inl st)
    with assms sep store_errors(1) [OF Inl] show ?thesis
      by (intro disjI1 exI [of _ st]) (simp add: write_report_file_def)
  next
    case safe: (Inr safe)
    obtain st dir where dd: "device_dir (p_host P) store safe USBS_STORE_PATH_MAX = (st, dir)" by fastforce
    obtain st2 w1 where mk: "make_dirs P dir w = (st2, w1)" by fastforce
    have w1: "contents w1 = contents w" using make_dirs_same [OF mk] .
    show ?thesis
    proof (cases "usbs_ok st \<and> usbs_ok st2")
      case False
      with assms sep safe dd mk w1 show ?thesis by (intro disjI1) (auto simp: write_report_file_def usbs_ok_def split: if_splits)
    next
      case ok: True
      show ?thesis
      proof (cases "compact_timestamp stamp 17")
        case (Inl st3)
        with assms sep safe dd mk w1 ok store_errors(2) [OF Inl] show ?thesis
          by (intro disjI1 exI [of _ st3]) (simp add: write_report_file_def)
      next
        case compact: (Inr compact)
        have dir: "dir = joined_path (p_host P) (joined_path (p_host P) (store_root store) ''scans'') safe"
          using dd ok by (auto simp: device_dir_def scans_root_def usbs_path_join_def Let_def usbs_ok_def split: if_splits)
        define final where "final = report_path (p_host P) store safe i compact ext"
        have join: "usbs_path_join (p_host P) USBS_STORE_PATH_MAX dir
             (snprintf_buf 300 (compact @ ''-'' @ i @ ''.'' @ ext)) =
            (if length final < USBS_STORE_PATH_MAX then (USBS_OK, final)
             else (USBS_ERR_NO_MEMORY, snprintf_buf USBS_STORE_PATH_MAX final))"
          unfolding dir final_def report_path_def
          by (simp add: usbs_path_join_def Let_def USBS_STORE_PATH_MAX_def)
        show ?thesis
        proof (cases "length final < USBS_STORE_PATH_MAX")
          case False
          with assms sep safe dd mk w1 ok compact join show ?thesis by (intro disjI1) (auto simp: write_report_file_def usbs_ok_def split: if_splits)
        next
          case True
          obtain st' w'' where pub: "publish final (snprintf_buf USBS_STORE_PATH_MAX (final @ ''.tmp'')) c w1 = (st', w'')"
            by fastforce
          have "write_report_file P store identity i stamp ext c cap w =
              (if usbs_ok st' then Inr (snprintf_buf cap final) else Inl st', w'')"
            using sep safe dd mk ok compact join True pub
            by (simp add: write_report_file_def Let_def publish_unfold)
          with assms have "r = (if usbs_ok st' then Inr (snprintf_buf cap final) else Inl st')" "w' = w''" by simp_all
          with safe compact w1 True pub show ?thesis
            by (intro disjI2 exI [of _ safe] exI [of _ compact] exI [of _ w1] exI [of _ st'])
               (simp add: final_def)
        qed
      qed
    qed
  qed
qed

end

context file_store
begin

lemma write_report_atomic:
  assumes "write_report_file P store identity i stamp ext c cap w = (r, w')"
    and "usbs_store_safe_id identity USBS_STORE_PATH_MAX = Inr safe"
    and "compact_timestamp stamp 17 = Inr compact"
    and "final = report_path (p_host P) store safe i compact ext"
    and "length final + 4 < USBS_STORE_PATH_MAX"
  shows "(\<forall>q. q \<noteq> final \<longrightarrow> q \<noteq> final @ ''.tmp'' \<longrightarrow> contents w' q = contents w q) \<and>
    (case r of
       Inr path \<Rightarrow> contents w' final = Some c \<and> contents w' (final @ ''.tmp'') = None \<and> path = snprintf_buf cap final
     | Inl st \<Rightarrow> st \<noteq> USBS_OK \<and> contents w' final = contents w final)"
proof -
  have tmp: "snprintf_buf USBS_STORE_PATH_MAX (final @ ''.tmp'') = final @ ''.tmp''"
    using assms(5) by simp
  from write_report_cases [OF assms(1)] assms(2-4) tmp
  consider (early) st where "r = Inl st" "contents w' = contents w" "st \<noteq> USBS_OK"
    | (publish) w1 st where "contents w1 = contents w" "publish final (final @ ''.tmp'') c w1 = (st, w')"
        "r = (if usbs_ok st then Inr (snprintf_buf cap final) else Inl st)"
    by auto
  then show ?thesis
  proof cases
    case early
    then show ?thesis by simp
  next
    case publish
    with publish_atomic [OF publish(2)] show ?thesis by (auto simp: usbs_ok_def)
  qed
qed

end

text \<open>
  Writing a report is atomic and touches nothing else, whatever fails: on every fault script,
  when the report's path leaves room for the .tmp suffix, no file but the report and its temporary
  file changes, the report's path holds its old content or the whole new report, and it holds the
  new one, with no temporary file left, exactly when the call reports success.
\<close>

theorem report_write_is_atomic:
  assumes "write_report_file (disk_platform h env) store identity i stamp ext c cap d = (r, d')"
    and "usbs_store_safe_id identity USBS_STORE_PATH_MAX = Inr safe"
    and "compact_timestamp stamp 17 = Inr compact"
    and "final = report_path h store safe i compact ext"
    and "length final + 4 < USBS_STORE_PATH_MAX"
  shows "(\<forall>q. q \<noteq> final \<longrightarrow> q \<noteq> final @ ''.tmp'' \<longrightarrow> d_files d' q = d_files d q) \<and>
    (case r of
       Inr path \<Rightarrow> d_files d' final = Some c \<and> d_files d' (final @ ''.tmp'') = None \<and> path = snprintf_buf cap final
     | Inl st \<Rightarrow> st \<noteq> USBS_OK \<and> d_files d' final = d_files d final)"
  using disk_store.write_report_atomic [OF assms(1-3) _ assms(5)] assms(4) by (simp add: disk_platform_def)

definition empty_disk :: disk where
  "empty_disk = \<lparr>d_files = (\<lambda>_. None), d_dirs = (\<lambda>_. None), d_open_dirs = (\<lambda>_. None),
     d_open_files = (\<lambda>_. None), d_next = 0, d_faults = []\<rparr>"

lemma report_write_is_atomic_witness:
  "d_files (snd (write_report_file (disk_platform Posix (\<lambda>_. None)) \<lparr>store_root = ''/s''\<rparr> ''usb:1'' ''ab''
      ''2026-09-11T14:02:03Z'' ''json'' ''{}'' 512 empty_disk)) ''/s/scans/usb_3A1/20260911T140203Z-ab.json'' = Some ''{}''"
proof -
  let ?r = "write_report_file (disk_platform Posix (\<lambda>_. None)) \<lparr>store_root = ''/s''\<rparr> ''usb:1'' ''ab''
      ''2026-09-11T14:02:03Z'' ''json'' ''{}'' 512 empty_disk"
  have ok: "fst ?r = Inr ''/s/scans/usb_3A1/20260911T140203Z-ab.json''" by code_simp
  have path: "''/s/scans/usb_3A1/20260911T140203Z-ab.json'' =
      report_path Posix \<lparr>store_root = ''/s''\<rparr> ''usb_3A1'' ''ab'' ''20260911T140203Z'' ''json''"
    by code_simp
  have safe: "usbs_store_safe_id ''usb:1'' USBS_STORE_PATH_MAX = Inr ''usb_3A1''" by code_simp
  have compact: "compact_timestamp ''2026-09-11T14:02:03Z'' 17 = Inr ''20260911T140203Z''" by code_simp
  show ?thesis
    using report_write_is_atomic [OF surjective_pairing [of ?r] safe compact path] ok
    by (simp add: USBS_STORE_PATH_MAX_def)
qed

text \<open>
  A report path of exactly 511 bytes fits its own buffer, but the .tmp suffix is then cut off
  whole: the temporary file is the report itself, and a failed write destroys the old report.
\<close>

lemma long_path_loses_the_old_report:
  assumes "length final = 511"
  shows "snprintf_buf USBS_STORE_PATH_MAX (final @ ''.tmp'') = final"
  using assms by (simp add: snprintf_buf_def USBS_STORE_PATH_MAX_def)

end
