(* ===== verification/StoreIndex.thy ===== *)
theory StoreIndex
  imports StoreNames JsonRoundtrip
begin

text \<open>
  The index is a cache that survives its own rewriting: the calls \<open>refresh_index\<close> makes are those
  of one document, in which every readable entry of another device is kept and the refreshed
  device's entry is the last scan.
\<close>

section \<open>The document the refresh writes\<close>

definition index_entry_doc :: "string \<Rightarrow> string \<Rightarrow> usbs_u64 \<Rightarrow> jdoc" where
  "index_entry_doc i a n =
     DObject [(''last_scan_id'', DString i), (''last_scan_at'', DString a), (''report_count'', DInt n)]"

definition carried :: "string \<Rightarrow> string \<times> json_value \<Rightarrow> (string \<times> jdoc) option" where
  "carried safe kv =
     (case kv of
        (k, v) \<Rightarrow>
          if cstr k = safe then None
          else
            (case (usbs_json_object_get (Some v) ''last_scan_id'', usbs_json_object_get (Some v) ''last_scan_at'',
                   usbs_json_as_int (usbs_json_object_get (Some v) ''report_count'')) of
               (Some i, Some a, Some (Cast n)) \<Rightarrow>
                 Some (cstr k, index_entry_doc
                   (case usbs_json_as_string (Some i) of None \<Rightarrow> [] | Some t \<Rightarrow> t)
                   (case usbs_json_as_string (Some a) of None \<Rightarrow> [] | Some t \<Rightarrow> t) (word_of_int n))
             | _ \<Rightarrow> None))"

definition index_doc :: "string \<Rightarrow> (string \<times> json_value) list \<Rightarrow> usbs_store_last_scan_t \<Rightarrow> jdoc" where
  "index_doc safe ms prev =
     DObject [(''schema_version'', DInt 1),
       (''devices'', DObject (List.map_filter (carried safe) ms @
          (if ls_found prev
           then [(safe, index_entry_doc (ls_scan_id prev) (ls_scanned_at prev) (of_nat (ls_report_count prev)))]
           else [])))]"

abbreviation member_calls :: "(string \<times> jdoc) list \<Rightarrow> json_call list" where
  "member_calls ms \<equiv> concat (map (\<lambda>(k, d). Key k # calls_of d) ms)"

lemma json_run_append: "json_run mem (xs @ ys) w = json_run mem ys (json_run mem xs w)"
  by (simp add: json_run_def)

lemma json_run_Nil [simp]: "json_run mem [] w = w"
  by (simp add: json_run_def)

lemma json_string_NULL: "usbs_json_string mem w v = usbs_json_string mem w (Some (case v of None \<Rightarrow> [] | Some t \<Rightarrow> t))"
  by (simp add: usbs_json_string_def)

lemma write_index_entry_calls:
  "write_index_entry mem k i a n jw =
     json_run mem (Key k # calls_of (index_entry_doc
       (case i of None \<Rightarrow> [] | Some t \<Rightarrow> t) (case a of None \<Rightarrow> [] | Some t \<Rightarrow> t) n)) jw"
  using json_string_NULL [of mem _ i] json_string_NULL [of mem _ a]
  by (simp add: write_index_entry_def index_entry_doc_def json_run_def Let_def
      usbs_json_member_string_def usbs_json_member_int_def)

lemma carry_entry_calls:
  assumes "i < length ms" and "carry_entry mem safe (Some (JSON_OBJECT ms)) i jw = Some jw'"
  shows "jw' = json_run mem (member_calls (case carried safe (ms ! i) of None \<Rightarrow> [] | Some m \<Rightarrow> [m])) jw"
proof (cases "ms ! i")
  case (Pair k v)
  with assms show ?thesis
    by (auto simp: carry_entry_def carried_def usbs_json_object_key_at_def usbs_json_object_value_at_def
        write_index_entry_calls json_run_def Let_def split: if_splits option.splits cast_result.splits)
qed

lemma carry_entries_calls:
  "\<forall>i \<in> set is. i < length ms \<Longrightarrow> carry_entries mem safe (Some (JSON_OBJECT ms)) is jw = Some jw' \<Longrightarrow>
   jw' = json_run mem (member_calls (List.map_filter (carried safe) (map ((!) ms) is))) jw"
proof (induction "is" arbitrary: jw)
  case Nil
  then show ?case by (simp add: json_run_def map_filter_simps)
next
  case (Cons i js)
  then obtain jw1 where c: "carry_entry mem safe (Some (JSON_OBJECT ms)) i jw = Some jw1"
      "carry_entries mem safe (Some (JSON_OBJECT ms)) js jw1 = Some jw'"
    by (auto split: option.splits)
  have "jw1 = json_run mem (member_calls (case carried safe (ms ! i) of None \<Rightarrow> [] | Some m \<Rightarrow> [m])) jw"
    using Cons.prems(1) by (intro carry_entry_calls [OF _ c(1)]) simp
  with Cons.IH [OF _ c(2)] Cons.prems(1) show ?case
    by (simp add: map_filter_simps json_run_append split: option.splits)
qed

lemma write_index_calls:
  assumes "write_index mem safe (Some (JSON_OBJECT ms)) prev = Some jw"
  shows "jw = json_run mem (calls_of (index_doc safe ms prev)) usbs_json_writer_init"
proof -
  let ?j4 = "json_run mem [BeginObject, Key ''schema_version'', WriteInt 1, Key ''devices'', BeginObject] usbs_json_writer_init"
  obtain j5 where j5: "carry_entries mem safe (Some (JSON_OBJECT ms)) [0..<length ms] ?j4 = Some j5"
    and jw: "jw = usbs_json_end_object mem (usbs_json_end_object mem
      (if ls_found prev
       then write_index_entry mem safe (Some (ls_scan_id prev)) (Some (ls_scanned_at prev)) (of_nat (ls_report_count prev)) j5
       else j5))"
    using assms
    by (auto simp: write_index_def json_run_def Let_def usbs_json_member_int_def USBS_INDEX_SCHEMA_VERSION_def
        usbs_json_object_count_def split: option.splits)
  have "j5 = json_run mem (member_calls (List.map_filter (carried safe) ms)) ?j4"
    using carry_entries_calls [OF _ j5] by (simp add: map_nth)
  with jw show ?thesis
    by (simp add: index_doc_def write_index_entry_calls json_run_append [symmetric] json_run_def)
qed

section \<open>What the index says\<close>

text \<open>A device's entry, as \<open>refresh_index\<close> itself reads one: two strings and an exact count.\<close>

definition index_entry :: "json_value option \<Rightarrow> string \<Rightarrow> (string \<times> string \<times> int) option" where
  "index_entry devices k =
     (let v = usbs_json_object_get devices k
      in (case (usbs_json_as_string (usbs_json_object_get v ''last_scan_id''),
                usbs_json_as_string (usbs_json_object_get v ''last_scan_at''),
                usbs_json_as_int (usbs_json_object_get v ''report_count'')) of
            (Some i, Some a, Some (Cast n)) \<Rightarrow> Some (i, a, n)
          | _ \<Rightarrow> None))"

lemma entry_doc_fields:
  "usbs_json_object_get (Some (jvalue (index_entry_doc i a n))) ''last_scan_id'' = Some (JSON_STRING i)"
  "usbs_json_object_get (Some (jvalue (index_entry_doc i a n))) ''last_scan_at'' = Some (JSON_STRING a)"
  "usbs_json_object_get (Some (jvalue (index_entry_doc i a n))) ''report_count'' =
     Some (JSON_NUMBER (double_of_int (sint n)))"
  by (simp_all add: index_entry_doc_def usbs_json_object_get_def)

lemma sint_of_small: "\<bar>n\<bar> < 2 ^ 53 \<Longrightarrow> sint (word_of_int n :: usbs_u64) = n"
  by (simp add: sint_word_ariths signed_take_bit_int_eq_self_iff sint_sbintrunc' abs_less_iff)

lemma entry_doc_reads:
  assumes "usbs_json_object_get devs k = Some (jvalue (index_entry_doc i a (word_of_int n)))"
    and "is_cstr i" and "is_cstr a" and "\<bar>n\<bar> < 2 ^ 53"
  shows "index_entry devs k = Some (i, a, n)"
  using assms
  by (simp add: index_entry_def Let_def entry_doc_fields usbs_json_as_string_def as_int_double_of_int sint_of_small)

lemma member_search_append:
  "member_search (xs @ ys) k = (case member_search xs k of None \<Rightarrow> member_search ys k | Some v \<Rightarrow> Some v)"
  by (induction xs k rule: member_search.induct) auto

lemma carried_key: "carried safe (k, v) = Some (k2, d) \<Longrightarrow> k2 = cstr k"
  by (auto simp: carried_def split: option.splits cast_result.splits if_splits)

lemma carried_cong: "cstr q = cstr k \<Longrightarrow> carried safe (q, v) = carried safe (k, v)"
  by (simp only: carried_def prod.case)

lemma member_search_None: "\<forall>(k, v) \<in> set ms. cstr k \<noteq> key \<Longrightarrow> member_search ms key = None"
  by (induction ms key rule: member_search.induct) auto

text \<open>The first entry under a key is the one that is carried, when it is readable.\<close>

lemma carried_search:
  assumes "member_search ms k = Some v" and "k \<noteq> safe" and "carried safe (k', v) \<noteq> None" and "cstr k' = k"
  shows "member_search (map (\<lambda>(k, d). (k, jvalue d)) (List.map_filter (carried safe) ms)) k =
    map_option (\<lambda>(k, d). jvalue d) (carried safe (k', v))"
  using assms(1)
proof (induction ms)
  case Nil
  then show ?case by simp
next
  case (Cons m ms)
  obtain q u where m: "m = (q, u)" by fastforce
  show ?case
  proof (cases "cstr q = k")
    case True
    with Cons.prems m have "u = v" by simp
    with True assms(4) carried_cong [of q k' safe v] have eq: "carried safe (q, u) = carried safe (k', v)" by simp
    then obtain k2 d where d: "carried safe (k', v) = Some (k2, d)" using assms(3) by fastforce
    with carried_key [OF d] assms(4) eq m show ?thesis
      using is_cstr_cstr [of k'] by (simp add: map_filter_simps)
  next
    case False
    have "cstr q' \<noteq> k" if "carried safe (q, u) = Some (q', d)" for q' d
      using carried_key [OF that] False is_cstr_cstr [of q] by simp
    with Cons m False show ?thesis
      by (auto simp: map_filter_simps split: option.splits)
  qed
qed

lemma index_entry_carried:
  assumes "index_entry (Some (JSON_OBJECT ms)) k = Some (i, a, n)" and "k \<noteq> safe"
  obtains v k' where "member_search ms k = Some v" and "cstr k' = k"
    and "carried safe (k', v) = Some (k, index_entry_doc i a (word_of_int n))"
    and "is_cstr i" and "is_cstr a"
proof -
  have get: "usbs_json_object_get (Some (JSON_OBJECT ms)) k = member_search ms k"
    by (simp add: usbs_json_object_get_def)
  obtain v where v: "member_search ms k = Some v"
    using assms(1) by (cases "member_search ms k") (auto simp: index_entry_def get Let_def usbs_json_object_get_def usbs_json_as_string_def)
  obtain idx where "idx < length ms" "cstr (fst (ms ! idx)) = k"
    using v member_search_first by blast
  then obtain k' where k': "cstr k' = k" by blast
  from assms(1) have e: "usbs_json_as_string (usbs_json_object_get (Some v) ''last_scan_id'') = Some i"
      "usbs_json_as_string (usbs_json_object_get (Some v) ''last_scan_at'') = Some a"
      "usbs_json_as_int (usbs_json_object_get (Some v) ''report_count'') = Some (Cast n)"
    by (auto simp: index_entry_def get v Let_def split: option.splits cast_result.splits)
  have c: "is_cstr i" "is_cstr a"
    using e(1,2) by (auto simp: usbs_json_as_string_def split: option.splits json_value.splits)
  obtain vi va where o: "usbs_json_object_get (Some v) ''last_scan_id'' = Some vi"
      "usbs_json_object_get (Some v) ''last_scan_at'' = Some va"
    using e(1,2) by (auto simp: usbs_json_as_string_def split: option.splits)
  have "carried safe (k', v) = Some (k, index_entry_doc i a (word_of_int n))"
    using assms(2) k' e o by (simp add: carried_def)
  with v k' c that show ?thesis by blast
qed

lemma index_doc_height: "jheight (index_doc safe ms prev) \<le> USBS_JSON_PARSE_MAX_DEPTH"
proof -
  have e: "jheight (index_entry_doc i a n) = 2" for i a n by (simp add: index_entry_doc_def)
  have "jheight d = 2" if "(k, d) \<in> set (List.map_filter (carried safe) ms)" for k d
    using that e by (auto simp: List.map_filter_def carried_def split: option.splits cast_result.splits if_splits)
  with e show ?thesis
    unfolding index_doc_def jheight_object
    by (auto simp: jheight_object USBS_JSON_PARSE_MAX_DEPTH_def simp del: jheight.simps(2))
qed

text \<open>
  C29 Rewriting index.json loses nothing it could read: the text the refresh builds parses, the
  entry of every other device that the old index gave as two strings and a count below 2^53 reads
  back the same, and the entry of the refreshed device is its last scan.
\<close>

theorem index_keeps_other_devices:
  assumes "write_index mem_always safe (Some (JSON_OBJECT ms)) prev = Some jw"
    and "length (render (index_doc safe ms prev)) < SIZE_MAX div 2"
    and prev: "is_cstr (ls_scan_id prev)" "is_cstr (ls_scanned_at prev)" "ls_report_count prev < 2 ^ 53" "is_cstr safe"
  shows "\<exists>t root. usbs_json_writer_finish jw = Inr t \<and> usbs_json_parse mem_always t = Inr root \<and>
    (\<forall>k i a n. k \<noteq> safe \<longrightarrow> index_entry (Some (JSON_OBJECT ms)) k = Some (i, a, n) \<longrightarrow> \<bar>n\<bar> < 2 ^ 53 \<longrightarrow>
       index_entry (usbs_json_object_get (Some root) ''devices'') k = Some (i, a, n)) \<and>
    (ls_found prev \<longrightarrow> index_entry (usbs_json_object_get (Some root) ''devices'') safe =
       Some (ls_scan_id prev, ls_scanned_at prev, int (ls_report_count prev)))"
proof -
  let ?root = "jvalue (index_doc safe ms prev)"
  let ?old = "map (\<lambda>(k, d). (k, jvalue d)) (List.map_filter (carried safe) ms)"
  let ?own = "if ls_found prev then [(safe, jvalue (index_entry_doc (ls_scan_id prev) (ls_scanned_at prev)
      (word_of_int (int (ls_report_count prev)))))] else []"
  have devs: "usbs_json_object_get (Some ?root) ''devices'' = Some (JSON_OBJECT (?old @ ?own))"
    by (simp add: index_doc_def usbs_json_object_get_def)
  have get: "usbs_json_object_get (Some (JSON_OBJECT l)) k = member_search l k" for l k
    by (simp add: usbs_json_object_get_def)
  have other: "index_entry (Some (JSON_OBJECT (?old @ ?own))) k = Some (i, a, n)"
    if k: "k \<noteq> safe" "index_entry (Some (JSON_OBJECT ms)) k = Some (i, a, n)" "\<bar>n\<bar> < 2 ^ 53" for k i a n
  proof -
    obtain v k' where m: "member_search ms k = Some v" "cstr k' = k"
        "carried safe (k', v) = Some (k, index_entry_doc i a (word_of_int n))" "is_cstr i" "is_cstr a"
      using index_entry_carried [OF k(2,1)] .
    have "member_search ?old k = Some (jvalue (index_entry_doc i a (word_of_int n)))"
      using carried_search [OF m(1) k(1) _ m(2)] m(3) by simp
    with m(4,5) k(3) show ?thesis
      by (intro entry_doc_reads) (simp_all add: get member_search_append)
  qed
  have "member_search ?old safe = None"
  proof -
    have "cstr k \<noteq> safe" if "(k, d) \<in> set (List.map_filter (carried safe) ms)" for k d
      using that is_cstr_cstr
      by (auto simp: List.map_filter_def carried_def split: option.splits cast_result.splits if_splits)
    then show ?thesis by (intro member_search_None) auto
  qed
  then have own: "index_entry (Some (JSON_OBJECT (?old @ ?own))) safe =
      Some (ls_scan_id prev, ls_scanned_at prev, int (ls_report_count prev))" if "ls_found prev"
    using that prev by (intro entry_doc_reads) (simp_all add: get member_search_append)
  show ?thesis
    using written_document_parses [OF index_doc_height assms(2)] write_index_calls [OF assms(1)] other own
    unfolding devs [symmetric] by blast
qed

lemma index_keeps_other_devices_witness:
  "\<exists>t root. usbs_json_writer_finish (json_run mem_always (calls_of (index_doc ''usb_3A1'' []
        \<lparr>ls_scan_id = ''ab'', ls_scanned_at = ''t'', ls_report_count = 2, ls_found = True\<rparr>)) usbs_json_writer_init) = Inr t \<and>
    usbs_json_parse mem_always t = Inr root \<and>
    index_entry (usbs_json_object_get (Some root) ''devices'') ''usb_3A1'' = Some (''ab'', ''t'', 2)"
proof -
  let ?prev = "\<lparr>ls_scan_id = ''ab'', ls_scanned_at = ''t'', ls_report_count = 2, ls_found = True\<rparr>"
  obtain jw where jw: "write_index mem_always ''usb_3A1'' (Some (JSON_OBJECT [])) ?prev = Some jw"
    by (simp add: write_index_def usbs_json_object_count_def Let_def)
  have "length (render (index_doc ''usb_3A1'' [] ?prev)) < 200" by code_simp
  then have "length (render (index_doc ''usb_3A1'' [] ?prev)) < SIZE_MAX div 2" by (simp add: SIZE_MAX_def)
  from index_keeps_other_devices [OF jw this] write_index_calls [OF jw] show ?thesis by fastforce
qed

end
