(* ===== verification/Location.thy ===== *)
theory Location
  imports Device
begin

text \<open>
  The location policy of src/core/location.c: where on an internal drive a path is. A
  \<open>component_t\<close> is the text it points at; a component array with its count is a list.
\<close>

section \<open>Components\<close>

definition LOCATION_MAX_COMPONENTS :: nat where
  "LOCATION_MAX_COMPONENTS = 96"

definition is_sep :: "char \<Rightarrow> bool" where
  "is_sep c \<longleftrightarrow> c = CHR 0x5C \<or> c = CHR ''/''"

definition comp_is :: "string \<Rightarrow> string \<Rightarrow> bool" where
  "comp_is c literal \<longleftrightarrow> length c = length literal \<and> fold_case c = fold_case literal"

definition comp_starts_with :: "string \<Rightarrow> string \<Rightarrow> bool" where
  "comp_starts_with c pre \<longleftrightarrow>
     length pre \<le> length c \<and> fold_case (take (length pre) c) = fold_case pre"

fun split_components :: "string \<Rightarrow> nat \<Rightarrow> string list" where
  "split_components p 0 = []"
| "split_components p (Suc cap) =
     (if p = [] then []
      else
        (let start = dropWhile is_sep p
         in if start = [] then []
            else takeWhile (\<lambda>c. \<not> is_sep c) start
              # split_components (dropWhile (\<lambda>c. \<not> is_sep c) start) cap))"

text \<open>\<open>seq_at\<close> runs along the literal sequence; \<open>at\<close> is \<open>at + i\<close> of the loop.\<close>

fun seq_at :: "string list \<Rightarrow> nat \<Rightarrow> string list \<Rightarrow> bool" where
  "seq_at comps at [] = True"
| "seq_at comps at (s # ss) =
     (if at \<ge> length comps \<or> \<not> comp_is (comps ! at) s then False else seq_at comps (at + 1) ss)"

section \<open>The rules\<close>

definition is_name_lower :: "char \<Rightarrow> bool" where
  "is_name_lower ch \<longleftrightarrow>
     CHR ''a'' \<le> ch \<and> ch \<le> CHR ''z'' \<or> CHR ''0'' \<le> ch \<and> ch \<le> CHR ''9'' \<or> ch = CHR ''_''"

definition scratch_marker :: string where
  "scratch_marker = ''_scratch_''"

definition is_self_test_scratch_name :: "string \<Rightarrow> bool" where
  "is_self_test_scratch_name c =
     (let marker_len = length scratch_marker; n = length c
      in if \<not> comp_starts_with c ''test_'' \<or> n < 5 + 1 + marker_len + 8 then False
         else if \<not> list_all (\<lambda>ch. is_lower_hex (lower_ascii ch)) (drop (n - 8) c) then False
         else if take marker_len (drop (n - 8 - marker_len) c) \<noteq> scratch_marker then False
         else if \<not> list_all (\<lambda>ch. is_name_lower (lower_ascii ch))
             (drop 5 (take (n - 8 - marker_len) c)) then False
         else n - 8 - marker_len > 5)"

text \<open>The loop: has a \<open>build\<close> component been seen, and the component before this one.\<close>

fun self_test_loop :: "bool \<Rightarrow> string option \<Rightarrow> string list \<Rightarrow> bool" where
  "self_test_loop seen_build prev [] = False"
| "self_test_loop seen_build prev (c # cs) =
     (let seen = seen_build \<or> comp_is c ''build''
      in if seen \<and> (case prev of None \<Rightarrow> False | Some p \<Rightarrow> comp_is p ''tests'') \<and>
            is_self_test_scratch_name c
         then True else self_test_loop seen (Some c) cs)"

definition matches_self_test_fixtures :: "string list \<Rightarrow> bool" where
  "matches_self_test_fixtures comps = self_test_loop False None comps"

definition startup_all :: "string list" where
  "startup_all = [''ProgramData'', ''Microsoft'', ''Windows'', ''Start Menu'', ''Programs'', ''Startup'']"

definition startup_user :: "string list" where
  "startup_user = [''AppData'', ''Roaming'', ''Microsoft'', ''Windows'', ''Start Menu'', ''Programs'', ''Startup'']"

definition temp_user :: "string list" where
  "temp_user = [''AppData'', ''Local'', ''Temp'']"

definition matches_user_exposed :: "string list \<Rightarrow> bool" where
  "matches_user_exposed comps =
     (if seq_at comps 0 startup_all then True
      else if length comps < 3 \<or> \<not> comp_is (comps ! 0) ''Users'' then False
      else if comp_is (comps ! 2) ''Desktop'' \<or> comp_is (comps ! 2) ''Downloads'' then True
      else if length comps \<ge> 4 \<and> comp_starts_with (comps ! 2) ''OneDrive'' \<and>
         (comp_is (comps ! 3) ''Desktop'' \<or> comp_is (comps ! 3) ''Downloads'') then True
      else seq_at comps 2 startup_user \<or> seq_at comps 2 temp_user)"

definition dependency_at :: "string list \<Rightarrow> nat \<Rightarrow> bool" where
  "dependency_at comps i \<longleftrightarrow>
     comp_is (comps ! i) ''node_modules'' \<or> comp_is (comps ! i) ''site-packages'' \<or>
     comp_is (comps ! i) ''.gradle'' \<or> comp_is (comps ! i) ''.m2'' \<or>
     comp_is (comps ! i) ''intermediates'' \<and>
       (i \<ge> 1 \<and> comp_is (comps ! (i - 1)) ''build'' \<or> i \<ge> 2 \<and> comp_is (comps ! (i - 2)) ''build'')"

definition matches_dependency_tree :: "string list \<Rightarrow> bool" where
  "matches_dependency_tree comps = list_ex (dependency_at comps) [0..<length comps]"

definition matches_recent_items :: "string list \<Rightarrow> bool" where
  "matches_recent_items comps =
     (if length comps < 5 \<or> \<not> comp_is (comps ! 0) ''Users'' \<or>
         \<not> seq_at comps 2 [''AppData'', ''Roaming''] then False
      else list_ex (\<lambda>i. comp_is (comps ! i) ''Recent'') [4..<length comps - 1])"

definition matches_os_shortcuts :: "string list \<Rightarrow> bool" where
  "matches_os_shortcuts comps \<longleftrightarrow>
     seq_at comps 0 [''ProgramData'', ''Microsoft'', ''Windows'', ''Start Menu''] \<or>
     length comps \<ge> 2 \<and> comp_is (comps ! 0) ''Users'' \<and>
       seq_at comps 2 [''AppData'', ''Roaming'', ''Microsoft'', ''Windows'', ''Start Menu'']"

section \<open>The public functions\<close>

datatype usbs_location_kind =
    USBS_LOCATION_ORDINARY | USBS_LOCATION_USER_EXPOSED | USBS_LOCATION_OS_SHORTCUTS
  | USBS_LOCATION_OS_COMPONENT_STORE | USBS_LOCATION_RECENT_ITEMS
  | USBS_LOCATION_DEPENDENCY_TREE | USBS_LOCATION_SELF_TEST_FIXTURES

definition usbs_location_policy_applies :: "usbs_device option \<Rightarrow> bool" where
  "usbs_location_policy_applies device =
     (case device of
        None \<Rightarrow> False
      | Some d \<Rightarrow> bus_type d \<noteq> USBS_BUS_USB \<and> bus_type d \<noteq> USBS_BUS_UNKNOWN)"

definition classify_components :: "string list \<Rightarrow> usbs_location_kind" where
  "classify_components comps =
     (if matches_self_test_fixtures comps then USBS_LOCATION_SELF_TEST_FIXTURES
      else if matches_user_exposed comps then USBS_LOCATION_USER_EXPOSED
      else if matches_dependency_tree comps then USBS_LOCATION_DEPENDENCY_TREE
      else if matches_recent_items comps then USBS_LOCATION_RECENT_ITEMS
      else if seq_at comps 0 [''Windows'', ''WinSxS''] then USBS_LOCATION_OS_COMPONENT_STORE
      else if matches_os_shortcuts comps then USBS_LOCATION_OS_SHORTCUTS
      else USBS_LOCATION_ORDINARY)"

definition usbs_location_classify :: "string \<Rightarrow> usbs_location_kind" where
  "usbs_location_classify relative_path =
     classify_components (split_components relative_path LOCATION_MAX_COMPONENTS)"

fun usbs_location_kind_string :: "usbs_location_kind \<Rightarrow> string" where
  "usbs_location_kind_string USBS_LOCATION_ORDINARY = ''ordinary location''"
| "usbs_location_kind_string USBS_LOCATION_USER_EXPOSED = ''user-facing location''"
| "usbs_location_kind_string USBS_LOCATION_OS_SHORTCUTS = ''Start Menu''"
| "usbs_location_kind_string USBS_LOCATION_OS_COMPONENT_STORE = ''Windows component store''"
| "usbs_location_kind_string USBS_LOCATION_RECENT_ITEMS = ''Windows Recent Items''"
| "usbs_location_kind_string USBS_LOCATION_DEPENDENCY_TREE = ''package dependency tree''"
| "usbs_location_kind_string USBS_LOCATION_SELF_TEST_FIXTURES = ''USB Sentinel test fixtures''"

definition usbs_location_relative :: "string option \<Rightarrow> string \<Rightarrow> string" where
  "usbs_location_relative volume full_path =
     (case volume of
        None \<Rightarrow> full_path
      | Some v \<Rightarrow>
          if length v > 0 \<and> take (length v) full_path = v then drop (length v) full_path else full_path)"

section \<open>Facts\<close>

lemma is_sep_lower [simp]: "is_sep (lower_ascii c) \<longleftrightarrow> is_sep c"
proof (cases "CHR ''A'' \<le> c \<and> c \<le> CHR ''Z''")
  case True
  then have "65 \<le> (of_char c :: nat)" "(of_char c :: nat) \<le> 90" by (simp_all add: less_eq_char_def)
  then have "lower_ascii c \<noteq> CHR 0x5C" "lower_ascii c \<noteq> CHR ''/''" "c \<noteq> CHR 0x5C" "c \<noteq> CHR ''/''"
    using of_char_lower_ascii [of c] by auto
  then show ?thesis by (simp add: is_sep_def)
next
  case False
  then have "lower_ascii c = c" unfolding lower_ascii_def by (rule if_not_P)
  then show ?thesis by simp
qed

lemma takeWhile_fold: "takeWhile (\<lambda>c. \<not> is_sep c) (fold_case p) = fold_case (takeWhile (\<lambda>c. \<not> is_sep c) p)"
  and dropWhile_fold: "dropWhile (\<lambda>c. \<not> is_sep c) (fold_case p) = fold_case (dropWhile (\<lambda>c. \<not> is_sep c) p)"
  and dropWhile_sep_fold: "dropWhile is_sep (fold_case p) = fold_case (dropWhile is_sep p)"
  by (simp_all add: takeWhile_map dropWhile_map comp_def)

text \<open>Splitting commutes with case folding, and goes component by component.\<close>

lemma split_components_fold: "split_components (fold_case p) cap = map fold_case (split_components p cap)"
  by (induction p cap rule: split_components.induct)
     (simp_all add: Let_def takeWhile_fold dropWhile_fold dropWhile_sep_fold)

lemma split_components_sep [simp]: "is_sep c \<Longrightarrow> split_components (c # p) cap = split_components p cap"
  by (cases cap) auto

lemma split_components_comp:
  assumes "c \<noteq> []" and "list_all (\<lambda>x. \<not> is_sep x) c" and "is_sep s"
  shows "split_components (c @ s # p) (Suc cap) = c # split_components p cap"
proof -
  have "takeWhile (\<lambda>x. \<not> is_sep x) (c @ s # p) = c" "dropWhile (\<lambda>x. \<not> is_sep x) (c @ s # p) = s # p"
    using assms by (simp_all add: takeWhile_append_stop dropWhile_append_stop)
  moreover have "dropWhile is_sep (c @ s # p) = c @ s # p" using assms by (cases c) auto
  ultimately show ?thesis using assms by simp
qed

lemma comp_is_fold: "comp_is c l \<longleftrightarrow> fold_case c = fold_case l"
  by (auto simp: comp_is_def dest: map_eq_imp_length_eq)

lemma usbs_location_relative_strip [simp]:
  "v \<noteq> [] \<Longrightarrow> usbs_location_relative (Some v) (v @ p) = p"
  by (simp add: usbs_location_relative_def)

lemma comp_is_fold_case [simp]: "comp_is (fold_case c) l = comp_is c l"
  by (simp add: comp_is_fold comp_def)

lemma comp_starts_with_fold_case [simp]: "comp_starts_with (fold_case c) l = comp_starts_with c l"
  by (simp add: comp_starts_with_def take_map comp_def)

lemma seq_at_fold_case [simp]: "seq_at (map fold_case comps) at ss = seq_at comps at ss"
  by (induction comps at ss rule: seq_at.induct) auto

lemma rules_fold_case [simp]:
  "matches_user_exposed (map fold_case comps) = matches_user_exposed comps"
  "matches_dependency_tree (map fold_case comps) = matches_dependency_tree comps"
  "matches_recent_items (map fold_case comps) = matches_recent_items comps"
  "matches_os_shortcuts (map fold_case comps) = matches_os_shortcuts comps"
proof -
  have first: "comp_is (map fold_case comps ! 0) l = comp_is (comps ! 0) l" if "comps \<noteq> []" for l
    using that by (cases comps) simp_all
  show "matches_user_exposed (map fold_case comps) = matches_user_exposed comps"
    by (cases "comps = []") (simp_all add: matches_user_exposed_def first cong: conj_cong)
  have "dependency_at (map fold_case comps) i = dependency_at comps i" if "i < length comps" for i
    using that by (auto simp: dependency_at_def less_imp_diff_less)
  then show "matches_dependency_tree (map fold_case comps) = matches_dependency_tree comps"
    by (auto simp: matches_dependency_tree_def list_ex_iff)
  have "list_ex (\<lambda>i. comp_is (map fold_case comps ! i) ''Recent'') [4..<length comps - 1] =
      list_ex (\<lambda>i. comp_is (comps ! i) ''Recent'') [4..<length comps - 1]"
    by (rule list_ex_cong) auto
  then show "matches_recent_items (map fold_case comps) = matches_recent_items comps"
    by (cases "comps = []") (simp_all add: matches_recent_items_def first)
  show "matches_os_shortcuts (map fold_case comps) = matches_os_shortcuts comps"
    by (cases "comps = []") (simp_all add: matches_os_shortcuts_def first del: seq_at.simps)
qed

lemma Ex_le_Suc2: "(\<exists>j \<le> Suc i. Q j) \<longleftrightarrow> Q 0 \<or> (\<exists>j \<le> i. Q (Suc j))"
  by (metis Suc_le_mono le0 not0_implies_Suc)

lemma self_test_loop_iff:
  "self_test_loop seen prev cs \<longleftrightarrow>
     (\<exists>i < length cs. is_self_test_scratch_name (cs ! i) \<and>
        (case (if i = 0 then prev else Some (cs ! (i - 1))) of
           None \<Rightarrow> False | Some p \<Rightarrow> comp_is p ''tests'') \<and>
        (seen \<or> (\<exists>j \<le> i. comp_is (cs ! j) ''build'')))"
proof (induction seen prev cs rule: self_test_loop.induct)
  case (1 seen prev)
  show ?case by simp
next
  case (2 seen prev c cs)
  have rec: "self_test_loop seen prev (c # cs) \<longleftrightarrow>
      (seen \<or> comp_is c ''build'') \<and> (case prev of None \<Rightarrow> False | Some p \<Rightarrow> comp_is p ''tests'') \<and>
        is_self_test_scratch_name c \<or>
      self_test_loop (seen \<or> comp_is c ''build'') (Some c) cs"
    by (auto simp: Let_def)
  have ih: "self_test_loop (seen \<or> comp_is c ''build'') (Some c) cs \<longleftrightarrow>
     (\<exists>i < length cs. is_self_test_scratch_name (cs ! i) \<and>
        (case (if i = 0 then Some c else Some (cs ! (i - 1))) of
           None \<Rightarrow> False | Some p \<Rightarrow> comp_is p ''tests'') \<and>
        ((seen \<or> comp_is c ''build'') \<or> (\<exists>j \<le> i. comp_is (cs ! j) ''build'')))"
    if "\<not> ((seen \<or> comp_is c ''build'') \<and> (case prev of None \<Rightarrow> False | Some p \<Rightarrow> comp_is p ''tests'') \<and>
        is_self_test_scratch_name c)"
    by (rule 2 [OF refl]) (use that in simp)
  show ?case
    unfolding rec using ih
    by (cases "(seen \<or> comp_is c ''build'') \<and> (case prev of None \<Rightarrow> False | Some p \<Rightarrow> comp_is p ''tests'') \<and>
        is_self_test_scratch_name c")
       (auto simp: Ex_less_Suc2 Ex_le_Suc2 nth_Cons' simp del: self_test_loop.simps)
qed

section \<open>Properties\<close>



text \<open>
  Classification ignores ASCII case: two paths that differ only in case are classified alike,
  unless one of them is a test fixture (whose \<open>_scratch_\<close> marker the code compares exactly).
\<close>

theorem classify_ignores_case:
  assumes "fold_case p = fold_case q"
    and "usbs_location_classify p \<noteq> USBS_LOCATION_SELF_TEST_FIXTURES"
    and "usbs_location_classify q \<noteq> USBS_LOCATION_SELF_TEST_FIXTURES"
  shows "usbs_location_classify p = usbs_location_classify q"
proof -
  let ?rules = "\<lambda>comps. if matches_user_exposed comps then USBS_LOCATION_USER_EXPOSED
      else if matches_dependency_tree comps then USBS_LOCATION_DEPENDENCY_TREE
      else if matches_recent_items comps then USBS_LOCATION_RECENT_ITEMS
      else if seq_at comps 0 [''Windows'', ''WinSxS''] then USBS_LOCATION_OS_COMPONENT_STORE
      else if matches_os_shortcuts comps then USBS_LOCATION_OS_SHORTCUTS
      else USBS_LOCATION_ORDINARY"
  have rules: "usbs_location_classify x = ?rules (map fold_case (split_components x LOCATION_MAX_COMPONENTS))"
    if "usbs_location_classify x \<noteq> USBS_LOCATION_SELF_TEST_FIXTURES" for x
    using that unfolding rules_fold_case seq_at_fold_case
    by (auto simp: usbs_location_classify_def classify_components_def)
  show ?thesis
    using assms(1) unfolding rules [OF assms(2)] rules [OF assms(3)]
    by (simp only: flip: split_components_fold)
qed

lemma classify_ignores_case_witness:
  "usbs_location_classify ''users/ANN/DESKTOP/a.exe'' = usbs_location_classify ''Users/ann/Desktop/A.EXE''"
  by (rule classify_ignores_case; code_simp)

text \<open>The marker itself is compared exactly: in capitals it is an ordinary place.\<close>

lemma scratch_marker_is_case_sensitive:
  "usbs_location_classify ''build/tests/test_a_scratch_00000000'' = USBS_LOCATION_SELF_TEST_FIXTURES"
  "usbs_location_classify ''build/tests/test_a_SCRATCH_00000000'' = USBS_LOCATION_ORDINARY"
  by code_simp+

text \<open>
  Precedence: whatever lies below a user's Desktop or Downloads folder keeps full severity.
  No deeper package tree, shortcut or Recent folder can move such a path into a tuned kind.
\<close>

theorem user_folders_keep_severity:
  assumes "user \<noteq> []" and "list_all (\<lambda>c. \<not> is_sep c) user" and "is_sep s"
    and "folder \<in> {''Desktop'', ''Downloads''}"
  shows "usbs_location_classify (''Users'' @ s # user @ s # folder @ s # rest) \<in>
    {USBS_LOCATION_USER_EXPOSED, USBS_LOCATION_SELF_TEST_FIXTURES}"
proof -
  have plain: "list_all (\<lambda>c. \<not> is_sep c) ''Users''" "list_all (\<lambda>c. \<not> is_sep c) folder" "folder \<noteq> []"
    using assms(4) by (auto simp: is_sep_def)
  have "split_components (''Users'' @ s # user @ s # folder @ s # rest) (Suc (Suc (Suc 93))) =
      ''Users'' # user # folder # split_components rest 93"
    using assms plain by (simp only: split_components_comp list.distinct not_False_eq_True)
  moreover have "comp_is folder ''Desktop'' \<or> comp_is folder ''Downloads''"
    using assms(4) by (auto simp: comp_is_fold)
  then have "matches_user_exposed (''Users'' # user # folder # cs)" for cs
    by (auto simp: matches_user_exposed_def comp_is_fold)
  ultimately show ?thesis
    by (simp add: usbs_location_classify_def classify_components_def LOCATION_MAX_COMPONENTS_def)
qed

lemma user_folders_keep_severity_witness:
  "usbs_location_classify (''Users'' @ CHR 0x5C # ''ann'' @ CHR 0x5C # ''Downloads'' @ CHR 0x5C # ''node_modules/x.zip.js'') \<in>
    {USBS_LOCATION_USER_EXPOSED, USBS_LOCATION_SELF_TEST_FIXTURES}"
  by (rule user_folders_keep_severity) (simp_all add: is_sep_def)

end
