(* ===== verification/SuspiciousName.thy ===== *)
theory SuspiciousName
  imports Platform Location
begin

text \<open>
  The filename detector of src/detectors/suspicious_filename.c: which disguise techniques a
  name uses, how the location policy weighs a double extension, and the finding it records.
\<close>

definition k_executable_extensions :: "string list" where
  "k_executable_extensions =
     [''exe'', ''scr'', ''bat'', ''cmd'', ''com'', ''pif'', ''vbs'', ''vbe'', ''js'', ''jse'',
      ''wsf'', ''wsh'', ''msi'', ''ps1'', ''lnk'', ''hta'', ''jar'', ''cpl'', ''msc'', ''reg'']"

definition k_native_binary_extensions :: "string list" where
  "k_native_binary_extensions = [''exe'', ''scr'', ''com'', ''pif'', ''cpl'', ''msi'']"

definition k_document_extensions :: "string list" where
  "k_document_extensions =
     [''pdf'', ''doc'', ''docx'', ''xls'', ''xlsx'', ''ppt'', ''pptx'', ''txt'', ''rtf'', ''csv'',
      ''jpg'', ''jpeg'', ''png'', ''gif'', ''bmp'', ''mp3'', ''mp4'', ''avi'', ''mov'',
      ''zip'', ''rar'', ''7z'']"

section \<open>String helpers\<close>

text \<open>The loop of \<open>str_ieq\<close>, written without folding first: the two NULs must come together.\<close>

fun str_ieq :: "string \<Rightarrow> string \<Rightarrow> bool" where
  "str_ieq [] [] = True"
| "str_ieq (a # as) (b # bs) = (if lower_ascii a \<noteq> lower_ascii b then False else str_ieq as bs)"
| "str_ieq _ _ = False"

fun in_set :: "string \<Rightarrow> string list \<Rightarrow> bool" where
  "in_set v [] = False"
| "in_set v (s # ss) = (if str_ieq v s then True else in_set v ss)"

text \<open>
  \<open>nth_extension_from_end\<close> walks a pointer down from the end; the result is the position after
  the \<open>n\<close>-th dot from the end, the C string there is \<open>drop\<close> of it.
\<close>

fun ext_loop :: "string \<Rightarrow> nat \<Rightarrow> nat \<Rightarrow> nat \<Rightarrow> nat option" where
  "ext_loop name 0 seen n = None"
| "ext_loop name (Suc p) seen n =
     (if name ! p = CHR ''.'' then
        (if seen + 1 = n then Some (Suc p) else ext_loop name p (seen + 1) n)
      else ext_loop name p seen n)"

definition nth_extension_from_end :: "string \<Rightarrow> nat \<Rightarrow> nat option" where
  "nth_extension_from_end name n = ext_loop name (length name) 0 n"

section \<open>The four rules\<close>

definition has_double_extension_disguise :: "string \<Rightarrow> nat \<Rightarrow> string option" where
  "has_double_extension_disguise name cap =
     (case nth_extension_from_end name 1 of
        None \<Rightarrow> None
      | Some last_pos \<Rightarrow>
          (let last_ext = drop last_pos name
           in if \<not> in_set last_ext k_executable_extensions then None
              else
                (case nth_extension_from_end name 2 of
                   None \<Rightarrow> None
                 | Some second_pos \<Rightarrow>
                     (let second_end = last_pos - 1
                      in if second_end \<le> second_pos then None
                         else
                           (let len = second_end - second_pos;
                                second_ext = take len (drop second_pos name)
                            in if len = 0 \<or> len \<ge> 16 then None
                               else if \<not> in_set second_ext k_document_extensions then None
                               else Some (snprintf_buf cap (''double extension disguise (.'' @ second_ext
                                      @ ''.'' @ last_ext @ '')'')))))))"

fun has_bidi_override :: "string \<Rightarrow> bool" where
  "has_bidi_override (a # b # c # rest) =
     (if a = CHR 0xE2 \<and> b = CHR 0x80 \<and> CHR 0xAA \<le> c \<and> c \<le> CHR 0xAE then True
      else has_bidi_override (b # c # rest))"
| "has_bidi_override _ = False"

fun space_run :: "string \<Rightarrow> nat \<Rightarrow> bool" where
  "space_run [] run = False"
| "space_run (c # cs) run =
     (if c = CHR '' '' then (if run + 1 \<ge> 4 then True else space_run cs (run + 1))
      else space_run cs 0)"

definition has_space_padding_before_hidden_extension :: "string \<Rightarrow> bool" where
  "has_space_padding_before_hidden_extension name =
     (case nth_extension_from_end name 1 of
        None \<Rightarrow> False
      | Some pos \<Rightarrow>
          if \<not> in_set (drop pos name) k_executable_extensions then False
          else space_run (take pos name) 0)"

section \<open>Weighing by location\<close>

datatype double_ext_verdict =
  DOUBLE_EXT_REPORT_DEFAULT | DOUBLE_EXT_REPORT_LOWERED | DOUBLE_EXT_SUPPRESSED

fun weigh_double_extension ::
  "usbs_location_kind \<Rightarrow> string \<Rightarrow> usbs_severity \<Rightarrow> double_ext_verdict \<times> usbs_severity" where
  "weigh_double_extension USBS_LOCATION_USER_EXPOSED last_ext sev =
     (DOUBLE_EXT_REPORT_DEFAULT, USBS_SEVERITY_HIGH)"
| "weigh_double_extension USBS_LOCATION_RECENT_ITEMS last_ext sev =
     (if str_ieq last_ext ''lnk'' then (DOUBLE_EXT_SUPPRESSED, sev)
      else (DOUBLE_EXT_REPORT_LOWERED, USBS_SEVERITY_WARNING))"
| "weigh_double_extension USBS_LOCATION_DEPENDENCY_TREE last_ext sev =
     (DOUBLE_EXT_REPORT_LOWERED,
      if in_set last_ext k_native_binary_extensions then USBS_SEVERITY_WARNING else USBS_SEVERITY_INFO)"
| "weigh_double_extension _ last_ext sev = (DOUBLE_EXT_REPORT_LOWERED, USBS_SEVERITY_WARNING)"

section \<open>The callback\<close>

text \<open>\<open>reasons\<close> and \<open>reasons_len\<close> of the APPEND_REASON macro.\<close>

type_synonym reason_buf = "string \<times> nat"

definition append_reason :: "string \<Rightarrow> reason_buf \<Rightarrow> reason_buf" where
  "append_reason txt b =
     (case b of (reasons, len) \<Rightarrow>
        (let piece = (if len > 0 then ''; '' else []) @ txt;
             avail = USBS_FINDING_MESSAGE_MAX - len
         in (take len reasons @ snprintf_buf avail piece,
             if piece \<noteq> [] \<and> length piece < avail then len + length piece else len)))"

text \<open>The four rules in order, each updating the locals of the C function.\<close>

record name_verdict =
  nv_reasons :: reason_buf
  nv_severity :: usbs_severity
  nv_any_high :: bool
  nv_lowered :: bool
  nv_suppressed :: bool

definition double_extension_rule ::
  "bool \<Rightarrow> usbs_location_kind \<Rightarrow> string \<Rightarrow> name_verdict \<Rightarrow> name_verdict" where
  "double_extension_rule tuned kind name v =
     (case has_double_extension_disguise name 128 of
        None \<Rightarrow> v
      | Some buf \<Rightarrow>
          if \<not> tuned then v\<lparr>nv_any_high := True, nv_reasons := append_reason buf (nv_reasons v)\<rparr>
          else
            (case nth_extension_from_end name 1 of
               None \<Rightarrow> v
             | Some pos \<Rightarrow>
                 (case weigh_double_extension kind (drop pos name) USBS_SEVERITY_HIGH of
                    (verdict, weighed) \<Rightarrow>
                      if verdict = DOUBLE_EXT_SUPPRESSED then v\<lparr>nv_suppressed := True\<rparr>
                      else
                        (let annotated =
                               (if verdict = DOUBLE_EXT_REPORT_LOWERED
                                then snprintf_buf 192 (buf @ '' [internal drive, ''
                                       @ usbs_location_kind_string kind @ '']'')
                                else snprintf_buf 192 buf);
                             v1 = (if verdict = DOUBLE_EXT_REPORT_LOWERED then v\<lparr>nv_lowered := True\<rparr> else v);
                             v2 = (if weighed = USBS_SEVERITY_HIGH then v1\<lparr>nv_any_high := True\<rparr>
                                   else if weighed > nv_severity v1 then v1\<lparr>nv_severity := weighed\<rparr>
                                   else v1)
                         in v2\<lparr>nv_reasons := append_reason annotated (nv_reasons v2)\<rparr>))))"

definition high_rule :: "bool \<Rightarrow> string \<Rightarrow> name_verdict \<Rightarrow> name_verdict" where
  "high_rule hit txt v =
     (if hit then v\<lparr>nv_any_high := True, nv_reasons := append_reason txt (nv_reasons v)\<rparr> else v)"

definition hidden_executable :: "usbs_dir_entry \<Rightarrow> bool" where
  "hidden_executable entry \<longleftrightarrow>
     is_hidden entry \<and>
     (case nth_extension_from_end (entry_name entry) 1 of
        None \<Rightarrow> False
      | Some pos \<Rightarrow> in_set (drop pos (entry_name entry)) k_executable_extensions)"

definition judge_name :: "bool \<Rightarrow> usbs_location_kind \<Rightarrow> usbs_dir_entry \<Rightarrow> name_verdict" where
  "judge_name tuned kind entry =
     (let name = entry_name entry;
          v0 = \<lparr>nv_reasons = ([], 0), nv_severity = USBS_SEVERITY_INFO, nv_any_high = False,
                nv_lowered = False, nv_suppressed = False\<rparr>;
          v1 = double_extension_rule tuned kind name v0;
          v2 = high_rule (has_bidi_override name) ''filename contains a Unicode bidi-override character'' v1;
          v3 = high_rule (has_space_padding_before_hidden_extension name)
                 ''long space padding hides the real extension'' v2;
          v4 = high_rule (hidden_executable entry) ''hidden/system-attributed executable'' v3
      in if nv_any_high v4 then v4\<lparr>nv_severity := USBS_SEVERITY_HIGH\<rparr> else v4)"

text \<open>The locals \<open>relative\<close>, \<open>tuned\<close> and \<open>kind\<close>.\<close>

definition location_context :: "detect_context option \<Rightarrow> string \<Rightarrow> string \<times> bool \<times> usbs_location_kind" where
  "location_context dctx full_path =
     (let relative = usbs_location_relative
                       (case dctx of None \<Rightarrow> None | Some d \<Rightarrow> dc_volume_path d) full_path;
          tuned = (case dctx of None \<Rightarrow> False | Some d \<Rightarrow> usbs_location_policy_applies (dc_device d))
      in (relative, tuned, if tuned then usbs_location_classify relative else USBS_LOCATION_ORDINARY))"

definition suspicious_filename_on_file ::
  "allocator \<Rightarrow> detect_context option \<Rightarrow> string \<Rightarrow> usbs_dir_entry \<Rightarrow> usbs_check_result \<Rightarrow>
     usbs_status \<times> usbs_check_result" where
  "suspicious_filename_on_file mem dctx full_path entry result =
     (case location_context dctx full_path of
        (relative, tuned, kind) \<Rightarrow>
          (let v = judge_name tuned kind entry
           in if snd (nv_reasons v) > 0 then
                (let finding = \<lparr>severity = nv_severity v,
                                f_message = snprintf_buf USBS_FINDING_MESSAGE_MAX (fst (nv_reasons v)),
                                f_path = snprintf_buf USBS_FINDING_PATH_MAX relative\<rparr>;
                     r1 = result\<lparr>findings := snd (usbs_finding_list_push mem (findings result) finding)\<rparr>
                 in (USBS_OK,
                     if nv_lowered v \<and> nv_severity v < USBS_SEVERITY_HIGH
                     then r1\<lparr>policy_lowered := policy_lowered r1 + 1\<rparr> else r1))
              else if nv_suppressed v then
                (USBS_OK, result\<lparr>policy_suppressed := policy_suppressed result + 1\<rparr>)
              else (USBS_OK, result)))"

section \<open>Facts\<close>

lemma str_ieq_fold: "str_ieq a b \<longleftrightarrow> fold_case a = fold_case b"
  by (induction a b rule: str_ieq.induct) auto

lemma in_set_iff: "in_set v ss \<longleftrightarrow> fold_case v \<in> fold_case ` set ss"
  by (induction ss) (auto simp: str_ieq_fold)

lemma in_set_fold_case [simp]: "in_set (fold_case v) ss = in_set v ss"
  by (simp add: in_set_iff comp_def)

section \<open>The reasons as a list\<close>

text \<open>What the rules find, in order, without buffers: the specification of the message.\<close>

fun semi_join :: "string list \<Rightarrow> string" where
  "semi_join [] = []"
| "semi_join [x] = x"
| "semi_join (x # y # ys) = x @ ''; '' @ semi_join (y # ys)"

definition double_reason :: "bool \<Rightarrow> usbs_location_kind \<Rightarrow> string \<Rightarrow> string list" where
  "double_reason tuned kind name =
     (case has_double_extension_disguise name 128 of
        None \<Rightarrow> []
      | Some buf \<Rightarrow>
          if \<not> tuned \<or> kind = USBS_LOCATION_USER_EXPOSED then [buf]
          else if kind = USBS_LOCATION_RECENT_ITEMS \<and>
             (case nth_extension_from_end name 1 of None \<Rightarrow> False | Some p \<Rightarrow> str_ieq (drop p name) ''lnk'')
          then []
          else [buf @ '' [internal drive, '' @ usbs_location_kind_string kind @ '']''])"

definition name_reasons :: "bool \<Rightarrow> usbs_location_kind \<Rightarrow> usbs_dir_entry \<Rightarrow> string list" where
  "name_reasons tuned kind entry =
     double_reason tuned kind (entry_name entry) @
     (if has_bidi_override (entry_name entry)
      then [''filename contains a Unicode bidi-override character''] else []) @
     (if has_space_padding_before_hidden_extension (entry_name entry)
      then [''long space padding hides the real extension''] else []) @
     (if hidden_executable entry then [''hidden/system-attributed executable''] else [])"

lemma in_set_length: "in_set v ss \<Longrightarrow> (\<And>s. s \<in> set ss \<Longrightarrow> length s \<le> n) \<Longrightarrow> length v \<le> n"
  by (induction ss) (auto simp: str_ieq_fold dest: map_eq_imp_length_eq split: if_splits)

lemma extension_lengths:
  "in_set v k_executable_extensions \<Longrightarrow> length v \<le> 3"
  "in_set v k_document_extensions \<Longrightarrow> length v \<le> 4"
proof -
  have "list_all (\<lambda>s. length s \<le> 3) k_executable_extensions"
    and "list_all (\<lambda>s. length s \<le> 4) k_document_extensions" by code_simp+
  then show "in_set v k_executable_extensions \<Longrightarrow> length v \<le> 3"
    and "in_set v k_document_extensions \<Longrightarrow> length v \<le> 4"
    by (auto simp: list_all_iff elim!: in_set_length)
qed

lemma disguise_ok:
  assumes "has_double_extension_disguise name 128 = Some buf"
  shows "buf \<noteq> []" and "length buf \<le> 37" and "nth_extension_from_end name 1 \<noteq> None"
proof -
  from assms obtain d e where b: "buf = snprintf_buf 128 (''double extension disguise (.'' @ d @ ''.'' @ e @ '')'')"
    and "in_set d k_document_extensions" "in_set e k_executable_extensions"
    by (auto simp: has_double_extension_disguise_def Let_def split: option.splits if_splits)
  then have "length d \<le> 4" "length e \<le> 3" by (auto dest: extension_lengths)
  with b show "buf \<noteq> []" "length buf \<le> 37" by simp_all
  from assms show "nth_extension_from_end name 1 \<noteq> None"
    by (auto simp: has_double_extension_disguise_def split: option.splits)
qed

lemma kind_string_length: "length (usbs_location_kind_string kind) \<le> 26"
  by (cases kind) simp_all

text \<open>A reason that fits is appended whole.\<close>

definition holds_reasons :: "reason_buf \<Rightarrow> string list \<Rightarrow> bool" where
  "holds_reasons b rs \<longleftrightarrow> fst b = semi_join rs \<and> snd b = length (semi_join rs) \<and> [] \<notin> set rs"

lemma semi_join_snoc:
  "semi_join (rs @ [x]) = (if rs = [] then x else semi_join rs @ ''; '' @ x)"
  by (induction rs rule: semi_join.induct) auto

lemma semi_join_Nil: "[] \<notin> set rs \<Longrightarrow> semi_join rs = [] \<longleftrightarrow> rs = []"
  by (cases rs rule: semi_join.cases) auto

lemma append_reason_fits:
  assumes "holds_reasons b rs" and "x \<noteq> []"
    and "length (semi_join rs) + 2 + length x < USBS_FINDING_MESSAGE_MAX"
  shows "holds_reasons (append_reason x b) (rs @ [x])"
proof -
  obtain t where b: "b = (t, length t)" and t: "t = semi_join rs" and ne: "[] \<notin> set rs"
    using assms(1) by (cases b) (auto simp: holds_reasons_def)
  show ?thesis
    using assms(2,3) ne semi_join_Nil [OF ne]
    by (auto simp: b t holds_reasons_def append_reason_def semi_join_snoc Let_def)
qed

lemma length_semi_join_snoc: "length (semi_join (rs @ [x])) \<le> length (semi_join rs) + 2 + length x"
  by (simp add: semi_join_snoc)

lemma high_rule_reasons:
  assumes "holds_reasons (nv_reasons v) rs" and "length (semi_join rs) \<le> n"
    and "n + 2 + length x < USBS_FINDING_MESSAGE_MAX" and "x \<noteq> []"
  shows "holds_reasons (nv_reasons (high_rule hit x v)) (rs @ (if hit then [x] else []))"
    and "length (semi_join (rs @ (if hit then [x] else []))) \<le> n + 2 + length x"
  using assms append_reason_fits [of "nv_reasons v" rs x] length_semi_join_snoc [of rs x]
  by (auto simp: high_rule_def)

lemma double_rule_reasons:
  assumes "nv_reasons v = ([], 0)"
  shows "holds_reasons (nv_reasons (double_extension_rule tuned kind name v)) (double_reason tuned kind name)"
    and "length (semi_join (double_reason tuned kind name)) \<le> 82"
proof -
  have empty: "holds_reasons (nv_reasons v) []" using assms by (simp add: holds_reasons_def)
  have app: "holds_reasons (append_reason x (nv_reasons v)) [x]" if "x \<noteq> []" "length x \<le> 82" for x
    using append_reason_fits [OF empty that(1)] that(2) by (simp add: USBS_FINDING_MESSAGE_MAX_def)
  show "holds_reasons (nv_reasons (double_extension_rule tuned kind name v)) (double_reason tuned kind name)"
  proof (cases "has_double_extension_disguise name 128")
    case None
    then show ?thesis using empty by (simp add: double_extension_rule_def double_reason_def)
  next
    case (Some buf)
    note ok = disguise_ok [OF Some]
    then obtain p where p: "nth_extension_from_end name 1 = Some p" by auto
    show ?thesis
      using Some p ok(1,2) empty app kind_string_length [of kind]
      by (cases kind)
         (auto simp: double_extension_rule_def double_reason_def Let_def)
  qed
  show "length (semi_join (double_reason tuned kind name)) \<le> 82"
    using disguise_ok(2) [of name] kind_string_length [of kind]
    by (fastforce simp: double_reason_def split: option.splits)
qed

lemma nv_reasons_update [simp]: "nv_reasons (if b then v\<lparr>nv_severity := s\<rparr> else v) = nv_reasons v"
  by simp

lemma judge_name_reasons:
  "holds_reasons (nv_reasons (judge_name tuned kind entry)) (name_reasons tuned kind entry)"
  "length (semi_join (name_reasons tuned kind entry)) < USBS_FINDING_MESSAGE_MAX"
proof -
  let ?n = "entry_name entry"
  define v0 where "v0 = \<lparr>nv_reasons = ([], 0), nv_severity = USBS_SEVERITY_INFO, nv_any_high = False,
                nv_lowered = False, nv_suppressed = False\<rparr>"
  have 0: "nv_reasons v0 = ([], 0)" by (simp add: v0_def)
  note s1 = double_rule_reasons [OF 0, of tuned kind ?n]
  note s2 = high_rule_reasons [OF s1, of "''filename contains a Unicode bidi-override character''" "has_bidi_override ?n"]
  note s3 = high_rule_reasons [OF s2, of "''long space padding hides the real extension''"
      "has_space_padding_before_hidden_extension ?n"]
  note s4 = high_rule_reasons [OF s3, of "''hidden/system-attributed executable''" "hidden_executable entry"]
  show "holds_reasons (nv_reasons (judge_name tuned kind entry)) (name_reasons tuned kind entry)"
    using s4(1) by (simp add: judge_name_def Let_def v0_def name_reasons_def USBS_FINDING_MESSAGE_MAX_def)
  show "length (semi_join (name_reasons tuned kind entry)) < USBS_FINDING_MESSAGE_MAX"
    using s4(2) by (simp add: name_reasons_def USBS_FINDING_MESSAGE_MAX_def)
qed

section \<open>Severity and counters\<close>

definition always_high :: "usbs_dir_entry \<Rightarrow> bool" where
  "always_high entry \<longleftrightarrow>
     has_bidi_override (entry_name entry) \<or>
     has_space_padding_before_hidden_extension (entry_name entry) \<or> hidden_executable entry"

definition name_severity :: "bool \<Rightarrow> usbs_location_kind \<Rightarrow> usbs_dir_entry \<Rightarrow> usbs_severity" where
  "name_severity tuned kind entry =
     (if always_high entry then USBS_SEVERITY_HIGH
      else if double_reason tuned kind (entry_name entry) = [] then USBS_SEVERITY_INFO
      else if \<not> tuned then USBS_SEVERITY_HIGH
      else snd (weigh_double_extension kind
             (drop (the (nth_extension_from_end (entry_name entry) 1)) (entry_name entry))
             USBS_SEVERITY_HIGH))"

definition double_lowered :: "bool \<Rightarrow> usbs_location_kind \<Rightarrow> string \<Rightarrow> bool" where
  "double_lowered tuned kind name \<longleftrightarrow>
     double_reason tuned kind name \<noteq> [] \<and> tuned \<and> kind \<noteq> USBS_LOCATION_USER_EXPOSED"

lemma severity_order [simp]:
  "\<not> (s :: usbs_severity) < USBS_SEVERITY_INFO" "\<not> USBS_SEVERITY_HIGH < s"
  "USBS_SEVERITY_INFO < USBS_SEVERITY_WARNING" "USBS_SEVERITY_INFO < USBS_SEVERITY_HIGH"
  "USBS_SEVERITY_WARNING < USBS_SEVERITY_HIGH"
  by (cases s; simp add: less_usbs_severity_def)+

lemma high_rule_fields [simp]:
  "nv_severity (high_rule hit x v) = nv_severity v" "nv_lowered (high_rule hit x v) = nv_lowered v"
  "nv_suppressed (high_rule hit x v) = nv_suppressed v"
  "nv_any_high (high_rule hit x v) \<longleftrightarrow> nv_any_high v \<or> hit"
  by (simp_all add: high_rule_def)

lemma judge_name_fields:
  "nv_severity (judge_name tuned kind entry) = name_severity tuned kind entry"
  "nv_lowered (judge_name tuned kind entry) = double_lowered tuned kind (entry_name entry)"
  "nv_suppressed (judge_name tuned kind entry) \<longleftrightarrow>
     has_double_extension_disguise (entry_name entry) 128 \<noteq> None \<and>
     double_reason tuned kind (entry_name entry) = []"
proof -
  let ?n = "entry_name entry"
  define v0 where "v0 = \<lparr>nv_reasons = ([], 0), nv_severity = USBS_SEVERITY_INFO, nv_any_high = False,
                nv_lowered = False, nv_suppressed = False\<rparr>"
  let ?v1 = "double_extension_rule tuned kind ?n v0"
  have "(if nv_any_high ?v1 then USBS_SEVERITY_HIGH else nv_severity ?v1) =
       (if double_reason tuned kind ?n = [] then USBS_SEVERITY_INFO
        else if \<not> tuned then USBS_SEVERITY_HIGH
        else snd (weigh_double_extension kind (drop (the (nth_extension_from_end ?n 1)) ?n) USBS_SEVERITY_HIGH))
      \<and> nv_lowered ?v1 = double_lowered tuned kind ?n
      \<and> nv_suppressed ?v1 = (has_double_extension_disguise ?n 128 \<noteq> None \<and> double_reason tuned kind ?n = [])"
  proof (cases "has_double_extension_disguise ?n 128")
    case None
    then show ?thesis
      by (simp add: double_extension_rule_def double_reason_def double_lowered_def v0_def)
  next
    case (Some buf)
    from disguise_ok(3) [OF Some] obtain p where p: "nth_extension_from_end ?n 1 = Some p" by auto
    show ?thesis
      using Some p
      by (cases kind)
         (auto simp: double_extension_rule_def double_reason_def double_lowered_def v0_def Let_def)
  qed
  then show "nv_severity (judge_name tuned kind entry) = name_severity tuned kind entry"
    and "nv_lowered (judge_name tuned kind entry) = double_lowered tuned kind ?n"
    and "nv_suppressed (judge_name tuned kind entry) \<longleftrightarrow>
      has_double_extension_disguise ?n 128 \<noteq> None \<and> double_reason tuned kind ?n = []"
    by (auto simp: judge_name_def name_severity_def always_high_def Let_def v0_def split: if_splits)
qed

section \<open>What the detector does\<close>

definition suspicious_spec ::
  "allocator \<Rightarrow> string \<Rightarrow> bool \<Rightarrow> usbs_location_kind \<Rightarrow> usbs_dir_entry \<Rightarrow> usbs_check_result \<Rightarrow>
     usbs_check_result" where
  "suspicious_spec mem relative tuned kind entry result =
     (let reasons = name_reasons tuned kind entry; sev = name_severity tuned kind entry
      in if reasons \<noteq> [] then
           result\<lparr>findings := snd (usbs_finding_list_push mem (findings result)
                    \<lparr>severity = sev, f_message = semi_join reasons,
                     f_path = snprintf_buf USBS_FINDING_PATH_MAX relative\<rparr>),
                  policy_lowered := policy_lowered result +
                    (if double_lowered tuned kind (entry_name entry) \<and> sev < USBS_SEVERITY_HIGH
                     then 1 else 0)\<rparr>
         else if has_double_extension_disguise (entry_name entry) 128 \<noteq> None then
           result\<lparr>policy_suppressed := policy_suppressed result + 1\<rparr>
         else result)"


text \<open>
  No location excuses the three rules without a benign producer: a name with a bidi override,
  with padding before a hidden extension, or a hidden executable is reported at HIGH on every
  device and in every folder.
\<close>

theorem always_high_is_reported_everywhere:
  assumes "always_high entry"
  shows "\<exists>message path. suspicious_filename_on_file mem dctx full_path entry result =
      (USBS_OK, result\<lparr>findings := snd (usbs_finding_list_push mem (findings result)
         \<lparr>severity = USBS_SEVERITY_HIGH, f_message = message, f_path = path\<rparr>)\<rparr>) \<and> message \<noteq> []"
proof -
  obtain relative tuned kind where ctx: "location_context dctx full_path = (relative, tuned, kind)"
    by (cases "location_context dctx full_path") auto
  let ?v = "judge_name tuned kind entry" and ?rs = "name_reasons tuned kind entry"
  have ne: "?rs \<noteq> []" using assms by (auto simp: always_high_def name_reasons_def)
  have r: "fst (nv_reasons ?v) = semi_join ?rs" "snd (nv_reasons ?v) = length (semi_join ?rs)"
      "semi_join ?rs \<noteq> []"
    using judge_name_reasons(1) [of tuned kind entry] semi_join_Nil [of ?rs] ne
    by (auto simp: holds_reasons_def)
  have sev: "nv_severity ?v = USBS_SEVERITY_HIGH"
    using assms by (simp add: judge_name_fields name_severity_def)
  show ?thesis
    using r sev judge_name_reasons(2) [of tuned kind entry]
    by (auto simp: suspicious_filename_on_file_def ctx Let_def)
qed

lemma always_high_is_reported_everywhere_witness:
  "\<exists>message path.
     suspicious_filename_on_file mem_always None ''/v/evil.exe''
       \<lparr>entry_name = ''evil.exe'', is_directory = False, is_reparse_point = False, is_hidden = True,
        size_bytes = 0\<rparr> (usbs_check_result_init ''suspicious_filename'') =
     (USBS_OK, usbs_check_result_init ''suspicious_filename''
        \<lparr>findings := snd (usbs_finding_list_push mem_always (findings (usbs_check_result_init ''suspicious_filename''))
           \<lparr>severity = USBS_SEVERITY_HIGH, f_message = message, f_path = path\<rparr>)\<rparr>) \<and> message \<noteq> []"
  by (rule always_high_is_reported_everywhere) code_simp

text \<open>
  The comment above \<open>nth_extension_from_end\<close> says the leading dot of a dotfile does not count;
  the loop counts it.
\<close>

lemma leading_dot_counts: "nth_extension_from_end ''.exe'' 1 = Some 1"
  by code_simp

end
