(* ===== verification/Sha256.thy ===== *)
theory Sha256
  imports Platform
begin

text \<open>
  The hash of src/platform/sha256.c and the streaming interface of src/platform/hash_posix.c over
  it (the backend of every POSIX host but macOS; CNG, CommonCrypto and OpenSSL are other code).
  Bytes are characters, the state is a list of eight 32-bit words, and \<open>sha_buffer\<close> holds the
  \<open>buffered\<close> bytes at the front of \<open>ctx->buffer\<close>; what lies behind them is overwritten before
  it is read.
\<close>

unbundle bit_operations_syntax

section \<open>The compression function\<close>

text \<open>The table keeps the source's rows of four.\<close>

definition k_round_constants :: "usbs_u32 list" where
  "k_round_constants = concat
    [[0x428a2f98, 0x71374491, 0xb5c0fbcf, 0xe9b5dba5],
     [0x3956c25b, 0x59f111f1, 0x923f82a4, 0xab1c5ed5],
     [0xd807aa98, 0x12835b01, 0x243185be, 0x550c7dc3],
     [0x72be5d74, 0x80deb1fe, 0x9bdc06a7, 0xc19bf174],
     [0xe49b69c1, 0xefbe4786, 0x0fc19dc6, 0x240ca1cc],
     [0x2de92c6f, 0x4a7484aa, 0x5cb0a9dc, 0x76f988da],
     [0x983e5152, 0xa831c66d, 0xb00327c8, 0xbf597fc7],
     [0xc6e00bf3, 0xd5a79147, 0x06ca6351, 0x14292967],
     [0x27b70a85, 0x2e1b2138, 0x4d2c6dfc, 0x53380d13],
     [0x650a7354, 0x766a0abb, 0x81c2c92e, 0x92722c85],
     [0xa2bfe8a1, 0xa81a664b, 0xc24b8b70, 0xc76c51a3],
     [0xd192e819, 0xd6990624, 0xf40e3585, 0x106aa070],
     [0x19a4c116, 0x1e376c08, 0x2748774c, 0x34b0bcb5],
     [0x391c0cb3, 0x4ed8aa4a, 0x5b9cca4f, 0x682e6ff3],
     [0x748f82ee, 0x78a5636f, 0x84c87814, 0x8cc70208],
     [0x90befffa, 0xa4506ceb, 0xbef9a3f7, 0xc67178f2]]"

definition rotr32 :: "usbs_u32 \<Rightarrow> nat \<Rightarrow> usbs_u32" where
  "rotr32 v bits = drop_bit bits v OR push_bit (32 - bits) v"

definition load_word :: "string \<Rightarrow> nat \<Rightarrow> usbs_u32" where
  "load_word block i =
     push_bit 24 (of_char (block ! (i * 4))) OR push_bit 16 (of_char (block ! (i * 4 + 1))) OR
     push_bit 8 (of_char (block ! (i * 4 + 2))) OR of_char (block ! (i * 4 + 3))"

definition schedule_step :: "nat \<Rightarrow> usbs_u32 list \<Rightarrow> usbs_u32 list" where
  "schedule_step i w =
     (let s0 = rotr32 (w ! (i - 15)) 7 XOR rotr32 (w ! (i - 15)) 18 XOR drop_bit 3 (w ! (i - 15));
          s1 = rotr32 (w ! (i - 2)) 17 XOR rotr32 (w ! (i - 2)) 19 XOR drop_bit 10 (w ! (i - 2))
      in w @ [w ! (i - 16) + s0 + w ! (i - 7) + s1])"

definition message_schedule :: "string \<Rightarrow> usbs_u32 list" where
  "message_schedule block = fold schedule_step [16..<64] (map (load_word block) [0..<16])"

type_synonym working = "usbs_u32 \<times> usbs_u32 \<times> usbs_u32 \<times> usbs_u32 \<times> usbs_u32 \<times> usbs_u32 \<times> usbs_u32 \<times> usbs_u32"

definition sha256_round :: "usbs_u32 list \<Rightarrow> nat \<Rightarrow> working \<Rightarrow> working" where
  "sha256_round w i = (\<lambda>(a, b, c, d, e, f, g, h).
     (let s1 = rotr32 e 6 XOR rotr32 e 11 XOR rotr32 e 25;
          ch = (e AND f) XOR (NOT e AND g);
          temp1 = h + s1 + ch + k_round_constants ! i + w ! i;
          s0 = rotr32 a 2 XOR rotr32 a 13 XOR rotr32 a 22;
          maj = (a AND b) XOR (a AND c) XOR (b AND c);
          temp2 = s0 + maj
      in (temp1 + temp2, a, b, c, d + temp1, e, f, g)))"

definition sha256_compress :: "usbs_u32 list \<Rightarrow> string \<Rightarrow> usbs_u32 list" where
  "sha256_compress st block =
     (case fold (sha256_round (message_schedule block)) [0..<64]
        (st ! 0, st ! 1, st ! 2, st ! 3, st ! 4, st ! 5, st ! 6, st ! 7) of
        (a, b, c, d, e, f, g, h) \<Rightarrow>
          [st ! 0 + a, st ! 1 + b, st ! 2 + c, st ! 3 + d,
           st ! 4 + e, st ! 5 + f, st ! 6 + g, st ! 7 + h])"

section \<open>The streaming context\<close>

record usbs_sha256 =
  sha_state :: "usbs_u32 list"
  sha_bit_count :: usbs_u64
  sha_buffer :: string

definition initial_state :: "usbs_u32 list" where
  "initial_state =
     [0x6a09e667, 0xbb67ae85, 0x3c6ef372, 0xa54ff53a, 0x510e527f, 0x9b05688c, 0x1f83d9ab, 0x5be0cd19]"

definition usbs_sha256_init :: usbs_sha256 where
  "usbs_sha256_init = \<lparr>sha_state = initial_state, sha_bit_count = 0, sha_buffer = []\<rparr>"

text \<open>The loop over whole blocks straight from the caller's buffer.\<close>

function compress_blocks :: "usbs_u32 list \<Rightarrow> string \<Rightarrow> usbs_u32 list \<times> string" where
  "compress_blocks st data =
     (if length data \<ge> 64 then compress_blocks (sha256_compress st (take 64 data)) (drop 64 data)
      else (st, data))"
  by pat_completeness auto
termination by (relation "measure (\<lambda>(s, d). length d)") auto

declare compress_blocks.simps [simp del]

definition usbs_sha256_update :: "usbs_sha256 \<Rightarrow> string \<Rightarrow> usbs_sha256" where
  "usbs_sha256_update ctx data =
     (let c0 = ctx\<lparr>sha_bit_count := sha_bit_count ctx + of_nat (length data) * 8\<rparr>;
          buffered = length (sha_buffer c0);
          (c1, rest) =
            (if buffered > 0 then
               (let need = 64 - buffered;
                    n = (if length data < need then length data else need);
                    buf = sha_buffer c0 @ take n data
                in if length buf = 64
                   then (c0\<lparr>sha_state := sha256_compress (sha_state c0) buf, sha_buffer := []\<rparr>, drop n data)
                   else (c0\<lparr>sha_buffer := buf\<rparr>, drop n data))
             else (c0, data));
          (st, tail) = compress_blocks (sha_state c1) rest;
          c2 = c1\<lparr>sha_state := st\<rparr>
      in if length tail > 0 then c2\<lparr>sha_buffer := tail\<rparr> else c2)"

definition be_bytes :: "nat \<Rightarrow> 'a::len word \<Rightarrow> string" where
  "be_bytes n v = map (\<lambda>i. char_of (unat (drop_bit (8 * (n - 1 - i)) v AND 0xFF))) [0..<n]"

definition usbs_sha256_final :: "usbs_sha256 \<Rightarrow> string" where
  "usbs_sha256_final ctx =
     (let buf = sha_buffer ctx @ [CHR 0x80];
          (st, buf1) =
            (if length buf > 56
             then (sha256_compress (sha_state ctx) (buf @ replicate (64 - length buf) CHR 0x00), [])
             else (sha_state ctx, buf));
          block = buf1 @ replicate (56 - length buf1) CHR 0x00 @ be_bytes 8 (sha_bit_count ctx)
      in concat (map (be_bytes 4) (sha256_compress st block)))"

section \<open>The platform interface (hash_posix.c)\<close>

definition SIZEOF_HASH_CTX :: nat where
  "SIZEOF_HASH_CTX = 112"

definition USBS_SHA256_HEX_LEN :: nat where
  "USBS_SHA256_HEX_LEN = 64"

definition usbs_platform_hash_begin :: "allocator \<Rightarrow> usbs_status + usbs_sha256" where
  "usbs_platform_hash_begin mem =
     (if mem SIZEOF_HASH_CTX then Inr usbs_sha256_init else Inl USBS_ERR_NO_MEMORY)"

definition usbs_platform_hash_update :: "usbs_sha256 \<Rightarrow> string \<Rightarrow> usbs_sha256" where
  "usbs_platform_hash_update ctx data = (if data = [] then ctx else usbs_sha256_update ctx data)"

definition hex_of_digest :: "string \<Rightarrow> string" where
  "hex_of_digest digest =
     concat (map (\<lambda>c. [hex_lower (of_char c div 16), hex_lower (of_char c mod 16)]) digest)"

definition usbs_platform_hash_finish :: "usbs_sha256 \<Rightarrow> string \<times> string" where
  "usbs_platform_hash_finish ctx =
     (let digest = usbs_sha256_final ctx in (digest, hex_of_digest digest))"

section \<open>The specification\<close>

text \<open>
  FIPS 180-4 on a whole message: pad with 0x80, zeroes and the 64-bit length to a multiple of 64
  bytes, then run the compression function over the blocks.
\<close>

function full_blocks :: "string \<Rightarrow> string list" where
  "full_blocks m = (if length m \<ge> 64 then take 64 m # full_blocks (drop 64 m) else [])"
  by pat_completeness auto
termination by (relation "measure length") auto

declare full_blocks.simps [simp del]

definition last_part :: "string \<Rightarrow> string" where
  "last_part m = drop (64 * (length m div 64)) m"

definition sha256_pad :: "string \<Rightarrow> string" where
  "sha256_pad m =
     m @ [CHR 0x80] @ replicate ((119 - length m mod 64) mod 64) CHR 0x00 @
     be_bytes 8 (of_nat (8 * length m) :: usbs_u64)"

definition sha256_spec :: "string \<Rightarrow> string" where
  "sha256_spec m =
     concat (map (be_bytes 4) (foldl sha256_compress initial_state (full_blocks (sha256_pad m))))"

text \<open>A context stands for the message it was fed.\<close>

definition sha_rep :: "usbs_sha256 \<Rightarrow> string \<Rightarrow> bool" where
  "sha_rep ctx m \<longleftrightarrow>
     sha_state ctx = foldl sha256_compress initial_state (full_blocks m) \<and>
     sha_buffer ctx = last_part m \<and> sha_bit_count ctx = of_nat (8 * length m)"

lemma length_last_part: "length (last_part m) < 64"
  by (simp add: last_part_def)

lemma last_part_short: "length m < 64 \<Longrightarrow> last_part m = m"
  by (simp add: last_part_def)

lemma last_part_step: "64 \<le> length m \<Longrightarrow> last_part m = last_part (drop 64 m)"
proof -
  assume "64 \<le> length m"
  then have "length m div 64 = Suc ((length m - 64) div 64)" by (simp add: le_div_geq)
  then show ?thesis by (simp add: last_part_def add.commute)
qed

lemma full_blocks_append_both:
  "full_blocks (m @ d) = full_blocks m @ full_blocks (last_part m @ d) \<and>
   last_part (m @ d) = last_part (last_part m @ d)"
proof (induction m rule: full_blocks.induct)
  case (1 m)
  show ?case
  proof (cases "64 \<le> length m")
    case True
    have "full_blocks (m @ d) = take 64 m # full_blocks (drop 64 m @ d)"
      using True by (subst full_blocks.simps) simp
    moreover have "full_blocks m = take 64 m # full_blocks (drop 64 m)"
      using True by (subst full_blocks.simps) simp
    moreover have "last_part (m @ d) = last_part (drop 64 m @ d)"
      using True last_part_step [of "m @ d"] by simp
    ultimately show ?thesis using 1 True by (simp add: last_part_step [OF True])
  next
    case False
    then show ?thesis by (simp add: last_part_short full_blocks.simps [of m])
  qed
qed

lemmas full_blocks_append =
  full_blocks_append_both [THEN conjunct1] full_blocks_append_both [THEN conjunct2]

lemma compress_blocks_eq:
  "compress_blocks st d = (foldl sha256_compress st (full_blocks d), last_part d)"
proof (induction st d rule: compress_blocks.induct)
  case (1 st d)
  show ?case
  proof (cases "64 \<le> length d")
    case True
    then show ?thesis
      using 1 by (subst compress_blocks.simps, subst full_blocks.simps) (simp add: last_part_step [OF True])
  next
    case False
    then show ?thesis
      by (simp add: compress_blocks.simps [of st d] full_blocks.simps [of d] last_part_short)
  qed
qed

lemma full_blocks_short [simp]: "length m < 64 \<Longrightarrow> full_blocks m = []"
  by (simp add: full_blocks.simps)

lemma full_blocks_first:
  "length b = 64 \<Longrightarrow> full_blocks (b @ d) = b # full_blocks d"
  "length b = 64 \<Longrightarrow> last_part (b @ d) = last_part d"
  by (subst full_blocks.simps, simp) (simp add: last_part_step)

lemma update_parts:
  assumes "length (sha_buffer ctx) < 64"
  shows "usbs_sha256_update ctx d =
    ctx\<lparr>sha_bit_count := sha_bit_count ctx + of_nat (length d) * 8,
        sha_state := foldl sha256_compress (sha_state ctx) (full_blocks (sha_buffer ctx @ d)),
        sha_buffer := last_part (sha_buffer ctx @ d)\<rparr>"
proof -
  let ?b = "sha_buffer ctx" and ?need = "64 - length (sha_buffer ctx)"
  consider (empty) "?b = []" | (part) "?b \<noteq> []" "length d < ?need" | (full) "?b \<noteq> []" "?need \<le> length d"
    by linarith
  then show ?thesis
  proof cases
    case empty
    then show ?thesis
      by (simp add: usbs_sha256_update_def Let_def compress_blocks_eq)
  next
    case part
    then have short: "length (?b @ d) < 64" by simp
    with part show ?thesis
      by (simp add: usbs_sha256_update_def Let_def compress_blocks_eq last_part_short)
  next
    case full
    let ?head = "?b @ take ?need d" and ?rest = "drop ?need d"
    have h: "length ?head = 64" using full assms by simp
    have split: "?b @ d = ?head @ ?rest" by simp
    have "full_blocks (?b @ d) = ?head # full_blocks ?rest" "last_part (?b @ d) = last_part ?rest"
      unfolding split by (rule full_blocks_first [OF h])+
    with full h show ?thesis
      by (simp add: usbs_sha256_update_def Let_def compress_blocks_eq)
  qed
qed

lemma sha_rep_init: "sha_rep usbs_sha256_init []"
  by (simp add: sha_rep_def usbs_sha256_init_def last_part_def)

lemma sha_rep_update:
  assumes "sha_rep ctx m"
  shows "sha_rep (usbs_sha256_update ctx d) (m @ d)"
proof -
  have "length (sha_buffer ctx) < 64" using assms length_last_part [of m] by (simp add: sha_rep_def)
  moreover have "of_nat (8 * length m) + of_nat (length d) * 8 = (of_nat (8 * length (m @ d)) :: usbs_u64)"
    by simp
  ultimately show ?thesis
    using update_parts [of ctx d] assms full_blocks_append [of m d]
    by (simp add: sha_rep_def foldl_append [symmetric] del: foldl_append)
qed

lemma sha_rep_platform_update: "sha_rep ctx m \<Longrightarrow> sha_rep (usbs_platform_hash_update ctx d) (m @ d)"
  by (auto simp: usbs_platform_hash_update_def sha_rep_update)

lemma sha_rep_final:
  assumes "sha_rep ctx m"
  shows "usbs_sha256_final ctx = sha256_spec m"
proof -
  let ?l = "last_part m" and ?H = "foldl sha256_compress initial_state (full_blocks m)"
  let ?len = "be_bytes 8 (of_nat (8 * length m) :: usbs_u64)"
  let ?z = "\<lambda>n. replicate n CHR 0x00"
  have ll: "length ?l = length m mod 64" by (simp add: last_part_def minus_mult_div_eq_mod)
  have len8: "length ?len = 8" by (simp add: be_bytes_def)
  have ctx: "sha_state ctx = ?H" "sha_buffer ctx = ?l" "sha_bit_count ctx = of_nat (8 * length m)"
    using assms by (simp_all add: sha_rep_def)
  define k where "k = (119 - length m mod 64) mod 64"
  have pad: "foldl sha256_compress initial_state (full_blocks (sha256_pad m)) =
      foldl sha256_compress ?H (full_blocks (?l @ [CHR 0x80] @ ?z k @ ?len))"
    by (simp add: sha256_pad_def full_blocks_append(1) [of m] k_def)
  show ?thesis
  proof (cases "length (?l @ [CHR 0x80]) > 56")
    case True
    then have r: "length m mod 64 > 55" "length m mod 64 < 64" using ll by simp_all
    then have "119 - length m mod 64 < 64" by linarith
    then have "k = 119 - length m mod 64" unfolding k_def by (rule mod_less)
    then have k: "k = (63 - length m mod 64) + 56" using r by linarith
    let ?b1 = "?l @ [CHR 0x80] @ ?z (63 - length m mod 64)" and ?b2 = "?z 56 @ ?len"
    have b1: "length ?b1 = 64" and b2: "length ?b2 = 64" using ll len8 r by simp_all
    have "?l @ [CHR 0x80] @ ?z k @ ?len = ?b1 @ ?b2" by (simp only: k replicate_add append_assoc)
    then have "full_blocks (?l @ [CHR 0x80] @ ?z k @ ?len) = [?b1, ?b2]"
      using full_blocks_first(1) [OF b1, of ?b2] full_blocks_first(1) [OF b2, of "[]"] by simp
    with True ll r pad show ?thesis
      by (simp add: usbs_sha256_final_def sha256_spec_def ctx Let_def)
  next
    case False
    then have r: "length m mod 64 \<le> 55" using ll by simp
    then have "119 - length m mod 64 = (55 - length m mod 64) + 64" by linarith
    then have "k = (55 - length m mod 64) mod 64" unfolding k_def by (simp only: mod_add_self2)
    then have k: "k = 55 - length m mod 64" by simp
    let ?b = "?l @ [CHR 0x80] @ ?z k @ ?len"
    have b: "length ?b = 64" using ll len8 r k by simp
    then have "full_blocks ?b = [?b]" using full_blocks_first(1) [OF b, of "[]"] by simp
    with False ll r k pad show ?thesis
      by (simp add: usbs_sha256_final_def sha256_spec_def ctx Let_def)
  qed
qed

section \<open>Properties\<close>

lemma sha_rep_chunks: "sha_rep ctx m \<Longrightarrow> sha_rep (foldl usbs_platform_hash_update ctx chunks) (m @ concat chunks)"
proof (induction chunks arbitrary: ctx m)
  case (Cons c chunks)
  from Cons.IH [OF sha_rep_platform_update [OF Cons.prems, of c]] show ?case by simp
qed simp

text \<open>
  C31 Streaming refines one-shot hashing: whatever chunks the caller feeds (empty ones, partial
  blocks, many blocks at once), the digest is that of the concatenated message under the padding
  and block structure of FIPS 180-4, and the hex string is its lower-case spelling.
\<close>

theorem sha256_streaming:
  "usbs_platform_hash_finish (foldl usbs_platform_hash_update usbs_sha256_init chunks) =
     (sha256_spec (concat chunks), hex_of_digest (sha256_spec (concat chunks)))"
  using sha_rep_final [OF sha_rep_chunks [OF sha_rep_init, of chunks]]
  by (simp add: usbs_platform_hash_finish_def Let_def)

lemma length_hex_of_digest: "length (hex_of_digest d) = 2 * length d"
  by (induction d) (simp_all add: hex_of_digest_def)

lemma length_sha256_compress: "length (sha256_compress st b) = 8"
  by (simp add: sha256_compress_def split: prod.split)

lemma length_foldl_compress: "length st = 8 \<Longrightarrow> length (foldl sha256_compress st bs) = 8"
  by (induction bs arbitrary: st) (simp_all add: length_sha256_compress)

lemma length_be_bytes [simp]: "length (be_bytes n v) = n"
  by (simp add: be_bytes_def)

lemma length_concat_be_bytes: "length (concat (map (be_bytes 4) ws)) = 4 * length ws"
  by (induction ws) simp_all

text \<open>
  Sizes: a digest is always 32 bytes and its hex form 64 characters, so the fixed arrays of
  the callers are filled exactly.
\<close>

theorem sha256_digest_sizes:
  "length (fst (usbs_platform_hash_finish ctx)) = 32 \<and>
   length (snd (usbs_platform_hash_finish ctx)) = USBS_SHA256_HEX_LEN"
  by (simp add: usbs_platform_hash_finish_def usbs_sha256_final_def Let_def length_hex_of_digest
      length_concat_be_bytes length_sha256_compress USBS_SHA256_HEX_LEN_def split: prod.split)

end
