(* ===== verification/Lnk.thy ===== *)
theory Lnk
  imports Sha256 Location
begin

text \<open>
  The shortcut parser and detector of src/detectors/lnk_inspect.c. The file's bytes are a
  string; the offsets are \<open>size_t\<close>, and every sum the parser forms is at most a 256 KiB file plus
  a 32-bit field, far below 2^64, so natural numbers do not wrap where the C code does not. Every
  read is guarded by \<open>in_range\<close>, as in the source; an index outside the buffer is unspecified in
  the model, so a proof that the result does not depend on what follows the buffer
  (\<open>parse_lnk_ignores_what_follows\<close>) needs every one of those guards.
\<close>

definition LNK_MAX_READ :: nat where "LNK_MAX_READ = 256 * 1024"
definition LNK_HEADER_SIZE :: nat where "LNK_HEADER_SIZE = 76"
definition LNK_TARGET_MAX :: nat where "LNK_TARGET_MAX = 520"
definition LNK_ARGS_MAX :: nat where "LNK_ARGS_MAX = 1024"

definition k_shell_link_clsid :: string where
  "k_shell_link_clsid =
     [CHR 0x01, CHR 0x14, CHR 0x02, CHR 0x00, CHR 0x00, CHR 0x00, CHR 0x00, CHR 0x00,
      CHR 0xC0, CHR 0x00, CHR 0x00, CHR 0x00, CHR 0x00, CHR 0x00, CHR 0x00, CHR 0x46]"

text \<open>LinkFlags bits by position.\<close>

definition LNK_FLAG_HAS_LINK_TARGET_ID_LIST :: usbs_u32 where "LNK_FLAG_HAS_LINK_TARGET_ID_LIST = 0x01"
definition LNK_FLAG_HAS_LINK_INFO :: usbs_u32 where "LNK_FLAG_HAS_LINK_INFO = 0x02"
definition LNK_FLAG_HAS_NAME :: usbs_u32 where "LNK_FLAG_HAS_NAME = 0x04"
definition LNK_FLAG_HAS_RELATIVE_PATH :: usbs_u32 where "LNK_FLAG_HAS_RELATIVE_PATH = 0x08"
definition LNK_FLAG_HAS_WORKING_DIR :: usbs_u32 where "LNK_FLAG_HAS_WORKING_DIR = 0x10"
definition LNK_FLAG_HAS_ARGUMENTS :: usbs_u32 where "LNK_FLAG_HAS_ARGUMENTS = 0x20"
definition LNK_FLAG_IS_UNICODE :: usbs_u32 where "LNK_FLAG_IS_UNICODE = 0x80"
definition LNK_INFO_HAS_VOLUME_AND_LOCAL_BASE_PATH :: usbs_u32 where
  "LNK_INFO_HAS_VOLUME_AND_LOCAL_BASE_PATH = 0x01"

definition has_flag :: "usbs_u32 \<Rightarrow> usbs_u32 \<Rightarrow> bool" where
  "has_flag flags bit_mask \<longleftrightarrow> flags AND bit_mask \<noteq> 0"

section \<open>Bounds-checked readers\<close>

definition in_range :: "nat \<Rightarrow> nat \<Rightarrow> nat \<Rightarrow> bool" where
  "in_range len offset count = (if count > len then False else offset \<le> len - count)"

definition byte_at :: "string \<Rightarrow> nat \<Rightarrow> nat" where
  "byte_at buf i = of_char (buf ! i)"

definition read_u16 :: "string \<Rightarrow> nat \<Rightarrow> usbs_u16 option" where
  "read_u16 buf offset =
     (if \<not> in_range (length buf) offset 2 then None
      else Some (of_nat (byte_at buf offset) OR push_bit 8 (of_nat (byte_at buf (offset + 1)))))"

definition read_u32 :: "string \<Rightarrow> nat \<Rightarrow> usbs_u32 option" where
  "read_u32 buf offset =
     (if \<not> in_range (length buf) offset 4 then None
      else Some (of_nat (byte_at buf offset) OR push_bit 8 (of_nat (byte_at buf (offset + 1))) OR
                 push_bit 16 (of_nat (byte_at buf (offset + 2))) OR
                 push_bit 24 (of_nat (byte_at buf (offset + 3)))))"

text \<open>
  The bytes do not overlap, so the disjunctions are sums; these equations are the ones the
  evaluator uses.
\<close>

lemma byte_or:
  assumes "a < 256"
  shows "(of_nat a :: 'a::len word) OR push_bit 8 w = of_nat a + 256 * w"
proof -
  have "(of_nat a :: 'a word) = take_bit 8 (of_nat a)"
    using assms by (simp add: take_bit_of_nat take_bit_nat_eq_self)
  then have "\<not> bit (of_nat a :: 'a word) n \<or> \<not> bit (push_bit 8 w) n" for n
    by (metis bit_take_bit_iff bit_push_bit_iff not_le)
  then have "(of_nat a :: 'a word) + push_bit 8 w = of_nat a OR push_bit 8 w"
    by (rule disjunctive_add)
  then show ?thesis by (simp add: push_bit_eq_mult mult.commute)
qed

lemma bytes_or2:
  "a < 256 \<Longrightarrow> (of_nat a :: 16 word) OR push_bit 8 (of_nat b) = of_nat (a + 256 * b)"
  by (simp add: byte_or)

lemma bytes_or4:
  assumes "a < 256" "b < 256" "c < 256"
  shows "(of_nat a :: 32 word) OR push_bit 8 (of_nat b) OR push_bit 16 (of_nat c) OR push_bit 24 (of_nat d) =
    of_nat (a + 256 * (b + 256 * (c + 256 * d)))"
proof -
  have "(of_nat a :: 32 word) OR push_bit 8 (of_nat b) OR push_bit 16 (of_nat c) OR push_bit 24 (of_nat d) =
      of_nat a OR push_bit 8 (of_nat b OR push_bit 8 (of_nat c OR push_bit 8 (of_nat d)))"
    by (simp add: push_bit_or or.assoc)
  with assms show ?thesis by (simp add: byte_or algebra_simps)
qed
lemma byte_at_less [simp]: "byte_at buf i < 256"
  by (simp add: byte_at_def)

lemma read_u16_code [code]:
  "read_u16 buf offset =
     (if \<not> in_range (length buf) offset 2 then None
      else Some (of_nat (byte_at buf offset + 256 * byte_at buf (offset + 1))))"
  by (simp add: read_u16_def bytes_or2 del: of_nat_add of_nat_mult)

lemma read_u32_code [code]:
  "read_u32 buf offset =
     (if \<not> in_range (length buf) offset 4 then None
      else Some (of_nat (byte_at buf offset + 256 * (byte_at buf (offset + 1) +
                   256 * (byte_at buf (offset + 2) + 256 * byte_at buf (offset + 3))))))"
  by (simp add: read_u32_def bytes_or4 del: of_nat_add of_nat_mult)

text \<open>
  The bytes from \<open>offset\<close> to the first NUL or \<open>bound\<close>, the first \<open>out_cap - 1\<close> of them kept.
\<close>

definition read_cstring_ansi :: "string \<Rightarrow> nat \<Rightarrow> nat \<Rightarrow> nat \<Rightarrow> string option" where
  "read_cstring_ansi buf bound offset out_cap =
     (if offset > bound \<or> out_cap = 0 then None
      else Some (take (out_cap - 1) (takeWhile (\<lambda>c. c \<noteq> CHR 0x00) (take (bound - offset) (drop offset buf)))))"

definition string_data_char :: "string \<Rightarrow> bool \<Rightarrow> nat \<Rightarrow> char" where
  "string_data_char buf is_unicode char_offset =
     (let low = buf ! char_offset
      in if is_unicode then
           (if byte_at buf (char_offset + 1) \<noteq> 0 \<or> byte_at buf char_offset \<ge> 128 then CHR ''?'' else low)
         else if byte_at buf char_offset \<ge> 128 then CHR ''?'' else low)"

text \<open>The new offset, and the copied characters; a skipped block passes an \<open>out_cap\<close> of 0.\<close>

definition read_string_data :: "string \<Rightarrow> nat \<Rightarrow> bool \<Rightarrow> nat \<Rightarrow> (nat \<times> string) option" where
  "read_string_data buf offset is_unicode out_cap =
     (case read_u16 buf offset of
        None \<Rightarrow> None
      | Some count16 \<Rightarrow>
          (let count = unat count16; char_size = (if is_unicode then 2 else 1);
               byte_len = count * char_size
           in if \<not> in_range (length buf) (offset + 2) byte_len then None
              else
                Some (offset + 2 + byte_len,
                  if out_cap > 0
                  then take (out_cap - 1)
                         (map (\<lambda>i. string_data_char buf is_unicode (offset + 2 + i * char_size)) [0..<count])
                  else [])))"

section \<open>The parser\<close>

text \<open>
  \<open>lnk_parsed_t\<close>: the two buffers as the C strings they hold; \<open>have_target\<close> and
  \<open>have_arguments\<close> are their being non-empty, which is how the code sets them.
\<close>

record lnk_parsed =
  target :: string
  arguments :: string

definition have_target :: "lnk_parsed \<Rightarrow> bool" where "have_target p \<longleftrightarrow> target p \<noteq> []"
definition have_arguments :: "lnk_parsed \<Rightarrow> bool" where "have_arguments p \<longleftrightarrow> arguments p \<noteq> []"

definition lnk_id_list :: "string \<Rightarrow> usbs_u32 \<Rightarrow> nat \<Rightarrow> nat option" where
  "lnk_id_list buf flags offset =
     (if \<not> has_flag flags LNK_FLAG_HAS_LINK_TARGET_ID_LIST then Some offset
      else
        (case read_u16 buf offset of
           None \<Rightarrow> None
         | Some n \<Rightarrow>
             if \<not> in_range (length buf) (offset + 2) (unat n) then None
             else Some (offset + 2 + unat n)))"

definition lnk_local_base_path :: "string \<Rightarrow> nat \<Rightarrow> nat \<Rightarrow> string option" where
  "lnk_local_base_path buf offset info_size =
     (case read_u32 buf (offset + 16) of
        None \<Rightarrow> None
      | Some path_off \<Rightarrow>
          if unat path_off \<ge> info_size then None
          else read_cstring_ansi buf (offset + info_size) (offset + unat path_off) LNK_TARGET_MAX)"

definition lnk_link_info :: "string \<Rightarrow> usbs_u32 \<Rightarrow> nat \<Rightarrow> (nat \<times> string) option" where
  "lnk_link_info buf flags offset =
     (if \<not> has_flag flags LNK_FLAG_HAS_LINK_INFO then Some (offset, [])
      else
        (case read_u32 buf offset of
           None \<Rightarrow> None
         | Some info_size \<Rightarrow>
             if \<not> in_range (length buf) offset (unat info_size) \<or> unat info_size < 4 then None
             else
               (case read_u32 buf (offset + 4) of
                  None \<Rightarrow> None
                | Some header_size \<Rightarrow>
                    (case read_u32 buf (offset + 8) of
                       None \<Rightarrow> None
                     | Some info_flags \<Rightarrow>
                         if unat header_size \<ge> 28 \<and>
                            has_flag info_flags LNK_INFO_HAS_VOLUME_AND_LOCAL_BASE_PATH then
                           map_option (\<lambda>t. (offset + unat info_size, t))
                             (lnk_local_base_path buf offset (unat info_size))
                         else Some (offset + unat info_size, [])))))"

text \<open>Skipping one optional StringData block.\<close>

definition lnk_skip :: "string \<Rightarrow> usbs_u32 \<Rightarrow> usbs_u32 \<Rightarrow> bool \<Rightarrow> nat \<Rightarrow> nat option" where
  "lnk_skip buf flags flag is_unicode offset =
     (if \<not> has_flag flags flag then Some offset
      else map_option fst (read_string_data buf offset is_unicode 0))"

definition parse_lnk :: "string \<Rightarrow> lnk_parsed option" where
  "parse_lnk buf =
     (if length buf < LNK_HEADER_SIZE then None
      else
        (case read_u32 buf 0 of
           None \<Rightarrow> None
         | Some header_size \<Rightarrow>
             if unat header_size \<noteq> LNK_HEADER_SIZE then None
             else if take 16 (drop 4 buf) \<noteq> k_shell_link_clsid then None
             else
               (case read_u32 buf 20 of
                  None \<Rightarrow> None
                | Some flags \<Rightarrow>
                    (let uni = has_flag flags LNK_FLAG_IS_UNICODE
                     in Option.bind (lnk_id_list buf flags LNK_HEADER_SIZE) (\<lambda>o1.
                        Option.bind (lnk_link_info buf flags o1) (\<lambda>(o2, tgt).
                        Option.bind (lnk_skip buf flags LNK_FLAG_HAS_NAME uni o2) (\<lambda>o3.
                        Option.bind (lnk_skip buf flags LNK_FLAG_HAS_RELATIVE_PATH uni o3) (\<lambda>o4.
                        Option.bind (lnk_skip buf flags LNK_FLAG_HAS_WORKING_DIR uni o4) (\<lambda>o5.
                          if \<not> has_flag flags LNK_FLAG_HAS_ARGUMENTS
                          then Some \<lparr>target = tgt, arguments = []\<rparr>
                          else
                            (case read_string_data buf o5 uni LNK_ARGS_MAX of
                               None \<Rightarrow> None
                             | Some (o6, args) \<Rightarrow> Some \<lparr>target = tgt, arguments = cstr args\<rparr>))))))))))"

section \<open>Heuristics\<close>

definition k_interpreter_basenames :: "string list" where
  "k_interpreter_basenames =
     [''cmd.exe'', ''powershell.exe'', ''pwsh.exe'', ''wscript.exe'', ''cscript.exe'',
      ''mshta.exe'', ''rundll32.exe'', ''regsvr32.exe'', ''certutil.exe'', ''bitsadmin.exe'']"

definition k_argument_markers :: "string list" where
  "k_argument_markers =
     [''-enc'', ''-encodedcommand'', ''-nop'', ''-noprofile'', ''-w hidden'',
      ''-windowstyle hidden'', ''iex'', ''invoke-expression'',
      ''http://'', ''https://'', ''downloadstring'', ''frombase64string'']"

fun str_ci_eq :: "string \<Rightarrow> string \<Rightarrow> bool" where
  "str_ci_eq [] [] = True"
| "str_ci_eq (a # as) (b # bs) = (if lower_ascii a \<noteq> lower_ascii b then False else str_ci_eq as bs)"
| "str_ci_eq _ _ = False"

text \<open>
  The two nested loops of \<open>str_ci_contains\<close> (autorun.c writes the same function as
  \<open>contains_ci\<close>): a position that still leaves room for the needle, and a match there.
\<close>

definition str_ci_contains :: "string \<Rightarrow> string \<Rightarrow> bool" where
  "str_ci_contains haystack needle =
     (if length needle = 0 \<or> length needle > length haystack then False
      else list_ex (\<lambda>i. fold_case (take (length needle) (drop i haystack)) = fold_case needle)
             [0..<length haystack - length needle + 1])"

definition basename_of :: "string \<Rightarrow> string" where
  "basename_of path = rev (takeWhile (\<lambda>c. c \<noteq> CHR 0x5C \<and> c \<noteq> CHR ''/'') (rev path))"

definition has_lnk_extension :: "string \<Rightarrow> bool" where
  "has_lnk_extension name =
     (let len = length name
      in if len < 4 then False
         else name ! (len - 4) = CHR ''.'' \<and>
              (name ! (len - 3) = CHR ''l'' \<or> name ! (len - 3) = CHR ''L'') \<and>
              (name ! (len - 2) = CHR ''n'' \<or> name ! (len - 2) = CHR ''N'') \<and>
              (name ! (len - 1) = CHR ''k'' \<or> name ! (len - 1) = CHR ''K''))"

datatype lnk_policy = LNK_POLICY_NONE | LNK_POLICY_ATTACK_SHAPE | LNK_POLICY_SUPPRESS_ALL

definition lnk_policy_for :: "detect_context \<Rightarrow> string \<Rightarrow> lnk_policy" where
  "lnk_policy_for dctx relative =
     (if \<not> usbs_location_policy_applies (dc_device dctx) then LNK_POLICY_NONE
      else
        (case usbs_location_classify relative of
           USBS_LOCATION_OS_SHORTCUTS \<Rightarrow> LNK_POLICY_ATTACK_SHAPE
         | USBS_LOCATION_OS_COMPONENT_STORE \<Rightarrow> LNK_POLICY_SUPPRESS_ALL
         | _ \<Rightarrow> LNK_POLICY_NONE))"

section \<open>The callback\<close>

definition push_finding ::
  "allocator \<Rightarrow> usbs_check_result \<Rightarrow> usbs_severity \<Rightarrow> string \<Rightarrow> string \<Rightarrow> usbs_check_result" where
  "push_finding mem result sev relative_path message =
     result\<lparr>findings := snd (usbs_finding_list_push mem (findings result)
        \<lparr>severity = sev, f_message = snprintf_buf USBS_FINDING_MESSAGE_MAX message,
         f_path = snprintf_buf USBS_FINDING_PATH_MAX relative_path\<rparr>)\<rparr>"

definition suppress :: "usbs_check_result \<Rightarrow> usbs_check_result" where
  "suppress result = result\<lparr>policy_suppressed := policy_suppressed result + 1\<rparr>"

text \<open>The verdict on a parsed shortcut.\<close>

definition targets_interpreter :: "lnk_parsed \<Rightarrow> bool" where
  "targets_interpreter p \<longleftrightarrow>
     have_target p \<and> list_ex (str_ci_eq (basename_of (target p))) k_interpreter_basenames"

definition matched_marker :: "lnk_parsed \<Rightarrow> string option" where
  "matched_marker p =
     (if have_arguments p then find (str_ci_contains (arguments p)) k_argument_markers else None)"

definition lnk_message :: "lnk_parsed \<Rightarrow> string option \<Rightarrow> string" where
  "lnk_message p hex =
     snprintf_buf (LNK_ARGS_MAX + LNK_TARGET_MAX + 128)
       (''target='' @ (if have_target p then target p else ''(none)'') @
        (if have_arguments p then '' arguments='' else []) @
        (if have_arguments p then arguments p else []) @
        (if targets_interpreter p then '' [interpreter target]'' else []) @
        (case matched_marker p of
           None \<Rightarrow> [] | Some m \<Rightarrow> snprintf_buf 96 ('' [suspicious argument: '' @ m @ '']'')) @
        '' sha256='' @ (case hex of None \<Rightarrow> ''(unavailable)'' | Some h \<Rightarrow> h))"

definition judge_lnk ::
  "allocator \<Rightarrow> lnk_policy \<Rightarrow> string \<Rightarrow> string \<Rightarrow> string option \<Rightarrow> usbs_check_result \<Rightarrow> usbs_check_result" where
  "judge_lnk mem policy relative content hex result =
     (case parse_lnk content of
        None \<Rightarrow>
          if policy \<noteq> LNK_POLICY_NONE then suppress result
          else push_finding mem result USBS_SEVERITY_WARNING relative
                 (snprintf_buf 192 (''malformed or corrupt .lnk file (could not parse)'' @
                    (case hex of None \<Rightarrow> [] | Some h \<Rightarrow> '', sha256='' @ h)))
      | Some p \<Rightarrow>
          (let interp = targets_interpreter p; marker = (matched_marker p \<noteq> None)
           in if (interp \<or> marker) \<and>
                 (policy = LNK_POLICY_SUPPRESS_ALL \<or>
                  policy = LNK_POLICY_ATTACK_SHAPE \<and> \<not> (interp \<and> marker))
              then suppress result
              else if interp \<or> marker
              then push_finding mem result USBS_SEVERITY_HIGH relative (lnk_message p hex)
              else result))"

text \<open>
  The read loop, with the hash fed as it goes. Each continuing iteration reads at least one
  byte, so \<open>LNK_MAX_READ + 1\<close> iterations are enough.
\<close>

fun lnk_read_loop ::
  "nat \<Rightarrow> 'w platform \<Rightarrow> nat \<Rightarrow> string \<Rightarrow> usbs_sha256 option \<Rightarrow> 'w \<Rightarrow>
     (string \<times> usbs_sha256 option \<times> 'w) option" where
  "lnk_read_loop 0 P fh buf hash w = None"
| "lnk_read_loop (Suc fuel) P fh buf hash w =
     (if length buf \<ge> LNK_MAX_READ then Some (buf, hash, w)
      else
        (case file_read P fh (LNK_MAX_READ - length buf) w of
           (Inl st, w2) \<Rightarrow> Some (buf, hash, w2)
         | (Inr bytes, w2) \<Rightarrow>
             if bytes = [] then Some (buf, hash, w2)
             else lnk_read_loop fuel P fh (buf @ bytes)
                    (map_option (\<lambda>c. usbs_platform_hash_update c bytes) hash) w2))"

definition lnk_on_file ::
  "'w platform \<Rightarrow> detect_context option \<Rightarrow> string \<Rightarrow> usbs_dir_entry \<Rightarrow> usbs_check_result \<Rightarrow> 'w \<Rightarrow>
     usbs_status \<times> usbs_check_result \<times> 'w" where
  "lnk_on_file P dctx full_path entry result w =
     (case dctx of
        None \<Rightarrow> (USBS_ERR_INVALID_ARG, result, w)
      | Some d \<Rightarrow>
          if \<not> has_lnk_extension (entry_name entry) then (USBS_OK, result, w)
          else
            (let relative = usbs_location_relative (dc_volume_path d) full_path;
                 policy = lnk_policy_for d relative
             in if unat (size_bytes entry) > LNK_MAX_READ \<and> policy \<noteq> LNK_POLICY_NONE
                then (USBS_OK, suppress result, w)
                else if unat (size_bytes entry) > LNK_MAX_READ then
                  (USBS_OK,
                   push_finding (p_mem P) result USBS_SEVERITY_WARNING relative
                     (snprintf_buf 160 (''oversized .lnk file ('' @ dec_of_nat (unat (size_bytes entry)) @
                        '' bytes), not parsed'')), w)
                else if \<not> p_mem P LNK_MAX_READ then (USBS_ERR_NO_MEMORY, result, w)
                else
                  (case file_open_read P full_path w of
                     (Inl st, w1) \<Rightarrow> (USBS_OK, result, w1)
                   | (Inr fh, w1) \<Rightarrow>
                       (let hash0 = (case usbs_platform_hash_begin (p_mem P) of
                                       Inl _ \<Rightarrow> None | Inr c \<Rightarrow> Some c)
                        in (case the (lnk_read_loop (Suc LNK_MAX_READ) P fh [] hash0 w1) of
                              (content, hash, w2) \<Rightarrow>
                                (USBS_OK,
                                 judge_lnk (p_mem P) policy relative content
                                   (map_option (\<lambda>c. snd (usbs_platform_hash_finish c)) hash) result,
                                 file_close P fh w2))))))"

section \<open>Bounds\<close>

lemma in_range_iff [simp]: "in_range len offset count \<longleftrightarrow> offset + count \<le> len"
  by (auto simp: in_range_def)

text \<open>
  A reader that succeeds has not looked past the end: appending bytes does not change it. The
  lemmas go reader by reader; \<open>reader_stable\<close> collects them.
\<close>

named_theorems reader_stable \<open>a successful read is unchanged by appended bytes\<close>

lemma byte_at_append: "i < length buf \<Longrightarrow> byte_at (buf @ ext) i = byte_at buf i"
  by (simp add: byte_at_def nth_append)

lemma read_u16_stable [reader_stable]: "read_u16 buf off = Some v \<Longrightarrow> read_u16 (buf @ ext) off = Some v"
  by (auto simp: read_u16_def byte_at_append split: if_splits)

lemma read_u32_stable [reader_stable]: "read_u32 buf off = Some v \<Longrightarrow> read_u32 (buf @ ext) off = Some v"
  by (auto simp: read_u32_def byte_at_append split: if_splits)

lemma read_cstring_stable [reader_stable]:
  "read_cstring_ansi buf bound off cap = Some t \<Longrightarrow> bound \<le> length buf \<Longrightarrow>
     read_cstring_ansi (buf @ ext) bound off cap = Some t"
  by (auto simp: read_cstring_ansi_def split: if_splits)

lemma string_data_char_stable:
  "off + (if uni then 1 else 0) < length buf \<Longrightarrow>
     string_data_char (buf @ ext) uni off = string_data_char buf uni off"
  by (auto simp: string_data_char_def Let_def byte_at_append nth_append split: if_splits)

lemma read_string_data_inv:
  assumes "read_string_data buf off uni cap = Some (o', s)"
  obtains n where "read_u16 buf off = Some n" "o' = off + 2 + unat n * (if uni then 2 else 1)"
    "o' \<le> length buf"
    "s = (if cap > 0 then take (cap - 1) (map (\<lambda>i. string_data_char buf uni
            (off + 2 + i * (if uni then 2 else 1))) [0..<unat n]) else [])"
  using assms by (auto simp: read_string_data_def Let_def split: option.splits if_splits)

lemma read_string_data_stable [reader_stable]:
  assumes "read_string_data buf off uni cap = Some (o', s)"
  shows "read_string_data (buf @ ext) off uni cap = Some (o', s)"
proof -
  obtain n where n: "read_u16 buf off = Some n" "o' = off + 2 + unat n * (if uni then 2 else 1)"
    "o' \<le> length buf"
    "s = (if cap > 0 then take (cap - 1) (map (\<lambda>i. string_data_char buf uni
            (off + 2 + i * (if uni then 2 else 1))) [0..<unat n]) else [])"
    using assms by (rule read_string_data_inv)
  have "string_data_char (buf @ ext) uni (off + 2 + i * (if uni then 2 else 1)) =
      string_data_char buf uni (off + 2 + i * (if uni then 2 else 1))" if "i < unat n" for i
    using that n(2,3) by (intro string_data_char_stable) (auto split: if_splits)
  then have chars: "map (\<lambda>i. string_data_char (buf @ ext) uni (off + 2 + i * (if uni then 2 else 1))) [0..<unat n] =
      map (\<lambda>i. string_data_char buf uni (off + 2 + i * (if uni then 2 else 1))) [0..<unat n]"
    by simp
  show ?thesis
    unfolding read_string_data_def read_u16_stable [OF n(1)] option.case Let_def chars
    using n by simp
qed

lemma lnk_id_list_stable [reader_stable]:
  "lnk_id_list buf flags off = Some o' \<Longrightarrow> lnk_id_list (buf @ ext) flags off = Some o'"
  by (cases "read_u16 buf off") (auto simp: lnk_id_list_def read_u16_stable split: if_splits)

lemma lnk_local_base_path_stable:
  "lnk_local_base_path buf off n = Some t \<Longrightarrow> off + n \<le> length buf \<Longrightarrow>
     lnk_local_base_path (buf @ ext) off n = Some t"
  by (cases "read_u32 buf (off + 16)")
     (auto simp: lnk_local_base_path_def read_u32_stable read_cstring_stable split: if_splits)

lemma lnk_link_info_stable [reader_stable]:
  assumes "lnk_link_info buf flags off = Some (o', t)"
  shows "lnk_link_info (buf @ ext) flags off = Some (o', t)"
proof (cases "has_flag flags LNK_FLAG_HAS_LINK_INFO")
  case False
  with assms show ?thesis by (simp add: lnk_link_info_def)
next
  case True
  with assms obtain a b c where r: "read_u32 buf off = Some a" "read_u32 buf (off + 4) = Some b"
      "read_u32 buf (off + 8) = Some c" and a: "off + unat a \<le> length buf" "\<not> unat a < 4"
    and rest: "(if unat b \<ge> 28 \<and> has_flag c LNK_INFO_HAS_VOLUME_AND_LOCAL_BASE_PATH
       then map_option (\<lambda>t. (off + unat a, t)) (lnk_local_base_path buf off (unat a))
       else Some (off + unat a, [])) = Some (o', t)"
    by (auto simp: lnk_link_info_def split: option.splits if_splits)
  from rest have rest': "(if unat b \<ge> 28 \<and> has_flag c LNK_INFO_HAS_VOLUME_AND_LOCAL_BASE_PATH
       then map_option (\<lambda>t. (off + unat a, t)) (lnk_local_base_path (buf @ ext) off (unat a))
       else Some (off + unat a, [])) = Some (o', t)"
    using lnk_local_base_path_stable [OF _ a(1), of _ ext] by (auto split: if_splits)
  show ?thesis
    using True a r [THEN read_u32_stable, of ext] rest'
    by (simp add: lnk_link_info_def split: if_splits)
qed

lemma lnk_skip_stable [reader_stable]:
  "lnk_skip buf flags flag uni off = Some o' \<Longrightarrow> lnk_skip (buf @ ext) flags flag uni off = Some o'"
  by (auto simp: lnk_skip_def dest: read_string_data_stable [where ext = ext] split: if_splits)

text \<open>
  C35 No over-read: a shortcut the parser accepts is parsed from its own bytes alone. Whatever lies
  behind the buffer in memory, the result is the same; so every length and offset field of the
  file was checked against the bytes in hand before it was used.
\<close>

theorem parse_lnk_ignores_what_follows:
  assumes "parse_lnk buf = Some p"
  shows "parse_lnk (buf @ ext) = Some p"
proof -
  from assms obtain flags o1 o2 tgt o3 o4 o5 where
    hd: "\<not> length buf < LNK_HEADER_SIZE" "take 16 (drop 4 buf) = k_shell_link_clsid"
      "\<exists>h. read_u32 buf 0 = Some h \<and> unat h = LNK_HEADER_SIZE" "read_u32 buf 20 = Some flags"
    and steps: "lnk_id_list buf flags LNK_HEADER_SIZE = Some o1"
      "lnk_link_info buf flags o1 = Some (o2, tgt)"
      "lnk_skip buf flags LNK_FLAG_HAS_NAME (has_flag flags LNK_FLAG_IS_UNICODE) o2 = Some o3"
      "lnk_skip buf flags LNK_FLAG_HAS_RELATIVE_PATH (has_flag flags LNK_FLAG_IS_UNICODE) o3 = Some o4"
      "lnk_skip buf flags LNK_FLAG_HAS_WORKING_DIR (has_flag flags LNK_FLAG_IS_UNICODE) o4 = Some o5"
    and last: "(if \<not> has_flag flags LNK_FLAG_HAS_ARGUMENTS then Some \<lparr>target = tgt, arguments = []\<rparr>
       else case read_string_data buf o5 (has_flag flags LNK_FLAG_IS_UNICODE) LNK_ARGS_MAX of
         None \<Rightarrow> None | Some (o6, args) \<Rightarrow> Some \<lparr>target = tgt, arguments = cstr args\<rparr>) = Some p"
    by (auto simp: parse_lnk_def Let_def bind_eq_Some_conv split: option.splits if_splits)
  have last': "(if \<not> has_flag flags LNK_FLAG_HAS_ARGUMENTS then Some \<lparr>target = tgt, arguments = []\<rparr>
       else case read_string_data (buf @ ext) o5 (has_flag flags LNK_FLAG_IS_UNICODE) LNK_ARGS_MAX of
         None \<Rightarrow> None | Some (o6, args) \<Rightarrow> Some \<lparr>target = tgt, arguments = cstr args\<rparr>) = Some p"
    using last by (auto split: option.splits if_splits dest: read_string_data_stable [where ext = ext])
  have "take 16 (drop 4 (buf @ ext)) = k_shell_link_clsid" "\<not> length (buf @ ext) < LNK_HEADER_SIZE"
    using hd(1,2) by (simp_all add: LNK_HEADER_SIZE_def)
  moreover obtain h where "read_u32 (buf @ ext) 0 = Some h" "unat h = LNK_HEADER_SIZE"
    using hd(3) read_u32_stable [where ext = ext] by blast
  ultimately show ?thesis
    using read_u32_stable [OF hd(4), of ext] 
      lnk_id_list_stable [OF steps(1), of ext] lnk_link_info_stable [OF steps(2), of ext]
      steps(3-5) [THEN lnk_skip_stable, of ext] last'
    by (simp add: parse_lnk_def Let_def)
qed

text \<open>A minimal shortcut: the header, and an argument block.\<close>

definition sample_lnk :: string where
  "sample_lnk =
     [CHR 0x4C, CHR 0x00, CHR 0x00, CHR 0x00] @ k_shell_link_clsid @
     [CHR 0x20, CHR 0x00, CHR 0x00, CHR 0x00] @ replicate 52 (CHR 0x00) @
     [CHR 0x08, CHR 0x00] @ ''-enc abc''"

lemma sample_lnk_parses: "parse_lnk sample_lnk = Some \<lparr>target = [], arguments = ''-enc abc''\<rparr>"
  by code_simp

lemma parse_lnk_ignores_what_follows_witness:
  "parse_lnk (sample_lnk @ ''junk'') = Some \<lparr>target = [], arguments = ''-enc abc''\<rparr>"
  by (rule parse_lnk_ignores_what_follows [OF sample_lnk_parses])

section \<open>Reading and judging\<close>

lemma lnk_read_loop_total:
  "0 < fuel \<Longrightarrow> LNK_MAX_READ < fuel + length buf \<Longrightarrow> \<exists>r. lnk_read_loop fuel P fh buf hash w = Some r"
proof (induction fuel P fh buf hash w rule: lnk_read_loop.induct)
  case (2 fuel P fh buf hash w)
  then show ?case by (cases fuel) (auto simp: neq_Nil_conv split: prod.splits sum.splits)
qed simp

lemma lnk_read_loop_hash:
  assumes "lnk_read_loop fuel P fh buf hash w = Some (content, hash', w')"
    and "\<forall>c. hash = Some c \<longrightarrow> sha_rep c buf"
  shows "(\<forall>c. hash' = Some c \<longrightarrow> sha_rep c content) \<and> (hash' = None \<longleftrightarrow> hash = None)"
  using assms
proof (induction fuel P fh buf hash w rule: lnk_read_loop.induct)
  case (2 fuel P fh buf hash w)
  show ?case
  proof (cases "LNK_MAX_READ \<le> length buf")
    case True
    with 2 show ?thesis by auto
  next
    case False
    obtain r w2 where r: "file_read P fh (LNK_MAX_READ - length buf) w = (r, w2)" by fastforce
    show ?thesis
    proof (cases r)
      case (Inl st)
      with 2 False r show ?thesis by auto
    next
      case (Inr bytes)
      show ?thesis
      proof (cases "bytes = []")
        case True
        with 2 False r Inr show ?thesis by auto
      next
        case ne: False
        have "\<forall>c. map_option (\<lambda>c. usbs_platform_hash_update c bytes) hash = Some c \<longrightarrow> sha_rep c (buf @ bytes)"
          using 2(3) sha_rep_platform_update by auto
        with 2(1) [OF False r [symmetric] Inr ne] 2(2) False r Inr ne show ?thesis by auto
      qed
    qed
  qed
qed simp

lemma lnk_read_loop_length:
  assumes "lnk_read_loop fuel P fh buf hash w = Some (content, hash', w')"
    and "reads_bounded P" and "length buf \<le> LNK_MAX_READ"
  shows "length content \<le> LNK_MAX_READ"
  using assms
proof (induction fuel P fh buf hash w rule: lnk_read_loop.induct)
  case (2 fuel P fh buf hash w)
  show ?case
  proof (cases "LNK_MAX_READ \<le> length buf")
    case True
    with 2 show ?thesis by simp
  next
    case False
    obtain r w2 where r: "file_read P fh (LNK_MAX_READ - length buf) w = (r, w2)" by fastforce
    show ?thesis
    proof (cases r)
      case (Inl st)
      with 2 False r show ?thesis by auto
    next
      case (Inr bytes)
      then have "length bytes \<le> LNK_MAX_READ - length buf"
        using 2(3) r unfolding reads_bounded_def by blast
      with 2 False r Inr show ?thesis by (cases "bytes = []") auto
    qed
  qed
qed simp

text \<open>
  The read loop ends within its fuel, keeps to the 256 KiB buffer, and the SHA-256 it feeds on
  the way is the hash of exactly the bytes that are then parsed.
\<close>

theorem lnk_read_and_hash:
  assumes "reads_bounded P"
  shows "\<exists>content hash w'.
    lnk_read_loop (Suc LNK_MAX_READ) P fh [] (Some usbs_sha256_init) w = Some (content, Some hash, w') \<and>
    length content \<le> LNK_MAX_READ \<and>
    snd (usbs_platform_hash_finish hash) = hex_of_digest (sha256_spec content)"
proof -
  obtain content hash' w' where
    r: "lnk_read_loop (Suc LNK_MAX_READ) P fh [] (Some usbs_sha256_init) w = Some (content, hash', w')"
    using lnk_read_loop_total [of "Suc LNK_MAX_READ" "[]" P fh "Some usbs_sha256_init" w] by auto
  from lnk_read_loop_hash [OF r] obtain hash where h: "hash' = Some hash" "sha_rep hash content"
    using sha_rep_init by auto
  have "length content \<le> LNK_MAX_READ" by (rule lnk_read_loop_length [OF r assms]) simp
  with r h sha_rep_final [OF h(2)] show ?thesis
    by (auto simp: usbs_platform_hash_finish_def Let_def)
qed

lemma lnk_read_and_hash_witness:
  "\<exists>content hash w'.
    lnk_read_loop (Suc LNK_MAX_READ) fixture_platform 1 [] (Some usbs_sha256_init) [''ab'', ''c''] = Some (content, Some hash, w') \<and>
    length content \<le> LNK_MAX_READ \<and>
    snd (usbs_platform_hash_finish hash) = hex_of_digest (sha256_spec content)"
  by (rule lnk_read_and_hash [OF fixture_reads_bounded])

text \<open>
  The attack shape, an interpreter target together with a suspicious argument, is reported at
  HIGH on every device and in every location except the Windows component store.
\<close>

theorem attack_shape_is_reported:
  assumes "parse_lnk content = Some p" and "targets_interpreter p" and "matched_marker p \<noteq> None"
    and "policy \<noteq> LNK_POLICY_SUPPRESS_ALL"
  shows "judge_lnk mem policy relative content hex result =
    push_finding mem result USBS_SEVERITY_HIGH relative (lnk_message p hex)"
  using assms by (simp add: judge_lnk_def Let_def)

text \<open>A shortcut with a local base path and an argument.\<close>

definition attack_lnk :: string where
  "attack_lnk =
     [CHR 0x4C, CHR 0x00, CHR 0x00, CHR 0x00] @ k_shell_link_clsid @
     [CHR 0x22, CHR 0x00, CHR 0x00, CHR 0x00] @ replicate 52 (CHR 0x00) @
     [CHR 0x28, CHR 0x00, CHR 0x00, CHR 0x00, CHR 0x1C, CHR 0x00, CHR 0x00, CHR 0x00,
      CHR 0x01, CHR 0x00, CHR 0x00, CHR 0x00, CHR 0x00, CHR 0x00, CHR 0x00, CHR 0x00,
      CHR 0x1C, CHR 0x00, CHR 0x00, CHR 0x00, CHR 0x00, CHR 0x00, CHR 0x00, CHR 0x00,
      CHR 0x00, CHR 0x00, CHR 0x00, CHR 0x00] @ ''C:'' @ [CHR 0x5C] @ ''CMD.exe'' @ replicate 2 (CHR 0x00) @
     [CHR 0x04, CHR 0x00] @ ''-Nop''"

lemma attack_lnk_parses:
  "parse_lnk attack_lnk = Some \<lparr>target = ''C:'' @ [CHR 0x5C] @ ''CMD.exe'', arguments = ''-Nop''\<rparr>"
  by code_simp

lemma attack_shape_is_reported_witness:
  "judge_lnk mem_always LNK_POLICY_ATTACK_SHAPE ''a.lnk'' attack_lnk None (usbs_check_result_init ''lnk_inspection'') =
    push_finding mem_always (usbs_check_result_init ''lnk_inspection'') USBS_SEVERITY_HIGH ''a.lnk''
      (lnk_message \<lparr>target = ''C:'' @ [CHR 0x5C] @ ''CMD.exe'', arguments = ''-Nop''\<rparr> None)"
  by (rule attack_shape_is_reported [OF attack_lnk_parses]) (code_simp, code_simp, simp)

text \<open>
  On a USB device nothing is tuned out: a parsed shortcut yields a finding exactly when it
  targets an interpreter or carries a suspicious argument, a malformed one is always reported,
  and the suppression counter never moves.
\<close>

theorem usb_shortcuts_are_not_tuned:
  assumes "\<not> usbs_location_policy_applies (dc_device d)"
  shows "lnk_policy_for d relative = LNK_POLICY_NONE \<and>
    judge_lnk mem LNK_POLICY_NONE relative content hex result =
      (case parse_lnk content of
         None \<Rightarrow> push_finding mem result USBS_SEVERITY_WARNING relative
           (snprintf_buf 192 (''malformed or corrupt .lnk file (could not parse)'' @
              (case hex of None \<Rightarrow> [] | Some h \<Rightarrow> '', sha256='' @ h)))
       | Some p \<Rightarrow>
           if targets_interpreter p \<or> matched_marker p \<noteq> None
           then push_finding mem result USBS_SEVERITY_HIGH relative (lnk_message p hex) else result)"
  using assms by (auto simp: lnk_policy_for_def judge_lnk_def Let_def split: option.splits)

lemma usb_shortcuts_are_not_tuned_witness:
  "lnk_policy_for \<lparr>dc_device = Some sample_stick, dc_volume_path = Some ''/'',
       dc_capabilities = \<lparr>can_read_raw_volume = False, can_read_physical_disk = False\<rparr>\<rparr> ''x.lnk'' = LNK_POLICY_NONE"
  using usb_shortcuts_are_not_tuned [of "\<lparr>dc_device = Some sample_stick, dc_volume_path = Some ''/'',
       dc_capabilities = \<lparr>can_read_raw_volume = False, can_read_physical_disk = False\<rparr>\<rparr>"]
  by (simp add: usbs_location_policy_applies_def sample_stick_def)

text \<open>
  The finding's message field is smaller than the message built for it: a long target pushes the
  marker and the hash out of the report.
\<close>

lemma long_target_hides_the_evidence:
  "f_message (hd (v_items (findings (push_finding mem_always (usbs_check_result_init ''lnk_inspection'')
       USBS_SEVERITY_HIGH ''a.lnk''
       (lnk_message \<lparr>target = replicate 300 (CHR ''a''), arguments = ''-enc x''\<rparr> (Some ''00'')))))) =
     ''target='' @ replicate 248 (CHR ''a'')"
  by code_simp

end
