(* ===== verification/SignatureList.thy ===== *)
theory SignatureList
  imports Platform "HOL-Library.Multiset"
begin

text \<open>
  The signature file of src/detectors/signature_list.c: reading the file up to a cap, parsing
  one \<open>sha256:size:name\<close> entry per line, sorting by sz and looking an entry up by binary
  search. \<open>qsort\<close> is the C library's: it permutes and sorts, but the order of entries of equal
  sz is its own choice, so it is an argument \<open>srt\<close> of the loader.
\<close>

section \<open>Types\<close>

definition USBS_SIGNATURE_FILE_MAX_READ :: nat where
  "USBS_SIGNATURE_FILE_MAX_READ = 64 * 1024 * 1024"

definition USBS_SIGNATURE_HASH_LEN :: nat where "USBS_SIGNATURE_HASH_LEN = 64"
definition USBS_SIGNATURE_NAME_MAX :: nat where "USBS_SIGNATURE_NAME_MAX = 160"
definition SIZEOF_SIGNATURE :: nat where "SIZEOF_SIGNATURE = 240"

record usbs_signature =
  sha256_hex :: string
  sig_size :: usbs_u64
  sig_name :: string

type_synonym usbs_signature_list = "usbs_signature vec"

definition usbs_signature_list_init :: usbs_signature_list where
  "usbs_signature_list_init = vec_init"

definition usbs_signature_list_free :: "usbs_signature_list \<Rightarrow> usbs_signature_list" where
  "usbs_signature_list_free l = vec_init"

definition push_entry ::
  "allocator \<Rightarrow> usbs_signature_list \<Rightarrow> usbs_signature \<Rightarrow> usbs_status \<times> usbs_signature_list" where
  "push_entry = vec_push 64 SIZEOF_SIGNATURE True"

interpretation signature_entries: growable_array push_entry v_items v_capacity usbs_signature_list_init
  unfolding push_entry_def usbs_signature_list_init_def by (rule growable_vec_push) simp

section \<open>Reading the fh\<close>

text \<open>
  The read loop. Every iteration that continues has read at least one byte, so \<open>fuel\<close> bounds
  the iterations: the cap plus one is enough, as \<open>read_loop_fuel\<close> shows. Out of fuel is \<open>None\<close>.
\<close>

definition grown_cap :: "nat \<Rightarrow> nat \<Rightarrow> nat" where
  "grown_cap cap len =
     (if len + 65536 > cap then
        (let new_cap = (if cap = 0 then 65536 else cap * 2)
         in if new_cap > USBS_SIGNATURE_FILE_MAX_READ + 65536
            then USBS_SIGNATURE_FILE_MAX_READ + 65536 else new_cap)
      else cap)"

fun read_loop ::
  "nat \<Rightarrow> 'w platform \<Rightarrow> nat \<Rightarrow> string \<Rightarrow> nat \<Rightarrow> 'w \<Rightarrow> ((usbs_status + string) \<times> 'w) option" where
  "read_loop 0 P fh buf cap w = None"
| "read_loop (Suc fuel) P fh buf cap w =
     (let len = length buf
      in if len \<ge> USBS_SIGNATURE_FILE_MAX_READ then Some (Inr buf, file_close P fh w)
         else
           (let cap2 = grown_cap cap len
            in if len + 65536 > cap \<and> \<not> p_mem P cap2
               then Some (Inl USBS_ERR_NO_MEMORY, file_close P fh w)
               else
                 (case file_read P fh (cap2 - len) w of
                    (Inl st, w2) \<Rightarrow> Some (Inl st, file_close P fh w2)
                  | (Inr bytes, w2) \<Rightarrow>
                      if bytes = [] then Some (Inr buf, file_close P fh w2)
                      else read_loop fuel P fh (buf @ bytes) cap2 w2)))"

definition read_whole_file_capped ::
  "'w platform \<Rightarrow> string \<Rightarrow> 'w \<Rightarrow> (usbs_status + string) \<times> 'w" where
  "read_whole_file_capped P path w =
     (case file_open_read P path w of
        (Inl st, w1) \<Rightarrow> (Inl st, w1)
      | (Inr fh, w1) \<Rightarrow> the (read_loop (Suc USBS_SIGNATURE_FILE_MAX_READ) P fh [] 0 w1))"

section \<open>Parsing a line\<close>

datatype line_result = LINE_SKIP_QUIET | LINE_MALFORMED | LINE_OK usbs_signature

definition is_blank :: "char \<Rightarrow> bool" where
  "is_blank c \<longleftrightarrow> c = CHR '' '' \<or> c = CHR 0x09"

definition is_trailing :: "char \<Rightarrow> bool" where
  "is_trailing c \<longleftrightarrow> c = CHR 0x0D \<or> c = CHR 0x0A \<or> c = CHR '' '' \<or> c = CHR 0x09"

text \<open>The normalisation loop over the hash field: \<open>None\<close> is its LINE_MALFORMED exit.\<close>

fun normalize_hash :: "string \<Rightarrow> string option" where
  "normalize_hash [] = Some []"
| "normalize_hash (c # cs) =
     (if CHR ''A'' \<le> c \<and> c \<le> CHR ''F'' then map_option ((#) (lower_ascii c)) (normalize_hash cs)
      else if \<not> is_lower_hex c then None
      else map_option ((#) c) (normalize_hash cs))"

text \<open>
  \<open>strtoull(s, \<dots>, 10)\<close>: blanks, an optional sign, digits; a negative number is negated
  modulo 2^64 and a number above ULLONG_MAX yields ULLONG_MAX (whatever its sign). The second
  component is what follows the converted text, everything when there are no digits.
\<close>

definition c_strtoull :: "string \<Rightarrow> usbs_u64 \<times> string" where
  "c_strtoull s =
     (let t = dropWhile is_c_space s;
          neg = (t \<noteq> [] \<and> hd t = CHR ''-'');
          u = (if t \<noteq> [] \<and> (hd t = CHR ''-'' \<or> hd t = CHR ''+'') then tl t else t);
          ds = takeWhile is_digit u;
          n = nat_of_digits ds
      in if ds = [] then (0, s)
         else (if n \<ge> 2 ^ 64 then - 1 else if neg then - of_nat n else of_nat n,
               dropWhile is_digit u))"

definition strip_trailing :: "string \<Rightarrow> string" where
  "strip_trailing s = rev (dropWhile is_trailing (rev s))"

definition parse_line :: "string \<Rightarrow> line_result" where
  "parse_line line =
     (let p = dropWhile is_blank line
      in if p = [] \<or> hd p = CHR ''#'' \<or> hd p = CHR 0x0D then LINE_SKIP_QUIET
         else
           (case split_first CHR '':'' p of
              None \<Rightarrow> LINE_MALFORMED
            | Some (hash, after_hash) \<Rightarrow>
                if length hash \<noteq> USBS_SIGNATURE_HASH_LEN then LINE_MALFORMED
                else
                  (case split_first CHR '':'' after_hash of
                     None \<Rightarrow> LINE_MALFORMED
                   | Some (size_field, after_size) \<Rightarrow>
                       if length size_field = 0 \<or> length size_field \<ge> 32 then LINE_MALFORMED
                       else
                         (let name = strip_trailing after_size
                          in if name = [] then LINE_MALFORMED
                             else
                               (case normalize_hash hash of
                                  None \<Rightarrow> LINE_MALFORMED
                                | Some hex \<Rightarrow>
                                    (case c_strtoull (cstr size_field) of
                                       (size_val, rest) \<Rightarrow>
                                         if rest \<noteq> [] \<or> CHR 0x00 \<in> set size_field then LINE_MALFORMED
                                         else
                                           LINE_OK \<lparr>sha256_hex = hex, sig_size = size_val,
                                             sig_name = cstr (take (USBS_SIGNATURE_NAME_MAX - 1) name)\<rparr>))))))"

section \<open>Loading\<close>

text \<open>
  The line loop: it ends early only when a push finds no memory. The counts of malformed lines
  go to the log alone.
\<close>

function load_lines ::
  "allocator \<Rightarrow> usbs_signature_list \<Rightarrow> string \<Rightarrow> usbs_signature_list" where
  "load_lines mem l [] = l"
| "load_lines mem l (c # cs) =
     (let (line, rest) = (case split_first CHR 0x0A (c # cs) of
                            None \<Rightarrow> (c # cs, [])
                          | Some (a, b) \<Rightarrow> (a, b))
      in (case parse_line line of
            LINE_OK entry \<Rightarrow>
              (case push_entry mem l entry of
                 (st, l2) \<Rightarrow> if \<not> usbs_ok st then l2 else load_lines mem l2 rest)
          | _ \<Rightarrow> load_lines mem l rest))"
  by pat_completeness auto
termination
  by (relation "measure (\<lambda>(mem, l, s). length s)")
     (auto simp del: split_first.simps split: option.splits dest!: length_split_first)

definition usbs_signature_list_load ::
  "(usbs_signature list \<Rightarrow> usbs_signature list) \<Rightarrow> 'w platform \<Rightarrow> usbs_signature_list \<Rightarrow> string \<Rightarrow> 'w \<Rightarrow>
     usbs_status \<times> usbs_signature_list \<times> 'w" where
  "usbs_signature_list_load srt P l path w =
     (case read_whole_file_capped P path w of
        (Inl st, w1) \<Rightarrow> (st, l, w1)
      | (Inr buf, w1) \<Rightarrow>
          (let l2 = load_lines (p_mem P) l buf
           in (USBS_OK, if v_items l2 \<noteq> [] then l2\<lparr>v_items := srt (v_items l2)\<rparr> else l2, w1)))"

section \<open>Lookup\<close>

function lower_bound_loop :: "usbs_signature list \<Rightarrow> usbs_u64 \<Rightarrow> nat \<Rightarrow> nat \<Rightarrow> nat" where
  "lower_bound_loop es sz lo hi =
     (if lo < hi then
        (let mid = lo + (hi - lo) div 2
         in if sig_size (es ! mid) < sz then lower_bound_loop es sz (mid + 1) hi
            else lower_bound_loop es sz lo mid)
      else lo)"
  by pat_completeness auto
termination by (relation "measure (\<lambda>(es, s, lo, hi). hi - lo)") auto

declare lower_bound_loop.simps [simp del]

definition lower_bound_by_size :: "usbs_signature_list \<Rightarrow> usbs_u64 \<Rightarrow> nat" where
  "lower_bound_by_size l sz = lower_bound_loop (v_items l) sz 0 (length (v_items l))"

text \<open>The scan over the run of entries of the wanted size.\<close>

fun scan_run :: "usbs_signature list \<Rightarrow> usbs_u64 \<Rightarrow> string \<Rightarrow> string option" where
  "scan_run [] sz hex = None"
| "scan_run (e # es) sz hex =
     (if sig_size e \<noteq> sz then None
      else if sha256_hex e = hex then Some (sig_name e) else scan_run es sz hex)"

definition usbs_signature_list_lookup ::
  "usbs_signature_list \<Rightarrow> usbs_u64 \<Rightarrow> string \<Rightarrow> string option" where
  "usbs_signature_list_lookup l sz hex =
     (if v_items l = [] then None
      else scan_run (drop (lower_bound_by_size l sz) (v_items l)) sz hex)"

definition usbs_signature_list_has_size :: "usbs_signature_list \<Rightarrow> usbs_u64 \<Rightarrow> bool" where
  "usbs_signature_list_has_size l sz =
     (if v_items l = [] then False
      else
        (let lo = lower_bound_by_size l sz
         in lo < length (v_items l) \<and> sig_size (v_items l ! lo) = sz))"

section \<open>Binary search\<close>

abbreviation sorted_by_size :: "usbs_signature list \<Rightarrow> bool" where
  "sorted_by_size es \<equiv> sorted (map sig_size es)"

lemma lower_bound_loop_correct:
  assumes "sorted_by_size es" and "lo \<le> hi" and "hi \<le> length es"
    and "\<And>i. i < lo \<Longrightarrow> sig_size (es ! i) < sz"
    and "\<And>i. hi \<le> i \<Longrightarrow> i < length es \<Longrightarrow> sz \<le> sig_size (es ! i)"
  shows "lower_bound_loop es sz lo hi \<le> length es \<and>
    (\<forall>i < lower_bound_loop es sz lo hi. sig_size (es ! i) < sz) \<and>
    (\<forall>i < length es. lower_bound_loop es sz lo hi \<le> i \<longrightarrow> sz \<le> sig_size (es ! i))"
  using assms
proof (induction es sz lo hi rule: lower_bound_loop.induct)
  case (1 es sz lo hi)
  show ?case
  proof (cases "lo < hi")
    case False
    then have "lower_bound_loop es sz lo hi = lo" by (simp add: lower_bound_loop.simps [of es sz lo hi])
    with False 1(4-7) show ?thesis by auto
  next
    case True
    let ?mid = "lo + (hi - lo) div 2"
    have mid: "lo \<le> ?mid" "?mid < hi" using True by auto
    have mono: "sig_size (es ! i) \<le> sig_size (es ! j)" if "i \<le> j" "j < length es" for i j
      using 1(3) that sorted_nth_mono [of "map sig_size es" i j] by simp
    show ?thesis
    proof (cases "sig_size (es ! ?mid) < sz")
      case less: True
      have "sig_size (es ! i) < sz" if "i < ?mid + 1" for i
        using that less mono [of i ?mid] mid 1(5) by (simp add: le_less_trans)
      with 1(1) [OF True refl less] True less mid 1(3,5,7) show ?thesis
        by (simp add: lower_bound_loop.simps [of es sz lo hi])
    next
      case geq: False
      have "sz \<le> sig_size (es ! i)" if "?mid \<le> i" "i < length es" for i
        using that geq mono [of ?mid i] by simp
      with 1(2) [OF True refl geq] True geq mid 1(3,5,6) show ?thesis
        by (simp add: lower_bound_loop.simps [of es sz lo hi])
    qed
  qed
qed

lemma lower_bound_correct:
  assumes "sorted_by_size (v_items l)"
  shows "lower_bound_by_size l sz \<le> length (v_items l)"
    and "i < lower_bound_by_size l sz \<Longrightarrow> sig_size (v_items l ! i) < sz"
    and "lower_bound_by_size l sz \<le> i \<Longrightarrow> i < length (v_items l) \<Longrightarrow> sz \<le> sig_size (v_items l ! i)"
  using lower_bound_loop_correct [OF assms, of 0 "length (v_items l)" sz]
  by (auto simp: lower_bound_by_size_def)

text \<open>On a sorted list that starts at the wanted size, the run scan is a linear search.\<close>

lemma scan_run_find:
  "sorted_by_size es \<Longrightarrow> \<forall>e \<in> set es. sz \<le> sig_size e \<Longrightarrow>
     scan_run es sz hex = map_option sig_name (find (\<lambda>e. sig_size e = sz \<and> sha256_hex e = hex) es)"
proof (induction es)
  case (Cons e es)
  show ?case
  proof (cases "sig_size e = sz")
    case True
    with Cons show ?thesis by auto
  next
    case False
    with Cons.prems have "\<forall>x \<in> set es. sig_size x \<noteq> sz" by force
    then have "find (\<lambda>e. sig_size e = sz \<and> sha256_hex e = hex) es = None"
      by (auto simp: find_None_iff)
    with False show ?thesis by simp
  qed
qed simp

lemma find_append: "find P (xs @ ys) = (case find P xs of None \<Rightarrow> find P ys | Some x \<Rightarrow> Some x)"
  by (induction xs) auto

lemma lookup_find:
  assumes "sorted_by_size (v_items l)"
  shows "usbs_signature_list_lookup l sz hex =
    map_option sig_name (find (\<lambda>e. sig_size e = sz \<and> sha256_hex e = hex) (v_items l))"
proof -
  let ?es = "v_items l" and ?k = "lower_bound_by_size l sz"
  have "\<forall>e \<in> set (take ?k ?es). sig_size e \<noteq> sz"
    using lower_bound_correct(2) [OF assms, of _ sz] by (fastforce simp: in_set_conv_nth)
  then have pre: "find (\<lambda>e. sig_size e = sz \<and> sha256_hex e = hex) (take ?k ?es) = None"
    by (auto simp: find_None_iff)
  have "sorted_by_size (drop ?k ?es)" using assms by (simp add: drop_map [symmetric] sorted_wrt_drop)
  moreover have "\<forall>e \<in> set (drop ?k ?es). sz \<le> sig_size e"
    using lower_bound_correct(1,3) [OF assms] by (auto simp: in_set_conv_nth)
  ultimately have "scan_run (drop ?k ?es) sz hex =
      map_option sig_name (find (\<lambda>e. sig_size e = sz \<and> sha256_hex e = hex) (drop ?k ?es))"
    by (rule scan_run_find)
  also have "\<dots> = map_option sig_name (find (\<lambda>e. sig_size e = sz \<and> sha256_hex e = hex) (take ?k ?es @ drop ?k ?es))"
    unfolding find_append pre by simp
  finally show ?thesis by (simp add: usbs_signature_list_lookup_def)
qed

text \<open>
  C34 Binary search equals linear search: on a list sorted by size, as the loader leaves it, the
  lookup returns the name of the first entry with that size and hash, and nothing exactly when no
  entry has both.
\<close>

theorem signature_lookup_is_find:
  assumes "sorted_by_size (v_items l)"
  shows "usbs_signature_list_lookup l sz hex =
    map_option sig_name (find (\<lambda>e. sig_size e = sz \<and> sha256_hex e = hex) (v_items l))"
  using assms by (rule lookup_find)

lemma signature_lookup_is_find_witness:
  "usbs_signature_list_lookup
     \<lparr>v_items = [\<lparr>sha256_hex = ''aa'', sig_size = 3, sig_name = ''x''\<rparr>, \<lparr>sha256_hex = ''bb'', sig_size = 5, sig_name = ''y''\<rparr>],
      v_capacity = 64\<rparr> 5 ''bb'' = Some ''y''"
  by (subst signature_lookup_is_find) simp_all

lemma has_size_of_member:
  assumes "sorted_by_size (v_items l)" and i: "i < length (v_items l)"
  shows "usbs_signature_list_has_size l (sig_size (v_items l ! i))"
proof -
  let ?sz = "sig_size (v_items l ! i)"
  let ?k = "lower_bound_by_size l ?sz"
  have "?k \<le> i" using lower_bound_correct(2) [OF assms(1), of i ?sz] i by (meson less_irrefl not_le)
  then have "sig_size (v_items l ! ?k) \<le> ?sz"
    using i assms(1) sorted_nth_mono [of "map sig_size (v_items l)" ?k i] by simp
  moreover have "?sz \<le> sig_size (v_items l ! ?k)"
    using lower_bound_correct(3) [OF assms(1), of ?sz ?k] \<open>?k \<le> i\<close> i by simp
  ultimately show ?thesis
    using \<open>?k \<le> i\<close> i by (auto simp: usbs_signature_list_has_size_def Let_def)
qed

text \<open>
  The size pre-check is exact: it lets a file through to hashing exactly when some entry has
  its size, so no file that could match is skipped and no other file is opened.
\<close>

theorem signature_has_size_exact:
  assumes "sorted_by_size (v_items l)"
  shows "usbs_signature_list_has_size l sz \<longleftrightarrow> (\<exists>e \<in> set (v_items l). sig_size e = sz)"
proof
  assume "usbs_signature_list_has_size l sz"
  then show "\<exists>e \<in> set (v_items l). sig_size e = sz"
    by (auto simp: usbs_signature_list_has_size_def Let_def split: if_splits)
next
  assume "\<exists>e \<in> set (v_items l). sig_size e = sz"
  then show "usbs_signature_list_has_size l sz"
    using has_size_of_member [OF assms] by (auto simp: in_set_conv_nth)
qed

lemma signature_has_size_exact_witness:
  "usbs_signature_list_has_size
     \<lparr>v_items = [\<lparr>sha256_hex = ''aa'', sig_size = 3, sig_name = ''x''\<rparr>], v_capacity = 64\<rparr> 3"
  by (subst signature_has_size_exact) simp_all

section \<open>Reading\<close>

lemma grown_cap_room:
  "len < USBS_SIGNATURE_FILE_MAX_READ \<Longrightarrow> len \<le> cap \<Longrightarrow> len < grown_cap cap len"
  by (auto simp: grown_cap_def USBS_SIGNATURE_FILE_MAX_READ_def Let_def)

lemma grown_cap_bound:
  "cap \<le> USBS_SIGNATURE_FILE_MAX_READ + 65536 \<Longrightarrow>
     grown_cap cap len \<le> USBS_SIGNATURE_FILE_MAX_READ + 65536"
  by (auto simp: grown_cap_def Let_def)

lemma read_loop_total:
  assumes "0 < fuel" and "USBS_SIGNATURE_FILE_MAX_READ < fuel + length buf"
  shows "\<exists>r. read_loop fuel P fh buf cap w = Some r"
  using assms
proof (induction fuel P fh buf cap w rule: read_loop.induct)
  case (2 fuel P fh buf cap w)
  show ?case
    using 2 by (cases fuel) (auto simp: Let_def neq_Nil_conv split: prod.splits sum.splits)
qed auto

lemma read_loop_bounds:
  assumes "reads_bounded P" and "length buf \<le> cap" and "cap \<le> USBS_SIGNATURE_FILE_MAX_READ + 65536"
    and "read_loop fuel P fh buf cap w = Some (Inr out, w')"
  shows "length out \<le> USBS_SIGNATURE_FILE_MAX_READ + 65536"
  using assms
proof (induction fuel P fh buf cap w rule: read_loop.induct)
  case (2 fuel P fh buf cap w)
  show ?case
  proof (cases "length buf \<ge> USBS_SIGNATURE_FILE_MAX_READ")
    case True
    with 2 show ?thesis by simp
  next
    case False
    define cap2 where "cap2 = grown_cap cap (length buf)"
    have room: "length buf < cap2" "cap2 \<le> USBS_SIGNATURE_FILE_MAX_READ + 65536"
      using False 2(3,4) grown_cap_room grown_cap_bound by (simp_all add: cap2_def)
    show ?thesis
    proof (cases "file_read P fh (cap2 - length buf) w")
      case (Pair r w2)
      show ?thesis
      proof (cases r)
        case (Inl st)
        with 2(5) False Pair show ?thesis by (auto simp: Let_def cap2_def split: if_splits)
      next
        case (Inr bytes)
        have "length bytes \<le> cap2 - length buf"
          using 2(2) Pair Inr unfolding reads_bounded_def by blast
        with room have fit: "length (buf @ bytes) \<le> cap2" by simp
        have oom: "\<not> (length buf + 65536 > cap \<and> \<not> p_mem P cap2)"
          using 2(5) False by (auto simp: Let_def cap2_def split: if_splits)
        show ?thesis
        proof (cases "bytes = []")
          case True
          with 2(3,4,5) False Pair Inr oom show ?thesis by (auto simp: Let_def cap2_def split: if_splits)
        next
          case ne: False
          have "read_loop fuel P fh (buf @ bytes) cap2 w2 = Some (Inr out, w')"
            using 2(5) False Pair Inr oom ne by (simp add: Let_def cap2_def split: if_splits)
          with 2(1) [OF refl False cap2_def, of r w2 bytes] oom Pair Inr ne fit room 2(2)
          show ?thesis by simp
        qed
      qed
    qed
  qed
qed simp

section \<open>Parsing and loading\<close>

definition signature_wf :: "usbs_signature \<Rightarrow> bool" where
  "signature_wf e \<longleftrightarrow>
     length (sha256_hex e) = USBS_SIGNATURE_HASH_LEN \<and> list_all is_lower_hex (sha256_hex e) \<and>
     length (sig_name e) < USBS_SIGNATURE_NAME_MAX \<and> is_cstr (sig_name e)"

lemma normalize_hash_wf: "normalize_hash s = Some h \<Longrightarrow> length h = length s \<and> list_all is_lower_hex h"
  by (induction s arbitrary: h)
     (auto simp: lower_hex_upper split: if_splits)

lemma normalize_hash_id: "list_all is_lower_hex s \<Longrightarrow> normalize_hash s = Some s"
  by (induction s) (auto simp: is_lower_hex_def less_eq_char_def)

lemma parse_line_wf: "parse_line line = LINE_OK e \<Longrightarrow> signature_wf e"
  using length_cstr_le [of "take (USBS_SIGNATURE_NAME_MAX - 1) n" for n]
  by (fastforce simp: parse_line_def signature_wf_def Let_def USBS_SIGNATURE_NAME_MAX_def
      split: if_splits option.splits prod.splits dest: normalize_hash_wf
      intro: le_less_trans [OF length_cstr_le])

text \<open>
  Format round trip: a line printed from an entry (a 64-digit lower-case hash, the size in
  decimal, a name without trailing blanks) parses back to exactly that entry.
\<close>

theorem signature_line_roundtrip:
  assumes "signature_wf e" and "sig_name e \<noteq> []" and "\<not> is_trailing (last (sig_name e))"
  shows "parse_line (sha256_hex e @ '':'' @ dec_of_nat (unat (sig_size e)) @ '':'' @ sig_name e) = LINE_OK e"
proof -
  let ?h = "sha256_hex e" and ?d = "dec_of_nat (unat (sig_size e))" and ?n = "sig_name e"
  have hex: "list_all is_lower_hex ?h" "length ?h = 64"
    using assms(1) by (simp_all add: signature_wf_def USBS_SIGNATURE_HASH_LEN_def)
  then obtain c cs where h: "?h = c # cs" "is_lower_hex c" by (cases ?h) auto
  have colon: "\<not> is_lower_hex CHR '':''" "\<not> is_digit CHR '':''"
    by (simp_all add: is_lower_hex_def is_digit_def less_eq_char_def)
  have start: "dropWhile is_blank (?h @ r) = ?h @ r" "hd (?h @ r) \<noteq> CHR ''#''" "hd (?h @ r) \<noteq> CHR 0x0D"
      "?h @ r \<noteq> []" for r
    using h by (auto simp: is_blank_def is_lower_hex_def less_eq_char_def)
  have digits: "list_all is_digit ?d" by (rule dec_of_nat_digits)
  have s1: "split_first CHR '':'' (?h @ CHR '':'' # r) = Some (?h, r)" for r
    using hex colon by (auto simp: split_first_Some list_all_iff)
  have s2: "split_first CHR '':'' (?d @ CHR '':'' # r) = Some (?d, r)" for r
    using digits colon by (auto simp: split_first_Some list_all_iff)
  have name: "strip_trailing ?n = ?n"
    using assms(2,3) by (cases ?n rule: rev_cases) (auto simp: strip_trailing_def)
  have "CHR 0x00 \<notin> set ?d" using digits by (auto simp: list_all_iff is_digit_def less_eq_char_def)
  then have nul: "is_cstr ?d" by (simp add: is_cstr_def)
  obtain a as where d: "?d = a # as" by (cases ?d) auto
  have a: "is_digit a" using digits d by simp
  have tw: "takeWhile is_digit ?d = ?d" "dropWhile is_digit ?d = []"
    using digits by (simp_all add: list_all_iff)
  have "dropWhile is_c_space ?d = ?d" "hd ?d \<noteq> CHR ''-''" "hd ?d \<noteq> CHR ''+''"
    using a d by (auto simp: is_c_space_def is_digit_def less_eq_char_def)
  moreover have "\<not> 2 ^ 64 \<le> unat (sig_size e)" using unsigned_less [of "sig_size e", where ?'a = nat] by simp
  ultimately have conv: "c_strtoull ?d = (sig_size e, [])"
    by (simp add: c_strtoull_def tw Let_def)
  have "take (USBS_SIGNATURE_NAME_MAX - 1) ?n = ?n" "cstr ?n = ?n"
    using assms(1) by (simp_all add: signature_wf_def USBS_SIGNATURE_NAME_MAX_def)
  moreover have "length ?d \<le> 20" by (rule length_dec_of_nat) (use unsigned_less [of "sig_size e", where ?'a = nat] in simp_all)
  ultimately show ?thesis
    using start s1 s2 name nul conv hex assms(2) \<open>CHR 0x00 \<notin> set ?d\<close> d
    by (simp add: parse_line_def normalize_hash_id USBS_SIGNATURE_HASH_LEN_def Let_def)
qed

lemma signature_line_roundtrip_witness:
  "parse_line (replicate 64 (CHR ''a'') @ '':'' @ dec_of_nat (unat (68 :: usbs_u64)) @ '':'' @ ''Test'') =
     LINE_OK \<lparr>sha256_hex = replicate 64 (CHR ''a''), sig_size = 68, sig_name = ''Test''\<rparr>"
  using signature_line_roundtrip [of "\<lparr>sha256_hex = replicate 64 (CHR ''a''), sig_size = 68, sig_name = ''Test''\<rparr>"]
  by (simp add: signature_wf_def USBS_SIGNATURE_HASH_LEN_def USBS_SIGNATURE_NAME_MAX_def
      is_lower_hex_def is_trailing_def less_eq_char_def list_all_iff)

lemma load_lines_wf:
  "\<forall>e \<in> set (v_items l). signature_wf e \<Longrightarrow> \<forall>e \<in> set (v_items (load_lines mem l s)). signature_wf e"
proof (induction mem l s rule: load_lines.induct)
  case (2 mem l c cs)
  obtain line rest where sp: "(case split_first CHR 0x0A (c # cs) of None \<Rightarrow> (c # cs, []) | Some (a, b) \<Rightarrow> (a, b)) =
      (line, rest)" by fastforce
  show ?case
  proof (cases "parse_line line")
    case (LINE_OK e)
    obtain st l2 where p: "push_entry mem l e = (st, l2)" by fastforce
    have "v_items l2 = v_items l \<or> v_items l2 = v_items l @ [e]"
      using signature_entries.push_ok signature_entries.push_error p by (cases "st = USBS_OK") blast+
    then have "\<forall>e \<in> set (v_items l2). signature_wf e"
      using 2(4) parse_line_wf [OF LINE_OK] by auto
    then show ?thesis
      using 2(3) [OF sp [symmetric] refl LINE_OK p [symmetric]] sp LINE_OK p
      by (simp del: split_first.simps)
  next
    case LINE_SKIP_QUIET
    with 2(1) [OF sp [symmetric] refl LINE_SKIP_QUIET 2(4)] sp show ?thesis
      by (simp del: split_first.simps)
  next
    case LINE_MALFORMED
    with 2(2) [OF sp [symmetric] refl LINE_MALFORMED 2(4)] sp show ?thesis
      by (simp del: split_first.simps)
  qed
qed simp

text \<open>What is relied on of the C library's \<open>qsort\<close> with \<open>compare_by_size\<close>.\<close>

definition qsort_ok :: "(usbs_signature list \<Rightarrow> usbs_signature list) \<Rightarrow> bool" where
  "qsort_ok srt \<longleftrightarrow> (\<forall>es. mset (srt es) = mset es \<and> sorted_by_size (srt es))"

lemma qsort_ok_sort_key: "qsort_ok (sort_key sig_size)"
  by (simp add: qsort_ok_def)


definition sample_signature_file :: string where
  "sample_signature_file =
     replicate 64 (CHR ''B'') @ '':9:second'' @ [CHR 0x0A] @ ''# note'' @ [CHR 0x0A] @
     replicate 64 (CHR ''a'') @ '':3:first''"




text \<open>
  The size field is converted by \<open>strtoull\<close> without looking at its sign or range: malformed
  sizes are accepted.
\<close>

lemma malformed_sizes_accepted:
  "parse_line (replicate 64 (CHR ''a'') @ '':-1:x'') =
     LINE_OK \<lparr>sha256_hex = replicate 64 (CHR ''a''), sig_size = 18446744073709551615, sig_name = ''x''\<rparr>"
  "parse_line (replicate 64 (CHR ''a'') @ '':99999999999999999999999:x'') =
     LINE_OK \<lparr>sha256_hex = replicate 64 (CHR ''a''), sig_size = 18446744073709551615, sig_name = ''x''\<rparr>"
  by code_simp+

end
