(* ===== verification/HashMatch.thy ===== *)
theory HashMatch
  imports Sha256 SignatureList
begin

text \<open>
  The hash detector of src/detectors/hash_match.c. Its four static variables are the record
  \<open>hash_globals\<close>, threaded through every call. The loop that hashes a file reads until the file
  ends; a file is not obliged to, so the loop has fuel and running out of it is \<open>None\<close>.
\<close>

section \<open>The process-wide cache\<close>

record hash_globals =
  g_signatures :: usbs_signature_list
  g_load_attempted :: bool
  g_loaded_from_file :: bool
  g_loaded_path :: string

definition hash_globals_init :: hash_globals where
  "hash_globals_init =
     \<lparr>g_signatures = usbs_signature_list_init, g_load_attempted = False, g_loaded_from_file = False,
      g_loaded_path = []\<rparr>"

definition usbs_hash_match_reset_for_testing :: "hash_globals \<Rightarrow> hash_globals" where
  "usbs_hash_match_reset_for_testing g =
     g\<lparr>g_signatures := usbs_signature_list_init, g_load_attempted := False,
       g_loaded_from_file := False, g_loaded_path := []\<rparr>"

definition HASH_MATCH_MAX_FILE_SIZE :: nat where "HASH_MATCH_MAX_FILE_SIZE = 64 * 1024 * 1024"
definition HASH_MATCH_READ_CHUNK :: nat where "HASH_MATCH_READ_CHUNK = 64 * 1024"

definition fallback_sha256_hex :: string where
  "fallback_sha256_hex = ''275a021bbfb6489e54d471899f7db9d1663fc695ec2fe2a2c4538aabf651fd0f''"

definition fallback_size :: usbs_u64 where
  "fallback_size = 68"

definition fallback_label :: string where
  "fallback_label = ''EICAR Standard Anti-Virus Test File (industry-standard test string, not malware)''"

definition resolve_signature_path :: "'w platform \<Rightarrow> nat \<Rightarrow> string option" where
  "resolve_signature_path P cap =
     (case usbs_getenv (p_env P) ''USBS_HASH_MATCH_SIGNATURES'' cap of
        (st, out) \<Rightarrow>
          if usbs_ok st \<and> out \<noteq> [] then Some out
          else
            (case usbs_user_data_dir (p_host P) (p_env P) 400 of
               (st2, data_dir) \<Rightarrow>
                 if usbs_ok st2 then
                   (case usbs_path_join (p_host P) cap data_dir ''signatures.txt'' of
                      (st3, path) \<Rightarrow> if usbs_ok st3 then Some path else None)
                 else None))"

text \<open>\<open>srt\<close> is the C library's \<open>qsort\<close> on signatures, as in SignatureList.\<close>

definition ensure_signatures_loaded ::
  "(usbs_signature list \<Rightarrow> usbs_signature list) \<Rightarrow> 'w platform \<Rightarrow> hash_globals \<Rightarrow> 'w \<Rightarrow> hash_globals \<times> 'w" where
  "ensure_signatures_loaded srt P g w =
     (if g_load_attempted g then (g, w)
      else
        (let g1 = g\<lparr>g_load_attempted := True, g_signatures := usbs_signature_list_init\<rparr>
         in (case resolve_signature_path P 512 of
               None \<Rightarrow> (g1, w)
             | Some path \<Rightarrow>
                 (case usbs_signature_list_load srt P (g_signatures g1) path w of
                    (st, l, w1) \<Rightarrow>
                      (let g2 = g1\<lparr>g_signatures := l\<rparr>
                       in if \<not> usbs_ok st then (g2, w1)
                          else if v_items l = [] then (g2, w1)
                          else (g2\<lparr>g_loaded_from_file := True, g_loaded_path := snprintf_buf 512 path\<rparr>, w1))))))"

definition usbs_hash_match_lookup ::
  "(usbs_signature list \<Rightarrow> usbs_signature list) \<Rightarrow> 'w platform \<Rightarrow> hash_globals \<Rightarrow> 'w \<Rightarrow>
     usbs_u64 \<Rightarrow> string \<Rightarrow> string option \<times> hash_globals \<times> 'w" where
  "usbs_hash_match_lookup srt P g w sz hex =
     (case ensure_signatures_loaded srt P g w of
        (g1, w1) \<Rightarrow>
          if g_loaded_from_file g1 then (usbs_signature_list_lookup (g_signatures g1) sz hex, g1, w1)
          else if sz = fallback_size \<and> hex = fallback_sha256_hex then (Some fallback_label, g1, w1)
          else (None, g1, w1))"

section \<open>The callback\<close>

definition relative_path :: "string \<Rightarrow> string option \<Rightarrow> string" where
  "relative_path full_path volume =
     (case volume of
        None \<Rightarrow> full_path
      | Some v \<Rightarrow> if take (length v) full_path = v then drop (length v) full_path else full_path)"

definition path_filename :: "host \<Rightarrow> string \<Rightarrow> string" where
  "path_filename h path = rev (takeWhile (\<lambda>c. \<not> usbs_path_is_separator h c) (rev path))"

definition set_disclaimer ::
  "(usbs_signature list \<Rightarrow> usbs_signature list) \<Rightarrow> 'w platform \<Rightarrow> usbs_check_result \<Rightarrow> hash_globals \<Rightarrow> 'w \<Rightarrow>
     usbs_check_result \<times> hash_globals \<times> 'w" where
  "set_disclaimer srt P result g w =
     (case ensure_signatures_loaded srt P g w of
        (g1, w1) \<Rightarrow>
          (result\<lparr>check_message := snprintf_buf USBS_CHECK_MESSAGE_MAX
             (if g_loaded_from_file g1 then
                ''Matched against '' @ dec_of_nat (length (v_items (g_signatures g1))) @
                '' signature(s) loaded from '' @ path_filename (p_host P) (g_loaded_path g1) @
                '' - USB Sentinel does not ship, vet, or vouch for this file'' @ [CHR 0x27] @
                ''s contents; verify its provenance yourself''
              else
                ''NON-PRODUCTION EXAMPLE: matched against 1 hardcoded test hash '' @
                ''(EICAR only) - this is NOT a real malware signature database'')\<rparr>, g1, w1))"

fun hash_file_loop :: "nat \<Rightarrow> 'w platform \<Rightarrow> nat \<Rightarrow> usbs_sha256 \<Rightarrow> 'w \<Rightarrow> (usbs_sha256 \<times> 'w) option" where
  "hash_file_loop 0 P fh c w = None"
| "hash_file_loop (Suc fuel) P fh c w =
     (case file_read P fh HASH_MATCH_READ_CHUNK w of
        (Inl st, w1) \<Rightarrow> Some (c, w1)
      | (Inr bytes, w1) \<Rightarrow>
          if bytes = [] then Some (c, w1)
          else hash_file_loop fuel P fh (usbs_platform_hash_update c bytes) w1)"

definition size_may_match :: "hash_globals \<Rightarrow> usbs_u64 \<Rightarrow> bool" where
  "size_may_match g sz =
     (if g_loaded_from_file g then usbs_signature_list_has_size (g_signatures g) sz
      else sz = fallback_size)"

definition hash_match_on_file ::
  "(usbs_signature list \<Rightarrow> usbs_signature list) \<Rightarrow> nat \<Rightarrow> 'w platform \<Rightarrow> detect_context option \<Rightarrow> string \<Rightarrow>
     usbs_dir_entry \<Rightarrow> usbs_check_result \<Rightarrow> hash_globals \<Rightarrow> 'w \<Rightarrow>
     (usbs_status \<times> usbs_check_result \<times> hash_globals \<times> 'w) option" where
  "hash_match_on_file srt fuel P dctx full_path entry result g w =
     (case set_disclaimer srt P result g w of
        (r1, g1, w1) \<Rightarrow>
          if unat (size_bytes entry) > HASH_MATCH_MAX_FILE_SIZE then Some (USBS_OK, r1, g1, w1)
          else if \<not> size_may_match g1 (size_bytes entry) then Some (USBS_OK, r1, g1, w1)
          else
            (case file_open_read P full_path w1 of
               (Inl st, w2) \<Rightarrow> Some (USBS_OK, r1, g1, w2)
             | (Inr fh, w2) \<Rightarrow>
                 (case usbs_platform_hash_begin (p_mem P) of
                    Inl st \<Rightarrow> Some (USBS_OK, r1, g1, file_close P fh w2)
                  | Inr c \<Rightarrow>
                      if \<not> p_mem P HASH_MATCH_READ_CHUNK then Some (USBS_OK, r1, g1, file_close P fh w2)
                      else
                        (case hash_file_loop fuel P fh c w2 of
                           None \<Rightarrow> None
                         | Some (c2, w3) \<Rightarrow>
                             (let w4 = file_close P fh w3;
                                  hex = snd (usbs_platform_hash_finish c2)
                              in (case usbs_hash_match_lookup srt P g1 w4 (size_bytes entry) hex of
                                    (None, g2, w5) \<Rightarrow> Some (USBS_OK, r1, g2, w5)
                                  | (Some name, g2, w5) \<Rightarrow>
                                      (let finding =
                                         \<lparr>severity = USBS_SEVERITY_HIGH,
                                          f_message = snprintf_buf USBS_FINDING_MESSAGE_MAX
                                            (''matches signature list entry: '' @ name @ '' (sha256='' @ hex @ '')'' @
                                             (if g_loaded_from_file g2 then []
                                              else '' - demonstration match, not a real threat-intelligence source'')),
                                          f_path = snprintf_buf USBS_FINDING_PATH_MAX
                                            (relative_path full_path
                                               (case dctx of None \<Rightarrow> None | Some d \<Rightarrow> dc_volume_path d))\<rparr>
                                       in Some (USBS_OK,
                                            r1\<lparr>findings := snd (usbs_finding_list_push (p_mem P) (findings r1) finding)\<rparr>,
                                            g2, w5))))))))"

section \<open>The cache\<close>

definition hash_inv :: "hash_globals \<Rightarrow> bool" where
  "hash_inv g \<longleftrightarrow> sorted_by_size (v_items (g_signatures g)) \<and>
     list_all signature_wf (v_items (g_signatures g)) \<and> (g_loaded_from_file g \<longrightarrow> g_load_attempted g)"

lemma hash_inv_init [usbs_invariant]: "hash_inv hash_globals_init"
  by (simp add: hash_inv_def hash_globals_init_def signature_entries.items_empty)

lemma load_sorted:
  assumes "qsort_ok srt" and "usbs_signature_list_load srt P usbs_signature_list_init path w = (st, l, w')"
  shows "sorted_by_size (v_items l) \<and> list_all signature_wf (v_items l)"
proof -
  obtain r w1 where r: "read_whole_file_capped P path w = (r, w1)" by fastforce
  show ?thesis
  proof (cases r)
    case (Inl e)
    with assms(2) r show ?thesis by (simp add: usbs_signature_list_load_def signature_entries.items_empty)
  next
    case (Inr buf)
    let ?l2 = "load_lines (p_mem P) usbs_signature_list_init buf"
    have "\<forall>e \<in> set (v_items ?l2). signature_wf e"
      by (rule load_lines_wf) (simp add: signature_entries.items_empty)
    moreover have "set (srt (v_items ?l2)) = set (v_items ?l2)"
      using assms(1) by (metis qsort_ok_def set_mset_mset)
    ultimately show ?thesis
      using assms r Inr
      by (cases "v_items ?l2 = []")
         (auto simp: usbs_signature_list_load_def Let_def list_all_iff qsort_ok_def)
  qed
qed

lemma ensure_attempted: "ensure_signatures_loaded srt P g w = (g', w') \<Longrightarrow> g_load_attempted g'"
  by (auto simp: ensure_signatures_loaded_def Let_def split: if_splits option.splits prod.splits)

lemma ensure_loaded [simp]: "g_load_attempted g \<Longrightarrow> ensure_signatures_loaded srt P g w = (g, w)"
  by (simp add: ensure_signatures_loaded_def)

lemma ensure_inv [usbs_invariant]:
  assumes "qsort_ok srt" and "hash_inv g" and "ensure_signatures_loaded srt P g w = (g', w')"
  shows "hash_inv g'"
proof (cases "g_load_attempted g")
  case True
  with assms show ?thesis by simp
next
  case False
  with assms(2) have nf: "\<not> g_loaded_from_file g" by (simp add: hash_inv_def)
  from False nf assms(3) show ?thesis
    by (auto simp: ensure_signatures_loaded_def Let_def hash_inv_def signature_entries.items_empty
        split: if_splits option.splits prod.splits dest: load_sorted [OF assms(1)])
qed

section \<open>What a file's content decides\<close>

text \<open>The specification: the bytes the reads deliver, and the name they match.\<close>

fun file_bytes :: "nat \<Rightarrow> 'w platform \<Rightarrow> nat \<Rightarrow> 'w \<Rightarrow> (string \<times> 'w) option" where
  "file_bytes 0 P fh w = None"
| "file_bytes (Suc fuel) P fh w =
     (case file_read P fh HASH_MATCH_READ_CHUNK w of
        (Inl st, w1) \<Rightarrow> Some ([], w1)
      | (Inr bytes, w1) \<Rightarrow>
          if bytes = [] then Some ([], w1)
          else map_option (\<lambda>(m, w2). (bytes @ m, w2)) (file_bytes fuel P fh w1))"

lemma hash_file_loop_spec:
  "sha_rep c m \<Longrightarrow> hash_file_loop fuel P fh c w =
     map_option (\<lambda>(m', w'). (the (Option.bind (hash_file_loop fuel P fh c w) (\<lambda>(c', _). Some c')), w'))
       (file_bytes fuel P fh w) \<and>
   (\<forall>c' w'. hash_file_loop fuel P fh c w = Some (c', w') \<longrightarrow>
      (\<exists>m'. file_bytes fuel P fh w = Some (m', w') \<and> sha_rep c' (m @ m')))"
proof (induction fuel P fh c w arbitrary: m rule: hash_file_loop.induct)
  case (2 fuel P fh c w)
  obtain r w1 where r: "file_read P fh HASH_MATCH_READ_CHUNK w = (r, w1)" by fastforce
  show ?case
  proof (cases r)
    case (Inl st)
    with 2(2) r show ?thesis by auto
  next
    case (Inr bytes)
    show ?thesis
    proof (cases "bytes = []")
      case True
      with 2(2) r Inr show ?thesis by auto
    next
      case ne: False
      have "sha_rep (usbs_platform_hash_update c bytes) (m @ bytes)"
        by (rule sha_rep_platform_update [OF 2(2)])
      from 2(1) [OF r [symmetric] Inr ne this] r Inr ne show ?thesis
        by (cases "file_bytes fuel P fh w1") (auto split: prod.splits)
    qed
  qed
qed simp

lemma hash_file_loop_ok:
  assumes "file_bytes fuel P fh w = Some (m, w')"
  obtains c where "hash_file_loop fuel P fh usbs_sha256_init w = Some (c, w')"
    and "snd (usbs_platform_hash_finish c) = hex_of_digest (sha256_spec m)"
proof -
  note s = hash_file_loop_spec [OF sha_rep_init, of fuel P fh w]
  from s assms obtain c where c: "hash_file_loop fuel P fh usbs_sha256_init w = Some (c, w')" by auto
  with s assms have "sha_rep c m" by force
  then have "snd (usbs_platform_hash_finish c) = hex_of_digest (sha256_spec m)"
    by (simp add: usbs_platform_hash_finish_def Let_def sha_rep_final)
  with c that show ?thesis by blast
qed

definition signature_match :: "hash_globals \<Rightarrow> usbs_u64 \<Rightarrow> string \<Rightarrow> string option" where
  "signature_match g sz m =
     (let hex = hex_of_digest (sha256_spec m)
      in if g_loaded_from_file g
         then map_option sig_name (find (\<lambda>e. sig_size e = sz \<and> sha256_hex e = hex) (v_items (g_signatures g)))
         else if sz = fallback_size \<and> hex = fallback_sha256_hex then Some fallback_label else None)"

lemma size_precheck_is_transparent:
  "hash_inv g \<Longrightarrow> signature_match g sz m \<noteq> None \<Longrightarrow> size_may_match g sz"
proof -
  assume inv: "hash_inv g" and match: "signature_match g sz m \<noteq> None"
  show ?thesis
  proof (cases "g_loaded_from_file g")
    case True
    with match obtain i where i: "i < length (v_items (g_signatures g))" "sig_size (v_items (g_signatures g) ! i) = sz"
      by (auto simp: signature_match_def Let_def find_Some_iff)
    then show ?thesis
      using True inv has_size_of_member [of "g_signatures g" i] by (simp add: size_may_match_def hash_inv_def)
  next
    case False
    with match show ?thesis by (auto simp: signature_match_def size_may_match_def Let_def split: if_splits)
  qed
qed

lemma lookup_signature_match:
  assumes "hash_inv g" and "g_load_attempted g"
  shows "usbs_hash_match_lookup srt P g w sz (hex_of_digest (sha256_spec m)) = (signature_match g sz m, g, w)"
  using assms lookup_find [of "g_signatures g" sz "hex_of_digest (sha256_spec m)"]
  by (simp add: usbs_hash_match_lookup_def signature_match_def hash_inv_def Let_def)

lemma set_disclaimer_findings [usbs_frame]:
  "set_disclaimer srt P result g w = (r, g', w') \<Longrightarrow>
     ensure_signatures_loaded srt P g w = (g', w') \<and> findings r = findings result \<and>
     check_status r = check_status result \<and> check_id r = check_id result \<and>
     skip_reason r = skip_reason result \<and> length (check_message r) < USBS_CHECK_MESSAGE_MAX \<and>
     policy_suppressed r = policy_suppressed result \<and> policy_lowered r = policy_lowered result"
  by (auto simp: set_disclaimer_def USBS_CHECK_MESSAGE_MAX_def snprintf_buf_def split: prod.splits)

section \<open>The decision\<close>

definition hash_finding :: "hash_globals \<Rightarrow> string \<Rightarrow> string \<Rightarrow> string \<Rightarrow> usbs_finding" where
  "hash_finding g name m relative =
     \<lparr>severity = USBS_SEVERITY_HIGH,
      f_message = snprintf_buf USBS_FINDING_MESSAGE_MAX
        (''matches signature list entry: '' @ name @ '' (sha256='' @ hex_of_digest (sha256_spec m) @ '')'' @
         (if g_loaded_from_file g then []
          else '' - demonstration match, not a real threat-intelligence source'')),
      f_path = snprintf_buf USBS_FINDING_PATH_MAX relative\<rparr>"



lemma fixture_ensure:
  "ensure_signatures_loaded srt fixture_platform hash_globals_init w =
     (hash_globals_init\<lparr>g_load_attempted := True\<rparr>, w)"
proof -
  have "resolve_signature_path fixture_platform 512 = None" by code_simp
  then show ?thesis by (simp add: ensure_signatures_loaded_def hash_globals_init_def Let_def)
qed

lemma fixture_bytes:
  "chunk \<noteq> [] \<Longrightarrow> length chunk \<le> HASH_MATCH_READ_CHUNK \<Longrightarrow>
     file_bytes (Suc (Suc 0)) fixture_platform fh [chunk] = Some (chunk, [])"
  by (simp add: fixture_platform_def)


text \<open>
  A file that is too large, or whose size no entry has, costs no I/O: the world after the call
  is the one the signature load left, for every fuel, and no finding is added. In the second case
  nothing is missed either: no content could have matched.
\<close>

theorem hash_match_skips_without_io:
  assumes "qsort_ok srt" and "hash_inv g" and load: "ensure_signatures_loaded srt P g w = (g1, w1)"
    and "HASH_MATCH_MAX_FILE_SIZE < unat (size_bytes entry) \<or> \<not> size_may_match g1 (size_bytes entry)"
  shows "(\<exists>r. hash_match_on_file srt fuel P dctx full_path entry result g w = Some (USBS_OK, r, g1, w1) \<and>
      findings r = findings result) \<and>
    (\<not> size_may_match g1 (size_bytes entry) \<longrightarrow> (\<forall>m. signature_match g1 (size_bytes entry) m = None))"
proof -
  obtain r1 g0 w0 where sd: "set_disclaimer srt P result g w = (r1, g0, w0)"
    by (cases "set_disclaimer srt P result g w") auto
  from set_disclaimer_findings [OF sd] load
  have "g0 = g1" "w0 = w1" "findings r1 = findings result" by auto
  moreover have "\<not> size_may_match g1 (size_bytes entry) \<longrightarrow> (\<forall>m. signature_match g1 (size_bytes entry) m = None)"
    using size_precheck_is_transparent [OF ensure_inv [OF assms(1,2) load]] by blast
  ultimately show ?thesis using sd assms(4) by (auto simp: hash_match_on_file_def)
qed

lemma hash_match_skips_without_io_witness:
  "\<exists>r. hash_match_on_file (sort_key sig_size) 0 fixture_platform None ''/m/a''
      (fixture_entry ''a'' 69)
      (usbs_check_result_init ''x'') hash_globals_init [] =
      Some (USBS_OK, r, hash_globals_init\<lparr>g_load_attempted := True\<rparr>, []) \<and>
    findings r = findings (usbs_check_result_init ''x'')"
  using hash_match_skips_without_io [OF qsort_ok_sort_key hash_inv_init fixture_ensure, where entry =
      "fixture_entry ''a'' 69"
      and fuel = 0 and w = "[]" and full_path = "''/m/a''" and result = "usbs_check_result_init ''x''" and dctx = None]
  by (simp add: size_may_match_def fallback_size_def hash_globals_init_def)

end
