(* ===== verification/Autorun.thy ===== *)
theory Autorun
  imports Platform
begin

text \<open>
  The autorun.inf detector of src/detectors/autorun.c: it lists the volume root once to find the
  file under any capitalisation, reads at most 8192 bytes of it and looks for a launch directive.
  A directory listing is not obliged to end, so the search has fuel and running out of it is
  \<open>None\<close>; the read loop makes progress in every iteration, so its fuel is always enough.
\<close>

section \<open>Text comparison\<close>

definition contains_ci :: "string \<Rightarrow> string \<Rightarrow> bool" where
  "contains_ci haystack needle =
     (if length needle = 0 \<or> length needle > length haystack then False
      else list_ex (\<lambda>i. list_all2 (\<lambda>a b. lower_ascii a = lower_ascii b)
                            (take (length needle) (drop i haystack)) needle)
             [0..<length haystack - length needle + 1])"

fun equals_ci :: "string \<Rightarrow> string \<Rightarrow> bool" where
  "equals_ci (x # a) (y # b) = (if lower_ascii x \<noteq> lower_ascii y then False else equals_ci a b)"
| "equals_ci a b = (a = [] \<and> b = [])"

section \<open>Finding the file\<close>

definition AUTORUN_ID :: string where "AUTORUN_ID = ''autorun_inspection''"
definition AUTORUN_MAX_READ :: nat where "AUTORUN_MAX_READ = 8192"
definition AUTORUN_FILENAME :: string where "AUTORUN_FILENAME = ''autorun.inf''"

fun find_autorun_loop :: "nat \<Rightarrow> 'w platform \<Rightarrow> nat \<Rightarrow> nat \<Rightarrow> 'w \<Rightarrow> (string option \<times> 'w) option" where
  "find_autorun_loop 0 P it cap w = None"
| "find_autorun_loop (Suc fuel) P it cap w =
     (case dir_next P it w of
        (Inl st, w1) \<Rightarrow> Some (None, w1)
      | (Inr entry, w1) \<Rightarrow>
          if is_directory entry then find_autorun_loop fuel P it cap w1
          else if equals_ci (entry_name entry) AUTORUN_FILENAME then
            Some (if 0 < length (entry_name entry) \<and> length (entry_name entry) < cap
                  then Some (snprintf_buf cap (entry_name entry)) else None, w1)
          else find_autorun_loop fuel P it cap w1)"

definition find_autorun_name :: "nat \<Rightarrow> 'w platform \<Rightarrow> string \<Rightarrow> nat \<Rightarrow> 'w \<Rightarrow> (string option \<times> 'w) option" where
  "find_autorun_name fuel P vol cap w =
     (case dir_open P vol w of
        (Inl st, w1) \<Rightarrow> Some (None, w1)
      | (Inr it, w1) \<Rightarrow>
          map_option (\<lambda>(found, w2). (found, dir_close P it w2)) (find_autorun_loop fuel P it cap w1))"

section \<open>The check\<close>

fun autorun_read_loop :: "nat \<Rightarrow> 'w platform \<Rightarrow> nat \<Rightarrow> string \<Rightarrow> 'w \<Rightarrow> ((usbs_status + string) \<times> 'w) option" where
  "autorun_read_loop 0 P fh buf w = None"
| "autorun_read_loop (Suc fuel) P fh buf w =
     (if length buf \<ge> AUTORUN_MAX_READ then Some (Inr buf, w)
      else
        (case file_read P fh (AUTORUN_MAX_READ - length buf) w of
           (Inl st, w1) \<Rightarrow> Some (Inl st, w1)
         | (Inr bytes, w1) \<Rightarrow>
             if bytes = [] then Some (Inr buf, w1)
             else autorun_read_loop fuel P fh (buf @ bytes) w1))"

text \<open>The finding on a file that was read; \<open>contains_ci\<close> sees the bytes up to the first NUL.\<close>

definition autorun_finding :: "string \<Rightarrow> string \<Rightarrow> usbs_finding" where
  "autorun_finding name buf =
     (let has_open = contains_ci (cstr buf) ''open='';
          has_shellexec = contains_ci (cstr buf) ''shellexecute=''
      in \<lparr>severity = (if has_open \<or> has_shellexec then USBS_SEVERITY_WARNING else USBS_SEVERITY_INFO),
          f_message = snprintf_buf USBS_FINDING_MESSAGE_MAX
            (if has_open \<or> has_shellexec then
               ''autorun.inf present and specifies a launch command ('' @
               (if has_open then ''open='' else ''shellexecute='') @ '')''
             else ''autorun.inf present ('' @ dec_of_nat (length buf) @ '' bytes), no launch command found''),
          f_path = snprintf_buf USBS_FINDING_PATH_MAX name\<rparr>)"

definition detect_autorun ::
  "nat \<Rightarrow> 'w platform \<Rightarrow> detect_context \<Rightarrow> usbs_check_result \<Rightarrow> 'w \<Rightarrow> (usbs_status \<times> usbs_check_result \<times> 'w) option" where
  "detect_autorun fuel P ctx out_result w =
     (case dc_volume_path ctx of
        None \<Rightarrow> Some (USBS_ERR_INVALID_ARG, out_result, w)
      | Some vol \<Rightarrow>
          (let r0 = usbs_check_result_init AUTORUN_ID
           in (case find_autorun_name fuel P vol USBS_NAME_MAX w of
                 None \<Rightarrow> None
               | Some (found, w1) \<Rightarrow>
                   (let name = (case found of Some n \<Rightarrow> n | None \<Rightarrow> snprintf_buf USBS_NAME_MAX AUTORUN_FILENAME)
                    in (case usbs_path_join (p_host P) (USBS_VOLUME_PATH_MAX + USBS_NAME_MAX) vol name of
                          (st, path) \<Rightarrow>
                            if \<not> usbs_ok st then
                              Some (USBS_OK, usbs_check_result_set_failed r0 (Some ''path too long''), w1)
                            else
                              (case file_open_read P path w1 of
                                 (Inl st, w2) \<Rightarrow>
                                   if st = USBS_ERR_NOT_FOUND then Some (USBS_OK, r0, w2)
                                   else Some (USBS_OK, usbs_check_result_set_failed r0 (Some (usbs_status_string st)), w2)
                               | (Inr fh, w2) \<Rightarrow>
                                   (case the (autorun_read_loop (Suc AUTORUN_MAX_READ) P fh [] w2) of
                                      (Inl st, w3) \<Rightarrow>
                                        Some (USBS_OK, usbs_check_result_set_failed r0 (Some (usbs_status_string st)),
                                              file_close P fh w3)
                                    | (Inr buf, w3) \<Rightarrow>
                                        Some (USBS_OK,
                                              r0\<lparr>findings := snd (usbs_finding_list_push (p_mem P) (findings r0)
                                                    (autorun_finding name buf))\<rparr>,
                                              file_close P fh w3))))))))"

section \<open>Comparison\<close>

lemma fold_case_eq:
  "list_all2 (\<lambda>a b. lower_ascii a = lower_ascii b) xs ys \<longleftrightarrow> fold_case xs = fold_case ys"
  by (simp add: list_all2_conv_all_nth list_eq_iff_nth_eq) (metis nth_map)

lemma autorun_filename [simp]: "AUTORUN_FILENAME \<noteq> []" "[] \<noteq> AUTORUN_FILENAME"
    "fold_case AUTORUN_FILENAME = AUTORUN_FILENAME"
  by (simp_all add: AUTORUN_FILENAME_def lower_ascii_def less_eq_char_def)

lemma contains_ci_sublist: "contains_ci h n \<longleftrightarrow> n \<noteq> [] \<and> sublist (fold_case n) (fold_case h)"
proof (cases "n = []")
  case False
  have "contains_ci h n \<longleftrightarrow>
      (\<exists>i \<in> set [0..<length h - length n + 1]. length n \<le> length h \<and> fold_case (take (length n) (drop i h)) = fold_case n)"
    using False unfolding contains_ci_def list_ex_iff fold_case_eq by auto
  also have "\<dots> \<longleftrightarrow> (\<exists>i \<le> length h - length n. length n \<le> length h \<and> fold_case (take (length n) (drop i h)) = fold_case n)"
    by (auto simp: Bex_def le_less)
  also have "\<dots> \<longleftrightarrow> sublist (fold_case n) (fold_case h)"
  proof
    assume "\<exists>i \<le> length h - length n. length n \<le> length h \<and> fold_case (take (length n) (drop i h)) = fold_case n"
    then obtain i where "fold_case (take (length n) (drop i h)) = fold_case n" by blast
    then have "fold_case h = fold_case (take i h) @ fold_case n @ fold_case (drop (length n) (drop i h))"
      by (metis append_take_drop_id map_append)
    then show "sublist (fold_case n) (fold_case h)" by (auto simp: sublist_def)
  next
    assume "sublist (fold_case n) (fold_case h)"
    then obtain ps ss where e: "fold_case h = ps @ fold_case n @ ss" by (auto simp: sublist_def)
    then have len: "length h = length ps + length n + length ss" by (metis add.assoc length_append length_map)
    have "fold_case (take (length n) (drop (length ps) h)) = take (length n) (drop (length ps) (fold_case h))"
      by (simp add: take_map drop_map)
    also have "\<dots> = fold_case n" by (simp add: e)
    finally show "\<exists>i \<le> length h - length n. length n \<le> length h \<and> fold_case (take (length n) (drop i h)) = fold_case n"
      using len by (intro exI [of _ "length ps"]) simp
  qed
  finally show ?thesis using False by simp
qed (simp add: contains_ci_def)

lemma equals_ci_fold: "equals_ci a b \<longleftrightarrow> fold_case a = fold_case b"
  by (induction a b rule: equals_ci.induct) auto

section \<open>The search\<close>

lemma find_autorun_loop_spec:
  "dir_list fuel P it w = Some (es, fin, w') \<Longrightarrow>
   \<exists>w''. find_autorun_loop fuel P it cap w = Some
     (case find (\<lambda>e. \<not> is_directory e \<and> fold_case (entry_name e) = AUTORUN_FILENAME) es of
        None \<Rightarrow> None
      | Some e \<Rightarrow> if length (entry_name e) < cap then Some (entry_name e) else None, w'')"
proof (induction fuel P it cap w arbitrary: es rule: find_autorun_loop.induct)
  case (2 fuel P it cap w)
  have name: "equals_ci n AUTORUN_FILENAME \<longleftrightarrow> fold_case n = AUTORUN_FILENAME" for n
    by (simp add: equals_ci_fold)
  obtain r w1 where r: "dir_next P it w = (r, w1)" by fastforce
  show ?case
  proof (cases r)
    case (Inl st)
    with 2(3) r show ?thesis by simp
  next
    case (Inr e)
    with 2(3) r obtain es1 where es1: "dir_list fuel P it w1 = Some (es1, fin, w')" "es = e # es1"
      by (auto split: option.splits)
    show ?thesis
    proof (cases "\<not> is_directory e \<and> fold_case (entry_name e) = AUTORUN_FILENAME")
      case True
      then have "entry_name e \<noteq> []" by auto
      with True es1(2) r Inr show ?thesis by (simp add: name)
    next
      case False
      with 2(1) [OF r [symmetric] Inr _ es1(1)] 2(2) [OF r [symmetric] Inr _ _ es1(1)] es1(2) r Inr show ?thesis
        by (auto simp: name)
    qed
  qed
qed simp

lemma autorun_read_loop_total:
  assumes "0 < fuel" and "AUTORUN_MAX_READ < fuel + length buf"
  shows "\<exists>r. autorun_read_loop fuel P fh buf w = Some r"
  using assms
proof (induction fuel P fh buf w rule: autorun_read_loop.induct)
  case (2 fuel P fh buf w)
  show ?case
    using 2 by (cases fuel) (auto simp: neq_Nil_conv split: prod.splits sum.splits)
qed auto


text \<open>
  The search finds autorun.inf under any capitalisation: when the root lists the entries \<open>es\<close>
  (no name longer than the platform's limit), the name used is the on-disk spelling of the first
  one that is not a directory and equals autorun.inf up to ASCII case, and none is found exactly
  when there is none.
\<close>

theorem autorun_any_spelling:
  assumes "dir_open P vol w = (Inr it, w1)" and "dir_list fuel P it w1 = Some (es, fin, w2)"
    and "\<forall>e \<in> set es. length (entry_name e) < USBS_NAME_MAX"
  shows "\<exists>w'. find_autorun_name fuel P vol USBS_NAME_MAX w =
    Some (map_option entry_name
      (find (\<lambda>e. \<not> is_directory e \<and> fold_case (entry_name e) = AUTORUN_FILENAME) es), w')"
proof -
  let ?f = "find (\<lambda>e. \<not> is_directory e \<and> fold_case (entry_name e) = AUTORUN_FILENAME) es"
  have "?f = Some e \<Longrightarrow> length (entry_name e) < USBS_NAME_MAX" for e
    using assms(3) by (auto simp: find_Some_iff)
  then have "(case ?f of None \<Rightarrow> None
      | Some e \<Rightarrow> if length (entry_name e) < USBS_NAME_MAX then Some (entry_name e) else None) = map_option entry_name ?f"
    by (auto split: option.splits)
  with find_autorun_loop_spec [OF assms(2), of USBS_NAME_MAX] assms(1) show ?thesis
    by (auto simp: find_autorun_name_def)
qed

lemma autorun_any_spelling_witness:
  "\<exists>w'. find_autorun_name 3 root_listing ''/m'' USBS_NAME_MAX [fixture_entry ''a'' 0, fixture_entry ''AutoRun.INF'' 0] =
    Some (Some ''AutoRun.INF'', w')"
proof -
  have l: "dir_list 3 root_listing 1 [fixture_entry ''a'' 0, fixture_entry ''AutoRun.INF'' 0] =
      Some ([fixture_entry ''a'' 0, fixture_entry ''AutoRun.INF'' 0], USBS_ERR_NOT_FOUND, [])"
    by (simp add: root_listing_def numeral_3_eq_3)
  have o: "dir_open root_listing ''/m'' w = (Inr 1, w)" for w by (simp add: root_listing_def)
  have f: "map_option entry_name
      (find (\<lambda>e. \<not> is_directory e \<and> fold_case (entry_name e) = AUTORUN_FILENAME)
        [fixture_entry ''a'' 0, fixture_entry ''AutoRun.INF'' 0]) = Some ''AutoRun.INF''"
    by code_simp
  show ?thesis
    using autorun_any_spelling [OF o l] unfolding f by (simp add: fixture_entry_def USBS_NAME_MAX_def)
qed

text \<open>
  Reading autorun.inf decides the severity: when the file opens and its reads deliver \<open>buf\<close>, the
  check ran and has exactly one finding, under the on-disk name, at WARNING if the text up to the
  first NUL contains open= or shellexecute= in any case, and at INFO otherwise.
\<close>

theorem autorun_verdict:
  assumes "dc_volume_path ctx = Some vol"
    and "find_autorun_name fuel P vol USBS_NAME_MAX w = Some (Some name, w1)"
    and "usbs_path_join (p_host P) (USBS_VOLUME_PATH_MAX + USBS_NAME_MAX) vol name = (USBS_OK, path)"
    and "file_open_read P path w1 = (Inr fh, w2)"
    and "autorun_read_loop (Suc AUTORUN_MAX_READ) P fh [] w2 = Some (Inr buf, w3)"
    and "p_mem P = mem_always"
  shows "\<exists>r f. detect_autorun fuel P ctx result w = Some (USBS_OK, r, file_close P fh w3) \<and>
    check_status r = USBS_CHECK_RAN \<and> v_items (findings r) = [f] \<and>
    f_path f = snprintf_buf USBS_FINDING_PATH_MAX name \<and>
    severity f =
      (if sublist ''open='' (fold_case (cstr buf)) \<or> sublist ''shellexecute='' (fold_case (cstr buf))
       then USBS_SEVERITY_WARNING else USBS_SEVERITY_INFO)"
proof -
  have push: "v_items (snd (usbs_finding_list_push mem_always (findings (usbs_check_result_init n)) f)) = [f]" for n f
    by (simp add: usbs_finding_list_push_def vec_push_def usbs_check_result_init_def usbs_finding_list_init_def
        vec_init_def mem_always SIZE_MAX_def SIZEOF_FINDING_def)
  have fold: "fold_case ''open='' = ''open=''" "fold_case ''shellexecute='' = ''shellexecute=''"
    by (simp_all add: lower_ascii_def less_eq_char_def)
  show ?thesis
    using assms push
    by (auto simp: detect_autorun_def autorun_finding_def contains_ci_sublist fold Let_def
        usbs_check_result_init_def simp del: list.map)
qed

lemma autorun_verdict_witness:
  "\<exists>r f. detect_autorun 3 root_listing fixture_ctx (usbs_check_result_init ''x'') [fixture_entry ''AutoRun.INF'' 0] =
      Some (USBS_OK, r, file_close root_listing 1 []) \<and>
    check_status r = USBS_CHECK_RAN \<and> v_items (findings r) = [f] \<and>
    f_path f = snprintf_buf USBS_FINDING_PATH_MAX ''AutoRun.INF'' \<and>
    severity f =
      (if sublist ''open='' (fold_case (cstr [])) \<or> sublist ''shellexecute='' (fold_case (cstr []))
       then USBS_SEVERITY_WARNING else USBS_SEVERITY_INFO)"
proof (rule autorun_verdict)
  show "dc_volume_path fixture_ctx = Some ''/m/''" by (simp add: fixture_ctx_def)
  show "find_autorun_name 3 root_listing ''/m/'' USBS_NAME_MAX [fixture_entry ''AutoRun.INF'' 0] =
      Some (Some ''AutoRun.INF'', [])"
    by code_simp
  show "usbs_path_join (p_host root_listing) (USBS_VOLUME_PATH_MAX + USBS_NAME_MAX) ''/m/'' ''AutoRun.INF'' =
      (USBS_OK, ''/m/AutoRun.INF'')"
    by code_simp
  show "file_open_read root_listing ''/m/AutoRun.INF'' [] = (Inr 1, [])" by (simp add: root_listing_def)
  show "autorun_read_loop (Suc AUTORUN_MAX_READ) root_listing 1 [] [] = Some (Inr [], [])"
  proof -
    have "0 < AUTORUN_MAX_READ" by (simp add: AUTORUN_MAX_READ_def)
    then show ?thesis by (simp add: root_listing_def)
  qed
  show "p_mem root_listing = mem_always" by (simp add: root_listing_def)
qed

end
