(* ===== verification/Detectors.thy ===== *)
theory Detectors
  imports SuspiciousName Lnk HashMatch Autorun
begin

text \<open>
  The detector interface of include/usbsentinel/detector.h and the fixed registry of
  src/detectors/registry.c. A callback is a function of everything it can reach: its context, the
  file, its own result, the hash detector's process-wide cache and the world. The locale
  \<open>on_file_detector\<close> is the contract the header states in prose, that a callback only ever appends
  findings to its own result; it is interpreted on the three callbacks of the registry.
\<close>

section \<open>Detectors as data\<close>

type_synonym 'w on_file_fn =
  "detect_context option \<Rightarrow> string \<Rightarrow> usbs_dir_entry \<Rightarrow> usbs_check_result \<Rightarrow> hash_globals \<Rightarrow> 'w \<Rightarrow>
     (usbs_status \<times> usbs_check_result \<times> hash_globals \<times> 'w) option"

type_synonym 'w run_fn =
  "detect_context \<Rightarrow> usbs_check_result \<Rightarrow> 'w \<Rightarrow> (usbs_status \<times> usbs_check_result \<times> 'w) option"

record 'w usbs_detector =
  det_id :: string
  det_run :: "'w run_fn option"
  det_on_file :: "'w on_file_fn option"

definition suspicious_on_file :: "'w platform \<Rightarrow> 'w on_file_fn" where
  "suspicious_on_file P dctx path entry r g w =
     (case suspicious_filename_on_file (p_mem P) dctx path entry r of (st, r') \<Rightarrow> Some (st, r', g, w))"

definition lnk_inspect_on_file :: "'w platform \<Rightarrow> 'w on_file_fn" where
  "lnk_inspect_on_file P dctx path entry r g w =
     (case lnk_on_file P dctx path entry r w of (st, r', w') \<Rightarrow> Some (st, r', g, w'))"

definition usbs_detector_autorun :: "nat \<Rightarrow> 'w platform \<Rightarrow> 'w usbs_detector" where
  "usbs_detector_autorun fuel P =
     \<lparr>det_id = AUTORUN_ID, det_run = Some (detect_autorun fuel P), det_on_file = None\<rparr>"

definition usbs_detector_suspicious_filename :: "'w platform \<Rightarrow> 'w usbs_detector" where
  "usbs_detector_suspicious_filename P =
     \<lparr>det_id = ''suspicious_filename'', det_run = None, det_on_file = Some (suspicious_on_file P)\<rparr>"

definition usbs_detector_lnk_inspect :: "'w platform \<Rightarrow> 'w usbs_detector" where
  "usbs_detector_lnk_inspect P =
     \<lparr>det_id = ''lnk_inspection'', det_run = None, det_on_file = Some (lnk_inspect_on_file P)\<rparr>"

definition usbs_detector_hash_match ::
  "(usbs_signature list \<Rightarrow> usbs_signature list) \<Rightarrow> nat \<Rightarrow> 'w platform \<Rightarrow> 'w usbs_detector" where
  "usbs_detector_hash_match srt fuel P =
     \<lparr>det_id = ''hash_match_example'', det_run = None, det_on_file = Some (hash_match_on_file srt fuel P)\<rparr>"

section \<open>The registry\<close>

definition k_detectors ::
  "(usbs_signature list \<Rightarrow> usbs_signature list) \<Rightarrow> nat \<Rightarrow> 'w platform \<Rightarrow> 'w usbs_detector list" where
  "k_detectors srt fuel P =
     [usbs_detector_autorun fuel P, usbs_detector_suspicious_filename P, usbs_detector_lnk_inspect P,
      usbs_detector_hash_match srt fuel P]"

definition usbs_detector_count ::
  "(usbs_signature list \<Rightarrow> usbs_signature list) \<Rightarrow> nat \<Rightarrow> 'w platform \<Rightarrow> nat" where
  "usbs_detector_count srt fuel P = length (k_detectors srt fuel P)"

definition usbs_detector_at ::
  "(usbs_signature list \<Rightarrow> usbs_signature list) \<Rightarrow> nat \<Rightarrow> 'w platform \<Rightarrow> nat \<Rightarrow> 'w usbs_detector option" where
  "usbs_detector_at srt fuel P index =
     (if index \<ge> usbs_detector_count srt fuel P then None else Some (k_detectors srt fuel P ! index))"

section \<open>The contract of a per-file detector\<close>

text \<open>
  What a result may become: the same check, still ran, with findings appended.
\<close>

definition only_appends :: "usbs_check_result \<Rightarrow> usbs_check_result \<Rightarrow> bool" where
  "only_appends r r' \<longleftrightarrow>
     check_id r' = check_id r \<and> check_status r' = check_status r \<and> skip_reason r' = skip_reason r \<and>
     prefix (v_items (findings r)) (v_items (findings r')) \<and> (check_wf r \<longrightarrow> check_wf r')"

lemma only_appends_refl [intro, simp]: "only_appends r r"
  by (simp add: only_appends_def)

lemma only_appends_trans [trans]: "only_appends r r' \<Longrightarrow> only_appends r' r'' \<Longrightarrow> only_appends r r''"
  unfolding only_appends_def by (metis prefix_order.trans)

lemma push_result_items:
  "v_items (snd (usbs_finding_list_push mem l f)) = v_items l \<or>
   v_items (snd (usbs_finding_list_push mem l f)) = v_items l @ [f]"
proof (cases "usbs_finding_list_push mem l f")
  case (Pair st l')
  then show ?thesis
    using finding_list.push_ok [of mem l f l'] finding_list.push_error [of mem l f st l'] by (cases "st = USBS_OK") auto
qed

lemma only_appends_push:
  assumes "finding_wf f" and "check_status r = USBS_CHECK_RAN"
  shows "only_appends r (r\<lparr>findings := snd (usbs_finding_list_push mem (findings r) f)\<rparr>)"
  using push_result_items [of mem "findings r" f] check_wf_push [of r f mem] assms
  by (auto simp: only_appends_def)

lemma only_appends_fields:
  "length m < USBS_CHECK_MESSAGE_MAX \<Longrightarrow> only_appends r (r\<lparr>check_message := m\<rparr>)"
  "only_appends r (r\<lparr>policy_suppressed := n\<rparr>)"
  "only_appends r (r\<lparr>policy_lowered := n\<rparr>)"
  by (auto simp: only_appends_def check_wf_def)

lemma finding_wf_snprintf [simp]:
  "finding_wf \<lparr>severity = s, f_message = snprintf_buf USBS_FINDING_MESSAGE_MAX m,
     f_path = snprintf_buf USBS_FINDING_PATH_MAX p\<rparr>"
  by (auto simp: finding_wf_def usbs_scan_sizes snprintf_buf_def min_less_iff_disj)

locale on_file_detector =
  fixes callback :: "'w on_file_fn"
  assumes appends: "callback dctx path entry r g w = Some (st, r', g', w') \<Longrightarrow>
    check_status r = USBS_CHECK_RAN \<Longrightarrow> only_appends r r'"
begin

lemma keeps_status:
  "callback dctx path entry r g w = Some (st, r', g', w') \<Longrightarrow> check_status r = USBS_CHECK_RAN \<Longrightarrow>
     check_status r' = USBS_CHECK_RAN"
  using appends [of dctx path entry r g w st r' g' w'] by (simp add: only_appends_def)

end

section \<open>The three callbacks satisfy it\<close>

lemma only_appends_lowered:
  "only_appends r r1 \<Longrightarrow> only_appends r (r1\<lparr>policy_lowered := n\<rparr>)"
  using only_appends_trans only_appends_fields(3) by blast

lemma push_finding_appends:
  "check_status r = USBS_CHECK_RAN \<Longrightarrow> only_appends r (push_finding mem r sev path m)"
  unfolding push_finding_def by (rule only_appends_push) simp_all

lemma suppress_appends: "only_appends r (suppress r)"
  unfolding suppress_def by (rule only_appends_fields)

lemma judge_lnk_appends:
  "check_status r = USBS_CHECK_RAN \<Longrightarrow> only_appends r (judge_lnk mem policy path content hex r)"
  by (auto simp: judge_lnk_def Let_def intro: push_finding_appends suppress_appends split: option.splits)

interpretation suspicious_detector: on_file_detector "suspicious_on_file P"
proof
  fix dctx path entry r g and w :: 'a and st r' g' w'
  assume c: "suspicious_on_file P dctx path entry r g w = Some (st, r', g', w')"
    and ran: "check_status r = USBS_CHECK_RAN"
  have push: "only_appends r (r\<lparr>findings := snd (usbs_finding_list_push (p_mem P) (findings r)
       \<lparr>severity = s, f_message = snprintf_buf USBS_FINDING_MESSAGE_MAX m,
        f_path = snprintf_buf USBS_FINDING_PATH_MAX p\<rparr>)\<rparr>)" for s m p
    by (rule only_appends_push) (simp_all add: ran)
  from c show "only_appends r r'"
    by (auto simp: suspicious_on_file_def suspicious_filename_on_file_def Let_def
        intro!: push only_appends_lowered [OF push] only_appends_fields split: prod.splits if_splits)
qed

interpretation lnk_detector: on_file_detector "lnk_inspect_on_file P"
proof
  fix dctx path entry r g and w :: 'a and st r' g' w'
  assume c: "lnk_inspect_on_file P dctx path entry r g w = Some (st, r', g', w')"
    and ran: "check_status r = USBS_CHECK_RAN"
  from c show "only_appends r r'"
    by (auto simp: lnk_inspect_on_file_def lnk_on_file_def Let_def ran
        intro!: push_finding_appends judge_lnk_appends suppress_appends
        split: prod.splits if_splits option.splits sum.splits)
qed

lemma set_disclaimer_appends:
  "set_disclaimer srt P r g w = (r', g', w') \<Longrightarrow> only_appends r r' \<and> check_status r' = check_status r"
  by (auto simp: set_disclaimer_def USBS_CHECK_MESSAGE_MAX_def snprintf_buf_def
      intro!: only_appends_fields split: prod.splits)

interpretation hash_detector: on_file_detector "hash_match_on_file srt fuel P"
proof
  fix dctx path entry r g and w :: 'a and st r' g' w'
  assume c: "hash_match_on_file srt fuel P dctx path entry r g w = Some (st, r', g', w')"
    and ran: "check_status r = USBS_CHECK_RAN"
  obtain r1 g1 w1 where sd: "set_disclaimer srt P r g w = (r1, g1, w1)"
    by (cases "set_disclaimer srt P r g w") auto
  have a: "only_appends r r1" "check_status r1 = USBS_CHECK_RAN"
    using set_disclaimer_appends [OF sd] ran by simp_all
  have push: "only_appends r1 (r1\<lparr>findings := snd (usbs_finding_list_push (p_mem P) (findings r1)
       \<lparr>severity = s, f_message = snprintf_buf USBS_FINDING_MESSAGE_MAX m,
        f_path = snprintf_buf USBS_FINDING_PATH_MAX p\<rparr>)\<rparr>)" for s m p
    by (rule only_appends_push) (simp_all add: a)
  from c sd have "only_appends r1 r'"
    by (auto simp: hash_match_on_file_def Let_def
        intro!: push split: prod.splits if_splits option.splits sum.splits)
  with a(1) show "only_appends r r'" by (rule only_appends_trans)
qed

end
