(* ===== verification/Scanner.thy ===== *)
theory Scanner
  imports Detectors Storage
begin

text \<open>
  The scan of src/scanner/scanner.c: one depth-first walk that counts files and hands each to every
  per-file detector, and the orchestration around it. A directory listing need not end and
  directories may be created while the walk runs, so the walk has fuel and running out of it is
  \<open>None\<close>. The clock and the random generator of the C library are the record \<open>libc\<close>.
\<close>

section \<open>The traversal's state\<close>

definition USBS_SCAN_MAX_DEPTH :: nat where "USBS_SCAN_MAX_DEPTH = 64"
definition CHILD_PATH_MAX :: nat where "CHILD_PATH_MAX = 2048"
definition SIZEOF_ON_FILE_SLOT :: nat where "SIZEOF_ON_FILE_SLOT = 8 + SIZEOF_CHECK_RESULT"

record usbs_scan_progress =
  files_scanned :: usbs_u64
  bytes_scanned :: usbs_u64
  progress_paths_skipped :: usbs_u64

record 'w on_file_slot =
  slot_detector :: "'w usbs_detector"
  slot_result :: usbs_check_result

record 'w traverse_state =
  ts_cancel_check :: "('w \<Rightarrow> bool \<times> 'w) option"
  ts_on_progress :: "(usbs_scan_progress \<Rightarrow> 'w \<Rightarrow> 'w) option"
  ts_root_path :: string
  ts_file_count :: usbs_u64
  ts_byte_count :: usbs_u64
  ts_paths_skipped :: usbs_u64
  ts_paths_excluded :: usbs_u64
  ts_location_policy :: bool
  ts_cancelled :: bool
  ts_device_removed :: bool
  ts_detect_ctx :: detect_context
  ts_slots :: "'w on_file_slot list"
  ts_hash :: hash_globals

section \<open>Walking\<close>

definition root_still_reachable :: "'w platform \<Rightarrow> 'w traverse_state \<Rightarrow> 'w \<Rightarrow> bool \<times> 'w" where
  "root_still_reachable P ts w =
     (case dir_open P (ts_root_path ts) w of
        (Inl st, w1) \<Rightarrow> (False, w1)
      | (Inr probe, w1) \<Rightarrow> (True, dir_close P probe w1))"

definition classify_path_failure :: "'w platform \<Rightarrow> 'w traverse_state \<Rightarrow> 'w \<Rightarrow> 'w traverse_state \<times> 'w" where
  "classify_path_failure P ts w =
     (case root_still_reachable P ts w of
        (reachable, w1) \<Rightarrow>
          if reachable then (ts\<lparr>ts_paths_skipped := ts_paths_skipped ts + 1\<rparr>, w1)
          else (ts\<lparr>ts_device_removed := True\<rparr>, w1))"

definition poll_cancel :: "'w traverse_state \<Rightarrow> 'w \<Rightarrow> bool \<times> 'w" where
  "poll_cancel ts w = (case ts_cancel_check ts of None \<Rightarrow> (False, w) | Some f \<Rightarrow> f w)"

fun dispatch ::
  "detect_context \<Rightarrow> string \<Rightarrow> usbs_dir_entry \<Rightarrow> 'w on_file_slot list \<Rightarrow> hash_globals \<Rightarrow> 'w \<Rightarrow>
     ('w on_file_slot list \<times> hash_globals \<times> 'w) option" where
  "dispatch dctx path entry [] g w = Some ([], g, w)"
| "dispatch dctx path entry (s # ss) g w =
     (case the (det_on_file (slot_detector s)) (Some dctx) path entry (slot_result s) g w of
        None \<Rightarrow> None
      | Some (st, r, g1, w1) \<Rightarrow>
          map_option (\<lambda>(ss', rest). (s\<lparr>slot_result := r\<rparr> # ss', rest)) (dispatch dctx path entry ss g1 w1))"

definition visit_file ::
  "string \<Rightarrow> usbs_dir_entry \<Rightarrow> 'w traverse_state \<Rightarrow> 'w \<Rightarrow> ('w traverse_state \<times> 'w) option" where
  "visit_file path entry ts w =
     (let ts1 = ts\<lparr>ts_file_count := ts_file_count ts + 1, ts_byte_count := ts_byte_count ts + size_bytes entry\<rparr>;
          w1 = (case ts_on_progress ts1 of
                  None \<Rightarrow> w
                | Some f \<Rightarrow> f \<lparr>files_scanned = ts_file_count ts1, bytes_scanned = ts_byte_count ts1,
                               progress_paths_skipped = ts_paths_skipped ts1\<rparr> w)
      in map_option (\<lambda>(ss, g, w2). (ts1\<lparr>ts_slots := ss, ts_hash := g\<rparr>, w2))
           (dispatch (ts_detect_ctx ts1) path entry (ts_slots ts1) (ts_hash ts1) w1))"

definition is_excluded :: "'w traverse_state \<Rightarrow> string \<Rightarrow> bool" where
  "is_excluded ts child_path \<longleftrightarrow>
     ts_location_policy ts \<and>
     usbs_location_classify (usbs_location_relative (Some (ts_root_path ts)) child_path) =
       USBS_LOCATION_SELF_TEST_FIXTURES"

text \<open>
  \<open>walk_loop\<close> is the \<open>for\<close> loop of \<open>walk_dir\<close>: \<open>None\<close> in its first component is a \<open>break\<close>, which
  closes the iterator, \<open>Some st\<close> the \<open>return st\<close> inside it.
\<close>

fun walk_dir ::
    "nat \<Rightarrow> 'w platform \<Rightarrow> string \<Rightarrow> nat \<Rightarrow> 'w traverse_state \<Rightarrow> 'w \<Rightarrow> (usbs_status \<times> 'w traverse_state \<times> 'w) option"
  and walk_loop ::
    "nat \<Rightarrow> 'w platform \<Rightarrow> nat \<Rightarrow> string \<Rightarrow> nat \<Rightarrow> 'w traverse_state \<Rightarrow> 'w \<Rightarrow>
       (usbs_status option \<times> 'w traverse_state \<times> 'w) option" where
  "walk_dir 0 P dir_path depth ts w = None"
| "walk_dir (Suc fuel) P dir_path depth ts w =
     (if ts_cancelled ts \<or> ts_device_removed ts then Some (USBS_OK, ts, w)
      else if depth > USBS_SCAN_MAX_DEPTH then Some (USBS_OK, ts, w)
      else
        (case dir_open P dir_path w of
           (Inl st, w1) \<Rightarrow>
             if depth = 0 then Some (st, ts, w1)
             else (case classify_path_failure P ts w1 of (ts1, w2) \<Rightarrow> Some (USBS_OK, ts1, w2))
         | (Inr it, w1) \<Rightarrow>
             (case walk_loop fuel P it dir_path depth ts w1 of
                None \<Rightarrow> None
              | Some (ret, ts1, w2) \<Rightarrow>
                  (case ret of
                     Some st \<Rightarrow> Some (st, ts1, w2)
                   | None \<Rightarrow> Some (USBS_OK, ts1, dir_close P it w2)))))"
| "walk_loop 0 P it dir_path depth ts w = None"
| "walk_loop (Suc fuel) P it dir_path depth ts w =
     (case poll_cancel ts w of
        (cancel, w1) \<Rightarrow>
          if cancel then Some (None, ts\<lparr>ts_cancelled := True\<rparr>, w1)
          else
            (case dir_next P it w1 of
               (Inl st, w2) \<Rightarrow>
                 if st = USBS_ERR_NOT_FOUND then Some (None, ts, w2)
                 else (case classify_path_failure P ts w2 of (ts1, w3) \<Rightarrow> Some (None, ts1, w3))
             | (Inr entry, w2) \<Rightarrow>
                 if is_reparse_point entry then walk_loop fuel P it dir_path depth ts w2
                 else
                   (case usbs_path_join (p_host P) CHILD_PATH_MAX dir_path (entry_name entry) of
                      (st, child_path) \<Rightarrow>
                        if \<not> usbs_ok st then walk_loop fuel P it dir_path depth ts w2
                        else if is_directory entry then
                          (if is_excluded ts child_path
                           then walk_loop fuel P it dir_path depth
                                  (ts\<lparr>ts_paths_excluded := ts_paths_excluded ts + 1\<rparr>) w2
                           else
                             (case walk_dir fuel P child_path (depth + 1) ts w2 of
                                None \<Rightarrow> None
                              | Some (st2, ts1, w3) \<Rightarrow>
                                  if \<not> usbs_ok st2 then Some (Some st2, ts1, w3)
                                  else if ts_cancelled ts1 \<or> ts_device_removed ts1 then Some (None, ts1, w3)
                                  else walk_loop fuel P it dir_path depth ts1 w3))
                        else
                          (case visit_file child_path entry ts w2 of
                             None \<Rightarrow> None
                           | Some (ts1, w3) \<Rightarrow> walk_loop fuel P it dir_path depth ts1 w3))))"

section \<open>Identifiers and time stamps\<close>

record 'w libc =
  c_srand_time :: "'w \<Rightarrow> 'w"
  c_rand :: "'w \<Rightarrow> nat \<times> 'w"
  c_utc :: "'w \<Rightarrow> string option \<times> 'w"

definition hex4 :: "nat \<Rightarrow> string" where
  "hex4 n = [hex_lower (n div 4096 mod 16), hex_lower (n div 256 mod 16), hex_lower (n div 16 mod 16), hex_lower (n mod 16)]"

definition generate_scan_id :: "'w libc \<Rightarrow> nat \<Rightarrow> bool \<Rightarrow> 'w \<Rightarrow> string \<times> bool \<times> 'w" where
  "generate_scan_id C cap seeded w =
     (let w0 = (if seeded then w else c_srand_time C w)
      in (case c_rand C w0 of
            (r1, w1) \<Rightarrow>
              (case c_rand C w1 of
                 (r2, w2) \<Rightarrow>
                   (case c_rand C w2 of
                      (r3, w3) \<Rightarrow>
                        (case c_rand C w3 of
                           (r4, w4) \<Rightarrow>
                             (snprintf_buf cap (hex4 (r1 mod 65536) @ hex4 (r2 mod 65536) @ hex4 (r3 mod 65536) @ hex4 (r4 mod 65536)),
                              True, w4))))))"

definition now_utc_iso8601 :: "'w libc \<Rightarrow> nat \<Rightarrow> 'w \<Rightarrow> string \<times> 'w" where
  "now_utc_iso8601 C cap w =
     (case c_utc C w of
        (r, w1) \<Rightarrow>
          (case r of
             Some s \<Rightarrow> if s = [] \<or> length s \<ge> cap then (snprintf_buf cap ''1970-01-01T00:00:00Z'', w1) else (s, w1)
           | None \<Rightarrow> (snprintf_buf cap ''1970-01-01T00:00:00Z'', w1)))"

section \<open>Orchestration\<close>

fun run_whole_check_detectors ::
  "allocator \<Rightarrow> 'w usbs_detector list \<Rightarrow> detect_context \<Rightarrow> usbs_check_list \<Rightarrow> 'w \<Rightarrow> (usbs_check_list \<times> 'w) option" where
  "run_whole_check_detectors mem [] ctx cs w = Some (cs, w)"
| "run_whole_check_detectors mem (d # ds) ctx cs w =
     (case det_run d of
        None \<Rightarrow> run_whole_check_detectors mem ds ctx cs w
      | Some run \<Rightarrow>
          (case run ctx (usbs_check_result_init (det_id d)) w of
             None \<Rightarrow> None
           | Some (st, result, w1) \<Rightarrow>
               run_whole_check_detectors mem ds ctx (snd (usbs_check_list_push mem cs result)) w1))"

definition skipped_check :: "string \<Rightarrow> string \<Rightarrow> usbs_check_result" where
  "skipped_check i reason = usbs_check_result_set_skipped (usbs_check_result_init i) (Some reason)"

fun skip_whole_check_detectors ::
  "allocator \<Rightarrow> 'w usbs_detector list \<Rightarrow> string \<Rightarrow> usbs_check_list \<Rightarrow> usbs_check_list" where
  "skip_whole_check_detectors mem [] reason cs = cs"
| "skip_whole_check_detectors mem (d # ds) reason cs =
     (case det_run d of
        None \<Rightarrow> skip_whole_check_detectors mem ds reason cs
      | Some _ \<Rightarrow>
          skip_whole_check_detectors mem ds reason
            (snd (usbs_check_list_push mem cs (skipped_check (det_id d) reason))))"

definition describe_location_policy :: "usbs_check_result \<Rightarrow> usbs_check_result" where
  "describe_location_policy check =
     (if policy_suppressed check = 0 \<and> policy_lowered check = 0 then check
      else
        (let len = length (check_message check)
         in if len + 1 \<ge> USBS_CHECK_MESSAGE_MAX then check
            else check\<lparr>check_message := check_message check @
                   snprintf_buf (USBS_CHECK_MESSAGE_MAX - len)
                     ((if len > 0 then ''; '' else []) @ ''internal-drive location policy: '' @
                      dec_of_nat (unat (policy_suppressed check)) @
                      '' match(es) in OS-generated or dependency locations not reported, '' @
                      dec_of_nat (unat (policy_lowered check)) @ '' reported at lowered severity'')\<rparr>))"

definition prepare_on_file_slots ::
  "allocator \<Rightarrow> 'w usbs_detector list \<Rightarrow> usbs_status + 'w on_file_slot list" where
  "prepare_on_file_slots mem ds =
     (if ds = [] then Inr []
      else if \<not> mem (length ds * SIZEOF_ON_FILE_SLOT) then Inl USBS_ERR_NO_MEMORY
      else Inr (map (\<lambda>d. \<lparr>slot_detector = d, slot_result = usbs_check_result_init (det_id d)\<rparr>)
             (filter (\<lambda>d. det_on_file d \<noteq> None) ds)))"

text \<open>
  The traversal check's message is built by three \<open>snprintf\<close> calls, each continuing where the
  previous one would have ended; the second component is \<open>written\<close>.
\<close>

definition msg_append :: "string \<times> nat \<Rightarrow> string \<Rightarrow> string \<times> nat" where
  "msg_append acc s =
     (case acc of
        (buf, written) \<Rightarrow>
          if 0 < written \<and> written < USBS_CHECK_MESSAGE_MAX
          then (buf @ snprintf_buf (USBS_CHECK_MESSAGE_MAX - written) s, written + length s) else acc)"

definition traversal_message :: "'w traverse_state \<Rightarrow> string" where
  "traversal_message ts =
     (let first = (if ts_cancelled ts then ''cancelled''
                   else if ts_device_removed ts then ''device disconnected'' else ''completed'') @ '': '' @
                  dec_of_nat (unat (ts_file_count ts)) @ '' file(s), '' @
                  dec_of_nat (unat (ts_byte_count ts)) @ '' byte(s)'';
          m1 = (snprintf_buf USBS_CHECK_MESSAGE_MAX first, length first);
          m2 = (if ts_paths_skipped ts > 0
                then msg_append m1 ('', '' @ dec_of_nat (unat (ts_paths_skipped ts)) @
                       '' location(s) skipped (access denied or unavailable)'')
                else m1);
          m3 = (if ts_paths_excluded ts > 0
                then msg_append m2 ('', '' @ dec_of_nat (unat (ts_paths_excluded ts)) @
                       '' location(s) excluded (USB Sentinel test fixtures)'')
                else m2)
      in fst m3)"

definition initial_traverse_state ::
  "('w \<Rightarrow> bool \<times> 'w) option \<Rightarrow> (usbs_scan_progress \<Rightarrow> 'w \<Rightarrow> 'w) option \<Rightarrow> usbs_device \<Rightarrow> detect_context \<Rightarrow>
     'w on_file_slot list \<Rightarrow> hash_globals \<Rightarrow> 'w traverse_state" where
  "initial_traverse_state cancel_check on_progress device dctx slots g =
     \<lparr>ts_cancel_check = cancel_check, ts_on_progress = on_progress, ts_root_path = volume_path device,
      ts_file_count = 0, ts_byte_count = 0, ts_paths_skipped = 0, ts_paths_excluded = 0,
      ts_location_policy = usbs_location_policy_applies (Some device), ts_cancelled = False,
      ts_device_removed = False, ts_detect_ctx = dctx, ts_slots = slots, ts_hash = g\<rparr>"

definition push_checks :: "allocator \<Rightarrow> usbs_check_list \<Rightarrow> usbs_check_result list \<Rightarrow> usbs_check_list" where
  "push_checks mem cs rs = fold (\<lambda>r cs. snd (usbs_check_list_push mem cs r)) rs cs"

text \<open>The checks that follow the walk, given what it came to.\<close>

definition finish_checks ::
  "allocator \<Rightarrow> 'w usbs_detector list \<Rightarrow> usbs_status \<Rightarrow> 'w traverse_state \<Rightarrow> 'w \<Rightarrow> (usbs_check_list \<times> 'w) option" where
  "finish_checks mem ds walk_status ts w =
     (let traversal0 = usbs_check_result_init ''file_traversal'';
          traversal = (if \<not> usbs_ok walk_status
                       then usbs_check_result_set_failed traversal0 (Some (usbs_status_string walk_status))
                       else traversal0\<lparr>check_message := traversal_message ts\<rparr>);
          cs1 = snd (usbs_check_list_push mem vec_init traversal);
          incomplete = (\<not> usbs_ok walk_status \<or> ts_cancelled ts \<or> ts_device_removed ts)
      in if \<not> incomplete then
           map_option (\<lambda>(cs2, w1). (push_checks mem cs2 (map (\<lambda>s. describe_location_policy (slot_result s)) (ts_slots ts)), w1))
             (run_whole_check_detectors mem ds (ts_detect_ctx ts) cs1 w)
         else
           (let reason = (if \<not> usbs_ok walk_status then ''volume could not be read''
                          else if ts_cancelled ts then ''scan cancelled before this check ran''
                          else ''device disconnected before this check ran'')
            in Some (push_checks mem (skip_whole_check_detectors mem ds reason cs1)
                       (map (\<lambda>s. skipped_check (det_id (slot_detector s)) reason) (ts_slots ts)), w)))"

definition usbs_scanner_scan ::
  "(usbs_signature list \<Rightarrow> usbs_signature list) \<Rightarrow> nat \<Rightarrow> 'w platform \<Rightarrow> 'w libc \<Rightarrow> usbs_device \<Rightarrow> usbs_store \<Rightarrow>
     ('w \<Rightarrow> bool \<times> 'w) option \<Rightarrow> (usbs_scan_progress \<Rightarrow> 'w \<Rightarrow> 'w) option \<Rightarrow> bool \<Rightarrow> hash_globals \<Rightarrow> 'w \<Rightarrow>
     (usbs_scan_result \<times> bool \<times> hash_globals \<times> 'w) option" where
  "usbs_scanner_scan srt fuel P C device store cancel_check on_progress seeded g w =
     (case generate_scan_id C USBS_SCAN_ID_MAX seeded w of
        (sid, seeded1, w1) \<Rightarrow>
          (case now_utc_iso8601 C USBS_TIMESTAMP_MAX w1 of
             (started, w2) \<Rightarrow>
               (case probe_capabilities P device w2 of
                  (probe_status, caps, w3) \<Rightarrow>
                    (let seen =
                       (case usbs_device_identity device USBS_IDENTITY_MAX of
                          (st, identity) \<Rightarrow>
                            if usbs_ok st
                            then map_option (\<lambda>(_, _, w'). w') (usbs_store_last_scan fuel P store identity w3)
                            else Some w3)
                     in (case seen of
                           None \<Rightarrow> None
                         | Some w4 \<Rightarrow>
                             (let dctx = \<lparr>dc_device = Some device, dc_volume_path = Some (volume_path device),
                                          dc_capabilities = caps\<rparr>;
                                  ds = k_detectors srt fuel P;
                                  slots = (case prepare_on_file_slots (p_mem P) ds of Inl _ \<Rightarrow> [] | Inr ss \<Rightarrow> ss)
                              in (case walk_dir fuel P (volume_path device) 0
                                         (initial_traverse_state cancel_check on_progress device dctx slots g) w4 of
                                    None \<Rightarrow> None
                                  | Some (walk_status, ts, w5) \<Rightarrow>
                                      (case finish_checks (p_mem P) ds walk_status ts w5 of
                                         None \<Rightarrow> None
                                       | Some (cs, w6) \<Rightarrow>
                                           (case now_utc_iso8601 C USBS_TIMESTAMP_MAX w6 of
                                              (finished, w7) \<Rightarrow>
                                                Some (\<lparr>scan_id = sid, started_at = started, finished_at = finished,
                                                       scan_status =
                                                         (if \<not> usbs_ok walk_status \<or> ts_cancelled ts \<or> ts_device_removed ts
                                                          then USBS_SCAN_ABORTED else USBS_SCAN_COMPLETED),
                                                       scan_device = device, capabilities = caps, checks = cs,
                                                       paths_skipped = ts_paths_skipped ts,
                                                       paths_excluded = ts_paths_excluded ts\<rparr>,
                                                      seeded1, ts_hash ts, w7))))))))))"

end
