(* ===== verification/ScanOutcome.thy ===== *)
theory ScanOutcome
  imports Scanner
begin

text \<open>
  What every scan report contains, whatever the platform, the callbacks and the cancellation do:
  all five checks, in order and well formed, and no partial finding in an incomplete scan. The
  walk's part rests on the detector contract of \<open>on_file_detector\<close> alone.
\<close>

section \<open>Slots\<close>

definition slot_ok :: "'w on_file_slot \<Rightarrow> bool" where
  "slot_ok s \<longleftrightarrow>
     (\<exists>f. det_on_file (slot_detector s) = Some f \<and> on_file_detector f) \<and>
     check_status (slot_result s) = USBS_CHECK_RAN"

definition slot_grows :: "'w on_file_slot \<Rightarrow> 'w on_file_slot \<Rightarrow> bool" where
  "slot_grows s s' \<longleftrightarrow> slot_detector s' = slot_detector s \<and> only_appends (slot_result s) (slot_result s')"

definition slots_grow :: "'w traverse_state \<Rightarrow> 'w traverse_state \<Rightarrow> bool" where
  "slots_grow ts ts' \<longleftrightarrow>
     list_all2 slot_grows (ts_slots ts) (ts_slots ts') \<and> ts_detect_ctx ts' = ts_detect_ctx ts"

lemma slot_grows_refl [simp]: "list_all2 slot_grows ss ss"
  by (simp add: slot_grows_def list_all2_conv_all_nth)

lemma slots_grow_refl [simp, intro]:
  "ts_slots ts' = ts_slots ts \<Longrightarrow> ts_detect_ctx ts' = ts_detect_ctx ts \<Longrightarrow> slots_grow ts ts'"
  by (simp add: slots_grow_def slot_grows_def list_all2_conv_all_nth)

lemma slot_grows_trans: "slot_grows a b \<Longrightarrow> slot_grows b c \<Longrightarrow> slot_grows a c"
  unfolding slot_grows_def by (metis only_appends_trans)

lemma slot_grows_result [simp]: "slot_grows s (s\<lparr>slot_result := r\<rparr>) \<longleftrightarrow> only_appends (slot_result s) r"
  by (simp add: slot_grows_def)

lemma slots_grow_trans: "slots_grow a b \<Longrightarrow> slots_grow b c \<Longrightarrow> slots_grow a c"
  unfolding slots_grow_def
  using list_all2_trans [of slot_grows slot_grows slot_grows "ts_slots a" "ts_slots b" "ts_slots c"] slot_grows_trans
  by auto

lemma slot_ok_grows: "slot_ok s \<Longrightarrow> slot_grows s s' \<Longrightarrow> slot_ok s'"
  by (auto simp: slot_ok_def slot_grows_def only_appends_def)

lemma slots_ok_grow: "list_all slot_ok ss \<Longrightarrow> list_all2 slot_grows ss ss' \<Longrightarrow> list_all slot_ok ss'"
  by (auto simp: list_all_length list_all2_conv_all_nth intro: slot_ok_grows)

lemma dispatch_grows:
  "list_all slot_ok ss \<Longrightarrow> dispatch dctx path entry ss g w = Some (ss', g', w') \<Longrightarrow> list_all2 slot_grows ss ss'"
proof (induction dctx path entry ss g w arbitrary: ss' rule: dispatch.induct)
  case (2 dctx path entry s ss g w)
  from 2(2) obtain f where f: "det_on_file (slot_detector s) = Some f" "on_file_detector f"
      "check_status (slot_result s) = USBS_CHECK_RAN"
    by (auto simp: slot_ok_def)
  from 2(3) f(1) obtain st r g1 w1 ss1 where c: "f (Some dctx) path entry (slot_result s) g w = Some (st, r, g1, w1)"
      "dispatch dctx path entry ss g1 w1 = Some (ss1, g', w')" "ss' = s\<lparr>slot_result := r\<rparr> # ss1"
    by (auto split: option.splits)
  have "only_appends (slot_result s) r"
    using on_file_detector.appends [OF f(2) c(1) f(3)] .
  moreover have "list_all2 slot_grows ss ss1"
    using 2(1) [of "(st, r, g1, w1)"] c f(1) 2(2) by simp
  ultimately show ?case by (simp add: c(3))
qed simp

lemma classify_path_failure_slots:
  "classify_path_failure P ts w = (ts', w') \<Longrightarrow> ts_slots ts' = ts_slots ts \<and> ts_detect_ctx ts' = ts_detect_ctx ts"
  by (auto simp: classify_path_failure_def split: prod.splits if_splits)

lemma visit_file_grows:
  "list_all slot_ok (ts_slots ts) \<Longrightarrow> visit_file path entry ts w = Some (ts', w') \<Longrightarrow> slots_grow ts ts'"
  by (auto simp: visit_file_def Let_def slots_grow_def dest: dispatch_grows split: option.splits)

text \<open>The walk changes its state only by four kinds of step, so an invariant of those is one of it.\<close>

lemma walk_invariant:
  assumes cancel: "\<And>ts. Q ts \<Longrightarrow> Q (ts\<lparr>ts_cancelled := True\<rparr>)"
    and fail: "\<And>P ts w ts' w'. Q ts \<Longrightarrow> classify_path_failure P ts w = (ts', w') \<Longrightarrow> Q ts'"
    and excl: "\<And>ts. Q ts \<Longrightarrow> Q (ts\<lparr>ts_paths_excluded := ts_paths_excluded ts + 1\<rparr>)"
    and visit: "\<And>path entry ts w ts' w'. Q ts \<Longrightarrow> visit_file path entry ts w = Some (ts', w') \<Longrightarrow> Q ts'"
  shows "Q ts \<Longrightarrow> walk_dir fuel P dir_path depth ts w = Some (st, ts', w') \<Longrightarrow> Q ts'"
    and "Q ts \<Longrightarrow> walk_loop fuel P it dir_path depth ts w = Some (ret, ts', w') \<Longrightarrow> Q ts'"
proof (induction fuel P dir_path depth ts w and fuel P it dir_path depth ts w
    arbitrary: st ts' w' and ret ts' w' rule: walk_dir_walk_loop.induct)
  case (2 fuel P dir_path depth ts w)
  then show ?case
    by (auto split: if_splits prod.splits sum.splits option.splits dest: fail)
next
  case (4 fuel P it dir_path depth ts w)
  obtain c w1 where poll: "poll_cancel ts w = (c, w1)" by fastforce
  show ?case
  proof (cases c)
    case True
    with 4(7,8) poll show ?thesis by (auto intro: cancel)
  next
    case nc: False
    obtain r w2 where nx: "dir_next P it w1 = (r, w2)" by fastforce
    show ?thesis
    proof (cases r)
      case (Inl e)
      with 4(7,8) poll nc nx show ?thesis by (auto split: if_splits prod.splits dest: fail)
    next
      case (Inr entry)
      note pre = poll [symmetric] nc nx [symmetric] Inr
      obtain js child where join: "usbs_path_join (p_host P) CHILD_PATH_MAX dir_path (entry_name entry) = (js, child)"
        by fastforce
      consider (reparse) "is_reparse_point entry"
        | (long) "\<not> is_reparse_point entry" "\<not> usbs_ok js"
        | (excluded) "\<not> is_reparse_point entry" "usbs_ok js" "is_directory entry" "is_excluded ts child"
        | (dir) "\<not> is_reparse_point entry" "usbs_ok js" "is_directory entry" "\<not> is_excluded ts child"
        | (plain) "\<not> is_reparse_point entry" "usbs_ok js" "\<not> is_directory entry"
        by blast
      then show ?thesis
      proof cases
        case reparse
        with 4(1) [OF pre] 4(7,8) poll nc nx Inr show ?thesis by auto
      next
        case long
        with 4(2) [OF pre _ join [symmetric]] 4(7,8) poll nc nx Inr join show ?thesis by auto
      next
        case excluded
        with 4(3) [OF pre _ join [symmetric]] 4(7,8) poll nc nx Inr join excl [OF 4(7)] show ?thesis by auto
      next
        case plain
        with 4(8) poll nc nx Inr join obtain ts1 w3 where v: "visit_file child entry ts w2 = Some (ts1, w3)"
            "walk_loop fuel P it dir_path depth ts1 w3 = Some (ret, ts', w')"
          by (auto split: option.splits)
        from 4(6) [OF pre _ join [symmetric] _ _ v(1)] plain visit [OF 4(7) v(1)] v(2) show ?thesis by auto
      next
        case dir
        with 4(8) poll nc nx Inr join obtain st2 ts1 w3 where wd: "walk_dir fuel P child (depth + 1) ts w2 = Some (st2, ts1, w3)"
          by (auto split: option.splits)
        from 4(4) [OF pre _ join [symmetric]] dir 4(7) wd have q1: "Q ts1" by auto
        from 4(5) [OF pre _ join [symmetric] _ _ _ wd] dir q1 4(8) poll nc nx Inr join wd show ?thesis
          by (auto split: if_splits)
      qed
    qed
  qed
qed simp_all

lemma walk_grows:
  assumes "list_all slot_ok (ts_slots ts)" and "walk_dir fuel P dir_path depth ts w = Some (st, ts', w')"
  shows "slots_grow ts ts'"
proof -
  have "list_all slot_ok (ts_slots ts') \<and> slots_grow ts ts'"
  proof (rule walk_invariant(1) [OF _ _ _ _ _ assms(2)])
    fix path entry and t :: "'a traverse_state" and w t' w'
    assume t: "list_all slot_ok (ts_slots t) \<and> slots_grow ts t" and v: "visit_file path entry t w = Some (t', w')"
    have g: "slots_grow t t'" by (rule visit_file_grows [OF conjunct1 [OF t] v])
    with t show "list_all slot_ok (ts_slots t') \<and> slots_grow ts t'"
      using slots_ok_grow slots_grow_trans unfolding slots_grow_def by blast
  qed (use assms(1) in \<open>auto simp: slots_grow_def dest!: classify_path_failure_slots\<close>)
  then show ?thesis by blast
qed

section \<open>Checks\<close>

definition tight :: "'a vec \<Rightarrow> bool" where
  "tight v \<longleftrightarrow> length (v_items v) \<le> v_capacity v \<and> v_capacity v \<le> 8 + 2 * length (v_items v)"

lemma tight_init: "tight vec_init"
  by (simp add: tight_def vec_init_def)

text \<open>With an allocator that grants, an array grown by pushes alone never refuses one.\<close>

lemma vec_push_always:
  assumes "tight v" and "length (v_items v) < 2 ^ 32" and "0 < es" "es \<le> 2 ^ 16" and "0 < first" "first \<le> 8"
  shows "\<exists>v'. vec_push first es g mem_always v x = (USBS_OK, v') \<and> v_items v' = v_items v @ [x] \<and> tight v'"
proof -
  have "v_capacity v * 2 \<le> 2 ^ 40" using assms(1,2) by (auto simp: tight_def)
  moreover have "(2::nat) ^ 40 \<le> SIZE_MAX div es"
  proof -
    have "2 ^ 40 * es \<le> SIZE_MAX" using assms(4) by (simp add: SIZE_MAX_def)
    then show ?thesis using assms(3) by (simp add: less_eq_div_iff_mult_less_eq)
  qed
  ultimately have "\<not> v_capacity v * 2 > SIZE_MAX div es" "\<not> first > SIZE_MAX div es"
    using assms(6) by (linarith, simp)
  with assms(1,5,6) show ?thesis
    by (auto simp: vec_push_def mem_always tight_def Let_def)
qed

lemma check_push_always:
  assumes "tight cs" and "length (v_items cs) < 2 ^ 32"
  shows "v_items (snd (usbs_check_list_push mem_always cs r)) = v_items cs @ [r] \<and>
    tight (snd (usbs_check_list_push mem_always cs r))"
proof -
  obtain v' where "usbs_check_list_push mem_always cs r = (USBS_OK, v')" "v_items v' = v_items cs @ [r]" "tight v'"
    unfolding usbs_check_list_push_def
    using vec_push_always [OF assms, of SIZEOF_CHECK_RESULT 4 True r] by (auto simp: SIZEOF_CHECK_RESULT_def)
  then show ?thesis by simp
qed

lemma push_checks_always:
  "tight cs \<Longrightarrow> length (v_items cs) + length rs < 2 ^ 32 \<Longrightarrow>
   v_items (push_checks mem_always cs rs) = v_items cs @ rs \<and> tight (push_checks mem_always cs rs)"
proof (induction rs arbitrary: cs)
  case (Cons r rs)
  then show ?case using check_push_always [of cs r] by (simp add: push_checks_def)
qed (simp add: push_checks_def)

lemma skip_whole_always:
  "tight cs \<Longrightarrow> length (v_items cs) + length ds < 2 ^ 32 \<Longrightarrow>
   v_items (skip_whole_check_detectors mem_always ds reason cs) =
     v_items cs @ map (\<lambda>d. skipped_check (det_id d) reason) (filter (\<lambda>d. det_run d \<noteq> None) ds) \<and>
   tight (skip_whole_check_detectors mem_always ds reason cs)"
proof (induction ds arbitrary: cs)
  case (Cons d ds)
  then show ?case using check_push_always [of cs "skipped_check (det_id d) reason"] by (auto split: option.splits)
qed simp

text \<open>Each whole-check detector contributes one result, its own.\<close>

lemma run_whole_always:
  "run_whole_check_detectors mem_always ds ctx cs w = Some (cs', w') \<Longrightarrow>
   tight cs \<Longrightarrow> length (v_items cs) + length ds < 2 ^ 32 \<Longrightarrow>
   \<forall>d \<in> set ds. \<forall>run. det_run d = Some run \<longrightarrow>
     (\<forall>w st r w'. run ctx (usbs_check_result_init (det_id d)) w = Some (st, r, w') \<longrightarrow> Q d r) \<Longrightarrow>
   \<exists>rs. v_items cs' = v_items cs @ rs \<and> list_all2 Q (filter (\<lambda>d. det_run d \<noteq> None) ds) rs \<and> tight cs'"
proof (induction ds arbitrary: cs w)
  case (Cons d ds)
  show ?case
  proof (cases "det_run d")
    case None
    with Cons show ?thesis by simp
  next
    case (Some run)
    with Cons.prems(1) obtain st r w1 where r: "run ctx (usbs_check_result_init (det_id d)) w = Some (st, r, w1)"
        "run_whole_check_detectors mem_always ds ctx (snd (usbs_check_list_push mem_always cs r)) w1 = Some (cs', w')"
      by (auto split: option.splits)
    with Some Cons.prems(4) have q: "Q d r" by auto
    have p: "v_items (snd (usbs_check_list_push mem_always cs r)) = v_items cs @ [r]"
        "tight (snd (usbs_check_list_push mem_always cs r))"
      using check_push_always [of cs r] Cons.prems(2,3) by auto
    with Cons.IH [OF r(2)] Cons.prems(3,4)
    obtain rs where "v_items cs' = v_items cs @ r # rs" "list_all2 Q (filter (\<lambda>d. det_run d \<noteq> None) ds) rs" "tight cs'"
      by auto
    with q Some show ?thesis by (intro exI [of _ "r # rs"]) auto
  qed
qed simp

section \<open>Texts\<close>

definition msg_ok :: "string \<times> nat \<Rightarrow> bool" where
  "msg_ok acc \<longleftrightarrow> length (fst acc) < USBS_CHECK_MESSAGE_MAX \<and>
     (snd acc < USBS_CHECK_MESSAGE_MAX \<longrightarrow> length (fst acc) = snd acc)"

lemma msg_append_ok: "msg_ok acc \<Longrightarrow> msg_ok (msg_append acc s)"
  by (cases acc) (auto simp: msg_ok_def msg_append_def snprintf_buf_def)

lemma msg_ok_length: "msg_ok acc \<Longrightarrow> length (fst acc) < USBS_CHECK_MESSAGE_MAX"
  by (simp add: msg_ok_def)

lemma msg_ok_first: "msg_ok (snprintf_buf USBS_CHECK_MESSAGE_MAX s, length s)"
  by (auto simp: msg_ok_def snprintf_buf_def USBS_CHECK_MESSAGE_MAX_def)

lemma msg_append_if_ok: "msg_ok acc \<Longrightarrow> msg_ok (if b then msg_append acc s else acc)"
  by (simp add: msg_append_ok)

lemma traversal_message_fits: "length (traversal_message ts) < USBS_CHECK_MESSAGE_MAX"
  unfolding traversal_message_def Let_def by (intro msg_ok_length msg_append_if_ok msg_ok_first)

lemma check_wf_message: "check_wf r \<Longrightarrow> length m < USBS_CHECK_MESSAGE_MAX \<Longrightarrow> check_wf (r\<lparr>check_message := m\<rparr>)"
  by (simp add: check_wf_def)

lemma describe_policy_keeps:
  "check_id (describe_location_policy r) = check_id r \<and> (check_wf r \<longrightarrow> check_wf (describe_location_policy r))"
  by (auto simp: describe_location_policy_def Let_def check_wf_def snprintf_buf_def)

lemma detect_autorun_wf:
  assumes "detect_autorun fuel P ctx (usbs_check_result_init AUTORUN_ID) w = Some (st, r, w')"
  shows "check_id r = AUTORUN_ID \<and> check_wf r"
proof -
  have i: "check_id (usbs_check_result_init AUTORUN_ID) = AUTORUN_ID"
    by (simp add: usbs_check_result_init_def AUTORUN_ID_def USBS_CHECK_ID_MAX_def)
  have wf: "finding_wf (autorun_finding n b)" for n b
    by (simp add: autorun_finding_def Let_def)
  have push: "check_id ((usbs_check_result_init AUTORUN_ID)\<lparr>findings := l\<rparr>) = AUTORUN_ID"
      "check_wf ((usbs_check_result_init AUTORUN_ID)\<lparr>findings := snd (usbs_finding_list_push m
          (findings (usbs_check_result_init AUTORUN_ID)) (autorun_finding n b))\<rparr>)" for l m n b
    using check_wf_push [OF check_wf_init _ wf, of AUTORUN_ID m n b] i
    by (simp_all add: usbs_check_result_init_def)
  have failed: "check_id (usbs_check_result_set_failed (usbs_check_result_init AUTORUN_ID) m) = AUTORUN_ID"
      "check_wf (usbs_check_result_set_failed (usbs_check_result_init AUTORUN_ID) m)" for m
    using i by (simp add: usbs_check_result_set_failed_def) (rule check_wf_set_failed [OF check_wf_init])
  from assms i failed push show ?thesis
    by (auto simp: detect_autorun_def Let_def split: option.splits prod.splits sum.splits if_splits)
qed

section \<open>The report\<close>

definition check_ids :: "string list" where
  "check_ids = [''file_traversal'', ''autorun_inspection'', ''suspicious_filename'', ''lnk_inspection'', ''hash_match_example'']"

definition is_skipped :: "string \<Rightarrow> usbs_check_result \<Rightarrow> bool" where
  "is_skipped reason r \<longleftrightarrow> check_status r = USBS_CHECK_SKIPPED \<and> skip_reason r = reason \<and> v_items (findings r) = []"

abbreviation on_file_detectors where
  "on_file_detectors srt fuel P \<equiv>
     [usbs_detector_suspicious_filename P, usbs_detector_lnk_inspect P, usbs_detector_hash_match srt fuel P]"

abbreviation initial_slots where
  "initial_slots srt fuel P \<equiv>
     map (\<lambda>d. \<lparr>slot_detector = d, slot_result = usbs_check_result_init (det_id d)\<rparr>) (on_file_detectors srt fuel P)"

lemmas detector_defs =
  usbs_detector_autorun_def usbs_detector_suspicious_filename_def usbs_detector_lnk_inspect_def
  usbs_detector_hash_match_def

lemma initial_slots_eq:
  "prepare_on_file_slots mem_always (k_detectors srt fuel P) = Inr (initial_slots srt fuel P)"
  by (simp add: prepare_on_file_slots_def k_detectors_def mem_always detector_defs)

lemma initial_slots_ok: "list_all slot_ok (initial_slots srt fuel P)"
  using suspicious_detector.on_file_detector_axioms [of P] lnk_detector.on_file_detector_axioms [of P]
    hash_detector.on_file_detector_axioms [of srt fuel P]
  by (simp add: slot_ok_def detector_defs usbs_check_result_init_def)

lemma init_id: "length i < USBS_CHECK_ID_MAX \<Longrightarrow> check_id (usbs_check_result_init i) = i"
  by (simp add: usbs_check_result_init_def)

lemma skipped_check_spec:
  "length i < USBS_CHECK_ID_MAX \<Longrightarrow> length reason < USBS_SKIP_REASON_MAX \<Longrightarrow>
   check_id (skipped_check i reason) = i \<and> check_wf (skipped_check i reason) \<and> is_skipped reason (skipped_check i reason)"
proof -
  have "check_wf (skipped_check i reason)"
    unfolding skipped_check_def by (rule check_wf_set_skipped [OF check_wf_init])
  then show "length i < USBS_CHECK_ID_MAX \<Longrightarrow> length reason < USBS_SKIP_REASON_MAX \<Longrightarrow> ?thesis"
    by (simp add: skipped_check_def usbs_check_result_set_skipped_def usbs_check_result_init_def is_skipped_def
        finding_list.items_empty)
qed

lemma finish_checks_report:
  assumes f: "finish_checks mem_always (k_detectors srt fuel P) walk_status ts w = Some (cs, w')"
    and slots: "list_all2 slot_grows (initial_slots srt fuel P) (ts_slots ts)"
  shows "map check_id (v_items cs) = check_ids \<and> list_all check_wf (v_items cs) \<and>
    (\<not> usbs_ok walk_status \<or> ts_cancelled ts \<or> ts_device_removed ts \<longrightarrow>
       v_items (findings (hd (v_items cs))) = [] \<and> (\<exists>reason. list_all (is_skipped reason) (tl (v_items cs))))"
proof -
  let ?ds = "k_detectors srt fuel P"
  obtain s1 s2 s3 where ss: "ts_slots ts = [s1, s2, s3]"
    and grows: "slot_grows (\<lparr>slot_detector = usbs_detector_suspicious_filename P,
        slot_result = usbs_check_result_init ''suspicious_filename''\<rparr>) s1"
      "slot_grows (\<lparr>slot_detector = usbs_detector_lnk_inspect P,
        slot_result = usbs_check_result_init ''lnk_inspection''\<rparr>) s2"
      "slot_grows (\<lparr>slot_detector = usbs_detector_hash_match srt fuel P,
        slot_result = usbs_check_result_init ''hash_match_example''\<rparr>) s3"
    using slots by (auto simp: list_all2_Cons1 detector_defs)
  have slot: "check_id (slot_result s) = i \<and> check_wf (slot_result s) \<and> det_id (slot_detector s) = det_id d"
    if "slot_grows \<lparr>slot_detector = d, slot_result = usbs_check_result_init i\<rparr> s" "length i < USBS_CHECK_ID_MAX" for s d i
    using that check_wf_init [of i] init_id [of i] by (auto simp: slot_grows_def only_appends_def)
  note slots3 = slot [OF grows(1)] slot [OF grows(2)] slot [OF grows(3)]
  define traversal where "traversal =
    (if \<not> usbs_ok walk_status
     then usbs_check_result_set_failed (usbs_check_result_init ''file_traversal'') (Some (usbs_status_string walk_status))
     else (usbs_check_result_init ''file_traversal'')\<lparr>check_message := traversal_message ts\<rparr>)"
  have tr: "check_id traversal = ''file_traversal''" "v_items (findings traversal) = []"
    by (auto simp: traversal_def usbs_check_result_set_failed_def usbs_check_result_init_def
        finding_list.items_empty USBS_CHECK_ID_MAX_def)
  have tr_wf: "check_wf traversal"
    using check_wf_set_failed [OF check_wf_init] check_wf_message [OF check_wf_init traversal_message_fits]
    by (auto simp: traversal_def)
  let ?cs1 = "snd (usbs_check_list_push mem_always vec_init traversal)"
  have cs1: "v_items ?cs1 = [traversal]" "tight ?cs1"
    using check_push_always [OF tight_init, of traversal] by (auto simp: vec_init_def)
  show ?thesis
  proof (cases "\<not> usbs_ok walk_status \<or> ts_cancelled ts \<or> ts_device_removed ts")
    case False
    with f obtain cs2 where
      run: "run_whole_check_detectors mem_always ?ds (ts_detect_ctx ts) ?cs1 w = Some (cs2, w')"
      and cs: "cs = push_checks mem_always cs2 (map (\<lambda>s. describe_location_policy (slot_result s)) (ts_slots ts))"
      by (auto simp: finish_checks_def Let_def traversal_def)
    have "\<exists>rs. v_items cs2 = v_items ?cs1 @ rs \<and>
        list_all2 (\<lambda>d r. check_id r = det_id d \<and> check_wf r) (filter (\<lambda>d. det_run d \<noteq> None) ?ds) rs \<and> tight cs2"
      by (rule run_whole_always [OF run cs1(2)])
         (auto simp: cs1(1) k_detectors_def detector_defs dest: detect_autorun_wf)
    then obtain r where r: "v_items cs2 = [traversal, r]" "check_id r = AUTORUN_ID" "check_wf r" "tight cs2"
      by (auto simp: cs1(1) k_detectors_def detector_defs list_all2_Cons1)
    then have "v_items cs = [traversal, r] @ map (\<lambda>s. describe_location_policy (slot_result s)) (ts_slots ts)"
      using push_checks_always [OF r(4)] by (simp add: cs ss)
    with r tr tr_wf slots3 False show ?thesis
      by (simp add: ss check_ids_def AUTORUN_ID_def describe_policy_keeps USBS_CHECK_ID_MAX_def)
  next
    case True
    define reason where "reason = (if \<not> usbs_ok walk_status then ''volume could not be read''
      else if ts_cancelled ts then ''scan cancelled before this check ran''
      else ''device disconnected before this check ran'')"
    from True f have cs: "cs = push_checks mem_always (skip_whole_check_detectors mem_always ?ds reason ?cs1)
        (map (\<lambda>s. skipped_check (det_id (slot_detector s)) reason) (ts_slots ts))"
      by (auto simp: finish_checks_def Let_def traversal_def reason_def)
    have "v_items (skip_whole_check_detectors mem_always ?ds reason ?cs1) = [traversal, skipped_check AUTORUN_ID reason]"
        "tight (skip_whole_check_detectors mem_always ?ds reason ?cs1)"
      using skip_whole_always [OF cs1(2), of ?ds reason] by (simp_all add: cs1(1) k_detectors_def detector_defs)
    then have items: "v_items cs = [traversal, skipped_check AUTORUN_ID reason] @
        map (\<lambda>s. skipped_check (det_id (slot_detector s)) reason) (ts_slots ts)"
      using push_checks_always by (simp add: cs ss)
    have "length reason < USBS_SKIP_REASON_MAX"
      by (simp add: reason_def USBS_SKIP_REASON_MAX_def)
    note sk = skipped_check_spec [OF _ this]
    show ?thesis
      using items tr tr_wf sk [of AUTORUN_ID] sk [of "''suspicious_filename''"] sk [of "''lnk_inspection''"]
        sk [of "''hash_match_example''"] slots3
      by (simp add: ss check_ids_def AUTORUN_ID_def USBS_CHECK_ID_MAX_def detector_defs) blast
  qed
qed

text \<open>
  C27 No check is ever simply absent, and no scan is partial: with an allocator that grants, every
  scan that returns - completed, cancelled, disconnected or unreadable - reports the traversal and
  all four detectors, in registry order and each well formed; and an aborted scan has no finding
  at all, every detector being marked skipped with one common reason.
\<close>

theorem scan_reports_every_check:
  assumes "p_mem P = mem_always"
    and "usbs_scanner_scan srt fuel P C device store cancel_check on_progress seeded g w = Some (res, seeded', g', w')"
  shows "map check_id (v_items (checks res)) = check_ids \<and> list_all check_wf (v_items (checks res)) \<and>
    (scan_status res = USBS_SCAN_ABORTED \<longrightarrow>
       v_items (findings (hd (v_items (checks res)))) = [] \<and>
       (\<exists>reason. list_all (is_skipped reason) (tl (v_items (checks res)))))"
proof -
  from assms obtain dctx w4 walk_status ts w5 w6 where
    walk: "walk_dir fuel P (volume_path device) 0
      (initial_traverse_state cancel_check on_progress device dctx (initial_slots srt fuel P) g) w4 = Some (walk_status, ts, w5)"
    and fin: "finish_checks mem_always (k_detectors srt fuel P) walk_status ts w5 = Some (checks res, w6)"
    and st: "scan_status res = (if \<not> usbs_ok walk_status \<or> ts_cancelled ts \<or> ts_device_removed ts
      then USBS_SCAN_ABORTED else USBS_SCAN_COMPLETED)"
    by (auto simp: usbs_scanner_scan_def Let_def initial_slots_eq split: prod.splits option.splits)
  have "list_all slot_ok (ts_slots (initial_traverse_state cancel_check on_progress device dctx (initial_slots srt fuel P) g))"
    using initial_slots_ok by (simp add: initial_traverse_state_def)
  from walk_grows [OF this walk] have "list_all2 slot_grows (initial_slots srt fuel P) (ts_slots ts)"
    by (simp add: slots_grow_def initial_traverse_state_def)
  from finish_checks_report [OF fin this] st show ?thesis by auto
qed

definition sample_libc :: "'w libc" where
  "sample_libc = \<lparr>c_srand_time = (\<lambda>w. w), c_rand = (\<lambda>w. (4660, w)), c_utc = (\<lambda>w. (Some ''2026-09-11T14:02:03Z'', w))\<rparr>"

lemma scan_reports_every_check_witness:
  "map check_id (v_items (checks (fst (the (usbs_scanner_scan (\<lambda>x. x) 6 root_listing sample_libc sample_stick
      \<lparr>store_root = ''/s''\<rparr> (Some (\<lambda>w. (w = [], w))) None False hash_globals_init [fixture_entry ''a'' 1, fixture_entry ''b'' 1]))))) =
   check_ids"
proof -
  let ?s = "usbs_scanner_scan (\<lambda>x. x) 6 root_listing sample_libc sample_stick
      \<lparr>store_root = ''/s''\<rparr> (Some (\<lambda>w. (w = [], w))) None False hash_globals_init [fixture_entry ''a'' 1, fixture_entry ''b'' 1]"
  have "\<not> Option.is_none ?s" by code_simp
  then obtain res sd g' w' where s: "?s = Some (res, sd, g', w')" by (cases ?s) auto
  have "p_mem root_listing = mem_always" by (simp add: root_listing_def)
  from scan_reports_every_check [OF this s] s show ?thesis by simp
qed

end
