(* ===== verification/ScanWalk.thy ===== *)
theory ScanWalk
  imports ScanOutcome
begin

text \<open>
  The walk against a reference: on a volume that shows a finite tree and answers every request, the
  iterator-driven, fuelled, handle-passing walk of scanner.c visits exactly the files of the tree
  in depth-first listing order and does to its counters and slots what a fold over that list does.
\<close>

section \<open>Trees and what is visible of them\<close>

datatype vtree = VFile usbs_dir_entry | VDir usbs_dir_entry "vtree list"

fun entry_of :: "vtree \<Rightarrow> usbs_dir_entry" where
  "entry_of (VFile e) = e"
| "entry_of (VDir e ts) = e"

text \<open>
  A reparse point, a path too long for the buffer, a directory below the depth limit and an
  excluded directory (\<open>ex\<close>) hide what is under them; everything else is visible. Depth is that of
  the directory holding the tree.
\<close>

definition passable :: "host \<Rightarrow> string \<Rightarrow> usbs_dir_entry \<Rightarrow> bool" where
  "passable h dir e \<longleftrightarrow> \<not> is_reparse_point e \<and> length (joined_path h dir (entry_name e)) < CHILD_PATH_MAX"

fun visible :: "(string \<Rightarrow> bool) \<Rightarrow> host \<Rightarrow> nat \<Rightarrow> string \<Rightarrow> vtree \<Rightarrow> (string \<times> usbs_dir_entry) list" where
  "visible ex h depth dir (VFile e) =
     (if passable h dir e then [(joined_path h dir (entry_name e), e)] else [])"
| "visible ex h depth dir (VDir e ts) =
     (let p = joined_path h dir (entry_name e)
      in if passable h dir e \<and> \<not> ex p \<and> depth < USBS_SCAN_MAX_DEPTH
         then concat (map (visible ex h (depth + 1) p) ts) else [])"

fun excluded :: "(string \<Rightarrow> bool) \<Rightarrow> host \<Rightarrow> nat \<Rightarrow> string \<Rightarrow> vtree \<Rightarrow> nat" where
  "excluded ex h depth dir (VFile e) = 0"
| "excluded ex h depth dir (VDir e ts) =
     (let p = joined_path h dir (entry_name e)
      in if \<not> passable h dir e then 0 else if ex p then 1
         else if depth < USBS_SCAN_MAX_DEPTH then sum_list (map (excluded ex h (depth + 1) p) ts) else 0)"

text \<open>Fuel for the walk of the children of one directory: one per entry, and one per listing's end.\<close>

fun walk_fuel :: "vtree \<Rightarrow> nat" where
  "walk_fuel (VFile e) = 1"
| "walk_fuel (VDir e ts) = 3 + sum_list (map walk_fuel ts)"

section \<open>The volume interface\<close>

text \<open>
  \<open>pending w i\<close> is what the open iterator \<open>i\<close> has still to list; \<open>quiet\<close> worlds are those in
  which no operation fails.
\<close>

locale volume =
  fixes P :: "'w platform"
    and listing :: "string \<Rightarrow> usbs_dir_entry list option"
    and pending :: "'w \<Rightarrow> nat \<Rightarrow> usbs_dir_entry list option"
    and quiet :: "'w \<Rightarrow> bool"
  assumes open_lists: "quiet w \<Longrightarrow> listing p = Some es \<Longrightarrow>
      \<exists>i w'. dir_open P p w = (Inr i, w') \<and> quiet w' \<and> pending w i = None \<and> pending w' = (pending w)(i \<mapsto> es)"
    and next_entry: "quiet w \<Longrightarrow> pending w i = Some (e # es) \<Longrightarrow>
      \<exists>w'. dir_next P i w = (Inr e, w') \<and> quiet w' \<and> pending w' = (pending w)(i \<mapsto> es)"
    and next_end: "quiet w \<Longrightarrow> pending w i = Some [] \<Longrightarrow>
      \<exists>w'. dir_next P i w = (Inl USBS_ERR_NOT_FOUND, w') \<and> quiet w' \<and> pending w' = pending w"
    and close: "quiet w \<Longrightarrow> quiet (dir_close P i w) \<and> pending (dir_close P i w) = (pending w)(i := None)"
begin

text \<open>The tree is what the listings say, all the way down.\<close>

fun shows_tree :: "string \<Rightarrow> vtree \<Rightarrow> bool" where
  "shows_tree dir (VFile e) \<longleftrightarrow> \<not> is_directory e"
| "shows_tree dir (VDir e ts) \<longleftrightarrow>
     is_directory e \<and> listing (joined_path (p_host P) dir (entry_name e)) = Some (map entry_of ts) \<and>
     (\<forall>t \<in> set ts. shows_tree (joined_path (p_host P) dir (entry_name e)) t)"

end

text \<open>
  On top of a volume, visitors that have a fixed effect on the slots and the hash cache and leave
  the iterators alone; \<open>core_ok\<close> is what they need of slots and cache.
\<close>

locale visited_volume = volume P listing pending quiet
  for P :: "'w platform" and listing and pending and quiet +
  fixes ctx :: detect_context
    and core_ok :: "'w on_file_slot list \<times> hash_globals \<Rightarrow> bool"
    and effect :: "string \<Rightarrow> usbs_dir_entry \<Rightarrow> 'w on_file_slot list \<times> hash_globals \<Rightarrow> 'w on_file_slot list \<times> hash_globals"
  assumes dispatch_effect: "quiet w \<Longrightarrow> core_ok (ss, g) \<Longrightarrow>
    \<exists>w'. dispatch ctx path e ss g w = Some (fst (effect path e (ss, g)), snd (effect path e (ss, g)), w') \<and>
      quiet w' \<and> pending w' = pending w \<and> core_ok (effect path e (ss, g))"
begin

definition calm :: "'w traverse_state \<Rightarrow> bool" where
  "calm ts \<longleftrightarrow>
     ts_cancel_check ts = None \<and> ts_on_progress ts = None \<and> \<not> ts_cancelled ts \<and> \<not> ts_device_removed ts \<and>
     ts_detect_ctx ts = ctx \<and> core_ok (ts_slots ts, ts_hash ts)"

definition after :: "(string \<times> usbs_dir_entry) list \<Rightarrow> nat \<Rightarrow> 'w traverse_state \<Rightarrow> 'w traverse_state" where
  "after vs n ts =
     (let core = fold (\<lambda>(p, e). effect p e) vs (ts_slots ts, ts_hash ts)
      in ts\<lparr>ts_file_count := ts_file_count ts + of_nat (length vs),
            ts_byte_count := ts_byte_count ts + sum_list (map (\<lambda>(p, e). size_bytes e) vs),
            ts_paths_excluded := ts_paths_excluded ts + of_nat n,
            ts_slots := fst core, ts_hash := snd core\<rparr>)"

lemma after_Nil [simp]: "after [] 0 ts = ts"
  by (simp add: after_def)

lemma after_after: "after ws m (after vs n ts) = after (vs @ ws) (n + m) ts"
  by (simp add: after_def Let_def add.assoc)

lemma fold_core_ok: "quiet w \<Longrightarrow> core_ok c \<Longrightarrow> core_ok (fold (\<lambda>(p, e). effect p e) vs c)"
proof (induction vs arbitrary: c)
  case (Cons v vs)
  obtain p e where v: "v = (p, e)" by fastforce
  have "core_ok (effect p e c)"
    using dispatch_effect [OF Cons.prems(1), of "fst c" "snd c" p e] Cons.prems(2) by auto
  with Cons v show ?case by simp
qed simp

lemma calm_after: "quiet w \<Longrightarrow> calm ts \<Longrightarrow> calm (after vs n ts)"
  using fold_core_ok by (auto simp: calm_def after_def Let_def)

lemma after_fields [simp]:
  "ts_root_path (after vs n ts) = ts_root_path ts"
  "ts_location_policy (after vs n ts) = ts_location_policy ts"
  by (simp_all add: after_def Let_def)

lemma is_excluded_after [simp]: "is_excluded (after vs n ts) p = is_excluded ts p"
  by (simp add: is_excluded_def)

lemma visit_file_after:
  assumes "quiet w" and "calm ts"
  shows "\<exists>w'. visit_file p e ts w = Some (after [(p, e)] 0 ts, w') \<and> quiet w' \<and> pending w' = pending w"
  using dispatch_effect [OF assms(1), of "ts_slots ts" "ts_hash ts" p e] assms(2)
  by (auto simp: visit_file_def calm_def after_def Let_def)

lemma join_passable:
  "usbs_path_join (p_host P) CHILD_PATH_MAX dir (entry_name e) =
     (if length (joined_path (p_host P) dir (entry_name e)) < CHILD_PATH_MAX
      then (USBS_OK, joined_path (p_host P) dir (entry_name e))
      else (USBS_ERR_NO_MEMORY, snprintf_buf CHILD_PATH_MAX (joined_path (p_host P) dir (entry_name e))))"
  by (simp add: usbs_path_join_def CHILD_PATH_MAX_def Let_def)

abbreviation seen :: "'w traverse_state \<Rightarrow> nat \<Rightarrow> string \<Rightarrow> vtree list \<Rightarrow> (string \<times> usbs_dir_entry) list" where
  "seen st depth dir ts \<equiv> concat (map (visible (is_excluded st) (p_host P) depth dir) ts)"

abbreviation shut :: "'w traverse_state \<Rightarrow> nat \<Rightarrow> string \<Rightarrow> vtree list \<Rightarrow> nat" where
  "shut st depth dir ts \<equiv> sum_list (map (excluded (is_excluded st) (p_host P) depth dir) ts)"

lemma is_excluded_after_fun [simp]: "is_excluded (after vs n ts) = is_excluded ts"
  by (simp add: fun_eq_iff)

text \<open>The loop over the entries an iterator has still to list, by induction on the trees to come.\<close>

lemma walk_loop_tree:
  assumes "sum_list (map walk_fuel ts) < fuel" and "quiet w" and "calm st"
    and "pending w i = Some (map entry_of ts)" and "\<forall>t \<in> set ts. shows_tree dir t"
    and "depth \<le> USBS_SCAN_MAX_DEPTH"
  shows "\<exists>w'. walk_loop fuel P i dir depth st w =
      Some (None, after (seen st depth dir ts) (shut st depth dir ts) st, w') \<and>
    quiet w' \<and> pending w' = (pending w)(i \<mapsto> [])"
  using assms
proof (induction "sum_list (map walk_fuel ts)" arbitrary: ts fuel w st i dir depth rule: less_induct)
  case less
  then obtain f where f: "fuel = Suc f" by (cases fuel) auto
  have poll: "poll_cancel st w = (False, w)" using less.prems(3) by (simp add: calm_def poll_cancel_def)
  show ?case
  proof (cases ts)
    case Nil
    with next_end [OF less.prems(2), of i] less.prems(4) obtain w' where
      "dir_next P i w = (Inl USBS_ERR_NOT_FOUND, w')" "quiet w'" "pending w' = pending w"
      by auto
    with Nil f poll less.prems(4) show ?thesis by (auto simp: fun_upd_idem_iff)
  next
    case (Cons t rest)
    let ?e = "entry_of t" and ?p = "joined_path (p_host P) dir (entry_name (entry_of t))"
    obtain w2 where nx: "dir_next P i w = (Inr ?e, w2)" "quiet w2"
        "pending w2 = (pending w)(i \<mapsto> map entry_of rest)"
      using next_entry [OF less.prems(2), of i ?e "map entry_of rest"] less.prems(4) Cons by auto
    have pos: "0 < walk_fuel t" by (cases t) auto
    have rest: "\<exists>w'. walk_loop f P i dir depth (after vs n st) w3 =
        Some (None, after (vs @ seen st depth dir rest) (n + shut st depth dir rest) st, w') \<and>
        quiet w' \<and> pending w' = (pending w3)(i \<mapsto> [])"
      if "quiet w3" "pending w3 i = Some (map entry_of rest)" for vs n w3
      using less.hyps [of rest f w3 "after vs n st" i dir depth] that less.prems Cons f pos
        calm_after [OF that(1) less.prems(3)]
      by (auto simp: after_after)
    show ?thesis
    proof (cases "passable (p_host P) dir ?e")
      case False
      then have "walk_loop fuel P i dir depth st w = walk_loop f P i dir depth (after [] 0 st) w2"
        using f poll nx(1) by (auto simp: passable_def join_passable)
      moreover have "visible (is_excluded st) (p_host P) depth dir t = []" "excluded (is_excluded st) (p_host P) depth dir t = 0"
        using False by (cases t; simp add: Let_def)+
      ultimately show ?thesis
        using rest [OF nx(2), of "[]" 0] nx(3) Cons by auto
    next
      case True
      note join = join_passable [of dir ?e]
      show ?thesis
      proof (cases t)
        case (VFile e)
        then have "\<not> is_directory e" using less.prems(5) Cons by simp
        obtain w3 where v: "visit_file ?p ?e st w2 = Some (after [(?p, ?e)] 0 st, w3)" "quiet w3" "pending w3 = pending w2"
          using visit_file_after [OF nx(2) less.prems(3)] by blast
        from rest [OF v(2), of "[(?p, ?e)]" 0] v nx(3) True join f poll nx(1) \<open>\<not> is_directory e\<close> Cons VFile show ?thesis
          by (auto simp: passable_def)
      next
        case (VDir e cs)
        then have d: "is_directory e" "listing ?p = Some (map entry_of cs)" "\<forall>c \<in> set cs. shows_tree ?p c"
          using less.prems(5) Cons by auto
        show ?thesis
        proof (cases "is_excluded st ?p")
          case ex: True
          then have "walk_loop fuel P i dir depth st w = walk_loop f P i dir depth (after [] 1 st) w2"
            using True join f poll nx(1) d(1) VDir by (auto simp: passable_def after_def)
          with rest [OF nx(2), of "[]" 1] nx(3) ex True Cons VDir show ?thesis by auto
        next
          case nex: False
          obtain f1 where f1: "f = Suc f1" "sum_list (map walk_fuel cs) < f1"
            using less.prems(1) Cons VDir f by (cases f) auto
          have calm: "\<not> ts_cancelled st" "\<not> ts_device_removed st" using less.prems(3) by (simp_all add: calm_def)
          show ?thesis
          proof (cases "depth < USBS_SCAN_MAX_DEPTH")
            case False
            then have "walk_dir f P ?p (depth + 1) st w2 = Some (USBS_OK, st, w2)"
              using f1(1) calm less.prems(6) by simp
            then have "walk_loop fuel P i dir depth st w = walk_loop f P i dir depth (after [] 0 st) w2"
              using True nex join f poll nx(1) d(1) VDir calm by (auto simp: passable_def)
            with rest [OF nx(2), of "[]" 0] nx(3) nex False True Cons VDir show ?thesis by auto
          next
            case deep: True
            obtain j w3 where o: "dir_open P ?p w2 = (Inr j, w3)" "quiet w3" "pending w2 j = None"
                "pending w3 = (pending w2)(j \<mapsto> map entry_of cs)"
              using open_lists [OF nx(2) d(2)] by blast
            have "sum_list (map walk_fuel cs) < sum_list (map walk_fuel ts)" using Cons VDir by simp
            from less.hyps [OF this f1(2) o(2) less.prems(3), of j ?p "depth + 1"] o(4) d(3) deep
            obtain w4 where l: "walk_loop f1 P j ?p (depth + 1) st w3 =
                Some (None, after (seen st (depth + 1) ?p cs) (shut st (depth + 1) ?p cs) st, w4)"
                "quiet w4" "pending w4 = (pending w3)(j \<mapsto> [])"
              by auto
            let ?vs = "seen st (depth + 1) ?p cs" and ?n = "shut st (depth + 1) ?p cs"
            have wd: "walk_dir f P ?p (depth + 1) st w2 = Some (USBS_OK, after ?vs ?n st, dir_close P j w4)"
              using f1(1) calm deep o(1) l(1) by simp
            have cl: "quiet (dir_close P j w4)" "pending (dir_close P j w4) = pending w2"
              using close [OF l(2), of j] l(3) o(3,4) by (auto simp: fun_upd_idem_iff)
            have "walk_loop fuel P i dir depth st w = walk_loop f P i dir depth (after ?vs ?n st) (dir_close P j w4)"
              using True nex join f poll nx(1) d(1) VDir calm wd calm_after [OF cl(1) less.prems(3), of ?vs ?n]
              by (auto simp: passable_def calm_def)
            with rest [OF cl(1), of ?vs ?n] cl(2) nx(3) nex deep True Cons VDir show ?thesis by auto
          qed
        qed
      qed
    qed
  qed
qed

lemma walk_root_tree:
  assumes "sum_list (map walk_fuel ts) + 1 < fuel" and "quiet w" and "calm st"
    and "listing dir = Some (map entry_of ts)" and "\<forall>t \<in> set ts. shows_tree dir t"
  shows "\<exists>w'. walk_dir fuel P dir 0 st w =
      Some (USBS_OK, after (seen st 0 dir ts) (shut st 0 dir ts) st, w') \<and> quiet w' \<and> pending w' = pending w"
proof -
  obtain f where f: "fuel = Suc f" "sum_list (map walk_fuel ts) < f" using assms(1) by (cases fuel) auto
  obtain i w1 where o: "dir_open P dir w = (Inr i, w1)" "quiet w1" "pending w i = None"
      "pending w1 = (pending w)(i \<mapsto> map entry_of ts)"
    using open_lists [OF assms(2,4)] by blast
  obtain w2 where l: "walk_loop f P i dir 0 st w1 =
      Some (None, after (seen st 0 dir ts) (shut st 0 dir ts) st, w2)"
      "quiet w2" "pending w2 = (pending w1)(i \<mapsto> [])"
    using walk_loop_tree [OF f(2) o(2) assms(3) _ assms(5), of i 0] o(4) by auto
  have "quiet (dir_close P i w2) \<and> pending (dir_close P i w2) = pending w"
    using close [OF l(2), of i] l(3) o(3,4) by (auto simp: fun_upd_idem_iff)
  moreover have "walk_dir fuel P dir 0 st w =
      Some (USBS_OK, after (seen st 0 dir ts) (shut st 0 dir ts) st, dir_close P i w2)"
    using f(1) o(1) l(1) assms(3) by (simp add: calm_def)
  ultimately show ?thesis by blast
qed

end

end
