(* ===== verification/DiskScan.thy ===== *)
theory DiskScan
  imports ScanWalk Disk StoreNames
begin

text \<open>
  A whole scan of a volume at rest: on the machine of Disk, with no fault to come, the volume
  interface holds and each detector's effect on a file is a function of the file's name, listed
  size and content. The scan's checks are then folds of those effects over the visible files.
\<close>

section \<open>The machine at rest\<close>

definition disk_quiet ::
  "(string \<Rightarrow> string option) \<Rightarrow> (string \<Rightarrow> usbs_dir_entry list option) \<Rightarrow> disk \<Rightarrow> bool" where
  "disk_quiet F L d \<longleftrightarrow>
     d_faults d = [] \<and> d_files d = F \<and> d_dirs d = L \<and> (\<forall>i \<ge> d_next d. d_open_dirs d i = None)"

interpretation disk_volume: volume "disk_platform h env" L d_open_dirs "disk_quiet F L"
proof
  fix w p es
  assume "disk_quiet F L w" "L p = Some es"
  then show "\<exists>i w'. dir_open (disk_platform h env) p w = (Inr i, w') \<and> disk_quiet F L w' \<and>
      d_open_dirs w i = None \<and> d_open_dirs w' = (d_open_dirs w)(i \<mapsto> es)"
    by (auto simp: disk_quiet_def disk_dir_open_def)
qed (auto simp: disk_quiet_def disk_dir_next_def)

lemma quiet_open_none:
  "disk_quiet F L d \<Longrightarrow> F p = None \<Longrightarrow> file_open_read (disk_platform h env) p d = (Inl USBS_ERR_NOT_FOUND, d)"
  by (simp add: disk_quiet_def disk_file_open_def)

lemma quiet_open_some:
  "disk_quiet F L d \<Longrightarrow> F p = Some c \<Longrightarrow>
   \<exists>d'. file_open_read (disk_platform h env) p d = (Inr (d_next d), d') \<and> disk_quiet F L d' \<and>
     d_open_dirs d' = d_open_dirs d \<and> d_open_files d' (d_next d) = Some c"
  by (auto simp: disk_quiet_def disk_file_open_def)

lemma quiet_read:
  "disk_quiet F L d \<Longrightarrow> d_open_files d i = Some c \<Longrightarrow>
   \<exists>d'. file_read (disk_platform h env) i n d = (Inr (take n c), d') \<and> disk_quiet F L d' \<and>
     d_open_dirs d' = d_open_dirs d \<and> d_open_files d' i = Some (drop n c)"
  by (auto simp: disk_quiet_def disk_file_read_def)

lemma quiet_close:
  "disk_quiet F L d \<Longrightarrow> disk_quiet F L (file_close (disk_platform h env) i d) \<and>
     d_open_dirs (file_close (disk_platform h env) i d) = d_open_dirs d"
  by (simp add: disk_quiet_def)

section \<open>Reading a file to its end\<close>

lemma quiet_file_bytes:
  "disk_quiet F L d \<Longrightarrow> d_open_files d i = Some c \<Longrightarrow> length c < fuel \<Longrightarrow>
   \<exists>d'. file_bytes fuel (disk_platform h env) i d = Some (c, d') \<and> disk_quiet F L d' \<and> d_open_dirs d' = d_open_dirs d"
proof (induction fuel arbitrary: d c)
  case (Suc fuel)
  obtain d1 where r: "file_read (disk_platform h env) i HASH_MATCH_READ_CHUNK d = (Inr (take HASH_MATCH_READ_CHUNK c), d1)"
      "disk_quiet F L d1" "d_open_dirs d1 = d_open_dirs d" "d_open_files d1 i = Some (drop HASH_MATCH_READ_CHUNK c)"
    using quiet_read [OF Suc.prems(1,2), of h env HASH_MATCH_READ_CHUNK] by (elim exE conjE)
  show ?case
  proof (cases "c = []")
    case True
    with r show ?thesis by (auto simp del: disk_platform_simps)
  next
    case False
    then have "length c - HASH_MATCH_READ_CHUNK < length c" "take HASH_MATCH_READ_CHUNK c \<noteq> []"
      by (simp_all add: HASH_MATCH_READ_CHUNK_def)
    moreover from this(1) have "length (drop HASH_MATCH_READ_CHUNK c) < fuel" using Suc.prems(3) by simp
    from Suc.IH [OF r(2,4) this]
    obtain d2 where "file_bytes fuel (disk_platform h env) i d1 = Some (drop HASH_MATCH_READ_CHUNK c, d2)"
        "disk_quiet F L d2" "d_open_dirs d2 = d_open_dirs d1"
      by (elim exE conjE)
    ultimately show ?thesis using r(1,3) by (simp del: disk_platform_simps)
  qed
next
  case 0
  then show ?case by (simp only: not_less0)
qed

lemma quiet_lnk_read:
  assumes "disk_quiet F L d" and "d_open_files d i = Some c"
  shows "\<exists>hash d'. lnk_read_loop (Suc LNK_MAX_READ) (disk_platform h env) i [] (Some usbs_sha256_init) d =
      Some (take LNK_MAX_READ c, Some hash, d') \<and>
    snd (usbs_platform_hash_finish hash) = hex_of_digest (sha256_spec (take LNK_MAX_READ c)) \<and>
    disk_quiet F L d' \<and> d_open_dirs d' = d_open_dirs d"
proof -
  obtain k where k: "LNK_MAX_READ = Suc (Suc k)" by (simp add: LNK_MAX_READ_def)
  obtain d1 where r1: "disk_file_read i LNK_MAX_READ d = (Inr (take LNK_MAX_READ c), d1)"
      "disk_quiet F L d1" "d_open_dirs d1 = d_open_dirs d" "d_open_files d1 i = Some (drop LNK_MAX_READ c)"
    using quiet_read [OF assms] by fastforce
  obtain hash' d' where loop: "lnk_read_loop (Suc LNK_MAX_READ) (disk_platform h env) i [] (Some usbs_sha256_init) d =
      Some (take LNK_MAX_READ c, hash', d')" "disk_quiet F L d'" "d_open_dirs d' = d_open_dirs d"
  proof (cases "c = []")
    case True
    with r1 that show thesis by (auto simp: k)
  next
    case ne: False
    show thesis
    proof (cases "length c \<ge> LNK_MAX_READ")
      case True
      with r1 ne that show thesis by (auto simp: k)
    next
      case False
      then have c: "take LNK_MAX_READ c = c" "drop LNK_MAX_READ c = []" by auto
      obtain d2 where r2: "disk_file_read i (LNK_MAX_READ - length c) d1 = (Inr [], d2)"
          "disk_quiet F L d2" "d_open_dirs d2 = d_open_dirs d1"
        using quiet_read [OF r1(2,4), of h env "LNK_MAX_READ - length c"] c by auto
      with r1 ne that c False show thesis by (auto simp: k)
    qed
  qed
  from lnk_read_loop_hash [OF loop(1)] obtain hash where "hash' = Some hash" "sha_rep hash (take LNK_MAX_READ c)"
    using sha_rep_init by auto
  with loop sha_rep_final [of hash] show ?thesis
    by (auto simp: usbs_platform_hash_finish_def Let_def)
qed

section \<open>What each detector does to a file\<close>

text \<open>
  The effects as functions of the file system's contents \<open>F\<close>: no handle, no chunk, no hashing
  context and no size precheck is left in them.
\<close>

definition suspicious_effect :: "detect_context \<Rightarrow> string \<Rightarrow> usbs_dir_entry \<Rightarrow> usbs_check_result \<Rightarrow> usbs_check_result" where
  "suspicious_effect ctx path e r = snd (suspicious_filename_on_file mem_always (Some ctx) path e r)"

definition lnk_effect ::
  "(string \<Rightarrow> string option) \<Rightarrow> detect_context \<Rightarrow> string \<Rightarrow> usbs_dir_entry \<Rightarrow> usbs_check_result \<Rightarrow> usbs_check_result" where
  "lnk_effect F ctx path e r =
     (if \<not> has_lnk_extension (entry_name e) then r
      else
        (let relative = usbs_location_relative (dc_volume_path ctx) path;
             policy = lnk_policy_for ctx relative
         in if unat (size_bytes e) > LNK_MAX_READ \<and> policy \<noteq> LNK_POLICY_NONE then suppress r
            else if unat (size_bytes e) > LNK_MAX_READ then
              push_finding mem_always r USBS_SEVERITY_WARNING relative
                (snprintf_buf 160 (''oversized .lnk file ('' @ dec_of_nat (unat (size_bytes e)) @ '' bytes), not parsed''))
            else
              (case F path of
                 None \<Rightarrow> r
               | Some c \<Rightarrow>
                   judge_lnk mem_always policy relative (take LNK_MAX_READ c)
                     (Some (hex_of_digest (sha256_spec (take LNK_MAX_READ c)))) r)))"

definition hash_effect ::
  "(string \<Rightarrow> string option) \<Rightarrow> (usbs_check_result \<Rightarrow> usbs_check_result) \<Rightarrow> hash_globals \<Rightarrow> detect_context \<Rightarrow>
     string \<Rightarrow> usbs_dir_entry \<Rightarrow> usbs_check_result \<Rightarrow> usbs_check_result" where
  "hash_effect F note_list g ctx path e r =
     (let r1 = note_list r
      in case F path of
           None \<Rightarrow> r1
         | Some c \<Rightarrow>
             if unat (size_bytes e) > HASH_MATCH_MAX_FILE_SIZE then r1
             else
               (case signature_match g (size_bytes e) c of
                  None \<Rightarrow> r1
                | Some name \<Rightarrow>
                    r1\<lparr>findings := snd (usbs_finding_list_push mem_always (findings r1)
                         (hash_finding g name c (relative_path path (dc_volume_path ctx))))\<rparr>))"

text \<open>The list the hash check says it used.\<close>

definition list_note :: "host \<Rightarrow> hash_globals \<Rightarrow> usbs_check_result \<Rightarrow> usbs_check_result" where
  "list_note h g r = r\<lparr>check_message := snprintf_buf USBS_CHECK_MESSAGE_MAX
     (if g_loaded_from_file g then
        ''Matched against '' @ dec_of_nat (length (v_items (g_signatures g))) @
        '' signature(s) loaded from '' @ path_filename h (g_loaded_path g) @
        '' - USB Sentinel does not ship, vet, or vouch for this file'' @ [CHR 0x27] @
        ''s contents; verify its provenance yourself''
      else
        ''NON-PRODUCTION EXAMPLE: matched against 1 hardcoded test hash '' @
        ''(EICAR only) - this is NOT a real malware signature database'')\<rparr>"

lemma set_disclaimer_loaded:
  "g_load_attempted g \<Longrightarrow> set_disclaimer srt P r g w = (list_note (p_host P) g r, g, w)"
  by (simp add: set_disclaimer_def list_note_def)

lemma list_note_findings [simp]: "findings (list_note h g r) = findings r"
  by (simp add: list_note_def)

lemma suspicious_callback:
  "suspicious_on_file (disk_platform h env) (Some ctx) path e r g w = Some (USBS_OK, suspicious_effect ctx path e r, g, w)"
  by (auto simp: suspicious_on_file_def suspicious_effect_def suspicious_filename_on_file_def Let_def split: prod.splits)

lemma lnk_callback:
  assumes q: "disk_quiet F L d"
  shows "\<exists>d'. lnk_inspect_on_file (disk_platform h env) (Some ctx) path e r g d = Some (USBS_OK, lnk_effect F ctx path e r, g, d') \<and>
    disk_quiet F L d' \<and> d_open_dirs d' = d_open_dirs d"
proof (cases "has_lnk_extension (entry_name e) \<and> unat (size_bytes e) \<le> LNK_MAX_READ \<and> F path \<noteq> None")
  case False
  with q quiet_open_none [OF q, of path h env] show ?thesis
    by (auto simp: lnk_inspect_on_file_def lnk_on_file_def lnk_effect_def Let_def mem_always)
next
  case True
  then obtain c where c: "F path = Some c" by blast
  obtain d1 where o: "file_open_read (disk_platform h env) path d = (Inr (d_next d), d1)" "disk_quiet F L d1"
      "d_open_dirs d1 = d_open_dirs d" "d_open_files d1 (d_next d) = Some c"
    using quiet_open_some [OF q c, of h env] by blast
  obtain hash d2 where l: "lnk_read_loop (Suc LNK_MAX_READ) (disk_platform h env) (d_next d) [] (Some usbs_sha256_init) d1 =
      Some (take LNK_MAX_READ c, Some hash, d2)"
    "snd (usbs_platform_hash_finish hash) = hex_of_digest (sha256_spec (take LNK_MAX_READ c))"
    "disk_quiet F L d2" "d_open_dirs d2 = d_open_dirs d1"
    using quiet_lnk_read [OF o(2,4), of h env] by blast
  from quiet_close [OF l(3), of h env "d_next d"] True c o(1,3) l(1,2,4) show ?thesis
    by (auto simp: lnk_inspect_on_file_def lnk_on_file_def lnk_effect_def Let_def mem_always usbs_platform_hash_begin_def
        simp del: lnk_read_loop.simps usbs_platform_hash_finish_def)
qed

lemma hash_callback:
  assumes q: "disk_quiet F L d" and inv: "hash_inv g" "g_load_attempted g"
    and short: "\<And>c. F path = Some c \<Longrightarrow> length c < fuel"
  shows "\<exists>d'. hash_match_on_file srt fuel (disk_platform h env) (Some ctx) path e r g d =
      Some (USBS_OK, hash_effect F (list_note h g) g ctx path e r, g, d') \<and>
    disk_quiet F L d' \<and> d_open_dirs d' = d_open_dirs d"
proof (cases "unat (size_bytes e) \<le> HASH_MATCH_MAX_FILE_SIZE \<and> size_may_match g (size_bytes e)")
  case False
  have "signature_match g (size_bytes e) c = None" if "\<not> size_may_match g (size_bytes e)" for c
    using size_precheck_is_transparent [OF inv(1)] that by blast
  with False q inv show ?thesis
    by (auto simp: hash_match_on_file_def set_disclaimer_loaded hash_effect_def Let_def split: option.splits)
next
  case may: True
  show ?thesis
  proof (cases "F path")
    case None
    with may q inv quiet_open_none [OF q None, of h env] show ?thesis
      by (auto simp: hash_match_on_file_def set_disclaimer_loaded hash_effect_def Let_def)
  next
    case (Some c)
    obtain d1 where o: "file_open_read (disk_platform h env) path d = (Inr (d_next d), d1)" "disk_quiet F L d1"
        "d_open_dirs d1 = d_open_dirs d" "d_open_files d1 (d_next d) = Some c"
      using quiet_open_some [OF q Some, of h env] by blast
    obtain d2 where b: "file_bytes fuel (disk_platform h env) (d_next d) d1 = Some (c, d2)" "disk_quiet F L d2"
        "d_open_dirs d2 = d_open_dirs d1"
      using quiet_file_bytes [OF o(2,4) short [OF Some], of h env] by blast
    obtain ctx' where x: "hash_file_loop fuel (disk_platform h env) (d_next d) usbs_sha256_init d1 = Some (ctx', d2)"
        "snd (usbs_platform_hash_finish ctx') = hex_of_digest (sha256_spec c)"
      using hash_file_loop_ok [OF b(1)] .
    note look = lookup_signature_match [OF inv, of srt "disk_platform h env" _ "size_bytes e" c]
    from quiet_close [OF b(2), of h env "d_next d"] may Some o(1,3) b(3) x inv look show ?thesis
      by (auto simp: hash_match_on_file_def set_disclaimer_loaded hash_effect_def Let_def mem_always
          usbs_platform_hash_begin_def hash_finding_def split: option.splits)
  qed
qed

section \<open>The three slots together\<close>

definition detector_effects ::
  "(string \<Rightarrow> string option) \<Rightarrow> host \<Rightarrow> hash_globals \<Rightarrow> detect_context \<Rightarrow>
     (string \<Rightarrow> usbs_dir_entry \<Rightarrow> usbs_check_result \<Rightarrow> usbs_check_result) list" where
  "detector_effects F h g ctx = [suspicious_effect ctx, lnk_effect F ctx, hash_effect F (list_note h g) g ctx]"

definition slots_effect ::
  "(string \<Rightarrow> string option) \<Rightarrow> host \<Rightarrow> detect_context \<Rightarrow> string \<Rightarrow> usbs_dir_entry \<Rightarrow>
     'w on_file_slot list \<times> hash_globals \<Rightarrow> 'w on_file_slot list \<times> hash_globals" where
  "slots_effect F h ctx path e c =
     (map2 (\<lambda>f s. s\<lparr>slot_result := f path e (slot_result s)\<rparr>) (detector_effects F h (snd c) ctx) (fst c), snd c)"

definition slots_ready ::
  "(usbs_signature list \<Rightarrow> usbs_signature list) \<Rightarrow> nat \<Rightarrow> 'w platform \<Rightarrow> (string \<Rightarrow> string option) \<Rightarrow>
     'w on_file_slot list \<times> hash_globals \<Rightarrow> bool" where
  "slots_ready srt fuel P F c \<longleftrightarrow>
     map slot_detector (fst c) = on_file_detectors srt fuel P \<and> hash_inv (snd c) \<and> g_load_attempted (snd c) \<and>
     (\<forall>p t. F p = Some t \<longrightarrow> length t < fuel)"

lemma slot_eta: "slot_detector s = d \<Longrightarrow> \<exists>r. s = \<lparr>slot_detector = d, slot_result = r\<rparr>"
  by (cases s) auto

lemma slots_ready_shape:
  "slots_ready srt fuel P F (ss, g) \<Longrightarrow>
   \<exists>r1 r2 r3. ss = [\<lparr>slot_detector = usbs_detector_suspicious_filename P, slot_result = r1\<rparr>,
     \<lparr>slot_detector = usbs_detector_lnk_inspect P, slot_result = r2\<rparr>,
     \<lparr>slot_detector = usbs_detector_hash_match srt fuel P, slot_result = r3\<rparr>]"
  by (auto simp: slots_ready_def map_eq_Cons_conv dest!: slot_eta)

interpretation disk_scan: visited_volume "disk_platform h env" L d_open_dirs "disk_quiet F L" ctx
  "slots_ready srt fuel (disk_platform h env) F" "slots_effect F h ctx"
proof
  fix w ss g path e
  let ?P = "disk_platform h env"
  assume q: "disk_quiet F L w" and ok: "slots_ready srt fuel ?P F (ss, g)"
  from slots_ready_shape [OF ok] obtain r1 r2 r3 where ss:
    "ss = [\<lparr>slot_detector = usbs_detector_suspicious_filename ?P, slot_result = r1\<rparr>,
     \<lparr>slot_detector = usbs_detector_lnk_inspect ?P, slot_result = r2\<rparr>,
     \<lparr>slot_detector = usbs_detector_hash_match srt fuel ?P, slot_result = r3\<rparr>]"
    by blast
  have g: "hash_inv g" "g_load_attempted g" and short: "\<And>p c. F p = Some c \<Longrightarrow> length c < fuel"
    using ok by (auto simp: slots_ready_def)
  obtain w1 where l: "lnk_inspect_on_file ?P (Some ctx) path e r2 g w = Some (USBS_OK, lnk_effect F ctx path e r2, g, w1)"
      "disk_quiet F L w1" "d_open_dirs w1 = d_open_dirs w"
    using lnk_callback [OF q] by blast
  obtain w2 where m: "hash_match_on_file srt fuel ?P (Some ctx) path e r3 g w1 =
        Some (USBS_OK, hash_effect F (list_note h g) g ctx path e r3, g, w2)"
      "disk_quiet F L w2" "d_open_dirs w2 = d_open_dirs w1"
    using hash_callback [where F = F and path = path and fuel = fuel and srt = srt and h = h and env = env, OF l(2) g] short
    by blast
  have "slots_ready srt fuel ?P F (slots_effect F h ctx path e (ss, g))"
    using ok by (simp add: slots_ready_def slots_effect_def ss detector_effects_def)
  moreover have "dispatch ctx path e ss g w =
      Some (fst (slots_effect F h ctx path e (ss, g)), snd (slots_effect F h ctx path e (ss, g)), w2)"
    using l(1) m(1) by (simp add: ss slots_effect_def detector_effects_def suspicious_callback detector_defs)
  ultimately show "\<exists>w'. dispatch ctx path e ss g w =
        Some (fst (slots_effect F h ctx path e (ss, g)), snd (slots_effect F h ctx path e (ss, g)), w') \<and>
      disk_quiet F L w' \<and> d_open_dirs w' = d_open_dirs w \<and>
      slots_ready srt fuel ?P F (slots_effect F h ctx path e (ss, g))"
    using l m by auto
qed

text \<open>A fold of the joint effect is the three folds.\<close>

abbreviation over_files ::
  "(string \<Rightarrow> usbs_dir_entry \<Rightarrow> usbs_check_result \<Rightarrow> usbs_check_result) \<Rightarrow> (string \<times> usbs_dir_entry) list \<Rightarrow>
     usbs_check_result \<Rightarrow> usbs_check_result" where
  "over_files f vs r \<equiv> fold (\<lambda>(p, e). f p e) vs r"

lemma fold_slots_effect:
  "fold (\<lambda>(p, e). slots_effect F h ctx p e) vs
     ([\<lparr>slot_detector = d1, slot_result = r1\<rparr>, \<lparr>slot_detector = d2, slot_result = r2\<rparr>,
       \<lparr>slot_detector = d3, slot_result = r3\<rparr>], g) =
   ([\<lparr>slot_detector = d1, slot_result = over_files (suspicious_effect ctx) vs r1\<rparr>,
     \<lparr>slot_detector = d2, slot_result = over_files (lnk_effect F ctx) vs r2\<rparr>,
     \<lparr>slot_detector = d3, slot_result = over_files (hash_effect F (list_note h g) g ctx) vs r3\<rparr>], g)"
  by (induction vs arbitrary: r1 r2 r3) (auto simp: slots_effect_def detector_effects_def)

section \<open>The whole scan\<close>

definition libc_keeps :: "'w libc \<Rightarrow> ('w \<Rightarrow> bool) \<Rightarrow> bool" where
  "libc_keeps C Q \<longleftrightarrow> (\<forall>w. Q w \<longrightarrow> Q (c_srand_time C w) \<and> Q (snd (c_rand C w)) \<and> Q (snd (c_utc C w)))"

lemma libc_keepsD:
  assumes "libc_keeps C Q" and "Q w"
  shows "Q (c_srand_time C w)" "c_rand C w = (r, w') \<Longrightarrow> Q w'" "c_utc C w = (t, w'') \<Longrightarrow> Q w''"
  using assms unfolding libc_keeps_def by (blast, force, force)

lemma quiet_scan_id:
  "libc_keeps C Q \<Longrightarrow> Q w \<Longrightarrow> generate_scan_id C cap seeded w = (i, s, w') \<Longrightarrow> Q w'"
  by (auto simp: generate_scan_id_def Let_def dest: libc_keepsD split: prod.splits if_splits)

lemma quiet_now:
  "libc_keeps C Q \<Longrightarrow> Q w \<Longrightarrow> now_utc_iso8601 C cap w = (s, w') \<Longrightarrow> Q w'"
  by (auto simp: now_utc_iso8601_def dest: libc_keepsD split: prod.splits option.splits if_splits)

lemma quiet_dir_list:
  "disk_quiet F L d \<Longrightarrow> d_open_dirs d i = Some es \<Longrightarrow> length es < fuel \<Longrightarrow>
   \<exists>d'. dir_list fuel (disk_platform h env) i d = Some (es, USBS_ERR_NOT_FOUND, d') \<and> disk_quiet F L d'"
proof (induction es arbitrary: fuel d)
  case Nil
  then obtain f where "fuel = Suc f" by (cases fuel) auto
  with Nil show ?case by (auto simp: disk_quiet_def disk_dir_next_def)
next
  case (Cons e es)
  then obtain f where f: "fuel = Suc f" by (cases fuel) auto
  obtain d1 where "dir_next (disk_platform h env) i d = (Inr e, d1)" "disk_quiet F L d1"
      "d_open_dirs d1 = (d_open_dirs d)(i \<mapsto> es)"
    using disk_volume.next_entry [OF Cons.prems(1,2), of h env] by blast
  with Cons.IH [of d1 f] Cons.prems(3) f show ?case by auto
qed

text \<open>The two lookups around the walk return, and leave the machine at rest.\<close>

lemma quiet_last_scan:
  assumes q: "disk_quiet F L d" and short: "\<forall>p es. L p = Some es \<longrightarrow> length es < fuel"
  shows "\<exists>st info d'. usbs_store_last_scan fuel (disk_platform h env) store identity d = Some (st, info, d') \<and> disk_quiet F L d'"
proof (cases "usbs_store_safe_id identity USBS_STORE_PATH_MAX")
  case (Inl st)
  with q show ?thesis by (auto simp: usbs_store_last_scan_def)
next
  case (Inr safe)
  obtain st dir where dd: "device_dir h store safe USBS_STORE_PATH_MAX = (st, dir)" by fastforce
  show ?thesis
  proof (cases "usbs_ok st")
    case False
    with Inr dd q show ?thesis by (auto simp: usbs_store_last_scan_def)
  next
    case ok: True
    show ?thesis
    proof (cases "L dir")
      case None
      with q Inr dd ok show ?thesis
        by (auto simp: usbs_store_last_scan_def disk_quiet_def disk_dir_open_def)
    next
      case (Some es)
      obtain i d1 where o: "dir_open (disk_platform h env) dir d = (Inr i, d1)" "disk_quiet F L d1"
          "d_open_dirs d1 = (d_open_dirs d)(i \<mapsto> es)"
        using disk_volume.open_lists [OF q Some, of h env] by blast
      obtain d2 where l: "dir_list fuel (disk_platform h env) i d1 = Some (es, USBS_ERR_NOT_FOUND, d2)" "disk_quiet F L d2"
        using quiet_dir_list [OF o(2), of i es fuel h env] o(3) short Some by auto
      have "disk_quiet F L (dir_close (disk_platform h env) i d2)"
        using disk_volume.close [OF l(2), of h env i] by blast
      with last_scan_loop_list [OF l(1), of "(0, None)"] Inr dd ok o(1) show ?thesis
        by (auto simp: usbs_store_last_scan_def Let_def split: prod.splits option.splits)
    qed
  qed
qed

lemma quiet_autorun:
  assumes q: "disk_quiet F L d" and vol: "dc_volume_path ctx = Some v"
    and short: "\<forall>p es. L p = Some es \<longrightarrow> length es < fuel"
  shows "\<exists>st r d'. detect_autorun fuel (disk_platform h env) ctx r0 d = Some (st, r, d')"
proof -
  have "\<exists>found d1. find_autorun_name fuel (disk_platform h env) v USBS_NAME_MAX d = Some (found, d1)"
  proof (cases "L v")
    case None
    with q show ?thesis by (auto simp: find_autorun_name_def disk_quiet_def disk_dir_open_def)
  next
    case (Some es)
    obtain i d1 where o: "dir_open (disk_platform h env) v d = (Inr i, d1)" "disk_quiet F L d1"
        "d_open_dirs d1 = (d_open_dirs d)(i \<mapsto> es)"
      using disk_volume.open_lists [OF q Some, of h env] by blast
    obtain d2 where l: "dir_list fuel (disk_platform h env) i d1 = Some (es, USBS_ERR_NOT_FOUND, d2)"
      using quiet_dir_list [OF o(2), of i es fuel h env] o(3) short Some by auto
    from find_autorun_loop_spec [OF l, of USBS_NAME_MAX] o(1) show ?thesis
      by (auto simp: find_autorun_name_def)
  qed
  with vol show ?thesis
    by (auto simp: detect_autorun_def Let_def split: prod.splits sum.splits)
qed

definition exclusion :: "usbs_device \<Rightarrow> string \<Rightarrow> bool" where
  "exclusion device p \<longleftrightarrow>
     usbs_location_policy_applies (Some device) \<and>
     usbs_location_classify (usbs_location_relative (Some (volume_path device)) p) = USBS_LOCATION_SELF_TEST_FIXTURES"

definition visible_files :: "host \<Rightarrow> usbs_device \<Rightarrow> vtree list \<Rightarrow> (string \<times> usbs_dir_entry) list" where
  "visible_files h device ts = concat (map (visible (exclusion device) h 0 (volume_path device)) ts)"

definition excluded_count :: "host \<Rightarrow> usbs_device \<Rightarrow> vtree list \<Rightarrow> nat" where
  "excluded_count h device ts = sum_list (map (excluded (exclusion device) h 0 (volume_path device)) ts)"

definition scan_context :: "usbs_device \<Rightarrow> detect_context" where
  "scan_context device = \<lparr>dc_device = Some device, dc_volume_path = Some (volume_path device),
     dc_capabilities = \<lparr>can_read_raw_volume = False, can_read_physical_disk = False\<rparr>\<rparr>"

abbreviation scan_state where
  "scan_state srt fuel h env device g \<equiv>
     initial_traverse_state None None device (scan_context device) (initial_slots srt fuel (disk_platform h env)) g"

lemma is_excluded_initial: "is_excluded (scan_state srt fuel h env device g) = exclusion device"
  by (simp add: fun_eq_iff is_excluded_def exclusion_def initial_traverse_state_def)

definition fits_fuel ::
  "nat \<Rightarrow> (string \<Rightarrow> string option) \<Rightarrow> (string \<Rightarrow> usbs_dir_entry list option) \<Rightarrow> vtree list \<Rightarrow> bool" where
  "fits_fuel fuel F L ts \<longleftrightarrow>
     sum_list (map walk_fuel ts) + 1 < fuel \<and> (\<forall>p t. F p = Some t \<longrightarrow> length t < fuel) \<and>
     (\<forall>p es. L p = Some es \<longrightarrow> length es < fuel)"

lemma quiet_walk:
  assumes q: "disk_quiet F L d" and g: "hash_inv g" "g_load_attempted g" and fuel: "fits_fuel fuel F L ts"
    and root: "L (volume_path device) = Some (map entry_of ts)"
    and shows_ts: "\<forall>t \<in> set ts. disk_volume.shows_tree h env L (volume_path device) t"
  shows "\<exists>d'. walk_dir fuel (disk_platform h env) (volume_path device) 0 (scan_state srt fuel h env device g) d =
    Some (USBS_OK,
      (scan_state srt fuel h env device g)
        \<lparr>ts_file_count := of_nat (length (visible_files h device ts)),
         ts_byte_count := sum_list (map (\<lambda>(p, e). size_bytes e) (visible_files h device ts)),
         ts_paths_excluded := of_nat (excluded_count h device ts),
         ts_slots := [\<lparr>slot_detector = usbs_detector_suspicious_filename (disk_platform h env),
            slot_result = over_files (suspicious_effect (scan_context device)) (visible_files h device ts)
              (usbs_check_result_init ''suspicious_filename'')\<rparr>,
          \<lparr>slot_detector = usbs_detector_lnk_inspect (disk_platform h env),
            slot_result = over_files (lnk_effect F (scan_context device)) (visible_files h device ts)
              (usbs_check_result_init ''lnk_inspection'')\<rparr>,
          \<lparr>slot_detector = usbs_detector_hash_match srt fuel (disk_platform h env),
            slot_result = over_files (hash_effect F (list_note h g) g (scan_context device)) (visible_files h device ts)
              (usbs_check_result_init ''hash_match_example'')\<rparr>]\<rparr>, d') \<and>
    disk_quiet F L d'"
proof -
  let ?P = "disk_platform h env" and ?st = "scan_state srt fuel h env device g"
  have "slots_ready srt fuel ?P F (ts_slots ?st, ts_hash ?st)"
    using fuel g by (simp add: slots_ready_def initial_traverse_state_def fits_fuel_def)
  then have calm: "disk_scan.calm (scan_context device) srt fuel h env F ?st"
    by (simp add: disk_scan.calm_def initial_traverse_state_def)
  obtain d' where "walk_dir fuel ?P (volume_path device) 0 ?st d =
      Some (USBS_OK, disk_scan.after F h (scan_context device) (visible_files h device ts) (excluded_count h device ts) ?st, d')"
      "disk_quiet F L d'"
    using disk_scan.walk_root_tree [OF _ q calm root shows_ts, of fuel,
        unfolded is_excluded_initial disk_platform_simps(1)] fuel
    unfolding visible_files_def excluded_count_def fits_fuel_def by blast
  moreover have "disk_scan.after F h (scan_context device) vs n ?st =
      ?st\<lparr>ts_file_count := of_nat (length vs), ts_byte_count := sum_list (map (\<lambda>(p, e). size_bytes e) vs),
        ts_paths_excluded := of_nat n,
        ts_slots := fst (fold (\<lambda>(p, e). slots_effect F h (scan_context device) p e) vs (initial_slots srt fuel ?P, g)),
        ts_hash := snd (fold (\<lambda>(p, e). slots_effect F h (scan_context device) p e) vs (initial_slots srt fuel ?P, g))\<rparr>" for vs n
    by (simp add: disk_scan.after_def initial_traverse_state_def Let_def)
  ultimately show ?thesis
    by (simp add: detector_defs fold_slots_effect initial_traverse_state_def)
qed

definition completed_text :: "(string \<times> usbs_dir_entry) list \<Rightarrow> string" where
  "completed_text vs = ''completed: '' @ dec_of_nat (unat (of_nat (length vs) :: usbs_u64)) @ '' file(s), '' @
     dec_of_nat (unat (sum_list (map (\<lambda>(p, e). size_bytes e) vs))) @ '' byte(s)''"

lemma traversal_message_completed:
  assumes "\<not> ts_cancelled t" and "\<not> ts_device_removed t" and "ts_paths_skipped t = 0"
    and "ts_file_count t = of_nat (length vs)" and "ts_byte_count t = sum_list (map (\<lambda>(p, e). size_bytes e) vs)"
  shows "prefix (completed_text vs) (traversal_message t)"
proof -
  have "length (completed_text vs) < USBS_CHECK_MESSAGE_MAX"
    using u64_dec_length [of "of_nat (length vs)"] u64_dec_length [of "sum_list (map (\<lambda>(p, e). size_bytes e) vs)"]
    by (simp add: completed_text_def USBS_CHECK_MESSAGE_MAX_def)
  then have "snprintf_buf USBS_CHECK_MESSAGE_MAX (completed_text vs) = completed_text vs"
    by (simp add: snprintf_buf_def)
  with assms show ?thesis
    by (auto simp: traversal_message_def msg_append_def Let_def completed_text_def)
qed

lemma disk_probe: "probe_capabilities (disk_platform h env) device d =
    (USBS_OK, \<lparr>can_read_raw_volume = False, can_read_physical_disk = False\<rparr>, d)"
  by (simp add: disk_platform_def)

text \<open>
  C9 Scanning a volume at rest returns and reports exactly the volume: with no faults, no
  cancellation and the signature list loaded, whatever finite tree the root shows, the scan
  terminates within a fuel bounded by the tree's size and the largest file and listing, completes
  with no skipped path, counts exactly the visible files and their bytes and exactly the excluded
  directories, and the three per-file checks are the folds, in depth-first order, of functions of
  each visible file's path, listed size and content.
\<close>

theorem quiet_scan_completes:
  assumes q: "disk_quiet F L d" and libc: "libc_keeps C (disk_quiet F L)"
    and g: "hash_inv g" "g_load_attempted g" and fuel: "fits_fuel fuel F L ts"
    and root: "L (volume_path device) = Some (map entry_of ts)"
    and shows_ts: "\<forall>t \<in> set ts. disk_volume.shows_tree h env L (volume_path device) t"
  shows "\<exists>res d'. usbs_scanner_scan srt fuel (disk_platform h env) C device store None None seeded g d =
      Some (res, True, g, d') \<and>
    scan_status res = USBS_SCAN_COMPLETED \<and> paths_skipped res = 0 \<and>
    paths_excluded res = of_nat (excluded_count h device ts) \<and>
    prefix (completed_text (visible_files h device ts)) (check_message (hd (v_items (checks res)))) \<and>
    drop 2 (v_items (checks res)) = map describe_location_policy
      [over_files (suspicious_effect (scan_context device)) (visible_files h device ts)
         (usbs_check_result_init ''suspicious_filename''),
       over_files (lnk_effect F (scan_context device)) (visible_files h device ts)
         (usbs_check_result_init ''lnk_inspection''),
       over_files (hash_effect F (list_note h g) g (scan_context device)) (visible_files h device ts)
         (usbs_check_result_init ''hash_match_example'')]"
proof -
  let ?P = "disk_platform h env" and ?ds = "k_detectors srt fuel (disk_platform h env)"
  obtain sid s1 d1 where id: "generate_scan_id C USBS_SCAN_ID_MAX seeded d = (sid, s1, d1)"
    by (cases "generate_scan_id C USBS_SCAN_ID_MAX seeded d") auto
  then have s1: s1 by (auto simp: generate_scan_id_def Let_def split: prod.splits)
  obtain started d2 where st: "now_utc_iso8601 C USBS_TIMESTAMP_MAX d1 = (started, d2)" by fastforce
  have q2: "disk_quiet F L d2" using quiet_now [OF libc quiet_scan_id [OF libc q id] st] .
  obtain ist identity where idn: "usbs_device_identity device USBS_IDENTITY_MAX = (ist, identity)" by fastforce
  have short: "\<forall>p es. L p = Some es \<longrightarrow> length es < fuel" using fuel by (simp add: fits_fuel_def)
  obtain d3 where seen: "(if usbs_ok ist
      then map_option (\<lambda>(_, _, w'). w') (usbs_store_last_scan fuel ?P store identity d2) else Some d2) = Some d3"
      "disk_quiet F L d3"
    using quiet_last_scan [OF q2 short, of h env store identity] q2 by (cases "usbs_ok ist") auto
  obtain d4 t where walk: "walk_dir fuel ?P (volume_path device) 0 (scan_state srt fuel h env device g) d3 = Some (USBS_OK, t, d4)"
    "disk_quiet F L d4"
    and t: "t = (scan_state srt fuel h env device g)
        \<lparr>ts_file_count := of_nat (length (visible_files h device ts)),
         ts_byte_count := sum_list (map (\<lambda>(p, e). size_bytes e) (visible_files h device ts)),
         ts_paths_excluded := of_nat (excluded_count h device ts),
         ts_slots := [\<lparr>slot_detector = usbs_detector_suspicious_filename (disk_platform h env),
            slot_result = over_files (suspicious_effect (scan_context device)) (visible_files h device ts)
              (usbs_check_result_init ''suspicious_filename'')\<rparr>,
          \<lparr>slot_detector = usbs_detector_lnk_inspect (disk_platform h env),
            slot_result = over_files (lnk_effect F (scan_context device)) (visible_files h device ts)
              (usbs_check_result_init ''lnk_inspection'')\<rparr>,
          \<lparr>slot_detector = usbs_detector_hash_match srt fuel (disk_platform h env),
            slot_result = over_files (hash_effect F (list_note h g) g (scan_context device)) (visible_files h device ts)
              (usbs_check_result_init ''hash_match_example'')\<rparr>]\<rparr>"
    using quiet_walk [OF seen(2) g fuel root shows_ts, of srt] by blast
  have tf: "\<not> ts_cancelled t" "\<not> ts_device_removed t" "ts_paths_skipped t = 0" "ts_hash t = g"
      "ts_detect_ctx t = scan_context device"
    by (simp_all add: t initial_traverse_state_def)
  define traversal where "traversal = (usbs_check_result_init ''file_traversal'')\<lparr>check_message := traversal_message t\<rparr>"
  have msg: "prefix (completed_text (visible_files h device ts)) (check_message traversal)"
    using traversal_message_completed [OF tf(1-3)] by (simp add: traversal_def t)
  let ?cs1 = "snd (usbs_check_list_push mem_always vec_init traversal)"
  have cs1: "v_items ?cs1 = [traversal]" "tight ?cs1"
    using check_push_always [OF tight_init, of traversal] by (auto simp: vec_init_def)
  obtain st2 r d5 where ar: "detect_autorun fuel ?P (scan_context device) (usbs_check_result_init AUTORUN_ID) d4 = Some (st2, r, d5)"
    using quiet_autorun [OF walk(2) _ short] by (fastforce simp: scan_context_def)
  have run: "run_whole_check_detectors mem_always ?ds (ts_detect_ctx t) ?cs1 d4 =
      Some (snd (usbs_check_list_push mem_always ?cs1 r), d5)"
    using ar by (simp add: k_detectors_def detector_defs tf)
  define cs2 where "cs2 = snd (usbs_check_list_push mem_always ?cs1 r)"
  have cs2: "v_items cs2 = [traversal, r]" "tight cs2"
    using check_push_always [OF cs1(2), of r] cs1(1) by (auto simp: cs2_def)
  define cs where "cs = push_checks mem_always cs2 (map (\<lambda>s. describe_location_policy (slot_result s)) (ts_slots t))"
  have fin: "finish_checks mem_always ?ds USBS_OK t d4 = Some (cs, d5)"
    using run tf by (simp add: finish_checks_def Let_def traversal_def cs_def cs2_def)
  have items: "v_items cs = [traversal, r] @ map (\<lambda>s. describe_location_policy (slot_result s)) (ts_slots t)"
    using push_checks_always [OF cs2(2)] cs2(1) by (simp add: cs_def t)
  obtain finished d6 where "now_utc_iso8601 C USBS_TIMESTAMP_MAX d5 = (finished, d6)" by fastforce
  with id st idn seen(1) walk(1) fin s1 tf msg items t show ?thesis
    by (auto simp: usbs_scanner_scan_def Let_def initial_slots_eq disk_probe scan_context_def [symmetric])
qed

text \<open>A stick with a directory, a file in it and a file beside it.\<close>

definition rest_files :: "string \<Rightarrow> string option" where
  "rest_files = [''/media/u/d/x.pdf.exe'' \<mapsto> ''MZ'', ''/media/u/a.txt'' \<mapsto> ''hello'']"

definition rest_tree :: "vtree list" where
  "rest_tree = [VDir (fixture_entry ''d'' 0\<lparr>is_directory := True\<rparr>) [VFile (fixture_entry ''x.pdf.exe'' 2)],
                VFile (fixture_entry ''a.txt'' 5)]"

definition rest_dirs :: "string \<Rightarrow> usbs_dir_entry list option" where
  "rest_dirs = [''/media/u/'' \<mapsto> [fixture_entry ''d'' 0\<lparr>is_directory := True\<rparr>, fixture_entry ''a.txt'' 5],
                ''/media/u/d'' \<mapsto> [fixture_entry ''x.pdf.exe'' 2]]"

definition rest_disk :: disk where
  "rest_disk = \<lparr>d_files = rest_files, d_dirs = rest_dirs, d_open_dirs = (\<lambda>_. None), d_open_files = (\<lambda>_. None),
     d_next = 1, d_faults = []\<rparr>"

lemma rest_visible:
  "visible_files Posix sample_stick rest_tree =
     [(''/media/u/d/x.pdf.exe'', fixture_entry ''x.pdf.exe'' 2), (''/media/u/a.txt'', fixture_entry ''a.txt'' 5)]"
  by code_simp

lemma quiet_scan_completes_witness:
  "\<exists>res d'. usbs_scanner_scan (\<lambda>x. x) 30 (disk_platform Posix (\<lambda>_. None)) sample_libc sample_stick \<lparr>store_root = ''/s''\<rparr>
      None None False (hash_globals_init\<lparr>g_load_attempted := True\<rparr>) rest_disk =
      Some (res, True, hash_globals_init\<lparr>g_load_attempted := True\<rparr>, d') \<and>
    scan_status res = USBS_SCAN_COMPLETED \<and> prefix ''completed: 2 file(s), 7 byte(s)'' (check_message (hd (v_items (checks res))))"
proof -
  have q: "disk_quiet rest_files rest_dirs rest_disk" by (simp add: disk_quiet_def rest_disk_def)
  have c: "libc_keeps sample_libc (disk_quiet rest_files rest_dirs)" by (simp add: libc_keeps_def sample_libc_def)
  have g: "hash_inv (hash_globals_init\<lparr>g_load_attempted := True\<rparr>)" "g_load_attempted (hash_globals_init\<lparr>g_load_attempted := True\<rparr>)"
    using hash_inv_init by (simp_all add: hash_inv_def)
  have f: "fits_fuel 30 rest_files rest_dirs rest_tree"
    by (simp add: fits_fuel_def rest_files_def rest_dirs_def rest_tree_def split: if_splits)
  have vol: "volume_path sample_stick = ''/media/u/''" by code_simp
  have r: "rest_dirs (volume_path sample_stick) = Some (map entry_of rest_tree)"
    by (simp add: vol rest_dirs_def rest_tree_def)
  have p: "joined_path Posix ''/media/u/'' ''d'' = ''/media/u/d''" by code_simp
  have t: "\<forall>t \<in> set rest_tree. disk_volume.shows_tree Posix (\<lambda>_. None) rest_dirs (volume_path sample_stick) t"
    by (simp add: vol rest_tree_def rest_dirs_def fixture_entry_def p)
  have m: "completed_text (visible_files Posix sample_stick rest_tree) = ''completed: 2 file(s), 7 byte(s)''"
    unfolding rest_visible by code_simp
  show ?thesis
    using quiet_scan_completes [OF q c g f r t, of "\<lambda>x. x" "\<lparr>store_root = ''/s''\<rparr>" False] unfolding m by blast
qed

end
