(* ===== verification/Report.thy ===== *)
theory Report
  imports JsonWriter JsonReader ScanModel
begin

text \<open>
  The three renderings of a scan result in src/reporting/report.c: JSON through the streaming
  writer, plain text, and CSV through a growing buffer of its own. The version string is generated
  by the build, so it is a parameter. \<open>printf\<close> rounds \<open>%.1f\<close> correctly, to the nearest tenth with
  ties to even.
\<close>

section \<open>JSON\<close>

definition USBS_REPORT_SCHEMA_VERSION :: usbs_u64 where "USBS_REPORT_SCHEMA_VERSION = 1"
definition USBS_PRODUCT_NAME :: string where "USBS_PRODUCT_NAME = ''USB Sentinel''"

definition identity_or_empty :: "usbs_device \<Rightarrow> string" where
  "identity_or_empty device =
     (case usbs_device_identity device USBS_IDENTITY_MAX of (st, i) \<Rightarrow> if usbs_ok st then i else [])"

definition write_strings :: "allocator \<Rightarrow> string list \<Rightarrow> json_writer \<Rightarrow> json_writer" where
  "write_strings mem ss w = fold (\<lambda>s w. usbs_json_string mem w (Some s)) ss w"

definition write_device :: "allocator \<Rightarrow> json_writer \<Rightarrow> usbs_device \<Rightarrow> json_writer" where
  "write_device mem w device =
     (let identity = identity_or_empty device;
          w1 = usbs_json_begin_object mem (usbs_json_key mem w (Some ''device''));
          w2 = usbs_json_member_string mem w1 (Some ''identity'') (Some identity);
          w3 = usbs_json_member_string mem w2 (Some ''volume_identity'')
                 (Some (snprintf_buf (USBS_IDENTITY_MAX + USBS_VOLUME_PATH_MAX) (identity @ ''/'' @ volume_path device)));
          w4 = usbs_json_member_string mem w3 (Some ''bus_type'') (Some (usbs_bus_type_string (bus_type device)));
          w5 = usbs_json_member_string mem w4 (Some ''vendor'') (Some (vendor device));
          w6 = usbs_json_member_string mem w5 (Some ''product'') (Some (product device));
          w7 = usbs_json_member_string mem w6 (Some ''volume_path'') (Some (volume_path device));
          w8 = usbs_json_begin_array mem (usbs_json_key mem w7 (Some ''mount_points''));
          w9 = usbs_json_end_array mem (write_strings mem (mount_points device) w8);
          w10 = usbs_json_member_string mem w9 (Some ''filesystem'') (Some (filesystem device));
          w11 = usbs_json_member_bool mem w10 (Some ''media_present'') (media_present device);
          w12 = usbs_json_member_uint mem w11 (Some ''capacity_bytes'') (capacity_bytes device);
          w13 = usbs_json_member_uint mem w12 (Some ''free_bytes'') (free_bytes device)
      in usbs_json_end_object mem w13)"

definition write_capabilities :: "allocator \<Rightarrow> json_writer \<Rightarrow> usbs_capabilities \<Rightarrow> json_writer" where
  "write_capabilities mem w caps =
     (let w1 = usbs_json_begin_object mem (usbs_json_key mem w (Some ''capabilities''));
          w2 = usbs_json_member_bool mem w1 (Some ''can_read_raw_volume'') (can_read_raw_volume caps);
          w3 = usbs_json_member_bool mem w2 (Some ''can_read_physical_disk'') (can_read_physical_disk caps)
      in usbs_json_end_object mem w3)"

text \<open>The counters that \<open>write_checks\<close> returns through its out parameters.\<close>

record check_counts =
  n_run :: nat
  n_skipped :: nat
  n_failed :: nat
  n_findings :: nat

definition count_status :: "usbs_check_status \<Rightarrow> check_counts \<Rightarrow> check_counts" where
  "count_status st n =
     (case st of
        USBS_CHECK_RAN \<Rightarrow> n\<lparr>n_run := n_run n + 1\<rparr>
      | USBS_CHECK_SKIPPED \<Rightarrow> n\<lparr>n_skipped := n_skipped n + 1\<rparr>
      | USBS_CHECK_FAILED \<Rightarrow> n\<lparr>n_failed := n_failed n + 1\<rparr>)"

definition write_finding :: "allocator \<Rightarrow> usbs_finding \<Rightarrow> json_writer \<Rightarrow> json_writer" where
  "write_finding mem f w =
     (let w1 = usbs_json_begin_object mem w;
          w2 = usbs_json_member_string mem w1 (Some ''severity'') (Some (usbs_severity_string (severity f)));
          w3 = usbs_json_member_string mem w2 (Some ''path'') (Some (f_path f));
          w4 = usbs_json_member_string mem w3 (Some ''message'') (Some (f_message f))
      in usbs_json_end_object mem w4)"

definition write_check :: "allocator \<Rightarrow> usbs_check_result \<Rightarrow> json_writer \<times> check_counts \<Rightarrow> json_writer \<times> check_counts" where
  "write_check mem check acc =
     (case acc of
        (w, n) \<Rightarrow>
          (let w1 = usbs_json_begin_object mem w;
               w2 = usbs_json_member_string mem w1 (Some ''id'') (Some (check_id check));
               w3 = usbs_json_member_string mem w2 (Some ''status'') (Some (usbs_check_status_string (check_status check)));
               w4 = (case check_status check of
                       USBS_CHECK_RAN \<Rightarrow> w3
                     | USBS_CHECK_SKIPPED \<Rightarrow> usbs_json_member_string mem w3 (Some ''skip_reason'') (Some (skip_reason check))
                     | USBS_CHECK_FAILED \<Rightarrow> usbs_json_member_string mem w3 (Some ''message'') (Some (check_message check)));
               w5 = (if check_status check = USBS_CHECK_RAN \<and> check_message check \<noteq> []
                     then usbs_json_member_string mem w4 (Some ''message'') (Some (check_message check)) else w4);
               w6 = usbs_json_begin_array mem (usbs_json_key mem w5 (Some ''findings''));
               w7 = fold (write_finding mem) (v_items (findings check)) w6;
               n1 = count_status (check_status check) n
           in (usbs_json_end_object mem (usbs_json_end_array mem w7),
               n1\<lparr>n_findings := n_findings n1 + length (v_items (findings check))\<rparr>)))"

definition write_checks :: "allocator \<Rightarrow> json_writer \<Rightarrow> usbs_check_list \<Rightarrow> json_writer \<times> check_counts" where
  "write_checks mem w cs =
     (case fold (write_check mem) (v_items cs)
             (usbs_json_begin_array mem (usbs_json_key mem w (Some ''checks'')),
              \<lparr>n_run = 0, n_skipped = 0, n_failed = 0, n_findings = 0\<rparr>) of
        (w1, n) \<Rightarrow> (usbs_json_end_array mem w1, n))"

definition write_report :: "allocator \<Rightarrow> string \<Rightarrow> usbs_scan_result \<Rightarrow> json_writer" where
  "write_report mem version result =
     (let w1 = usbs_json_begin_object mem usbs_json_writer_init;
          w2 = usbs_json_member_int mem w1 (Some ''schema_version'') USBS_REPORT_SCHEMA_VERSION;
          w3 = usbs_json_begin_object mem (usbs_json_key mem w2 (Some ''tool''));
          w4 = usbs_json_member_string mem w3 (Some ''name'') (Some USBS_PRODUCT_NAME);
          w5 = usbs_json_member_string mem w4 (Some ''version'') (Some version);
          w6 = usbs_json_end_object mem w5;
          w7 = usbs_json_begin_object mem (usbs_json_key mem w6 (Some ''scan''));
          w8 = usbs_json_member_string mem w7 (Some ''scan_id'') (Some (scan_id result));
          w9 = usbs_json_member_string mem w8 (Some ''started_at'') (Some (started_at result));
          w10 = usbs_json_member_string mem w9 (Some ''finished_at'') (Some (finished_at result));
          w11 = usbs_json_member_string mem w10 (Some ''status'') (Some (usbs_scan_status_string (scan_status result)));
          w12 = usbs_json_end_object mem w11;
          w13 = write_device mem w12 (scan_device result);
          w14 = write_capabilities mem w13 (capabilities result)
      in (case write_checks mem w14 (checks result) of
            (w15, n) \<Rightarrow>
              (let w16 = usbs_json_begin_object mem (usbs_json_key mem w15 (Some ''summary''));
                   w17 = usbs_json_member_uint mem w16 (Some ''checks_run'') (of_nat (n_run n));
                   w18 = usbs_json_member_uint mem w17 (Some ''checks_skipped'') (of_nat (n_skipped n));
                   w19 = usbs_json_member_uint mem w18 (Some ''checks_failed'') (of_nat (n_failed n));
                   w20 = usbs_json_member_uint mem w19 (Some ''findings_count'') (of_nat (n_findings n))
               in usbs_json_end_object mem (usbs_json_end_object mem w20))))"

definition usbs_report_build_json :: "allocator \<Rightarrow> string \<Rightarrow> usbs_scan_result \<Rightarrow> usbs_status + string" where
  "usbs_report_build_json mem version result =
     (case usbs_json_writer_finish (write_report mem version result) of
        Inl st \<Rightarrow> Inl st
      | Inr t \<Rightarrow> if mem (length t + 1) then Inr t else Inl USBS_ERR_NO_MEMORY)"

section \<open>Sizes\<close>

text \<open>
  \<open>value\<close> is the double nearest to \<open>bytes\<close>, divided by 1024 \<open>unit\<close> times; dividing by a power of
  two is exact, so the model keeps the integer it started from and the number of divisions.
\<close>

definition double_of_u64 :: "nat \<Rightarrow> nat" where
  "double_of_u64 n =
     (if n < 2 ^ 53 then n
      else (let e = log2_floor n - 52 in round_half_even n (2 ^ e) * 2 ^ e))"

fun unit_loop :: "nat \<Rightarrow> nat \<Rightarrow> nat \<Rightarrow> nat" where
  "unit_loop 0 m unit = unit"
| "unit_loop (Suc k) m unit = (if m \<ge> 1024 ^ (unit + 1) then unit_loop k m (unit + 1) else unit)"

definition size_units :: "string list" where
  "size_units = [''B'', ''KiB'', ''MiB'', ''GiB'', ''TiB'']"

definition fixed_tenths :: "nat \<Rightarrow> nat \<Rightarrow> string" where
  "fixed_tenths num den =
     (let t = round_half_even (10 * num) den in dec_of_nat (t div 10) @ ''.'' @ dec_of_nat (t mod 10))"

definition format_size :: "usbs_u64 \<Rightarrow> nat \<Rightarrow> string" where
  "format_size bytes cap =
     (let m = double_of_u64 (unat bytes); unit = unit_loop (length size_units - 1) m 0
      in if unit = 0 then snprintf_buf cap (dec_of_nat (unat bytes) @ '' B'')
         else snprintf_buf cap (fixed_tenths m (1024 ^ unit) @ '' '' @ size_units ! unit))"

section \<open>Text\<close>

definition NL :: string where "NL = [CHR 0x0A]"

definition finding_line :: "usbs_finding \<Rightarrow> string" where
  "finding_line f =
     (if f_path f \<noteq> []
      then ''        finding ['' @ usbs_severity_string (severity f) @ '']: '' @ f_path f @ '': '' @ f_message f @ NL
      else ''        finding ['' @ usbs_severity_string (severity f) @ '']: '' @ f_message f @ NL)"

definition check_lines :: "usbs_check_result \<Rightarrow> string" where
  "check_lines check =
     ''    ['' @ usbs_check_status_string (check_status check) @ ''] '' @ check_id check @ NL @
     (if check_status check = USBS_CHECK_SKIPPED then ''        reason: '' @ skip_reason check @ NL
      else if check_status check = USBS_CHECK_FAILED then ''        error: '' @ check_message check @ NL
      else if check_message check \<noteq> [] then ''        '' @ check_message check @ NL else []) @
     concat (map finding_line (v_items (findings check)))"

definition count_checks :: "usbs_check_status \<Rightarrow> usbs_check_result list \<Rightarrow> nat" where
  "count_checks st cs = length (filter (\<lambda>c. check_status c = st) cs)"

definition usbs_report_render_text :: "usbs_scan_result \<Rightarrow> string" where
  "usbs_report_render_text result =
     (let device = scan_device result;
          identity = (case usbs_device_identity device USBS_IDENTITY_MAX of
                        (st, i) \<Rightarrow> if usbs_ok st then i else ''(unknown)'');
          skipped = count_checks USBS_CHECK_SKIPPED (v_items (checks result));
          failed = count_checks USBS_CHECK_FAILED (v_items (checks result))
      in ''USB Sentinel scan report'' @ NL @
         ''  scan id      '' @ scan_id result @ NL @
         ''  started      '' @ started_at result @ NL @
         ''  finished     '' @ finished_at result @ NL @
         ''  status       '' @ usbs_scan_status_string (scan_status result) @ NL @ NL @
         ''  device       '' @ identity @ NL @
         ''  bus          '' @ usbs_bus_type_string (bus_type device) @ NL @
         (if vendor device \<noteq> [] \<or> product device \<noteq> []
          then ''  hardware     '' @ vendor device @ '' '' @ product device @ NL else []) @
         ''  capacity     '' @ format_size (capacity_bytes device) 32 @ NL @ NL @
         ''  raw volume   '' @ (if can_read_raw_volume (capabilities result)
                                then ''available'' else ''unavailable (requires elevation)'') @ NL @
         ''  raw disk     '' @ (if can_read_physical_disk (capabilities result)
                                then ''available'' else ''unavailable (requires elevation)'') @ NL @ NL @
         ''  checks:'' @ NL @
         concat (map check_lines (v_items (checks result))) @ NL @
         (if skipped > 0 \<or> failed > 0
          then ''  '' @ dec_of_nat skipped @ '' check(s) skipped, '' @ dec_of_nat failed @
               '' check(s) failed - see above.'' @ NL
          else ''  All checks ran.'' @ NL) @ NL @
         ''  Scanning is read-only: no file was opened for writing.'' @ NL)"

section \<open>CSV\<close>

text \<open>\<open>cb_data\<close> holds the bytes written so far; \<open>data == NULL\<close> exactly while \<open>cb_cap = 0\<close>.\<close>

record csv_buf =
  cb_data :: string
  cb_cap :: nat

definition csv_ensure :: "allocator \<Rightarrow> csv_buf \<Rightarrow> nat \<Rightarrow> usbs_status \<times> csv_buf" where
  "csv_ensure mem b extra =
     (let needed = length (cb_data b) + extra + 1
      in if needed \<le> cb_cap b then (USBS_OK, b)
         else
           (case grow_cap (if cb_cap b = 0 then 512 else cb_cap b) needed of
              None \<Rightarrow> (USBS_ERR_NO_MEMORY, b)
            | Some new_cap \<Rightarrow>
                if mem new_cap then (USBS_OK, b\<lparr>cb_cap := new_cap\<rparr>) else (USBS_ERR_NO_MEMORY, b)))"

definition csv_append :: "allocator \<Rightarrow> csv_buf \<Rightarrow> string \<Rightarrow> usbs_status \<times> csv_buf" where
  "csv_append mem b t =
     (case csv_ensure mem b (length t) of
        (st, b1) \<Rightarrow> if \<not> usbs_ok st then (st, b1) else (USBS_OK, b1\<lparr>cb_data := cb_data b1 @ t\<rparr>))"

text \<open>A sequence of writes, each made only if the one before succeeded.\<close>

definition andthen :: "usbs_status \<times> csv_buf \<Rightarrow> (csv_buf \<Rightarrow> usbs_status \<times> csv_buf) \<Rightarrow> usbs_status \<times> csv_buf" where
  "andthen r k = (case r of (st, b) \<Rightarrow> if \<not> usbs_ok st then (st, b) else k b)"

fun csv_chars :: "allocator \<Rightarrow> string \<Rightarrow> csv_buf \<Rightarrow> usbs_status \<times> csv_buf" where
  "csv_chars mem [] b = (USBS_OK, b)"
| "csv_chars mem (c # cs) b =
     andthen (csv_append mem b (if c = CHR 0x22 then [CHR 0x22, CHR 0x22] else [c])) (csv_chars mem cs)"

definition needs_formula_prefix :: "string \<Rightarrow> bool" where
  "needs_formula_prefix v \<longleftrightarrow> v \<noteq> [] \<and> hd v \<in> {CHR ''='', CHR ''+'', CHR ''-'', CHR ''@''}"

definition needs_quote :: "string \<Rightarrow> bool" where
  "needs_quote v \<longleftrightarrow> list_ex (\<lambda>c. c \<in> {CHR '','', CHR 0x22, CHR 0x0A, CHR 0x0D}) v"

definition csv_write_field :: "allocator \<Rightarrow> csv_buf \<Rightarrow> string option \<Rightarrow> usbs_status \<times> csv_buf" where
  "csv_write_field mem b value =
     (let v = (case value of None \<Rightarrow> [] | Some v \<Rightarrow> v)
      in if \<not> needs_quote v \<and> \<not> needs_formula_prefix v then csv_append mem b v
         else
           andthen (csv_append mem b [CHR 0x22]) (\<lambda>b1.
           andthen (if needs_formula_prefix v then csv_append mem b1 [CHR 0x27] else (USBS_OK, b1)) (\<lambda>b2.
           andthen (csv_chars mem v b2) (\<lambda>b3. csv_append mem b3 [CHR 0x22]))))"

fun csv_fields :: "allocator \<Rightarrow> bool \<Rightarrow> string list \<Rightarrow> csv_buf \<Rightarrow> usbs_status \<times> csv_buf" where
  "csv_fields mem first [] b = (USBS_OK, b)"
| "csv_fields mem first (f # fs) b =
     andthen (if first then (USBS_OK, b) else csv_append mem b '','') (\<lambda>b1.
     andthen (csv_write_field mem b1 (Some f)) (csv_fields mem False fs))"

definition CRLF :: string where "CRLF = [CHR 0x0D, CHR 0x0A]"

definition csv_write_row :: "allocator \<Rightarrow> string list \<Rightarrow> csv_buf \<Rightarrow> usbs_status \<times> csv_buf" where
  "csv_write_row mem row b = andthen (csv_fields mem True row b) (\<lambda>b1. csv_append mem b1 CRLF)"

definition csv_header :: string where
  "csv_header = ''scan_id,device_identity,check_id,check_status,skip_reason,check_message,severity,path,message'' @ CRLF"

fun csv_findings ::
  "allocator \<Rightarrow> string list \<Rightarrow> usbs_finding list \<Rightarrow> csv_buf \<Rightarrow> usbs_status \<times> csv_buf" where
  "csv_findings mem common [] b = (USBS_OK, b)"
| "csv_findings mem common (f # fs) b =
     andthen (csv_write_row mem (common @ [usbs_severity_string (severity f), f_path f, f_message f]) b)
       (csv_findings mem common fs)"

definition csv_check :: "allocator \<Rightarrow> string \<Rightarrow> string \<Rightarrow> usbs_check_result \<Rightarrow> csv_buf \<Rightarrow> usbs_status \<times> csv_buf" where
  "csv_check mem scan_id' identity check b =
     (let common = [scan_id', identity, check_id check, usbs_check_status_string (check_status check),
                    if check_status check = USBS_CHECK_SKIPPED then skip_reason check else [], check_message check]
      in if v_items (findings check) = [] then csv_write_row mem (common @ [[], [], []]) b
         else csv_findings mem common (v_items (findings check)) b)"

fun csv_checks :: "allocator \<Rightarrow> string \<Rightarrow> string \<Rightarrow> usbs_check_result list \<Rightarrow> csv_buf \<Rightarrow> usbs_status \<times> csv_buf" where
  "csv_checks mem scan_id' identity [] b = (USBS_OK, b)"
| "csv_checks mem scan_id' identity (c # cs) b =
     andthen (csv_check mem scan_id' identity c b) (csv_checks mem scan_id' identity cs)"

definition usbs_report_build_csv :: "allocator \<Rightarrow> usbs_scan_result \<Rightarrow> usbs_status + string" where
  "usbs_report_build_csv mem result =
     (case andthen (csv_append mem \<lparr>cb_data = [], cb_cap = 0\<rparr> csv_header)
             (csv_checks mem (scan_id result) (identity_or_empty (scan_device result)) (v_items (checks result))) of
        (st, b) \<Rightarrow>
          if \<not> usbs_ok st then Inl st
          else if cb_cap b = 0 then Inl USBS_ERR_INTERNAL
          else if mem (length (cb_data b) + 1) then Inr (cb_data b)
          else Inl USBS_ERR_NO_MEMORY)"

end
