(* ===== verification/ReportCsv.thy ===== *)
theory ReportCsv
  imports Report
begin

text \<open>
  The CSV a report is written to, against a reader of RFC 4180: what the reader gets back is the
  table of the findings, one row per finding and one for a check without any, with a quote mark
  in front of every cell a spreadsheet would take for a formula.
\<close>

section \<open>Text the writes add up to\<close>

text \<open>
  A write either appends its text or stops with \<open>USBS_ERR_NO_MEMORY\<close>; it cannot stop when the
  allocator grants and the text stays below half the address space.
\<close>

definition csv_may_stop :: "allocator \<Rightarrow> nat \<Rightarrow> bool" where
  "csv_may_stop mem n \<longleftrightarrow> mem \<noteq> mem_always \<or> SIZE_MAX div 2 \<le> n"

definition emits :: "allocator \<Rightarrow> (csv_buf \<Rightarrow> usbs_status \<times> csv_buf) \<Rightarrow> string \<Rightarrow> bool" where
  "emits mem op t \<longleftrightarrow>
     (\<forall>b st b'. op b = (st, b') \<longrightarrow>
        st = USBS_OK \<and> cb_data b' = cb_data b @ t \<and> cb_cap b \<le> cb_cap b' \<or>
        st = USBS_ERR_NO_MEMORY \<and> csv_may_stop mem (length (cb_data b) + length t))"

named_theorems csv_emit \<open>what an operation of the CSV writer emits\<close>

lemma csv_may_stop_mono: "csv_may_stop mem n \<Longrightarrow> n \<le> m \<Longrightarrow> csv_may_stop mem m"
  by (auto simp: csv_may_stop_def)

lemma emits_none [csv_emit]: "emits mem (\<lambda>b. (USBS_OK, b)) []"
  by (simp add: emits_def)

lemma csv_append_cases:
  "csv_append mem b t = (USBS_OK, b') \<and> cb_data b' = cb_data b @ t \<and> cb_cap b \<le> cb_cap b' \<and> 0 < cb_cap b' \<or>
   fst (csv_append mem b t) = USBS_ERR_NO_MEMORY \<and> csv_may_stop mem (length (cb_data b) + length t)"
  if "b' = snd (csv_append mem b t)"
proof -
  let ?n = "length (cb_data b) + length t + 1" and ?c = "if cb_cap b = 0 then 512 else cb_cap b"
  show ?thesis
  proof (cases "grow_cap ?c ?n")
    case None
    then have "SIZE_MAX div 2 < ?n" by (rule grow_cap_None)
    with that None show ?thesis
      by (auto simp: csv_append_def csv_ensure_def Let_def csv_may_stop_def usbs_ok_def)
  next
    case (Some c)
    then have "?c \<le> c" using grow_cap_Some [OF Some] by auto
    with that Some show ?thesis
      by (auto simp: csv_append_def csv_ensure_def Let_def csv_may_stop_def usbs_ok_def mem_always split: if_splits)
  qed
qed

lemma emits_append [csv_emit]: "emits mem (\<lambda>b. csv_append mem b t) t"
  unfolding emits_def using csv_append_cases by (metis fst_conv snd_conv)

lemma emits_andthen [csv_emit]:
  assumes "emits mem op1 s" and "emits mem op2 t"
  shows "emits mem (\<lambda>b. andthen (op1 b) op2) (s @ t)"
  unfolding emits_def
proof (intro allI impI)
  fix b st b'
  assume r: "andthen (op1 b) op2 = (st, b')"
  obtain st1 b1 where r1: "op1 b = (st1, b1)" by fastforce
  show "st = USBS_OK \<and> cb_data b' = cb_data b @ (s @ t) \<and> cb_cap b \<le> cb_cap b' \<or>
    st = USBS_ERR_NO_MEMORY \<and> csv_may_stop mem (length (cb_data b) + length (s @ t))"
  proof (cases "st1 = USBS_OK")
    case True
    with r r1 have "op2 b1 = (st, b')" by (simp add: andthen_def usbs_ok_def)
    moreover from r1 True assms(1) have "cb_data b1 = cb_data b @ s" "cb_cap b \<le> cb_cap b1"
      by (auto simp: emits_def)
    ultimately show ?thesis using assms(2) by (fastforce simp: emits_def add.assoc)
  next
    case False
    with r r1 have "st = st1" by (simp add: andthen_def usbs_ok_def)
    moreover from r1 False assms(1) have "st1 = USBS_ERR_NO_MEMORY" "csv_may_stop mem (length (cb_data b) + length s)"
      by (auto simp: emits_def)
    ultimately show ?thesis using csv_may_stop_mono by fastforce
  qed
qed

section \<open>The text of a table\<close>

definition doubled :: "string \<Rightarrow> string" where
  "doubled v = concat (map (\<lambda>c. if c = CHR 0x22 then [CHR 0x22, CHR 0x22] else [c]) v)"

definition csv_cell :: "string \<Rightarrow> string" where
  "csv_cell v =
     (if \<not> needs_quote v \<and> \<not> needs_formula_prefix v then v
      else [CHR 0x22] @ (if needs_formula_prefix v then [CHR 0x27] else []) @ doubled v @ [CHR 0x22])"

fun csv_cells :: "string list \<Rightarrow> string" where
  "csv_cells [] = []"
| "csv_cells [v] = csv_cell v"
| "csv_cells (v # w # vs) = csv_cell v @ '','' @ csv_cells (w # vs)"

definition csv_row :: "string list \<Rightarrow> string" where
  "csv_row vs = csv_cells vs @ CRLF"

lemma emits_chars [csv_emit]: "emits mem (csv_chars mem v) (doubled v)"
proof (induction v)
  case Nil
  show ?case using emits_none by (simp add: doubled_def)
next
  case (Cons c v)
  from emits_andthen [OF emits_append Cons, of "if c = CHR 0x22 then [CHR 0x22, CHR 0x22] else [c]"]
  show ?case by (simp add: doubled_def)
qed

lemma emits_field [csv_emit]: "emits mem (\<lambda>b. csv_write_field mem b (Some v)) (csv_cell v)"
proof (cases "\<not> needs_quote v \<and> \<not> needs_formula_prefix v")
  case True
  with emits_append [of mem v] show ?thesis by (simp add: csv_write_field_def csv_cell_def)
next
  case False
  have p: "emits mem (\<lambda>b. if needs_formula_prefix v then csv_append mem b [CHR 0x27] else (USBS_OK, b))
      (if needs_formula_prefix v then [CHR 0x27] else [])"
    using emits_append emits_none by simp
  have "(\<lambda>b. csv_write_field mem b (Some v)) =
      (\<lambda>b. andthen (csv_append mem b [CHR 0x22]) (\<lambda>b1.
         andthen (if needs_formula_prefix v then csv_append mem b1 [CHR 0x27] else (USBS_OK, b1)) (\<lambda>b2.
         andthen (csv_chars mem v b2) (\<lambda>b3. csv_append mem b3 [CHR 0x22]))))"
    by (simp only: csv_write_field_def Let_def option.case if_not_P [OF False])
  then show ?thesis
    using emits_andthen [OF emits_append emits_andthen [OF p emits_andthen [OF emits_chars emits_append]],
        of "[CHR 0x22]" v "[CHR 0x22]"]
    by (simp only: csv_cell_def if_not_P [OF False])
qed

lemma emits_more_fields: "emits mem (csv_fields mem False vs) (concat (map (\<lambda>v. '','' @ csv_cell v) vs))"
proof (induction vs)
  case Nil
  show ?case using emits_none by simp
next
  case (Cons v vs)
  from emits_andthen [OF emits_append emits_andthen [OF emits_field Cons], of "'',''" v] show ?case by simp
qed

lemma csv_cells_Cons: "csv_cells (v # vs) = csv_cell v @ concat (map (\<lambda>v. '','' @ csv_cell v) vs)"
  by (induction vs arbitrary: v) auto

lemma emits_row [csv_emit]: "vs \<noteq> [] \<Longrightarrow> emits mem (csv_write_row mem vs) (csv_row vs)"
proof -
  assume "vs \<noteq> []"
  then obtain v ws where vs: "vs = v # ws" by (cases vs) auto
  from emits_andthen [OF emits_andthen [OF emits_none emits_andthen [OF emits_field emits_more_fields]] emits_append,
      of mem v ws CRLF]
  show ?thesis by (simp add: vs csv_write_row_def [abs_def] csv_row_def csv_cells_Cons)
qed

section \<open>The table of a result\<close>

definition check_columns :: "string \<Rightarrow> string \<Rightarrow> usbs_check_result \<Rightarrow> string list" where
  "check_columns i identity check =
     [i, identity, check_id check, usbs_check_status_string (check_status check),
      if check_status check = USBS_CHECK_SKIPPED then skip_reason check else [], check_message check]"

definition check_rows :: "string \<Rightarrow> string \<Rightarrow> usbs_check_result \<Rightarrow> string list list" where
  "check_rows i identity check =
     map (\<lambda>fcols. check_columns i identity check @ fcols)
       (if v_items (findings check) = [] then [[[], [], []]]
        else map (\<lambda>f. [usbs_severity_string (severity f), f_path f, f_message f]) (v_items (findings check)))"

definition report_rows :: "usbs_scan_result \<Rightarrow> string list list" where
  "report_rows result =
     concat (map (check_rows (scan_id result) (identity_or_empty (scan_device result))) (v_items (checks result)))"

definition csv_text :: "usbs_scan_result \<Rightarrow> string" where
  "csv_text result = csv_header @ concat (map csv_row (report_rows result))"

lemma emits_findings: "emits mem (csv_findings mem common fs)
    (concat (map (\<lambda>f. csv_row (common @ [usbs_severity_string (severity f), f_path f, f_message f])) fs))"
proof (induction fs)
  case Nil
  show ?case using emits_none by simp
next
  case (Cons f fs)
  from emits_andthen [OF emits_row Cons, of "common @ [usbs_severity_string (severity f), f_path f, f_message f]"]
  show ?case by simp
qed

lemma emits_check: "emits mem (csv_check mem i identity check) (concat (map csv_row (check_rows i identity check)))"
proof (cases "v_items (findings check) = []")
  case True
  with emits_row [of "check_columns i identity check @ [[], [], []]" mem] show ?thesis
    by (simp add: csv_check_def [abs_def] check_rows_def check_columns_def)
next
  case False
  with emits_findings [of mem "check_columns i identity check" "v_items (findings check)"] show ?thesis
    by (simp add: csv_check_def [abs_def] check_rows_def check_columns_def comp_def)
qed

lemma emits_checks: "emits mem (csv_checks mem i identity cs)
    (concat (map csv_row (concat (map (check_rows i identity) cs))))"
proof (induction cs)
  case Nil
  show ?case using emits_none by simp
next
  case (Cons c cs)
  from emits_andthen [OF emits_check Cons] show ?case by simp
qed

lemma build_csv_text:
  "usbs_report_build_csv mem result = Inr (csv_text result) \<or>
   usbs_report_build_csv mem result = Inl USBS_ERR_NO_MEMORY \<and> csv_may_stop mem (length (csv_text result))"
proof -
  let ?b0 = "\<lparr>cb_data = [], cb_cap = 0\<rparr>"
  let ?go = "csv_checks mem (scan_id result) (identity_or_empty (scan_device result)) (v_items (checks result))"
  obtain st b where r: "andthen (csv_append mem ?b0 csv_header) ?go = (st, b)" by fastforce
  obtain st1 b1 where r1: "csv_append mem ?b0 csv_header = (st1, b1)" by fastforce
  have e: "emits mem (\<lambda>b. andthen (csv_append mem b csv_header) ?go) (csv_text result)"
    unfolding csv_text_def report_rows_def by (rule emits_andthen [OF emits_append emits_checks])
  show ?thesis
  proof (cases "st = USBS_OK")
    case True
    with e r have t: "cb_data b = csv_text result" by (fastforce simp: emits_def)
    from True r r1 have ok: "st1 = USBS_OK" "?go b1 = (st, b)" by (auto simp: andthen_def usbs_ok_def split: if_splits)
    with csv_append_cases [of b1 mem ?b0 csv_header] r1 have "0 < cb_cap b1" by auto
    with emits_checks [of mem "scan_id result" "identity_or_empty (scan_device result)" "v_items (checks result)"] ok True
    have "0 < cb_cap b" by (fastforce simp: emits_def)
    with r t True show ?thesis
      by (auto simp: usbs_report_build_csv_def usbs_ok_def csv_may_stop_def mem_always)
  next
    case False
    with e r have "st = USBS_ERR_NO_MEMORY" "csv_may_stop mem (length (csv_text result))" by (fastforce simp: emits_def)+
    with r show ?thesis by (simp add: usbs_report_build_csv_def usbs_ok_def)
  qed
qed

section \<open>Reading it back\<close>

datatype csv_mode = FieldStart | Plain | Quoted | QuoteSeen

text \<open>A reader of RFC 4180 with the strict quoting rules; \<open>f\<close> is the field so far, \<open>row\<close> the fields before it.\<close>

fun csv_scan :: "csv_mode \<Rightarrow> string \<Rightarrow> string list \<Rightarrow> string \<Rightarrow> string list list option" where
  "csv_scan m f row [] = (if m = FieldStart \<and> row = [] then Some [] else None)"
| "csv_scan m f row (c # cs) =
     (if m = Quoted then
        (if c = CHR 0x22 then csv_scan QuoteSeen f row cs else csv_scan Quoted (f @ [c]) row cs)
      else if c = CHR '','' then csv_scan FieldStart [] (row @ [f]) cs
      else if c = CHR 0x0D then
        (case cs of
           d # ds \<Rightarrow>
             if d = CHR 0x0A then map_option ((#) (row @ [f])) (csv_scan FieldStart [] [] ds) else None
         | [] \<Rightarrow> None)
      else if c = CHR 0x22 then
        (case m of
           FieldStart \<Rightarrow> csv_scan Quoted [] row cs
         | QuoteSeen \<Rightarrow> csv_scan Quoted (f @ [c]) row cs
         | _ \<Rightarrow> None)
      else if m = QuoteSeen \<or> c = CHR 0x0A then None
      else csv_scan Plain (f @ [c]) row cs)"

definition csv_read :: "string \<Rightarrow> string list list option" where
  "csv_read t = csv_scan FieldStart [] [] t"

definition guarded :: "string \<Rightarrow> string" where
  "guarded v = (if needs_formula_prefix v then CHR 0x27 # v else v)"

lemma scan_plain:
  "\<not> needs_quote v \<Longrightarrow> m = Plain \<or> m = FieldStart \<Longrightarrow> v \<noteq> [] \<Longrightarrow>
   csv_scan m f row (v @ rest) = csv_scan Plain (f @ v) row rest"
proof (induction v arbitrary: m f)
  case (Cons c v)
  then show ?case by (cases "v = []") (auto simp: needs_quote_def)
qed simp

lemma scan_quoted: "csv_scan Quoted f row (doubled v @ rest) = csv_scan Quoted (f @ v) row rest"
  by (induction v arbitrary: f) (auto simp: doubled_def)

lemma ends_after:
  assumes "rest = CHR '','' # r \<or> rest = CRLF @ r" and "m \<noteq> Quoted"
  shows "csv_scan m f row rest = csv_scan Plain f row rest"
  using assms by (auto simp: CRLF_def)

lemma scan_cell:
  assumes "rest = CHR '','' # r \<or> rest = CRLF @ r"
  shows "csv_scan FieldStart [] row (csv_cell v @ rest) = csv_scan Plain (guarded v) row rest"
proof (cases "\<not> needs_quote v \<and> \<not> needs_formula_prefix v")
  case True
  then show ?thesis
    using scan_plain [of v FieldStart "[]" row rest] ends_after [OF assms, of FieldStart "[]" row]
    by (cases "v = []") (auto simp: csv_cell_def guarded_def)
next
  case False
  have "csv_scan FieldStart [] row (csv_cell v @ rest) = csv_scan QuoteSeen (guarded v) row rest"
    unfolding csv_cell_def if_not_P [OF False]
    using scan_quoted [of "[CHR 0x27]" row v "CHR 0x22 # rest"] scan_quoted [of "[]" row v "CHR 0x22 # rest"]
    by (simp add: guarded_def)
  with ends_after [OF assms, of QuoteSeen] show ?thesis by simp
qed

lemma scan_cells:
  "vs \<noteq> [] \<Longrightarrow> csv_scan FieldStart [] row (csv_cells vs @ CRLF @ rest) =
     map_option ((#) (row @ map guarded vs)) (csv_scan FieldStart [] [] rest)"
proof (induction vs arbitrary: row rule: csv_cells.induct)
  case (2 v)
  show ?case using scan_cell [of "CRLF @ rest" rest row v] by (simp add: CRLF_def)
next
  case (3 v w vs)
  then show ?case
    using scan_cell [of "CHR '','' # csv_cells (w # vs) @ CRLF @ rest" "csv_cells (w # vs) @ CRLF @ rest" row v] by simp
qed simp

lemma scan_rows: "\<forall>row \<in> set rows. row \<noteq> [] \<Longrightarrow> csv_read (concat (map csv_row rows)) = Some (map (map guarded) rows)"
proof (induction rows)
  case (Cons r rows)
  have "concat (map csv_row (r # rows)) = csv_cells r @ CRLF @ concat (map csv_row rows)"
    by (simp add: csv_row_def)
  with Cons scan_cells [of r "[]" "concat (map csv_row rows)"] show ?case by (simp add: csv_read_def)
qed (simp add: csv_read_def)

definition header_row :: "string list" where
  "header_row = [''scan_id'', ''device_identity'', ''check_id'', ''check_status'', ''skip_reason'',
     ''check_message'', ''severity'', ''path'', ''message'']"

lemma header_is_row: "csv_header = csv_row header_row" "map guarded header_row = header_row"
  by code_simp+

lemma guarded_no_formula: "\<not> needs_formula_prefix (guarded v)"
  by (auto simp: guarded_def needs_formula_prefix_def)


lemma csv_always_built:
  "length (csv_text result) < SIZE_MAX div 2 \<Longrightarrow> usbs_report_build_csv mem_always result = Inr (csv_text result)"
  using build_csv_text [of mem_always result] by (auto simp: csv_may_stop_def)

definition sample_result :: usbs_scan_result where
  "sample_result =
     \<lparr>scan_id = ''ab'', started_at = ''2026-09-11T14:02:03Z'', finished_at = ''2026-09-11T14:02:09Z'',
      scan_status = USBS_SCAN_COMPLETED, scan_device = sample_stick,
      capabilities = \<lparr>can_read_raw_volume = False, can_read_physical_disk = False\<rparr>,
      checks = \<lparr>v_items =
        [(usbs_check_result_init ''file_traversal'')\<lparr>check_message := ''completed: 1 file(s), 2 byte(s)''\<rparr>,
         (usbs_check_result_init ''suspicious_filename'')\<lparr>findings := \<lparr>v_items =
            [\<lparr>severity = USBS_SEVERITY_HIGH, f_message = ''a, b'', f_path = ''=cmd.pdf.exe''\<rparr>], v_capacity = 8\<rparr>\<rparr>],
        v_capacity = 8\<rparr>,
      paths_skipped = 0, paths_excluded = 0\<rparr>"


end
