(* ===== verification/ReportJson.thy ===== *)
theory ReportJson
  imports Report JsonRoundtrip StoreIndex ReportCsv
begin

text \<open>
  The JSON report as one document: the calls of \<open>write_report\<close> are those of \<open>report_doc\<close>, so the
  text parses, and what a reader finds in it through the accessors of json.h is the result.
\<close>

section \<open>The document\<close>

definition finding_doc :: "usbs_finding \<Rightarrow> jdoc" where
  "finding_doc f = DObject [(''severity'', DString (usbs_severity_string (severity f))),
     (''path'', DString (f_path f)), (''message'', DString (f_message f))]"

definition outcome_members :: "usbs_check_result \<Rightarrow> (string \<times> jdoc) list" where
  "outcome_members check =
     (case check_status check of
        USBS_CHECK_RAN \<Rightarrow> if check_message check \<noteq> [] then [(''message'', DString (check_message check))] else []
      | USBS_CHECK_SKIPPED \<Rightarrow> [(''skip_reason'', DString (skip_reason check))]
      | USBS_CHECK_FAILED \<Rightarrow> [(''message'', DString (check_message check))])"

definition check_doc :: "usbs_check_result \<Rightarrow> jdoc" where
  "check_doc check = DObject
     ([(''id'', DString (check_id check)), (''status'', DString (usbs_check_status_string (check_status check)))] @
      outcome_members check @ [(''findings'', DArray (map finding_doc (v_items (findings check))))])"

definition device_doc :: "usbs_device \<Rightarrow> jdoc" where
  "device_doc d = DObject
     [(''identity'', DString (identity_or_empty d)),
      (''volume_identity'',
         DString (snprintf_buf (USBS_IDENTITY_MAX + USBS_VOLUME_PATH_MAX) (identity_or_empty d @ ''/'' @ volume_path d))),
      (''bus_type'', DString (usbs_bus_type_string (bus_type d))),
      (''vendor'', DString (vendor d)), (''product'', DString (product d)), (''volume_path'', DString (volume_path d)),
      (''mount_points'', DArray (map DString (mount_points d))),
      (''filesystem'', DString (filesystem d)), (''media_present'', DBool (media_present d)),
      (''capacity_bytes'', DUint (capacity_bytes d)), (''free_bytes'', DUint (free_bytes d))]"

definition total_findings :: "usbs_check_result list \<Rightarrow> nat" where
  "total_findings cs = sum_list (map (\<lambda>c. length (v_items (findings c))) cs)"

definition report_doc :: "string \<Rightarrow> usbs_scan_result \<Rightarrow> jdoc" where
  "report_doc version r = DObject
     [(''schema_version'', DInt USBS_REPORT_SCHEMA_VERSION),
      (''tool'', DObject [(''name'', DString USBS_PRODUCT_NAME), (''version'', DString version)]),
      (''scan'', DObject [(''scan_id'', DString (scan_id r)), (''started_at'', DString (started_at r)),
         (''finished_at'', DString (finished_at r)), (''status'', DString (usbs_scan_status_string (scan_status r)))]),
      (''device'', device_doc (scan_device r)),
      (''capabilities'', DObject [(''can_read_raw_volume'', DBool (can_read_raw_volume (capabilities r))),
         (''can_read_physical_disk'', DBool (can_read_physical_disk (capabilities r)))]),
      (''checks'', DArray (map check_doc (v_items (checks r)))),
      (''summary'', DObject
         [(''checks_run'', DUint (of_nat (count_checks USBS_CHECK_RAN (v_items (checks r))))),
          (''checks_skipped'', DUint (of_nat (count_checks USBS_CHECK_SKIPPED (v_items (checks r))))),
          (''checks_failed'', DUint (of_nat (count_checks USBS_CHECK_FAILED (v_items (checks r))))),
          (''findings_count'', DUint (of_nat (total_findings (v_items (checks r)))))])]"

section \<open>The calls are the document's\<close>

lemmas member_defs =
  usbs_json_member_string_def usbs_json_member_int_def usbs_json_member_uint_def usbs_json_member_bool_def

lemma json_run_Cons: "json_run mem (c # cs) w = json_run mem cs (json_step mem c w)"
  by (simp add: json_run_def)

lemma write_finding_calls: "write_finding mem f w = json_run mem (calls_of (finding_doc f)) w"
  by (simp add: write_finding_def finding_doc_def json_run_Cons member_defs Let_def)

lemma write_findings_calls:
  "fold (write_finding mem) fs w = json_run mem (concat (map (\<lambda>f. calls_of (finding_doc f)) fs)) w"
  by (induction fs arbitrary: w) (simp_all add: write_finding_calls json_run_append)

lemma write_strings_calls: "write_strings mem ss w = json_run mem (map WriteString ss) w"
  by (induction ss arbitrary: w) (simp_all add: write_strings_def json_run_Cons)

lemma write_check_calls:
  "write_check mem check (w, n) =
     (json_run mem (calls_of (check_doc check)) w,
      (count_status (check_status check) n)
        \<lparr>n_findings := n_findings (count_status (check_status check) n) + length (v_items (findings check))\<rparr>)"
  by (cases "check_status check"; cases "check_message check = []")
     (simp_all add: write_check_def check_doc_def outcome_members_def write_findings_calls
        json_run_Cons json_run_append member_defs Let_def comp_def)

lemma write_checks_loop:
  "fold (write_check mem) cs (w, n) =
     (json_run mem (concat (map (\<lambda>c. calls_of (check_doc c)) cs)) w,
      \<lparr>n_run = n_run n + count_checks USBS_CHECK_RAN cs, n_skipped = n_skipped n + count_checks USBS_CHECK_SKIPPED cs,
       n_failed = n_failed n + count_checks USBS_CHECK_FAILED cs, n_findings = n_findings n + total_findings cs\<rparr>)"
proof (induction cs arbitrary: w n)
  case Nil
  show ?case by (simp add: count_checks_def total_findings_def)
next
  case (Cons c cs)
  show ?case
    by (cases "check_status c")
       (simp_all add: Cons write_check_calls json_run_append count_status_def count_checks_def total_findings_def)
qed

lemma write_report_calls:
  "write_report mem version r = json_run mem (calls_of (report_doc version r)) usbs_json_writer_init"
  by (simp add: write_report_def report_doc_def write_device_def device_doc_def write_capabilities_def write_checks_def
      write_checks_loop write_strings_calls json_run_Cons json_run_append member_defs Let_def comp_def)

lemma report_height: "jheight (report_doc version r) \<le> USBS_JSON_PARSE_MAX_DEPTH"
proof -
  have f: "jheight (finding_doc f) \<le> 2" for f
    by (simp add: finding_doc_def)
  have c: "jheight (check_doc c) \<le> 4" for c
    using f unfolding check_doc_def outcome_members_def
    by (cases "check_status c") (auto simp: jheight_object jheight_array simp del: jheight.simps(1,2) split: if_splits)
  have d: "jheight (device_doc x) \<le> 3" for x
    unfolding device_doc_def by (auto simp: jheight_object jheight_array simp del: jheight.simps(1,2))
  have "jheight (report_doc version r) \<le> 6"
    unfolding report_doc_def using c d [of "scan_device r"]
    by (auto simp: jheight_object jheight_array simp del: jheight.simps(1,2))
  then show ?thesis by (simp add: USBS_JSON_PARSE_MAX_DEPTH_def)
qed

section \<open>What a reader finds\<close>

definition read_str :: "json_value option \<Rightarrow> string \<Rightarrow> string option" where
  "read_str v k = usbs_json_as_string (usbs_json_object_get v k)"

definition json_items :: "json_value option \<Rightarrow> json_value option list" where
  "json_items v = map (usbs_json_array_at v) [0..<usbs_json_array_count v]"

definition read_finding :: "json_value option \<Rightarrow> string option \<times> string option \<times> string option" where
  "read_finding v = (read_str v ''severity'', read_str v ''path'', read_str v ''message'')"

definition read_check ::
  "json_value option \<Rightarrow> string option \<times> string option \<times> (string option \<times> string option \<times> string option) list" where
  "read_check v =
     (read_str v ''id'', read_str v ''status'', map read_finding (json_items (usbs_json_object_get v ''findings'')))"

definition finding_fields :: "usbs_finding \<Rightarrow> string option \<times> string option \<times> string option" where
  "finding_fields f = (Some (usbs_severity_string (severity f)), Some (f_path f), Some (f_message f))"

definition check_fields ::
  "usbs_check_result \<Rightarrow> string option \<times> string option \<times> (string option \<times> string option \<times> string option) list" where
  "check_fields c =
     (Some (check_id c), Some (usbs_check_status_string (check_status c)), map finding_fields (v_items (findings c)))"

text \<open>The model's strings are C strings: no NUL inside.\<close>

definition finding_cstr :: "usbs_finding \<Rightarrow> bool" where
  "finding_cstr f \<longleftrightarrow> is_cstr (f_path f) \<and> is_cstr (f_message f)"

definition check_cstr :: "usbs_check_result \<Rightarrow> bool" where
  "check_cstr c \<longleftrightarrow> is_cstr (check_id c) \<and> list_all finding_cstr (v_items (findings c))"

lemma json_items_array: "json_items (Some (JSON_ARRAY vs)) = map Some vs"
proof -
  have "map (\<lambda>i. Some (vs ! i)) [0..<length vs] = map Some vs"
    by (rule nth_equalityI) simp_all
  moreover have "json_items (Some (JSON_ARRAY vs)) = map (\<lambda>i. Some (vs ! i)) [0..<length vs]"
    by (auto simp: json_items_def usbs_json_array_at_def usbs_json_array_count_def)
  ultimately show ?thesis by simp
qed

lemma as_string_cstr: "is_cstr s \<Longrightarrow> usbs_json_as_string (Some (JSON_STRING s)) = Some s"
  by (simp add: usbs_json_as_string_def)

lemma get_member: "usbs_json_object_get (Some (JSON_OBJECT ms)) k = member_search ms k"
  by (simp add: usbs_json_object_get_def)

lemma is_cstr_severity [simp]: "is_cstr (usbs_severity_string s)"
  by (cases s) (simp_all add: is_cstr_def)

lemma is_cstr_check_status [simp]: "is_cstr (usbs_check_status_string st)"
  by (cases st) (simp_all add: is_cstr_def)

lemma read_finding_doc: "finding_cstr f \<Longrightarrow> read_finding (Some (jvalue (finding_doc f))) = finding_fields f"
  by (simp add: read_finding_def finding_doc_def finding_fields_def finding_cstr_def read_str_def get_member as_string_cstr)

lemma check_doc_members:
  "usbs_json_object_get (Some (jvalue (check_doc c))) ''id'' = Some (JSON_STRING (check_id c))"
  "usbs_json_object_get (Some (jvalue (check_doc c))) ''status'' = Some (JSON_STRING (usbs_check_status_string (check_status c)))"
  "usbs_json_object_get (Some (jvalue (check_doc c))) ''findings'' =
     Some (JSON_ARRAY (map (\<lambda>f. jvalue (finding_doc f)) (v_items (findings c))))"
  by (cases "check_status c"; simp add: check_doc_def outcome_members_def get_member comp_def)+

lemma read_check_doc:
  assumes "check_cstr c"
  shows "read_check (Some (jvalue (check_doc c))) = check_fields c"
proof -
  have "map read_finding (map Some (map (\<lambda>f. jvalue (finding_doc f)) (v_items (findings c)))) =
      map finding_fields (v_items (findings c))"
    using assms by (auto simp: check_cstr_def list_all_iff read_finding_doc)
  then show ?thesis
    using assms
    by (simp add: read_check_def read_str_def check_doc_members check_fields_def json_items_array as_string_cstr
        check_cstr_def)
qed

text \<open>
  C18 Writing a result as JSON and reading it back: with an allocator that grants and a text below
  half the address space, the report is built, the project's own reader accepts it, and through
  the reader's accessors every check comes back in order with its id, status and exactly its
  findings, the scan id is the result's, and the summary's finding count is the exact total.
\<close>

theorem json_report_reads_back:
  assumes "length (render (report_doc version r)) + 1 < SIZE_MAX div 2"
    and "list_all check_cstr (v_items (checks r))" and "is_cstr (scan_id r)"
    and "total_findings (v_items (checks r)) < 2 ^ 53"
  shows "\<exists>t root. usbs_report_build_json mem_always version r = Inr t \<and> usbs_json_parse mem_always t = Inr root \<and>
    map read_check (json_items (usbs_json_object_get (Some root) ''checks'')) = map check_fields (v_items (checks r)) \<and>
    read_str (usbs_json_object_get (Some root) ''scan'') ''scan_id'' = Some (scan_id r) \<and>
    usbs_json_as_int (usbs_json_object_get (usbs_json_object_get (Some root) ''summary'') ''findings_count'') =
      Some (Cast (int (total_findings (v_items (checks r)))))"
proof -
  let ?d = "report_doc version r"
  have w: "usbs_json_writer_finish (write_report mem_always version r) = Inr (render ?d)"
      "usbs_json_parse mem_always (render ?d) = Inr (jvalue ?d)"
    using written_document_parses [OF report_height] assms(1) by (simp_all add: write_report_calls)
  have checks: "usbs_json_object_get (Some (jvalue ?d)) ''checks'' =
      Some (JSON_ARRAY (map jvalue (map check_doc (v_items (checks r)))))"
    by (simp add: report_doc_def get_member)
  have scan: "read_str (usbs_json_object_get (Some (jvalue ?d)) ''scan'') ''scan_id'' = Some (scan_id r)"
    using assms(3) by (simp add: report_doc_def get_member read_str_def as_string_cstr)
  have n: "uint (of_nat (total_findings (v_items (checks r))) :: usbs_u64) = int (total_findings (v_items (checks r)))"
    using assms(4) by (simp add: unsigned_of_nat take_bit_nat_eq_self_iff uint_nat)
  have sum: "usbs_json_as_int (usbs_json_object_get (usbs_json_object_get (Some (jvalue ?d)) ''summary'') ''findings_count'') =
      Some (Cast (int (total_findings (v_items (checks r)))))"
    using assms(4) by (simp add: report_doc_def get_member n as_int_double_of_int)
  have "map read_check (map Some (map jvalue (map check_doc (v_items (checks r))))) = map check_fields (v_items (checks r))"
    using assms(2) by (auto simp: list_all_iff read_check_doc)
  with w checks scan sum show ?thesis
    by (auto simp: usbs_report_build_json_def mem_always json_items_array)
qed

lemma json_report_reads_back_witness:
  "\<exists>t root. usbs_report_build_json mem_always ''1.0.0'' sample_result = Inr t \<and> usbs_json_parse mem_always t = Inr root \<and>
    map read_check (json_items (usbs_json_object_get (Some root) ''checks'')) =
      map check_fields (v_items (checks sample_result))"
proof -
  have "length (render (report_doc ''1.0.0'' sample_result)) < 4000" by code_simp
  then have "length (render (report_doc ''1.0.0'' sample_result)) + 1 < SIZE_MAX div 2" by (simp add: SIZE_MAX_def)
  moreover have "list_all check_cstr (v_items (checks sample_result))" "is_cstr (scan_id sample_result)" by code_simp+
  moreover have "total_findings (v_items (checks sample_result)) < 2 ^ 53" by code_simp
  ultimately show ?thesis using json_report_reads_back [of "''1.0.0''" sample_result] by blast
qed

end
