(* ===== verification/ReportView.thy ===== *)
theory ReportView
  imports ReportCsv
begin

text \<open>
  The styled presentation of a scan result in src/gui/gui_report_view.c: the summary and its
  verdict, and the report as a sequence of styled runs. The callback that consumes the runs keeps
  nothing of them in the model but their sequence, so every renderer is the list of the runs it emits.
\<close>

section \<open>Styles and runs\<close>

datatype gui_text_style =
    GUI_STYLE_TITLE | GUI_STYLE_SECTION | GUI_STYLE_LABEL | GUI_STYLE_BODY
  | GUI_STYLE_MUTED | GUI_STYLE_GOOD | GUI_STYLE_WARNING | GUI_STYLE_THREAT

datatype gui_verdict =
    GUI_VERDICT_CLEAN | GUI_VERDICT_INCOMPLETE | GUI_VERDICT_SUSPICIOUS | GUI_VERDICT_THREAT

record gui_report_summary =
  gs_verdict :: gui_verdict
  high_count :: nat
  warning_count :: nat
  info_count :: nat
  finding_count :: nat
  checks_run :: nat
  checks_skipped :: nat
  checks_failed :: nat
  completed :: bool
  gs_paths_skipped :: usbs_u64

record gui_report_totals =
  total_files :: usbs_u64
  total_bytes :: usbs_u64

type_synonym gui_run = "gui_text_style \<times> string"

definition GUI_BULLET :: string where "GUI_BULLET = [CHR 0xE2, CHR 0x80, CHR 0xA2]"
definition GUI_MARKER :: string where "GUI_MARKER = [CHR 0xE2, CHR 0x96, CHR 0xB8]"
definition GUI_MIDDOT :: string where "GUI_MIDDOT = [CHR 0xC2, CHR 0xB7]"
definition GUI_LINE_MAX :: nat where "GUI_LINE_MAX = 1024"
definition GUI_LABEL_WIDTH :: nat where "GUI_LABEL_WIDTH = 13"

definition emit_text :: "gui_text_style \<Rightarrow> string \<Rightarrow> gui_run list" where
  "emit_text style t = (if t \<noteq> [] then [(style, t)] else [])"

definition emit_fmt :: "gui_text_style \<Rightarrow> string \<Rightarrow> gui_run list" where
  "emit_fmt style t = emit_text style (snprintf_buf GUI_LINE_MAX t)"

text \<open>\<open>%-*s\<close>: at least \<open>width\<close> bytes, filled with spaces on the right.\<close>

definition pad_right :: "nat \<Rightarrow> string \<Rightarrow> string" where
  "pad_right width s = s @ replicate (width - length s) CHR '' ''"

definition emit_field :: "string \<Rightarrow> gui_text_style \<Rightarrow> string \<Rightarrow> gui_run list" where
  "emit_field lab value_style v =
     emit_fmt GUI_STYLE_LABEL (''   '' @ GUI_BULLET @ ''  '' @ pad_right GUI_LABEL_WIDTH lab @ '' '') @
     emit_fmt value_style ((if v \<noteq> [] then v else ''(not reported)'') @ CRLF)"

definition emit_blank :: "gui_run list" where "emit_blank = emit_text GUI_STYLE_BODY CRLF"

definition emit_section :: "string \<Rightarrow> gui_run list" where
  "emit_section title = emit_fmt GUI_STYLE_SECTION (title @ CRLF)"

definition style_for_severity :: "usbs_severity \<Rightarrow> gui_text_style" where
  "style_for_severity s =
     (case s of USBS_SEVERITY_HIGH \<Rightarrow> GUI_STYLE_THREAT | USBS_SEVERITY_WARNING \<Rightarrow> GUI_STYLE_WARNING
      | USBS_SEVERITY_INFO \<Rightarrow> GUI_STYLE_MUTED)"

definition label_for_severity :: "usbs_severity \<Rightarrow> string" where
  "label_for_severity s =
     (case s of USBS_SEVERITY_HIGH \<Rightarrow> ''HIGH'' | USBS_SEVERITY_WARNING \<Rightarrow> ''SUSPICIOUS''
      | USBS_SEVERITY_INFO \<Rightarrow> ''INFO'')"

definition gui_check_display_name :: "string option \<Rightarrow> string" where
  "gui_check_display_name i =
     (case i of
        None \<Rightarrow> ''(unnamed check)''
      | Some n \<Rightarrow>
          if n = ''file_traversal'' then ''File traversal''
          else if n = ''autorun_inspection'' then ''Autorun inspection''
          else if n = ''suspicious_filename'' then ''Suspicious file names''
          else if n = ''lnk_inspection'' then ''Shortcut (.lnk) inspection''
          else if n = ''hash_match_example'' then ''Known-hash matching''
          else n)"

section \<open>Summary and verdict\<close>

definition summary_zero :: gui_report_summary where
  "summary_zero =
     \<lparr>gs_verdict = GUI_VERDICT_CLEAN, high_count = 0, warning_count = 0, info_count = 0, finding_count = 0,
      checks_run = 0, checks_skipped = 0, checks_failed = 0, completed = False, gs_paths_skipped = 0\<rparr>"

definition count_finding :: "usbs_finding \<Rightarrow> gui_report_summary \<Rightarrow> gui_report_summary" where
  "count_finding f s =
     (let s1 = s\<lparr>finding_count := finding_count s + 1\<rparr>
      in case severity f of
           USBS_SEVERITY_HIGH \<Rightarrow> s1\<lparr>high_count := high_count s1 + 1\<rparr>
         | USBS_SEVERITY_WARNING \<Rightarrow> s1\<lparr>warning_count := warning_count s1 + 1\<rparr>
         | USBS_SEVERITY_INFO \<Rightarrow> s1\<lparr>info_count := info_count s1 + 1\<rparr>)"

definition count_check :: "usbs_check_result \<Rightarrow> gui_report_summary \<Rightarrow> gui_report_summary" where
  "count_check check s =
     fold count_finding (v_items (findings check))
       (case check_status check of
          USBS_CHECK_RAN \<Rightarrow> s\<lparr>checks_run := checks_run s + 1\<rparr>
        | USBS_CHECK_SKIPPED \<Rightarrow> s\<lparr>checks_skipped := checks_skipped s + 1\<rparr>
        | USBS_CHECK_FAILED \<Rightarrow> s\<lparr>checks_failed := checks_failed s + 1\<rparr>)"

definition judge_summary :: "gui_report_summary \<Rightarrow> gui_verdict" where
  "judge_summary s =
     (if high_count s > 0 then GUI_VERDICT_THREAT
      else if warning_count s > 0 then GUI_VERDICT_SUSPICIOUS
      else if \<not> completed s \<or> checks_skipped s > 0 \<or> checks_failed s > 0 then GUI_VERDICT_INCOMPLETE
      else GUI_VERDICT_CLEAN)"

definition gui_report_summarize :: "usbs_scan_result option \<Rightarrow> gui_report_summary" where
  "gui_report_summarize result =
     (case result of
        None \<Rightarrow> summary_zero\<lparr>gs_verdict := GUI_VERDICT_INCOMPLETE\<rparr>
      | Some r \<Rightarrow>
          (let s = fold count_check (v_items (checks r))
                     (summary_zero\<lparr>completed := (scan_status r = USBS_SCAN_COMPLETED), gs_paths_skipped := paths_skipped r\<rparr>)
           in s\<lparr>gs_verdict := judge_summary s\<rparr>))"

definition gui_verdict_headline :: "gui_verdict \<Rightarrow> string" where
  "gui_verdict_headline v =
     (case v of GUI_VERDICT_THREAT \<Rightarrow> ''THREATS DETECTED'' | GUI_VERDICT_SUSPICIOUS \<Rightarrow> ''SUSPICIOUS ITEMS FOUND''
      | GUI_VERDICT_INCOMPLETE \<Rightarrow> ''SCAN INCOMPLETE'' | GUI_VERDICT_CLEAN \<Rightarrow> ''ALL CLEAR'')"

definition gui_verdict_style :: "gui_verdict \<Rightarrow> gui_text_style" where
  "gui_verdict_style v =
     (case v of GUI_VERDICT_THREAT \<Rightarrow> GUI_STYLE_THREAT | GUI_VERDICT_SUSPICIOUS \<Rightarrow> GUI_STYLE_WARNING
      | GUI_VERDICT_INCOMPLETE \<Rightarrow> GUI_STYLE_WARNING | GUI_VERDICT_CLEAN \<Rightarrow> GUI_STYLE_GOOD)"

definition gui_verdict_detail :: "gui_report_summary option \<Rightarrow> nat \<Rightarrow> string" where
  "gui_verdict_detail summary cap =
     (if cap = 0 then []
      else
        (case summary of
           None \<Rightarrow> snprintf_buf cap ''No scan result available.''
         | Some s \<Rightarrow>
             (case gs_verdict s of
                GUI_VERDICT_THREAT \<Rightarrow>
                  snprintf_buf cap (dec_of_nat (high_count s) @
                    '' high-severity item(s) found on this device. Do not open them.'')
              | GUI_VERDICT_SUSPICIOUS \<Rightarrow>
                  snprintf_buf cap (dec_of_nat (warning_count s) @
                    '' item(s) worth a closer look. Nothing matched a known-malicious signature.'')
              | GUI_VERDICT_INCOMPLETE \<Rightarrow>
                  if \<not> completed s then
                    snprintf_buf cap (''Nothing found so far, but the scan did not finish - '' @
                      ''this device has not been fully checked.'')
                  else if checks_failed s > 0 then
                    snprintf_buf cap (''Nothing found, but '' @ dec_of_nat (checks_failed s) @ '' check(s) failed - '' @
                      ''this device has not been fully checked.'')
                  else
                    snprintf_buf cap (''Nothing found, but '' @ dec_of_nat (checks_skipped s) @ '' check(s) did not run - '' @
                      ''this device has not been fully checked.'')
              | GUI_VERDICT_CLEAN \<Rightarrow>
                  if gs_paths_skipped s > 0 then
                    snprintf_buf cap (''No threats in everything that could be read. '' @
                      dec_of_nat (unat (gs_paths_skipped s)) @ '' protected location(s) were skipped.'')
                  else if info_count s > 0 then
                    snprintf_buf cap (''Every check ran and found no threats. '' @ dec_of_nat (info_count s) @
                      '' informational note(s) below.'')
                  else snprintf_buf cap ''Every check ran and found nothing suspicious.'')))"

section \<open>Sections\<close>

definition render_verdict :: "gui_report_summary \<Rightarrow> gui_run list" where
  "render_verdict s =
     emit_fmt (gui_verdict_style (gs_verdict s)) (''   '' @ gui_verdict_headline (gs_verdict s) @ CRLF) @
     emit_fmt GUI_STYLE_MUTED (''   '' @ gui_verdict_detail (Some s) 256 @ CRLF)"

definition DRIVES_MAX :: nat where "DRIVES_MAX = USBS_MOUNT_POINTS_MAX * (USBS_MOUNT_POINT_MAX + 2)"

text \<open>The list of mount points: what does not fit any more is cut off and ends the loop.\<close>

fun drives_loop :: "bool \<Rightarrow> string list \<Rightarrow> string \<Rightarrow> string" where
  "drives_loop first [] drives = drives"
| "drives_loop first (m # ms) drives =
     (let t = (if first then [] else '', '') @ m; room = DRIVES_MAX - length drives
      in if t = [] then drives
         else if length t \<ge> room then drives @ snprintf_buf room t
         else drives_loop False ms (drives @ t))"

definition drive_text :: "usbs_device \<Rightarrow> string" where
  "drive_text d =
     (let ds = drives_loop True (take USBS_MOUNT_POINTS_MAX (mount_points d)) [];
          drives = (if ds = [] then ''(no drive letter)'' else ds)
      in if label d \<noteq> [] then snprintf_buf GUI_LINE_MAX (drives @ ''   '' @ label d)
         else snprintf_buf GUI_LINE_MAX drives)"

definition render_device :: "usbs_device \<Rightarrow> gui_run list" where
  "render_device d =
     emit_section ''DEVICE'' @
     emit_field ''Drive'' GUI_STYLE_BODY (drive_text d) @
     (if vendor d \<noteq> [] \<or> product d \<noteq> []
      then emit_field ''Hardware'' GUI_STYLE_BODY
             (snprintf_buf GUI_LINE_MAX
                (vendor d @ (if vendor d \<noteq> [] \<and> product d \<noteq> [] then '' '' else []) @ product d))
      else []) @
     emit_field ''Device ID'' GUI_STYLE_MUTED
       (case usbs_device_identity d USBS_IDENTITY_MAX of (st, i) \<Rightarrow> if usbs_ok st then i else ''(unknown)'') @
     emit_field ''Connection'' GUI_STYLE_BODY (usbs_bus_type_string (bus_type d)) @
     (if filesystem d \<noteq> [] then emit_field ''File system'' GUI_STYLE_BODY (filesystem d) else []) @
     (if capacity_bytes d > 0
      then emit_field ''Capacity'' GUI_STYLE_BODY
             (snprintf_buf GUI_LINE_MAX
                (format_size (capacity_bytes d) 32 @ '' total  '' @ GUI_MIDDOT @ ''  '' @
                 format_size (capacity_bytes d -
                   (if free_bytes d \<le> capacity_bytes d then free_bytes d else capacity_bytes d)) 32 @ '' in use''))
      else [])"

definition view_traversal_message :: "usbs_scan_result \<Rightarrow> string option" where
  "view_traversal_message r =
     map_option check_message (find (\<lambda>c. check_id c = ''file_traversal'') (v_items (checks r)))"

definition render_scan :: "usbs_scan_result \<Rightarrow> gui_report_totals option \<Rightarrow> gui_report_summary \<Rightarrow> gui_run list" where
  "render_scan r totals s =
     emit_section ''SCAN'' @
     emit_field ''Started'' GUI_STYLE_BODY (started_at r) @
     emit_field ''Finished'' GUI_STYLE_BODY (finished_at r) @
     emit_field ''Outcome'' (if completed s then GUI_STYLE_BODY else GUI_STYLE_WARNING)
       (if completed s then ''Completed'' else ''Stopped early (cancelled, or the device was removed)'') @
     (case totals of
        Some t \<Rightarrow>
          emit_field ''Scanned'' GUI_STYLE_BODY
            (snprintf_buf GUI_LINE_MAX (dec_of_nat (unat (total_files t)) @ '' file(s)  '' @ GUI_MIDDOT @ ''  '' @
               format_size (total_bytes t) 32 @ '' examined'')) @
          (if paths_skipped r > 0
           then emit_field ''Skipped'' GUI_STYLE_MUTED
                  (snprintf_buf GUI_LINE_MAX (dec_of_nat (unat (paths_skipped r)) @
                     '' location(s) could not be read (access denied or unavailable)'')) else []) @
          (if paths_excluded r > 0
           then emit_field ''Excluded'' GUI_STYLE_MUTED
                  (snprintf_buf GUI_LINE_MAX (dec_of_nat (unat (paths_excluded r)) @
                     '' location(s) not examined by internal-drive policy (USB Sentinel test fixtures)'')) else [])
      | None \<Rightarrow>
          (case view_traversal_message r of
             None \<Rightarrow> []
           | Some m \<Rightarrow> if m \<noteq> [] then emit_field ''Scanned'' GUI_STYLE_BODY m else [])) @
     emit_field ''Scan ID'' GUI_STYLE_MUTED (scan_id r) @
     (if \<not> can_read_raw_volume (capabilities r) \<or> \<not> can_read_physical_disk (capabilities r)
      then emit_field ''Limited by'' GUI_STYLE_MUTED ''raw volume/disk access unavailable without elevation'' else [])"

definition render_finding :: "string \<Rightarrow> usbs_finding \<Rightarrow> gui_run list" where
  "render_finding cid f =
     emit_fmt (style_for_severity (severity f))
       (''   '' @ GUI_MARKER @ ''  ['' @ label_for_severity (severity f) @ '']  '' @ f_message f @ CRLF) @
     (if f_path f \<noteq> [] then emit_fmt GUI_STYLE_MUTED (''        Location:  '' @ f_path f @ CRLF) else []) @
     emit_fmt GUI_STYLE_MUTED (''        Found by:  '' @ gui_check_display_name (Some cid) @ CRLF)"

fun findings_loop :: "nat \<Rightarrow> (string \<times> usbs_finding) list \<Rightarrow> gui_run list \<times> nat" where
  "findings_loop emitted [] = ([], emitted)"
| "findings_loop emitted ((cid, f) # fs) =
     (case findings_loop (emitted + 1) fs of
        (runs, n) \<Rightarrow> ((if emitted > 0 then emit_blank else []) @ render_finding cid f @ runs, n))"

definition all_findings :: "usbs_scan_result \<Rightarrow> (string \<times> usbs_finding) list" where
  "all_findings r = concat (map (\<lambda>c. map (Pair (check_id c)) (v_items (findings c))) (v_items (checks r)))"

definition render_findings :: "usbs_scan_result \<Rightarrow> usbs_severity \<Rightarrow> bool \<Rightarrow> gui_run list \<times> nat" where
  "render_findings r floor exact =
     findings_loop 0
       (filter (\<lambda>(cid, f). \<not> (if exact then severity f \<noteq> floor else severity f < floor)) (all_findings r))"

definition check_outcome :: "usbs_check_result \<Rightarrow> gui_text_style \<times> string" where
  "check_outcome check =
     (case check_status check of
        USBS_CHECK_SKIPPED \<Rightarrow>
          (GUI_STYLE_WARNING, snprintf_buf GUI_LINE_MAX (''skipped '' @ GUI_MIDDOT @ '' '' @ skip_reason check))
      | USBS_CHECK_FAILED \<Rightarrow>
          (GUI_STYLE_WARNING, snprintf_buf GUI_LINE_MAX (''failed '' @ GUI_MIDDOT @ '' '' @ check_message check))
      | USBS_CHECK_RAN \<Rightarrow>
          if v_items (findings check) = []
          then (GUI_STYLE_MUTED, snprintf_buf GUI_LINE_MAX (''ran '' @ GUI_MIDDOT @ '' nothing found''))
          else (GUI_STYLE_BODY, snprintf_buf GUI_LINE_MAX
                  (''ran '' @ GUI_MIDDOT @ '' '' @ dec_of_nat (length (v_items (findings check))) @ '' finding(s)'')))"

definition render_check :: "usbs_check_result \<Rightarrow> gui_run list" where
  "render_check check =
     emit_fmt GUI_STYLE_LABEL
       (''   '' @ GUI_BULLET @ ''  '' @ pad_right 28 (gui_check_display_name (Some (check_id check))) @ '' '') @
     emit_fmt (fst (check_outcome check)) (snd (check_outcome check) @ CRLF) @
     (if check_status check = USBS_CHECK_RAN \<and> check_message check \<noteq> []
      then emit_fmt GUI_STYLE_MUTED (''        '' @ check_message check @ CRLF) else [])"

definition render_checks :: "usbs_scan_result \<Rightarrow> gui_report_summary \<Rightarrow> gui_run list" where
  "render_checks r s =
     emit_section ''CHECKS PERFORMED'' @
     concat (map render_check (v_items (checks r))) @
     (if checks_skipped s > 0 \<or> checks_failed s > 0
      then emit_blank @
           emit_fmt GUI_STYLE_WARNING (''   '' @ dec_of_nat (checks_skipped s) @ '' check(s) skipped and '' @
             dec_of_nat (checks_failed s) @ '' failed - this scan is not a clean bill of health.'' @ CRLF)
      else [])"

definition gui_report_render_runs :: "usbs_scan_result option \<Rightarrow> gui_report_totals option \<Rightarrow> gui_run list" where
  "gui_report_render_runs result totals =
     (case result of
        None \<Rightarrow> []
      | Some r \<Rightarrow>
          (let s = gui_report_summarize (Some r)
           in emit_text GUI_STYLE_TITLE (''USB SENTINEL SCAN REPORT'' @ CRLF) @ emit_blank @
              render_verdict s @ emit_blank @
              render_device (scan_device r) @ emit_blank @
              render_scan r totals s @ emit_blank @
              (if high_count s > 0 \<or> warning_count s > 0
               then emit_section (if high_count s > 0 then ''THREATS FOUND'' else ''SUSPICIOUS ITEMS'') @
                    fst (render_findings r USBS_SEVERITY_WARNING False) @ emit_blank
               else []) @
              (if info_count s > 0
               then emit_section ''NOTES'' @ fst (render_findings r USBS_SEVERITY_INFO True) @ emit_blank
               else []) @
              render_checks r s @ emit_blank @
              emit_text GUI_STYLE_MUTED
                (''   Scanning is read-only: no file on this device was opened for writing.'' @ CRLF)))"

section \<open>What the summary counts\<close>

definition of_severity :: "usbs_severity \<Rightarrow> usbs_finding list \<Rightarrow> nat" where
  "of_severity v fs = length (filter (\<lambda>f. severity f = v) fs)"

definition check_findings :: "usbs_check_result list \<Rightarrow> usbs_finding list" where
  "check_findings cs = concat (map (\<lambda>c. v_items (findings c)) cs)"

lemma count_finding_step:
  "count_finding f s =
     s\<lparr>high_count := high_count s + of_severity USBS_SEVERITY_HIGH [f],
       warning_count := warning_count s + of_severity USBS_SEVERITY_WARNING [f],
       info_count := info_count s + of_severity USBS_SEVERITY_INFO [f], finding_count := finding_count s + 1\<rparr>"
  by (cases "severity f") (simp_all add: count_finding_def of_severity_def Let_def)

lemma of_severity_Cons: "of_severity v (f # fs) = of_severity v [f] + of_severity v fs"
  by (simp add: of_severity_def)

lemma fold_count_finding:
  "fold count_finding fs s =
     s\<lparr>high_count := high_count s + of_severity USBS_SEVERITY_HIGH fs,
       warning_count := warning_count s + of_severity USBS_SEVERITY_WARNING fs,
       info_count := info_count s + of_severity USBS_SEVERITY_INFO fs,
       finding_count := finding_count s + length fs\<rparr>"
proof (induction fs arbitrary: s)
  case (Cons f fs)
  show ?case
    by (simp only: fold.simps comp_apply Cons) (simp add: count_finding_step of_severity_Cons [of _ f fs])
qed (simp add: of_severity_def)

lemma count_check_step:
  "count_check c s =
     s\<lparr>high_count := high_count s + of_severity USBS_SEVERITY_HIGH (v_items (findings c)),
       warning_count := warning_count s + of_severity USBS_SEVERITY_WARNING (v_items (findings c)),
       info_count := info_count s + of_severity USBS_SEVERITY_INFO (v_items (findings c)),
       finding_count := finding_count s + length (v_items (findings c)),
       checks_run := checks_run s + count_checks USBS_CHECK_RAN [c],
       checks_skipped := checks_skipped s + count_checks USBS_CHECK_SKIPPED [c],
       checks_failed := checks_failed s + count_checks USBS_CHECK_FAILED [c]\<rparr>"
  unfolding count_check_def fold_count_finding by (cases "check_status c") (simp_all add: count_checks_def)

lemma count_checks_Cons: "count_checks st (c # cs) = count_checks st [c] + count_checks st cs"
  by (simp add: count_checks_def)

lemma check_findings_Cons:
  "of_severity v (check_findings (c # cs)) = of_severity v (v_items (findings c)) + of_severity v (check_findings cs)"
  "length (check_findings (c # cs)) = length (v_items (findings c)) + length (check_findings cs)"
  by (simp_all add: check_findings_def of_severity_def)

lemma fold_count_check:
  "fold count_check cs s =
     s\<lparr>high_count := high_count s + of_severity USBS_SEVERITY_HIGH (check_findings cs),
       warning_count := warning_count s + of_severity USBS_SEVERITY_WARNING (check_findings cs),
       info_count := info_count s + of_severity USBS_SEVERITY_INFO (check_findings cs),
       finding_count := finding_count s + length (check_findings cs),
       checks_run := checks_run s + count_checks USBS_CHECK_RAN cs,
       checks_skipped := checks_skipped s + count_checks USBS_CHECK_SKIPPED cs,
       checks_failed := checks_failed s + count_checks USBS_CHECK_FAILED cs\<rparr>"
proof (induction cs arbitrary: s)
  case (Cons c cs)
  show ?case
    by (simp only: fold.simps comp_apply Cons)
       (simp add: count_check_step count_checks_Cons [of _ c cs] check_findings_Cons)
qed (simp add: of_severity_def check_findings_def count_checks_def)

lemma summary_counts:
  "high_count (gui_report_summarize (Some r)) = of_severity USBS_SEVERITY_HIGH (check_findings (v_items (checks r)))"
  "warning_count (gui_report_summarize (Some r)) = of_severity USBS_SEVERITY_WARNING (check_findings (v_items (checks r)))"
  "info_count (gui_report_summarize (Some r)) = of_severity USBS_SEVERITY_INFO (check_findings (v_items (checks r)))"
  "checks_skipped (gui_report_summarize (Some r)) = count_checks USBS_CHECK_SKIPPED (v_items (checks r))"
  "checks_failed (gui_report_summarize (Some r)) = count_checks USBS_CHECK_FAILED (v_items (checks r))"
  "completed (gui_report_summarize (Some r)) \<longleftrightarrow> scan_status r = USBS_SCAN_COMPLETED"
  "gs_verdict (gui_report_summarize (Some r)) = judge_summary (gui_report_summarize (Some r))"
  by (simp_all add: gui_report_summarize_def fold_count_check summary_zero_def judge_summary_def Let_def)

lemma of_severity_pos: "0 < of_severity v fs \<longleftrightarrow> (\<exists>f \<in> set fs. severity f = v)"
  by (auto simp: of_severity_def filter_empty_conv)

lemma count_checks_pos: "0 < count_checks st cs \<longleftrightarrow> (\<exists>c \<in> set cs. check_status c = st)"
  by (auto simp: count_checks_def filter_empty_conv)

lemma all_findings_snd: "snd ` set (all_findings r) = set (check_findings (v_items (checks r)))"
  by (force simp: all_findings_def check_findings_def)

definition clean_result :: "usbs_scan_result \<Rightarrow> bool" where
  "clean_result r \<longleftrightarrow>
     scan_status r = USBS_SCAN_COMPLETED \<and>
     (\<forall>c \<in> set (v_items (checks r)). check_status c = USBS_CHECK_RAN) \<and>
     (\<forall>(cid, f) \<in> set (all_findings r). severity f = USBS_SEVERITY_INFO)"

lemma verdict_clean: "gs_verdict (gui_report_summarize (Some r)) = GUI_VERDICT_CLEAN \<longleftrightarrow> clean_result r"
proof -
  have st: "check_status c \<noteq> USBS_CHECK_SKIPPED \<and> check_status c \<noteq> USBS_CHECK_FAILED \<longleftrightarrow> check_status c = USBS_CHECK_RAN" for c
    by (cases "check_status c") auto
  have sv: "severity f \<noteq> USBS_SEVERITY_HIGH \<and> severity f \<noteq> USBS_SEVERITY_WARNING \<longleftrightarrow> severity f = USBS_SEVERITY_INFO" for f
    by (cases "severity f") auto
  have fs: "(\<forall>(cid, f) \<in> set (all_findings r). severity f = USBS_SEVERITY_INFO) \<longleftrightarrow>
      (\<forall>f \<in> set (check_findings (v_items (checks r))). severity f = USBS_SEVERITY_INFO)"
    unfolding all_findings_snd [symmetric] by (auto split: prod.splits)
  have "gs_verdict (gui_report_summarize (Some r)) = GUI_VERDICT_CLEAN \<longleftrightarrow>
      \<not> 0 < high_count (gui_report_summarize (Some r)) \<and> \<not> 0 < warning_count (gui_report_summarize (Some r)) \<and>
      completed (gui_report_summarize (Some r)) \<and> \<not> 0 < checks_skipped (gui_report_summarize (Some r)) \<and>
      \<not> 0 < checks_failed (gui_report_summarize (Some r))"
    unfolding summary_counts(7) judge_summary_def by simp
  also have "\<dots> \<longleftrightarrow> clean_result r"
    unfolding summary_counts of_severity_pos count_checks_pos clean_result_def fs
    using st sv by blast
  finally show ?thesis .
qed

section \<open>Which styles a section uses\<close>

definition only_styles :: "gui_text_style set \<Rightarrow> gui_run list \<Rightarrow> bool" where
  "only_styles S runs \<longleftrightarrow> (\<forall>(st, t) \<in> set runs. st \<in> S)"

named_theorems styles \<open>the styles a renderer emits\<close>

lemma only_styles_append [styles, simp]: "only_styles S (xs @ ys) \<longleftrightarrow> only_styles S xs \<and> only_styles S ys"
  by (auto simp: only_styles_def)

lemma only_styles_Nil [styles, simp]: "only_styles S []"
  by (simp add: only_styles_def)

lemma only_styles_concat [styles]: "\<forall>x \<in> set xs. only_styles S (f x) \<Longrightarrow> only_styles S (concat (map f xs))"
  by (auto simp: only_styles_def)

lemma only_styles_emit [styles]:
  "st \<in> S \<Longrightarrow> only_styles S (emit_text st t)" "st \<in> S \<Longrightarrow> only_styles S (emit_fmt st t)"
  by (auto simp: only_styles_def emit_text_def emit_fmt_def)

abbreviation not_green :: "gui_text_style set" where "not_green \<equiv> - {GUI_STYLE_GOOD}"

lemma field_not_green [styles]: "st \<noteq> GUI_STYLE_GOOD \<Longrightarrow> only_styles not_green (emit_field lab st v)"
  by (simp add: emit_field_def only_styles_emit)

lemma blank_not_green [styles]: "only_styles not_green emit_blank"
  by (simp add: emit_blank_def only_styles_emit)

lemma section_not_green [styles]: "only_styles not_green (emit_section t)"
  by (simp add: emit_section_def only_styles_emit)

lemma severity_not_green [styles]: "style_for_severity s \<noteq> GUI_STYLE_GOOD"
  by (cases s) (simp_all add: style_for_severity_def)

lemma finding_not_green [styles]: "only_styles not_green (render_finding cid f)"
  by (simp add: render_finding_def only_styles_emit severity_not_green)

lemma findings_not_green: "only_styles not_green (fst (findings_loop n fs))"
proof (induction fs arbitrary: n)
  case (Cons p fs)
  then show ?case by (cases p) (simp add: finding_not_green blank_not_green case_prod_beta)
qed simp

lemma check_not_green [styles]: "only_styles not_green (render_check c)"
proof -
  have "fst (check_outcome c) \<noteq> GUI_STYLE_GOOD"
    by (cases "check_status c") (simp_all add: check_outcome_def)
  then show ?thesis by (simp add: render_check_def only_styles_emit)
qed

lemma device_not_green [styles]: "only_styles not_green (render_device d)"
  by (simp add: render_device_def styles)

lemma scan_not_green [styles]: "only_styles not_green (render_scan r totals s)"
  by (simp add: render_scan_def styles split: option.splits)

lemma checks_not_green [styles]: "only_styles not_green (render_checks r s)"
  by (simp add: render_checks_def styles)

lemma emit_fmt_nonempty: "t \<noteq> [] \<Longrightarrow> emit_fmt st t = [(st, snprintf_buf GUI_LINE_MAX t)]"
  by (cases t) (simp_all add: emit_fmt_def emit_text_def snprintf_buf_def GUI_LINE_MAX_def)

text \<open>
  C7 Green is earned: the report holds a run in the affirmative style exactly when the scan
  completed, every check ran, and every finding is informational. A cancelled or disconnected
  scan, a skipped or failed check, a suspicious or high finding: none of them shows green.
\<close>

theorem green_means_clean:
  "(\<exists>t. (GUI_STYLE_GOOD, t) \<in> set (gui_report_render_runs (Some r) totals)) \<longleftrightarrow> clean_result r"
proof -
  let ?s = "gui_report_summarize (Some r)"
  have rest: "(GUI_STYLE_GOOD, t) \<notin> set runs" if "only_styles not_green runs" for runs t
    using that by (fastforce simp: only_styles_def)
  have v: "(\<exists>t. (GUI_STYLE_GOOD, t) \<in> set (render_verdict ?s)) \<longleftrightarrow> gs_verdict ?s = GUI_VERDICT_CLEAN"
    by (cases "gs_verdict ?s") (simp_all add: render_verdict_def emit_fmt_nonempty gui_verdict_style_def)
  obtain before later where split: "gui_report_render_runs (Some r) totals = before @ render_verdict ?s @ later"
      "only_styles not_green before" "only_styles not_green later"
  proof
    show "gui_report_render_runs (Some r) totals =
      (emit_text GUI_STYLE_TITLE (''USB SENTINEL SCAN REPORT'' @ CRLF) @ emit_blank) @ render_verdict ?s @
      (emit_blank @ render_device (scan_device r) @ emit_blank @ render_scan r totals ?s @ emit_blank @
       (if high_count ?s > 0 \<or> warning_count ?s > 0
        then emit_section (if high_count ?s > 0 then ''THREATS FOUND'' else ''SUSPICIOUS ITEMS'') @
             fst (render_findings r USBS_SEVERITY_WARNING False) @ emit_blank
        else []) @
       (if info_count ?s > 0
        then emit_section ''NOTES'' @ fst (render_findings r USBS_SEVERITY_INFO True) @ emit_blank else []) @
       render_checks r ?s @ emit_blank @
       emit_text GUI_STYLE_MUTED (''   Scanning is read-only: no file on this device was opened for writing.'' @ CRLF))"
      by (simp only: gui_report_render_runs_def option.case Let_def append_assoc)
  qed (simp_all add: styles render_findings_def findings_not_green)
  show ?thesis
    unfolding split(1) set_append
    using v rest [OF split(2)] rest [OF split(3)] verdict_clean [of r] by blast
qed

lemma findings_loop_shows: "(cid, f) \<in> set fs \<Longrightarrow> set (render_finding cid f) \<subseteq> set (fst (findings_loop n fs))"
proof (induction fs arbitrary: n)
  case (Cons p fs)
  then show ?case by (cases p) (auto simp: case_prod_beta)
qed simp



end
