(* ===== verification/HttpServer.thy ===== *)
theory HttpServer
  imports Status
begin

text \<open>
  The loopback HTTP server of src/gui_web/http_server.c: request parsing over a byte buffer, and
  the socket loop around it. Sockets are system calls, so they are a record of functions over an
  arbitrary world. A received byte may be NUL: \<open>cstr\<close> marks the places where the code reads a
  buffer as a C string. The \<open>handler\<close> is the callback the server is given.
\<close>

section \<open>Requests\<close>

definition HTTP_METHOD_MAX :: nat where "HTTP_METHOD_MAX = 8"
definition HTTP_PATH_MAX :: nat where "HTTP_PATH_MAX = 256"
definition HTTP_QUERY_MAX :: nat where "HTTP_QUERY_MAX = 256"
definition HTTP_HEADER_NAME_MAX :: nat where "HTTP_HEADER_NAME_MAX = 64"
definition HTTP_HEADER_VALUE_MAX :: nat where "HTTP_HEADER_VALUE_MAX = 512"
definition HTTP_MAX_HEADERS :: nat where "HTTP_MAX_HEADERS = 16"

record http_header =
  h_name :: string
  h_value :: string

text \<open>The headers are the array below \<open>header_count\<close>; the body is empty when \<open>body\<close> is NULL.\<close>

record http_request =
  rq_method :: string
  rq_path :: string
  rq_query :: string
  rq_headers :: "http_header list"
  rq_body :: string

definition http_request_zero :: http_request where
  "http_request_zero = \<lparr>rq_method = [], rq_path = [], rq_query = [], rq_headers = [], rq_body = []\<rparr>"

section \<open>Parsing\<close>

abbreviation CR :: char where "CR \<equiv> CHR 0x0D"
abbreviation LF :: char where "LF \<equiv> CHR 0x0A"

definition trim_leading_space :: "string \<Rightarrow> string" where
  "trim_leading_space s = dropWhile (\<lambda>c. c = CHR '' '' \<or> c = CHR 0x09) s"

text \<open>One \<open>%<n>s\<close> conversion of \<open>sscanf\<close>: white space is skipped, then at most \<open>n\<close> other bytes are taken.\<close>

definition scan_token :: "nat \<Rightarrow> string \<Rightarrow> (string \<times> string) option" where
  "scan_token n s =
     (let t = dropWhile is_c_space s; tok = takeWhile (\<lambda>c. \<not> is_c_space c) (take n t)
      in if tok = [] then None else Some (tok, drop (length tok) t))"

definition SIZEOF_LINE_BUF :: nat where
  "SIZEOF_LINE_BUF = HTTP_METHOD_MAX + HTTP_PATH_MAX + HTTP_QUERY_MAX + 40"

definition parse_request_line :: "string \<Rightarrow> http_request \<Rightarrow> usbs_status + http_request" where
  "parse_request_line line rq =
     (if length line \<ge> SIZEOF_LINE_BUF then Inl USBS_ERR_IO
      else
        (case scan_token 7 (cstr line) of
           None \<Rightarrow> Inl USBS_ERR_IO
         | Some (meth, s1) \<Rightarrow>
             (case scan_token 511 s1 of
                None \<Rightarrow> Inl USBS_ERR_IO
              | Some (full_path, s2) \<Rightarrow>
                  (case scan_token 31 s2 of
                     None \<Rightarrow> Inl USBS_ERR_IO
                   | Some (version, _) \<Rightarrow>
                       (let rq1 = rq\<lparr>rq_method := snprintf_buf HTTP_METHOD_MAX meth\<rparr>
                        in case split_first CHR ''?'' full_path of
                             Some (lhs, rhs) \<Rightarrow>
                               Inr (rq1\<lparr>rq_query := snprintf_buf HTTP_QUERY_MAX rhs,
                                        rq_path := snprintf_buf HTTP_PATH_MAX lhs\<rparr>)
                           | None \<Rightarrow> Inr (rq1\<lparr>rq_path := snprintf_buf HTTP_PATH_MAX full_path\<rparr>))))))"

text \<open>
  A header line without a colon leaves the slot as it was. The blanks after the colon are skipped
  without a bound, but the byte after the line is a carriage return, which is none.
\<close>

definition parse_header_line :: "string \<Rightarrow> http_header \<Rightarrow> usbs_status \<times> http_header" where
  "parse_header_line line slot =
     (case split_first CHR '':'' line of
        None \<Rightarrow> (USBS_ERR_IO, slot)
      | Some (lhs, rhs) \<Rightarrow>
          (USBS_OK, \<lparr>h_name = cstr (take (HTTP_HEADER_NAME_MAX - 1) lhs),
                    h_value = cstr (take (HTTP_HEADER_VALUE_MAX - 1) (trim_leading_space rhs))\<rparr>))"

text \<open>The offset of the first \<open>CR LF CR LF\<close>.\<close>

fun head_end :: "string \<Rightarrow> nat option" where
  "head_end (a # b # c # d # s) =
     (if a = CR \<and> b = LF \<and> c = CR \<and> d = LF then Some 0 else map_option Suc (head_end (b # c # d # s)))"
| "head_end _ = None"

text \<open>\<open>rest\<close> is the buffer from \<open>line_start\<close> to the carriage return at \<open>head_end\<close>, inclusive.\<close>

function header_lines :: "string \<Rightarrow> http_header list \<Rightarrow> http_header list" where
  "header_lines rest hs =
     (if length rest \<le> 1 then hs
      else
        (case split_first CR rest of
           None \<Rightarrow> hs
         | Some (line, after) \<Rightarrow>
             if line = [] then hs
             else header_lines (drop 1 after)
                    (if length hs < HTTP_MAX_HEADERS
                     then hs @ [snd (parse_header_line line \<lparr>h_name = [], h_value = []\<rparr>)] else hs)))"
  by pat_completeness auto
termination
  by (relation "measure (\<lambda>(rest, hs). length rest)") (auto dest!: length_split_first)

declare header_lines.simps [simp del]

definition http_request_parse :: "string \<Rightarrow> usbs_status + http_request \<times> nat" where
  "http_request_parse buf =
     (case head_end buf of
        None \<Rightarrow> Inl USBS_ERR_IO
      | Some e \<Rightarrow>
          (case split_first CR (take (e + 2) buf) of
             None \<Rightarrow> Inl USBS_ERR_IO
           | Some (line, _) \<Rightarrow>
               (case parse_request_line line http_request_zero of
                  Inl st \<Rightarrow> Inl st
                | Inr rq \<Rightarrow>
                    Inr (rq\<lparr>rq_headers := header_lines (drop (length line + 2) (take (e + 1) buf)) []\<rparr>, e + 4))))"

definition http_request_header :: "http_request \<Rightarrow> string \<Rightarrow> string option" where
  "http_request_header rq name =
     map_option h_value (find (\<lambda>h. fold_case (h_name h) = fold_case name) (rq_headers rq))"

text \<open>\<open>strtoll(s, \<dots>, 10)\<close>, saturating; the second component is what follows the converted text.\<close>

definition c_strtoll :: "string \<Rightarrow> int \<times> string" where
  "c_strtoll s =
     (let t = dropWhile is_c_space s;
          neg = (t \<noteq> [] \<and> hd t = CHR ''-'');
          u = (if t \<noteq> [] \<and> (hd t = CHR ''-'' \<or> hd t = CHR ''+'') then tl t else t);
          ds = takeWhile is_digit u;
          n = int (nat_of_digits ds)
      in if ds = [] then (0, s)
         else (if neg then max (- (2 ^ 63)) (- n) else min (2 ^ 63 - 1) n, dropWhile is_digit u))"

definition http_request_content_length :: "http_request \<Rightarrow> usbs_status + nat" where
  "http_request_content_length rq =
     (case http_request_header rq ''Content-Length'' of
        None \<Rightarrow> Inr 0
      | Some v \<Rightarrow>
          (case c_strtoll v of
             (parsed, rest) \<Rightarrow>
               if rest = v \<or> rest \<noteq> [] \<or> parsed < 0 then Inl USBS_ERR_IO else Inr (nat parsed)))"

function query_loop :: "string \<Rightarrow> nat \<Rightarrow> string \<Rightarrow> string option" where
  "query_loop key cap cursor =
     (if cursor = [] then None
      else
        (let pair = takeWhile (\<lambda>c. c \<noteq> CHR ''&'') cursor; rest = dropWhile (\<lambda>c. c \<noteq> CHR ''&'') cursor
         in if length pair > length key \<and> cursor ! length key = CHR ''='' \<and> take (length key) cursor = key
            then Some (take (cap - 1) (drop (length key + 1) pair))
            else query_loop key cap (drop 1 rest)))"
  by pat_completeness auto
termination
  by (relation "measure (\<lambda>(key, cap, cursor). length cursor)")
    (auto simp: neq_Nil_conv intro!: le_imp_less_Suc le_trans [OF diff_le_self] length_dropWhile_le)

declare query_loop.simps [simp del]

definition http_query_get :: "string \<Rightarrow> string \<Rightarrow> nat \<Rightarrow> string option" where
  "http_query_get query key cap = (if cap = 0 then None else query_loop key cap query)"

section \<open>Sockets\<close>

datatype select_result = SELECT_READY | SELECT_TIMEOUT | SELECT_INTERRUPTED | SELECT_FAILED

record 'w net =
  net_socket :: "'w \<Rightarrow> int \<times> 'w"
  net_bind :: "int \<Rightarrow> 32 word \<Rightarrow> 16 word \<Rightarrow> 'w \<Rightarrow> int \<times> 'w"
  net_listen :: "int \<Rightarrow> 'w \<Rightarrow> int \<times> 'w"
  net_getsockname :: "int \<Rightarrow> 'w \<Rightarrow> int \<times> 16 word \<times> 'w"
  net_select :: "int \<Rightarrow> 'w \<Rightarrow> select_result \<times> 'w"
  net_accept :: "int \<Rightarrow> 'w \<Rightarrow> int \<times> 'w"
  net_recv :: "int \<Rightarrow> nat \<Rightarrow> 'w \<Rightarrow> string option \<times> 'w"
  net_send :: "int \<Rightarrow> string \<Rightarrow> 'w \<Rightarrow> int \<times> 'w"
  net_close :: "int \<Rightarrow> 'w \<Rightarrow> 'w"
  net_time :: "'w \<Rightarrow> int \<times> 'w"

record http_server =
  listen_fd :: int
  server_port :: "16 word"

definition SIZEOF_HTTP_SERVER :: nat where "SIZEOF_HTTP_SERVER = 8"
definition INADDR_LOOPBACK :: "32 word" where "INADDR_LOOPBACK = 0x7F000001"

definition http_server_start :: "allocator \<Rightarrow> 'w net \<Rightarrow> 'w \<Rightarrow> (usbs_status + http_server \<times> 16 word) \<times> 'w" where
  "http_server_start mem N w =
     (case net_socket N w of
        (fd, w1) \<Rightarrow>
          if fd < 0 then (Inl USBS_ERR_IO, w1)
          else
            (case net_bind N fd INADDR_LOOPBACK 0 w1 of
               (r, w2) \<Rightarrow>
                 if r \<noteq> 0 then (Inl USBS_ERR_IO, net_close N fd w2)
                 else
                   (case net_listen N fd w2 of
                      (r2, w3) \<Rightarrow>
                        if r2 \<noteq> 0 then (Inl USBS_ERR_IO, net_close N fd w3)
                        else
                          (case net_getsockname N fd w3 of
                             (r3, port, w4) \<Rightarrow>
                               if r3 \<noteq> 0 then (Inl USBS_ERR_IO, net_close N fd w4)
                               else if \<not> mem SIZEOF_HTTP_SERVER then (Inl USBS_ERR_NO_MEMORY, net_close N fd w4)
                               else (Inr (\<lparr>listen_fd = fd, server_port = port\<rparr>, port), w4)))))"

definition http_server_free :: "'w net \<Rightarrow> http_server \<Rightarrow> 'w \<Rightarrow> 'w" where
  "http_server_free N server w = net_close N (listen_fd server) w"

function send_all :: "'w net \<Rightarrow> int \<Rightarrow> string \<Rightarrow> 'w \<Rightarrow> 'w" where
  "send_all N fd data w =
     (if data = [] then w
      else (case net_send N fd data w of
              (n, w1) \<Rightarrow> if n \<le> 0 then w1 else send_all N fd (drop (nat n) data) w1))"
  by pat_completeness auto
termination by (relation "measure (\<lambda>(N, fd, data, w). length data)") auto

declare send_all.simps [simp del]

definition http_status_text :: "nat \<Rightarrow> string" where
  "http_status_text code =
     (if code = 200 then ''OK'' else if code = 202 then ''Accepted'' else if code = 400 then ''Bad Request''
      else if code = 403 then ''Forbidden'' else if code = 404 then ''Not Found''
      else if code = 405 then ''Method Not Allowed'' else if code = 409 then ''Conflict''
      else if code = 413 then ''Payload Too Large'' else if code = 500 then ''Internal Server Error''
      else ''Error'')"

text \<open>\<open>body\<close> is the \<open>body_len\<close> bytes at the pointer. A head that does not fit its buffer is not sent.\<close>

definition http_response_head :: "nat \<Rightarrow> string \<Rightarrow> nat \<Rightarrow> string option \<Rightarrow> string" where
  "http_response_head code content_type body_len extra =
     ''HTTP/1.1 '' @ dec_of_nat code @ '' '' @ http_status_text code @ [CR, LF] @
     ''Content-Type: '' @ content_type @ [CR, LF] @
     ''Content-Length: '' @ dec_of_nat body_len @ [CR, LF] @
     ''Connection: close'' @ [CR, LF] @
     (case extra of None \<Rightarrow> [] | Some e \<Rightarrow> e) @ [CR, LF]"

definition http_send_response ::
  "'w net \<Rightarrow> int \<Rightarrow> nat \<Rightarrow> string \<Rightarrow> string \<Rightarrow> string option \<Rightarrow> 'w \<Rightarrow> 'w" where
  "http_send_response N fd code content_type body extra w =
     (let header = http_response_head code content_type (length body) extra;
          w1 = (if length header < 1024 then send_all N fd header w else w)
      in if body \<noteq> [] then send_all N fd body w1 else w1)"

text \<open>
  The bytes a caller hands over when it passes a literal with a length of its own: the literal, its
  terminating NUL, and beyond that whatever memory holds, \<open>stray\<close>.
\<close>

definition literal_bytes :: "(nat \<Rightarrow> char) \<Rightarrow> string \<Rightarrow> nat \<Rightarrow> string" where
  "literal_bytes stray s n = take n (s @ [CHR 0x00]) @ map stray [0..<n - (length s + 1)]"

definition REQUEST_BUF_CAP :: nat where "REQUEST_BUF_CAP = 65536"

datatype recv_outcome = RECV_TOO_LARGE | RECV_CLOSED | RECV_DONE string

text \<open>
  The two receiving loops. Every pass that goes on has received at least one byte, so they end. A
  system that hands over more than it was asked for would break the first loop's buffer: that
  \<open>recv\<close> does not is the hypothesis \<open>recv_bounded\<close>.
\<close>

function recv_head :: "'w net \<Rightarrow> int \<Rightarrow> string \<Rightarrow> 'w \<Rightarrow> recv_outcome \<times> 'w" where
  "recv_head N fd buf w =
     (if length buf \<ge> REQUEST_BUF_CAP - 1 then (RECV_TOO_LARGE, w)
      else
        (case net_recv N fd (REQUEST_BUF_CAP - 1 - length buf) w of
           (None, w1) \<Rightarrow> (RECV_CLOSED, w1)
         | (Some chunk, w1) \<Rightarrow>
             if chunk = [] then (RECV_CLOSED, w1)
             else if head_end (cstr (buf @ chunk)) \<noteq> None then (RECV_DONE (buf @ chunk), w1)
             else recv_head N fd (buf @ chunk) w1))"
  by pat_completeness auto
termination
  by (relation "measure (\<lambda>(N, fd, buf, w). REQUEST_BUF_CAP - 1 - length buf)") (auto simp: neq_Nil_conv)

declare recv_head.simps [simp del]

function recv_body :: "'w net \<Rightarrow> int \<Rightarrow> nat \<Rightarrow> string \<Rightarrow> 'w \<Rightarrow> recv_outcome \<times> 'w" where
  "recv_body N fd need buf w =
     (if length buf \<ge> need then (RECV_DONE buf, w)
      else
        (case net_recv N fd (REQUEST_BUF_CAP - 1 - length buf) w of
           (None, w1) \<Rightarrow> (RECV_CLOSED, w1)
         | (Some chunk, w1) \<Rightarrow>
             if chunk = [] then (RECV_CLOSED, w1) else recv_body N fd need (buf @ chunk) w1))"
  by pat_completeness auto
termination
  by (relation "measure (\<lambda>(N, fd, need, buf, w). need - length buf)") (auto simp: neq_Nil_conv)

declare recv_body.simps [simp del]

definition recv_bounded :: "'w net \<Rightarrow> bool" where
  "recv_bounded N \<longleftrightarrow> (\<forall>fd n w chunk w'. net_recv N fd n w = (Some chunk, w') \<longrightarrow> length chunk \<le> n)"

definition handle_one_connection ::
  "(string \<Rightarrow> nat \<Rightarrow> char) \<Rightarrow> 'w net \<Rightarrow> (http_request \<Rightarrow> int \<Rightarrow> 'w \<Rightarrow> 'w) \<Rightarrow> int \<Rightarrow> 'w \<Rightarrow> 'w" where
  "handle_one_connection stray N handler fd w =
     (case recv_head N fd [] w of
        (RECV_TOO_LARGE, w1) \<Rightarrow> http_send_response N fd 413 ''text/plain'' ''Request too large'' None w1
      | (RECV_CLOSED, w1) \<Rightarrow> w1
      | (RECV_DONE buf, w1) \<Rightarrow>
          (case http_request_parse buf of
             Inl _ \<Rightarrow> http_send_response N fd 400 ''text/plain'' ''Bad Request'' None w1
           | Inr (rq, head_len) \<Rightarrow>
               (case http_request_content_length rq of
                  Inl _ \<Rightarrow>
                    http_send_response N fd 400 ''text/plain''
                      (literal_bytes (stray ''Bad Content-Length'') ''Bad Content-Length'' 19) None w1
                | Inr content_length \<Rightarrow>
                    if head_len + content_length \<ge> REQUEST_BUF_CAP
                    then http_send_response N fd 413 ''text/plain'' ''Payload Too Large'' None w1
                    else
                      (case recv_body N fd (head_len + content_length) buf w1 of
                         (RECV_DONE buf2, w2) \<Rightarrow>
                           handler (rq\<lparr>rq_body := take content_length (drop head_len buf2)\<rparr>) fd w2
                       | (_, w2) \<Rightarrow> w2))))"

text \<open>
  The accept loop, one pass per unit of fuel; \<open>stop_requested\<close> reads the caller's flag. The idle
  time is compared after the cast to a 32-bit \<open>unsigned\<close>.
\<close>

fun server_loop ::
  "nat \<Rightarrow> (string \<Rightarrow> nat \<Rightarrow> char) \<Rightarrow> 'w net \<Rightarrow> http_server \<Rightarrow> (http_request \<Rightarrow> int \<Rightarrow> 'w \<Rightarrow> 'w) \<Rightarrow> 32 word \<Rightarrow>
     ('w \<Rightarrow> bool) option \<Rightarrow> int \<Rightarrow> 'w \<Rightarrow> 'w option" where
  "server_loop 0 stray N server handler idle_timeout_secs stop_requested last_activity w = None"
| "server_loop (Suc fuel) stray N server handler idle_timeout_secs stop_requested last_activity w =
     (if (case stop_requested of None \<Rightarrow> False | Some flag \<Rightarrow> flag w) then Some w
      else
        (case net_select N (listen_fd server) w of
           (SELECT_INTERRUPTED, w1) \<Rightarrow>
             server_loop fuel stray N server handler idle_timeout_secs stop_requested last_activity w1
         | (SELECT_FAILED, w1) \<Rightarrow> Some w1
         | (SELECT_TIMEOUT, w1) \<Rightarrow>
             if idle_timeout_secs > 0 then
               (case net_time N w1 of
                  (now, w2) \<Rightarrow>
                    if (word_of_int (now - last_activity) :: 32 word) \<ge> idle_timeout_secs then Some w2
                    else server_loop fuel stray N server handler idle_timeout_secs stop_requested last_activity w2)
             else server_loop fuel stray N server handler idle_timeout_secs stop_requested last_activity w1
         | (SELECT_READY, w1) \<Rightarrow>
             (case net_accept N (listen_fd server) w1 of
                (client_fd, w2) \<Rightarrow>
                  if client_fd < 0
                  then server_loop fuel stray N server handler idle_timeout_secs stop_requested last_activity w2
                  else
                    (case net_time N (net_close N client_fd
                            (handle_one_connection stray N handler client_fd w2)) of
                       (now, w3) \<Rightarrow>
                         server_loop fuel stray N server handler idle_timeout_secs stop_requested now w3))))"

definition http_server_run ::
  "nat \<Rightarrow> (string \<Rightarrow> nat \<Rightarrow> char) \<Rightarrow> 'w net \<Rightarrow> http_server \<Rightarrow> (http_request \<Rightarrow> int \<Rightarrow> 'w \<Rightarrow> 'w) \<Rightarrow> 32 word \<Rightarrow>
     ('w \<Rightarrow> bool) option \<Rightarrow> 'w \<Rightarrow> 'w option" where
  "http_server_run fuel stray N server handler idle_timeout_secs stop_requested w =
     (case net_time N w of
        (now, w1) \<Rightarrow> server_loop fuel stray N server handler idle_timeout_secs stop_requested now w1)"

end
