(* ===== verification/HttpRequests.thy ===== *)
theory HttpRequests
  imports HttpServer
begin

text \<open>
  What the HTTP layer promises: a request written in the usual form is read back field for field,
  whatever follows it; what is stored fits its arrays; a query parameter is found by its name; and
  a connection is served the same however the network cuts its bytes.
\<close>

section \<open>The end of the head\<close>

lemma head_end_Cons_other: "a \<noteq> CR \<Longrightarrow> head_end (a # s) = map_option Suc (head_end s)"
  by (cases "(a # s)" rule: head_end.cases) auto

lemma head_end_append: "CR \<notin> set s \<Longrightarrow> head_end (s @ t) = map_option ((+) (length s)) (head_end t)"
proof (induction s)
  case Nil
  show ?case by (cases "head_end t") simp_all
next
  case (Cons a s)
  then show ?case by (cases "head_end t") (auto simp: head_end_Cons_other)
qed

lemma head_end_newline: "t \<noteq> [] \<Longrightarrow> hd t \<noteq> CR \<Longrightarrow> head_end (CR # LF # t) = map_option ((+) 2) (head_end t)"
  by (cases t; cases "tl t"; cases "head_end t") (auto simp: head_end_Cons_other)

lemma head_end_prefix: "head_end s = Some e \<Longrightarrow> head_end (s @ t) = Some e"
  by (induction s arbitrary: e rule: head_end.induct) (auto split: if_splits)

lemma head_end_le: "head_end s = Some e \<Longrightarrow> e + 4 \<le> length s"
  by (induction s arbitrary: e rule: head_end.induct) (auto split: if_splits)

lemma head_end_short:
  assumes "head_end head = Some (length head - 4)" and "buf @ rest = head @ body" and "length buf < length head"
  shows "head_end buf = None"
proof (rule ccontr)
  assume "head_end buf \<noteq> None"
  then obtain e where e: "head_end buf = Some e" by blast
  then have "head_end (buf @ rest) = Some e" by (rule head_end_prefix)
  moreover have "head_end (head @ body) = Some (length head - 4)" using assms(1) by (rule head_end_prefix)
  ultimately have "e = length head - 4" using assms(2) by simp
  with head_end_le [OF e] assms(3) show False by simp
qed

lemma cstr_append_cstr: "is_cstr a \<Longrightarrow> cstr (a @ b) = a @ cstr b"
  by (induction a) (auto simp: cstr_def)

section \<open>Segmentation\<close>

text \<open>A connection whose peer has written the segments \<open>w_in\<close>; what is sent back is collected.\<close>

record wire =
  w_in :: "string list"
  w_out :: string
  w_closed :: "int list"

definition wire_recv :: "int \<Rightarrow> nat \<Rightarrow> wire \<Rightarrow> string option \<times> wire" where
  "wire_recv fd n w =
     (case w_in w of
        [] \<Rightarrow> (None, w)
      | c # cs \<Rightarrow> (Some (take n c), w\<lparr>w_in := (if length c \<le> n then cs else drop n c # cs)\<rparr>))"

definition wire_net :: "wire net" where
  "wire_net =
     \<lparr>net_socket = (\<lambda>w. (3, w)), net_bind = (\<lambda>_ _ _ w. (0, w)), net_listen = (\<lambda>_ w. (0, w)),
      net_getsockname = (\<lambda>_ w. (0, 8080, w)), net_select = (\<lambda>_ w. (SELECT_READY, w)),
      net_accept = (\<lambda>_ w. (4, w)), net_recv = wire_recv,
      net_send = (\<lambda>_ d w. (int (length d), w\<lparr>w_out := w_out w @ d\<rparr>)),
      net_close = (\<lambda>fd w. w\<lparr>w_closed := fd # w_closed w\<rparr>), net_time = (\<lambda>w. (0, w))\<rparr>"

lemma wire_net_simps [simp]:
  "net_recv wire_net = wire_recv"
  "net_send wire_net fd d w = (int (length d), w\<lparr>w_out := w_out w @ d\<rparr>)"
  "net_close wire_net fd w = w\<lparr>w_closed := fd # w_closed w\<rparr>"
  by (simp_all add: wire_net_def)

lemma send_all_wire [simp]: "send_all wire_net fd d w = w\<lparr>w_out := w_out w @ d\<rparr>"
  by (subst send_all.simps, simp add: send_all.simps)

lemma wire_recv_fits:
  "w_in w = c # cs \<Longrightarrow> length c \<le> n \<Longrightarrow> wire_recv fd n w = (Some c, w\<lparr>w_in := cs\<rparr>)"
  by (simp add: wire_recv_def)

lemma recv_head_wire:
  assumes head: "is_cstr head" "head_end head = Some (length head - 4)"
    and small: "length (head @ body) < REQUEST_BUF_CAP"
  shows "buf @ concat cs = head @ body \<Longrightarrow> length buf < length head \<Longrightarrow> [] \<notin> set cs \<Longrightarrow> w_in w = cs \<Longrightarrow>
    \<exists>buf' cs'. recv_head wire_net fd buf w = (RECV_DONE buf', w\<lparr>w_in := cs'\<rparr>) \<and>
      buf' @ concat cs' = head @ body \<and> length head \<le> length buf' \<and> [] \<notin> set cs'"
proof (induction cs arbitrary: buf w)
  case Nil
  then show ?case by simp
next
  case (Cons c cs)
  have len: "length buf + length c + length (concat cs) = length (head @ body)"
    using arg_cong [OF Cons.prems(1), of length] by simp
  with small have fits: "length c \<le> REQUEST_BUF_CAP - 1 - length buf" by simp
  have room: "\<not> length buf \<ge> REQUEST_BUF_CAP - 1"
    using Cons.prems(2) small by (simp add: not_le)
  have get: "wire_recv fd (REQUEST_BUF_CAP - 1 - length buf) w = (Some c, w\<lparr>w_in := cs\<rparr>)"
    using Cons.prems(4) fits by (rule wire_recv_fits)
  have c: "c \<noteq> []" using Cons.prems(3) by auto
  have all: "(buf @ c) @ concat cs = head @ body" using Cons.prems(1) by simp
  show ?case
  proof (cases "length (buf @ c) < length head")
    case True
    with all have "\<exists>x. head = (buf @ c) @ x"
      by (metis append_eq_append_conv_if append_take_drop_id less_imp_le_nat)
    with head(1) have "cstr (buf @ c) = buf @ c" by auto
    moreover have "head_end (buf @ c) = None" using head(2) all True by (rule head_end_short)
    ultimately have "recv_head wire_net fd buf w = recv_head wire_net fd (buf @ c) (w\<lparr>w_in := cs\<rparr>)"
      using room get c by (subst recv_head.simps) simp
    with Cons.IH [OF all True, of "w\<lparr>w_in := cs\<rparr>"] Cons.prems(3) show ?thesis by auto
  next
    case False
    with all obtain x where x: "buf @ c = head @ x"
      by (metis append_eq_append_conv_if append_take_drop_id not_less)
    have "head_end (cstr (buf @ c)) = Some (length head - 4)"
      unfolding x cstr_append_cstr [OF head(1)] using head(2) by (rule head_end_prefix)
    then have "recv_head wire_net fd buf w = (RECV_DONE (buf @ c), w\<lparr>w_in := cs\<rparr>)"
      using room get c by (subst recv_head.simps) simp
    with all False Cons.prems(3) show ?thesis by auto
  qed
qed

lemma recv_body_wire:
  assumes "need < REQUEST_BUF_CAP"
  shows "length buf + length (concat cs) = need \<Longrightarrow> [] \<notin> set cs \<Longrightarrow> w_in w = cs \<Longrightarrow>
    recv_body wire_net fd need buf w = (RECV_DONE (buf @ concat cs), w\<lparr>w_in := []\<rparr>)"
proof (induction cs arbitrary: buf w)
  case Nil
  then show ?case by (subst recv_body.simps) simp
next
  case (Cons c cs)
  have c: "c \<noteq> []" using Cons.prems(2) by auto
  then have "\<not> need \<le> length buf" using Cons.prems(1) by auto
  moreover have "wire_recv fd (REQUEST_BUF_CAP - 1 - length buf) w = (Some c, w\<lparr>w_in := cs\<rparr>)"
    using Cons.prems(1,3) assms by (intro wire_recv_fits) auto
  ultimately have "recv_body wire_net fd need buf w = recv_body wire_net fd need (buf @ c) (w\<lparr>w_in := cs\<rparr>)"
    using c by (subst recv_body.simps) simp
  with Cons.IH [of "buf @ c" "w\<lparr>w_in := cs\<rparr>"] Cons.prems show ?case by simp
qed

text \<open>The parser looks at nothing beyond the head.\<close>

lemma http_request_parse_prefix:
  assumes "head_end head = Some (length head - 4)"
  shows "http_request_parse (head @ rest) = http_request_parse head"
proof -
  have "length head - 4 + 4 \<le> length head" using assms by (rule head_end_le)
  then have takes: "take (length head - 4 + 2) (head @ rest) = take (length head - 4 + 2) head"
    "take (length head - 4 + 1) (head @ rest) = take (length head - 4 + 1) head" by simp_all
  show ?thesis
    by (simp only: http_request_parse_def option.case assms head_end_prefix [OF assms, of rest] takes)
qed

lemma http_request_parse_head_len:
  "http_request_parse head = Inr (rq, n) \<Longrightarrow> head_end head = Some e \<Longrightarrow> n = e + 4"
  by (auto simp: http_request_parse_def split: option.splits prod.splits sum.splits)

text \<open>
  C23 However the network cuts a request into segments, it is served the same: the handler is
  called once, with the request the parser reads from the head and with exactly the announced body,
  and nothing is left unread.
\<close>

theorem any_segmentation_is_served:
  assumes "concat cs = head @ body" and "[] \<notin> set cs" and "is_cstr head"
    and "head_end head = Some (length head - 4)"
    and "http_request_parse head = Inr (rq, n)"
    and "http_request_content_length rq = Inr (length body)"
    and "length head + length body < REQUEST_BUF_CAP"
  shows "handle_one_connection stray wire_net handler fd (w\<lparr>w_in := cs\<rparr>) =
    handler (rq\<lparr>rq_body := body\<rparr>) fd (w\<lparr>w_in := []\<rparr>)"
proof -
  let ?w = "w\<lparr>w_in := cs\<rparr>"
  have four: "4 \<le> length head" using head_end_le [OF assms(4)] by simp
  then have n: "n = length head" using http_request_parse_head_len [OF assms(5,4)] by simp
  obtain buf' cs' where got: "recv_head wire_net fd [] ?w = (RECV_DONE buf', w\<lparr>w_in := cs'\<rparr>)"
    and rest: "buf' @ concat cs' = head @ body" "length head \<le> length buf'" "[] \<notin> set cs'"
    using recv_head_wire [OF assms(3,4), of body "[]" cs ?w fd] assms(1,2,7) four by fastforce
  from rest(1,2) obtain x where x: "buf' = head @ x"
    by (metis append_eq_append_conv_if append_take_drop_id)
  have parse: "http_request_parse buf' = Inr (rq, length head)"
    unfolding x http_request_parse_prefix [OF assms(4)] using assms(5) n by simp
  have "length buf' + length (concat cs') = length head + length body"
    using arg_cong [OF rest(1), of length] by simp
  then have "recv_body wire_net fd (length head + length body) buf' (w\<lparr>w_in := cs'\<rparr>) =
      (RECV_DONE (buf' @ concat cs'), w\<lparr>w_in := []\<rparr>)"
    using recv_body_wire [OF assms(7), of buf' cs' "w\<lparr>w_in := cs'\<rparr>" fd] rest(3) by simp
  moreover have "\<not> length head + length body \<ge> REQUEST_BUF_CAP" using assms(7) by simp
  ultimately show ?thesis
    using got parse assms(6) rest(1) by (simp add: handle_one_connection_def)
qed

section \<open>A request as it is usually written\<close>

definition header_line :: "http_header \<Rightarrow> string" where
  "header_line h = h_name h @ '': '' @ h_value h"

definition header_block :: "http_header list \<Rightarrow> string" where
  "header_block hs = concat (map (\<lambda>h. header_line h @ [CR, LF]) hs)"

definition request_line :: "http_request \<Rightarrow> string" where
  "request_line rq =
     rq_method rq @ '' '' @ rq_path rq @ (if rq_query rq = [] then [] else CHR ''?'' # rq_query rq) @ '' HTTP/1.1''"

definition request_text :: "http_request \<Rightarrow> string" where
  "request_text rq = request_line rq @ [CR, LF] @ header_block (rq_headers rq) @ [CR, LF]"

definition plain_token :: "string \<Rightarrow> bool" where
  "plain_token s \<longleftrightarrow> is_cstr s \<and> list_all (\<lambda>c. \<not> is_c_space c) s"

definition plain_header :: "http_header \<Rightarrow> bool" where
  "plain_header h \<longleftrightarrow>
     is_cstr (h_name h) \<and> length (h_name h) < HTTP_HEADER_NAME_MAX \<and> CHR '':'' \<notin> set (h_name h) \<and> CR \<notin> set (h_name h) \<and>
     is_cstr (h_value h) \<and> length (h_value h) < HTTP_HEADER_VALUE_MAX \<and> CR \<notin> set (h_value h) \<and>
     trim_leading_space (h_value h) = h_value h"

definition plain_request :: "http_request \<Rightarrow> bool" where
  "plain_request rq \<longleftrightarrow>
     plain_token (rq_method rq) \<and> rq_method rq \<noteq> [] \<and> length (rq_method rq) < HTTP_METHOD_MAX \<and>
     plain_token (rq_path rq) \<and> rq_path rq \<noteq> [] \<and> length (rq_path rq) < HTTP_PATH_MAX \<and> CHR ''?'' \<notin> set (rq_path rq) \<and>
     plain_token (rq_query rq) \<and> length (rq_query rq) < HTTP_QUERY_MAX \<and>
     list_all plain_header (rq_headers rq) \<and> length (rq_headers rq) \<le> HTTP_MAX_HEADERS \<and> rq_body rq = []"

lemma scan_token_plain:
  assumes "plain_token tok" and "tok \<noteq> []" and "length tok \<le> n" and "list_all is_c_space sp"
    and "rest = [] \<or> is_c_space (hd rest)"
  shows "scan_token n (sp @ tok @ rest) = Some (tok, rest)"
proof -
  have t: "list_all (\<lambda>c. \<not> is_c_space c) tok" using assms(1) by (simp add: plain_token_def)
  then have "hd (tok @ rest) = hd tok \<and> \<not> is_c_space (hd tok)" using assms(2) by (cases tok) auto
  then have drop: "dropWhile is_c_space (sp @ tok @ rest) = tok @ rest"
    by (intro dropWhile_append_stop assms(4)) simp
  have "take (n - length tok) rest = [] \<or> \<not> \<not> is_c_space (hd (take (n - length tok) rest))"
    using assms(5) by (cases "n - length tok"; cases rest) auto
  with t have "takeWhile (\<lambda>c. \<not> is_c_space c) (tok @ take (n - length tok) rest) = tok"
    by (rule takeWhile_append_stop)
  with assms(2,3) show ?thesis by (simp add: scan_token_def drop Let_def)
qed

lemma CR_is_space: "is_c_space CR" and mark_is_no_space: "\<not> is_c_space CHR ''?''"
  by code_simp+

lemma plain_token_no_CR: "plain_token s \<Longrightarrow> CR \<notin> set s"
  using CR_is_space by (auto simp only: plain_token_def list_all_iff)

lemma plain_token_append: "plain_token (a @ b) \<longleftrightarrow> plain_token a \<and> plain_token b"
  by (auto simp: plain_token_def)

lemma plain_token_mark: "plain_token (CHR ''?'' # s) \<longleftrightarrow> plain_token s"
  using mark_is_no_space by (simp add: plain_token_def)

lemma plain_version: "plain_token ''HTTP/1.1''"
  by code_simp

lemma request_line_parses:
  assumes "plain_request rq"
  shows "parse_request_line (request_line rq) http_request_zero = Inr (rq\<lparr>rq_headers := []\<rparr>)"
proof -
  let ?q = "if rq_query rq = [] then [] else CHR ''?'' # rq_query rq"
  let ?t = "rq_path rq @ ?q"
  have m: "plain_token (rq_method rq)" "rq_method rq \<noteq> []" "length (rq_method rq) < 8"
    and p: "plain_token (rq_path rq)" "rq_path rq \<noteq> []" "length (rq_path rq) < 256" "CHR ''?'' \<notin> set (rq_path rq)"
    and q: "plain_token (rq_query rq)" "length (rq_query rq) < 256" and b: "rq_body rq = []"
    using assms by (simp_all add: plain_request_def HTTP_METHOD_MAX_def HTTP_PATH_MAX_def HTTP_QUERY_MAX_def)
  have t: "plain_token ?t" "?t \<noteq> []" "length ?t \<le> 511"
    using p q plain_token_mark [of "[]"] by (simp_all add: plain_token_append plain_token_mark)
      (simp add: plain_token_def)
  have short: "length (request_line rq) < SIZEOF_LINE_BUF"
    using m(3) p(3) q(2)
    by (simp add: request_line_def SIZEOF_LINE_BUF_def HTTP_METHOD_MAX_def HTTP_PATH_MAX_def HTTP_QUERY_MAX_def)
  have cs: "cstr (request_line rq) = request_line rq"
    using m(1) t(1) by (simp add: request_line_def plain_token_def)
  have s1: "scan_token 7 (request_line rq) = Some (rq_method rq, '' '' @ ?t @ '' HTTP/1.1'')"
    using scan_token_plain [OF m(1,2), of 7 "[]" "'' '' @ ?t @ '' HTTP/1.1''"] m(3)
    by (simp add: request_line_def is_c_space_def)
  have s2: "scan_token 511 ('' '' @ ?t @ '' HTTP/1.1'') = Some (?t, '' HTTP/1.1'')"
    by (rule scan_token_plain [OF t]) (simp_all add: is_c_space_def)
  have s3: "scan_token 31 '' HTTP/1.1'' = Some (''HTTP/1.1'', [])"
    using scan_token_plain [OF plain_version, of 31 "'' ''" "[]"] by (simp add: is_c_space_def)
  have split: "split_first CHR ''?'' ?t = (if rq_query rq = [] then None else Some (rq_path rq, rq_query rq))"
    using p(4) by (auto simp: split_first_None split_first_Some)
  have "\<not> length (request_line rq) \<ge> SIZEOF_LINE_BUF" using short by simp
  then have "parse_request_line (request_line rq) http_request_zero =
      (let rq1 = http_request_zero\<lparr>rq_method := snprintf_buf HTTP_METHOD_MAX (rq_method rq)\<rparr>
       in case split_first CHR ''?'' ?t of
            Some (lhs, rhs) \<Rightarrow>
              Inr (rq1\<lparr>rq_query := snprintf_buf HTTP_QUERY_MAX rhs, rq_path := snprintf_buf HTTP_PATH_MAX lhs\<rparr>)
          | None \<Rightarrow> Inr (rq1\<lparr>rq_path := snprintf_buf HTTP_PATH_MAX ?t\<rparr>))"
    by (simp only: parse_request_line_def cs s1 s2 s3 option.case prod.case if_False)
  then show ?thesis
    unfolding split Let_def using m(3) p(3) q(2) b
    by (cases "rq_query rq = []")
      (simp_all add: http_request_zero_def HTTP_METHOD_MAX_def HTTP_PATH_MAX_def HTTP_QUERY_MAX_def)
qed

lemma header_line_parses: "plain_header h \<Longrightarrow> parse_header_line (header_line h) slot = (USBS_OK, h)"
proof -
  assume h: "plain_header h"
  then have "split_first CHR '':'' (header_line h) = Some (h_name h, CHR '' '' # h_value h)"
    by (auto simp: header_line_def split_first_Some plain_header_def)
  moreover have "trim_leading_space (CHR '' '' # h_value h) = h_value h"
    using h by (simp add: plain_header_def trim_leading_space_def)
  moreover have "take (HTTP_HEADER_NAME_MAX - 1) (h_name h) = h_name h"
    "take (HTTP_HEADER_VALUE_MAX - 1) (h_value h) = h_value h"
    using h by (simp_all add: plain_header_def HTTP_HEADER_NAME_MAX_def HTTP_HEADER_VALUE_MAX_def)
  ultimately show ?thesis using h
    by (simp add: parse_header_line_def plain_header_def)
qed

lemma header_line_no_CR: "plain_header h \<Longrightarrow> CR \<notin> set (header_line h)"
  by (auto simp: header_line_def plain_header_def)

lemma header_lines_block:
  "list_all plain_header hs \<Longrightarrow> length acc + length hs \<le> HTTP_MAX_HEADERS \<Longrightarrow>
     header_lines (butlast (header_block hs)) acc = acc @ hs"
proof (induction hs arbitrary: acc)
  case Nil
  then show ?case by (simp add: header_block_def header_lines.simps)
next
  case (Cons h hs)
  let ?next = "butlast (header_block hs)"
  have ne: "header_line h \<noteq> []" by (simp add: header_line_def)
  have block: "butlast (header_block (h # hs)) =
      header_line h @ CR # (if hs = [] then [] else LF # ?next)"
    by (auto simp: header_block_def butlast_append)
  have split: "split_first CR (butlast (header_block (h # hs))) =
      Some (header_line h, if hs = [] then [] else LF # ?next)"
    using Cons.prems(1) by (simp add: block split_first_Some header_line_no_CR)
  have long: "\<not> length (butlast (header_block (h # hs))) \<le> 1" using ne block by (cases "header_line h") auto
  have "header_lines (butlast (header_block (h # hs))) acc =
      header_lines (drop 1 (if hs = [] then [] else LF # ?next)) (acc @ [h])"
    using Cons.prems long ne
    by (subst header_lines.simps) (simp add: split header_line_parses)
  also have "drop 1 (if hs = [] then [] else LF # ?next) = ?next" by (simp add: header_block_def)
  finally show ?case using Cons.IH [of "acc @ [h]"] Cons.prems by simp
qed

lemma head_end_block:
  "CR \<notin> set line \<Longrightarrow> list_all plain_header hs \<Longrightarrow>
     head_end (line @ CR # LF # header_block hs @ [CR, LF]) = Some (length line + length (header_block hs))"
proof (induction hs arbitrary: line)
  case Nil
  then show ?case by (simp add: header_block_def head_end_append)
next
  case (Cons h hs)
  have no: "CR \<notin> set (header_line h)" using Cons.prems by (simp add: header_line_no_CR)
  moreover have "header_line h \<noteq> []" by (simp add: header_line_def)
  ultimately have hd: "hd (header_line h) \<noteq> CR" by (metis hd_in_set)
  have block: "header_block (h # hs) = header_line h @ CR # LF # header_block hs"
    by (simp add: header_block_def)
  show ?case
    using Cons.IH [OF no] Cons.prems hd \<open>header_line h \<noteq> []\<close>
    by (simp add: head_end_append block head_end_newline)
qed

text \<open>
  C24 A request is what was written: for a method, path, query and headers that fit their arrays and
  contain none of the separators, parsing the usual text of the request gives all of them back
  unchanged, and the offset at which the body begins, whatever bytes follow the head.
\<close>

theorem request_reads_back:
  assumes "plain_request rq"
  shows "http_request_parse (request_text rq @ rest) = Inr (rq, length (request_text rq))"
proof -
  let ?l = "request_line rq"
  let ?b = "header_block (rq_headers rq)"
  have hs: "list_all plain_header (rq_headers rq)" "length (rq_headers rq) \<le> HTTP_MAX_HEADERS"
    using assms by (simp_all add: plain_request_def)
  have "CR \<notin> set (rq_method rq)" "CR \<notin> set (rq_path rq)" "CR \<notin> set (rq_query rq)"
    using assms by (simp_all add: plain_request_def plain_token_no_CR)
  then have l: "CR \<notin> set ?l" by (simp add: request_line_def)
  have whole: "request_text rq = ?l @ CR # LF # ?b @ [CR, LF]" by (simp add: request_text_def)
  have e: "head_end (request_text rq) = Some (length ?l + length ?b)"
    unfolding whole by (rule head_end_block [OF l hs(1)])
  then have e4: "head_end (request_text rq) = Some (length (request_text rq) - 4)" by (simp add: whole)
  have first: "split_first CR (take (length ?l + length ?b + 2) (request_text rq)) = Some (?l, LF # ?b)"
    using l by (simp add: whole split_first_Some)
  have "drop (length ?l + 2) (take (length ?l + length ?b + 1) (request_text rq)) = butlast ?b"
    by (cases ?b rule: rev_cases) (simp_all add: whole drop_take take_Cons')
  then have "http_request_parse (request_text rq) = Inr (rq, length (request_text rq))"
    using header_lines_block [of "rq_headers rq" "[]"] hs
    by (simp only: http_request_parse_def e first option.case prod.case request_line_parses [OF assms] sum.case)
      (simp add: whole)
  then show ?thesis by (simp add: http_request_parse_prefix [OF e4])
qed

definition sample_head :: string where
  "sample_head = ''POST /s HTTP/1.1'' @ [CR, LF] @ ''content-length: 2'' @ [CR, LF, CR, LF]"

lemma any_segmentation_is_served_witness:
  "handle_one_connection (\<lambda>_ _. CHR ''x'') wire_net (\<lambda>rq fd w. w\<lparr>w_out := rq_path rq @ rq_body rq\<rparr>) 4
     \<lparr>w_in = [take 9 sample_head, take 30 (drop 9 sample_head) @ ''a'', ''b''], w_out = [], w_closed = []\<rparr> =
   \<lparr>w_in = [], w_out = ''/sab'', w_closed = []\<rparr>"
proof -
  let ?rq = "\<lparr>rq_method = ''POST'', rq_path = ''/s'', rq_query = [],
      rq_headers = [\<lparr>h_name = ''content-length'', h_value = ''2''\<rparr>], rq_body = []\<rparr>"
  let ?cs = "[take 9 sample_head, take 30 (drop 9 sample_head) @ ''a'', ''b'']"
  have "concat ?cs = sample_head @ ''ab''" "[] \<notin> set ?cs" "is_cstr sample_head"
    "head_end sample_head = Some (length sample_head - 4)"
    "http_request_parse sample_head = Inr (?rq, 39)"
    "http_request_content_length ?rq = Inr (length ''ab'')"
    "length sample_head + length ''ab'' < REQUEST_BUF_CAP" by code_simp+
  from any_segmentation_is_served [OF this, of "\<lambda>_ _. CHR ''x''" "\<lambda>rq fd w. w\<lparr>w_out := rq_path rq @ rq_body rq\<rparr>" 4
      "\<lparr>w_in = [], w_out = [], w_closed = []\<rparr>"]
  show ?thesis by simp
qed

definition sample_request :: http_request where
  "sample_request =
     \<lparr>rq_method = ''GET'', rq_path = ''/api/report'', rq_query = ''token=abc'',
      rq_headers = [\<lparr>h_name = ''Host'', h_value = ''localhost:8080''\<rparr>], rq_body = []\<rparr>"

lemma request_reads_back_witness:
  "http_request_parse (request_text sample_request @ ''junk'') = Inr (sample_request, 60)"
proof -
  have "plain_request sample_request" by code_simp
  moreover have "length (request_text sample_request) = 60" by code_simp
  ultimately show ?thesis using request_reads_back [of sample_request "''junk''"] by simp
qed

section \<open>What a parsed request can hold\<close>

definition request_fits :: "http_request \<Rightarrow> bool" where
  "request_fits rq \<longleftrightarrow>
     length (rq_method rq) < HTTP_METHOD_MAX \<and> length (rq_path rq) < HTTP_PATH_MAX \<and>
     length (rq_query rq) < HTTP_QUERY_MAX \<and> length (rq_headers rq) \<le> HTTP_MAX_HEADERS \<and>
     (\<forall>h\<in>set (rq_headers rq). length (h_name h) < HTTP_HEADER_NAME_MAX \<and> length (h_value h) < HTTP_HEADER_VALUE_MAX)"

definition from_bytes :: "string \<Rightarrow> http_request \<Rightarrow> bool" where
  "from_bytes buf rq \<longleftrightarrow> sublist (rq_query rq) buf \<and> (\<forall>h\<in>set (rq_headers rq). sublist (h_value h) buf)"

lemma sublist_cstr: "sublist (cstr s) s"
  unfolding cstr_def by (rule sublist_takeWhile)

lemma split_first_sublist: "split_first c s = Some (a, b) \<Longrightarrow> sublist a s \<and> sublist b s"
  using sublist_appendI [of b "a @ [c]" "[]"] by (auto simp: split_first_Some)

lemma scan_token_sublist: "scan_token n s = Some (tok, rest) \<Longrightarrow> sublist tok s \<and> sublist rest s"
  unfolding scan_token_def Let_def
  by (auto split: if_splits intro!: sublist_order.order.trans [OF sublist_takeWhile] sublist_order.order.trans [OF sublist_take]
      sublist_order.order.trans [OF sublist_drop] sublist_dropWhile)

lemma header_value_sublist:
  "sublist (h_value (snd (parse_header_line line \<lparr>h_name = [], h_value = []\<rparr>))) line"
  by (auto simp: parse_header_line_def trim_leading_space_def split: option.splits prod.splits
      dest!: split_first_sublist
      intro: sublist_order.order.trans [OF sublist_cstr] sublist_order.order.trans [OF sublist_take]
        sublist_order.order.trans [OF sublist_dropWhile])

lemma header_name_fits:
  "length (h_name (snd (parse_header_line line \<lparr>h_name = [], h_value = []\<rparr>))) < HTTP_HEADER_NAME_MAX \<and>
   length (h_value (snd (parse_header_line line \<lparr>h_name = [], h_value = []\<rparr>))) < HTTP_HEADER_VALUE_MAX"
  by (auto simp: parse_header_line_def HTTP_HEADER_NAME_MAX_def HTTP_HEADER_VALUE_MAX_def
      split: option.splits prod.splits intro!: le_less_trans [OF length_cstr_le])

lemma header_lines_bounded:
  "length acc \<le> HTTP_MAX_HEADERS \<Longrightarrow> length (header_lines rest acc) \<le> HTTP_MAX_HEADERS"
proof (induction rest acc rule: header_lines.induct)
  case (1 rest hs)
  show ?case
    by (subst header_lines.simps) (use 1 in \<open>auto split: option.splits prod.splits\<close>)
qed

lemma header_lines_each:
  "h \<in> set (header_lines rest acc) \<Longrightarrow>
     h \<in> set acc \<or> (\<exists>line. sublist line rest \<and> h = snd (parse_header_line line \<lparr>h_name = [], h_value = []\<rparr>))"
proof (induction rest acc rule: header_lines.induct)
  case (1 rest hs)
  show ?case
  proof (cases "length rest \<le> 1 \<or> split_first CR rest = None \<or> (\<exists>r. split_first CR rest = Some ([], r))")
    case True
    with "1.prems" show ?thesis by (subst (asm) header_lines.simps) (auto split: if_splits)
  next
    case False
    then obtain line r where s: "split_first CR rest = Some (line, r)" "line \<noteq> []" "\<not> length rest \<le> 1"
      by auto
    have sub: "sublist line rest" "sublist (drop 1 r) rest"
      using split_first_sublist [OF s(1)] sublist_order.order.trans [OF sublist_drop] by blast+
    let ?acc = "if length hs < HTTP_MAX_HEADERS
      then hs @ [snd (parse_header_line line \<lparr>h_name = [], h_value = []\<rparr>)] else hs"
    have "h \<in> set (header_lines (drop 1 r) ?acc)"
      using "1.prems" s by (subst (asm) header_lines.simps) simp
    with "1.IH" [OF s(3) s(1) refl s(2)]
    have "h \<in> set ?acc \<or> (\<exists>l. sublist l (drop 1 r) \<and> h = snd (parse_header_line l \<lparr>h_name = [], h_value = []\<rparr>))"
      by blast
    with sub show ?thesis by (auto split: if_splits intro: sublist_order.order.trans)
  qed
qed

lemma parse_request_line_Inr:
  assumes "parse_request_line line http_request_zero = Inr rq"
  obtains meth s1 fp s2 where "scan_token 7 (cstr line) = Some (meth, s1)" and "scan_token 511 s1 = Some (fp, s2)"
    and "rq = http_request_zero\<lparr>rq_method := snprintf_buf HTTP_METHOD_MAX meth, rq_path := snprintf_buf HTTP_PATH_MAX fp\<rparr> \<or>
      (\<exists>l r. split_first CHR ''?'' fp = Some (l, r) \<and>
        rq = http_request_zero\<lparr>rq_method := snprintf_buf HTTP_METHOD_MAX meth, rq_path := snprintf_buf HTTP_PATH_MAX l,
          rq_query := snprintf_buf HTTP_QUERY_MAX r\<rparr>)"
  using assms unfolding parse_request_line_def Let_def
  by (auto split: if_splits option.splits prod.splits)

lemma request_arrays_nonempty: "0 < HTTP_METHOD_MAX" "0 < HTTP_PATH_MAX" "0 < HTTP_QUERY_MAX"
  by (simp_all add: HTTP_METHOD_MAX_def HTTP_PATH_MAX_def HTTP_QUERY_MAX_def)

lemma parse_request_line_bytes:
  assumes "parse_request_line line http_request_zero = Inr rq"
  shows "sublist (rq_query rq) line \<and> length (rq_method rq) < HTTP_METHOD_MAX \<and> length (rq_path rq) < HTTP_PATH_MAX \<and>
    length (rq_query rq) < HTTP_QUERY_MAX \<and> rq_body rq = []"
  using assms
proof (cases rule: parse_request_line_Inr)
  case (1 meth s1 fp s2)
  from 1(1,2) have fp: "sublist fp line"
    using scan_token_sublist sublist_cstr sublist_order.order.trans by metis
  have "sublist (snprintf_buf HTTP_QUERY_MAX r) line" if "split_first CHR ''?'' fp = Some (l, r)" for l r
    using split_first_sublist [OF that] fp sublist_take [of "HTTP_QUERY_MAX - 1" r] sublist_order.order.trans
    unfolding snprintf_buf_def by blast
  with 1(3) show ?thesis
    by (elim disjE exE conjE) (simp_all add: http_request_zero_def length_snprintf_buf request_arrays_nonempty)
qed

lemma http_request_parse_bytes:
  assumes "http_request_parse buf = Inr (rq, n)"
  shows "from_bytes buf rq \<and> request_fits rq \<and> rq_body rq = [] \<and> n \<le> length buf"
proof -
  obtain e line r rq0 where e: "head_end buf = Some e" and l: "split_first CR (take (e + 2) buf) = Some (line, r)"
    and p: "parse_request_line line http_request_zero = Inr rq0"
    and rq: "rq = rq0\<lparr>rq_headers := header_lines (drop (length line + 2) (take (e + 1) buf)) []\<rparr>" "n = e + 4"
    using assms by (auto simp: http_request_parse_def split: option.splits prod.splits sum.splits)
  have line: "sublist line buf"
    using split_first_sublist [OF l] sublist_take sublist_order.order.trans by blast
  have head: "sublist (drop (length line + 2) (take (e + 1) buf)) buf"
    using sublist_drop sublist_take sublist_order.order.trans by blast
  have each: "sublist (h_value h) buf \<and> length (h_name h) < HTTP_HEADER_NAME_MAX \<and>
      length (h_value h) < HTTP_HEADER_VALUE_MAX" if h: "h \<in> set (rq_headers rq)" for h
  proof -
    from h rq(1) obtain l where l: "sublist l (drop (length line + 2) (take (e + 1) buf))"
        "h = snd (parse_header_line l \<lparr>h_name = [], h_value = []\<rparr>)"
      using header_lines_each [of h "drop (length line + 2) (take (e + 1) buf)" "[]"] by auto
    with header_value_sublist [of l] head have "sublist (h_value h) buf"
      using sublist_order.order.trans by blast
    with header_name_fits [of l] l(2) show ?thesis by simp
  qed
  from parse_request_line_bytes [OF p] line each rq head_end_le [OF e] show ?thesis
    using header_lines_bounded [of "[]"] sublist_order.order.trans
    by (auto simp: from_bytes_def request_fits_def)
qed

text \<open>
  C38 Nothing the parser stores overflows: for any bytes at all, a request it accepts has a method,
  path, query, header count, header names and header values within their arrays, and its head ends
  inside the buffer.
\<close>

theorem parsed_request_fits:
  assumes "http_request_parse buf = Inr (rq, n)"
  shows "request_fits rq \<and> n \<le> length buf"
  using http_request_parse_bytes [OF assms] by blast

lemma parsed_request_fits_witness: "request_fits sample_request"
proof -
  have "http_request_parse (request_text sample_request) = Inr (sample_request, 60)" by code_simp
  from parsed_request_fits [OF this] show ?thesis by blast
qed

section \<open>Query parameters\<close>

fun query_text :: "(string \<times> string) list \<Rightarrow> string" where
  "query_text [] = []"
| "query_text [(k, v)] = k @ CHR ''='' # v"
| "query_text ((k, v) # ps) = k @ CHR ''='' # v @ CHR ''&'' # query_text ps"

lemma query_loop_pair:
  assumes "CHR ''&'' \<notin> set p" and "p \<noteq> []" and "rest = [] \<or> hd rest = CHR ''&''"
  shows "query_loop key cap (p @ rest) =
    (if length p > length key \<and> p ! length key = CHR ''='' \<and> take (length key) p = key
     then Some (take (cap - 1) (drop (length key + 1) p)) else query_loop key cap (drop 1 rest))"
proof -
  have all: "list_all (\<lambda>c. c \<noteq> CHR ''&'') p" using assms(1) by (auto simp: list_all_iff)
  moreover have stop: "rest = [] \<or> \<not> hd rest \<noteq> CHR ''&''" using assms(3) by auto
  ultimately have "takeWhile (\<lambda>c. c \<noteq> CHR ''&'') (p @ rest) = p" "dropWhile (\<lambda>c. c \<noteq> CHR ''&'') (p @ rest) = rest"
    by (rule takeWhile_append_stop, rule dropWhile_append_stop)
  then show ?thesis
    using assms(2) by (subst query_loop.simps) (auto simp: Let_def nth_append)
qed

text \<open>
  A query parameter is found by its name: in a query of name-value pairs whose names contain no
  separator and whose values contain no ampersand, the lookup of a name gives the value of its
  first occurrence, cut to the buffer, and fails exactly when no pair has the name.
\<close>

theorem query_parameter_is_found:
  assumes "\<forall>(k, v)\<in>set ps. CHR ''='' \<notin> set k \<and> CHR ''&'' \<notin> set k \<and> CHR ''&'' \<notin> set v"
    and "CHR ''='' \<notin> set key" and "0 < cap"
  shows "http_query_get (query_text ps) key cap = map_option (take (cap - 1)) (map_of ps key)"
proof -
  have split_key: "length (k @ CHR ''='' # v) > length key \<and> (k @ CHR ''='' # v) ! length key = CHR ''='' \<and>
      take (length key) (k @ CHR ''='' # v) = key \<longleftrightarrow> k = key" if k: "CHR ''='' \<notin> set k" for k v
  proof
    assume a: "length (k @ CHR ''='' # v) > length key \<and> (k @ CHR ''='' # v) ! length key = CHR ''='' \<and>
      take (length key) (k @ CHR ''='' # v) = key"
    then have "\<not> length key < length k" using k by (auto simp: nth_append) (metis nth_mem)
    moreover have "\<not> length k < length key"
    proof
      assume less: "length k < length key"
      then have "take (length key) (k @ CHR ''='' # v) = k @ CHR ''='' # take (length key - length k - 1) v"
        by (simp add: take_Cons')
      with a have "CHR ''='' \<in> set key" by (metis in_set_conv_decomp)
      with assms(2) show False by simp
    qed
    ultimately show "k = key" using a by simp
  qed auto
  have "query_loop key cap (query_text ps) = map_option (take (cap - 1)) (map_of ps key)"
    using assms(1)
  proof (induction ps rule: query_text.induct)
    case 1
    show ?case by (simp add: query_loop.simps)
  next
    case (2 k v)
    then show ?case
      using query_loop_pair [of "k @ CHR ''='' # v" "[]" key cap] split_key [of k v]
      by (auto simp: query_loop.simps [of key cap "[]"])
  next
    case (3 k v p ps)
    then show ?case
      using query_loop_pair [of "k @ CHR ''='' # v" "CHR ''&'' # query_text (p # ps)" key cap] split_key [of k v]
      by auto
  qed
  with assms(3) show ?thesis by (simp add: http_query_get_def)
qed

lemma query_parameter_is_found_witness:
  "http_query_get ''token=ab&device=usb_3A1'' ''device'' 256 = Some ''usb_3A1''"
  using query_parameter_is_found [of "[(''token'', ''ab''), (''device'', ''usb_3A1'')]" "''device''" 256] by simp

end
