(* ===== verification/Worker.thy ===== *)
theory Worker
  imports Scanner
begin

text \<open>
  The scan worker of src/gui/gui_worker.c: the cancellation flag, one scan run to its end with its
  outcome handed to a callback, and the decision to scan a device that has just appeared. A pointer
  that may be NULL is an option. The atomic operations are the plain ones here; which
  interleavings of them exist is modelled where the threads are (theory WebApp).
\<close>

section \<open>The cancellation flag\<close>

type_synonym gui_cancel_flag = int

definition gui_cancel_flag_init :: "gui_cancel_flag option \<Rightarrow> gui_cancel_flag option" where
  "gui_cancel_flag_init flag = map_option (\<lambda>_. 0) flag"

definition gui_cancel_flag_set :: "gui_cancel_flag option \<Rightarrow> gui_cancel_flag option" where
  "gui_cancel_flag_set flag = map_option (\<lambda>_. 1) flag"

definition gui_cancel_flag_is_set :: "gui_cancel_flag option \<Rightarrow> bool" where
  "gui_cancel_flag_is_set flag = (case flag of None \<Rightarrow> False | Some requested \<Rightarrow> requested \<noteq> 0)"

section \<open>One scan\<close>

definition SIZEOF_SCAN_RESULT :: nat where "SIZEOF_SCAN_RESULT = 3312"

text \<open>\<open>wa_cancel_flag\<close> reads the shared flag in the current world.\<close>

record 'w gui_worker_args =
  wa_device :: usbs_device
  wa_store :: usbs_store
  wa_cancel_flag :: "('w \<Rightarrow> gui_cancel_flag) option"
  wa_on_progress :: "(usbs_scan_progress \<Rightarrow> 'w \<Rightarrow> 'w) option"
  wa_on_done :: "(usbs_status \<Rightarrow> usbs_scan_result option \<Rightarrow> 'w \<Rightarrow> 'w) option"

definition worker_cancel_check :: "('w \<Rightarrow> gui_cancel_flag) \<Rightarrow> 'w \<Rightarrow> bool \<times> 'w" where
  "worker_cancel_check flag w = (gui_cancel_flag_is_set (Some (flag w)), w)"

definition worker_progress_thunk :: "'w gui_worker_args \<Rightarrow> usbs_scan_progress \<Rightarrow> 'w \<Rightarrow> 'w" where
  "worker_progress_thunk args progress w =
     (case wa_on_progress args of None \<Rightarrow> w | Some f \<Rightarrow> f progress w)"

text \<open>
  The scanner's own status is USBS_OK for every argument but a NULL pointer, so the branch for a
  failed scan is that of the allocation.
\<close>

definition report_outcome ::
  "'w gui_worker_args \<Rightarrow> usbs_status \<Rightarrow> usbs_scan_result option \<Rightarrow> 'w \<Rightarrow> 'w" where
  "report_outcome args status result w =
     (case wa_on_done args of None \<Rightarrow> w | Some f \<Rightarrow> f status result w)"

definition gui_worker_run ::
  "(usbs_signature list \<Rightarrow> usbs_signature list) \<Rightarrow> nat \<Rightarrow> 'w platform \<Rightarrow> 'w libc \<Rightarrow> 'w gui_worker_args \<Rightarrow>
     bool \<Rightarrow> hash_globals \<Rightarrow> 'w \<Rightarrow> (bool \<times> hash_globals \<times> 'w) option" where
  "gui_worker_run srt fuel P C args seeded g w =
     (if \<not> p_mem P SIZEOF_SCAN_RESULT
      then Some (seeded, g, report_outcome args USBS_ERR_NO_MEMORY None w)
      else
        (case usbs_scanner_scan srt fuel P C (wa_device args) (wa_store args)
                (map_option worker_cancel_check (wa_cancel_flag args))
                (case wa_on_progress args of None \<Rightarrow> None | Some _ \<Rightarrow> Some (worker_progress_thunk args))
                seeded g w of
           None \<Rightarrow> None
         | Some (result, seeded1, g1, w1) \<Rightarrow>
             Some (seeded1, g1, report_outcome args USBS_OK (Some result) w1)))"

definition gui_should_auto_scan :: "usbs_device option \<Rightarrow> bool \<Rightarrow> bool \<Rightarrow> bool \<Rightarrow> bool" where
  "gui_should_auto_scan device auto_scan_enabled already_scanning already_auto_scanned_this_identity \<longleftrightarrow>
     (case device of None \<Rightarrow> False | Some d \<Rightarrow> usbs_device_is_scannable_usb d) \<and>
     auto_scan_enabled \<and> \<not> already_scanning \<and> \<not> already_auto_scanned_this_identity"

text \<open>
  What the callback may rely on: it is called once, as the last thing, and a result comes with
  USBS_OK and with nothing else.
\<close>

lemma gui_worker_run_reports_once:
  assumes "gui_worker_run srt fuel P C args seeded g w = Some (seeded', g', w')"
  obtains status result w1 where "w' = report_outcome args status result w1"
    and "usbs_ok status \<longleftrightarrow> result \<noteq> None"
  using assms unfolding gui_worker_run_def
  by (auto split: if_splits option.splits prod.splits)

end
