(* ===== verification/WebApp.thy ===== *)
theory WebApp
  imports HttpServer Worker Report
begin

text \<open>
  The web application of src/gui_web/gui_web_app.c: its shared state, the authorization of a
  request, the route handlers and the scan worker's callbacks.

  Two threads touch the state: the server's, which serves one request at a time, and the worker of
  a running scan. Every access to the shared fields is inside a critical section of the one mutex,
  so the model's atomic steps are those sections, each together with the thread's following work
  up to its next section, which touches nothing shared. A handler that goes on after its section
  with something that depends on the shared state (the report's pointer, the start of a scan)
  leaves a \<open>request_phase\<close> behind, and the relation \<open>web_step\<close> lets the worker move in between. The
  results on the heap are a map from addresses, because that an address is still allocated when
  it is used is the point.
\<close>

section \<open>State\<close>

definition SIZEOF_WEB_APP :: nat where "SIZEOF_WEB_APP = 800"
definition SIZEOF_WORKER_THREAD_CTX :: nat where "SIZEOF_WORKER_THREAD_CTX = 3208"

record gui_web_app =
  app_token :: string
  app_store :: usbs_store
  expected_host :: string
  expected_host_localhost :: string
  app_busy :: bool
  app_cancel_flag :: gui_cancel_flag
  app_progress :: usbs_scan_progress
  app_done :: bool
  app_done_status :: usbs_status
  app_done_result :: "nat option"

type_synonym result_heap = "nat \<Rightarrow> usbs_scan_result option"

datatype request_phase =
    REQUEST_NONE
  | REQUEST_REPORT int nat
  | REQUEST_START int usbs_device
  | REQUEST_SPAWN int usbs_device
  | REQUEST_WAIT nat
  | REQUEST_FREE
  | REQUEST_GONE

datatype worker_thread =
    WORKER_RUNNING usbs_device
  | WORKER_REPORTED usbs_status "nat option"

text \<open>
  The whole process. \<open>web_fault\<close> records a use of an address that is not allocated, which C leaves
  undefined; \<open>web_world\<close> is everything outside the application.
\<close>

record 'w web =
  web_app :: gui_web_app
  web_heap :: result_heap
  web_workers :: "worker_thread list"
  web_phase :: request_phase
  web_fault :: bool
  web_world :: 'w

text \<open>What the process is given: its sockets, allocator, enumeration and thread creation.\<close>

record 'w web_env =
  we_net :: "'w net"
  we_mem :: allocator
  we_devices :: "('w \<Rightarrow> usbs_device_list \<Rightarrow> usbs_status \<times> usbs_device_list \<times> 'w) option"
  we_spawn :: "'w \<Rightarrow> int \<times> 'w"
  we_index_html :: string
  we_version :: string
  we_stray :: "string \<Rightarrow> nat \<Rightarrow> char"

definition zero_progress :: usbs_scan_progress where
  "zero_progress = \<lparr>files_scanned = 0, bytes_scanned = 0, progress_paths_skipped = 0\<rparr>"

definition gui_web_app_create ::
  "allocator \<Rightarrow> bool \<Rightarrow> string \<Rightarrow> usbs_store \<Rightarrow> 16 word \<Rightarrow> usbs_status + gui_web_app" where
  "gui_web_app_create mem mutex_ok token store port =
     (if \<not> mem SIZEOF_WEB_APP then Inl USBS_ERR_NO_MEMORY
      else if \<not> mutex_ok then Inl USBS_ERR_INTERNAL
      else Inr \<lparr>app_token = snprintf_buf 65 token, app_store = store,
                expected_host = snprintf_buf 64 (''127.0.0.1:'' @ dec_of_nat (unat port)),
                expected_host_localhost = snprintf_buf 64 (''localhost:'' @ dec_of_nat (unat port)),
                app_busy = False, app_cancel_flag = the (gui_cancel_flag_init (Some 0)),
                app_progress = zero_progress, app_done = False, app_done_status = USBS_OK,
                app_done_result = None\<rparr>)"

definition respond :: "'w web_env \<Rightarrow> int \<Rightarrow> nat \<Rightarrow> string \<Rightarrow> string \<Rightarrow> 'w web \<Rightarrow> 'w web" where
  "respond E fd code content_type body s =
     s\<lparr>web_world := http_send_response (we_net E) fd code content_type body None (web_world s)\<rparr>"

text \<open>A JSON literal sent with a length written out by hand.\<close>

definition respond_literal :: "'w web_env \<Rightarrow> int \<Rightarrow> nat \<Rightarrow> string \<Rightarrow> nat \<Rightarrow> 'w web \<Rightarrow> 'w web" where
  "respond_literal E fd code lit n s =
     respond E fd code ''application/json'' (literal_bytes (we_stray E lit) lit n) s"

section \<open>The shared result\<close>

text \<open>Freeing an address that is not allocated is a fault.\<close>

definition free_done_result_locked :: "'w web \<Rightarrow> 'w web" where
  "free_done_result_locked s =
     (case app_done_result (web_app s) of
        None \<Rightarrow> s
      | Some r \<Rightarrow>
          s\<lparr>web_heap := (web_heap s)(r := None),
            web_fault := (web_fault s \<or> web_heap s r = None),
            web_app := (web_app s)\<lparr>app_done_result := None\<rparr>\<rparr>)"

section \<open>Authorization\<close>

definition request_is_authorized :: "gui_web_app \<Rightarrow> http_request \<Rightarrow> bool" where
  "request_is_authorized a rq =
     (case http_request_header rq ''Host'' of
        None \<Rightarrow> False
      | Some host \<Rightarrow>
          if host \<noteq> expected_host a \<and> host \<noteq> expected_host_localhost a then False
          else if http_request_header rq ''X-USBSentinel-Token'' = Some (app_token a) then True
          else http_query_get (rq_query rq) ''token'' 128 = Some (app_token a))"

section \<open>Devices\<close>

definition SAFE_ID_MAX :: nat where "SAFE_ID_MAX = USBS_IDENTITY_MAX * 3 + 1"

definition device_safe_id :: "usbs_device \<Rightarrow> string option" where
  "device_safe_id d =
     (case usbs_device_identity d USBS_IDENTITY_MAX of
        (st, identity) \<Rightarrow>
          if \<not> usbs_ok st then None
          else (case usbs_store_safe_id identity SAFE_ID_MAX of Inl _ \<Rightarrow> None | Inr i \<Rightarrow> Some i))"

definition write_device_json :: "allocator \<Rightarrow> usbs_device \<Rightarrow> json_writer \<Rightarrow> json_writer" where
  "write_device_json mem d w =
     (let identity = identity_or_empty d;
          safe_id = (case usbs_store_safe_id identity SAFE_ID_MAX of Inl _ \<Rightarrow> [] | Inr i \<Rightarrow> i);
          w1 = usbs_json_begin_object mem w;
          w2 = usbs_json_member_string mem w1 (Some ''safe_id'') (Some safe_id);
          w3 = usbs_json_member_string mem w2 (Some ''identity'') (Some identity);
          w4 = usbs_json_member_string mem w3 (Some ''label'') (Some (label d));
          w5 = usbs_json_member_string mem w4 (Some ''bus_type'') (Some (usbs_bus_type_string (bus_type d)));
          w6 = usbs_json_member_string mem w5 (Some ''vendor'') (Some (vendor d));
          w7 = usbs_json_member_string mem w6 (Some ''product'') (Some (product d));
          w8 = usbs_json_member_string mem w7 (Some ''filesystem'') (Some (filesystem d));
          w9 = usbs_json_member_uint mem w8 (Some ''capacity_bytes'') (capacity_bytes d);
          w10 = usbs_json_member_uint mem w9 (Some ''free_bytes'') (free_bytes d);
          w11 = usbs_json_member_bool mem w10 (Some ''media_present'') (media_present d);
          w12 = usbs_json_member_bool mem w11 (Some ''scannable'') (usbs_device_is_scannable_usb d);
          w13 = usbs_json_begin_array mem (usbs_json_key mem w12 (Some ''mount_points''));
          w14 = write_strings mem (mount_points d) w13
      in usbs_json_end_object mem (usbs_json_end_array mem w14))"

definition devices_json :: "allocator \<Rightarrow> usbs_device list \<Rightarrow> json_writer" where
  "devices_json mem ds =
     usbs_json_end_array mem
       (fold (\<lambda>d w. if bus_type d = USBS_BUS_USB then write_device_json mem d w else w) ds
          (usbs_json_begin_array mem usbs_json_writer_init))"

definition handle_devices :: "'w web_env \<Rightarrow> int \<Rightarrow> 'w web \<Rightarrow> 'w web" where
  "handle_devices E fd s =
     (case usbs_device_enumerate (we_devices E) (web_world s) of
        (st, l, w1) \<Rightarrow>
          (let s1 = s\<lparr>web_world := w1\<rparr>
           in if \<not> usbs_ok st then respond_literal E fd 500 ''{\"error\":\"enumeration failed\"}'' 30 s1
              else
                (case usbs_json_writer_finish (devices_json (we_mem E) (v_items l)) of
                   Inr t \<Rightarrow> respond E fd 200 ''application/json'' t s1
                 | Inl _ \<Rightarrow> respond_literal E fd 500 ''{\"error\":\"serialization failed\"}'' 32 s1)))"

definition find_device_by_safe_id :: "'w web_env \<Rightarrow> string \<Rightarrow> 'w \<Rightarrow> usbs_device option \<times> 'w" where
  "find_device_by_safe_id E safe_id w =
     (case usbs_device_enumerate (we_devices E) w of
        (st, l, w1) \<Rightarrow>
          if \<not> usbs_ok st then (None, w1)
          else (find (\<lambda>d. device_safe_id d = Some safe_id) (v_items l), w1))"

definition device_has_valid_mount_point :: "usbs_device \<Rightarrow> bool" where
  "device_has_valid_mount_point d =
     (if mount_points d = [] then False
      else if volume_path d = [] then False
      else if volume_path d = ''/'' then False
      else True)"

section \<open>The worker's callbacks\<close>

definition on_scan_progress :: "usbs_scan_progress \<Rightarrow> 'w web \<Rightarrow> 'w web" where
  "on_scan_progress progress s = s\<lparr>web_app := (web_app s)\<lparr>app_progress := progress\<rparr>\<rparr>"

definition save_scan_reports ::
  "nat \<Rightarrow> 'w platform \<Rightarrow> string \<Rightarrow> usbs_store \<Rightarrow> usbs_scan_result \<Rightarrow> 'w \<Rightarrow> 'w option" where
  "save_scan_reports fuel P version store result w =
     (case usbs_device_identity (scan_device result) USBS_IDENTITY_MAX of
        (st, identity) \<Rightarrow>
          if \<not> usbs_ok st then Some w
          else
            (let after_json =
               (case usbs_report_build_json (p_mem P) version result of
                  Inl _ \<Rightarrow> Some w
                | Inr t \<Rightarrow>
                    map_option snd
                      (usbs_store_write_report fuel P store identity (scan_id result) (started_at result) t
                         USBS_STORE_PATH_MAX w))
             in case after_json of
                  None \<Rightarrow> None
                | Some w1 \<Rightarrow>
                    (case usbs_report_build_csv (p_mem P) result of
                       Inl _ \<Rightarrow> Some w1
                     | Inr t \<Rightarrow>
                         Some (snd (usbs_store_write_report_csv P store identity (scan_id result) (started_at result) t
                                      USBS_STORE_PATH_MAX w1)))))"

text \<open>The critical section that ends \<open>on_scan_done\<close>.\<close>

definition publish_outcome :: "usbs_status \<Rightarrow> nat option \<Rightarrow> 'w web \<Rightarrow> 'w web" where
  "publish_outcome status result s =
     (let s1 = free_done_result_locked s
      in s1\<lparr>web_app := (web_app s1)\<lparr>app_done_result := result, app_done_status := status,
                                    app_done := True, app_busy := False\<rparr>\<rparr>)"

section \<open>Handlers\<close>

text \<open>
  \<open>handle_scan_start\<close> up to the device it is going to scan; then its second critical section; then
  the creation of the thread.
\<close>

definition start_begin :: "'w web_env \<Rightarrow> http_request \<Rightarrow> int \<Rightarrow> 'w web \<Rightarrow> 'w web" where
  "start_begin E rq fd s =
     (case http_query_get (rq_query rq) ''device'' 256 of
        None \<Rightarrow> respond_literal E fd 400 ''{\"error\":\"missing device parameter\"}'' 37 s
      | Some safe_id \<Rightarrow>
          if app_busy (web_app s)
          then respond_literal E fd 409 ''{\"error\":\"a scan is already running\"}'' 39 s
          else
            (case find_device_by_safe_id E safe_id (web_world s) of
               (found, w1) \<Rightarrow>
                 (let s1 = s\<lparr>web_world := w1\<rparr>
                  in case found of
                       None \<Rightarrow> respond_literal E fd 404 ''{\"error\":\"device not found\"}'' 29 s1
                     | Some d \<Rightarrow>
                         if \<not> device_has_valid_mount_point d
                         then respond E fd 409 ''application/json''
                                ''{\"error\":\"No mount point found for this device. Cannot scan.\"}'' s1
                         else if \<not> we_mem E SIZEOF_WORKER_THREAD_CTX
                         then respond_literal E fd 500 ''{\"error\":\"out of memory\"}'' 26 s1
                         else s1\<lparr>web_phase := REQUEST_START fd d\<rparr>)))"

definition start_locked :: "int \<Rightarrow> usbs_device \<Rightarrow> 'w web \<Rightarrow> 'w web" where
  "start_locked fd d s =
     (let s1 = free_done_result_locked s
      in s1\<lparr>web_app := (web_app s1)\<lparr>app_cancel_flag := the (gui_cancel_flag_init (Some (app_cancel_flag (web_app s1)))),
                                    app_progress := zero_progress, app_busy := True, app_done := False,
                                    app_done_status := USBS_OK\<rparr>,
            web_phase := REQUEST_SPAWN fd d\<rparr>)"

definition start_spawn :: "'w web_env \<Rightarrow> int \<Rightarrow> usbs_device \<Rightarrow> 'w web \<Rightarrow> 'w web" where
  "start_spawn E fd d s =
     (case we_spawn E (web_world s) of
        (rc, w1) \<Rightarrow>
          (let s1 = s\<lparr>web_world := w1, web_phase := REQUEST_NONE\<rparr>
           in if rc \<noteq> 0
              then respond_literal E fd 500 ''{\"error\":\"failed to start scan thread\"}'' 41
                     (s1\<lparr>web_app := (web_app s1)\<lparr>app_busy := False\<rparr>\<rparr>)
              else respond_literal E fd 202 ''{\"status\":\"started\"}'' 21
                     (s1\<lparr>web_workers := web_workers s1 @ [WORKER_RUNNING d]\<rparr>)))"

definition progress_json :: "allocator \<Rightarrow> gui_web_app \<Rightarrow> json_writer" where
  "progress_json mem a =
     (let w1 = usbs_json_begin_object mem usbs_json_writer_init;
          w2 = usbs_json_member_bool mem w1 (Some ''busy'') (app_busy a);
          w3 = usbs_json_member_bool mem w2 (Some ''done'') (app_done a);
          w4 = usbs_json_member_uint mem w3 (Some ''files_scanned'') (files_scanned (app_progress a));
          w5 = usbs_json_member_uint mem w4 (Some ''bytes_scanned'') (bytes_scanned (app_progress a));
          w6 = (if app_done a \<and> \<not> usbs_ok (app_done_status a)
                then usbs_json_member_string mem w5 (Some ''error'') (Some (usbs_status_string (app_done_status a)))
                else w5)
      in usbs_json_end_object mem w6)"

definition handle_progress :: "'w web_env \<Rightarrow> int \<Rightarrow> 'w web \<Rightarrow> 'w web" where
  "handle_progress E fd s =
     (case usbs_json_writer_finish (progress_json (we_mem E) (web_app s)) of
        Inr t \<Rightarrow> respond E fd 200 ''application/json'' t s
      | Inl _ \<Rightarrow> respond_literal E fd 500 ''{}'' 2 s)"

definition handle_cancel :: "'w web_env \<Rightarrow> int \<Rightarrow> 'w web \<Rightarrow> 'w web" where
  "handle_cancel E fd s =
     respond_literal E fd 200 ''{\"status\":\"ok\"}'' 16
       (if app_busy (web_app s)
        then s\<lparr>web_app := (web_app s)\<lparr>app_cancel_flag := the (gui_cancel_flag_set (Some (app_cancel_flag (web_app s))))\<rparr>\<rparr>
        else s)"

text \<open>\<open>handle_report\<close>: its critical section, and after it the use of the pointer it read.\<close>

definition report_begin :: "'w web_env \<Rightarrow> int \<Rightarrow> 'w web \<Rightarrow> 'w web" where
  "report_begin E fd s =
     (if \<not> app_done (web_app s) \<or> app_done_result (web_app s) = None
      then respond_literal E fd 404 ''{\"error\":\"no completed scan\"}'' 30 s
      else s\<lparr>web_phase := REQUEST_REPORT fd (the (app_done_result (web_app s)))\<rparr>)"

definition report_send :: "'w web_env \<Rightarrow> int \<Rightarrow> nat \<Rightarrow> 'w web \<Rightarrow> 'w web" where
  "report_send E fd r s =
     (let s1 = s\<lparr>web_phase := REQUEST_NONE\<rparr>
      in case web_heap s r of
           None \<Rightarrow> s1\<lparr>web_fault := True\<rparr>
         | Some result \<Rightarrow>
             (case usbs_report_build_json (we_mem E) (we_version E) result of
                Inl _ \<Rightarrow> respond_literal E fd 500 ''{\"error\":\"failed to build report\"}'' 35 s1
              | Inr t \<Rightarrow> respond E fd 200 ''application/json'' t s1))"

definition request_begin :: "'w web_env \<Rightarrow> http_request \<Rightarrow> int \<Rightarrow> 'w web \<Rightarrow> 'w web" where
  "request_begin E rq fd s =
     (if \<not> request_is_authorized (web_app s) rq then respond E fd 403 ''text/plain'' ''Forbidden'' s
      else if rq_method rq = ''GET'' \<and> rq_path rq = ''/'' then
        respond E fd 200 ''text/html; charset=utf-8'' (we_index_html E) s
      else if rq_method rq = ''GET'' \<and> rq_path rq = ''/api/devices'' then handle_devices E fd s
      else if rq_method rq = ''POST'' \<and> rq_path rq = ''/api/scan'' then start_begin E rq fd s
      else if rq_method rq = ''GET'' \<and> rq_path rq = ''/api/progress'' then handle_progress E fd s
      else if rq_method rq = ''POST'' \<and> rq_path rq = ''/api/cancel'' then handle_cancel E fd s
      else if rq_method rq = ''GET'' \<and> rq_path rq = ''/api/report'' then report_begin E fd s
      else respond E fd 404 ''text/plain'' ''Not Found'' s)"

text \<open>What the request's thread does next, after any number of steps of the worker.\<close>

definition request_continue :: "'w web_env \<Rightarrow> 'w web \<Rightarrow> 'w web" where
  "request_continue E s =
     (case web_phase s of
        REQUEST_REPORT fd r \<Rightarrow> report_send E fd r s
      | REQUEST_START fd d \<Rightarrow> start_locked fd d s
      | REQUEST_SPAWN fd d \<Rightarrow> start_spawn E fd d s
      | _ \<Rightarrow> s)"

text \<open>A request served with no step of a worker in between: at most two continuations.\<close>

definition gui_web_app_handle_request :: "'w web_env \<Rightarrow> http_request \<Rightarrow> int \<Rightarrow> 'w web \<Rightarrow> 'w web" where
  "gui_web_app_handle_request E rq fd s = request_continue E (request_continue E (request_begin E rq fd s))"

section \<open>Shutting down\<close>

definition MAX_WAIT_MS :: nat where "MAX_WAIT_MS = 5000"
definition POLL_MS :: nat where "POLL_MS = 50"

definition shutdown_begin :: "'w web \<Rightarrow> 'w web" where
  "shutdown_begin s =
     (let s1 = (if app_busy (web_app s)
                then s\<lparr>web_app := (web_app s)\<lparr>app_cancel_flag := the (gui_cancel_flag_set (Some (app_cancel_flag (web_app s))))\<rparr>\<rparr>
                else s)
      in s1\<lparr>web_phase := REQUEST_WAIT 0\<rparr>)"

definition shutdown_poll :: "nat \<Rightarrow> 'w web \<Rightarrow> 'w web" where
  "shutdown_poll waited_ms s =
     (if \<not> app_busy (web_app s) \<or> waited_ms \<ge> MAX_WAIT_MS then s\<lparr>web_phase := REQUEST_FREE\<rparr>
      else s\<lparr>web_phase := REQUEST_WAIT (waited_ms + POLL_MS)\<rparr>)"

definition gui_web_app_free :: "'w web \<Rightarrow> 'w web" where
  "gui_web_app_free s = (free_done_result_locked s)\<lparr>web_phase := REQUEST_GONE\<rparr>"

section \<open>The threads\<close>

text \<open>
  A worker takes the section of its progress callback, or ends its scan: it could not allocate a
  result, or it holds a fresh one whose reports it has saved; then it publishes the outcome and
  exits. A step of a worker after the application is freed touches memory that is gone.
\<close>

inductive worker_step :: "'w web \<Rightarrow> worker_thread option \<Rightarrow> worker_thread \<Rightarrow> 'w web \<Rightarrow> bool" where
  progress: "worker_step s (Some (WORKER_RUNNING d)) (WORKER_RUNNING d) (on_scan_progress p s)"
| no_memory: "worker_step s (Some (WORKER_REPORTED USBS_ERR_NO_MEMORY None)) (WORKER_RUNNING d) s"
| scanned: "web_heap s r = None \<Longrightarrow> scan_device result = d \<Longrightarrow>
    worker_step s (Some (WORKER_REPORTED USBS_OK (Some r))) (WORKER_RUNNING d)
      (s\<lparr>web_heap := (web_heap s)(r \<mapsto> result), web_world := w\<rparr>)"
| publish: "worker_step s None (WORKER_REPORTED status r) (publish_outcome status r s)"

inductive web_step :: "'w web_env \<Rightarrow> 'w web \<Rightarrow> 'w web \<Rightarrow> bool" for E where
  request: "web_phase s = REQUEST_NONE \<Longrightarrow> web_step E s (request_begin E rq fd s)"
| continue: "web_phase s \<in> {REQUEST_REPORT fd r, REQUEST_START fd d, REQUEST_SPAWN fd d} \<Longrightarrow>
    web_step E s (request_continue E s)"
| shutdown: "web_phase s = REQUEST_NONE \<Longrightarrow> web_step E s (shutdown_begin s)"
| wait: "web_phase s = REQUEST_WAIT n \<Longrightarrow> web_step E s (shutdown_poll n s)"
| free: "web_phase s = REQUEST_FREE \<Longrightarrow> web_step E s (gui_web_app_free s)"
| worker: "web_workers s = others @ t # rest \<Longrightarrow> worker_step s t' t s' \<Longrightarrow>
    web_step E s (s'\<lparr>web_workers := others @ (case t' of None \<Rightarrow> [] | Some u \<Rightarrow> [u]) @ rest,
                     web_fault := (web_fault s' \<or> web_phase s = REQUEST_GONE)\<rparr>)"
| outside: "web_step E s (s\<lparr>web_world := w\<rparr>)"

end
