(* ===== verification/WebSafety.thy ===== *)
theory WebSafety
  imports WebApp
begin

text \<open>
  The shared state of the web application under every interleaving of the request thread and the
  worker: there is never a second worker, the result a report is built from is still allocated when
  it is used, nothing is freed twice and nothing is leaked, until the application itself is freed.
\<close>

section \<open>Reachable states\<close>

definition web_init :: "gui_web_app \<Rightarrow> 'w \<Rightarrow> 'w web" where
  "web_init a w = \<lparr>web_app = a, web_heap = (\<lambda>_. None), web_workers = [], web_phase = REQUEST_NONE,
     web_fault = False, web_world = w\<rparr>"

inductive web_reachable :: "'w web_env \<Rightarrow> gui_web_app \<Rightarrow> 'w web \<Rightarrow> bool" for E a0 where
  init: "web_reachable E a0 (web_init a0 w)"
| step: "web_reachable E a0 s \<Longrightarrow> web_step E s s' \<Longrightarrow> web_reachable E a0 s'"

definition fresh_app :: "gui_web_app \<Rightarrow> bool" where
  "fresh_app a \<longleftrightarrow> \<not> app_busy a \<and> \<not> app_done a \<and> app_done_result a = None"

lemma created_is_fresh: "gui_web_app_create mem ok tok store port = Inr a \<Longrightarrow> fresh_app a"
  by (auto simp: gui_web_app_create_def fresh_app_def split: if_splits)

section \<open>The invariant\<close>

fun worker_result :: "worker_thread \<Rightarrow> nat option" where
  "worker_result (WORKER_RUNNING d) = None"
| "worker_result (WORKER_REPORTED st r) = r"

definition starting :: "request_phase \<Rightarrow> bool" where
  "starting ph \<longleftrightarrow> (\<exists>fd d. ph = REQUEST_SPAWN fd d)"

definition web_inv :: "'w web \<Rightarrow> bool" where
  "web_inv s \<longleftrightarrow>
     (let a = web_app s
      in \<not> web_fault s \<and>
         (app_busy a \<longleftrightarrow> web_workers s \<noteq> [] \<or> starting (web_phase s)) \<and>
         length (web_workers s) \<le> 1 \<and> (starting (web_phase s) \<longrightarrow> web_workers s = []) \<and>
         (app_busy a \<longrightarrow> \<not> app_done a \<and> app_done_result a = None) \<and>
         (\<forall>fd d. web_phase s = REQUEST_START fd d \<longrightarrow> \<not> app_busy a) \<and>
         (\<forall>fd r. web_phase s = REQUEST_REPORT fd r \<longrightarrow> app_done a \<and> app_done_result a = Some r) \<and>
         dom (web_heap s) = set_option (app_done_result a) \<union> (\<Union>t\<in>set (web_workers s). set_option (worker_result t)))"

named_theorems web_frame \<open>what the steps of the application leave alone\<close>

lemma respond_frame [simp, web_frame]:
  "web_app (respond E fd c t b s) = web_app s" "web_heap (respond E fd c t b s) = web_heap s"
  "web_workers (respond E fd c t b s) = web_workers s" "web_phase (respond E fd c t b s) = web_phase s"
  "web_fault (respond E fd c t b s) = web_fault s"
  by (simp_all add: respond_def)

lemma respond_literal_frame [simp, web_frame]:
  "web_app (respond_literal E fd c t n s) = web_app s" "web_heap (respond_literal E fd c t n s) = web_heap s"
  "web_workers (respond_literal E fd c t n s) = web_workers s" "web_phase (respond_literal E fd c t n s) = web_phase s"
  "web_fault (respond_literal E fd c t n s) = web_fault s"
  by (simp_all add: respond_literal_def)

lemma handle_devices_frame [simp]:
  "web_app (handle_devices E fd s) = web_app s" "web_heap (handle_devices E fd s) = web_heap s"
  "web_workers (handle_devices E fd s) = web_workers s" "web_phase (handle_devices E fd s) = web_phase s"
  "web_fault (handle_devices E fd s) = web_fault s"
  by (simp_all add: handle_devices_def Let_def split: prod.split sum.split)

lemma handle_progress_frame [simp]:
  "web_app (handle_progress E fd s) = web_app s" "web_heap (handle_progress E fd s) = web_heap s"
  "web_workers (handle_progress E fd s) = web_workers s" "web_phase (handle_progress E fd s) = web_phase s"
  "web_fault (handle_progress E fd s) = web_fault s"
  by (simp_all add: handle_progress_def split: sum.split)

text \<open>The first section of a request writes at most the cancellation flag and the phase.\<close>

definition begun_from :: "'w web \<Rightarrow> 'w web \<Rightarrow> bool" where
  "begun_from s s' \<longleftrightarrow>
     web_heap s' = web_heap s \<and> web_workers s' = web_workers s \<and> web_fault s' = web_fault s \<and>
     (\<exists>c. web_app s' = (web_app s)\<lparr>app_cancel_flag := c\<rparr>) \<and>
     (web_phase s' = web_phase s \<or>
      (\<exists>fd d. web_phase s' = REQUEST_START fd d \<and> \<not> app_busy (web_app s)) \<or>
      (\<exists>fd r. web_phase s' = REQUEST_REPORT fd r \<and> app_done (web_app s) \<and> app_done_result (web_app s) = Some r))"

lemma begun_from_same:
  "web_app s' = web_app s \<Longrightarrow> web_heap s' = web_heap s \<Longrightarrow> web_workers s' = web_workers s \<Longrightarrow>
     web_phase s' = web_phase s \<Longrightarrow> web_fault s' = web_fault s \<Longrightarrow> begun_from s s'"
  unfolding begun_from_def by (simp add: exI [of _ "app_cancel_flag (web_app s)"])

lemma start_begin_begun: "begun_from s (start_begin E rq fd s)"
proof -
  have same: "\<exists>c. web_app s = (web_app s)\<lparr>app_cancel_flag := c\<rparr>"
    by (rule exI [of _ "app_cancel_flag (web_app s)"]) simp
  show ?thesis
    unfolding start_begin_def Let_def
    by (auto intro: begun_from_same same simp: begun_from_def split: option.split prod.split)
qed

lemma report_begin_begun: "begun_from s (report_begin E fd s)"
  unfolding report_begin_def
  by (auto intro: begun_from_same exI [of _ "app_cancel_flag (web_app s)"] simp: begun_from_def)

lemma handle_cancel_begun: "begun_from s (handle_cancel E fd s)"
proof (cases "app_busy (web_app s)")
  case True
  then show ?thesis by (auto simp: handle_cancel_def begun_from_def)
next
  case False
  then show ?thesis by (simp add: handle_cancel_def begun_from_same)
qed

lemma request_begin_begun: "begun_from s (request_begin E rq fd s)"
  unfolding request_begin_def
  by (simp add: begun_from_same start_begin_begun report_begin_begun handle_cancel_begun)

lemma begun_from_inv:
  assumes "web_inv s" and "web_phase s = REQUEST_NONE" and "begun_from s s'"
  shows "web_inv s'"
  using assms unfolding begun_from_def web_inv_def Let_def starting_def by (elim conjE exE disjE) simp_all

section \<open>Every step keeps it\<close>

lemma free_done_result_frame [simp]:
  "web_workers (free_done_result_locked s) = web_workers s" "web_phase (free_done_result_locked s) = web_phase s"
  "app_busy (web_app (free_done_result_locked s)) = app_busy (web_app s)"
  "app_done (web_app (free_done_result_locked s)) = app_done (web_app s)"
  "app_done_result (web_app (free_done_result_locked s)) = None"
  "web_world (free_done_result_locked s) = web_world s"
  by (simp_all add: free_done_result_locked_def split: option.split)

lemma free_done_result_heap:
  "dom (web_heap s) = set_option (app_done_result (web_app s)) \<union> R \<Longrightarrow> \<not> web_fault s \<Longrightarrow>
     set_option (app_done_result (web_app s)) \<inter> R = {} \<Longrightarrow>
     dom (web_heap (free_done_result_locked s)) = R \<and> \<not> web_fault (free_done_result_locked s)"
  by (auto simp: free_done_result_locked_def split: option.splits)

lemma free_done_result_None: "app_done_result (web_app s) = None \<Longrightarrow> free_done_result_locked s = s"
  by (simp add: free_done_result_locked_def)

lemma start_locked_inv:
  assumes "web_inv s" and "web_phase s = REQUEST_START fd d"
  shows "web_inv (start_locked fd d s)"
proof -
  have w: "web_workers s = []" "\<not> web_fault s" "dom (web_heap s) = set_option (app_done_result (web_app s)) \<union> {}"
    using assms by (auto simp: web_inv_def Let_def)
  have "dom (web_heap (free_done_result_locked s)) = {} \<and> \<not> web_fault (free_done_result_locked s)"
    using free_done_result_heap [OF w(3,2)] by simp
  with w(1) show ?thesis by (simp add: start_locked_def web_inv_def Let_def starting_def)
qed

lemma start_spawn_inv:
  assumes "web_inv s" and "web_phase s = REQUEST_SPAWN fd d"
  shows "web_inv (start_spawn E fd d s)"
  using assms by (cases "we_spawn E (web_world s)") (auto simp: start_spawn_def web_inv_def Let_def starting_def)

lemma report_send_inv:
  assumes "web_inv s" and "web_phase s = REQUEST_REPORT fd r"
  shows "web_inv (report_send E fd r s)"
proof -
  have "r \<in> dom (web_heap s)" using assms by (simp add: web_inv_def Let_def)
  then obtain result where "web_heap s r = Some result" by blast
  with assms show ?thesis
    by (auto simp: report_send_def web_inv_def Let_def starting_def split: sum.split)
qed

lemma worker_step_inv:
  assumes inv: "web_inv s" and gone: "web_phase s \<noteq> REQUEST_GONE"
    and ws: "web_workers s = others @ t # rest" and step: "worker_step s t' t s'"
  shows "web_inv (s'\<lparr>web_workers := others @ (case t' of None \<Rightarrow> [] | Some u \<Rightarrow> [u]) @ rest\<rparr>)"
proof -
  from inv ws have one: "others = []" "rest = []" by (auto simp: web_inv_def Let_def)
  with inv ws have s: "app_busy (web_app s)" "\<not> app_done (web_app s)" "app_done_result (web_app s) = None"
    "\<not> web_fault s" "web_workers s = [t]" "\<not> starting (web_phase s)"
    "dom (web_heap s) = set_option (worker_result t)"
    "\<forall>fd d. web_phase s \<noteq> REQUEST_START fd d" "\<forall>fd r. web_phase s \<noteq> REQUEST_REPORT fd r"
    by (auto simp: web_inv_def Let_def)
  from step show ?thesis
  proof cases
    case (progress d p)
    with s one gone show ?thesis by (simp add: on_scan_progress_def web_inv_def Let_def)
  next
    case (no_memory d)
    with s one gone show ?thesis by (simp add: web_inv_def Let_def)
  next
    case (scanned r result d w)
    with s one gone show ?thesis by (simp add: web_inv_def Let_def)
  next
    case (publish status r)
    have "free_done_result_locked s = s" using s(3) by (rule free_done_result_None)
    with publish s one gone show ?thesis by (simp add: publish_outcome_def web_inv_def Let_def)
  qed
qed

lemma web_step_inv:
  assumes "web_step E s s'" and "web_inv s" and "web_phase s' \<noteq> REQUEST_GONE"
  shows "web_inv s'"
  using assms(1)
proof cases
  case (request rq fd)
  with assms(2) show ?thesis by (simp add: begun_from_inv request_begin_begun)
next
  case (continue fd r d)
  with assms(2) show ?thesis
    by (auto simp: request_continue_def report_send_inv start_locked_inv start_spawn_inv)
next
  case shutdown
  with assms(2) show ?thesis by (simp add: shutdown_begin_def web_inv_def Let_def starting_def)
next
  case (wait n)
  with assms(2) show ?thesis by (simp add: shutdown_poll_def web_inv_def Let_def starting_def)
next
  case free
  with assms(3) show ?thesis by (simp add: gui_web_app_free_def)
next
  case (worker others t rest t' s2)
  have "web_phase s2 = web_phase s"
    using worker(3) by cases (simp_all add: on_scan_progress_def publish_outcome_def Let_def)
  with worker assms(2,3) show ?thesis by (simp add: worker_step_inv)
next
  case (outside w)
  with assms(2) show ?thesis by (simp add: web_inv_def)
qed

text \<open>Once the application is gone it stays gone.\<close>

lemma gone_stays:
  assumes "web_step E s s'" and "web_phase s = REQUEST_GONE"
  shows "web_phase s' = REQUEST_GONE"
  using assms(1)
proof cases
  case (worker others t rest t' s2)
  have "web_phase s2 = web_phase s"
    using worker(3) by cases (simp_all add: on_scan_progress_def publish_outcome_def Let_def)
  with worker assms(2) show ?thesis by simp
qed (use assms(2) in auto)

lemma reachable_inv:
  assumes "web_reachable E a0 s" and "fresh_app a0"
  shows "web_phase s \<noteq> REQUEST_GONE \<longrightarrow> web_inv s"
  using assms(1)
proof induction
  case (init w)
  show ?case using assms(2) by (simp add: web_init_def web_inv_def Let_def starting_def fresh_app_def)
next
  case (step s s')
  then show ?case using web_step_inv gone_stays by metis
qed

text \<open>
  C2 Whatever the requests are and however the worker's steps fall between them, as long as the
  application exists: no address is used or freed that is not allocated; there is at most one
  worker, and the busy flag is up exactly while there is one or one is being created; a finished
  scan and a worker never coexist, so the result that a report request is working on cannot be
  freed under it; and the allocated results are exactly the published one and the worker's own, so
  none is leaked.
\<close>

theorem web_state_is_safe:
  assumes "web_reachable E a0 s" and "gui_web_app_create mem True tok store port = Inr a0"
    and "web_phase s \<noteq> REQUEST_GONE"
  shows "\<not> web_fault s \<and> length (web_workers s) \<le> 1 \<and>
    (app_busy (web_app s) \<longleftrightarrow> web_workers s \<noteq> [] \<or> (\<exists>fd d. web_phase s = REQUEST_SPAWN fd d)) \<and>
    (app_done (web_app s) \<longrightarrow> web_workers s = []) \<and>
    (\<forall>fd r. web_phase s = REQUEST_REPORT fd r \<longrightarrow> web_heap s r \<noteq> None) \<and>
    dom (web_heap s) = set_option (app_done_result (web_app s)) \<union>
      (\<Union>t\<in>set (web_workers s). set_option (worker_result t))"
proof -
  have inv: "web_inv s" using reachable_inv [OF assms(1) created_is_fresh [OF assms(2)]] assms(3) by blast
  have "web_heap s r \<noteq> None" if "web_phase s = REQUEST_REPORT fd r" for fd r
  proof -
    have "r \<in> dom (web_heap s)" using inv that by (simp add: web_inv_def Let_def)
    then show ?thesis by blast
  qed
  with inv show ?thesis by (auto simp: web_inv_def Let_def starting_def)
qed

section \<open>A run\<close>

text \<open>One stick, one scan of it, and the report asked for afterwards.\<close>

definition stick_env :: "unit web_env" where
  "stick_env =
     \<lparr>we_net = \<lparr>net_socket = Pair 3, net_bind = (\<lambda>_ _ _. Pair 0), net_listen = (\<lambda>_. Pair 0),
        net_getsockname = (\<lambda>_ w. (0, 8080, w)), net_select = (\<lambda>_. Pair SELECT_READY), net_accept = (\<lambda>_. Pair 4),
        net_recv = (\<lambda>_ _. Pair None), net_send = (\<lambda>_ d. Pair (int (length d))), net_close = (\<lambda>_ w. w),
        net_time = Pair 0\<rparr>,
      we_mem = mem_always,
      we_devices = Some (\<lambda>w l. (USBS_OK, snd (usbs_device_list_push mem_always l
        (sample_stick\<lparr>mount_points := [''/media/u'']\<rparr>)), w)),
      we_spawn = Pair 0, we_index_html = [], we_version = ''1'', we_stray = (\<lambda>_ _. CHR ''x'')\<rparr>"

definition stick_app :: gui_web_app where
  "stick_app = \<lparr>app_token = ''t'', app_store = \<lparr>store_root = ''/r''\<rparr>, expected_host = ''127.0.0.1:8080'',
     expected_host_localhost = ''localhost:8080'', app_busy = False, app_cancel_flag = 0,
     app_progress = zero_progress, app_done = False, app_done_status = USBS_OK, app_done_result = None\<rparr>"

definition stick_request :: "string \<Rightarrow> string \<Rightarrow> string \<Rightarrow> http_request" where
  "stick_request meth path query =
     \<lparr>rq_method = meth, rq_path = path, rq_query = query,
      rq_headers = [\<lparr>h_name = ''host'', h_value = ''localhost:8080''\<rparr>,
                    \<lparr>h_name = ''X-UsbSentinel-Token'', h_value = ''t''\<rparr>], rq_body = []\<rparr>"

definition stick_started :: "unit web" where
  "stick_started =
     gui_web_app_handle_request stick_env (stick_request ''POST'' ''/api/scan'' ''device=usb_3A0781-5583_3AA1'') 4
       (web_init stick_app ())"

definition stick_scanned :: "unit web" where
  "stick_scanned = stick_started\<lparr>
     web_heap := (web_heap stick_started)(7 \<mapsto> usbs_scan_result_init\<lparr>scan_device := sample_stick\<lparr>mount_points := [''/media/u'']\<rparr>\<rparr>),
     web_world := (), web_workers := [WORKER_REPORTED USBS_OK (Some 7)],
     web_fault := web_fault stick_started \<or> False\<rparr>"

definition stick_reported :: "unit web" where
  "stick_reported = (publish_outcome USBS_OK (Some 7) stick_scanned)\<lparr>web_workers := [],
     web_fault := web_fault (publish_outcome USBS_OK (Some 7) stick_scanned) \<or> False\<rparr>"

definition stick_asked :: "unit web" where
  "stick_asked = request_begin stick_env (stick_request ''GET'' ''/api/report'' []) 4 stick_reported"

lemma stick_started_reachable: "web_reachable stick_env stick_app stick_started"
proof -
  let ?E = stick_env
  let ?rq = "stick_request ''POST'' ''/api/scan'' ''device=usb_3A0781-5583_3AA1''"
  let ?d = "sample_stick\<lparr>mount_points := [''/media/u'']\<rparr>"
  let ?s0 = "web_init stick_app ()" let ?s1 = "request_begin ?E ?rq 4 ?s0" let ?s2 = "request_continue ?E ?s1"
  have ph: "web_phase ?s0 = REQUEST_NONE" "web_phase ?s1 = REQUEST_START 4 ?d" "web_phase ?s2 = REQUEST_SPAWN 4 ?d"
    by code_simp+
  have "web_reachable ?E stick_app ?s0" by (rule web_reachable.init)
  then have "web_reachable ?E stick_app ?s1" by (rule web_reachable.step) (rule web_step.request [OF ph(1)])
  then have "web_reachable ?E stick_app ?s2"
    by (rule web_reachable.step) (rule web_step.continue [of _ 4 0 ?d], simp add: ph(2))
  then have "web_reachable ?E stick_app (request_continue ?E ?s2)"
    by (rule web_reachable.step) (rule web_step.continue [of _ 4 0 ?d], simp add: ph(3))
  then show ?thesis by (simp add: stick_started_def gui_web_app_handle_request_def)
qed

lemma stick_asked_reachable: "web_reachable stick_env stick_app stick_asked"
proof -
  let ?d = "sample_stick\<lparr>mount_points := [''/media/u'']\<rparr>"
  have "web_workers stick_started = [WORKER_RUNNING ?d]" "web_heap stick_started 7 = None"
    "web_phase stick_started \<noteq> REQUEST_GONE" by code_simp+
  then have "web_step stick_env stick_started stick_scanned"
    using web_step.worker [of stick_started "[]" "WORKER_RUNNING ?d" "[]" _ _ stick_env]
      worker_step.scanned [of stick_started 7 "usbs_scan_result_init\<lparr>scan_device := ?d\<rparr>" ?d "()"]
    by (fastforce simp: stick_scanned_def)
  then have "web_reachable stick_env stick_app stick_scanned"
    by (rule web_reachable.step [OF stick_started_reachable])
  moreover have "web_workers stick_scanned = [WORKER_REPORTED USBS_OK (Some 7)]"
    "web_phase stick_scanned \<noteq> REQUEST_GONE" by code_simp+
  then have "web_step stick_env stick_scanned stick_reported"
    using web_step.worker [of stick_scanned "[]" "WORKER_REPORTED USBS_OK (Some 7)" "[]" _ _ stick_env]
      worker_step.publish [of stick_scanned USBS_OK "Some 7"]
    by (fastforce simp: stick_reported_def)
  ultimately have "web_reachable stick_env stick_app stick_reported" by (rule web_reachable.step)
  moreover have "web_phase stick_reported = REQUEST_NONE" by code_simp
  then have "web_step stick_env stick_reported stick_asked"
    unfolding stick_asked_def by (rule web_step.request)
  ultimately show ?thesis by (rule web_reachable.step)
qed

lemma web_state_is_safe_witness: "web_heap stick_asked 7 \<noteq> None"
proof -
  have "gui_web_app_create mem_always True ''t'' \<lparr>store_root = ''/r''\<rparr> 8080 = Inr stick_app"
    "web_phase stick_asked \<noteq> REQUEST_GONE" "web_phase stick_asked = REQUEST_REPORT 4 7" by code_simp+
  with web_state_is_safe [OF stick_asked_reachable] show ?thesis by blast
qed

section \<open>Cancelling and shutting down\<close>

text \<open>
  C25 A cancellation is not lost: once the flag is up it stays up under every step of either thread
  for as long as there is a worker, so the worker's next poll sees it.
\<close>

theorem cancel_is_not_lost:
  assumes "web_reachable E a0 s" and "gui_web_app_create mem True tok store port = Inr a0"
    and "web_step E s s'" and "web_workers s \<noteq> []" and "web_phase s \<noteq> REQUEST_GONE"
    and "gui_cancel_flag_is_set (Some (app_cancel_flag (web_app s)))"
  shows "gui_cancel_flag_is_set (Some (app_cancel_flag (web_app s')))"
proof -
  have inv: "web_inv s" using reachable_inv [OF assms(1) created_is_fresh [OF assms(2)]] assms(5) by blast
  note flag = assms(6) [unfolded gui_cancel_flag_is_set_def, simplified]
  from assms(3) show ?thesis
  proof cases
    case (request rq fd)
    have cancel: "app_cancel_flag (web_app (handle_cancel E fd s)) \<noteq> 0"
      using flag by (simp add: handle_cancel_def gui_cancel_flag_set_def)
    have "app_cancel_flag (web_app (start_begin E rq fd s)) \<noteq> 0" "app_cancel_flag (web_app (report_begin E fd s)) \<noteq> 0"
      using flag by (simp_all add: start_begin_def report_begin_def Let_def split: option.split prod.split)
    with cancel request flag show ?thesis by (simp add: request_begin_def gui_cancel_flag_is_set_def)
  next
    case (continue fd r d)
    have "\<not> (\<exists>fd d. web_phase s = REQUEST_START fd d \<or> web_phase s = REQUEST_SPAWN fd d)"
      using inv assms(4) by (auto simp: web_inv_def Let_def starting_def)
    with continue flag show ?thesis
      by (auto simp: request_continue_def report_send_def Let_def gui_cancel_flag_is_set_def split: option.split sum.split)
  next
    case shutdown
    with flag show ?thesis by (simp add: shutdown_begin_def gui_cancel_flag_set_def gui_cancel_flag_is_set_def Let_def)
  next
    case (wait n)
    with flag show ?thesis by (simp add: shutdown_poll_def gui_cancel_flag_is_set_def)
  next
    case free
    with flag show ?thesis
      by (simp add: gui_web_app_free_def free_done_result_locked_def gui_cancel_flag_is_set_def split: option.split)
  next
    case (worker others t rest t' s2)
    from worker(3) flag have "app_cancel_flag (web_app s2) \<noteq> 0"
      by cases (simp_all add: on_scan_progress_def publish_outcome_def Let_def free_done_result_locked_def split: option.split)
    with worker show ?thesis by (simp add: gui_cancel_flag_is_set_def)
  next
    case (outside w)
    with flag show ?thesis by (simp add: gui_cancel_flag_is_set_def)
  qed
qed

definition stick_cancelled :: "unit web" where
  "stick_cancelled = request_begin stick_env (stick_request ''POST'' ''/api/cancel'' []) 4 stick_started"

lemma cancel_is_not_lost_witness:
  "gui_cancel_flag_is_set (Some (app_cancel_flag (web_app (on_scan_progress zero_progress stick_cancelled))))"
proof -
  let ?d = "sample_stick\<lparr>mount_points := [''/media/u'']\<rparr>"
  let ?s = "(on_scan_progress zero_progress stick_cancelled)\<lparr>web_workers := [WORKER_RUNNING ?d],
     web_fault := web_fault (on_scan_progress zero_progress stick_cancelled) \<or> False\<rparr>"
  have ph: "web_phase stick_started = REQUEST_NONE" by code_simp
  have r: "web_reachable stick_env stick_app stick_cancelled"
    unfolding stick_cancelled_def by (rule web_reachable.step [OF stick_started_reachable web_step.request [OF ph]])
  have created: "gui_web_app_create mem_always True ''t'' \<lparr>store_root = ''/r''\<rparr> 8080 = Inr stick_app"
    and w: "web_workers stick_cancelled = [WORKER_RUNNING ?d]" "web_phase stick_cancelled = REQUEST_NONE"
    and flag: "gui_cancel_flag_is_set (Some (app_cancel_flag (web_app stick_cancelled)))" by code_simp+
  have "web_step stick_env stick_cancelled ?s"
    using web_step.worker [of stick_cancelled "[]" "WORKER_RUNNING ?d" "[]" _ _ stick_env]
      worker_step.progress [of stick_cancelled ?d zero_progress] w by fastforce
  from cancel_is_not_lost [OF r created this _ _ flag] w show ?thesis by simp
qed

lemma shutdown_begins:
  "web_reachable E a0 s \<Longrightarrow> web_phase s = REQUEST_NONE \<Longrightarrow>
     web_reachable E a0 (shutdown_begin s) \<and> web_phase (shutdown_begin s) = REQUEST_WAIT 0 \<and>
     web_workers (shutdown_begin s) = web_workers s \<and> app_busy (web_app (shutdown_begin s)) = app_busy (web_app s)"
  by (intro conjI) (erule web_reachable.step, erule web_step.shutdown, simp_all add: shutdown_begin_def Let_def)

lemma shutdown_waits:
  "web_reachable E a0 s \<Longrightarrow> web_phase s = REQUEST_WAIT n \<Longrightarrow> app_busy (web_app s) \<Longrightarrow> n = k * POLL_MS \<Longrightarrow>
     k + m = 100 \<Longrightarrow>
     \<exists>s'. web_reachable E a0 s' \<and> web_phase s' = REQUEST_FREE \<and> web_workers s' = web_workers s"
proof (induction m arbitrary: k n s)
  case 0
  have "web_reachable E a0 (shutdown_poll n s)"
    using web_reachable.step [OF 0(1) web_step.wait [OF 0(2)]] .
  moreover have "n \<ge> MAX_WAIT_MS" using 0 by (simp add: POLL_MS_def MAX_WAIT_MS_def)
  ultimately show ?case by (intro exI [of _ "shutdown_poll n s"]) (simp add: shutdown_poll_def)
next
  case (Suc m)
  have r: "web_reachable E a0 (shutdown_poll n s)"
    using web_reachable.step [OF Suc.prems(1) web_step.wait [OF Suc.prems(2)]] .
  have "\<not> n \<ge> MAX_WAIT_MS" using Suc.prems by (simp add: POLL_MS_def MAX_WAIT_MS_def)
  then have s': "shutdown_poll n s = s\<lparr>web_phase := REQUEST_WAIT (n + POLL_MS)\<rparr>"
    using Suc.prems by (simp add: shutdown_poll_def)
  have now: "web_phase (shutdown_poll n s) = REQUEST_WAIT (n + POLL_MS)" "app_busy (web_app (shutdown_poll n s))"
    "web_workers (shutdown_poll n s) = web_workers s" using Suc.prems(3) by (simp_all add: s')
  from Suc.IH [OF r now(1,2), of "Suc k"] Suc.prems(4,5) show ?case unfolding now(3) by simp
qed

text \<open>
  The wait is bounded, so a worker that takes longer than that outlives the application, and its next
  callback uses a mutex and a structure that are freed.
\<close>

lemma shutdown_can_outrun_the_worker:
  assumes "web_reachable E a0 s" and "web_phase s = REQUEST_NONE" and "web_workers s = [WORKER_RUNNING d]"
    and "app_busy (web_app s)"
  shows "\<exists>s'. web_reachable E a0 s' \<and> web_phase s' = REQUEST_GONE \<and> web_fault s'"
proof -
  note b = shutdown_begins [OF assms(1,2)]
  then obtain s1 where s1: "web_reachable E a0 s1" "web_phase s1 = REQUEST_FREE" "web_workers s1 = [WORKER_RUNNING d]"
    using shutdown_waits [of E a0 "shutdown_begin s" 0 0 100] assms(3,4) by auto
  let ?s2 = "gui_web_app_free s1"
  have r2: "web_reachable E a0 ?s2" using web_reachable.step [OF s1(1) web_step.free [OF s1(2)]] .
  have w2: "web_workers ?s2 = [] @ WORKER_RUNNING d # []" "web_phase ?s2 = REQUEST_GONE"
    using s1(3) by (simp_all add: gui_web_app_free_def)
  note step = web_step.worker [OF w2(1) worker_step.progress [of ?s2 d zero_progress], of E]
  have "web_phase (on_scan_progress zero_progress ?s2) = REQUEST_GONE"
    by (simp add: on_scan_progress_def w2(2))
  then show ?thesis
    using web_reachable.step [OF r2 step] w2(2) by (intro exI conjI) (assumption, simp_all)
qed

lemma shutdown_outruns_the_stick:
  "\<exists>s'. web_reachable stick_env stick_app s' \<and> web_phase s' = REQUEST_GONE \<and> web_fault s'"
proof -
  have "web_phase stick_started = REQUEST_NONE" "app_busy (web_app stick_started)"
    "web_workers stick_started = [WORKER_RUNNING (sample_stick\<lparr>mount_points := [''/media/u'']\<rparr>)]" by code_simp+
  then show ?thesis using shutdown_can_outrun_the_worker [OF stick_started_reachable] by blast
qed

text \<open>Without a worker left, freeing the application frees every result.\<close>

lemma orderly_shutdown:
  assumes "web_reachable E a0 s" and "fresh_app a0" and "web_phase s = REQUEST_FREE" and "web_workers s = []"
  shows "web_heap (gui_web_app_free s) = (\<lambda>_. None) \<and> \<not> web_fault (gui_web_app_free s)"
proof -
  have "web_inv s" using reachable_inv [OF assms(1,2)] assms(3) by simp
  then have "\<not> web_fault s" "dom (web_heap s) = set_option (app_done_result (web_app s)) \<union> {}"
    using assms(4) by (simp_all add: web_inv_def Let_def)
  from free_done_result_heap [OF this(2,1)] show ?thesis by (simp add: gui_web_app_free_def)
qed

end
