(* ===== verification/WebServer.thy ===== *)
theory WebServer
  imports HttpRequests WebSafety
begin

text \<open>
  The server and the application together: the HTTP loop over the sockets of the application's own
  world, with \<open>gui_web_app_handle_request\<close> as its handler, down to the bytes on the wire.
\<close>

section \<open>The sockets of the application's world\<close>

definition lift1 :: "('w \<Rightarrow> 'a \<times> 'w) \<Rightarrow> 'w web \<Rightarrow> 'a \<times> 'w web" where
  "lift1 f s = (case f (web_world s) of (r, w) \<Rightarrow> (r, s\<lparr>web_world := w\<rparr>))"

definition over_world :: "'w net \<Rightarrow> 'w web net" where
  "over_world N =
     \<lparr>net_socket = lift1 (net_socket N), net_bind = (\<lambda>fd a p. lift1 (net_bind N fd a p)),
      net_listen = (\<lambda>fd. lift1 (net_listen N fd)),
      net_getsockname = (\<lambda>fd s. case net_getsockname N fd (web_world s) of (r, p, w) \<Rightarrow> (r, p, s\<lparr>web_world := w\<rparr>)),
      net_select = (\<lambda>fd. lift1 (net_select N fd)), net_accept = (\<lambda>fd. lift1 (net_accept N fd)),
      net_recv = (\<lambda>fd n. lift1 (net_recv N fd n)), net_send = (\<lambda>fd d. lift1 (net_send N fd d)),
      net_close = (\<lambda>fd s. s\<lparr>web_world := net_close N fd (web_world s)\<rparr>), net_time = lift1 (net_time N)\<rparr>"

definition serve_connection :: "'w web_env \<Rightarrow> int \<Rightarrow> 'w web \<Rightarrow> 'w web" where
  "serve_connection E fd s =
     handle_one_connection (we_stray E) (over_world (we_net E)) (gui_web_app_handle_request E) fd s"

lemma recv_over_world:
  "net_recv (over_world N) fd n s = (case net_recv N fd n (web_world s) of (r, w) \<Rightarrow> (r, s\<lparr>web_world := w\<rparr>))"
  by (simp add: over_world_def lift1_def)

lemma recv_head_over_world:
  "recv_head (over_world N) fd buf s =
     (case recv_head N fd buf (web_world s) of (r, w) \<Rightarrow> (r, s\<lparr>web_world := w\<rparr>))"
proof (induction N fd buf "web_world s" arbitrary: s rule: recv_head.induct)
  case (1 N fd buf)
  show ?case
  proof (cases "length buf \<ge> REQUEST_BUF_CAP - 1")
    case True
    then show ?thesis by (simp add: recv_head.simps)
  next
    case False
    obtain o1 w1 where r: "net_recv N fd (REQUEST_BUF_CAP - 1 - length buf) (web_world s) = (o1, w1)"
      by fastforce
    show ?thesis
    proof (cases "o1 = None \<or> o1 = Some [] \<or> (\<exists>c. o1 = Some c \<and> head_end (cstr (buf @ c)) \<noteq> None)")
      case True
      then show ?thesis using False r by (auto simp: recv_head.simps recv_over_world)
    next
      case go: False
      then obtain c where c: "o1 = Some c" "c \<noteq> []" "head_end (cstr (buf @ c)) = None" by auto
      have "recv_head (over_world N) fd (buf @ c) (s\<lparr>web_world := w1\<rparr>) =
          (case recv_head N fd (buf @ c) w1 of (r, w) \<Rightarrow> (r, s\<lparr>web_world := w\<rparr>))"
        using "1.hyps" [of "Some c" "s\<lparr>web_world := w1\<rparr>" c] False r c by simp
      moreover have "recv_head (over_world N) fd buf s = recv_head (over_world N) fd (buf @ c) (s\<lparr>web_world := w1\<rparr>)"
        using False r c by (subst recv_head.simps) (simp add: recv_over_world)
      moreover have "recv_head N fd buf (web_world s) = recv_head N fd (buf @ c) w1"
        using False r c by (subst recv_head.simps) simp
      ultimately show ?thesis by simp
    qed
  qed
qed

lemma recv_body_over_world:
  "recv_body (over_world N) fd need buf s =
     (case recv_body N fd need buf (web_world s) of (r, w) \<Rightarrow> (r, s\<lparr>web_world := w\<rparr>))"
proof (induction N fd need buf "web_world s" arbitrary: s rule: recv_body.induct)
  case (1 N fd need buf)
  show ?case
  proof (cases "length buf \<ge> need")
    case True
    then show ?thesis by (simp add: recv_body.simps)
  next
    case False
    obtain o1 w1 where r: "net_recv N fd (REQUEST_BUF_CAP - 1 - length buf) (web_world s) = (o1, w1)"
      by fastforce
    show ?thesis
    proof (cases "o1 = None \<or> o1 = Some []")
      case True
      then show ?thesis using False r by (auto simp: recv_body.simps recv_over_world)
    next
      case go: False
      then obtain c where c: "o1 = Some c" "c \<noteq> []" by auto
      have "recv_body (over_world N) fd need (buf @ c) (s\<lparr>web_world := w1\<rparr>) =
          (case recv_body N fd need (buf @ c) w1 of (r, w) \<Rightarrow> (r, s\<lparr>web_world := w\<rparr>))"
        using "1.hyps" [of "Some c" "s\<lparr>web_world := w1\<rparr>" c] False r c by simp
      moreover have "recv_body (over_world N) fd need buf s = recv_body (over_world N) fd need (buf @ c) (s\<lparr>web_world := w1\<rparr>)"
        using False r c by (subst recv_body.simps) (simp add: recv_over_world)
      moreover have "recv_body N fd need buf (web_world s) = recv_body N fd need (buf @ c) w1"
        using False r c by (subst recv_body.simps) simp
      ultimately show ?thesis by simp
    qed
  qed
qed

section \<open>Bytes without the token\<close>

text \<open>What the receiving loops take from the wire, in order and nothing else.\<close>

lemma wire_recv_some:
  "wire_recv fd n w = (r, w') \<Longrightarrow>
     w' = w\<lparr>w_in := w_in w'\<rparr> \<and>
     (case r of None \<Rightarrow> concat (w_in w) = [] | Some c \<Rightarrow> c @ concat (w_in w') = concat (w_in w))"
  by (auto simp: wire_recv_def split: list.splits if_splits)

lemma recv_head_takes:
  "recv_head N fd buf w = (r, w') \<Longrightarrow> N = wire_net \<Longrightarrow>
     w' = w\<lparr>w_in := w_in w'\<rparr> \<and> (\<forall>buf'. r = RECV_DONE buf' \<longrightarrow> buf' @ concat (w_in w') = buf @ concat (w_in w))"
proof (induction N fd buf w arbitrary: r w' rule: recv_head.induct)
  case (1 N fd buf w)
  obtain o1 w1 where got: "wire_recv fd (REQUEST_BUF_CAP - 1 - length buf) w = (o1, w1)" by fastforce
  note took = wire_recv_some [OF got]
  show ?case
  proof (cases "length buf \<ge> REQUEST_BUF_CAP - 1 \<or> o1 = None \<or> o1 = Some [] \<or>
      (\<exists>c. o1 = Some c \<and> head_end (cstr (buf @ c)) \<noteq> None)")
    case True
    with "1.prems" got took show ?thesis by (subst (asm) recv_head.simps) (auto split: if_splits)
  next
    case False
    then obtain c where c: "o1 = Some c" "c \<noteq> []" "head_end (cstr (buf @ c)) = None" by auto
    have "recv_head N fd (buf @ c) w1 = (r, w')"
      using "1.prems" False got c by (subst (asm) recv_head.simps) simp
    from "1.IH" [of "Some c" w1 c, OF _ _ refl c(2) _ this] False got c "1.prems"(2)
    have "w' = w1\<lparr>w_in := w_in w'\<rparr> \<and>
        (\<forall>buf'. r = RECV_DONE buf' \<longrightarrow> buf' @ concat (w_in w') = (buf @ c) @ concat (w_in w1))" by simp
    moreover have "w1 = w\<lparr>w_in := w_in w1\<rparr>" "c @ concat (w_in w1) = concat (w_in w)" using took c by simp_all
    ultimately show ?thesis
      by (metis append.assoc wire.surjective wire.update_convs(1))
  qed
qed

lemma recv_body_takes:
  "recv_body N fd need buf w = (r, w') \<Longrightarrow> N = wire_net \<Longrightarrow> w' = w\<lparr>w_in := w_in w'\<rparr>"
proof (induction N fd need buf w arbitrary: r w' rule: recv_body.induct)
  case (1 N fd need buf w)
  obtain o1 w1 where got: "wire_recv fd (REQUEST_BUF_CAP - 1 - length buf) w = (o1, w1)" by fastforce
  note took = wire_recv_some [OF got]
  show ?case
  proof (cases "length buf \<ge> need \<or> o1 = None \<or> o1 = Some []")
    case True
    with "1.prems" got took show ?thesis by (subst (asm) recv_body.simps) (auto split: if_splits)
  next
    case False
    then obtain c where c: "o1 = Some c" "c \<noteq> []" by auto
    have "recv_body N fd need (buf @ c) w1 = (r, w')"
      using "1.prems" False got c by (subst (asm) recv_body.simps) simp
    from "1.IH" [of "Some c" w1 c, OF _ _ refl c(2) this] False got c "1.prems"(2)
    have "w' = w1\<lparr>w_in := w_in w'\<rparr>" by simp
    moreover have "w1 = w\<lparr>w_in := w_in w1\<rparr>" using took by simp
    ultimately show ?thesis by (metis wire.surjective wire.update_convs(1))
  qed
qed

lemma authorized_from_bytes:
  assumes "request_is_authorized a rq" and "from_bytes buf rq"
  shows "sublist (app_token a) buf"
proof -
  have header: "sublist v buf" if "http_request_header rq name = Some v" for name v
    using that assms(2) by (auto simp: http_request_header_def from_bytes_def find_Some_iff)
  have query: "sublist v q" if "query_loop key cap q = Some v" for key cap q v
    using that
  proof (induction key cap q rule: query_loop.induct)
    case (1 key cap cursor)
    let ?pair = "takeWhile (\<lambda>c. c \<noteq> CHR ''&'') cursor" and ?rest = "dropWhile (\<lambda>c. c \<noteq> CHR ''&'') cursor"
    have subs: "sublist (take m (drop n ?pair)) cursor" "sublist (drop 1 ?rest) cursor" for m n
      using sublist_takeWhile sublist_dropWhile sublist_drop sublist_take sublist_order.order.trans by metis+
    show ?case
    proof (cases "length ?pair > length key \<and> cursor ! length key = CHR ''='' \<and> take (length key) cursor = key")
      case True
      with "1.prems" subs(1) show ?thesis
        by (subst (asm) query_loop.simps) (auto simp: Let_def split: if_splits)
    next
      case False
      then have ne: "cursor \<noteq> []" and "query_loop key cap (drop 1 ?rest) = Some v"
        using "1.prems" by (subst (asm) query_loop.simps; auto simp: Let_def split: if_splits)+
      with "1.IH" [OF ne refl refl False] subs(2) show ?thesis using sublist_order.order.trans by blast
    qed
  qed
  have "sublist v buf" if "http_query_get (rq_query rq) key cap = Some v" for key cap v
  proof -
    have "sublist v (rq_query rq)" using that query by (simp add: http_query_get_def split: if_splits)
    then show ?thesis using assms(2) sublist_order.order.trans unfolding from_bytes_def by blast
  qed
  with header assms(1) show ?thesis
    by (auto simp: request_is_authorized_def split: option.splits if_splits)
qed

lemma unauthorized_is_refused:
  assumes "\<not> request_is_authorized (web_app s) rq" and "web_phase s = REQUEST_NONE"
  shows "gui_web_app_handle_request E rq fd s = respond E fd 403 ''text/plain'' ''Forbidden'' s"
  using assms by (simp add: gui_web_app_handle_request_def request_begin_def request_continue_def)

text \<open>Apart from the request, only the answer is new.\<close>

definition answers_only :: "wire web \<Rightarrow> wire web \<Rightarrow> bool" where
  "answers_only s s' \<longleftrightarrow>
     (\<exists>rest out. s' = s\<lparr>web_world := (web_world s)\<lparr>w_in := rest, w_out := w_out (web_world s) @ out\<rparr>\<rparr> \<and>
        (out = [] \<or> (\<exists>code n t. out = http_response_head code ''text/plain'' n None @ t \<and> code \<in> {400, 403, 413})))"

lemma send_response_wire:
  assumes "length (http_response_head code ct (length body) None) < 1024"
  shows "http_send_response wire_net fd code ct body None w =
    w\<lparr>w_out := w_out w @ http_response_head code ct (length body) None @ body\<rparr>"
  using assms by (cases "body = []") (simp_all add: http_send_response_def Let_def)

lemma send_all_over_world:
  "send_all (over_world N) fd d s = s\<lparr>web_world := send_all N fd d (web_world s)\<rparr>"
proof (induction N fd d "web_world s" arbitrary: s rule: send_all.induct)
  case (1 N fd d)
  obtain n w1 where sent: "net_send N fd d (web_world s) = (n, w1)" by fastforce
  have lifted: "net_send (over_world N) fd d s = (n, s\<lparr>web_world := w1\<rparr>)"
    using sent by (simp add: over_world_def lift1_def)
  show ?case
  proof (cases "d = [] \<or> n \<le> 0")
    case True
    then show ?thesis using sent lifted by (auto simp: send_all.simps)
  next
    case False
    then have "send_all (over_world N) fd (drop (nat n) d) (s\<lparr>web_world := w1\<rparr>) =
        s\<lparr>web_world := send_all N fd (drop (nat n) d) w1\<rparr>"
      using "1.hyps" [of n "s\<lparr>web_world := w1\<rparr>"] sent by simp
    with False sent lifted show ?thesis by (simp add: send_all.simps [of _ _ d])
  qed
qed

lemma send_response_over_world:
  "http_send_response (over_world N) fd code ct body extra s =
     s\<lparr>web_world := http_send_response N fd code ct body extra (web_world s)\<rparr>"
  by (simp add: http_send_response_def Let_def send_all_over_world)

lemma plain_answer:
  assumes "code \<in> {400, 403, 413}" and "length body < 100"
  shows "answers_only s (s\<lparr>web_world := http_send_response wire_net fd code ''text/plain'' body None
    ((web_world s)\<lparr>w_in := rest\<rparr>)\<rparr>)"
proof -
  have "length (dec_of_nat code) \<le> 3" "length (dec_of_nat (length body)) \<le> 3"
    using assms by (auto intro!: length_dec_of_nat)
  moreover have "length (http_status_text code) \<le> 21" by (simp add: http_status_text_def)
  ultimately have "length (http_response_head code ''text/plain'' (length body) None) < 1024"
    by (simp add: http_response_head_def)
  then show ?thesis
    using assms(1) by (simp add: send_response_wire answers_only_def) blast
qed

lemma literal_bytes_length [simp]: "length (literal_bytes f t n) = n"
  by (simp add: literal_bytes_def)

text \<open>
  C1 Who does not know the token can do nothing: whatever bytes arrive on a connection, in whatever
  segments, if the token does not occur in them then serving the connection changes neither the
  application's state nor its results nor its threads, asks no other part of the system for
  anything, and the only possible answers are the plain texts 400, 403 and 413.
\<close>

theorem no_token_no_effect:
  assumes "we_net E = wire_net" and "web_phase s = REQUEST_NONE"
    and "\<not> sublist (app_token (web_app s)) (concat (w_in (web_world s)))"
  shows "answers_only s (serve_connection E fd s)"
proof -
  let ?N = "over_world wire_net"
  obtain r w1 where head: "recv_head wire_net fd [] (web_world s) = (r, w1)" by fastforce
  note took = recv_head_takes [OF head refl]
  then have w1: "w1 = (web_world s)\<lparr>w_in := w_in w1\<rparr>" by blast
  have got: "recv_head ?N fd [] s = (r, s\<lparr>web_world := w1\<rparr>)"
    using head by (simp add: recv_head_over_world)
  have quiet: "answers_only s (s\<lparr>web_world := (web_world s)\<lparr>w_in := rest\<rparr>\<rparr>)" for rest
    unfolding answers_only_def by (intro exI [of _ rest] exI [of _ "[]"]) simp
  have plain: "answers_only s (http_send_response ?N fd code ''text/plain'' body None (s\<lparr>web_world := w1\<rparr>))"
    if "code \<in> {400, 403, 413}" "length body < 100" for code body
    using plain_answer [OF that, of s fd "w_in w1"] w1 [symmetric] by (simp add: send_response_over_world)
  show ?thesis
  proof (cases r)
    case RECV_TOO_LARGE
    with got plain [of 413 "''Request too large''"] show ?thesis
      by (simp add: serve_connection_def handle_one_connection_def assms(1))
  next
    case RECV_CLOSED
    with got quiet [of "w_in w1"] w1 [symmetric] show ?thesis
      by (simp add: serve_connection_def handle_one_connection_def assms(1))
  next
    case (RECV_DONE buf)
    show ?thesis
    proof (cases "http_request_parse buf")
      case (Inl st)
      with got RECV_DONE plain [of 400 "''Bad Request''"] show ?thesis
        by (simp add: serve_connection_def handle_one_connection_def assms(1))
    next
      case (Inr p)
      then obtain rq n where p: "http_request_parse buf = Inr (rq, n)" by (cases p) auto
      have "buf @ concat (w_in w1) = concat (w_in (web_world s))" using took RECV_DONE by simp
      then have "sublist buf (concat (w_in (web_world s)))" by (metis sublist_append_rightI)
      then have "\<not> sublist (app_token (web_app s)) buf" using assms(3) sublist_order.order.trans by blast
      then have no: "\<not> request_is_authorized (web_app s) (rq\<lparr>rq_body := b\<rparr>)" for b
        using authorized_from_bytes [of "web_app s" "rq\<lparr>rq_body := b\<rparr>" buf] http_request_parse_bytes [OF p]
        by (auto simp: from_bytes_def)
      show ?thesis
      proof (cases "http_request_content_length rq")
        case (Inl st)
        with got RECV_DONE p plain [of 400 "literal_bytes f t 19" for f t] show ?thesis
          by (simp add: serve_connection_def handle_one_connection_def assms(1))
      next
        case (Inr cl)
        show ?thesis
        proof (cases "n + cl \<ge> REQUEST_BUF_CAP")
          case True
          with got RECV_DONE p Inr plain [of 413 "''Payload Too Large''"] show ?thesis
            by (simp add: serve_connection_def handle_one_connection_def assms(1))
        next
          case False
          obtain r2 w2 where body: "recv_body wire_net fd (n + cl) buf w1 = (r2, w2)" by fastforce
          have w2: "w2 = (web_world s)\<lparr>w_in := w_in w2\<rparr>"
            using recv_body_takes [OF body refl] w1 by (metis wire.surjective wire.update_convs(1))
          have served: "serve_connection E fd s =
              (case r2 of RECV_DONE buf2 \<Rightarrow>
                 gui_web_app_handle_request E (rq\<lparr>rq_body := take cl (drop n buf2)\<rparr>) fd (s\<lparr>web_world := w2\<rparr>)
               | _ \<Rightarrow> s\<lparr>web_world := w2\<rparr>)"
            using got RECV_DONE p Inr False body
            by (simp add: serve_connection_def handle_one_connection_def assms(1) recv_body_over_world split: recv_outcome.split)
          show ?thesis
          proof (cases r2)
            case (RECV_DONE buf2)
            with served no assms(2)
            have "serve_connection E fd s = respond E fd 403 ''text/plain'' ''Forbidden'' (s\<lparr>web_world := w2\<rparr>)"
              by (simp add: unauthorized_is_refused)
            with plain_answer [of 403 "''Forbidden''" s fd "w_in w2"] w2 [symmetric] assms(1) show ?thesis
              by (simp add: respond_def)
          qed (use served quiet [of "w_in w2"] w2 [symmetric] in simp_all)
        qed
      qed
    qed
  qed
qed

definition wire_env :: "wire web_env" where
  "wire_env =
     \<lparr>we_net = wire_net, we_mem = mem_always, we_devices = None, we_spawn = Pair 0,
      we_index_html = ''<html>'', we_version = ''1'', we_stray = (\<lambda>_ _. CHR ''x'')\<rparr>"

definition knock :: "string \<Rightarrow> wire web" where
  "knock query =
     web_init (stick_app\<lparr>app_token := ''0f3a''\<rparr>)
       \<lparr>w_in = [''GET /?'' @ query @ '' HTTP/1.1'' @ [CR, LF] @ ''Host: localhost:8080'' @ [CR], [LF, CR, LF]],
        w_out = [], w_closed = []\<rparr>"

lemma no_token_no_effect_witness: "answers_only (knock ''token=0f3b'') (serve_connection wire_env 4 (knock ''token=0f3b''))"
proof -
  have "\<not> sublist (app_token (web_app (knock ''token=0f3b''))) (concat (w_in (web_world (knock ''token=0f3b''))))"
    by code_simp
  then show ?thesis by (intro no_token_no_effect) (simp_all add: wire_env_def knock_def web_init_def)
qed

text \<open>With the token the page is served.\<close>

lemma token_opens_the_page:
  "w_out (web_world (serve_connection wire_env 4 (knock ''token=0f3a''))) =
     http_response_head 200 ''text/html; charset=utf-8'' 6 None @ ''<html>''"
  by code_simp

section \<open>Lengths written by hand\<close>

text \<open>
  Some handlers pass the length of their literal as a number, and two of the numbers reach past the
  literal's terminating NUL: the answer to a second scan request, and to a thread that cannot be
  created, ends with a byte of whatever memory follows. Others send the NUL as part of the body.
\<close>

lemma busy_answer_reads_past_the_literal:
  "literal_bytes stray ''{\"error\":\"a scan is already running\"}'' 39 =
     ''{\"error\":\"a scan is already running\"}'' @ [CHR 0x00, stray 0]"
  "literal_bytes stray ''{\"error\":\"failed to start scan thread\"}'' 41 =
     ''{\"error\":\"failed to start scan thread\"}'' @ [CHR 0x00, stray 0]"
  by (simp_all add: literal_bytes_def)

lemma started_answer_ends_with_NUL:
  "literal_bytes stray ''{\"status\":\"started\"}'' 21 = ''{\"status\":\"started\"}'' @ [CHR 0x00]"
  by (simp add: literal_bytes_def)

end
