(* ===== verification/Cli.thy ===== *)
theory Cli
  imports Worker Report
begin

text \<open>
  The command line of src/cli: dispatch and usage (cli.c), the device listing (cmd_devices.c) and the
  scan command (cmd_scan.c). \<open>argv\<close> is the list of the arguments from \<open>argv[0]\<close> on. What is printed
  is collected in two strings; standard output and the error stream fail silently in the code too.
\<close>

section \<open>The process\<close>

record 'w cli =
  cli_out :: string
  cli_err :: string
  cli_seeded :: bool
  cli_hash :: hash_globals
  cli_world :: 'w

text \<open>
  What the process is given: the platform, the C library, the sorting routine, the enumeration
  sources, the cancellation handler, the strings of the build, and whether \<open>setenv\<close> finds memory.
\<close>

record 'w cli_env =
  ce_platform :: "'w platform"
  ce_libc :: "'w libc"
  ce_sort :: "usbs_signature list \<Rightarrow> usbs_signature list"
  ce_fuel :: nat
  ce_source :: "usbs_enum_mode \<Rightarrow> ('w \<Rightarrow> usbs_device_list \<Rightarrow> usbs_status \<times> usbs_device_list \<times> 'w) option"
  ce_install_cancel :: "'w \<Rightarrow> usbs_status \<times> 'w"
  ce_cancel_requested :: "'w \<Rightarrow> bool \<times> 'w"
  ce_version :: string
  ce_banner :: string
  ce_setenv_ok :: bool

definition put :: "string \<Rightarrow> 'w cli \<Rightarrow> 'w cli" where
  "put t s = s\<lparr>cli_out := cli_out s @ t\<rparr>"

definition put_err :: "string \<Rightarrow> 'w cli \<Rightarrow> 'w cli" where
  "put_err t s = s\<lparr>cli_err := cli_err s @ t\<rparr>"

section \<open>Usage\<close>

definition USBS_DATA_DIR_HINT :: "host \<Rightarrow> string" where
  "USBS_DATA_DIR_HINT h =
     (case h of
        Windows \<Rightarrow> ''%LOCALAPPDATA%'' @ [CHR 0x5C] @ ''USBSentinel''
      | MacOS \<Rightarrow> ''~/Library/Application Support/USBSentinel''
      | Posix \<Rightarrow> ''$XDG_DATA_HOME/usb-sentinel, else ~/.local/share/usb-sentinel'')"

definition usbs_cli_print_usage :: "host \<Rightarrow> string \<Rightarrow> string" where
  "usbs_cli_print_usage h banner =
     concat (map (\<lambda>l. l @ NL)
      [banner,
       [],
       ''Usage:'',
       ''  usb-sentinel <command>'',
       [],
       ''Commands:'',
       ''  devices    List attached USB storage devices'',
       ''  scan       Scan a USB device and produce a report'',
       ''  version    Print the version and exit'',
       ''  help       Print this message and exit'',
       [],
       ''Options for `devices`:'',
       ''  --all      List every volume, not just USB devices (on Windows,'',
       ''             including connected mapped network drives)'',
       [],
       ''Usage for `scan`:'',
       ''  usb-sentinel scan [target] [--all] [--signatures <path>]'',
       ''    --all        Let target match any mounted volume - an internal'',
       ''                 disk such as \"C:\", an external HDD, a mapped'',
       ''                 network drive - not only USB devices. Requires a'',
       ''                 target. Locations the OS refuses to open (e.g.'',
       ''                 System Volume Information) are skipped, counted'',
       ''                 in the report, and never end the scan.'',
       ''    target       A drive letter (e.g. \"E:\") or part of a device'',
       ''                 identity; with none, the first USB device found'',
       ''                 is scanned. If target matches no such device, it'',
       ''                 is tried as a directory path (absolute, or'',
       ''                 relative to the current directory) and that'',
       ''                 directory is scanned directly - this is what'',
       ''                 lets `scan` run on a platform with no USB'',
       ''                 device detection of its own. Ctrl+C cancels an'',
       ''                 in-progress scan.'',
       ''    --signatures <path>'',
       ''                 Load hash-match signatures from <path> instead of'',
       ''                 the default signatures.txt in the per-user data'',
       ''                 directory ('' @ USBS_DATA_DIR_HINT h @ '').'',
       ''                 Format: one \"sha256:size:name\" entry per line,'',
       ''                 '#' comments. Never fetched over the network -'',
       ''                 you supply this file yourself.'',
       [],
       ''Scanning is read-only by design: USB Sentinel never deletes,'',
       ''quarantines, or modifies files, and never accesses the network.''])"

section \<open>The devices command\<close>

fun print_mount_points :: "bool \<Rightarrow> string list \<Rightarrow> string" where
  "print_mount_points first [] = []"
| "print_mount_points first (m # ms) = (if first then [] else '', '') @ m @ print_mount_points False ms"

definition mount_points_text :: "usbs_device \<Rightarrow> string" where
  "mount_points_text d =
     (if mount_points d = [] then ''(no drive letter)'' else print_mount_points True (mount_points d))"

definition hardware_text :: "usbs_device \<Rightarrow> string" where
  "hardware_text d =
     (if vendor d \<noteq> [] \<and> product d \<noteq> [] then ''    hardware    '' @ vendor d @ '' '' @ product d @ NL
      else if vendor d \<noteq> [] then ''    hardware    '' @ vendor d @ NL
      else if product d \<noteq> [] then ''    hardware    '' @ product d @ NL else [])"

definition capability_text :: "bool \<Rightarrow> string" where
  "capability_text c = (if c then ''available'' else ''unavailable (requires elevation)'')"

definition print_device :: "'w cli_env \<Rightarrow> nat \<Rightarrow> usbs_device \<Rightarrow> 'w cli \<Rightarrow> 'w cli" where
  "print_device X index d s =
     (let s1 = put (''['' @ dec_of_nat (index + 1) @ ''] '' @ mount_points_text d @
                 (if label d \<noteq> [] then ''  '' @ label d else []) @ NL @
                 ''    volume      '' @ volume_path d @ NL @
                 ''    bus         '' @ usbs_bus_type_string (bus_type d) @ NL @
                 (case usbs_device_identity d USBS_IDENTITY_MAX of
                    (st, identity) \<Rightarrow> if usbs_ok st then ''    device id   '' @ identity @ NL else []) @
                 hardware_text d) s
      in if \<not> media_present d then put (''    media       not present'' @ NL) s1
         else
           (let s2 = put (''    filesystem  '' @ (if filesystem d \<noteq> [] then filesystem d else ''(unknown)'') @ NL @
                       ''    capacity    '' @ format_size (capacity_bytes d) 32 @ '' ('' @
                       format_size (free_bytes d) 32 @ '' free)'' @ NL) s1
            in (case probe_capabilities (ce_platform X) d (cli_world s2) of
                  (st, caps, w1) \<Rightarrow>
                    (let s3 = s2\<lparr>cli_world := w1\<rparr>
                     in if \<not> usbs_ok st then s3
                        else put (''    raw volume  '' @ capability_text (can_read_raw_volume caps) @ NL @
                               ''    raw disk    '' @ capability_text (can_read_physical_disk caps) @ NL) s3))))"

definition list_device :: "'w cli_env \<Rightarrow> bool \<Rightarrow> usbs_device \<Rightarrow> nat \<times> 'w cli \<Rightarrow> nat \<times> 'w cli" where
  "list_device X show_all d acc =
     (case acc of
        (shown, s) \<Rightarrow>
          if \<not> show_all \<and> bus_type d \<noteq> USBS_BUS_USB then (shown, s)
          else (shown + 1, print_device X shown d (if shown > 0 then put NL s else s)))"

fun devices_args :: "string list \<Rightarrow> bool \<Rightarrow> string + bool" where
  "devices_args [] show_all = Inr show_all"
| "devices_args (a # as) show_all = (if a = ''--all'' then devices_args as True else Inl a)"

definition usbs_cli_cmd_devices :: "'w cli_env \<Rightarrow> string list \<Rightarrow> 'w cli \<Rightarrow> usbs_status \<times> 'w cli" where
  "usbs_cli_cmd_devices X argv s =
     (case devices_args (drop 2 argv) False of
        Inl a \<Rightarrow> (USBS_ERR_INVALID_ARG, put_err (''devices: unknown option: '' @ a @ NL) s)
      | Inr show_all \<Rightarrow>
          (case usbs_device_enumerate
                  (ce_source X (if show_all then USBS_ENUM_ALL_VOLUMES else USBS_ENUM_USB_ONLY)) (cli_world s) of
             (st, l, w1) \<Rightarrow>
               (let s1 = s\<lparr>cli_world := w1\<rparr>
                in if \<not> usbs_ok st
                   then (st, put_err (''devices: enumeration failed: '' @ usbs_status_string st @ NL) s1)
                   else
                     (case fold (list_device X show_all) (v_items l) (0, s1) of
                        (shown, s2) \<Rightarrow>
                          (USBS_OK,
                           put (NL @ ''Scanning is read-only: no file was opened for writing.'' @ NL)
                             (if shown = 0
                              then put (''No '' @ (if show_all then [] else ''USB '') @ ''devices found.'' @ NL @
                                     (if show_all then [] else ''Use --all to list every volume.'' @ NL)) s2
                              else put (NL @ dec_of_nat shown @ '' device(s) listed, '' @
                                     dec_of_nat (length (v_items l)) @ '' volume(s) examined.'' @ NL) s2))))))"

section \<open>The scan command\<close>

definition HASH_MATCH_SIGNATURES_ENV_OVERRIDE :: string where
  "HASH_MATCH_SIGNATURES_ENV_OVERRIDE = ''USBS_HASH_MATCH_SIGNATURES''"

definition cli_cancel_check :: "'w cli_env \<Rightarrow> 'w \<Rightarrow> bool \<times> 'w" where
  "cli_cancel_check X w = ce_cancel_requested X w"

text \<open>\<open>strstr(identity, target) != NULL\<close>: the target is a contiguous part of the identity.\<close>

definition device_matches :: "usbs_device \<Rightarrow> string option \<Rightarrow> bool" where
  "device_matches d wanted =
     (case wanted of
        None \<Rightarrow> True
      | Some t \<Rightarrow>
          if t \<in> set (mount_points d) then True
          else (case usbs_device_identity d USBS_IDENTITY_MAX of
                  (st, identity) \<Rightarrow> usbs_ok st \<and> sublist t identity))"

definition usbs_cli_build_path_device :: "'w platform \<Rightarrow> string \<Rightarrow> 'w \<Rightarrow> (usbs_status + usbs_device) \<times> 'w" where
  "usbs_cli_build_path_device P path w =
     (case usbs_path_join (p_host P) USBS_VOLUME_PATH_MAX path [] of
        (st, vp) \<Rightarrow>
          if \<not> usbs_ok st then (Inl st, w)
          else
            (case dir_open P vp w of
               (Inl st2, w1) \<Rightarrow> (Inl st2, w1)
             | (Inr probe, w1) \<Rightarrow>
                 (Inr (usbs_device_init\<lparr>volume_path := vp, bus_type := USBS_BUS_UNKNOWN, media_present := True,
                         mount_points := [snprintf_buf 512 path]\<rparr>), dir_close P probe w1)))"

fun scan_args ::
  "string list \<Rightarrow> usbs_enum_mode \<times> string option \<times> string option \<Rightarrow>
     string + usbs_enum_mode \<times> string option \<times> string option" where
  "scan_args [] acc = Inr acc"
| "scan_args (a # as) (mode, wanted, signatures_path) =
     (if a = ''--all'' then scan_args as (USBS_ENUM_ALL_VOLUMES, wanted, signatures_path)
      else if a = ''--signatures'' then
        (case as of
           [] \<Rightarrow> Inl (''scan: --signatures requires a path'' @ NL)
         | p # ps \<Rightarrow> scan_args ps (mode, wanted, Some p))
      else if wanted = None then scan_args as (mode, Some a, signatures_path)
      else Inl (''scan: unexpected argument: '' @ a @ NL))"

definition choose_device :: "usbs_enum_mode \<Rightarrow> string option \<Rightarrow> usbs_device list \<Rightarrow> usbs_device option" where
  "choose_device mode wanted ds =
     find (\<lambda>d. usbs_device_is_scannable d mode \<and> device_matches d wanted) ds"

definition choose_target ::
  "'w platform \<Rightarrow> usbs_enum_mode \<Rightarrow> string option \<Rightarrow> usbs_device list \<Rightarrow> 'w \<Rightarrow> usbs_device option \<times> 'w" where
  "choose_target P mode wanted ds w =
     (case choose_device mode wanted ds of
        Some d \<Rightarrow> (Some d, w)
      | None \<Rightarrow>
          (case wanted of
             None \<Rightarrow> (None, w)
           | Some t \<Rightarrow>
               (case usbs_cli_build_path_device P t w of
                  (Inl _, w1) \<Rightarrow> (None, w1)
                | (Inr d, w1) \<Rightarrow> (Some d, w1))))"

definition nothing_to_scan :: "usbs_enum_mode \<Rightarrow> string option \<Rightarrow> usbs_status \<Rightarrow> string" where
  "nothing_to_scan mode wanted enum_status =
     (case wanted of
        Some t \<Rightarrow>
          ''scan: no '' @ (if mode = USBS_ENUM_ALL_VOLUMES then ''volume'' else ''USB device'') @
          '' matching \"'' @ t @ ''\" found, and it is not a directory that can be scanned'' @ NL
      | None \<Rightarrow>
          if \<not> usbs_ok enum_status then
            ''scan: automatic USB device detection is unavailable on this platform ('' @
            usbs_status_string enum_status @ '')'' @ NL @
            ''scan: pass a directory path to scan explicitly, e.g. \"usb-sentinel scan /path/to/volume\"'' @ NL
          else ''scan: no USB device found'' @ NL)"

text \<open>The two reports that follow a scan; a failure is printed and otherwise ignored.\<close>

definition save_json :: "'w cli_env \<Rightarrow> usbs_store \<Rightarrow> string option \<Rightarrow> usbs_scan_result \<Rightarrow> 'w cli \<Rightarrow> 'w cli option" where
  "save_json X store identity result s =
     (case usbs_report_build_json (p_mem (ce_platform X)) (ce_version X) result of
        Inl st \<Rightarrow> Some (put_err (''scan: could not build report: '' @ usbs_status_string st @ NL) s)
      | Inr t \<Rightarrow>
          (case identity of
             None \<Rightarrow> Some s
           | Some i \<Rightarrow>
               (case usbs_store_write_report (ce_fuel X) (ce_platform X) store i (scan_id result) (started_at result) t
                       USBS_STORE_PATH_MAX (cli_world s) of
                  None \<Rightarrow> None
                | Some (Inr saved_path, w1) \<Rightarrow>
                    Some (put (NL @ ''Report saved: '' @ saved_path @ NL) (s\<lparr>cli_world := w1\<rparr>))
                | Some (Inl st, w1) \<Rightarrow>
                    Some (put_err (''scan: could not save report: '' @ usbs_status_string st @ NL) (s\<lparr>cli_world := w1\<rparr>)))))"

definition save_csv :: "'w cli_env \<Rightarrow> usbs_store \<Rightarrow> string option \<Rightarrow> usbs_scan_result \<Rightarrow> 'w cli \<Rightarrow> 'w cli" where
  "save_csv X store identity result s =
     (case usbs_report_build_csv (p_mem (ce_platform X)) result of
        Inl st \<Rightarrow> put_err (''scan: could not build CSV report: '' @ usbs_status_string st @ NL) s
      | Inr t \<Rightarrow>
          (case identity of
             None \<Rightarrow> s
           | Some i \<Rightarrow>
               (case usbs_store_write_report_csv (ce_platform X) store i (scan_id result) (started_at result) t
                       USBS_STORE_PATH_MAX (cli_world s) of
                  (Inr saved_path, w1) \<Rightarrow> put (''CSV saved:    '' @ saved_path @ NL) (s\<lparr>cli_world := w1\<rparr>)
                | (Inl st, w1) \<Rightarrow>
                    put_err (''scan: could not save CSV report: '' @ usbs_status_string st @ NL) (s\<lparr>cli_world := w1\<rparr>))))"

definition scan_and_report ::
  "'w cli_env \<Rightarrow> usbs_store \<Rightarrow> usbs_device \<Rightarrow> 'w cli \<Rightarrow> (usbs_status \<times> 'w cli) option" where
  "scan_and_report X store chosen s =
     (case usbs_scanner_scan (ce_sort X) (ce_fuel X) (ce_platform X) (ce_libc X) chosen store
             (Some (cli_cancel_check X)) None (cli_seeded s) (cli_hash s) (cli_world s) of
        None \<Rightarrow> None
      | Some (result, seeded1, g1, w1) \<Rightarrow>
          (let s1 = put (usbs_report_render_text result) (s\<lparr>cli_seeded := seeded1, cli_hash := g1, cli_world := w1\<rparr>);
               identity = (case usbs_device_identity (scan_device result) USBS_IDENTITY_MAX of
                             (st, i) \<Rightarrow> if usbs_ok st then Some i else None)
           in (case save_json X store identity result s1 of
                 None \<Rightarrow> None
               | Some s2 \<Rightarrow>
                   Some (if scan_status result = USBS_SCAN_COMPLETED then USBS_OK else USBS_ERR_IO,
                         save_csv X store identity result s2))))"

definition usbs_cli_cmd_scan :: "'w cli_env \<Rightarrow> string list \<Rightarrow> 'w cli \<Rightarrow> (usbs_status \<times> 'w cli) option" where
  "usbs_cli_cmd_scan X argv s =
     (case scan_args (drop 2 argv) (USBS_ENUM_USB_ONLY, None, None) of
        Inl complaint \<Rightarrow> Some (USBS_ERR_INVALID_ARG, put_err complaint s)
      | Inr (mode, wanted, signatures_path) \<Rightarrow>
          if mode = USBS_ENUM_ALL_VOLUMES \<and> wanted = None then
            Some (USBS_ERR_INVALID_ARG,
                  put_err (''scan: --all requires a target, e.g. \"usb-sentinel scan C: --all\"'' @ NL) s)
          else
            (case (case signatures_path of
                     None \<Rightarrow> (USBS_OK, p_env (ce_platform X))
                   | Some p \<Rightarrow> usbs_setenv (ce_setenv_ok X) (p_env (ce_platform X)) HASH_MATCH_SIGNATURES_ENV_OVERRIDE (Some p)) of
               (env_status, env) \<Rightarrow>
                 if \<not> usbs_ok env_status
                 then Some (USBS_ERR_INTERNAL, put_err (''scan: could not set the signature file path'' @ NL) s)
                 else
                   (let X1 = X\<lparr>ce_platform := (ce_platform X)\<lparr>p_env := env\<rparr>\<rparr>
                    in (case usbs_device_enumerate (ce_source X1 mode) (cli_world s) of
                          (enum_status, l, w1) \<Rightarrow>
                            (case choose_target (ce_platform X1) mode wanted (v_items l) w1 of
                               (None, w2) \<Rightarrow>
                                 Some (if usbs_ok enum_status then USBS_ERR_NOT_FOUND else enum_status,
                                       put_err (nothing_to_scan mode wanted enum_status) (s\<lparr>cli_world := w2\<rparr>))
                             | (Some chosen, w2) \<Rightarrow>
                                 (case usbs_store_open (ce_platform X1) w2 of
                                    (Inl st, w3) \<Rightarrow>
                                      Some (st, put_err (''scan: could not open the report store: '' @
                                                  usbs_status_string st @ NL) (s\<lparr>cli_world := w3\<rparr>))
                                  | (Inr store, w3) \<Rightarrow>
                                      scan_and_report X1 store chosen
                                        (put (''Scanning... (Ctrl+C to cancel)'' @ NL @ NL)
                                           (s\<lparr>cli_world := snd (ce_install_cancel X1 w3)\<rparr>))))))))"

section \<open>Dispatch\<close>

definition usbs_cli_run :: "'w cli_env \<Rightarrow> string list \<Rightarrow> 'w cli \<Rightarrow> (usbs_status \<times> 'w cli) option" where
  "usbs_cli_run X argv s =
     (let usage = usbs_cli_print_usage (p_host (ce_platform X)) (ce_banner X)
      in if length argv < 2 then Some (USBS_OK, put usage s)
         else
           (let command = argv ! 1
            in if command = ''devices'' then Some (usbs_cli_cmd_devices X argv s)
               else if command = ''scan'' then usbs_cli_cmd_scan X argv s
               else if command = ''version'' then Some (USBS_OK, put (ce_banner X @ NL) s)
               else if command = ''help'' \<or> command = ''--help'' \<or> command = ''-h'' then Some (USBS_OK, put usage s)
               else Some (USBS_ERR_INVALID_ARG, put_err usage s)))"

text \<open>The exit code of \<open>main\<close> (src/app/main.c).\<close>

definition cli_main :: "'w cli_env \<Rightarrow> string list \<Rightarrow> 'w cli \<Rightarrow> (nat \<times> 'w cli) option" where
  "cli_main X argv s = map_option (\<lambda>(st, s1). (if usbs_ok st then 0 else 1, s1)) (usbs_cli_run X argv s)"

end
