(* ===== verification/ReadOnly.thy ===== *)
theory ReadOnly
  imports Worker Disk
begin

text \<open>
  A scan is read-only. Two interfaces state it once for every loop of the program: \<open>keeps_reads\<close> is a
  property of the world that no reading operation of the platform disturbs, and \<open>keeps_writes\<close> adds a
  set of paths on which the writing operations may act. What the scanner and the store do to such a
  world is proved from those laws, and both are interpreted on the machine of Disk.
\<close>

section \<open>Reading\<close>

locale keeps_reads =
  fixes P :: "'w platform" and J :: "'w \<Rightarrow> bool"
  assumes keep_dir_open: "dir_open P p w = (rd, w') \<Longrightarrow> J w \<Longrightarrow> J w'"
    and keep_dir_next: "dir_next P i w = (re, w') \<Longrightarrow> J w \<Longrightarrow> J w'"
    and keep_dir_close: "J w \<Longrightarrow> J (dir_close P i w)"
    and keep_open: "file_open_read P p w = (rd, w') \<Longrightarrow> J w \<Longrightarrow> J w'"
    and keep_read: "file_read P i n w = (rs, w') \<Longrightarrow> J w \<Longrightarrow> J w'"
    and keep_close: "J w \<Longrightarrow> J (file_close P i w)"
    and keep_probe: "probe_capabilities P d w = (st, caps, w') \<Longrightarrow> J w \<Longrightarrow> J w'"
begin

lemmas keep = keep_dir_open keep_dir_next keep_open keep_read keep_probe

declare keep_dir_close [intro!] and keep_close [intro!]

lemma keep_find_autorun_loop: "find_autorun_loop fuel P it cap w = Some (r, w') \<Longrightarrow> J w \<Longrightarrow> J w'"
  by (induction fuel arbitrary: w r w')
    (auto split: prod.splits sum.splits if_splits dest: keep)

lemma keep_find_autorun_name: "find_autorun_name fuel P vol cap w = Some (r, w') \<Longrightarrow> J w \<Longrightarrow> J w'"
  unfolding find_autorun_name_def
  by (auto split: prod.splits sum.splits dest: keep keep_find_autorun_loop)

lemma keep_autorun_read_loop: "autorun_read_loop fuel P fh buf w = Some (r, w') \<Longrightarrow> J w \<Longrightarrow> J w'"
  by (induction fuel arbitrary: buf w r w')
    (auto split: prod.splits sum.splits if_splits dest: keep)

lemma keep_autorun_read: "the (autorun_read_loop (Suc AUTORUN_MAX_READ) P fh [] w) = (r, w') \<Longrightarrow> J w \<Longrightarrow> J w'"
  using autorun_read_loop_total [of "Suc AUTORUN_MAX_READ" "[]" P fh w] keep_autorun_read_loop by fastforce

lemma keep_detect_autorun: "detect_autorun fuel P ctx r0 w = Some (st, r, w') \<Longrightarrow> J w \<Longrightarrow> J w'"
  unfolding detect_autorun_def Let_def
  by (auto split: option.splits prod.splits sum.splits if_splits simp del: autorun_read_loop.simps
      dest: keep keep_find_autorun_name keep_autorun_read)

lemma keep_read_loop: "read_loop fuel P fh buf cap w = Some (r, w') \<Longrightarrow> J w \<Longrightarrow> J w'"
  by (induction fuel arbitrary: buf w cap r w')
    (auto simp: Let_def split: prod.splits sum.splits if_splits dest: keep)

lemma keep_lnk_read_loop: "lnk_read_loop fuel P fh buf hash w = Some (c, h, w') \<Longrightarrow> J w \<Longrightarrow> J w'"
  by (induction fuel arbitrary: buf hash w c h w')
    (auto split: prod.splits sum.splits if_splits dest: keep)

lemma keep_hash_file_loop: "hash_file_loop fuel P fh c w = Some (c', w') \<Longrightarrow> J w \<Longrightarrow> J w'"
  by (induction fuel arbitrary: c w c' w')
    (auto split: prod.splits sum.splits if_splits dest: keep)

lemma keep_last_scan_loop: "last_scan_loop fuel P it acc w = Some (st, acc', w') \<Longrightarrow> J w \<Longrightarrow> J w'"
proof (induction fuel arbitrary: acc w)
  case (Suc fuel)
  obtain re w1 where n: "dir_next P it w = (re, w1)" by fastforce
  with Suc.prems have "J w1" by (blast dest: keep)
  with Suc n show ?case by (cases re) auto
qed simp

lemma keep_read_whole_loop: "read_whole_loop fuel P fh buf cap w = Some (r, w') \<Longrightarrow> J w \<Longrightarrow> J w'"
  by (induction fuel arbitrary: buf w cap r w')
    (auto simp: Let_def split: prod.splits sum.splits if_splits dest: keep)

lemma keep_read_capped:
  "the (read_loop (Suc USBS_SIGNATURE_FILE_MAX_READ) P fh [] 0 w) = (r, w') \<Longrightarrow> J w \<Longrightarrow> J w'"
proof -
  assume "the (read_loop (Suc USBS_SIGNATURE_FILE_MAX_READ) P fh [] 0 w) = (r, w')" and "J w"
  moreover obtain x where "read_loop (Suc USBS_SIGNATURE_FILE_MAX_READ) P fh [] 0 w = Some x"
    using read_loop_total [of "Suc USBS_SIGNATURE_FILE_MAX_READ" "[]" P fh 0 w] by auto
  ultimately show "J w'" using keep_read_loop by (metis option.sel)
qed

lemma keep_read_whole_file_capped: "read_whole_file_capped P path w = (r, w') \<Longrightarrow> J w \<Longrightarrow> J w'"
  unfolding read_whole_file_capped_def
  by (auto split: prod.splits sum.splits dest: keep keep_read_capped simp del: read_loop.simps)

lemma keep_signature_load: "usbs_signature_list_load srt P l path w = (st, l', w') \<Longrightarrow> J w \<Longrightarrow> J w'"
  unfolding usbs_signature_list_load_def Let_def
  by (auto split: prod.splits sum.splits dest: keep_read_whole_file_capped)

lemma keep_ensure_signatures_loaded: "ensure_signatures_loaded srt P g w = (g', w') \<Longrightarrow> J w \<Longrightarrow> J w'"
  unfolding ensure_signatures_loaded_def Let_def
  by (auto split: prod.splits option.splits if_splits dest: keep_signature_load)

lemma keep_hash_match_lookup: "usbs_hash_match_lookup srt P g w sz hex = (r, g', w') \<Longrightarrow> J w \<Longrightarrow> J w'"
  unfolding usbs_hash_match_lookup_def
  by (auto split: prod.splits if_splits dest: keep_ensure_signatures_loaded)

lemma keep_set_disclaimer: "set_disclaimer srt P r g w = (r', g', w') \<Longrightarrow> J w \<Longrightarrow> J w'"
  unfolding set_disclaimer_def by (auto split: prod.splits dest: keep_ensure_signatures_loaded)

lemma keep_hash_match:
  "hash_match_on_file srt fuel P dctx path entry r0 g w = Some (st, r, g', w') \<Longrightarrow> J w \<Longrightarrow> J w'"
  unfolding hash_match_on_file_def Let_def
  by (auto split: option.splits prod.splits sum.splits if_splits
      dest: keep keep_set_disclaimer keep_hash_file_loop keep_hash_match_lookup)

lemma keep_lnk_read: "the (lnk_read_loop (Suc LNK_MAX_READ) P fh [] hash w) = (c, h, w') \<Longrightarrow> J w \<Longrightarrow> J w'"
  using lnk_read_loop_total [of "Suc LNK_MAX_READ" "[]" P fh hash w] keep_lnk_read_loop
  by (fastforce simp del: lnk_read_loop.simps)

lemma keep_lnk: "lnk_on_file P dctx path entry r0 w = (st, r, w') \<Longrightarrow> J w \<Longrightarrow> J w'"
  unfolding lnk_on_file_def Let_def
  by (auto split: option.splits prod.splits sum.splits if_splits simp del: lnk_read_loop.simps dest: keep keep_lnk_read)

section \<open>Walking\<close>

definition slot_keeps :: "'w on_file_slot \<Rightarrow> bool" where
  "slot_keeps s \<longleftrightarrow>
     (\<forall>dctx path entry r0 g w st r g' w'. the (det_on_file (slot_detector s)) dctx path entry r0 g w = Some (st, r, g', w') \<longrightarrow>
        J w \<longrightarrow> J w')"

lemma keep_dispatch:
  "dispatch dctx path entry ss g w = Some (ss', g', w') \<Longrightarrow> \<forall>s\<in>set ss. slot_keeps s \<Longrightarrow> J w \<Longrightarrow>
     J w' \<and> (\<forall>s\<in>set ss'. slot_keeps s)"
proof (induction ss arbitrary: g w ss')
  case (Cons s ss)
  from Cons.prems(1) obtain st r g1 w1 ss1 where
    c: "the (det_on_file (slot_detector s)) (Some dctx) path entry (slot_result s) g w = Some (st, r, g1, w1)"
    and d: "dispatch dctx path entry ss g1 w1 = Some (ss1, g', w')" and s': "ss' = s\<lparr>slot_result := r\<rparr> # ss1"
    by (auto split: option.splits)
  have "J w1" using c Cons.prems(2,3) unfolding slot_keeps_def by (metis list.set_intros(1))
  with Cons.IH [OF d] Cons.prems(2) have "J w' \<and> (\<forall>s\<in>set ss1. slot_keeps s)" by simp
  moreover have "slot_keeps (s\<lparr>slot_result := r\<rparr>)" using Cons.prems(2) by (simp add: slot_keeps_def)
  ultimately show ?case by (simp add: s')
qed simp

text \<open>What the walk's state may hold: callbacks and detectors that keep the property.\<close>

definition state_keeps :: "'w traverse_state \<Rightarrow> bool" where
  "state_keeps ts \<longleftrightarrow>
     (\<forall>s\<in>set (ts_slots ts). slot_keeps s) \<and>
     (\<forall>f w. ts_cancel_check ts = Some f \<longrightarrow> J w \<longrightarrow> J (snd (f w))) \<and>
     (\<forall>f p w. ts_on_progress ts = Some f \<longrightarrow> J w \<longrightarrow> J (f p w))"

lemma keep_poll: "poll_cancel ts w = (c, w') \<Longrightarrow> state_keeps ts \<Longrightarrow> J w \<Longrightarrow> J w'"
  unfolding poll_cancel_def state_keeps_def by (auto split: option.splits)

lemma keep_visit_file:
  assumes "visit_file path entry ts w = Some (ts', w')" and "state_keeps ts" and "J w"
  shows "J w' \<and> state_keeps ts'"
proof -
  let ?ts1 = "ts\<lparr>ts_file_count := ts_file_count ts + 1, ts_byte_count := ts_byte_count ts + size_bytes entry\<rparr>"
  let ?w1 = "case ts_on_progress ?ts1 of None \<Rightarrow> w
    | Some f \<Rightarrow> f \<lparr>files_scanned = ts_file_count ?ts1, bytes_scanned = ts_byte_count ?ts1,
                   progress_paths_skipped = ts_paths_skipped ?ts1\<rparr> w"
  obtain ss g where d: "dispatch (ts_detect_ctx ?ts1) path entry (ts_slots ?ts1) (ts_hash ?ts1) ?w1 = Some (ss, g, w')"
    and ts': "ts' = ?ts1\<lparr>ts_slots := ss, ts_hash := g\<rparr>"
    using assms(1) unfolding visit_file_def Let_def by auto
  have "J ?w1" using assms(2,3) by (auto simp: state_keeps_def split: option.split)
  with keep_dispatch [OF d] assms(2) have "J w' \<and> (\<forall>s\<in>set ss. slot_keeps s)" by (simp add: state_keeps_def)
  with assms(2) show ?thesis by (simp add: ts' state_keeps_def)
qed

lemma keep_classify:
  "classify_path_failure P ts w = (ts', w') \<Longrightarrow> state_keeps ts \<Longrightarrow> J w \<Longrightarrow> J w' \<and> state_keeps ts'"
  unfolding classify_path_failure_def root_still_reachable_def
  by (auto split: prod.splits sum.splits if_splits dest: keep simp: state_keeps_def)

lemma state_keeps_flags [simp]:
  "state_keeps (ts\<lparr>ts_cancelled := c\<rparr>) = state_keeps ts" "state_keeps (ts\<lparr>ts_paths_excluded := n\<rparr>) = state_keeps ts"
  by (simp_all add: state_keeps_def)

lemma keep_walk:
  "(walk_dir fuel P dir depth ts w = Some (st, ts', w') \<longrightarrow> state_keeps ts \<longrightarrow> J w \<longrightarrow> J w' \<and> state_keeps ts') \<and>
   (walk_loop fuel P it dir depth ts w = Some (ret, ts', w') \<longrightarrow> state_keeps ts \<longrightarrow> J w \<longrightarrow> J w' \<and> state_keeps ts')"
proof (induction fuel arbitrary: it dir depth ts w st ret ts' w')
  case (Suc fuel)
  note dir = Suc.IH [THEN conjunct1, rule_format] and loop = Suc.IH [THEN conjunct2, rule_format]
  have "J w' \<and> state_keeps ts'"
    if "walk_dir (Suc fuel) P dir depth ts w = Some (st, ts', w')" "state_keeps ts" "J w"
    using that by (auto split: if_splits prod.splits sum.splits option.splits dest: keep keep_classify loop)
  moreover have "J w' \<and> state_keeps ts'"
    if run: "walk_loop (Suc fuel) P it dir depth ts w = Some (ret, ts', w')" and s: "state_keeps ts" and w: "J w"
  proof -
    obtain c w1 where poll: "poll_cancel ts w = (c, w1)" by fastforce
    have w1: "J w1" using keep_poll [OF poll s w] .
    obtain re w2 where nxt: "dir_next P it w1 = (re, w2)" by fastforce
    have w2: "J w2" using keep_dir_next [OF nxt w1] .
    show ?thesis
    proof (cases "c \<or> (\<exists>e. re = Inl e)")
      case True
      with run poll nxt s w1 w2 show ?thesis
        by (auto split: if_splits prod.splits dest: keep_classify)
    next
      case False
      then obtain entry where e: "re = Inr entry" "\<not> c" by (cases re) auto
      obtain jst child where j: "usbs_path_join (p_host P) CHILD_PATH_MAX dir (entry_name entry) = (jst, child)" by fastforce
      show ?thesis
      proof (cases "is_reparse_point entry \<or> \<not> usbs_ok jst \<or> is_directory entry \<and> is_excluded ts child")
        case True
        with run poll nxt e j s w2 loop show ?thesis by (auto split: if_splits)
      next
        case go: False
        show ?thesis
        proof (cases "is_directory entry")
          case True
          obtain st2 ts1 w3 where sub: "walk_dir fuel P child (depth + 1) ts w2 = Some (st2, ts1, w3)"
            using run poll nxt e j go True by (auto split: option.splits)
          have "J w3 \<and> state_keeps ts1" using dir [OF sub s w2] .
          with run poll nxt e j go True sub loop show ?thesis by (auto split: if_splits)
        next
          case False
          obtain ts1 w3 where sub: "visit_file child entry ts w2 = Some (ts1, w3)"
            using run poll nxt e j go False by (auto split: option.splits)
          have "J w3 \<and> state_keeps ts1" using keep_visit_file [OF sub s w2] .
          with run poll nxt e j go False sub loop show ?thesis by auto
        qed
      qed
    qed
  qed
  ultimately show ?case by blast
qed simp

section \<open>A scan\<close>

definition libc_keeps_it :: "'w libc \<Rightarrow> bool" where
  "libc_keeps_it C \<longleftrightarrow> (\<forall>w. J w \<longrightarrow> J (c_srand_time C w) \<and> J (snd (c_rand C w)) \<and> J (snd (c_utc C w)))"

lemma keep_rand: "c_rand C w = (r, w') \<Longrightarrow> libc_keeps_it C \<Longrightarrow> J w \<Longrightarrow> J w'"
  unfolding libc_keeps_it_def by (metis snd_conv)

lemma keep_utc: "c_utc C w = (r, w') \<Longrightarrow> libc_keeps_it C \<Longrightarrow> J w \<Longrightarrow> J w'"
  unfolding libc_keeps_it_def by (metis snd_conv)

lemma keep_scan_id:
  assumes "generate_scan_id C cap seeded w = (i, b, w')" and C: "libc_keeps_it C" and "J w"
  shows "J w'"
proof -
  let ?w0 = "if seeded then w else c_srand_time C w"
  have w0: "J ?w0" using C \<open>J w\<close> by (simp add: libc_keeps_it_def)
  obtain r1 w1 r2 w2 r3 w3 r4 w4 where r: "c_rand C ?w0 = (r1, w1)" "c_rand C w1 = (r2, w2)"
    "c_rand C w2 = (r3, w3)" "c_rand C w3 = (r4, w4)" by (metis surj_pair)
  have "w' = w4" using assms(1) by (simp add: generate_scan_id_def Let_def r del: if_split)
  moreover have "J w4" using keep_rand [OF r(4) C keep_rand [OF r(3) C keep_rand [OF r(2) C keep_rand [OF r(1) C w0]]]] .
  ultimately show ?thesis by simp
qed

lemma keep_now:
  assumes "now_utc_iso8601 C cap w = (t, w')" and C: "libc_keeps_it C" and "J w"
  shows "J w'"
proof -
  obtain r w1 where r: "c_utc C w = (r, w1)" by fastforce
  then have "w' = w1" using assms(1) by (auto simp: now_utc_iso8601_def split: option.splits if_splits)
  with keep_utc [OF r C \<open>J w\<close>] show ?thesis by simp
qed

lemma keep_last_scan:
  "usbs_store_last_scan fuel P store identity w = Some (st, info, w') \<Longrightarrow> J w \<Longrightarrow> J w'"
  unfolding usbs_store_last_scan_def Let_def
  by (auto split: sum.splits prod.splits if_splits option.splits dest: keep keep_last_scan_loop)

lemma keep_whole_checks:
  "run_whole_check_detectors mem ds ctx cs w = Some (cs', w') \<Longrightarrow>
     \<forall>d\<in>set ds. \<forall>run ctx r0 w st r w'. det_run d = Some run \<longrightarrow> run ctx r0 w = Some (st, r, w') \<longrightarrow> J w \<longrightarrow> J w' \<Longrightarrow>
     J w \<Longrightarrow> J w'"
proof (induction ds arbitrary: cs w)
  case (Cons d ds)
  show ?case
  proof (cases "det_run d")
    case None
    with Cons show ?thesis by auto
  next
    case (Some run)
    with Cons.prems(1) obtain st r w1 where r: "run ctx (usbs_check_result_init (det_id d)) w = Some (st, r, w1)"
      and go: "run_whole_check_detectors mem ds ctx (snd (usbs_check_list_push mem cs r)) w1 = Some (cs', w')"
      by (auto split: option.splits)
    have "J w1" using Cons.prems(2,3) Some r by (metis list.set_intros(1))
    with Cons.IH [OF go] Cons.prems(2) show ?thesis by simp
  qed
qed simp

lemma registry_keeps:
  "\<forall>d\<in>set (k_detectors srt fuel P). \<forall>run ctx r0 w st r w'. det_run d = Some run \<longrightarrow> run ctx r0 w = Some (st, r, w') \<longrightarrow> J w \<longrightarrow> J w'"
  by (auto simp: k_detectors_def usbs_detector_autorun_def usbs_detector_suspicious_filename_def
      usbs_detector_lnk_inspect_def usbs_detector_hash_match_def dest: keep_detect_autorun)

lemma slots_keep:
  assumes "prepare_on_file_slots mem (k_detectors srt fuel P) = Inr ss" and "s \<in> set ss"
  shows "slot_keeps s"
proof -
  have "suspicious_on_file P dctx path entry r0 g w = Some (st, r, g', w') \<Longrightarrow> J w \<Longrightarrow> J w'"
    for dctx path entry r0 g w st r g' w'
    by (auto simp: suspicious_on_file_def split: prod.splits)
  moreover have "lnk_inspect_on_file P dctx path entry r0 g w = Some (st, r, g', w') \<Longrightarrow> J w \<Longrightarrow> J w'"
    for dctx path entry r0 g w st r g' w'
    by (auto simp: lnk_inspect_on_file_def split: prod.splits dest: keep_lnk)
  ultimately show ?thesis
    using assms keep_hash_match
    by (auto simp: prepare_on_file_slots_def k_detectors_def usbs_detector_autorun_def usbs_detector_suspicious_filename_def
        usbs_detector_lnk_inspect_def usbs_detector_hash_match_def slot_keeps_def split: if_splits)
qed

lemma keep_finish:
  "finish_checks mem (k_detectors srt fuel P) walk_status ts w = Some (cs, w') \<Longrightarrow> J w \<Longrightarrow> J w'"
  unfolding finish_checks_def Let_def
  by (auto split: if_splits dest: keep_whole_checks [OF _ registry_keeps])

lemma keep_scan:
  assumes "usbs_scanner_scan srt fuel P C device store cancel_check on_progress seeded g w = Some (res, seeded', g', w')"
    and C: "libc_keeps_it C" and "J w"
    and cancel: "\<And>f w. cancel_check = Some f \<Longrightarrow> J w \<Longrightarrow> J (snd (f w))"
    and progress: "\<And>f p w. on_progress = Some f \<Longrightarrow> J w \<Longrightarrow> J (f p w)"
  shows "J w'"
proof -
  obtain sid s1 w1 where id: "generate_scan_id C USBS_SCAN_ID_MAX seeded w = (sid, s1, w1)"
    by (cases "generate_scan_id C USBS_SCAN_ID_MAX seeded w") auto
  obtain started w2 where st: "now_utc_iso8601 C USBS_TIMESTAMP_MAX w1 = (started, w2)" by fastforce
  obtain ps caps w3 where pr: "probe_capabilities P device w2 = (ps, caps, w3)"
    by (cases "probe_capabilities P device w2") auto
  have w3: "J w3" using keep_probe [OF pr keep_now [OF st C keep_scan_id [OF id C \<open>J w\<close>]]] .
  obtain ist identity where idn: "usbs_device_identity device USBS_IDENTITY_MAX = (ist, identity)" by fastforce
  let ?seen = "if usbs_ok ist then map_option (\<lambda>(_, _, w'). w') (usbs_store_last_scan fuel P store identity w3) else Some w3"
  let ?dctx = "\<lparr>dc_device = Some device, dc_volume_path = Some (volume_path device), dc_capabilities = caps\<rparr>"
  let ?slots = "case prepare_on_file_slots (p_mem P) (k_detectors srt fuel P) of Inl _ \<Rightarrow> [] | Inr ss \<Rightarrow> ss"
  let ?ts = "initial_traverse_state cancel_check on_progress device ?dctx ?slots g"
  from assms(1) obtain w4 walk_status ts w5 cs w6 finished where
    seen: "?seen = Some w4" and walk: "walk_dir fuel P (volume_path device) 0 ?ts w4 = Some (walk_status, ts, w5)"
    and fin: "finish_checks (p_mem P) (k_detectors srt fuel P) walk_status ts w5 = Some (cs, w6)"
    and now: "now_utc_iso8601 C USBS_TIMESTAMP_MAX w6 = (finished, w')"
    unfolding usbs_scanner_scan_def Let_def id st pr idn prod.case
    by (auto split: option.splits prod.splits)
  have "J w4" using seen w3 by (auto split: if_splits dest: keep_last_scan)
  moreover have "state_keeps ?ts"
    using cancel progress
    by (auto simp: state_keeps_def initial_traverse_state_def intro: slots_keep [OF sym] split: sum.splits)
  ultimately have "J w5" using keep_walk walk by blast
  then show ?thesis using keep_now [OF now C keep_finish [OF fin]] by blast
qed

end

section \<open>Writing\<close>

locale keeps_writes = keeps_reads +
  fixes own :: "string \<Rightarrow> bool"
  assumes keep_write: "write_file P p c w = (st, w') \<Longrightarrow> own p \<Longrightarrow> J w \<Longrightarrow> J w'"
    and keep_replace: "replace_file P dst src w = (st, w') \<Longrightarrow> own dst \<Longrightarrow> own src \<Longrightarrow> J w \<Longrightarrow> J w'"
    and keep_delete: "delete_file P p w = (st, w') \<Longrightarrow> own p \<Longrightarrow> J w \<Longrightarrow> J w'"
    and keep_make_dirs: "make_dirs P p w = (st, w') \<Longrightarrow> J w \<Longrightarrow> J w'"
    and own_longer: "own p \<Longrightarrow> own (p @ q)"
begin

lemma own_join: "usbs_path_join h cap base leaf = (USBS_OK, p) \<Longrightarrow> own base \<Longrightarrow> own p"
  using own_longer by (auto simp: usbs_path_join_ok joined_path_def)

lemma own_temp: "own p \<Longrightarrow> length p < n \<Longrightarrow> own (snprintf_buf n (p @ q))"
  using own_longer [of p "take (n - 1 - length p) q"] by (simp add: snprintf_buf_def)

lemma keep_delete_snd: "own p \<Longrightarrow> J w \<Longrightarrow> J (snd (delete_file P p w))"
  using keep_delete by (metis prod.collapse)

lemma keep_store_open:
  "usbs_store_open P w = (r, w') \<Longrightarrow> J w \<Longrightarrow> J w'"
  unfolding usbs_store_open_def usbs_store_open_at_def Let_def
  by (auto split: prod.splits if_splits dest: keep_make_dirs)

lemma own_device_dir: "device_dir h store safe cap = (USBS_OK, p) \<Longrightarrow> own (store_root store) \<Longrightarrow> own p"
  unfolding device_dir_def scans_root_def by (auto split: prod.splits if_splits dest!: own_join simp: usbs_ok_def)

lemma keep_write_report_file:
  assumes "write_report_file P store identity i stamp ext c cap w = (r, w')"
    and own: "own (store_root store)" and "J w"
  shows "J w'"
proof -
  have tmp: "own (snprintf_buf USBS_STORE_PATH_MAX (p @ ''.tmp'')) \<and> own p"
    if "device_dir h store safe USBS_STORE_PATH_MAX = (USBS_OK, dir)"
      "usbs_path_join h USBS_STORE_PATH_MAX dir leaf = (USBS_OK, p)" for h safe dir leaf p
  proof -
    have "own p" using own_join [OF that(2)] own_device_dir [OF that(1) own] by blast
    moreover have "length p < USBS_STORE_PATH_MAX" using that(2) usbs_path_join_ok by blast
    ultimately show ?thesis using own_temp by blast
  qed
  show ?thesis
    using assms(1,3) unfolding write_report_file_def Let_def
    by (auto split: if_splits sum.splits prod.splits simp: usbs_ok_def
        dest: keep_make_dirs keep_write keep_replace tmp intro!: keep_delete_snd)
qed

lemma keep_read_whole_file: "read_whole_file fuel P path w = Some (r, w') \<Longrightarrow> J w \<Longrightarrow> J w'"
  unfolding read_whole_file_def by (auto split: prod.splits sum.splits dest: keep keep_read_whole_loop)

lemma keep_replace_index:
  assumes "own path" and "J w"
  shows "J (replace_index P path t w)"
proof -
  obtain st w1 where wr: "write_file P (path @ ''.tmp'') t w = (st, w1)" by fastforce
  obtain st2 w2 where rp: "replace_file P path (path @ ''.tmp'') w1 = (st2, w2)" by fastforce
  have tmp: "own (path @ ''.tmp'')" using assms(1) by (rule own_longer)
  have w1: "J w1" using keep_write [OF wr tmp assms(2)] .
  have w2: "J w2" using keep_replace [OF rp assms(1) tmp w1] .
  have "J (snd (delete_file P (path @ ''.tmp'') w1))" "J (snd (delete_file P (path @ ''.tmp'') w2))"
    using keep_delete_snd tmp w1 w2 by blast+
  with w2 show ?thesis using assms(2) by (simp add: replace_index_def Let_def wr rp)
qed

lemma keep_refresh_index:
  assumes "refresh_index fuel P store identity w = Some w'" and own: "own (store_root store)" and "J w"
  shows "J w'"
proof -
  have path: "own p" if "index_path h store cap = (USBS_OK, p)" for h cap p
    using that own_join own unfolding index_path_def by blast
  show ?thesis
    using assms(1,3) unfolding refresh_index_def Let_def
    by (auto split: sum.splits prod.splits if_splits option.splits simp: usbs_ok_def
        dest: keep_last_scan keep_read_whole_file path intro!: keep_replace_index)
qed

lemma keep_write_report:
  assumes "usbs_store_write_report fuel P store identity i stamp t cap w = Some (r, w')"
    and "own (store_root store)" and "J w"
  shows "J w'"
  using assms unfolding usbs_store_write_report_def
  by (auto split: prod.splits sum.splits dest: keep_write_report_file keep_refresh_index)

lemma keep_write_report_csv:
  "usbs_store_write_report_csv P store identity i stamp t cap w = (r, w') \<Longrightarrow> own (store_root store) \<Longrightarrow> J w \<Longrightarrow> J w'"
  unfolding usbs_store_write_report_csv_def by (rule keep_write_report_file)

end

section \<open>Machines\<close>

text \<open>
  A machine is a platform for every environment, with the contents of its files: a file store whose
  capability probe changes no file either. Both interfaces above follow from that, for the files as
  they are and for the files outside a directory.
\<close>

definition outside :: "string \<Rightarrow> (string \<Rightarrow> string option) \<Rightarrow> (string \<Rightarrow> string option) \<Rightarrow> bool" where
  "outside root F f \<longleftrightarrow> (\<forall>q. \<not> prefix root q \<longrightarrow> f q = F q)"

locale machine =
  fixes M :: "environment \<Rightarrow> 'w platform" and files :: "'w \<Rightarrow> string \<Rightarrow> string option"
  assumes is_store: "file_store (M env) files"
    and probe_same: "probe_capabilities (M env) d w = (st, caps, w') \<Longrightarrow> files w' = files w"
    and env_only: "(M env)\<lparr>p_env := env'\<rparr> = M env'"
    and env_of [simp]: "p_env (M env) = env"
    and host_of: "p_host (M env) = p_host (M env')"

sublocale machine \<subseteq> store: file_store "M env" files for env
  by (rule is_store)

sublocale machine \<subseteq> still: keeps_writes "M env" "\<lambda>w. files w = F" "\<lambda>_. False" for env F
  by unfold_locales
    (simp_all add: store.dir_open_same store.dir_next_same store.dir_close_same store.file_open_same
      store.file_read_same store.file_close_same store.make_dirs_same probe_same)

sublocale machine \<subseteq> within: keeps_writes "M env" "\<lambda>w. outside root F (files w)" "prefix root" for env root F
proof
  fix p c w st w' dst src q
  show "outside root F (files w')" if "write_file (M env) p c w = (st, w')" "prefix root p" "outside root F (files w)"
    using that store.write_other [OF that(1)] unfolding outside_def by metis
  show "outside root F (files w')"
    if "replace_file (M env) dst src w = (st, w')" "prefix root dst" "prefix root src" "outside root F (files w)"
    using that store.replace_other [OF that(1)] unfolding outside_def by metis
  show "outside root F (files w')" if "delete_file (M env) p w = (st, w')" "prefix root p" "outside root F (files w)"
    using that store.delete_other [OF that(1)] unfolding outside_def by metis
  show "prefix root (p @ q)" if "prefix root p"
    using that by (rule prefix_prefix)
qed (simp_all add: store.dir_open_same store.dir_next_same store.dir_close_same store.file_open_same
      store.file_read_same store.file_close_same store.make_dirs_same probe_same)

interpretation disk_machine: machine "disk_platform h" d_files
  by unfold_locales
    (auto simp: disk_platform_def intro: disk_store.write_ok disk_store.write_other disk_store.replace_ok
      disk_store.replace_fail disk_store.replace_other disk_store.delete_other disk_store.make_dirs_same
      disk_store.dir_open_same disk_store.dir_next_same disk_store.dir_close_same disk_store.file_open_same
      disk_store.file_read_same disk_store.file_close_same)

end
