(* ===== verification/CliFacts.thy ===== *)
theory CliFacts
  imports Cli ReadOnly ReportJson
begin

text \<open>
  The scan command on a machine: whatever it is asked to scan and whatever fails, files change only
  under the report store's directory. Proved for every machine of ReadOnly, and interpreted there.
\<close>

section \<open>The parts of the process that are not the platform\<close>

text \<open>The clock, the enumeration sources and the cancellation handler leave the files alone.\<close>

definition libc_leaves_files :: "('w \<Rightarrow> string \<Rightarrow> string option) \<Rightarrow> 'w libc \<Rightarrow> bool" where
  "libc_leaves_files files C \<longleftrightarrow>
     (\<forall>w. files (c_srand_time C w) = files w \<and> files (snd (c_rand C w)) = files w \<and> files (snd (c_utc C w)) = files w)"

definition leaves_files :: "('w \<Rightarrow> string \<Rightarrow> string option) \<Rightarrow> 'w cli_env \<Rightarrow> bool" where
  "leaves_files files X \<longleftrightarrow>
     libc_leaves_files files (ce_libc X) \<and>
     (\<forall>mode f w l. ce_source X mode = Some f \<longrightarrow> files (snd (snd (f w l))) = files w) \<and>
     (\<forall>w. files (snd (ce_install_cancel X w)) = files w \<and> files (snd (ce_cancel_requested X w)) = files w)"

lemma leaves_files_platform [simp]: "leaves_files files (X\<lparr>ce_platform := P\<rparr>) = leaves_files files X"
  by (simp add: leaves_files_def)

lemma enumerate_files:
  "usbs_device_enumerate (ce_source X mode) w = (st, l, w') \<Longrightarrow> leaves_files files X \<Longrightarrow> files w' = files w"
  unfolding usbs_device_enumerate_def leaves_files_def
  by (auto split: option.splits prod.splits if_splits) (metis snd_conv)+

lemma store_open_root:
  "usbs_store_open P w = (Inr store, w') \<Longrightarrow>
     \<exists>root. usbs_user_data_dir (p_host P) (p_env P) USBS_STORE_PATH_MAX = (USBS_OK, root) \<and>
       store_root store = snprintf_buf USBS_STORE_PATH_MAX root"
  unfolding usbs_store_open_def usbs_store_open_at_def Let_def
  by (auto split: prod.splits if_splits simp: usbs_ok_def)

lemma data_dir_ignores_signatures:
  "usbs_setenv ok env HASH_MATCH_SIGNATURES_ENV_OVERRIDE v = (st, env') \<Longrightarrow>
     usbs_user_data_dir h env' cap = usbs_user_data_dir h env cap"
proof -
  assume set: "usbs_setenv ok env HASH_MATCH_SIGNATURES_ENV_OVERRIDE v = (st, env')"
  have "env' n = env n" if "n \<noteq> HASH_MATCH_SIGNATURES_ENV_OVERRIDE" for n
    using set that by (auto simp: usbs_setenv_def Let_def split: if_splits)
  then have "usbs_getenv env' n c = usbs_getenv env n c" if "n \<noteq> HASH_MATCH_SIGNATURES_ENV_OVERRIDE" for n c
    using that by (simp add: usbs_getenv_def)
  then have same: "usbs_getenv env' ''HOME'' 512 = usbs_getenv env ''HOME'' 512"
    "usbs_getenv env' ''LOCALAPPDATA'' 512 = usbs_getenv env ''LOCALAPPDATA'' 512"
    "usbs_getenv env' ''XDG_DATA_HOME'' 512 = usbs_getenv env ''XDG_DATA_HOME'' 512"
    by (simp_all add: HASH_MATCH_SIGNATURES_ENV_OVERRIDE_def)
  show ?thesis unfolding usbs_user_data_dir_def same by (rule refl)
qed

section \<open>On any machine\<close>

context machine begin

lemma path_device_files:
  "usbs_cli_build_path_device (M env) t w = (r, w') \<Longrightarrow> files w' = files w"
  unfolding usbs_cli_build_path_device_def
  by (auto split: prod.splits sum.splits if_splits simp: store.dir_close_same dest: store.dir_open_same)

lemma choose_target_files:
  "choose_target (M env) mode t ds w = (r, w') \<Longrightarrow> files w' = files w"
  unfolding choose_target_def
  by (auto split: option.splits prod.splits sum.splits dest: path_device_files)

lemma store_open_files: "usbs_store_open (M env) w = (r, w') \<Longrightarrow> files w' = files w"
  using still.keep_store_open [where F = "files w", OF _ refl] by simp

lemma save_json_outside:
  assumes "save_json X store i result s = Some s'" and "ce_platform X = M env"
    and "prefix root (store_root store)" and "outside root F (files (cli_world s))"
  shows "outside root F (files (cli_world s'))"
  using assms unfolding save_json_def put_def put_err_def
  by (auto split: sum.splits option.splits prod.splits dest: within.keep_write_report)

lemma save_csv_outside:
  assumes "ce_platform X = M env"
    and "prefix root (store_root store)" and "outside root F (files (cli_world s))"
  shows "outside root F (files (cli_world (save_csv X store i result s)))"
  using assms unfolding save_csv_def put_def put_err_def
  by (auto split: sum.splits option.splits prod.splits dest: within.keep_write_report_csv)

lemma scan_and_report_outside:
  assumes "scan_and_report X store chosen s = Some (st, s')" and P: "ce_platform X = M env"
    and root: "prefix root (store_root store)" and X: "leaves_files files X" and "outside root F (files (cli_world s))"
  shows "outside root F (files (cli_world s'))"
proof -
  obtain result b g w1 where scan: "usbs_scanner_scan (ce_sort X) (ce_fuel X) (M env) (ce_libc X) chosen store
      (Some (cli_cancel_check X)) None (cli_seeded s) (cli_hash s) (cli_world s) = Some (result, b, g, w1)"
    using assms(1) P by (auto simp: scan_and_report_def split: option.splits)
  have "outside root F (files w1)"
    by (rule within.keep_scan [OF scan _ assms(5)])
      (use X in \<open>auto simp: leaves_files_def within.libc_keeps_it_def libc_leaves_files_def cli_cancel_check_def\<close>)
  then have "outside root F (files (cli_world (put t (s\<lparr>cli_seeded := b, cli_hash := g, cli_world := w1\<rparr>))))" for t
    by (simp add: put_def)
  with assms(1) show ?thesis
    by (auto simp: scan_and_report_def P scan Let_def split: option.splits
        intro!: save_csv_outside [OF P root] dest!: save_json_outside [OF _ P root])
qed

lemma scan_command_files:
  assumes run: "usbs_cli_cmd_scan X argv s = Some (st, s')" and P: "ce_platform X = M env"
    and X: "leaves_files files X" and changed: "files (cli_world s') q \<noteq> files (cli_world s) q"
  shows "\<exists>root. usbs_user_data_dir (p_host (M env)) env USBS_STORE_PATH_MAX = (USBS_OK, root) \<and>
    prefix (snprintf_buf USBS_STORE_PATH_MAX root) q"
proof -
  have silent: "cli_world (put_err t s) = cli_world s" "cli_world (put t s) = cli_world s" for t and s :: "'w cli"
    by (simp_all add: put_err_def put_def)
  obtain mode wanted sig where args: "scan_args (drop 2 argv) (USBS_ENUM_USB_ONLY, None, None) = Inr (mode, wanted, sig)"
    using run changed by (cases "scan_args (drop 2 argv) (USBS_ENUM_USB_ONLY, None, None)")
      (auto simp: usbs_cli_cmd_scan_def silent)
  let ?set = "case sig of None \<Rightarrow> (USBS_OK, p_env (ce_platform X))
    | Some p \<Rightarrow> usbs_setenv (ce_setenv_ok X) (p_env (ce_platform X)) HASH_MATCH_SIGNATURES_ENV_OVERRIDE (Some p)"
  obtain est env' where set: "?set = (est, env')" by fastforce
  have dir: "usbs_user_data_dir (p_host (M env)) env' USBS_STORE_PATH_MAX = usbs_user_data_dir (p_host (M env)) env USBS_STORE_PATH_MAX"
    using set data_dir_ignores_signatures by (auto simp: P split: option.splits)
  let ?X = "X\<lparr>ce_platform := (ce_platform X)\<lparr>p_env := env'\<rparr>\<rparr>"
  have P': "ce_platform ?X = M env'" by (simp add: P env_only)
  obtain enum l w1 where en: "usbs_device_enumerate (ce_source ?X mode) (cli_world s) = (enum, l, w1)"
    by (cases "usbs_device_enumerate (ce_source ?X mode) (cli_world s)") auto
  have f1: "files w1 = files (cli_world s)" using enumerate_files [of ?X, OF en] X by simp
  obtain found w2 where ch: "choose_target (ce_platform ?X) mode wanted (v_items l) w1 = (found, w2)" by fastforce
  have f2: "files w2 = files (cli_world s)" using choose_target_files [of env'] ch f1 unfolding P' by metis
  obtain opened w3 where op: "usbs_store_open (ce_platform ?X) w2 = (opened, w3)" by fastforce
  have f3: "files w3 = files (cli_world s)"
    using store_open_files [of env' w2] op f2 unfolding P' by simp
  from run args set en ch op changed f2 f3
  obtain chosen store where ok: "found = Some chosen" "opened = Inr store"
    and go: "scan_and_report ?X store chosen (put (''Scanning... (Ctrl+C to cancel)'' @ NL @ NL)
        (s\<lparr>cli_world := snd (ce_install_cancel ?X w3)\<rparr>)) = Some (st, s')"
    by (auto simp: usbs_cli_cmd_scan_def Let_def silent split: if_splits option.splits sum.splits)
  obtain root where root: "usbs_user_data_dir (p_host (M env)) env' USBS_STORE_PATH_MAX = (USBS_OK, root)"
      "store_root store = snprintf_buf USBS_STORE_PATH_MAX root"
    using store_open_root op ok(2) host_of [of env' env] unfolding P' by fastforce
  let ?root = "snprintf_buf USBS_STORE_PATH_MAX root"
  have "files (snd (ce_install_cancel X w3)) = files (cli_world s)" using X f3 by (simp add: leaves_files_def)
  then have "outside ?root (files (cli_world s)) (files (cli_world s'))"
    by (intro scan_and_report_outside [OF go P']) (simp_all add: root X silent outside_def)
  with changed root(1) dir show ?thesis unfolding outside_def by auto
qed

end

text \<open>
  C4 Scanning is read-only: whatever the scan command is given, whatever it meets on the device and
  whatever operations fail, the only files whose content it creates, changes or deletes lie under
  the report store's root in the per-user data directory.
\<close>

theorem scan_command_is_read_only:
  assumes run: "usbs_cli_cmd_scan X argv s = Some (st, s')" and P: "ce_platform X = disk_platform h env"
    and X: "leaves_files d_files X" and changed: "d_files (cli_world s') q \<noteq> d_files (cli_world s) q"
  shows "\<exists>root. usbs_user_data_dir h env USBS_STORE_PATH_MAX = (USBS_OK, root) \<and>
    prefix (snprintf_buf USBS_STORE_PATH_MAX root) q"
  using disk_machine.scan_command_files [OF assms] by (simp add: disk_platform_def)

definition home_env :: environment where
  "home_env name = (if name = ''HOME'' then Some ''/h'' else None)"

definition bare_cli :: "disk cli_env" where
  "bare_cli =
     \<lparr>ce_platform = disk_platform Posix home_env,
      ce_libc = \<lparr>c_srand_time = (\<lambda>d. d), c_rand = Pair 7, c_utc = Pair (Some ''2024-05-01T10:00:00Z'')\<rparr>,
      ce_sort = (\<lambda>xs. xs), ce_fuel = 20, ce_source = (\<lambda>_. None), ce_install_cancel = Pair USBS_OK,
      ce_cancel_requested = Pair False, ce_version = ''1'', ce_banner = ''USB Sentinel 1'', ce_setenv_ok = True\<rparr>"

definition stick_disk :: disk where
  "stick_disk = \<lparr>d_files = (\<lambda>p. if p = ''/m/a.txt'' then Some ''hello'' else None),
     d_dirs = (\<lambda>p. if p = ''/m/'' then Some [fixture_entry ''a.txt'' 5] else None),
     d_open_dirs = (\<lambda>_. None), d_open_files = (\<lambda>_. None), d_next = 0, d_faults = [USBS_OK, USBS_OK, USBS_OK, USBS_OK, USBS_ERR_IO, USBS_ERR_IO]\<rparr>"

definition cli_start :: "disk cli" where
  "cli_start = \<lparr>cli_out = [], cli_err = [], cli_seeded = False, cli_hash = hash_globals_init, cli_world = stick_disk\<rparr>"


text \<open>
  The directory /m is chosen, its scan is aborted by a read error, the JSON report cannot be saved
  because its directory cannot be made, and the CSV report is written.
\<close>

lemma write_csv_quiet:
  assumes "d_faults d = []" "usbs_store_safe_id identity USBS_STORE_PATH_MAX = Inr safe"
    and "compact_timestamp stamp 17 = Inr compact" "device_dir h store safe USBS_STORE_PATH_MAX = (USBS_OK, dir)"
    and "usbs_path_join h USBS_STORE_PATH_MAX dir (snprintf_buf 300 (compact @ ''-'' @ i @ ''.csv'')) = (USBS_OK, p)"
    and "CHR 0x5C \<notin> set i" "CHR ''/'' \<notin> set i" "length p + 4 < USBS_STORE_PATH_MAX"
  obtains d' where "usbs_store_write_report_csv (disk_platform h env) store identity i stamp t USBS_STORE_PATH_MAX d =
      (Inr p, d')" "d_files d' = (d_files d)(p @ ''.tmp'' := None, p \<mapsto> t)"
proof -
  have len: "length p < USBS_STORE_PATH_MAX" "length (p @ ''.tmp'') < USBS_STORE_PATH_MAX" using assms(8) by simp_all
  have neq: "p @ ''.tmp'' \<noteq> p" by simp
  obtain d1 where mk: "make_dirs (disk_platform h env) dir d = (USBS_OK, d1)" "d_files d1 = d_files d" "d_faults d1 = []"
    using assms(1) by (cases "d_dirs d dir") (auto simp: disk_platform_def disk_op_defs)
  show ?thesis
    using that assms mk len neq
    by (simp add: usbs_store_write_report_csv_def write_report_file_def disk_platform_def disk_op_defs usbs_ok_def
        fun_upd_twist)
qed


lemma write_json_refused:
  assumes "d_faults d = [st]" "st \<noteq> USBS_OK" "usbs_store_safe_id identity USBS_STORE_PATH_MAX = Inr safe"
    and "device_dir h store safe USBS_STORE_PATH_MAX = (USBS_OK, dir)" "CHR 0x5C \<notin> set i" "CHR ''/'' \<notin> set i"
  shows "usbs_store_write_report fuel (disk_platform h env) store identity i stamp t cap d = Some (Inl st, d\<lparr>d_faults := []\<rparr>)"
proof -
  have "make_dirs (disk_platform h env) dir d = (st, d\<lparr>d_faults := []\<rparr>)" "p_host (disk_platform h env) = h"
    using assms(1,2) by (simp_all add: disk_platform_def disk_make_dirs_def disk_fault_def)
  with assms(2-) show ?thesis by (simp add: usbs_store_write_report_def write_report_file_def usbs_ok_def)
qed

lemma json_always_built:
  assumes "length (render (report_doc version r)) + 1 < SIZE_MAX div 2"
  shows "usbs_report_build_json mem_always version r = Inr (render (report_doc version r))"
  using written_document_parses [OF report_height, of version r] assms
  by (simp add: usbs_report_build_json_def write_report_calls mem_always)


text \<open>The run, and what is evaluated of it.\<close>

definition stick_argv :: "string list" where
  "stick_argv = [''usb-sentinel'', ''scan'', ''/m'']"

definition stick_home :: usbs_store where
  "stick_home = \<lparr>store_root = ''/h/.local/share/usb-sentinel''\<rparr>"

definition stick_dir :: string where
  "stick_dir = ''/h/.local/share/usb-sentinel/scans/volume_3A_2Fm_2F''"

definition stick_csv :: string where
  "stick_csv = ''/h/.local/share/usb-sentinel/scans/volume_3A_2Fm_2F/20240501T100000Z-0007000700070007.csv''"

definition stick_report :: "usbs_scan_result \<Rightarrow> string \<Rightarrow> string \<Rightarrow> bool" where
  "stick_report result safe compact \<longleftrightarrow>
     (case usbs_device_identity (scan_device result) USBS_IDENTITY_MAX of
        (st, identity) \<Rightarrow> usbs_ok st \<and> usbs_store_safe_id identity USBS_STORE_PATH_MAX = Inr safe) \<and>
     compact_timestamp (started_at result) 17 = Inr compact \<and>
     device_dir Posix stick_home safe USBS_STORE_PATH_MAX = (USBS_OK, stick_dir) \<and>
     usbs_path_join Posix USBS_STORE_PATH_MAX stick_dir
       (snprintf_buf 300 (compact @ ''-'' @ scan_id result @ ''.csv'')) = (USBS_OK, stick_csv) \<and>
     CHR 0x5C \<notin> set (scan_id result) \<and> CHR ''/'' \<notin> set (scan_id result) \<and>
     length (render (report_doc ''1'' result)) < 9000 \<and> length (csv_text result) < 9000"

definition stick_run :: "usbs_scan_result \<Rightarrow> disk \<Rightarrow> bool" where
  "stick_run result d \<longleftrightarrow> stick_report result ''volume_3A_2Fm_2F'' ''20240501T100000Z'' \<and> d_faults d = [USBS_ERR_IO]"

lemma stick_steps:
  "case choose_target (disk_platform Posix home_env) USBS_ENUM_USB_ONLY (Some ''/m'') [] stick_disk of
     (found, w2) \<Rightarrow>
       (case found of
          None \<Rightarrow> False
        | Some chosen \<Rightarrow>
            (case usbs_store_open (disk_platform Posix home_env) w2 of
               (opened, w3) \<Rightarrow>
                 (case opened of
                    Inl st \<Rightarrow> False
                  | Inr store \<Rightarrow>
                      store = stick_home \<and>
                      (case usbs_scanner_scan (\<lambda>xs. xs) 20 (disk_platform Posix home_env) (ce_libc bare_cli) chosen store
                              (Some (cli_cancel_check bare_cli)) None False hash_globals_init w3 of
                         None \<Rightarrow> False
                       | Some (result, b, g, w4) \<Rightarrow> stick_run result w4))))"
  by code_simp

lemma stick_obtain:
  obtains chosen w2 w3 result b g w4
  where "choose_target (disk_platform Posix home_env) USBS_ENUM_USB_ONLY (Some ''/m'') [] stick_disk = (Some chosen, w2)"
    and "usbs_store_open (disk_platform Posix home_env) w2 = (Inr stick_home, w3)"
    and "usbs_scanner_scan (\<lambda>xs. xs) 20 (disk_platform Posix home_env) (ce_libc bare_cli) chosen stick_home
      (Some (cli_cancel_check bare_cli)) None False hash_globals_init w3 = Some (result, b, g, w4)"
    and "stick_run result w4"
proof -
  obtain found w2 where c: "choose_target (disk_platform Posix home_env) USBS_ENUM_USB_ONLY (Some ''/m'') [] stick_disk = (found, w2)"
    by (rule prod.exhaust)
  note s1 = stick_steps [unfolded c prod.case]
  then obtain chosen where f: "found = Some chosen" by (cases found) simp_all
  note s2 = s1 [unfolded f option.case]
  obtain opened w3 where o: "usbs_store_open (disk_platform Posix home_env) w2 = (opened, w3)" by (rule prod.exhaust)
  note s3 = s2 [unfolded o prod.case]
  then have op: "opened = Inr stick_home" by (cases opened) simp_all
  note s4 = s3 [unfolded op sum.case]
  then obtain result b g w4 where "usbs_scanner_scan (\<lambda>xs. xs) 20 (disk_platform Posix home_env) (ce_libc bare_cli) chosen
      stick_home (Some (cli_cancel_check bare_cli)) None False hash_globals_init w3 = Some (result, b, g, w4)"
      "stick_run result w4"
    by (auto split: option.splits)
  with c f o op show ?thesis by (intro that) simp_all
qed

lemma bare_cli_leaves_files: "leaves_files d_files bare_cli"
  by (simp add: leaves_files_def libc_leaves_files_def bare_cli_def)

lemma save_json_refused:
  assumes "usbs_report_build_json (p_mem (ce_platform X)) (ce_version X) result = Inr t"
    and "usbs_store_write_report (ce_fuel X) (ce_platform X) store i (scan_id result) (started_at result) t
           USBS_STORE_PATH_MAX (cli_world s) = Some (Inl st, w1)"
  obtains s2 where "save_json X store (Some i) result s = Some s2" "cli_world s2 = w1"
  using assms by (simp add: save_json_def put_err_def)

lemma save_csv_written:
  assumes "usbs_report_build_csv (p_mem (ce_platform X)) result = Inr t"
    and "usbs_store_write_report_csv (ce_platform X) store i (scan_id result) (started_at result) t
           USBS_STORE_PATH_MAX (cli_world s) = (Inr p, w1)"
  shows "cli_world (save_csv X store (Some i) result s) = w1"
  using assms by (simp add: save_csv_def put_def)

lemma stick_report_written:
  assumes run: "stick_run result (cli_world s)" and none: "d_files (cli_world s) stick_csv = None"
    and X: "ce_platform X = disk_platform Posix home_env" "ce_version X = ''1''"
    and "usbs_device_identity (scan_device result) USBS_IDENTITY_MAX = (st, i)"
  obtains s2 where "save_json X stick_home (Some i) result s = Some s2"
    and "d_files (cli_world (save_csv X stick_home (Some i) result s2)) stick_csv \<noteq> None"
proof -
  let ?P = "disk_platform Posix home_env"
  obtain safe compact where r: "stick_report result safe compact" "d_faults (cli_world s) = [USBS_ERR_IO]"
    using run by (auto simp: stick_run_def)
  note q = r(1) [unfolded stick_report_def assms(5) prod.case]
  have json: "usbs_report_build_json mem_always ''1'' result = Inr (render (report_doc ''1'' result))"
    using q by (intro json_always_built) (simp add: SIZE_MAX_def)
  have csv: "usbs_report_build_csv mem_always result = Inr (csv_text result)"
    using q by (intro csv_always_built) (simp add: SIZE_MAX_def)
  have w: "usbs_store_write_report fuel ?P stick_home i (scan_id result) (started_at result) t USBS_STORE_PATH_MAX
      (cli_world s) = Some (Inl USBS_ERR_IO, (cli_world s)\<lparr>d_faults := []\<rparr>)" for t fuel
    using q r(2) by (intro write_json_refused [where dir = stick_dir and safe = safe]) simp_all
  have len: "length stick_csv + 4 < USBS_STORE_PATH_MAX" by code_simp
  obtain d2 where c: "usbs_store_write_report_csv ?P stick_home i (scan_id result) (started_at result)
      (csv_text result) USBS_STORE_PATH_MAX ((cli_world s)\<lparr>d_faults := []\<rparr>) = (Inr stick_csv, d2)"
      "d_files d2 = (d_files (cli_world s))(stick_csv @ ''.tmp'' := None, stick_csv \<mapsto> csv_text result)"
    by (rule write_csv_quiet [of "(cli_world s)\<lparr>d_faults := []\<rparr>" i safe "started_at result" compact Posix stick_home stick_dir
          "scan_id result" stick_csv home_env "csv_text result"]) (use q len in simp_all)
  have mem: "p_mem (ce_platform X) = mem_always" by (simp add: X disk_platform_def)
  obtain s2 where s2: "save_json X stick_home (Some i) result s = Some s2" "cli_world s2 = (cli_world s)\<lparr>d_faults := []\<rparr>"
    using save_json_refused [OF json [folded mem X(2)] w [folded X(1)]] by blast
  have "cli_world (save_csv X stick_home (Some i) result s2) = d2"
    using save_csv_written [OF csv [folded mem], of stick_home i s2 stick_csv d2] c(1) s2(2) by (simp add: X)
  then have "d_files (cli_world (save_csv X stick_home (Some i) result s2)) stick_csv = Some (csv_text result)"
    by (simp only: c(2)) simp
  then show ?thesis by (intro that [OF s2(1)]) simp
qed


lemma scan_command_is_read_only_witness:
  "\<exists>st s'. usbs_cli_cmd_scan bare_cli stick_argv cli_start = Some (st, s') \<and>
     d_files (cli_world s') stick_csv \<noteq> d_files (cli_world cli_start) stick_csv \<and>
     (\<exists>root. usbs_user_data_dir Posix home_env USBS_STORE_PATH_MAX = (USBS_OK, root) \<and>
       prefix (snprintf_buf USBS_STORE_PATH_MAX root) stick_csv)"
proof -
  let ?P = "disk_platform Posix home_env"
  have P: "ce_platform bare_cli = ?P" "ce_fuel bare_cli = 20" "ce_sort bare_cli = (\<lambda>xs. xs)" "ce_version bare_cli = ''1''"
      "ce_source bare_cli m = None" "ce_install_cancel bare_cli w = (USBS_OK, w)"
      "bare_cli\<lparr>ce_platform := ?P\<lparr>p_env := p_env ?P\<rparr>\<rparr> = bare_cli" for m w
    by (simp_all add: bare_cli_def disk_platform_def)
  have start: "cli_world cli_start = stick_disk" "cli_seeded cli_start = False" "cli_hash cli_start = hash_globals_init"
    by (simp_all add: cli_start_def)
  have args: "scan_args (drop 2 stick_argv) (USBS_ENUM_USB_ONLY, None, None) = Inr (USBS_ENUM_USB_ONLY, Some ''/m'', None)"
    by code_simp
  obtain chosen w2 w3 result b g w4 where go: "choose_target ?P USBS_ENUM_USB_ONLY (Some ''/m'') [] stick_disk = (Some chosen, w2)"
      "usbs_store_open ?P w2 = (Inr stick_home, w3)"
      "usbs_scanner_scan (\<lambda>xs. xs) 20 ?P (ce_libc bare_cli) chosen stick_home
         (Some (cli_cancel_check bare_cli)) None False hash_globals_init w3 = Some (result, b, g, w4)"
    and run: "stick_run result w4" by (rule stick_obtain)
  obtain enum where en: "usbs_device_enumerate (ce_source bare_cli USBS_ENUM_USB_ONLY) stick_disk = (enum, vec_init, stick_disk)"
    by (auto simp: P usbs_device_enumerate_def)
  have none: "d_files stick_disk stick_csv = None" by code_simp
  define s0 where "s0 = put (''Scanning... (Ctrl+C to cancel)'' @ NL @ NL) (cli_start\<lparr>cli_world := w3\<rparr>)"
  have scan: "usbs_cli_cmd_scan bare_cli stick_argv cli_start = scan_and_report bare_cli stick_home chosen s0"
    unfolding usbs_cli_cmd_scan_def args
    by (simp add: s0_def start P(6,7) en vec_init_def go(1,2) [folded P(1)] usbs_ok_def del: append.simps)
  have same: "d_files w4 = d_files stick_disk"
  proof -
    have "d_files w2 = d_files stick_disk" using disk_machine.choose_target_files [OF go(1)] .
    then have "d_files w3 = d_files stick_disk" using disk_machine.still.keep_store_open [OF go(2)] by simp
    then show ?thesis
      by (rule disk_machine.still.keep_scan [OF go(3), rotated])
        (auto simp: disk_machine.still.libc_keeps_it_def bare_cli_def cli_cancel_check_def)
  qed
  define s1 where "s1 = put (usbs_report_render_text result) (s0\<lparr>cli_seeded := b, cli_hash := g, cli_world := w4\<rparr>)"
  have w: "cli_world s1 = w4" "cli_seeded s0 = False" "cli_hash s0 = hash_globals_init" "cli_world s0 = w3"
    by (simp_all add: s1_def s0_def put_def start)
  obtain i where i: "usbs_device_identity (scan_device result) USBS_IDENTITY_MAX = (USBS_OK, i)"
    using run by (auto simp: stick_run_def stick_report_def usbs_ok_def)
  obtain s2 where s2: "save_json bare_cli stick_home (Some i) result s1 = Some s2"
      "d_files (cli_world (save_csv bare_cli stick_home (Some i) result s2)) stick_csv \<noteq> None"
    by (rule stick_report_written [OF _ _ P(1) P(4) i, of s1]) (use run none same in \<open>simp_all add: w\<close>)
  have result: "scan_and_report bare_cli stick_home chosen s0 =
      Some (if scan_status result = USBS_SCAN_COMPLETED then USBS_OK else USBS_ERR_IO,
        save_csv bare_cli stick_home (Some i) result s2)"
    unfolding scan_and_report_def P(1-3) w go(3) by (simp only: option.case prod.case Let_def i usbs_ok_def s1_def [symmetric]) (simp add: s2(1))
  have changed: "d_files (cli_world (save_csv bare_cli stick_home (Some i) result s2)) stick_csv \<noteq>
      d_files (cli_world cli_start) stick_csv"
    using s2(2) none by (simp add: start)
  obtain root where "usbs_user_data_dir Posix home_env USBS_STORE_PATH_MAX = (USBS_OK, root)"
      "prefix (snprintf_buf USBS_STORE_PATH_MAX root) stick_csv"
    using scan_command_is_read_only [OF trans [OF scan result] P(1) bare_cli_leaves_files changed] by (elim exE conjE)
  with trans [OF scan result] changed show ?thesis by (intro exI conjI)
qed

end
