(* ===== verification/Posix.thy ===== *)
theory Posix
  imports Platform
begin

unbundle bit_operations_syntax

text \<open>
  The POSIX half of the platform module, src/platform/fs_posix.c. The kernel is a record of system
  calls over an arbitrary state \<open>'s\<close>, each answering an \<open>errno\<close> or a result. A loop that retries an
  interrupted call has fuel, since a kernel may interrupt it for ever; \<open>None\<close> is no more fuel.
\<close>

section \<open>System calls\<close>

datatype errno =
    E_NONE | EACCES | EPERM | EROFS | ENOENT | ENOTDIR | ENXIO | ENODEV | ENOMEM | EINVAL | ENAMETOOLONG | ELOOP
  | ENOTSUP | EOPNOTSUPP | EIO | EBUSY | ETIMEDOUT | EINTR | EEXIST | E_OTHER int

datatype file_kind = S_REG | S_DIR | S_LNK | S_BLK nat nat | S_OTHER

text \<open>\<open>d_type\<close>, as far as the code looks at it.\<close>

datatype entry_type = DT_UNKNOWN | DT_DIR | DT_LNK | DT_OTHER

record dirent =
  d_name :: string
  d_type :: entry_type

record file_stat =
  st_mode :: file_kind
  st_size :: usbs_u64

datatype open_flags = O_RDONLY | O_WRONLY_CREAT_TRUNC

text \<open>
  A failing call carries its \<open>errno\<close>; \<open>readdir\<close> tells the end of the listing from an error by
  \<open>E_NONE\<close>, the value the code stores in \<open>errno\<close> before the call. \<open>sys_lstatat\<close> is \<open>fstatat\<close> with
  \<open>AT_SYMLINK_NOFOLLOW\<close>.
\<close>

record 's kernel =
  sys_opendir :: "string \<Rightarrow> 's \<Rightarrow> (errno + nat) \<times> 's"
  sys_readdir :: "nat \<Rightarrow> 's \<Rightarrow> (errno + dirent) \<times> 's"
  sys_lstatat :: "nat \<Rightarrow> string \<Rightarrow> 's \<Rightarrow> (errno + file_stat) \<times> 's"
  sys_closedir :: "nat \<Rightarrow> 's \<Rightarrow> 's"
  sys_open :: "open_flags \<Rightarrow> string \<Rightarrow> 's \<Rightarrow> (errno + nat) \<times> 's"
  sys_read :: "nat \<Rightarrow> nat \<Rightarrow> 's \<Rightarrow> (errno + string) \<times> 's"
  sys_write :: "nat \<Rightarrow> string \<Rightarrow> 's \<Rightarrow> (errno + nat) \<times> 's"
  sys_fsync :: "nat \<Rightarrow> 's \<Rightarrow> errno \<times> 's"
  sys_close :: "nat \<Rightarrow> 's \<Rightarrow> errno \<times> 's"
  sys_mkdir :: "string \<Rightarrow> 's \<Rightarrow> errno \<times> 's"
  sys_rename :: "string \<Rightarrow> string \<Rightarrow> 's \<Rightarrow> errno \<times> 's"
  sys_unlink :: "string \<Rightarrow> 's \<Rightarrow> errno \<times> 's"

fun usbs_posix_status_from_errno :: "errno \<Rightarrow> usbs_status" where
  "usbs_posix_status_from_errno E_NONE = USBS_OK"
| "usbs_posix_status_from_errno EACCES = USBS_ERR_ACCESS_DENIED"
| "usbs_posix_status_from_errno EPERM = USBS_ERR_ACCESS_DENIED"
| "usbs_posix_status_from_errno EROFS = USBS_ERR_ACCESS_DENIED"
| "usbs_posix_status_from_errno ENOENT = USBS_ERR_NOT_FOUND"
| "usbs_posix_status_from_errno ENOTDIR = USBS_ERR_NOT_FOUND"
| "usbs_posix_status_from_errno ENXIO = USBS_ERR_NOT_FOUND"
| "usbs_posix_status_from_errno ENODEV = USBS_ERR_NOT_FOUND"
| "usbs_posix_status_from_errno ENOMEM = USBS_ERR_NO_MEMORY"
| "usbs_posix_status_from_errno EINVAL = USBS_ERR_INVALID_ARG"
| "usbs_posix_status_from_errno ENAMETOOLONG = USBS_ERR_INVALID_ARG"
| "usbs_posix_status_from_errno ELOOP = USBS_ERR_INVALID_ARG"
| "usbs_posix_status_from_errno ENOTSUP = USBS_ERR_UNSUPPORTED"
| "usbs_posix_status_from_errno EOPNOTSUPP = USBS_ERR_UNSUPPORTED"
| "usbs_posix_status_from_errno EIO = USBS_ERR_IO"
| "usbs_posix_status_from_errno EBUSY = USBS_ERR_IO"
| "usbs_posix_status_from_errno ETIMEDOUT = USBS_ERR_IO"
| "usbs_posix_status_from_errno e = USBS_ERR_INTERNAL"

section \<open>UTF-8 sanitisation\<close>

abbreviation byte :: "char \<Rightarrow> nat" where
  "byte c \<equiv> of_char c"

definition is_continuation :: "char \<Rightarrow> bool" where
  "is_continuation c \<longleftrightarrow> byte c AND 0xC0 = 0x80"

text \<open>The first byte is there: the caller's loop runs while bytes remain.\<close>

definition utf8_sequence_length :: "string \<Rightarrow> nat" where
  "utf8_sequence_length s =
     (let c = byte (s ! 0); remaining = length s
      in if c < 0x80 then 1
         else if c AND 0xE0 = 0xC0 then
           (if remaining < 2 \<or> \<not> is_continuation (s ! 1) then 0
            else if c < 0xC2 then 0
            else 2)
         else if c AND 0xF0 = 0xE0 then
           (if remaining < 3 \<or> \<not> is_continuation (s ! 1) \<or> \<not> is_continuation (s ! 2) then 0
            else if c = 0xE0 \<and> byte (s ! 1) < 0xA0 then 0
            else if c = 0xED \<and> byte (s ! 1) \<ge> 0xA0 then 0
            else 3)
         else if c AND 0xF8 = 0xF0 then
           (if remaining < 4 \<or> \<not> is_continuation (s ! 1) \<or> \<not> is_continuation (s ! 2) \<or> \<not> is_continuation (s ! 3) then 0
            else if c = 0xF0 \<and> byte (s ! 1) < 0x90 then 0
            else if c > 0xF4 \<or> (c = 0xF4 \<and> byte (s ! 1) \<ge> 0x90) then 0
            else 4)
         else 0)"

definition k_replacement :: string where
  "k_replacement = [CHR 0xEF, CHR 0xBF, CHR 0xBD]"

text \<open>The loop of \<open>sanitize_utf8\<close>: \<open>out\<close> is what is written so far, \<open>s\<close> what is left to read.\<close>

function sanitize_loop :: "nat \<Rightarrow> string \<Rightarrow> string \<Rightarrow> string" where
  "sanitize_loop cap out s =
     (if s = [] then out
      else
        (let n = utf8_sequence_length s
         in if n = 0 then
              (if length out + length k_replacement \<ge> cap then out
               else sanitize_loop cap (out @ k_replacement) (drop 1 s))
            else if length out + n \<ge> cap then out
            else sanitize_loop cap (out @ take n s) (drop n s)))"
  by pat_completeness auto

termination by (relation "measure (\<lambda>(cap, out, s). length s)") auto

declare sanitize_loop.simps [simp del]

definition sanitize_utf8 :: "string \<Rightarrow> nat \<Rightarrow> string" where
  "sanitize_utf8 src cap = (if cap = 0 then [] else sanitize_loop cap [] src)"

section \<open>Directories\<close>

definition SIZEOF_DIR_ITER :: nat where "SIZEOF_DIR_ITER = 8"

definition posix_dir_open :: "allocator \<Rightarrow> 's kernel \<Rightarrow> string \<Rightarrow> 's \<Rightarrow> (usbs_status + nat) \<times> 's" where
  "posix_dir_open mem K path s =
     (case sys_opendir K path s of
        (Inl e, s1) \<Rightarrow> (Inl (usbs_posix_status_from_errno e), s1)
      | (Inr dir, s1) \<Rightarrow>
          if \<not> mem SIZEOF_DIR_ITER then (Inl USBS_ERR_NO_MEMORY, sys_closedir K dir s1) else (Inr dir, s1))"

definition is_dot_entry :: "string \<Rightarrow> bool" where
  "is_dot_entry name \<longleftrightarrow> name = ''.'' \<or> name = ''..''"

definition fill_entry :: "'s kernel \<Rightarrow> nat \<Rightarrow> dirent \<Rightarrow> 's \<Rightarrow> usbs_dir_entry \<times> 's" where
  "fill_entry K dir ent s =
     (let entry = \<lparr>entry_name = sanitize_utf8 (d_name ent) USBS_NAME_MAX, is_directory = False,
                   is_reparse_point = False, is_hidden = (d_name ent \<noteq> [] \<and> d_name ent ! 0 = CHR ''.''),
                   size_bytes = 0\<rparr>
      in (case sys_lstatat K dir (d_name ent) s of
            (Inl e, s1) \<Rightarrow>
              (if d_type ent \<noteq> DT_UNKNOWN
               then entry\<lparr>is_directory := (d_type ent = DT_DIR), is_reparse_point := (d_type ent = DT_LNK)\<rparr>
               else entry, s1)
          | (Inr st, s1) \<Rightarrow>
              (entry\<lparr>is_reparse_point := (st_mode st = S_LNK), is_directory := (st_mode st = S_DIR),
                     size_bytes := (if st_mode st = S_DIR then 0 else st_size st)\<rparr>, s1)))"

fun posix_dir_next :: "nat \<Rightarrow> 's kernel \<Rightarrow> nat \<Rightarrow> 's \<Rightarrow> ((usbs_status + usbs_dir_entry) \<times> 's) option" where
  "posix_dir_next 0 K dir s = None"
| "posix_dir_next (Suc fuel) K dir s =
     (case sys_readdir K dir s of
        (Inl e, s1) \<Rightarrow>
          Some (Inl (if e \<noteq> E_NONE then usbs_posix_status_from_errno e else USBS_ERR_NOT_FOUND), s1)
      | (Inr ent, s1) \<Rightarrow>
          if is_dot_entry (d_name ent) then posix_dir_next fuel K dir s1
          else (case fill_entry K dir ent s1 of (entry, s2) \<Rightarrow> Some (Inr entry, s2)))"

definition posix_dir_close :: "'s kernel \<Rightarrow> nat \<Rightarrow> 's \<Rightarrow> 's" where
  "posix_dir_close K dir s = sys_closedir K dir s"

section \<open>Reading\<close>

definition SIZEOF_FILE :: nat where "SIZEOF_FILE = 4"

definition READ_CLAMP :: nat where "READ_CLAMP = 0x10000000"

definition posix_file_open_read :: "allocator \<Rightarrow> 's kernel \<Rightarrow> string \<Rightarrow> 's \<Rightarrow> (usbs_status + nat) \<times> 's" where
  "posix_file_open_read mem K path s =
     (case sys_open K O_RDONLY path s of
        (Inl e, s1) \<Rightarrow> (Inl (usbs_posix_status_from_errno e), s1)
      | (Inr fd, s1) \<Rightarrow>
          if \<not> mem SIZEOF_FILE then (Inl USBS_ERR_NO_MEMORY, snd (sys_close K fd s1)) else (Inr fd, s1))"

fun read_retry :: "nat \<Rightarrow> 's kernel \<Rightarrow> nat \<Rightarrow> nat \<Rightarrow> 's \<Rightarrow> ((errno + string) \<times> 's) option" where
  "read_retry 0 K fd cap s = None"
| "read_retry (Suc fuel) K fd cap s =
     (case sys_read K fd cap s of
        (Inl e, s1) \<Rightarrow> if e = EINTR then read_retry fuel K fd cap s1 else Some (Inl e, s1)
      | (Inr got, s1) \<Rightarrow> Some (Inr got, s1))"

definition posix_file_read :: "nat \<Rightarrow> 's kernel \<Rightarrow> nat \<Rightarrow> nat \<Rightarrow> 's \<Rightarrow> ((usbs_status + string) \<times> 's) option" where
  "posix_file_read fuel K fd cap s =
     (case read_retry fuel K fd (if cap > READ_CLAMP then READ_CLAMP else cap) s of
        None \<Rightarrow> None
      | Some (Inl e, s1) \<Rightarrow> Some (Inl (usbs_posix_status_from_errno e), s1)
      | Some (Inr got, s1) \<Rightarrow> Some (Inr got, s1))"

definition posix_file_close :: "'s kernel \<Rightarrow> nat \<Rightarrow> 's \<Rightarrow> 's" where
  "posix_file_close K fd s = snd (sys_close K fd s)"

section \<open>The store's own writes\<close>

definition FS_POSIX_PATH_MAX :: nat where "FS_POSIX_PATH_MAX = 4096"

text \<open>The loop of \<open>make_dirs\<close>: \<open>parent\<close> is the part of the path before \<open>rest\<close>, so \<open>i = length parent\<close>.\<close>

fun mkdir_loop :: "'s kernel \<Rightarrow> string \<Rightarrow> string \<Rightarrow> 's \<Rightarrow> usbs_status \<times> 's" where
  "mkdir_loop K parent rest s =
     (let step = (if (rest = [] \<or> rest ! 0 = CHR ''/'') \<and> parent \<noteq> [] then sys_mkdir K parent s else (E_NONE, s))
      in (case step of
            (e, s1) \<Rightarrow>
              if e \<noteq> E_NONE \<and> e \<noteq> EEXIST then (usbs_posix_status_from_errno e, s1)
              else (case rest of [] \<Rightarrow> (USBS_OK, s1) | c # cs \<Rightarrow> mkdir_loop K (parent @ [c]) cs s1)))"

declare mkdir_loop.simps [simp del]

definition posix_make_dirs :: "'s kernel \<Rightarrow> string \<Rightarrow> 's \<Rightarrow> usbs_status \<times> 's" where
  "posix_make_dirs K path s =
     (if length path = 0 \<or> length path \<ge> FS_POSIX_PATH_MAX then (USBS_ERR_INVALID_ARG, s) else mkdir_loop K [] path s)"

text \<open>The inner loop of \<open>write_file\<close>; it closes the descriptor when it gives up with a status.\<close>

fun write_loop :: "nat \<Rightarrow> 's kernel \<Rightarrow> nat \<Rightarrow> string \<Rightarrow> 's \<Rightarrow> (usbs_status option \<times> 's) option" where
  "write_loop 0 K fd remaining s = (if remaining = [] then Some (None, s) else None)"
| "write_loop (Suc fuel) K fd remaining s =
     (if remaining = [] then Some (None, s)
      else
        (case sys_write K fd remaining s of
           (Inl e, s1) \<Rightarrow>
             if e = EINTR then write_loop fuel K fd remaining s1
             else Some (Some (usbs_posix_status_from_errno e), snd (sys_close K fd s1))
         | (Inr n, s1) \<Rightarrow>
             if n = 0 then Some (Some USBS_ERR_IO, snd (sys_close K fd s1))
             else write_loop fuel K fd (drop n remaining) s1))"

definition posix_write_file :: "nat \<Rightarrow> 's kernel \<Rightarrow> string \<Rightarrow> string \<Rightarrow> 's \<Rightarrow> (usbs_status \<times> 's) option" where
  "posix_write_file fuel K path data s =
     (case sys_open K O_WRONLY_CREAT_TRUNC path s of
        (Inl e, s1) \<Rightarrow> Some (usbs_posix_status_from_errno e, s1)
      | (Inr fd, s1) \<Rightarrow>
          (case write_loop fuel K fd data s1 of
             None \<Rightarrow> None
           | Some (Some st, s2) \<Rightarrow> Some (st, s2)
           | Some (None, s2) \<Rightarrow>
               (case sys_fsync K fd s2 of
                  (e, s3) \<Rightarrow>
                    if e \<noteq> E_NONE \<and> e \<noteq> EINVAL then Some (usbs_posix_status_from_errno e, snd (sys_close K fd s3))
                    else
                      (case sys_close K fd s3 of
                         (e2, s4) \<Rightarrow>
                           Some (if e2 \<noteq> E_NONE then usbs_posix_status_from_errno e2 else USBS_OK, s4)))))"

definition posix_replace_file :: "'s kernel \<Rightarrow> string \<Rightarrow> string \<Rightarrow> 's \<Rightarrow> usbs_status \<times> 's" where
  "posix_replace_file K dest src s =
     (case sys_rename K src dest s of
        (e, s1) \<Rightarrow> (if e \<noteq> E_NONE then usbs_posix_status_from_errno e else USBS_OK, s1))"

definition posix_delete_file :: "'s kernel \<Rightarrow> string \<Rightarrow> 's \<Rightarrow> usbs_status \<times> 's" where
  "posix_delete_file K path s =
     (case sys_unlink K path s of
        (e, s1) \<Rightarrow>
          (if e \<noteq> E_NONE then (if e = ENOENT then USBS_OK else usbs_posix_status_from_errno e) else USBS_OK, s1))"

end
