(* ===== verification/Utf8.thy ===== *)
theory Utf8
  imports Posix
begin

text \<open>
  What \<open>sanitize_utf8\<close> guarantees, against the definition of UTF-8 as the encoding of a sequence of
  Unicode scalar values.
\<close>

section \<open>UTF-8\<close>

definition scalar_value :: "nat \<Rightarrow> bool" where
  "scalar_value n \<longleftrightarrow> n < 0xD800 \<or> 0xE000 \<le> n \<and> n < 0x110000"

definition encode_scalar :: "nat \<Rightarrow> string" where
  "encode_scalar n =
     (if n < 0x80 then [char_of n]
      else if n < 0x800 then [char_of (0xC0 + n div 64), char_of (0x80 + n mod 64)]
      else if n < 0x10000 then
        [char_of (0xE0 + n div 4096), char_of (0x80 + n div 64 mod 64), char_of (0x80 + n mod 64)]
      else
        [char_of (0xF0 + n div 262144), char_of (0x80 + n div 4096 mod 64), char_of (0x80 + n div 64 mod 64),
         char_of (0x80 + n mod 64)])"

definition is_utf8 :: "string \<Rightarrow> bool" where
  "is_utf8 s \<longleftrightarrow> (\<exists>cps. list_all scalar_value cps \<and> s = concat (map encode_scalar cps))"

lemma is_utf8_Nil [simp]: "is_utf8 []"
  unfolding is_utf8_def by (rule exI [of _ "[]"]) simp

lemma is_utf8_append: "is_utf8 s \<Longrightarrow> is_utf8 t \<Longrightarrow> is_utf8 (s @ t)"
  unfolding is_utf8_def by (metis concat_append list_all_append map_append)

lemma is_utf8_scalar: "scalar_value n \<Longrightarrow> is_utf8 (encode_scalar n)"
  unfolding is_utf8_def by (rule exI [of _ "[n]"]) simp

section \<open>The masks\<close>

lemma and_shifted: "(c :: nat) AND m * 2 ^ k = (c div 2 ^ k AND m) * 2 ^ k"
proof -
  have "c AND push_bit k m = push_bit k (drop_bit k c AND m)"
    by (rule bit_eqI) (auto simp: bit_simps)
  then show ?thesis by (simp add: push_bit_eq_mult drop_bit_eq_div)
qed

lemma and_top:
  "(c :: nat) AND 0xC0 = (c div 64 AND 3) * 64" "c AND 0xE0 = (c div 32 AND 7) * 32"
  "c AND 0xF0 = (c div 16 AND 15) * 16" "c AND 0xF8 = (c div 8 AND 31) * 8"
  using and_shifted [of c 3 6] and_shifted [of c 7 5] and_shifted [of c 15 4] and_shifted [of c 31 3] by simp_all

lemma and_low:
  "x < 4 \<Longrightarrow> x AND 3 = x" "x < 8 \<Longrightarrow> x AND 7 = x" "x < 16 \<Longrightarrow> x AND 15 = x" "x < 32 \<Longrightarrow> x AND 31 = (x :: nat)"
  using take_bit_nat_eq_self [of x 2] take_bit_nat_eq_self [of x 3] take_bit_nat_eq_self [of x 4]
    take_bit_nat_eq_self [of x 5]
  by (simp_all add: take_bit_eq_mask mask_eq_exp_minus_1)

lemma top_digit:
  "r < 64 \<Longrightarrow> (q * 64 = 0x80) = (0x80 \<le> q * 64 + r \<and> q * 64 + r < (0xC0 :: nat))"
  "r < 32 \<Longrightarrow> (q * 32 = 0xC0) = (0xC0 \<le> q * 32 + r \<and> q * 32 + r < (0xE0 :: nat))"
  "r < 16 \<Longrightarrow> (q * 16 = 0xE0) = (0xE0 \<le> q * 16 + r \<and> q * 16 + r < (0xF0 :: nat))"
  "r < 8 \<Longrightarrow> (q * 8 = 0xF0) = (0xF0 \<le> q * 8 + r \<and> q * 8 + r < (0xF8 :: nat))"
  by presburger+

lemma mask_tests:
  assumes "c < 256"
  shows "(c AND 0xC0 = 0x80) = (0x80 \<le> c \<and> c < 0xC0)"
    and "(c AND 0xE0 = 0xC0) = (0xC0 \<le> c \<and> c < 0xE0)"
    and "(c AND 0xF0 = 0xE0) = (0xE0 \<le> c \<and> c < 0xF0)"
    and "(c AND 0xF8 = 0xF0) = (0xF0 \<le> c \<and> c < (0xF8 :: nat))"
proof -
  have top: "c div 64 < 4" "c div 32 < 8" "c div 16 < 16" "c div 8 < 32" using assms by simp_all
  show "(c AND 0xC0 = 0x80) = (0x80 \<le> c \<and> c < 0xC0)"
    unfolding and_top and_low(1) [OF top(1)] using top_digit(1) [of "c mod 64" "c div 64"] by simp
  show "(c AND 0xE0 = 0xC0) = (0xC0 \<le> c \<and> c < 0xE0)"
    unfolding and_top and_low(2) [OF top(2)] using top_digit(2) [of "c mod 32" "c div 32"] by simp
  show "(c AND 0xF0 = 0xE0) = (0xE0 \<le> c \<and> c < 0xF0)"
    unfolding and_top and_low(3) [OF top(3)] using top_digit(3) [of "c mod 16" "c div 16"] by simp
  show "(c AND 0xF8 = 0xF0) = (0xF0 \<le> c \<and> c < 0xF8)"
    unfolding and_top and_low(4) [OF top(4)] using top_digit(4) [of "c mod 8" "c div 8"] by simp
qed

lemma byte_less [simp]: "byte c < 256"
  using nat_of_char_less_256 by blast

lemma is_continuation_iff: "is_continuation c \<longleftrightarrow> 0x80 \<le> byte c \<and> byte c < 0xC0"
  by (simp add: is_continuation_def mask_tests)

lemma utf8_sequence_length_eq:
  "utf8_sequence_length s =
     (let c = byte (s ! 0); c1 = byte (s ! 1)
      in if c < 0x80 then 1
         else if 0xC2 \<le> c \<and> c < 0xE0 \<and> 2 \<le> length s \<and> is_continuation (s ! 1) then 2
         else if 0xE0 \<le> c \<and> c < 0xF0 \<and> 3 \<le> length s \<and> is_continuation (s ! 1) \<and> is_continuation (s ! 2) \<and>
           (c = 0xE0 \<longrightarrow> 0xA0 \<le> c1) \<and> (c = 0xED \<longrightarrow> c1 < 0xA0) then 3
         else if 0xF0 \<le> c \<and> c \<le> 0xF4 \<and> 4 \<le> length s \<and> is_continuation (s ! 1) \<and> is_continuation (s ! 2) \<and>
           is_continuation (s ! 3) \<and> (c = 0xF0 \<longrightarrow> 0x90 \<le> c1) \<and> (c = 0xF4 \<longrightarrow> c1 < 0x90) then 4
         else 0)"
  by (auto simp: utf8_sequence_length_def Let_def mask_tests)

section \<open>A sequence is the encoding of one scalar value\<close>

lemma digits3:
  assumes "b < 64" "c < (64 :: nat)"
  shows "(a * 4096 + b * 64 + c) div 4096 = a" "(a * 4096 + b * 64 + c) div 64 mod 64 = b"
    "(a * 4096 + b * 64 + c) mod 64 = c"
proof -
  have n: "a * 4096 + b * 64 + c = (a * 64 + b) * 64 + c" by simp
  show "(a * 4096 + b * 64 + c) mod 64 = c" using assms(2) by (simp only: n mod_mult_self3 mod_less)
  have d: "(a * 4096 + b * 64 + c) div 64 = a * 64 + b" unfolding n using assms(2) by simp
  show "(a * 4096 + b * 64 + c) div 64 mod 64 = b" unfolding d using assms by simp
  have "(a * 4096 + b * 64 + c) div 4096 = (a * 4096 + b * 64 + c) div 64 div 64" by (simp add: div_mult2_eq [symmetric])
  then show "(a * 4096 + b * 64 + c) div 4096 = a" unfolding d using assms by simp
qed

lemma digits4:
  assumes "b < 64" "c < 64" "e < (64 :: nat)"
  shows "(a * 262144 + b * 4096 + c * 64 + e) div 262144 = a" "(a * 262144 + b * 4096 + c * 64 + e) div 4096 mod 64 = b"
    "(a * 262144 + b * 4096 + c * 64 + e) div 64 mod 64 = c" "(a * 262144 + b * 4096 + c * 64 + e) mod 64 = e"
proof -
  have n: "a * 262144 + b * 4096 + c * 64 + e = (a * 4096 + b * 64 + c) * 64 + e" by simp
  have d: "(a * 262144 + b * 4096 + c * 64 + e) div 64 = a * 4096 + b * 64 + c" unfolding n using assms(3) by simp
  show "(a * 262144 + b * 4096 + c * 64 + e) mod 64 = e" using assms(3) by (simp only: n mod_mult_self3 mod_less)
  show "(a * 262144 + b * 4096 + c * 64 + e) div 64 mod 64 = c" unfolding d by (rule digits3(3) [OF assms(1,2)])
  have "(a * 262144 + b * 4096 + c * 64 + e) div 262144 = (a * 262144 + b * 4096 + c * 64 + e) div 64 div 4096"
    by (simp add: div_mult2_eq [symmetric])
  then show "(a * 262144 + b * 4096 + c * 64 + e) div 262144 = a" unfolding d using digits3 [OF assms(1,2)] by simp
  have "(a * 262144 + b * 4096 + c * 64 + e) div 4096 = (a * 262144 + b * 4096 + c * 64 + e) div 64 div 64"
    by (simp add: div_mult2_eq [symmetric])
  then show "(a * 262144 + b * 4096 + c * 64 + e) div 4096 mod 64 = b" unfolding d using digits3 [OF assms(1,2)] by simp
qed

lemma sequence_is_scalar:
  assumes "s \<noteq> []" and "utf8_sequence_length s \<noteq> 0"
  shows "\<exists>n. scalar_value n \<and> take (utf8_sequence_length s) s = encode_scalar n"
proof -
  let ?c = "\<lambda>i. byte (s ! i) :: nat"
  have chars: "s ! i = char_of (?c i)" for i by simp
  from assms(2) consider
    (one) "?c 0 < 0x80" "utf8_sequence_length s = 1"
  | (two) "0xC2 \<le> ?c 0" "?c 0 < 0xE0" "2 \<le> length s" "0x80 \<le> ?c 1" "?c 1 < 0xC0" "utf8_sequence_length s = 2"
  | (three) "0xE0 \<le> ?c 0" "?c 0 < 0xF0" "3 \<le> length s" "0x80 \<le> ?c 1" "?c 1 < 0xC0" "0x80 \<le> ?c 2" "?c 2 < 0xC0"
      "?c 0 = 0xE0 \<longrightarrow> 0xA0 \<le> ?c 1" "?c 0 = 0xED \<longrightarrow> ?c 1 < 0xA0" "utf8_sequence_length s = 3"
  | (four) "0xF0 \<le> ?c 0" "?c 0 \<le> 0xF4" "4 \<le> length s" "0x80 \<le> ?c 1" "?c 1 < 0xC0" "0x80 \<le> ?c 2" "?c 2 < 0xC0"
      "0x80 \<le> ?c 3" "?c 3 < 0xC0" "?c 0 = 0xF0 \<longrightarrow> 0x90 \<le> ?c 1" "?c 0 = 0xF4 \<longrightarrow> ?c 1 < 0x90"
      "utf8_sequence_length s = 4"
    unfolding utf8_sequence_length_eq [of s] Let_def is_continuation_iff by (auto split: if_splits)
  then show ?thesis
  proof cases
    case one
    with assms(1) have "take 1 s = encode_scalar (?c 0)"
      by (cases s) (simp_all add: encode_scalar_def)
    with one show ?thesis by (intro exI [of _ "?c 0"]) (simp add: scalar_value_def)
  next
    case two
    then obtain a b where d: "?c 0 = 0xC0 + a" "?c 1 = 0x80 + b" "2 \<le> a" "a < 32" "b < 64"
      by (auto simp: le_iff_add)
    let ?n = "a * 64 + b"
    have "?n div 64 = a" "?n mod 64 = b" "0x80 \<le> ?n" "?n < 0x800" using d(3-5) by simp_all
    moreover have "take 2 s = [s ! 0, s ! 1]"
      using two(3) by (intro nth_equalityI) (auto simp: less_Suc_eq eval_nat_numeral)
    ultimately have "take 2 s = encode_scalar ?n" "scalar_value ?n"
      using d(1,2) chars [of 0] chars [of 1] by (simp_all add: encode_scalar_def scalar_value_def)
    with two show ?thesis by auto
  next
    case three
    then obtain a b c where d: "?c 0 = 0xE0 + a" "?c 1 = 0x80 + b" "?c 2 = 0x80 + c" "a < 16" "b < 64" "c < 64"
      by (auto simp: le_iff_add)
    have limits: "a = 0 \<longrightarrow> 32 \<le> b" "a = 13 \<longrightarrow> b < 32" using three d by auto
    let ?n = "a * 4096 + b * 64 + c"
    have r: "0x800 \<le> ?n" "?n < 0x10000" using limits d(4-6) by (cases "a = 0"; linarith)+
    consider "a < 13" | "a = 13" | "13 < a" by linarith
    then have "?n < 0xD800 \<or> 0xE000 \<le> ?n" using limits d(4-6) by cases linarith+
    note r = r this
    have "take 3 s = [s ! 0, s ! 1, s ! 2]"
      using three(3) by (intro nth_equalityI) (auto simp: less_Suc_eq eval_nat_numeral)
    with r digits3 [of b c a, OF d(5,6)] have "take 3 s = encode_scalar ?n" "scalar_value ?n"
      using d(1-3) chars [of 0] chars [of 1] chars [of 2] by (auto simp: encode_scalar_def scalar_value_def)
    with three show ?thesis by auto
  next
    case four
    then obtain a b c e where d: "?c 0 = 0xF0 + a" "?c 1 = 0x80 + b" "?c 2 = 0x80 + c" "?c 3 = 0x80 + e"
        "a \<le> 4" "b < 64" "c < 64" "e < 64"
      by (intro that [of "?c 0 - 0xF0" "?c 1 - 0x80" "?c 2 - 0x80" "?c 3 - 0x80"]) simp_all
    have limits: "a = 0 \<longrightarrow> 16 \<le> b" "a = 4 \<longrightarrow> b < 16" using four d by auto
    let ?n = "a * 262144 + b * 4096 + c * 64 + e"
    have r: "0x10000 \<le> ?n" "?n < 0x110000" using limits d(5-8) by (cases "a = 0"; cases "a = 4"; linarith)+
    have "take 4 s = [s ! 0, s ! 1, s ! 2, s ! 3]"
      using four(3) by (intro nth_equalityI) (auto simp: less_Suc_eq eval_nat_numeral)
    with r digits4 [of b c e a, OF d(6-8)] have "take 4 s = encode_scalar ?n" "scalar_value ?n"
      using d(1-4) chars [of 0] chars [of 1] chars [of 2] chars [of 3] by (auto simp: encode_scalar_def scalar_value_def)
    with four show ?thesis by auto
  qed
qed

section \<open>And every encoding is taken for a sequence\<close>

lemma sixty_four:
  "n = n div 64 * 64 + n mod 64" "n mod 64 < 64"
  "n div 64 = n div 4096 * 64 + n div 64 mod 64" "n div 64 mod 64 < 64"
  "n div 4096 = n div 262144 * 64 + n div 4096 mod 64" "n div 4096 mod 64 < (64 :: nat)"
proof -
  have "n div 4096 = n div 64 div 64" "n div 262144 = n div 4096 div 64" by (simp_all add: div_mult2_eq [symmetric])
  then show "n div 64 = n div 4096 * 64 + n div 64 mod 64" "n div 4096 = n div 262144 * 64 + n div 4096 mod 64"
    by simp_all
qed simp_all

lemma encoding_is_sequence:
  assumes "scalar_value n"
  shows "utf8_sequence_length (encode_scalar n @ t) = length (encode_scalar n)"
proof -
  note d = sixty_four [of n]
  consider "n < 0x80" | "0x80 \<le> n" "n < 0x800" | "0x800 \<le> n" "n < 0x10000" | "0x10000 \<le> n" "n < 0x110000"
    using assms by (force simp: scalar_value_def)
  then show ?thesis
  proof cases
    case 1
    then show ?thesis by (simp add: encode_scalar_def utf8_sequence_length_eq)
  next
    case 2
    then have "n div 64 < 32" "2 \<le> n div 64" using d(1,2) by linarith+
    with 2 show ?thesis by (simp add: encode_scalar_def utf8_sequence_length_eq is_continuation_iff)
  next
    case 3
    have "n div 4096 < 16" "n div 4096 = 0 \<Longrightarrow> 32 \<le> n div 64 mod 64"
      using 3 d(1-4) by linarith+
    moreover have "n div 64 mod 64 < 32" if "n div 4096 = 13"
      using assms that d(1-4) unfolding scalar_value_def by linarith
    ultimately show ?thesis using 3 by (auto simp: encode_scalar_def utf8_sequence_length_eq is_continuation_iff)
  next
    case 4
    have "n div 262144 \<le> 4" "n div 262144 = 0 \<Longrightarrow> 16 \<le> n div 4096 mod 64" "n div 262144 = 4 \<Longrightarrow> n div 4096 mod 64 < 16"
      using 4 d by linarith+
    with 4 show ?thesis by (auto simp: encode_scalar_def utf8_sequence_length_eq is_continuation_iff)
  qed
qed

lemma encode_scalar_length [simp]: "0 < length (encode_scalar n)" "encode_scalar n \<noteq> []"
  by (simp_all add: encode_scalar_def)

section \<open>The sanitiser\<close>

lemma replacement_is_scalar: "k_replacement = encode_scalar 0xFFFD" "scalar_value 0xFFFD"
  by code_simp+

lemma sanitize_loop_utf8: "is_utf8 out \<Longrightarrow> is_utf8 (sanitize_loop cap out s)"
proof (induction cap out s rule: sanitize_loop.induct)
  case (1 cap out s)
  show ?case
  proof (cases "s = []")
    case True
    with 1 show ?thesis by (simp add: sanitize_loop.simps)
  next
    case False
    show ?thesis
    proof (cases "utf8_sequence_length s = 0")
      case True
      have "is_utf8 (out @ k_replacement)"
        using 1(3) replacement_is_scalar is_utf8_append is_utf8_scalar by metis
      with 1 False True show ?thesis by (subst sanitize_loop.simps) (simp add: Let_def)
    next
      case seq: False
      have "is_utf8 (out @ take (utf8_sequence_length s) s)"
        using 1(3) sequence_is_scalar [OF False seq] is_utf8_append is_utf8_scalar by metis
      with 1 False seq show ?thesis by (subst sanitize_loop.simps) (simp add: Let_def)
    qed
  qed
qed

lemma sanitize_loop_bound: "length out < cap \<Longrightarrow> length (sanitize_loop cap out s) < cap"
proof (induction cap out s rule: sanitize_loop.induct)
  case (1 cap out s)
  then show ?case by (subst sanitize_loop.simps) (auto simp: Let_def not_le k_replacement_def)
qed

lemma sanitize_loop_valid:
  assumes "list_all scalar_value cps" and "length out + length (concat (map encode_scalar cps)) < cap"
  shows "sanitize_loop cap out (concat (map encode_scalar cps)) = out @ concat (map encode_scalar cps)"
  using assms
proof (induction cps arbitrary: out)
  case Nil
  then show ?case by (simp add: sanitize_loop.simps)
next
  case (Cons n cps)
  let ?rest = "concat (map encode_scalar cps)"
  have len: "utf8_sequence_length (encode_scalar n @ ?rest) = length (encode_scalar n)"
    using Cons.prems(1) by (simp add: encoding_is_sequence)
  have "sanitize_loop cap out (encode_scalar n @ ?rest) = sanitize_loop cap (out @ encode_scalar n) ?rest"
    using Cons.prems(2) by (subst sanitize_loop.simps) (simp add: len Let_def)
  with Cons show ?case by simp
qed

text \<open>With room for three bytes per byte nothing is cut: no byte of the name is lost.\<close>

lemma sanitize_loop_keeps:
  assumes "length out + 3 * length s < cap"
  shows "length out + length s \<le> length (sanitize_loop cap out s)"
  using assms
proof (induction cap out s rule: sanitize_loop.induct)
  case (1 cap out s)
  show ?case
  proof (cases "s = []")
    case True
    then show ?thesis by (simp add: sanitize_loop.simps)
  next
    case False
    then have pos: "0 < length s" by simp
    let ?n = "utf8_sequence_length s"
    show ?thesis
    proof (cases "?n = 0")
      case True
      have gt: "\<not> length out + length k_replacement \<ge> cap" "length (out @ k_replacement) + 3 * length (drop 1 s) < cap"
        using 1(3) False by (cases s; simp add: k_replacement_def)+
      note 1(1) [OF False refl True gt]
      with gt(1) False True show ?thesis by (subst sanitize_loop.simps) (cases s; simp add: Let_def k_replacement_def)
    next
      case seq: False
      have "take ?n s \<noteq> []" using seq False by simp
      have n: "?n \<le> length s" using seq False by (auto simp: utf8_sequence_length_eq Let_def Suc_le_eq split: if_splits)
      have "length (out @ take ?n s) + length (drop ?n s) \<le> length (sanitize_loop cap (out @ take ?n s) (drop ?n s))"
        using 1(3) n seq by (intro 1(2) [OF False refl seq]) simp_all
      with 1(3) False seq n show ?thesis by (subst sanitize_loop.simps) (simp add: Let_def)
    qed
  qed
qed



text \<open>Two different names on the medium can be reported as one, and then neither can be opened by it.\<close>

lemma sanitized_names_collide:
  "sanitize_utf8 [CHR 0xFF] USBS_NAME_MAX = sanitize_utf8 [CHR 0xFE] USBS_NAME_MAX"
  by code_simp

end
