(* ===== verification/PosixDisk.thy ===== *)
theory PosixDisk
  imports Posix StoreWrite
begin

text \<open>
  The POSIX file layer as an implementation of the platform boundary. \<open>posix_kernel\<close> states what the
  layer relies on of the kernel, \<open>file_store\<close> of Disk what the store relies on of the platform; the
  layer is proved to turn the first into the second, for every way calls are interrupted, cut short
  or fail. A concrete kernel with a script of such events interprets the interface.
\<close>

section \<open>The platform made of system calls\<close>

text \<open>
  The functions of the layer, as the operations of the boundary. A retry loop that uses up its
  budget gives up with an internal error; on the concrete kernel below it never does.
\<close>

definition or_give_up :: "'s \<Rightarrow> ((usbs_status + 'a) \<times> 's) option \<Rightarrow> (usbs_status + 'a) \<times> 's" where
  "or_give_up s r = (case r of None \<Rightarrow> (Inl USBS_ERR_INTERNAL, s) | Some x \<Rightarrow> x)"

definition posix_platform :: "(nat \<Rightarrow> 's \<Rightarrow> nat) \<Rightarrow> environment \<Rightarrow> allocator \<Rightarrow> 's kernel \<Rightarrow> 's platform" where
  "posix_platform budget env mem K =
     \<lparr>p_host = Posix, p_env = env, p_mem = mem,
      dir_open = posix_dir_open mem K,
      dir_next = (\<lambda>i s. or_give_up s (posix_dir_next (budget i s) K i s)),
      dir_close = posix_dir_close K,
      file_open_read = posix_file_open_read mem K,
      file_read = (\<lambda>i n s. or_give_up s (posix_file_read (budget i s) K i n s)),
      file_close = posix_file_close K,
      make_dirs = posix_make_dirs K,
      write_file = (\<lambda>p c s. case posix_write_file (budget 0 s) K p c s of
          None \<Rightarrow> (USBS_ERR_INTERNAL, s) | Some x \<Rightarrow> x),
      replace_file = posix_replace_file K,
      delete_file = posix_delete_file K,
      probe_capabilities =
        (\<lambda>_ s. (USBS_ERR_UNSUPPORTED, \<lparr>can_read_raw_volume = False, can_read_physical_disk = False\<rparr>, s))\<rparr>"

section \<open>What the layer relies on\<close>

lemma status_from_errno_ok [simp]: "usbs_posix_status_from_errno e = USBS_OK \<longleftrightarrow> e = E_NONE"
  by (cases e) simp_all

text \<open>\<open>writes s fd\<close> is the path of the file that the descriptor was opened on for writing.\<close>

locale posix_kernel =
  fixes K :: "'s kernel"
    and contents :: "'s \<Rightarrow> string \<Rightarrow> string option"
    and writes :: "'s \<Rightarrow> nat \<Rightarrow> string option"
  assumes open_fails: "sys_open K f p s = (Inl e, s') \<Longrightarrow> e \<noteq> E_NONE \<and> contents s' = contents s"
    and open_reads: "sys_open K O_RDONLY p s = (Inr fd, s') \<Longrightarrow> contents s' = contents s"
    and open_truncates: "sys_open K O_WRONLY_CREAT_TRUNC p s = (Inr fd, s') \<Longrightarrow>
      contents s' = (contents s)(p \<mapsto> []) \<and> writes s' fd = Some p"
    and write_fails: "sys_write K fd d s = (Inl e, s') \<Longrightarrow> e \<noteq> E_NONE \<and> contents s' = contents s \<and> writes s' fd = writes s fd"
    and write_appends: "sys_write K fd d s = (Inr n, s') \<Longrightarrow> writes s fd = Some p \<Longrightarrow> contents s p = Some c \<Longrightarrow>
      contents s' = (contents s)(p \<mapsto> c @ take n d) \<and> writes s' fd = Some p"
    and read_same: "sys_read K fd n s = (r, s') \<Longrightarrow> contents s' = contents s"
    and fsync_same: "sys_fsync K fd s = (e, s') \<Longrightarrow> contents s' = contents s"
    and close_same: "sys_close K fd s = (e, s') \<Longrightarrow> contents s' = contents s"
    and mkdir_same: "sys_mkdir K p s = (e, s') \<Longrightarrow> contents s' = contents s"
    and rename_moves: "sys_rename K src dst s = (E_NONE, s') \<Longrightarrow>
      \<exists>c. contents s src = Some c \<and> contents s' = (contents s)(src := None, dst \<mapsto> c)"
    and rename_fails: "sys_rename K src dst s = (e, s') \<Longrightarrow> e \<noteq> E_NONE \<Longrightarrow> contents s' = contents s"
    and unlink_only: "sys_unlink K p s = (e, s') \<Longrightarrow> q \<noteq> p \<Longrightarrow> contents s' q = contents s q"
    and opendir_same: "sys_opendir K p s = (rd, s') \<Longrightarrow> contents s' = contents s"
    and readdir_same: "sys_readdir K i s = (re, s') \<Longrightarrow> contents s' = contents s"
    and lstatat_same: "sys_lstatat K i nm s = (rs, s') \<Longrightarrow> contents s' = contents s"
    and closedir_same: "contents (sys_closedir K i s) = contents s"
begin

lemma close_snd [simp]: "contents (snd (sys_close K fd s)) = contents s"
  using close_same by (metis prod.collapse)

text \<open>Any interleaving of interruptions and short writes appends a part of the data, or all of it.\<close>

lemma write_loop_appends:
  "write_loop fuel K fd data s = Some (r, s') \<Longrightarrow> writes s fd = Some p \<Longrightarrow> contents s p = Some c \<Longrightarrow>
     (\<exists>d. contents s' = (contents s)(p \<mapsto> c @ d) \<and> (r = None \<longrightarrow> d = data)) \<and> r \<noteq> Some USBS_OK"
proof (induction fuel arbitrary: data s c)
  case 0
  then show ?case by (intro conjI exI [of _ "[]"]) (auto simp: map_upd_triv split: if_splits)
next
  case (Suc fuel)
  have same: "contents s = (contents s)(p \<mapsto> c @ [])" using Suc.prems(3) by (simp add: map_upd_triv)
  obtain w s1 where w: "sys_write K fd data s = (w, s1)" by fastforce
  show ?case
  proof (cases "data = []")
    case True
    with Suc.prems same show ?thesis by (intro conjI exI [of _ "[]"]) simp_all
  next
    case data: False
    show ?thesis
    proof (cases w)
      case (Inl e)
      with write_fails w have e: "e \<noteq> E_NONE" "contents s1 = contents s" "writes s1 fd = writes s fd" by auto
      show ?thesis
      proof (cases "e = EINTR")
        case True
        with Suc.prems data w Inl e show ?thesis using Suc.IH [of data s1 c] by simp
      next
        case False
        with Suc.prems data w Inl e same show ?thesis by (intro conjI exI [of _ "[]"]) auto
      qed
    next
      case (Inr n)
      with write_appends w Suc.prems(2,3)
      have n: "contents s1 = (contents s)(p \<mapsto> c @ take n data)" "writes s1 fd = Some p" by blast+
      show ?thesis
      proof (cases "n = 0")
        case True
        with Suc.prems data w Inr n same show ?thesis by (intro conjI exI [of _ "[]"]) auto
      next
        case False
        with Suc.prems data w Inr have "write_loop fuel K fd (drop n data) s1 = Some (r, s')" by simp
        from Suc.IH [OF this n(2), of "c @ take n data"] n(1)
        obtain d where d: "contents s' = (contents s1)(p \<mapsto> (c @ take n data) @ d)" "r = None \<longrightarrow> d = drop n data"
          "r \<noteq> Some USBS_OK" by fastforce
        then have "contents s' = (contents s)(p \<mapsto> c @ (take n data @ d))" by (simp add: n(1))
        with d(2,3) show ?thesis by (intro conjI exI [of _ "take n data @ d"]) auto
      qed
    qed
  qed
qed

text \<open>So a write that reports success has written everything, and a write touches only its path.\<close>

lemma write_file_cases:
  assumes "posix_write_file fuel K path data s = Some (st, s')"
  shows "(st = USBS_OK \<longrightarrow> contents s' = (contents s)(path \<mapsto> data)) \<and>
    (\<forall>q. q \<noteq> path \<longrightarrow> contents s' q = contents s q)"
proof -
  obtain o1 s1 where o1: "sys_open K O_WRONLY_CREAT_TRUNC path s = (o1, s1)" by fastforce
  show ?thesis
  proof (cases o1)
    case (Inl e)
    with assms o1 open_fails [of O_WRONLY_CREAT_TRUNC path s e s1] show ?thesis by (auto simp: posix_write_file_def)
  next
    case (Inr fd)
    with o1 open_truncates have t: "contents s1 = (contents s)(path \<mapsto> [])" "writes s1 fd = Some path" by blast+
    obtain r s2 where l: "write_loop fuel K fd data s1 = Some (r, s2)"
      using assms o1 Inr by (auto simp: posix_write_file_def split: option.splits)
    from write_loop_appends [OF l t(2), of "[]"] t(1)
    obtain d where d: "contents s2 = (contents s)(path \<mapsto> d)" "r = None \<longrightarrow> d = data" "r \<noteq> Some USBS_OK" by auto
    show ?thesis
    proof (cases r)
      case (Some st2)
      with assms o1 Inr l d show ?thesis by (auto simp: posix_write_file_def)
    next
      case None
      obtain e s3 where f: "sys_fsync K fd s2 = (e, s3)" by fastforce
      obtain e2 s4 where c: "sys_close K fd s3 = (e2, s4)" by fastforce
      have "contents s' = contents s2"
        using assms o1 Inr l None f c fsync_same [OF f] close_same [OF c]
        by (auto simp: posix_write_file_def split: if_splits)
      with d None show ?thesis by simp
    qed
  qed
qed

lemma mkdir_loop_same: "mkdir_loop K parent rest s = (st, s') \<Longrightarrow> contents s' = contents s"
proof (induction rest arbitrary: parent s)
  case Nil
  then show ?case
    by (subst (asm) mkdir_loop.simps) (auto split: if_splits prod.splits dest: mkdir_same)
next
  case (Cons c cs)
  define step where "step = (if (c # cs = [] \<or> (c # cs) ! 0 = CHR ''/'') \<and> parent \<noteq> [] then sys_mkdir K parent s else (E_NONE, s))"
  obtain e s1 where s1: "step = (e, s1)" by fastforce
  then have "contents s1 = contents s" unfolding step_def by (auto split: if_splits dest: mkdir_same)
  moreover have "mkdir_loop K parent (c # cs) s =
      (case step of (e, s1) \<Rightarrow> if e \<noteq> E_NONE \<and> e \<noteq> EEXIST then (usbs_posix_status_from_errno e, s1)
         else mkdir_loop K (parent @ [c]) cs s1)"
    by (subst mkdir_loop.simps) (simp add: step_def split: prod.split)
  ultimately show ?case using Cons.prems s1 by (auto split: if_splits dest: Cons.IH [OF sym])
qed

lemma fill_entry_same: "fill_entry K i ent s = (entry, s') \<Longrightarrow> contents s' = contents s"
  unfolding fill_entry_def Let_def by (auto split: prod.splits sum.splits dest: lstatat_same)

lemma dir_next_same: "posix_dir_next fuel K i s = Some (r, s') \<Longrightarrow> contents s' = contents s"
proof (induction fuel arbitrary: s)
  case (Suc fuel)
  obtain re s1 where re: "sys_readdir K i s = (re, s1)" by fastforce
  with readdir_same have "contents s1 = contents s" by blast
  with Suc re show ?case by (auto split: prod.splits sum.splits if_splits dest: fill_entry_same)
qed simp

lemma read_retry_same: "read_retry fuel K fd n s = Some (r, s') \<Longrightarrow> contents s' = contents s"
  by (induction fuel arbitrary: s) (auto split: prod.splits sum.splits if_splits dest: read_same)

end

text \<open>The layer refines the store's interface.\<close>

sublocale posix_kernel \<subseteq> store: file_store "posix_platform budget env mem K" contents
proof
  fix p c s s' st q dst src ri re rs i n
  let ?P = "posix_platform budget env mem K"
  show "contents s' = (contents s)(p \<mapsto> c)" if "write_file ?P p c s = (USBS_OK, s')"
    using that write_file_cases by (auto simp: posix_platform_def split: option.splits)
  show "contents s' q = contents s q" if "write_file ?P p c s = (st, s')" "q \<noteq> p"
    using that write_file_cases by (auto simp: posix_platform_def split: option.splits)
  show "contents s' = (contents s)(src := None, dst \<mapsto> c)"
    if "replace_file ?P dst src s = (USBS_OK, s')" "contents s src = Some c"
    using that rename_moves [of src dst s s']
    by (auto simp: posix_platform_def posix_replace_file_def split: prod.splits if_splits)
  show "contents s' = contents s" if "replace_file ?P dst src s = (st, s')" "st \<noteq> USBS_OK"
    using that rename_fails by (auto simp: posix_platform_def posix_replace_file_def split: prod.splits if_splits)
  show "contents s' q = contents s q" if r: "replace_file ?P dst src s = (st, s')" and q: "q \<noteq> dst" "q \<noteq> src"
  proof -
    obtain e where e: "sys_rename K src dst s = (e, s')"
      using r by (auto simp: posix_platform_def posix_replace_file_def split: prod.splits)
    then show ?thesis using rename_moves [of src dst s s'] rename_fails [of src dst s e s'] q by (cases "e = E_NONE") auto
  qed
  show "contents s' q = contents s q" if "delete_file ?P p s = (st, s')" "q \<noteq> p"
    using that unlink_only by (auto simp: posix_platform_def posix_delete_file_def split: prod.splits)
  show "contents s' = contents s" if "make_dirs ?P p s = (st, s')"
    using that mkdir_loop_same by (auto simp: posix_platform_def posix_make_dirs_def split: if_splits)
  show "contents s' = contents s" if "dir_open ?P p s = (ri, s')"
    using that opendir_same closedir_same
    by (auto simp: posix_platform_def posix_dir_open_def split: prod.splits sum.splits if_splits)
  show "contents s' = contents s" if "dir_next ?P i s = (re, s')"
    using that dir_next_same by (auto simp: posix_platform_def or_give_up_def split: option.splits)
  show "contents (dir_close ?P i s) = contents s"
    using closedir_same by (simp add: posix_platform_def posix_dir_close_def)
  show "contents s' = contents s" if "file_open_read ?P p s = (ri, s')"
    using that open_fails open_reads
    by (auto simp: posix_platform_def posix_file_open_read_def split: prod.splits sum.splits if_splits)
  show "contents s' = contents s" if "file_read ?P i n s = (rs, s')"
    using that read_retry_same
    by (auto simp: posix_platform_def posix_file_read_def or_give_up_def split: option.splits sum.splits if_splits)
  show "contents (file_close ?P i s) = contents s"
    by (simp add: posix_platform_def posix_file_close_def)
qed


section \<open>A kernel\<close>

text \<open>
  Files by path, directories with their listings, fresh descriptors, and two scripts: what happens
  to the next reads and writes (a failure, or at most so many bytes move), and what the next other
  calls fail with. Descriptors opened for writing append; paths are names, without links.
\<close>

datatype io_event = Io_fails errno | Io_moves nat

record unix =
  u_files :: "string \<Rightarrow> string option"
  u_dirs :: "string \<Rightarrow> (dirent \<times> file_stat) list option"
  u_streams :: "nat \<Rightarrow> ((dirent \<times> file_stat) list \<times> (dirent \<times> file_stat) list) option"
  u_fds :: "nat \<Rightarrow> (string \<times> nat) option"
  u_next :: nat
  u_io :: "io_event list"
  u_faults :: "errno list"

definition real_errno :: "errno \<Rightarrow> errno" where
  "real_errno e = (if e = E_NONE then EIO else e)"

definition unix_fault :: "unix \<Rightarrow> errno \<times> unix" where
  "unix_fault u = (case u_faults u of [] \<Rightarrow> (E_NONE, u) | e # es \<Rightarrow> (e, u\<lparr>u_faults := es\<rparr>))"

definition unix_opendir :: "string \<Rightarrow> unix \<Rightarrow> (errno + nat) \<times> unix" where
  "unix_opendir p u =
     (case unix_fault u of
        (e, u1) \<Rightarrow>
          if e \<noteq> E_NONE then (Inl e, u1)
          else
            (case u_dirs u1 p of
               None \<Rightarrow> (Inl ENOENT, u1)
             | Some l \<Rightarrow> (Inr (u_next u1), u1\<lparr>u_streams := (u_streams u1)(u_next u1 \<mapsto> (l, l)), u_next := Suc (u_next u1)\<rparr>)))"

definition unix_readdir :: "nat \<Rightarrow> unix \<Rightarrow> (errno + dirent) \<times> unix" where
  "unix_readdir i u =
     (case unix_fault u of
        (e, u1) \<Rightarrow>
          if e \<noteq> E_NONE then (Inl e, u1)
          else
            (case u_streams u1 i of
               Some (all, (d, st) # rest) \<Rightarrow> (Inr d, u1\<lparr>u_streams := (u_streams u1)(i \<mapsto> (all, rest))\<rparr>)
             | _ \<Rightarrow> (Inl E_NONE, u1)))"

definition unix_lstatat :: "nat \<Rightarrow> string \<Rightarrow> unix \<Rightarrow> (errno + file_stat) \<times> unix" where
  "unix_lstatat i name u =
     (case unix_fault u of
        (e, u1) \<Rightarrow>
          if e \<noteq> E_NONE then (Inl e, u1)
          else
            (case u_streams u1 i of
               None \<Rightarrow> (Inl EINVAL, u1)
             | Some (all, _) \<Rightarrow>
                 (case find (\<lambda>(d, st). d_name d = name) all of
                    None \<Rightarrow> (Inl ENOENT, u1)
                  | Some (d, st) \<Rightarrow> (Inr st, u1))))"

definition unix_open :: "open_flags \<Rightarrow> string \<Rightarrow> unix \<Rightarrow> (errno + nat) \<times> unix" where
  "unix_open f p u =
     (case unix_fault u of
        (e, u1) \<Rightarrow>
          if e \<noteq> E_NONE then (Inl e, u1)
          else if f = O_RDONLY \<and> u_files u1 p = None then (Inl ENOENT, u1)
          else
            (Inr (u_next u1),
             u1\<lparr>u_files := (if f = O_RDONLY then u_files u1 else (u_files u1)(p \<mapsto> [])),
                u_fds := (u_fds u1)(u_next u1 \<mapsto> (p, 0)), u_next := Suc (u_next u1)\<rparr>))"

text \<open>What the next read or write of \<open>n\<close> bytes does: an error, or how many bytes move.\<close>

definition unix_io :: "nat \<Rightarrow> unix \<Rightarrow> (errno + nat) \<times> unix" where
  "unix_io n u =
     (case u_io u of
        [] \<Rightarrow> (Inr n, u)
      | Io_fails e # es \<Rightarrow> (Inl (real_errno e), u\<lparr>u_io := es\<rparr>)
      | Io_moves m # es \<Rightarrow> (Inr (min m n), u\<lparr>u_io := es\<rparr>))"

definition unix_read :: "nat \<Rightarrow> nat \<Rightarrow> unix \<Rightarrow> (errno + string) \<times> unix" where
  "unix_read fd n u =
     (case unix_io n u of
        (Inl e, u1) \<Rightarrow> (Inl e, u1)
      | (Inr m, u1) \<Rightarrow>
          (case u_fds u1 fd of
             None \<Rightarrow> (Inl (E_OTHER 9), u1)
           | Some (p, off) \<Rightarrow>
               (case u_files u1 p of
                  None \<Rightarrow> (Inl EIO, u1)
                | Some c \<Rightarrow>
                    (Inr (take m (drop off c)),
                     u1\<lparr>u_fds := (u_fds u1)(fd \<mapsto> (p, off + length (take m (drop off c))))\<rparr>))))"

definition unix_write :: "nat \<Rightarrow> string \<Rightarrow> unix \<Rightarrow> (errno + nat) \<times> unix" where
  "unix_write fd d u =
     (case unix_io (length d) u of
        (Inl e, u1) \<Rightarrow> (Inl e, u1)
      | (Inr m, u1) \<Rightarrow>
          (case u_fds u1 fd of
             None \<Rightarrow> (Inl (E_OTHER 9), u1)
           | Some (p, off) \<Rightarrow>
               (case u_files u1 p of
                  None \<Rightarrow> (Inl EIO, u1)
                | Some c \<Rightarrow> (Inr m, u1\<lparr>u_files := (u_files u1)(p \<mapsto> c @ take m d)\<rparr>))))"

definition unix_close :: "nat \<Rightarrow> unix \<Rightarrow> errno \<times> unix" where
  "unix_close fd u = (case unix_fault u of (e, u1) \<Rightarrow> (e, u1\<lparr>u_fds := (u_fds u1)(fd := None)\<rparr>))"

definition unix_mkdir :: "string \<Rightarrow> unix \<Rightarrow> errno \<times> unix" where
  "unix_mkdir p u =
     (case unix_fault u of
        (e, u1) \<Rightarrow>
          if e \<noteq> E_NONE then (e, u1)
          else if u_dirs u1 p \<noteq> None \<or> u_files u1 p \<noteq> None then (EEXIST, u1)
          else (E_NONE, u1\<lparr>u_dirs := (u_dirs u1)(p \<mapsto> [])\<rparr>))"

definition unix_rename :: "string \<Rightarrow> string \<Rightarrow> unix \<Rightarrow> errno \<times> unix" where
  "unix_rename src dst u =
     (case unix_fault u of
        (e, u1) \<Rightarrow>
          if e \<noteq> E_NONE then (e, u1)
          else
            (case u_files u1 src of
               None \<Rightarrow> (ENOENT, u1)
             | Some c \<Rightarrow> (E_NONE, u1\<lparr>u_files := (u_files u1)(src := None, dst \<mapsto> c)\<rparr>)))"

definition unix_unlink :: "string \<Rightarrow> unix \<Rightarrow> errno \<times> unix" where
  "unix_unlink p u =
     (case unix_fault u of
        (e, u1) \<Rightarrow>
          if e \<noteq> E_NONE then (e, u1)
          else if u_files u1 p = None then (ENOENT, u1) else (E_NONE, u1\<lparr>u_files := (u_files u1)(p := None)\<rparr>))"

definition unix_kernel :: "unix kernel" where
  "unix_kernel =
     \<lparr>sys_opendir = unix_opendir, sys_readdir = unix_readdir, sys_lstatat = unix_lstatat,
      sys_closedir = (\<lambda>i u. u\<lparr>u_streams := (u_streams u)(i := None)\<rparr>),
      sys_open = unix_open, sys_read = unix_read, sys_write = unix_write,
      sys_fsync = (\<lambda>_. unix_fault), sys_close = unix_close, sys_mkdir = unix_mkdir,
      sys_rename = unix_rename, sys_unlink = unix_unlink\<rparr>"

lemmas unix_defs = unix_opendir_def unix_readdir_def unix_lstatat_def unix_open_def unix_read_def unix_write_def
  unix_close_def unix_mkdir_def unix_rename_def unix_unlink_def

lemma unix_fault_frame:
  "unix_fault u = (e, u1) \<Longrightarrow> u_files u1 = u_files u \<and> u_fds u1 = u_fds u \<and> u_streams u1 = u_streams u \<and>
     u_io u1 = u_io u \<and> u_dirs u1 = u_dirs u"
  by (auto simp: unix_fault_def split: list.splits)

lemma unix_io_frame:
  "unix_io n u = (r, u1) \<Longrightarrow> u_files u1 = u_files u \<and> u_fds u1 = u_fds u \<and> r \<noteq> Inl E_NONE"
  by (auto simp: unix_io_def real_errno_def split: list.splits io_event.splits if_splits)

interpretation unix: posix_kernel unix_kernel u_files "\<lambda>u fd. map_option fst (u_fds u fd)"
  by unfold_locales
    (auto simp: unix_kernel_def unix_defs split: prod.splits if_splits option.splits list.splits sum.splits
      dest!: unix_fault_frame unix_io_frame)

section \<open>The retry loops end\<close>

text \<open>An interruption uses up the script, a dot entry uses up the listing.\<close>

definition unix_budget :: "nat \<Rightarrow> unix \<Rightarrow> nat" where
  "unix_budget i u =
     length (u_io u) + (case u_streams u i of None \<Rightarrow> 0 | Some (all, rest) \<Rightarrow> length rest) + 2"

lemma unix_read_progress:
  "unix_read fd n u = (Inl EINTR, u1) \<Longrightarrow> length (u_io u1) < length (u_io u)"
  by (auto simp: unix_read_def unix_io_def real_errno_def split: list.splits io_event.splits option.splits if_splits)

lemma read_retry_returns: "length (u_io u) < fuel \<Longrightarrow> read_retry fuel unix_kernel fd n u \<noteq> None"
proof (induction fuel arbitrary: u)
  case (Suc fuel)
  have k: "sys_read unix_kernel = unix_read" by (simp add: unix_kernel_def)
  obtain r u1 where r: "unix_read fd n u = (r, u1)" by fastforce
  show ?case
  proof (cases "r = Inl EINTR")
    case True
    with unix_read_progress r Suc.prems have "length (u_io u1) < fuel" by fastforce
    with Suc.IH r k True show ?thesis by simp
  qed (use r k in \<open>auto split: sum.splits\<close>)
qed simp

lemma unix_write_io:
  assumes "u_fds u fd = Some (p, off)" "u_files u p = Some c"
  shows "unix_write fd d u =
    (case u_io u of
       [] \<Rightarrow> (Inr (length d), u\<lparr>u_files := (u_files u)(p \<mapsto> c @ d)\<rparr>)
     | Io_fails e # es \<Rightarrow> (Inl (real_errno e), u\<lparr>u_io := es\<rparr>)
     | Io_moves m # es \<Rightarrow> (Inr (min m (length d)), u\<lparr>u_io := es, u_files := (u_files u)(p \<mapsto> c @ take m d)\<rparr>))"
  using assms
  by (auto simp: unix_write_def unix_io_def min_def split: list.split io_event.split)

text \<open>Interruptions and short writes; a write of no bytes is the code's sign of a failure.\<close>

definition harmless :: "io_event \<Rightarrow> bool" where
  "harmless e = (case e of Io_fails f \<Rightarrow> f = EINTR | Io_moves m \<Rightarrow> 0 < m)"

lemma write_loop_completes:
  assumes "length (u_io u) + 1 < fuel" and "list_all harmless (u_io u)"
    and "u_fds u fd = Some (p, off)" and "u_files u p = Some c"
  shows "\<exists>u'. write_loop fuel unix_kernel fd d u = Some (None, u') \<and> u_files u' = (u_files u)(p \<mapsto> c @ d) \<and>
    u_faults u' = u_faults u \<and> u_fds u' = u_fds u"
  using assms
proof (induction fuel arbitrary: u d c)
  case (Suc fuel)
  have k: "sys_write unix_kernel = unix_write" by (simp add: unix_kernel_def)
  note w = unix_write_io [OF Suc.prems(3,4), of d]
  show ?case
  proof (cases "d = []")
    case True
    with Suc.prems show ?thesis by (simp add: map_upd_triv)
  next
    case d: False
    show ?thesis
    proof (cases "u_io u")
      case Nil
      obtain f where "fuel = Suc f" using Suc.prems(1) by (cases fuel) auto
      with Nil d w k show ?thesis by (simp add: fun_eq_iff)
    next
      case (Cons e es)
      show ?thesis
      proof (cases e)
        case (Io_fails f)
        with Cons Suc.prems(2) have "f = EINTR" by (simp add: harmless_def)
        with Suc.IH [of "u\<lparr>u_io := es\<rparr>" c d] Suc.prems Cons Io_fails d w k show ?thesis by (simp add: real_errno_def)
      next
        case (Io_moves m)
        with Cons Suc.prems(2) have m: "0 < m" by (simp add: harmless_def)
        let ?u1 = "u\<lparr>u_io := es, u_files := (u_files u)(p \<mapsto> c @ take m d)\<rparr>"
        have loop: "write_loop (Suc fuel) unix_kernel fd d u = write_loop fuel unix_kernel fd (drop (min m (length d)) d) ?u1"
          using d m w k Cons Io_moves by (simp add: min_def)
        have rest: "take m d @ drop (min m (length d)) d = d" by (simp add: min_def)
        obtain u' where u': "write_loop fuel unix_kernel fd (drop (min m (length d)) d) ?u1 = Some (None, u')"
            "u_files u' = (u_files ?u1)(p \<mapsto> (c @ take m d) @ drop (min m (length d)) d)"
            "u_faults u' = u_faults ?u1" "u_fds u' = u_fds ?u1"
          using Suc.IH [of ?u1 "c @ take m d" "drop (min m (length d)) d"] Suc.prems Cons by (auto simp: fun_eq_iff)
        have "u_files u' = (u_files u)(p \<mapsto> c @ d)" using u'(2) rest by (simp add: fun_eq_iff)
        with u' show ?thesis unfolding loop by auto
      qed
    qed
  qed
qed simp

text \<open>
  A write gets through: however often the kernel interrupts the call and however few bytes it
  takes at a time, with no real failure the write ends within the budget, reports success, and the
  file holds exactly the data; no other file changes.
\<close>

theorem write_survives_interruptions:
  assumes "list_all harmless (u_io u)" and "u_faults u = []"
  shows "\<exists>u'. posix_write_file (unix_budget i u) unix_kernel path data u = Some (USBS_OK, u') \<and>
    u_files u' = (u_files u)(path \<mapsto> data)"
proof -
  let ?u1 = "u\<lparr>u_files := (u_files u)(path \<mapsto> []), u_fds := (u_fds u)(u_next u \<mapsto> (path, 0)), u_next := Suc (u_next u)\<rparr>"
  have k: "sys_open unix_kernel = unix_open" "sys_fsync unix_kernel fd = unix_fault" "sys_close unix_kernel = unix_close" for fd
    by (simp_all add: unix_kernel_def)
  have "unix_open O_WRONLY_CREAT_TRUNC path u = (Inr (u_next u), ?u1)"
    using assms(2) by (simp add: unix_open_def unix_fault_def)
  moreover obtain u2 where "write_loop (unix_budget i u) unix_kernel (u_next u) data ?u1 = Some (None, u2)"
      "u_files u2 = (u_files u)(path \<mapsto> data)" "u_faults u2 = []"
    using write_loop_completes [of ?u1 "unix_budget i u" "u_next u" path 0 "[]" data] assms
    by (auto simp: unix_budget_def)
  ultimately show ?thesis
    by (simp add: posix_write_file_def k unix_fault_def unix_close_def)
qed

definition unix_empty :: unix where
  "unix_empty = \<lparr>u_files = (\<lambda>_. None), u_dirs = (\<lambda>_. None), u_streams = (\<lambda>_. None), u_fds = (\<lambda>_. None),
     u_next = 3, u_io = [], u_faults = []\<rparr>"

lemma write_survives_interruptions_witness:
  "\<exists>u'. posix_write_file (unix_budget 0 (unix_empty\<lparr>u_io := [Io_moves 2, Io_fails EINTR, Io_moves 1]\<rparr>)) unix_kernel ''/s/r''
      ''hello'' (unix_empty\<lparr>u_io := [Io_moves 2, Io_fails EINTR, Io_moves 1]\<rparr>) = Some (USBS_OK, u') \<and>
    u_files u' ''/s/r'' = Some ''hello''"
proof -
  let ?u = "unix_empty\<lparr>u_io := [Io_moves 2, Io_fails EINTR, Io_moves 1]\<rparr>"
  have "list_all harmless (u_io ?u)" "u_faults ?u = []" by (simp_all add: harmless_def unix_empty_def)
  from write_survives_interruptions [OF this, of 0 "''/s/r''" "''hello''"] show ?thesis by auto
qed


section \<open>Listing a directory\<close>

text \<open>What the boundary should show of an entry: its sanitised name and its own kind, links as links.\<close>

definition entry_shown :: "dirent \<times> file_stat \<Rightarrow> usbs_dir_entry" where
  "entry_shown x =
     (case x of (d, st) \<Rightarrow>
        \<lparr>entry_name = sanitize_utf8 (d_name d) USBS_NAME_MAX, is_directory = (st_mode st = S_DIR),
         is_reparse_point = (st_mode st = S_LNK), is_hidden = (\<exists>n. d_name d = CHR ''.'' # n),
         size_bytes = (if st_mode st = S_DIR then 0 else st_size st)\<rparr>)"

lemma unix_dir_next:
  assumes "u_streams u i = Some (all, rest)" and "u_faults u = []" and "distinct (map (d_name \<circ> fst) all)"
    and "set rest \<subseteq> set all" and "length rest < fuel"
  shows "case filter (\<lambda>(d, st). \<not> is_dot_entry (d_name d)) rest of
      [] \<Rightarrow> \<exists>u'. posix_dir_next fuel unix_kernel i u = Some (Inl USBS_ERR_NOT_FOUND, u')
    | x # xs \<Rightarrow> \<exists>rest'. posix_dir_next fuel unix_kernel i u =
        Some (Inr (entry_shown x), u\<lparr>u_streams := (u_streams u)(i \<mapsto> (all, rest'))\<rparr>) \<and>
        filter (\<lambda>(d, st). \<not> is_dot_entry (d_name d)) rest' = xs \<and> set rest' \<subseteq> set all \<and> length rest' < length rest"
  using assms
proof (induction fuel arbitrary: u rest)
  case (Suc fuel)
  have k: "sys_readdir unix_kernel = unix_readdir" "sys_lstatat unix_kernel = unix_lstatat"
    by (simp_all add: unix_kernel_def)
  show ?case
  proof (cases rest)
    case Nil
    with Suc.prems k show ?thesis by (simp add: unix_readdir_def unix_fault_def)
  next
    case (Cons x xs)
    obtain d st where x: "x = (d, st)" by fastforce
    let ?u1 = "u\<lparr>u_streams := (u_streams u)(i \<mapsto> (all, xs))\<rparr>"
    have read: "unix_readdir i u = (Inr d, ?u1)"
      using Suc.prems(1,2) Cons x by (simp add: unix_readdir_def unix_fault_def)
    show ?thesis
    proof (cases "is_dot_entry (d_name d)")
      case True
      have "set xs \<subseteq> set all" "length xs < fuel" using Suc.prems(4,5) Cons by auto
      note ih = Suc.IH [of ?u1 xs, OF _ _ Suc.prems(3) this]
      have again: "?u1\<lparr>u_streams := (u_streams ?u1)(i \<mapsto> (all, r))\<rparr> = u\<lparr>u_streams := (u_streams u)(i \<mapsto> (all, r))\<rparr>" for r
        by simp
      have skip: "posix_dir_next (Suc fuel) unix_kernel i u = posix_dir_next fuel unix_kernel i ?u1"
        "filter (\<lambda>(d, st). \<not> is_dot_entry (d_name d)) rest = filter (\<lambda>(d, st). \<not> is_dot_entry (d_name d)) xs"
        using True Cons x read k by simp_all
      show ?thesis
      proof (cases "filter (\<lambda>(d, st). \<not> is_dot_entry (d_name d)) xs")
        case Nil
        with ih Suc.prems(2) show ?thesis unfolding skip by simp
      next
        case (Cons y ys)
        with ih Suc.prems(2) obtain r where r: "posix_dir_next fuel unix_kernel i ?u1 =
            Some (Inr (entry_shown y), ?u1\<lparr>u_streams := (u_streams ?u1)(i \<mapsto> (all, r))\<rparr>)"
          "filter (\<lambda>(d, st). \<not> is_dot_entry (d_name d)) r = ys" "set r \<subseteq> set all" "length r < length xs"
          by auto
        then have "length r < length rest" using \<open>rest = x # xs\<close> by simp
        with r Cons show ?thesis unfolding skip again by (simp only: list.case) blast
      qed
    next
      case False
      have "(d, st) \<in> set all" using Suc.prems(4) Cons x by simp
      then have "find (\<lambda>(e, _). d_name e = d_name d) all = Some (d, st)"
        using Suc.prems(3)
        by (induction all) (auto simp: image_iff split: prod.splits)
      then have "unix_lstatat i (d_name d) ?u1 = (Inr st, ?u1)"
        using Suc.prems(2) by (simp add: unix_lstatat_def unix_fault_def)
      then have "fill_entry unix_kernel i d ?u1 = (entry_shown (d, st), ?u1)"
        by (cases "d_name d") (simp_all add: fill_entry_def k entry_shown_def Let_def)
      with False Cons x read k Suc.prems(4) show ?thesis by auto
    qed
  qed
qed simp

lemma unix_dir_list:
  assumes "u_streams u i = Some (all, rest)" and "u_faults u = []" and "distinct (map (d_name \<circ> fst) all)"
    and "set rest \<subseteq> set all" and "length rest < fuel"
  shows "\<exists>u'. dir_list fuel (posix_platform unix_budget env mem unix_kernel) i u =
    Some (map entry_shown (filter (\<lambda>(d, st). \<not> is_dot_entry (d_name d)) rest), USBS_ERR_NOT_FOUND, u')"
  using assms
proof (induction fuel arbitrary: u rest)
  case (Suc fuel)
  let ?P = "posix_platform unix_budget env mem unix_kernel"
  let ?real = "filter (\<lambda>(d, st). \<not> is_dot_entry (d_name d)) rest"
  have P: "dir_next ?P = (\<lambda>i u. or_give_up u (posix_dir_next (unix_budget i u) unix_kernel i u))"
    by (simp add: posix_platform_def)
  have "length rest < unix_budget i u" using Suc.prems(1) by (simp add: unix_budget_def)
  note n = unix_dir_next [OF Suc.prems(1-4) this]
  show ?case
  proof (cases ?real)
    case Nil
    with n show ?thesis by (auto simp: P or_give_up_def)
  next
    case (Cons x xs)
    with n obtain rest' where r: "posix_dir_next (unix_budget i u) unix_kernel i u =
        Some (Inr (entry_shown x), u\<lparr>u_streams := (u_streams u)(i \<mapsto> (all, rest'))\<rparr>)"
      "filter (\<lambda>(d, st). \<not> is_dot_entry (d_name d)) rest' = xs" "set rest' \<subseteq> set all" "length rest' < length rest"
      by auto
    have "length rest' < fuel" using r(4) Suc.prems(5) by simp
    with Suc.IH [of "u\<lparr>u_streams := (u_streams u)(i \<mapsto> (all, rest'))\<rparr>" rest', OF _ _ Suc.prems(3) r(3)] Suc.prems(2)
    show ?thesis by (auto simp: P or_give_up_def r Cons)
  qed
qed simp

text \<open>
  C16 A listing is complete and never looks through a link: with no failing call, opening a directory
  and reading it to the end delivers, in order, every entry except the two dot entries, each under
  its sanitised name and with its own kind and size, a symbolic link as a link and never as the
  directory or file it points to.
\<close>

theorem posix_listing_is_complete:
  assumes "u_dirs u p = Some l" and "u_faults u = []" and "distinct (map (d_name \<circ> fst) l)" and "length l < fuel"
    and "mem SIZEOF_DIR_ITER"
  shows "\<exists>i u1 u2. dir_open (posix_platform unix_budget env mem unix_kernel) p u = (Inr i, u1) \<and>
    dir_list fuel (posix_platform unix_budget env mem unix_kernel) i u1 =
      Some (map entry_shown (filter (\<lambda>(d, st). \<not> is_dot_entry (d_name d)) l), USBS_ERR_NOT_FOUND, u2)"
proof -
  let ?u1 = "u\<lparr>u_streams := (u_streams u)(u_next u \<mapsto> (l, l)), u_next := Suc (u_next u)\<rparr>"
  have "dir_open (posix_platform unix_budget env mem unix_kernel) p u = (Inr (u_next u), ?u1)"
    using assms(1,2,5)
    by (simp add: posix_platform_def posix_dir_open_def unix_kernel_def unix_opendir_def unix_fault_def)
  moreover obtain u2 where "dir_list fuel (posix_platform unix_budget env mem unix_kernel) (u_next u) ?u1 =
      Some (map entry_shown (filter (\<lambda>(d, st). \<not> is_dot_entry (d_name d)) l), USBS_ERR_NOT_FOUND, u2)"
    using unix_dir_list [of ?u1 "u_next u" l l fuel env mem] assms(2-4) by auto
  ultimately show ?thesis by blast
qed

definition linked_dir :: "(dirent \<times> file_stat) list" where
  "linked_dir =
     [(\<lparr>d_name = ''.'', d_type = DT_DIR\<rparr>, \<lparr>st_mode = S_DIR, st_size = 4096\<rparr>),
      (\<lparr>d_name = ''root'', d_type = DT_LNK\<rparr>, \<lparr>st_mode = S_LNK, st_size = 1\<rparr>),
      (\<lparr>d_name = ''.x'', d_type = DT_UNKNOWN\<rparr>, \<lparr>st_mode = S_REG, st_size = 9\<rparr>)]"

lemma posix_listing_is_complete_witness:
  "\<exists>i u1 u2. dir_open (posix_platform unix_budget Map.empty mem_always unix_kernel) ''/m''
      (unix_empty\<lparr>u_dirs := [''/m'' \<mapsto> linked_dir]\<rparr>) = (Inr i, u1) \<and>
    dir_list 9 (posix_platform unix_budget Map.empty mem_always unix_kernel) i u1 =
      Some ([\<lparr>entry_name = ''root'', is_directory = False, is_reparse_point = True, is_hidden = False, size_bytes = 1\<rparr>,
             \<lparr>entry_name = ''.x'', is_directory = False, is_reparse_point = False, is_hidden = True, size_bytes = 9\<rparr>],
            USBS_ERR_NOT_FOUND, u2)"
proof -
  let ?u = "unix_empty\<lparr>u_dirs := [''/m'' \<mapsto> linked_dir]\<rparr>"
  have u: "u_dirs ?u ''/m'' = Some linked_dir" "u_faults ?u = []" by (simp_all add: unix_empty_def)
  have d: "distinct (map (d_name \<circ> fst) linked_dir)" "length linked_dir < 9" by (simp_all add: linked_dir_def)
  have names: "sanitize_utf8 ''root'' USBS_NAME_MAX = ''root''" "sanitize_utf8 ''.x'' USBS_NAME_MAX = ''.x''"
    by code_simp+
  have shown: "map entry_shown (filter (\<lambda>(d, st). \<not> is_dot_entry (d_name d)) linked_dir) =
      [\<lparr>entry_name = ''root'', is_directory = False, is_reparse_point = True, is_hidden = False, size_bytes = 1\<rparr>,
       \<lparr>entry_name = ''.x'', is_directory = False, is_reparse_point = False, is_hidden = True, size_bytes = 9\<rparr>]"
    by (simp add: linked_dir_def is_dot_entry_def entry_shown_def names)
  show ?thesis using posix_listing_is_complete [OF u d mem_always, of Map.empty] unfolding shown .
qed

end
