(* ===== verification/PosixStore.thy ===== *)
theory PosixStore
  imports PosixDisk CliFacts
begin

text \<open>
  The report store and the scan command on the POSIX layer: what StoreWrite proves of any file store
  and CliFacts of any machine, down to the system calls.
\<close>

lemma posix_host [simp]: "p_host (posix_platform budget env mem K) = Posix"
  by (simp add: posix_platform_def)


text \<open>The kernel takes two bytes, interrupts, fails the third write: the old report stays.\<close>

definition torn_unix :: unix where
  "torn_unix = unix_empty\<lparr>u_files := [''/s/scans/usb_3A1/20260911T140203Z-ab.json'' \<mapsto> ''old''],
     u_io := [Io_moves 2, Io_fails EINTR, Io_fails EIO]\<rparr>"


interpretation unix_machine: machine "\<lambda>env. posix_platform budget env mem unix_kernel" u_files
  by unfold_locales
    (auto simp: posix_platform_def intro: unix.store.write_ok unix.store.write_other unix.store.replace_ok
      unix.store.replace_fail unix.store.replace_other unix.store.delete_other unix.store.make_dirs_same
      unix.store.dir_open_same unix.store.dir_next_same unix.store.dir_close_same unix.store.file_open_same
      unix.store.file_read_same unix.store.file_close_same)

text \<open>
  So on this kernel too, however its calls are interrupted or fail, the scan command changes files
  only under the report store.
\<close>

lemma posix_scan_is_read_only:
  assumes "usbs_cli_cmd_scan X argv s = Some (st, s')"
    and "ce_platform X = posix_platform budget env mem unix_kernel" and "leaves_files u_files X"
    and "u_files (cli_world s') q \<noteq> u_files (cli_world s) q"
  shows "\<exists>root. usbs_user_data_dir Posix env USBS_STORE_PATH_MAX = (USBS_OK, root) \<and>
    prefix (snprintf_buf USBS_STORE_PATH_MAX root) q"
  using unix_machine.scan_command_files [OF assms] by simp

end
