(* ===== verification/DeviceLinux.thy ===== *)
theory DeviceLinux
  imports Posix SignatureList
begin

text \<open>
  Device enumeration on Linux, src/platform/device_linux.c, and the POSIX cancellation and source
  selection of src/platform/device_posix.c. The code reads sysfs and the mount table through the
  platform's own file operations and through some further system calls, which \<open>linux\<close> collects.
  Listings of unknown length have fuel.
\<close>

section \<open>Calls\<close>

text \<open>
  \<open>lx_stat\<close> follows links, \<open>lx_readlink\<close> is given the room for the target, \<open>lx_statvfs\<close> answers
  \<open>f_bavail\<close> and \<open>f_frsize\<close>, \<open>lx_sigaction\<close> whether the handler could be installed.
\<close>

record 's linux =
  lx_platform :: "'s platform"
  lx_kernel :: "'s kernel"
  lx_stat :: "string \<Rightarrow> 's \<Rightarrow> (errno + file_stat) \<times> 's"
  lx_readlink :: "string \<Rightarrow> nat \<Rightarrow> 's \<Rightarrow> (errno + string) \<times> 's"
  lx_realpath :: "string \<Rightarrow> 's \<Rightarrow> (errno + string) \<times> 's"
  lx_statvfs :: "string \<Rightarrow> 's \<Rightarrow> (errno + usbs_u64 \<times> usbs_u64) \<times> 's"
  lx_sigaction :: "string \<Rightarrow> 's \<Rightarrow> bool \<times> 's"

definition DEVICE_LINUX_PATH_MAX :: nat where "DEVICE_LINUX_PATH_MAX = 4096"

abbreviation dev_join :: "string \<Rightarrow> string \<Rightarrow> usbs_status \<times> string" where
  "dev_join \<equiv> usbs_path_join Posix DEVICE_LINUX_PATH_MAX"

section \<open>Attributes\<close>

fun sysfs_read_loop :: "nat \<Rightarrow> 's platform \<Rightarrow> nat \<Rightarrow> nat \<Rightarrow> string \<Rightarrow> 's \<Rightarrow> (string \<times> 's) option" where
  "sysfs_read_loop 0 P fh cap buf s = None"
| "sysfs_read_loop (Suc fuel) P fh cap buf s =
     (if length buf \<ge> cap - 1 then Some (buf, s)
      else
        (case file_read P fh (cap - 1 - length buf) s of
           (Inl st, s1) \<Rightarrow> Some (buf, s1)
         | (Inr bytes, s1) \<Rightarrow>
             if bytes = [] then Some (buf, s1) else sysfs_read_loop fuel P fh cap (buf @ bytes) s1))"

definition strip_blank_end :: "string \<Rightarrow> string" where
  "strip_blank_end s = rev (dropWhile (\<lambda>c. c \<le> CHR '' '') (rev s))"

text \<open>Every iteration reads a byte at least, so \<open>cap\<close> iterations are enough.\<close>

definition read_sysfs_string :: "'s platform \<Rightarrow> string \<Rightarrow> nat \<Rightarrow> 's \<Rightarrow> usbs_status \<times> string \<times> 's" where
  "read_sysfs_string P path cap s =
     (if cap = 0 then (USBS_ERR_INVALID_ARG, [], s)
      else
        (case file_open_read P path s of
           (Inl st, s1) \<Rightarrow> (st, [], s1)
         | (Inr fh, s1) \<Rightarrow>
             (case the (sysfs_read_loop (Suc cap) P fh cap [] s1) of
                (buf, s2) \<Rightarrow> (USBS_OK, cstr (strip_blank_end buf), file_close P fh s2))))"

definition read_sysfs_u64 :: "'s platform \<Rightarrow> string \<Rightarrow> 's \<Rightarrow> usbs_u64 option \<times> 's" where
  "read_sysfs_u64 P path s =
     (case read_sysfs_string P path 32 s of
        (st, t, s1) \<Rightarrow>
          if \<not> usbs_ok st \<or> t = [] then (None, s1)
          else (case c_strtoull t of (v, rest) \<Rightarrow> (if rest = t then None else Some v, s1)))"

definition attr_file_exists :: "'s platform \<Rightarrow> string \<Rightarrow> 's \<Rightarrow> bool \<times> 's" where
  "attr_file_exists P path s =
     (case file_open_read P path s of
        (Inl st, s1) \<Rightarrow> (False, s1)
      | (Inr fh, s1) \<Rightarrow> (True, file_close P fh s1))"

section \<open>Partitions and whole disks\<close>

definition is_partition_entry :: "'s platform \<Rightarrow> string \<Rightarrow> 's \<Rightarrow> bool \<times> 's" where
  "is_partition_entry P entry_dir s =
     (case dev_join entry_dir ''partition'' of
        (st, path) \<Rightarrow> if \<not> usbs_ok st then (False, s) else attr_file_exists P path s)"

fun partition_child_loop :: "nat \<Rightarrow> 's platform \<Rightarrow> string \<Rightarrow> nat \<Rightarrow> 's \<Rightarrow> (bool \<times> 's) option" where
  "partition_child_loop 0 P entry_dir it s = None"
| "partition_child_loop (Suc fuel) P entry_dir it s =
     (case dir_next P it s of
        (Inl st, s1) \<Rightarrow> Some (False, s1)
      | (Inr child, s1) \<Rightarrow>
          if \<not> is_directory child then partition_child_loop fuel P entry_dir it s1
          else
            (case dev_join entry_dir (entry_name child) of
               (st, path) \<Rightarrow>
                 if \<not> usbs_ok st then partition_child_loop fuel P entry_dir it s1
                 else
                   (case is_partition_entry P path s1 of
                      (True, s2) \<Rightarrow> Some (True, s2)
                    | (False, s2) \<Rightarrow> partition_child_loop fuel P entry_dir it s2)))"

definition disk_has_partition_children :: "nat \<Rightarrow> 's platform \<Rightarrow> string \<Rightarrow> 's \<Rightarrow> (bool \<times> 's) option" where
  "disk_has_partition_children fuel P entry_dir s =
     (case dir_open P entry_dir s of
        (Inl st, s1) \<Rightarrow> Some (False, s1)
      | (Inr it, s1) \<Rightarrow>
          map_option (\<lambda>(found, s2). (found, dir_close P it s2)) (partition_child_loop fuel P entry_dir it s1))"

definition whole_disk_dir :: "string \<Rightarrow> bool \<Rightarrow> nat \<Rightarrow> usbs_status \<times> string" where
  "whole_disk_dir entry_dir own_partition cap =
     (if own_partition then usbs_path_join Posix cap entry_dir ''..''
      else if length entry_dir \<ge> cap then (USBS_ERR_NO_MEMORY, snprintf_buf cap entry_dir)
      else (USBS_OK, entry_dir))"

definition fill_capacity_and_removable ::
  "'s platform \<Rightarrow> string \<Rightarrow> bool \<Rightarrow> usbs_device \<Rightarrow> 's \<Rightarrow> usbs_device \<times> 's" where
  "fill_capacity_and_removable P entry_dir own_partition d s =
     (case (case dev_join entry_dir ''size'' of
              (st, path) \<Rightarrow> if usbs_ok st then read_sysfs_u64 P path s else (None, s)) of
        (sectors, s1) \<Rightarrow>
          (let d1 = (case sectors of None \<Rightarrow> d | Some n \<Rightarrow> d\<lparr>capacity_bytes := n * 512\<rparr>)
           in (case whole_disk_dir entry_dir own_partition DEVICE_LINUX_PATH_MAX of
                 (st2, disk_dir) \<Rightarrow>
                   if \<not> usbs_ok st2 then (d1, s1)
                   else
                     (case (case dev_join disk_dir ''removable'' of
                              (st3, path) \<Rightarrow> if usbs_ok st3 then read_sysfs_u64 P path s1 else (None, s1)) of
                        (removable, s2) \<Rightarrow>
                          (case removable of None \<Rightarrow> d1 | Some r \<Rightarrow> d1\<lparr>removable_media := (r \<noteq> 0)\<rparr>, s2)))))"

section \<open>The USB ancestor\<close>

text \<open>\<open>strrchr(path, '/')\<close>: what is before the last slash, and what is after it.\<close>

definition before_last_slash :: "string \<Rightarrow> string option" where
  "before_last_slash path =
     (if CHR ''/'' \<notin> set path then None else Some (rev (drop 1 (dropWhile (\<lambda>c. c \<noteq> CHR ''/'') (rev path)))))"

definition after_last_slash :: "string \<Rightarrow> string" where
  "after_last_slash path = rev (takeWhile (\<lambda>c. c \<noteq> CHR ''/'') (rev path))"

definition truncate_to_parent :: "string \<Rightarrow> string option" where
  "truncate_to_parent path =
     (case before_last_slash path of
        None \<Rightarrow> None
      | Some parent \<Rightarrow> if parent = [] then None else Some parent)"

definition read_subsystem_name :: "'s linux \<Rightarrow> string \<Rightarrow> nat \<Rightarrow> 's \<Rightarrow> string \<times> 's" where
  "read_subsystem_name L dir cap s =
     (case dev_join dir ''subsystem'' of
        (st, link_path) \<Rightarrow>
          if \<not> usbs_ok st then ([], s)
          else
            (case lx_readlink L link_path (DEVICE_LINUX_PATH_MAX - 1) s of
               (Inl e, s1) \<Rightarrow> ([], s1)
             | (Inr link, s1) \<Rightarrow> if link = [] then ([], s1) else (snprintf_buf cap (after_last_slash (cstr link)), s1)))"

text \<open>An optional attribute of \<open>dir\<close>: \<open>None\<close> when the path does not fit, else what reading it gave.\<close>

definition read_attr :: "'s platform \<Rightarrow> string \<Rightarrow> string \<Rightarrow> nat \<Rightarrow> 's \<Rightarrow> (usbs_status \<times> string) option \<times> 's" where
  "read_attr P dir name cap s =
     (case dev_join dir name of
        (st, path) \<Rightarrow>
          if \<not> usbs_ok st then (None, s)
          else (case read_sysfs_string P path cap s of (st2, t, s1) \<Rightarrow> (Some (st2, t), s1)))"

definition fill_usb_ids :: "'s platform \<Rightarrow> string \<Rightarrow> string \<Rightarrow> usbs_device \<Rightarrow> 's \<Rightarrow> usbs_device \<times> 's" where
  "fill_usb_ids P dir id_path d s =
     (let d0 = d\<lparr>bus_type := USBS_BUS_USB\<rparr>
      in (case read_sysfs_string P id_path 16 s of
            (st, t, s1) \<Rightarrow>
              (let d1 = (if usbs_ok st then d0\<lparr>usb_vid := take 4 t\<rparr> else d0)
               in (case read_attr P dir ''idProduct'' 16 s1 of
                     (r2, s2) \<Rightarrow>
                       (let d2 = (case r2 of Some (st2, t2) \<Rightarrow> if usbs_ok st2 then d1\<lparr>usb_pid := take 4 t2\<rparr> else d1
                                  | None \<Rightarrow> d1)
                        in (case read_attr P dir ''manufacturer'' 128 s2 of
                              (r3, s3) \<Rightarrow>
                                (let d3 = (case r3 of Some (st3, t3) \<Rightarrow> d2\<lparr>vendor := t3\<rparr> | None \<Rightarrow> d2)
                                 in (case read_attr P dir ''product'' 128 s3 of
                                       (r4, s4) \<Rightarrow>
                                         (let d4 = (case r4 of Some (st4, t4) \<Rightarrow> d3\<lparr>product := t4\<rparr> | None \<Rightarrow> d3)
                                          in (case read_attr P dir ''serial'' 128 s4 of
                                                (r5, s5) \<Rightarrow>
                                                  (case r5 of Some (st5, t5) \<Rightarrow> d4\<lparr>serial := t5\<rparr> | None \<Rightarrow> d4,
                                                   s5)))))))))))"

definition is_usb_device_node :: "'s linux \<Rightarrow> string \<Rightarrow> 's \<Rightarrow> string option \<times> 's" where
  "is_usb_device_node L dir s =
     (case read_subsystem_name L dir 64 s of
        (subsystem, s1) \<Rightarrow>
          if subsystem \<noteq> ''usb'' then (None, s1)
          else
            (case dev_join dir ''idVendor'' of
               (st, id_path) \<Rightarrow>
                 if \<not> usbs_ok st then (None, s1)
                 else
                   (case attr_file_exists (lx_platform L) id_path s1 of
                      (found, s2) \<Rightarrow> (if found then Some id_path else None, s2))))"

fun usb_walk_loop :: "nat \<Rightarrow> 's linux \<Rightarrow> string \<Rightarrow> usbs_device \<Rightarrow> 's \<Rightarrow> usbs_device \<times> 's" where
  "usb_walk_loop 0 L dir d s = (d, s)"
| "usb_walk_loop (Suc depth) L dir d s =
     (case is_usb_device_node L dir s of
        (Some id_path, s1) \<Rightarrow> fill_usb_ids (lx_platform L) dir id_path d s1
      | (None, s1) \<Rightarrow>
          (case truncate_to_parent dir of
             None \<Rightarrow> (d, s1)
           | Some parent \<Rightarrow> usb_walk_loop depth L parent d s1))"

definition usb_walk_up :: "'s linux \<Rightarrow> string \<Rightarrow> usbs_device \<Rightarrow> 's \<Rightarrow> usbs_device \<times> 's" where
  "usb_walk_up L start_dir d s = usb_walk_loop 12 L (snprintf_buf DEVICE_LINUX_PATH_MAX start_dir) d s"

section \<open>Escapes\<close>

definition is_octal :: "char \<Rightarrow> bool" where
  "is_octal c \<longleftrightarrow> CHR ''0'' \<le> c \<and> c \<le> CHR ''7''"

definition octal_value :: "string \<Rightarrow> nat" where
  "octal_value t = (of_char (t ! 0) - 48) * 64 + (of_char (t ! 1) - 48) * 8 + (of_char (t ! 2) - 48)"

text \<open>The loop copies towards the front of the same buffer; the cast to \<open>char\<close> keeps the low byte.\<close>

function unescape_octal :: "string \<Rightarrow> string" where
  "unescape_octal [] = []"
| "unescape_octal (x # xs) =
     (if x = CHR 0x5C \<and> 3 \<le> length xs \<and> list_all is_octal (take 3 xs)
      then char_of (octal_value (take 3 xs)) # unescape_octal (drop 3 xs)
      else x # unescape_octal xs)"
  by pat_completeness auto

termination by (relation "measure length") auto

definition unescape_mountinfo_field :: "string \<Rightarrow> string" where
  "unescape_mountinfo_field field = cstr (unescape_octal field)"

definition udev_hex_value :: "char \<Rightarrow> nat option" where
  "udev_hex_value c =
     (if CHR ''0'' \<le> c \<and> c \<le> CHR ''9'' then Some (of_char c - of_char CHR ''0'')
      else if CHR ''a'' \<le> c \<and> c \<le> CHR ''f'' then Some (of_char c - of_char CHR ''a'' + 10)
      else if CHR ''A'' \<le> c \<and> c \<le> CHR ''F'' then Some (of_char c - of_char CHR ''A'' + 10)
      else None)"

function unescape_hex :: "string \<Rightarrow> string" where
  "unescape_hex [] = []"
| "unescape_hex (x # xs) =
     (if x = CHR 0x5C \<and> 3 \<le> length xs \<and> xs ! 0 = CHR ''x'' \<and> udev_hex_value (xs ! 1) \<noteq> None \<and> udev_hex_value (xs ! 2) \<noteq> None
      then char_of (the (udev_hex_value (xs ! 1)) * 16 + the (udev_hex_value (xs ! 2))) # unescape_hex (drop 3 xs)
      else x # unescape_hex xs)"
  by pat_completeness auto

termination by (relation "measure length") auto

definition usbs_linux_unescape_udev_name :: "string \<Rightarrow> string" where
  "usbs_linux_unescape_udev_name name = cstr (unescape_hex name)"

section \<open>The mount table\<close>

text \<open>\<open>sscanf(dev_id, "%u:%u", \<dots>) == 2\<close>; a number is converted as by \<open>strtoull\<close> and then cut to 32 bits.\<close>

definition scan_unsigned :: "string \<Rightarrow> (usbs_u32 \<times> string) option" where
  "scan_unsigned s = (case c_strtoull s of (v, rest) \<Rightarrow> if rest = s then None else Some (ucast v, rest))"

definition scan_dev_id :: "string \<Rightarrow> (usbs_u32 \<times> usbs_u32) option" where
  "scan_dev_id s =
     (case scan_unsigned s of
        Some (major, CHR '':'' # rest) \<Rightarrow> map_option (\<lambda>(minor, _). (major, minor)) (scan_unsigned rest)
      | _ \<Rightarrow> None)"

definition is_block_device :: "file_stat \<Rightarrow> usbs_u32 \<times> usbs_u32 \<Rightarrow> bool" where
  "is_block_device st node = (case st_mode st of S_BLK mj mn \<Rightarrow> mj = unat (fst node) \<and> mn = unat (snd node) | _ \<Rightarrow> False)"

definition source_matches_dev_id :: "'s linux \<Rightarrow> string \<Rightarrow> usbs_u32 \<times> usbs_u32 \<Rightarrow> 's \<Rightarrow> bool \<times> 's" where
  "source_matches_dev_id L source node s =
     (if source = [] \<or> source ! 0 \<noteq> CHR ''/'' then (False, s)
      else
        (case lx_stat L source s of
           (Inl e, s1) \<Rightarrow> (False, s1)
         | (Inr st, s1) \<Rightarrow> (is_block_device st node, s1)))"

text \<open>\<open>strtok_r\<close> with one delimiter: the next token and what is left of the string.\<close>

definition strtok :: "char \<Rightarrow> string \<Rightarrow> (string \<times> string) option" where
  "strtok d s =
     (let t = dropWhile (\<lambda>c. c = d) s
      in if t = [] then None else Some (takeWhile (\<lambda>c. c \<noteq> d) t, drop 1 (dropWhile (\<lambda>c. c \<noteq> d) t)))"

lemma strtok_shorter: "strtok d s = Some (t, r) \<Longrightarrow> length r < length s"
proof -
  assume "strtok d s = Some (t, r)"
  then have "dropWhile (\<lambda>c. c = d) s \<noteq> []" "r = drop 1 (dropWhile (\<lambda>c. c \<noteq> d) (dropWhile (\<lambda>c. c = d) s))"
    by (auto simp: strtok_def Let_def split: if_splits)
  moreover have "length (dropWhile (\<lambda>c. c \<noteq> d) (dropWhile (\<lambda>c. c = d) s)) \<le> length s"
    by (meson length_dropWhile_le order_trans)
  moreover have "s \<noteq> []" using calculation(1) by auto
  ultimately show ?thesis by (cases s) auto
qed

function tokens :: "char \<Rightarrow> string \<Rightarrow> string list" where
  "tokens d s = (case strtok d s of None \<Rightarrow> [] | Some (t, r) \<Rightarrow> t # tokens d r)"
  by pat_completeness auto

termination by (relation "measure (\<lambda>(d, s). length s)") (auto dest: strtok_shorter)

declare tokens.simps [simp del]

definition MOUNTINFO_CAP :: nat where "MOUNTINFO_CAP = 1024 * 1024"
definition MOUNTINFO_READ_CHUNK :: nat where "MOUNTINFO_READ_CHUNK = 8192"

fun mountinfo_read_loop :: "nat \<Rightarrow> 's platform \<Rightarrow> nat \<Rightarrow> string \<Rightarrow> 's \<Rightarrow> (string \<times> 's) option" where
  "mountinfo_read_loop 0 P fh buf s = None"
| "mountinfo_read_loop (Suc fuel) P fh buf s =
     (let want = MOUNTINFO_CAP - 1 - length buf
      in if want = 0 then Some (buf, s)
         else
           (case file_read P fh (if want > MOUNTINFO_READ_CHUNK then MOUNTINFO_READ_CHUNK else want) s of
              (Inl st, s1) \<Rightarrow> Some (buf, s1)
            | (Inr chunk, s1) \<Rightarrow>
                if chunk = [] then Some (buf, s1) else mountinfo_read_loop fuel P fh (buf @ chunk) s1))"

text \<open>What one line says once it is split: the mount point, the type of the file system, the source.\<close>

definition parse_mount_line :: "string \<Rightarrow> (string list \<times> string option \<times> string option) option" where
  "parse_mount_line line =
     (let toks = tokens CHR '' '' line;
          rest = dropWhile (\<lambda>t. t \<noteq> ''-'') (drop 6 toks)
      in if length toks < 6 \<or> rest = [] then None
         else
           (let after = tl rest
            in Some (take 6 toks, if after = [] then None else Some (hd after),
                     if length after < 2 then None else Some (after ! 1))))"

definition add_mount :: "'s linux \<Rightarrow> string \<Rightarrow> string option \<Rightarrow> usbs_device \<Rightarrow> 's \<Rightarrow> usbs_device \<times> 's" where
  "add_mount L mount_point fstype d s =
     (let d1 = (if length (mount_points d) < USBS_MOUNT_POINTS_MAX
                then d\<lparr>mount_points := mount_points d @ [snprintf_buf USBS_MOUNT_POINT_MAX mount_point]\<rparr> else d)
      in (case (if volume_path d1 = [] then
                  (case lx_stat L mount_point s of
                     (Inr st, s1) \<Rightarrow>
                       (if st_mode st = S_DIR
                        then d1\<lparr>volume_path := snd (usbs_path_join Posix USBS_VOLUME_PATH_MAX mount_point [])\<rparr> else d1,
                        s1)
                   | (Inl e, s1) \<Rightarrow> (d1, s1))
                else (d1, s)) of
            (d2, s2) \<Rightarrow>
              (case fstype of
                 Some t \<Rightarrow> if filesystem d2 = [] then d2\<lparr>filesystem := snprintf_buf 32 t\<rparr> else d2
               | None \<Rightarrow> d2,
               s2)))"

definition handle_mount_line ::
  "'s linux \<Rightarrow> string \<Rightarrow> (usbs_u32 \<times> usbs_u32) option \<Rightarrow> string \<Rightarrow> usbs_device \<Rightarrow> 's \<Rightarrow> usbs_device \<times> 's" where
  "handle_mount_line L dev_id node line d s =
     (case parse_mount_line line of
        None \<Rightarrow> (d, s)
      | Some (cols, fstype, source) \<Rightarrow>
          (case (case (node, source) of
                   (Some i, Some src) \<Rightarrow>
                     if cols ! 2 = dev_id then (True, s)
                     else source_matches_dev_id L
                            (unescape_mountinfo_field (snprintf_buf DEVICE_LINUX_PATH_MAX src)) i s
                 | _ \<Rightarrow> (cols ! 2 = dev_id, s)) of
             (is_match, s1) \<Rightarrow>
               if \<not> is_match then (d, s1)
               else
                 add_mount L (unescape_mountinfo_field (snprintf_buf DEVICE_LINUX_PATH_MAX (cols ! 4))) fstype d s1))"

fun mount_lines ::
  "'s linux \<Rightarrow> string \<Rightarrow> (usbs_u32 \<times> usbs_u32) option \<Rightarrow> string list \<Rightarrow> usbs_device \<Rightarrow> 's \<Rightarrow> usbs_device \<times> 's" where
  "mount_lines L dev_id node [] d s = (d, s)"
| "mount_lines L dev_id node (line # ls) d s =
     (case handle_mount_line L dev_id node line d s of (d1, s1) \<Rightarrow> mount_lines L dev_id node ls d1 s1)"

definition fill_free_bytes :: "'s linux \<Rightarrow> usbs_device \<Rightarrow> 's \<Rightarrow> usbs_device \<times> 's" where
  "fill_free_bytes L d s =
     (if volume_path d = [] then (d, s)
      else
        (case lx_statvfs L (volume_path d) s of
           (Inl e, s1) \<Rightarrow> (d, s1)
         | (Inr (bavail, frsize), s1) \<Rightarrow> (d\<lparr>free_bytes := bavail * frsize\<rparr>, s1)))"

definition fill_mount_info :: "'s linux \<Rightarrow> string \<Rightarrow> string \<Rightarrow> usbs_device \<Rightarrow> 's \<Rightarrow> usbs_device \<times> 's" where
  "fill_mount_info L mountinfo_path dev_id d s =
     (case file_open_read (lx_platform L) mountinfo_path s of
        (Inl st, s1) \<Rightarrow> (d, s1)
      | (Inr fh, s1) \<Rightarrow>
          if \<not> p_mem (lx_platform L) MOUNTINFO_CAP then (d, file_close (lx_platform L) fh s1)
          else
            (case the (mountinfo_read_loop (Suc MOUNTINFO_CAP) (lx_platform L) fh [] s1) of
               (buf, s2) \<Rightarrow>
                 (case mount_lines L dev_id (scan_dev_id dev_id) (tokens CHR 0x0A (cstr buf)) d
                         (file_close (lx_platform L) fh s2) of
                    (d3, s3) \<Rightarrow> fill_free_bytes L d3 s3)))"

section \<open>Labels and media\<close>

fun dev_disk_loop ::
  "nat \<Rightarrow> 's linux \<Rightarrow> string \<Rightarrow> usbs_u32 \<times> usbs_u32 \<Rightarrow> nat \<Rightarrow> 's \<Rightarrow> (string option \<times> 's) option" where
  "dev_disk_loop 0 L by_path node dir s = None"
| "dev_disk_loop (Suc fuel) L by_path node dir s =
     (case sys_readdir (lx_kernel L) dir s of
        (Inl e, s1) \<Rightarrow> Some (None, s1)
      | (Inr ent, s1) \<Rightarrow>
          if is_dot_entry (d_name ent) then dev_disk_loop fuel L by_path node dir s1
          else
            (case dev_join by_path (d_name ent) of
               (st, link_path) \<Rightarrow>
                 if \<not> usbs_ok st then dev_disk_loop fuel L by_path node dir s1
                 else
                   (case lx_stat L link_path s1 of
                      (Inr fs, s2) \<Rightarrow>
                        if is_block_device fs node then Some (Some (d_name ent), s2)
                        else dev_disk_loop fuel L by_path node dir s2
                    | (Inl e, s2) \<Rightarrow> dev_disk_loop fuel L by_path node dir s2)))"

text \<open>The name of the matching link as udev spells it, cut to \<open>out_cap\<close> and then decoded.\<close>

definition find_dev_disk_match ::
  "nat \<Rightarrow> 's linux \<Rightarrow> string \<Rightarrow> string \<Rightarrow> nat \<Rightarrow> 's \<Rightarrow> (string option \<times> 's) option" where
  "find_dev_disk_match fuel L by_dir dev_id out_cap s =
     (case scan_dev_id dev_id of
        None \<Rightarrow> Some (None, s)
      | Some node \<Rightarrow>
          (case dev_join ''/dev/disk'' by_dir of
             (st, by_path) \<Rightarrow>
               if \<not> usbs_ok st then Some (None, s)
               else
                 (case sys_opendir (lx_kernel L) by_path s of
                    (Inl e, s1) \<Rightarrow> Some (None, s1)
                  | (Inr dir, s1) \<Rightarrow>
                      map_option (\<lambda>(found, s2).
                          (map_option (\<lambda>n. usbs_linux_unescape_udev_name (snprintf_buf out_cap n)) found,
                           sys_closedir (lx_kernel L) dir s2))
                        (dev_disk_loop fuel L by_path node dir s1))))"

section \<open>Enumeration\<close>

definition walk_from_disk :: "'s linux \<Rightarrow> string \<Rightarrow> bool \<Rightarrow> usbs_device \<Rightarrow> 's \<Rightarrow> usbs_device \<times> 's" where
  "walk_from_disk L entry_dir own_partition d s =
     (case whole_disk_dir entry_dir own_partition DEVICE_LINUX_PATH_MAX of
        (st, disk_dir) \<Rightarrow>
          if \<not> usbs_ok st then (d, s)
          else
            (case dev_join disk_dir ''device'' of
               (st2, device_link) \<Rightarrow>
                 if \<not> usbs_ok st2 then (d, s)
                 else
                   (case lx_realpath L device_link s of
                      (Inl e, s1) \<Rightarrow> (d, s1)
                    | (Inr resolved, s1) \<Rightarrow> usb_walk_up L resolved d s1)))"

definition fill_from_dev_id ::
  "nat \<Rightarrow> 's linux \<Rightarrow> string \<Rightarrow> string \<Rightarrow> usbs_device \<Rightarrow> 's \<Rightarrow> (usbs_device \<times> 's) option" where
  "fill_from_dev_id fuel L mountinfo_path dev_id d s =
     (case fill_mount_info L mountinfo_path dev_id d s of
        (d1, s1) \<Rightarrow>
          (case find_dev_disk_match fuel L ''by-label'' dev_id 128 s1 of
             None \<Rightarrow> None
           | Some (name, s2) \<Rightarrow>
               (let d2 = (case name of None \<Rightarrow> d1 | Some n \<Rightarrow> d1\<lparr>label := n\<rparr>)
                in if mount_points d2 \<noteq> [] then Some (d2\<lparr>media_present := True\<rparr>, s2)
                   else
                     map_option (\<lambda>(uuid, s3). (d2\<lparr>media_present := (uuid \<noteq> None)\<rparr>, s3))
                       (find_dev_disk_match fuel L ''by-uuid'' dev_id 0 s2))))"

text \<open>
  The callback for one entry of class/block. The status is what a failed push leaves in the
  context; a result other than \<open>USBS_OK\<close> stops the listing.
\<close>

definition handle_block_entry ::
  "nat \<Rightarrow> 's linux \<Rightarrow> string \<Rightarrow> string \<Rightarrow> string \<Rightarrow> bool \<Rightarrow> usbs_device_list \<Rightarrow> 's \<Rightarrow>
     (usbs_status \<times> usbs_device_list \<times> 's) option" where
  "handle_block_entry fuel L block_dir mountinfo_path name is_dir l s =
     (let P = lx_platform L
      in if \<not> is_dir then Some (USBS_OK, l, s)
         else
           (case dev_join block_dir name of
              (st, entry_dir) \<Rightarrow>
                if \<not> usbs_ok st then Some (USBS_OK, l, s)
                else
                  (case is_partition_entry P entry_dir s of
                     (own_partition, s1) \<Rightarrow>
                       (case (if own_partition then Some (False, s1)
                              else disk_has_partition_children fuel P entry_dir s1) of
                          None \<Rightarrow> None
                        | Some (True, s2) \<Rightarrow> Some (USBS_OK, l, s2)
                        | Some (False, s2) \<Rightarrow>
                            (case fill_capacity_and_removable P entry_dir own_partition usbs_device_init s2 of
                               (d3, s3) \<Rightarrow>
                                 (case walk_from_disk L entry_dir own_partition d3 s3 of
                                    (d4, s4) \<Rightarrow>
                                      (case read_attr P entry_dir ''dev'' 32 s4 of
                                         (dev, s5) \<Rightarrow>
                                           (case (case dev of
                                                    Some (st2, dev_id) \<Rightarrow>
                                                      if usbs_ok st2
                                                      then fill_from_dev_id fuel L mountinfo_path dev_id d4 s5
                                                      else Some (d4, s5)
                                                  | None \<Rightarrow> Some (d4, s5)) of
                                              None \<Rightarrow> None
                                            | Some (d6, s6) \<Rightarrow>
                                                (case usbs_device_list_push (p_mem P) l d6 of
                                                   (st3, l2) \<Rightarrow> Some (st3, l2, s6))))))))))"

fun list_class_block ::
  "nat \<Rightarrow> 's linux \<Rightarrow> string \<Rightarrow> string \<Rightarrow> nat \<Rightarrow> usbs_device_list \<Rightarrow> 's \<Rightarrow> (usbs_status \<times> usbs_device_list \<times> 's) option" where
  "list_class_block 0 L block_dir mountinfo_path dir l s = None"
| "list_class_block (Suc fuel) L block_dir mountinfo_path dir l s =
     (case sys_readdir (lx_kernel L) dir s of
        (Inl e, s1) \<Rightarrow> Some (USBS_OK, l, s1)
      | (Inr ent, s1) \<Rightarrow>
          if is_dot_entry (d_name ent) then list_class_block fuel L block_dir mountinfo_path dir l s1
          else
            (case dev_join block_dir (d_name ent) of
               (st, child_path) \<Rightarrow>
                 if \<not> usbs_ok st then list_class_block fuel L block_dir mountinfo_path dir l s1
                 else
                   (case lx_stat L child_path s1 of
                      (r, s2) \<Rightarrow>
                        (case handle_block_entry fuel L block_dir mountinfo_path (d_name ent)
                                (case r of Inr fs \<Rightarrow> st_mode fs = S_DIR | Inl e \<Rightarrow> False) l s2 of
                           None \<Rightarrow> None
                         | Some (st2, l2, s3) \<Rightarrow>
                             if \<not> usbs_ok st2 then Some (st2, l2, s3)
                             else list_class_block fuel L block_dir mountinfo_path dir l2 s3))))"

record linux_roots =
  sysfs_root :: string
  mountinfo_path :: string

definition linux_enumerate ::
  "nat \<Rightarrow> 's linux \<Rightarrow> linux_roots \<Rightarrow> 's \<Rightarrow> usbs_device_list \<Rightarrow> (usbs_status \<times> usbs_device_list \<times> 's) option" where
  "linux_enumerate fuel L roots s l =
     (case dev_join (sysfs_root roots) ''class/block'' of
        (st, block_dir) \<Rightarrow>
          if \<not> usbs_ok st then Some (USBS_ERR_INVALID_ARG, l, s)
          else
            (case sys_opendir (lx_kernel L) block_dir s of
               (Inl e, s1) \<Rightarrow> Some (usbs_posix_status_from_errno e, l, s1)
             | (Inr dir, s1) \<Rightarrow>
                 map_option (\<lambda>(st2, l2, s2). (st2, l2, sys_closedir (lx_kernel L) dir s2))
                   (list_class_block fuel L block_dir (mountinfo_path roots) dir l s1)))"

text \<open>The source in the form the callers use; it needs fuel for the listings.\<close>

definition usbs_linux_device_source_at ::
  "nat \<Rightarrow> 's linux \<Rightarrow> string \<Rightarrow> string \<Rightarrow>
     ('s \<Rightarrow> usbs_device_list \<Rightarrow> usbs_status \<times> usbs_device_list \<times> 's) option" where
  "usbs_linux_device_source_at fuel L root mountinfo =
     Some (\<lambda>s l. case linux_enumerate fuel L \<lparr>sysfs_root = root, mountinfo_path = mountinfo\<rparr> s l of
                   None \<Rightarrow> (USBS_ERR_INTERNAL, l, s)
                 | Some r \<Rightarrow> r)"

definition usbs_platform_device_source ::
  "nat \<Rightarrow> 's linux \<Rightarrow> ('s \<Rightarrow> usbs_device_list \<Rightarrow> usbs_status \<times> usbs_device_list \<times> 's) option" where
  "usbs_platform_device_source fuel L = usbs_linux_device_source_at fuel L ''/sys'' ''/proc/self/mountinfo''"

definition usbs_platform_device_source_ex ::
  "nat \<Rightarrow> 's linux \<Rightarrow> usbs_enum_mode \<Rightarrow> ('s \<Rightarrow> usbs_device_list \<Rightarrow> usbs_status \<times> usbs_device_list \<times> 's) option" where
  "usbs_platform_device_source_ex fuel L mode = usbs_platform_device_source fuel L"

section \<open>Capabilities and cancellation\<close>

definition usbs_capabilities_init :: usbs_capabilities where
  "usbs_capabilities_init = \<lparr>can_read_raw_volume = False, can_read_physical_disk = False\<rparr>"

definition usbs_platform_probe_capabilities :: "usbs_device \<Rightarrow> 's \<Rightarrow> usbs_status \<times> usbs_capabilities \<times> 's" where
  "usbs_platform_probe_capabilities d s = (USBS_ERR_UNSUPPORTED, usbs_capabilities_init, s)"

definition usbs_platform_status_from_win32 :: "nat \<Rightarrow> usbs_status" where
  "usbs_platform_status_from_win32 win32_error = USBS_ERR_UNSUPPORTED"

definition usbs_platform_install_cancel_handler :: "'s linux \<Rightarrow> 's \<Rightarrow> usbs_status \<times> 's" where
  "usbs_platform_install_cancel_handler L s =
     (case lx_sigaction L ''SIGINT'' s of
        (ok, s1) \<Rightarrow>
          if \<not> ok then (USBS_ERR_INTERNAL, s1) else (USBS_OK, snd (lx_sigaction L ''SIGTERM'' s1)))"

text \<open>The flag: a signal sets it, nothing clears it.\<close>

definition handle_cancel_signal :: "int \<Rightarrow> bool \<Rightarrow> bool" where
  "handle_cancel_signal signo g_cancel_requested = True"

definition usbs_platform_cancel_requested :: "bool \<Rightarrow> bool" where
  "usbs_platform_cancel_requested g_cancel_requested = g_cancel_requested"

end
