(* ===== verification/LinuxFacts.thy ===== *)
theory LinuxFacts
  imports DeviceLinux PosixDisk
begin

text \<open>
  What Linux enumeration guarantees: the mount table is read back the way the kernel writes it, and
  every device it lists is well formed.
\<close>

section \<open>Tokens\<close>

fun spaced :: "char \<Rightarrow> string list \<Rightarrow> string" where
  "spaced d [] = []"
| "spaced d [w] = w"
| "spaced d (w # ws) = w @ d # spaced d ws"

lemma strtok_word:
  assumes "w \<noteq> []" and "d \<notin> set w"
  shows "strtok d w = Some (w, [])" and "strtok d (w @ d # r) = Some (w, r)"
proof -
  have in_word: "x \<noteq> d" if "x \<in> set w" for x using assms(2) that by auto
  have tw: "takeWhile (\<lambda>c. c \<noteq> d) w = w" "dropWhile (\<lambda>c. c \<noteq> d) w = []"
    using assms(2) by (auto simp: takeWhile_eq_all_conv dropWhile_eq_Nil_conv)
  have h: "dropWhile (\<lambda>c. c = d) w = w" "dropWhile (\<lambda>c. c = d) (w @ d # r) = w @ d # r"
    using assms by (cases w; auto)+
  have w2: "takeWhile (\<lambda>c. c \<noteq> d) (w @ d # r) = w" "dropWhile (\<lambda>c. c \<noteq> d) (w @ d # r) = d # r"
    using takeWhile_append2 [of w "\<lambda>c. c \<noteq> d" "d # r", OF in_word] dropWhile_append2 [of w "\<lambda>c. c \<noteq> d" "d # r", OF in_word]
    by simp_all
  show "strtok d w = Some (w, [])" unfolding strtok_def Let_def h(1) tw using assms(1) by simp
  show "strtok d (w @ d # r) = Some (w, r)" unfolding strtok_def Let_def h(2) w2 by simp
qed

lemma tokens_Nil [simp]: "tokens d [] = []"
  by (simp add: tokens.simps strtok_def)

lemma tokens_step: "strtok d s = Some (t, r) \<Longrightarrow> tokens d s = t # tokens d r"
  by (subst tokens.simps) simp

lemma tokens_spaced:
  "list_all (\<lambda>w. w \<noteq> [] \<and> d \<notin> set w) ws \<Longrightarrow> tokens d (spaced d ws) = ws"
proof (induction d ws rule: spaced.induct)
  case (2 d w)
  then show ?case by (simp add: tokens_step [OF strtok_word(1)])
next
  case (3 d w v ws)
  then show ?case by (simp add: tokens_step [OF strtok_word(2)])
qed simp

section \<open>Escapes\<close>

text \<open>The kernel writes blank, tab, line feed and backslash of a path as three octal digits.\<close>

definition octal_char :: "nat \<Rightarrow> char" where
  "octal_char n = char_of (48 + n)"

definition mangle_char :: "char \<Rightarrow> string" where
  "mangle_char c =
     (if c \<in> {CHR '' '', CHR 0x09, CHR 0x0A, CHR 0x5C}
      then [CHR 0x5C, octal_char (of_char c div 64), octal_char (of_char c div 8 mod 8), octal_char (of_char c mod 8)]
      else [c])"

definition mangle :: "string \<Rightarrow> string" where
  "mangle s = concat (map mangle_char s)"

lemma mangled:
  "mangle_char CHR '' '' = CHR 0x5C # ''040''" "mangle_char CHR 0x09 = CHR 0x5C # ''011''"
  "mangle_char CHR 0x0A = CHR 0x5C # ''012''" "mangle_char CHR 0x5C = CHR 0x5C # ''134''"
  "is_octal CHR ''0''" "is_octal CHR ''1''" "is_octal CHR ''2''" "is_octal CHR ''3''" "is_octal CHR ''4''"
  "char_of (octal_value ''040'') = CHR '' ''" "char_of (octal_value ''011'') = CHR 0x09"
  "char_of (octal_value ''012'') = CHR 0x0A" "char_of (octal_value ''134'') = CHR 0x5C"
  by code_simp+

lemma unescape_escape:
  "is_octal a \<Longrightarrow> is_octal b \<Longrightarrow> is_octal c \<Longrightarrow>
     unescape_octal (CHR 0x5C # a # b # c # r) = char_of (octal_value [a, b, c]) # unescape_octal r"
  by (simp add: eval_nat_numeral)

lemma unescape_mangle: "unescape_octal (mangle s) = s"
proof (induction s)
  case Nil
  show ?case by (simp add: mangle_def)
next
  case (Cons c s)
  have step: "unescape_octal (mangle_char c @ t) = c # unescape_octal t" for t
  proof (cases "c \<in> {CHR '' '', CHR 0x09, CHR 0x0A, CHR 0x5C}")
    case True
    then show ?thesis
      by (auto simp del: unescape_octal.simps simp: mangled unescape_escape)
  next
    case False
    then show ?thesis by (simp add: mangle_char_def)
  qed
  show ?case unfolding mangle_def list.map concat.simps step using Cons by (simp add: mangle_def)
qed

lemma mangle_no_blank: "CHR '' '' \<notin> set (mangle s)" "CHR 0x0A \<notin> set (mangle s)"
proof -
  have "CHR '' '' \<notin> set (mangle_char c) \<and> CHR 0x0A \<notin> set (mangle_char c)" for c
  proof (cases "c \<in> {CHR '' '', CHR 0x09, CHR 0x0A, CHR 0x5C}")
    case True
    then show ?thesis by (auto simp: mangled)
  qed (auto simp: mangle_char_def)
  then show "CHR '' '' \<notin> set (mangle s)" "CHR 0x0A \<notin> set (mangle s)" by (auto simp: mangle_def)
qed

lemma mangle_Nil_iff [simp]: "mangle s = [] \<longleftrightarrow> s = []"
  by (cases s) (simp_all add: mangle_def mangle_char_def)

section \<open>A line of the mount table\<close>

text \<open>
  The ten columns of the kernel's line, with any number of optional fields before the dash.
\<close>

definition mount_line ::
  "string \<Rightarrow> string \<Rightarrow> string \<Rightarrow> string \<Rightarrow> string \<Rightarrow> string \<Rightarrow> string list \<Rightarrow> string \<Rightarrow> string \<Rightarrow> string \<Rightarrow> string" where
  "mount_line mount_id parent_id dev root mp opts tags fstype source super =
     spaced CHR '' '' ([mount_id, parent_id, dev, mangle root, mangle mp, opts] @ tags @
       [''-'', fstype, mangle source, super])"

abbreviation word :: "string \<Rightarrow> bool" where
  "word w \<equiv> w \<noteq> [] \<and> CHR '' '' \<notin> set w"

lemma parse_mount_line_words:
  assumes "list_all word [mount_id, parent_id, dev, opts, fstype, super]" and "list_all (\<lambda>t. word t \<and> t \<noteq> ''-'') tags"
    and "root \<noteq> []" "mp \<noteq> []" "source \<noteq> []"
  shows "parse_mount_line (mount_line mount_id parent_id dev root mp opts tags fstype source super) =
    Some ([mount_id, parent_id, dev, mangle root, mangle mp, opts], Some fstype, Some (mangle source))"
proof -
  let ?ws = "[mount_id, parent_id, dev, mangle root, mangle mp, opts] @ tags @ [''-'', fstype, mangle source, super]"
  have "list_all word ?ws"
    using assms by (auto simp: list_all_iff mangle_no_blank)
  then have toks: "tokens CHR '' '' (spaced CHR '' '' ?ws) = ?ws" by (rule tokens_spaced)
  have "dropWhile (\<lambda>t. t \<noteq> ''-'') (tags @ [''-'', fstype, mangle source, super]) = [''-'', fstype, mangle source, super]"
    using assms(2) by (induction tags) auto
  then show ?thesis
    unfolding parse_mount_line_def mount_line_def toks by (simp add: eval_nat_numeral)
qed



text \<open>The line in question, as the kernel spells it.\<close>

lemma sample_mount_line:
  "mount_line ''36'' ''35'' ''8:17'' ''/'' ''/media/my stick'' ''rw'' [''shared:1''] ''vfat'' ''/dev/sdb1'' ''rw'' =
     ''36 35 8:17 / /media/my'' @ [CHR 0x5C] @ ''040stick rw shared:1 - vfat /dev/sdb1 rw''"
  by code_simp

text \<open>
  A mount point of more than 510 bytes: its cut path is taken as the scan root, because the status
  of the join is ignored. It names another directory, or none.
\<close>

lemma long_mount_point_is_cut:
  assumes "510 < length mp" and "volume_path d = []" and "lx_stat L mp s = (Inr st, s1)" "st_mode st = S_DIR"
  shows "volume_path (fst (add_mount L mp None d s)) = take 511 mp"
  using assms
  by (auto simp: add_mount_def Let_def usbs_path_join_def joined_path_def snprintf_buf_def USBS_VOLUME_PATH_MAX_def)

section \<open>Every device is well formed\<close>

text \<open>
  What is kept while a device is filled: its fields fit their arrays, a scan root has a mount point
  behind it, and vendor, serial and ids come only with a USB ancestor.
\<close>

definition linux_device :: "usbs_device \<Rightarrow> bool" where
  "linux_device d \<longleftrightarrow> device_wf d \<and> (volume_path d \<noteq> [] \<longrightarrow> mount_points d \<noteq> []) \<and>
     (bus_type d = USBS_BUS_USB \<or>
      bus_type d = USBS_BUS_UNKNOWN \<and> usb_vid d = [] \<and> usb_pid d = [] \<and> vendor d = [] \<and> product d = [] \<and> serial d = [])"

lemma sysfs_read_returns:
  "reads_bounded P \<Longrightarrow> cap - length buf < fuel \<Longrightarrow> length buf < cap \<Longrightarrow>
     \<exists>buf' s'. sysfs_read_loop fuel P fh cap buf s = Some (buf', s') \<and> length buf' < cap"
proof (induction fuel arbitrary: buf s)
  case (Suc fuel)
  show ?case
  proof (cases "cap - 1 \<le> length buf")
    case True
    with Suc.prems show ?thesis by auto
  next
    case False
    obtain r s1 where r: "file_read P fh (cap - 1 - length buf) s = (r, s1)" by fastforce
    show ?thesis
    proof (cases r)
      case (Inl st)
      with False r Suc.prems show ?thesis by auto
    next
      case (Inr bytes)
      with r Suc.prems(1) have len: "length bytes \<le> cap - 1 - length buf" unfolding reads_bounded_def by blast
      show ?thesis
      proof (cases "bytes = []")
        case True
        with Inr False r Suc.prems show ?thesis by auto
      next
        case bytes: False
        then have "0 < length bytes" by simp
        then have "cap - length (buf @ bytes) < fuel" "length (buf @ bytes) < cap"
          using len Suc.prems(2,3) False by (auto simp del: length_greater_0_conv)
        with Suc.IH [OF Suc.prems(1)] bytes Inr r False show ?thesis by simp
      qed
    qed
  qed
qed simp

lemma strip_blank_end_shorter: "length (strip_blank_end s) \<le> length s"
  using length_dropWhile_le [of "\<lambda>c. c \<le> CHR '' ''" "rev s"] by (simp add: strip_blank_end_def)

lemma read_sysfs_string_bound:
  "read_sysfs_string P path cap s = (st, t, s') \<Longrightarrow> reads_bounded P \<Longrightarrow> 0 < cap \<Longrightarrow> length t < cap"
proof -
  assume r: "read_sysfs_string P path cap s = (st, t, s')" and P: "reads_bounded P" and cap: "0 < cap"
  obtain o1 s1 where o1: "file_open_read P path s = (o1, s1)" by fastforce
  show "length t < cap"
  proof (cases o1)
    case (Inl e)
    with r o1 cap show ?thesis by (simp add: read_sysfs_string_def)
  next
    case (Inr fh)
    obtain buf s2 where b: "sysfs_read_loop (Suc cap) P fh cap [] s1 = Some (buf, s2)" "length buf < cap"
      using sysfs_read_returns [OF P, of cap "[]" "Suc cap" fh s1] cap by auto
    then have "t = cstr (strip_blank_end buf)"
      using r o1 Inr cap by (simp add: read_sysfs_string_def del: sysfs_read_loop.simps)
    then show ?thesis
      using b(2) length_cstr_le [of "strip_blank_end buf"] strip_blank_end_shorter [of buf] by simp
  qed
qed

lemma read_attr_bound:
  "read_attr P dir name cap s = (Some (st, t), s') \<Longrightarrow> reads_bounded P \<Longrightarrow> 0 < cap \<Longrightarrow> length t < cap"
  by (auto simp: read_attr_def split: prod.splits if_splits dest: read_sysfs_string_bound)

lemma init_is_linux_device: "linux_device usbs_device_init"
  by (simp add: linux_device_def device_wf_def usbs_device_init_def USBS_VOLUME_PATH_MAX_def)

lemma linux_device_updates [simp]:
  "linux_device (d\<lparr>capacity_bytes := n\<rparr>) = linux_device d"
  "linux_device (d\<lparr>removable_media := b\<rparr>) = linux_device d"
  "linux_device (d\<lparr>free_bytes := n\<rparr>) = linux_device d"
  "linux_device (d\<lparr>media_present := b\<rparr>) = linux_device d"
  by (simp_all add: linux_device_def device_wf_def)

lemma fill_capacity_linux_device:
  "fill_capacity_and_removable P dir own d s = (d', s') \<Longrightarrow> linux_device d \<Longrightarrow> linux_device d'"
  unfolding fill_capacity_and_removable_def Let_def by (auto split: prod.splits if_splits option.splits)

definition usb_device :: "usbs_device \<Rightarrow> bool" where
  "usb_device d \<longleftrightarrow> linux_device d \<and> bus_type d = USBS_BUS_USB"

lemma usb_device_updates:
  "linux_device d \<Longrightarrow> usb_device (d\<lparr>bus_type := USBS_BUS_USB\<rparr>)"
  "usb_device d \<Longrightarrow> usb_device (d\<lparr>usb_vid := take 4 t\<rparr>)"
  "usb_device d \<Longrightarrow> usb_device (d\<lparr>usb_pid := take 4 t\<rparr>)"
  "usb_device d \<Longrightarrow> length t < 128 \<Longrightarrow> usb_device (d\<lparr>vendor := t\<rparr>)"
  "usb_device d \<Longrightarrow> length t < 128 \<Longrightarrow> usb_device (d\<lparr>product := t\<rparr>)"
  "usb_device d \<Longrightarrow> length t < 128 \<Longrightarrow> usb_device (d\<lparr>serial := t\<rparr>)"
  by (simp_all add: usb_device_def linux_device_def device_wf_def)

lemma fill_usb_ids_linux_device:
  assumes "fill_usb_ids P dir id_path d s = (d', s')" and "reads_bounded P" and "linux_device d"
  shows "linux_device d'"
proof -
  have b: "length t < 128" if "read_attr P dir n 128 x = (Some (st, t), y)" for n x st t y
    using read_attr_bound [OF that assms(2)] by simp
  have "usb_device d'"
    using assms(1) usb_device_updates(1) [OF assms(3)] unfolding fill_usb_ids_def Let_def
    by (auto split: prod.splits if_splits option.splits dest!: b intro!: usb_device_updates(2-))
  then show ?thesis by (simp add: usb_device_def)
qed

lemma usb_walk_linux_device:
  "usb_walk_loop n L dir d s = (d', s') \<Longrightarrow> reads_bounded (lx_platform L) \<Longrightarrow> linux_device d \<Longrightarrow> linux_device d'"
  by (induction n arbitrary: dir s)
    (auto split: prod.splits option.splits dest: fill_usb_ids_linux_device)

lemma walk_from_disk_linux_device:
  "walk_from_disk L dir own d s = (d', s') \<Longrightarrow> reads_bounded (lx_platform L) \<Longrightarrow> linux_device d \<Longrightarrow> linux_device d'"
  unfolding walk_from_disk_def usb_walk_up_def
  by (auto split: prod.splits sum.splits if_splits dest: usb_walk_linux_device)

lemma add_mount_linux_device:
  assumes "add_mount L mp fstype d s = (d', s')" and "linux_device d"
  shows "linux_device d'"
proof -
  have len: "length (snd (usbs_path_join Posix USBS_VOLUME_PATH_MAX mp [])) < USBS_VOLUME_PATH_MAX"
    by (auto simp: usbs_path_join_def Let_def snprintf_buf_def USBS_VOLUME_PATH_MAX_def)
  have fs: "length (snprintf_buf 32 t) < 32" for t by (simp add: snprintf_buf_def)
  define d1 where "d1 = (if length (mount_points d) < USBS_MOUNT_POINTS_MAX
    then d\<lparr>mount_points := mount_points d @ [snprintf_buf USBS_MOUNT_POINT_MAX mp]\<rparr> else d)"
  have d1: "linux_device d1" "mount_points d1 \<noteq> []"
    using assms(2) by (auto simp: d1_def linux_device_def device_wf_def USBS_MOUNT_POINTS_MAX_def)
  obtain d2 s2 where d2: "(if volume_path d1 = [] then
      (case lx_stat L mp s of
         (Inr st, s1) \<Rightarrow>
           (if st_mode st = S_DIR then d1\<lparr>volume_path := snd (usbs_path_join Posix USBS_VOLUME_PATH_MAX mp [])\<rparr> else d1, s1)
       | (Inl e, s1) \<Rightarrow> (d1, s1)) else (d1, s)) = (d2, s2)" by fastforce
  have "linux_device d2"
    using d2 d1 len by (auto simp: linux_device_def device_wf_def split: if_splits prod.splits sum.splits)
  moreover have "d' = (case fstype of Some t \<Rightarrow> if filesystem d2 = [] then d2\<lparr>filesystem := snprintf_buf 32 t\<rparr> else d2
      | None \<Rightarrow> d2)"
    using assms(1) d2 unfolding add_mount_def Let_def d1_def by simp
  ultimately show ?thesis
    using fs by (auto simp: linux_device_def device_wf_def split: option.splits)
qed

lemma mount_lines_linux_device:
  "mount_lines L dev_id node ls d s = (d', s') \<Longrightarrow> linux_device d \<Longrightarrow> linux_device d'"
proof (induction ls arbitrary: d s)
  case (Cons line ls)
  obtain d1 s1 where h: "handle_mount_line L dev_id node line d s = (d1, s1)" by fastforce
  then have "linux_device d1"
    using Cons.prems(2) unfolding handle_mount_line_def
    by (auto split: prod.splits option.splits if_splits dest: add_mount_linux_device)
  with Cons h show ?case by simp
qed simp

lemma fill_mount_info_linux_device:
  "fill_mount_info L path dev_id d s = (d', s') \<Longrightarrow> linux_device d \<Longrightarrow> linux_device d'"
  unfolding fill_mount_info_def fill_free_bytes_def
  by (auto simp del: mountinfo_read_loop.simps split: prod.splits sum.splits if_splits dest: mount_lines_linux_device)

lemma unescape_hex_shorter: "length (unescape_hex s) \<le> length s"
  by (induction s rule: unescape_hex.induct) (auto intro: le_trans)

lemma label_bound:
  assumes "find_dev_disk_match fuel L by_dir dev_id 128 s = Some (Some n, s')"
  shows "length n < 128"
proof -
  have "length (usbs_linux_unescape_udev_name (snprintf_buf 128 m)) < 128" for m
    using le_trans [OF length_cstr_le unescape_hex_shorter, of "snprintf_buf 128 m"]
    by (simp add: usbs_linux_unescape_udev_name_def snprintf_buf_def)
  with assms show ?thesis
    by (auto simp: find_dev_disk_match_def split: option.splits prod.splits sum.splits if_splits)
qed

lemma fill_from_dev_id_linux_device:
  assumes "fill_from_dev_id fuel L path dev_id d s = Some (d', s')" and "linux_device d"
  shows "linux_device d'"
proof -
  obtain d1 s1 where f: "fill_mount_info L path dev_id d s = (d1, s1)" by fastforce
  then have d1: "linux_device d1" using assms(2) by (rule fill_mount_info_linux_device)
  obtain name s2 where n: "find_dev_disk_match fuel L ''by-label'' dev_id 128 s1 = Some (name, s2)"
    using assms(1) f by (auto simp: fill_from_dev_id_def split: option.splits)
  have "linux_device (case name of None \<Rightarrow> d1 | Some n \<Rightarrow> d1\<lparr>label := n\<rparr>)"
    using d1 n by (auto simp: linux_device_def device_wf_def split: option.split dest: label_bound)
  with assms(1) f n show ?thesis
    by (auto simp: fill_from_dev_id_def Let_def split: if_splits)
qed

lemma push_linux_devices:
  assumes "usbs_device_list_push mem l d = (st, l')" and "linux_device d" and "\<forall>x \<in> set (v_items l). linux_device x"
  shows "\<forall>x \<in> set (v_items l'). linux_device x"
proof (cases "st = USBS_OK")
  case True
  with assms device_list.push_ok [of mem l d l'] show ?thesis by auto
next
  case False
  with assms device_list.push_error [of mem l d st l'] show ?thesis by auto
qed

lemma handle_block_entry_linux_devices:
  assumes "handle_block_entry fuel L dir path name is_dir l s = Some (st, l', s')" and P: "reads_bounded (lx_platform L)"
    and l: "\<forall>x \<in> set (v_items l). linux_device x"
  shows "\<forall>x \<in> set (v_items l'). linux_device x"
proof -
  have fill: "linux_device d3" if "fill_capacity_and_removable p e o1 usbs_device_init s2 = (d3, s3)" for p e o1 s2 d3 s3
    using fill_capacity_linux_device [OF that] init_is_linux_device by simp
  have walk: "linux_device d4" if "walk_from_disk L e o1 d3 s3 = (d4, s4)" "linux_device d3" for e o1 d3 s3 d4 s4
    using walk_from_disk_linux_device [OF that(1) P that(2)] .
  show ?thesis
    using assms(1) l unfolding handle_block_entry_def Let_def
    by (auto split: if_splits prod.splits option.splits bool.splits dest!: fill
        dest: walk fill_from_dev_id_linux_device push_linux_devices)
qed

lemma list_class_block_linux_devices:
  assumes "reads_bounded (lx_platform L)"
  shows "list_class_block fuel L dir path i l s = Some (st, l', s') \<Longrightarrow> \<forall>x \<in> set (v_items l). linux_device x \<Longrightarrow>
     \<forall>x \<in> set (v_items l'). linux_device x"
proof (induction fuel arbitrary: l s)
  case (Suc fuel)
  have keep: "\<forall>x \<in> set (v_items l2). linux_device x"
    if "handle_block_entry fuel L dir path name b l s2 = Some (st2, l2, s3)" for name b s2 st2 l2 s3
    using handle_block_entry_linux_devices [OF that assms Suc.prems(2)] .
  from Suc.prems show ?case
    by (auto split: prod.splits sum.splits if_splits option.splits dest!: keep dest: Suc.IH)
qed simp

text \<open>
  C12 Every device Linux enumeration lists is well formed: whatever sysfs, the mount table and udev
  contain, each field fits its array, so the identity is never cut; a device with a scan root is
  mounted; and a device that is not reported as USB carries no USB id, vendor, product or serial.
\<close>

theorem linux_devices_are_well_formed:
  assumes "reads_bounded (lx_platform L)"
    and "usbs_device_enumerate (usbs_platform_device_source_ex fuel L mode) s = (st, l, s')"
    and "d \<in> set (v_items l)"
  shows "device_wf d \<and> usbs_device_identity d USBS_IDENTITY_MAX = (USBS_OK, identity_text d) \<and>
    (volume_path d \<noteq> [] \<longrightarrow> mount_points d \<noteq> []) \<and>
    (bus_type d \<noteq> USBS_BUS_USB \<longrightarrow>
       bus_type d = USBS_BUS_UNKNOWN \<and> usb_vid d = [] \<and> usb_pid d = [] \<and> vendor d = [] \<and> product d = [] \<and> serial d = [])"
proof -
  obtain r where src: "usbs_platform_device_source_ex fuel L mode = Some r"
      "r = (\<lambda>s l. case linux_enumerate fuel L \<lparr>sysfs_root = ''/sys'', mountinfo_path = ''/proc/self/mountinfo''\<rparr> s l of
              None \<Rightarrow> (USBS_ERR_INTERNAL, l, s) | Some x \<Rightarrow> x)"
    by (simp add: usbs_platform_device_source_ex_def usbs_platform_device_source_def usbs_linux_device_source_at_def)
  have "\<forall>x \<in> set (v_items l). linux_device x"
    using assms(2) list_class_block_linux_devices [OF assms(1)]
    unfolding src linux_enumerate_def usbs_device_enumerate_def
    by (fastforce simp: vec_init_def split: prod.splits if_splits sum.splits option.splits)
  with assms(3) have "linux_device d" by blast
  then show ?thesis by (auto simp: linux_device_def identity_fits)
qed

section \<open>A stick\<close>

text \<open>
  One partition of a USB stick, mounted under a path with a blank, on the kernel of PosixDisk.
\<close>

definition stick_unix :: unix where
  "stick_unix = unix_empty
     \<lparr>u_files :=
        [''/sys/class/block/sdb1/partition'' \<mapsto> ''1'' @ [CHR 0x0A], ''/sys/class/block/sdb1/size'' \<mapsto> ''2048'' @ [CHR 0x0A],
         ''/sys/class/block/sdb1/../removable'' \<mapsto> ''1'' @ [CHR 0x0A], ''/sys/class/block/sdb1/dev'' \<mapsto> ''8:17'' @ [CHR 0x0A],
         ''/sys/devices/usb1/1-2/idVendor'' \<mapsto> ''0781'' @ [CHR 0x0A], ''/sys/devices/usb1/1-2/idProduct'' \<mapsto> ''5583'' @ [CHR 0x0A],
         ''/sys/devices/usb1/1-2/serial'' \<mapsto> ''A1'' @ [CHR 0x0A],
         ''/proc/self/mountinfo'' \<mapsto>
           ''36 35 8:17 / /media/my'' @ [CHR 0x5C] @ ''040stick rw shared:1 - vfat /dev/sdb1 rw'' @ [CHR 0x0A]],
      u_dirs := [''/sys/class/block'' \<mapsto> [(\<lparr>d_name = ''sdb1'', d_type = DT_LNK\<rparr>, \<lparr>st_mode = S_LNK, st_size = 0\<rparr>)]]\<rparr>"

definition stick_linux :: "unix linux" where
  "stick_linux =
     \<lparr>lx_platform = posix_platform unix_budget Map.empty mem_always unix_kernel, lx_kernel = unix_kernel,
      lx_stat = (\<lambda>p u. (if p = ''/sys/class/block/sdb1'' \<or> p = ''/media/my stick''
                        then Inr \<lparr>st_mode = S_DIR, st_size = 0\<rparr> else Inl ENOENT, u)),
      lx_readlink = (\<lambda>p n u. (if p = ''/sys/devices/usb1/1-2/subsystem'' then Inr ''../../../bus/usb'' else Inl EINVAL, u)),
      lx_realpath = (\<lambda>p u. (Inr ''/sys/devices/usb1/1-2/host3/3:0:0:0'', u)),
      lx_statvfs = (\<lambda>p u. (Inr (10, 4096), u)), lx_sigaction = (\<lambda>_ u. (True, u))\<rparr>"

lemma posix_reads_bounded: "reads_bounded (posix_platform budget env mem unix_kernel)"
proof -
  have io: "m \<le> n" if "unix_io n u = (Inr m, u1)" for n m u u1
    using that by (auto simp: unix_io_def split: list.splits io_event.splits)
  have "length bytes \<le> n" if "read_retry fuel unix_kernel fd n u = Some (Inr bytes, u')" for fuel fd n u bytes u'
    using that
  proof (induction fuel arbitrary: u)
    case (Suc fuel)
    have k: "sys_read unix_kernel = unix_read" by (simp add: unix_kernel_def)
    from Suc show ?case
      by (auto simp: k unix_read_def split: sum.splits prod.splits option.splits if_splits dest!: io)
  qed simp
  then show ?thesis
    by (fastforce simp: reads_bounded_def posix_platform_def or_give_up_def posix_file_read_def
        split: option.splits sum.splits prod.splits if_splits)
qed

lemma stick_is_listed:
  "case usbs_device_enumerate (usbs_platform_device_source_ex 9 stick_linux USBS_ENUM_USB_ONLY) stick_unix of
     (st, l, u) \<Rightarrow>
       (case v_items l of
          [d] \<Rightarrow> identity_text d = ''usb:0781-5583:A1'' \<and> mount_points d = [''/media/my stick''] \<and>
            volume_path d = ''/media/my stick/'' \<and> filesystem d = ''vfat'' \<and> capacity_bytes d = 1048576 \<and>
            free_bytes d = 40960 \<and> usbs_device_is_scannable d USBS_ENUM_USB_ONLY
        | _ \<Rightarrow> False)"
  by code_simp

lemma linux_devices_are_well_formed_witness:
  "\<exists>st l s' d. usbs_device_enumerate (usbs_platform_device_source_ex 9 stick_linux USBS_ENUM_USB_ONLY) stick_unix = (st, l, s') \<and>
     d \<in> set (v_items l) \<and> device_wf d \<and> usbs_device_identity d USBS_IDENTITY_MAX = (USBS_OK, ''usb:0781-5583:A1'')"
proof -
  obtain st l s' where e: "usbs_device_enumerate (usbs_platform_device_source_ex 9 stick_linux USBS_ENUM_USB_ONLY)
      stick_unix = (st, l, s')"
    by (rule prod_cases3)
  have P: "reads_bounded (lx_platform stick_linux)"
    by (simp add: stick_linux_def posix_reads_bounded)
  obtain d where d: "v_items l = [d]" "identity_text d = ''usb:0781-5583:A1''"
    using stick_is_listed unfolding e prod.case by (cases "v_items l"; cases "tl (v_items l)") auto
  then have "d \<in> set (v_items l)" by simp
  with linux_devices_are_well_formed [OF P e this] e d show ?thesis by auto
qed

end
