(* ===== verification/Wide.thy ===== *)
theory Wide
  imports Prelude
begin

text \<open>
  Windows wide strings. A C wide string is the list of its UTF-16 units before the terminating NUL.
  The code page conversions belong to the system: they are two functions, with the buffer
  capacity of \<open>MultiByteToWideChar\<close> and \<open>WideCharToMultiByte\<close> written out here. Both calls fail,
  instead of truncating, when the converted string and its NUL do not fit.
\<close>

type_synonym wide = "16 word list"

record codepage =
  cp_wide :: "string \<Rightarrow> wide"
  cp_utf8 :: "wide \<Rightarrow> string"

text \<open>\<open>L"..."\<close> for a literal of ASCII characters.\<close>

definition wide_lit :: "string \<Rightarrow> wide" where
  "wide_lit s = map (\<lambda>c. of_nat (of_char c)) s"

definition wide_char :: "char \<Rightarrow> 16 word" where
  "wide_char c = of_nat (of_char c)"

definition utf8_to_wide :: "codepage \<Rightarrow> string \<Rightarrow> nat \<Rightarrow> wide option" where
  "utf8_to_wide U utf8 wide_cap =
     (if wide_cap = 0 then None
      else (let wide = cp_wide U utf8 in if length wide < wide_cap then Some wide else None))"

definition wide_to_utf8 :: "codepage \<Rightarrow> wide \<Rightarrow> nat \<Rightarrow> bool \<times> string" where
  "wide_to_utf8 U wide utf8_cap =
     (if utf8_cap = 0 then (False, [])
      else (let utf8 = cp_utf8 U wide in if length utf8 < utf8_cap then (True, utf8) else (False, [])))"

text \<open>
  What the code relies on: a UTF-8 string has no more UTF-16 units than bytes, and the conversion
  of a string with a NUL in it stops there, so that none is produced.
\<close>

definition codepage_ok :: "codepage \<Rightarrow> bool" where
  "codepage_ok U \<longleftrightarrow> (\<forall>s. length (cp_wide U s) \<le> length s) \<and> (\<forall>w. is_cstr (cp_utf8 U w))"

lemma utf8_to_wide_fits:
  assumes "codepage_ok U" and "length s < cap"
  shows "utf8_to_wide U s cap = Some (cp_wide U s)"
  using assms le_less_trans [of "length (cp_wide U s)" "length s" cap]
  by (auto simp: utf8_to_wide_def codepage_ok_def Let_def)

lemma wide_to_utf8_bound [usbs_bounds]: "0 < cap \<Longrightarrow> length (snd (wide_to_utf8 U w cap)) < cap"
  by (simp add: wide_to_utf8_def Let_def)

lemma wide_to_utf8_cstr: "codepage_ok U \<Longrightarrow> is_cstr (snd (wide_to_utf8 U w cap))"
  by (simp add: wide_to_utf8_def codepage_ok_def Let_def)

text \<open>The ASCII code page, on which the properties' hypotheses are shown to be satisfiable.\<close>

definition ascii_codepage :: codepage where
  "ascii_codepage =
     \<lparr>cp_wide = (\<lambda>s. map wide_char (cstr s)),
      cp_utf8 = (\<lambda>w. cstr (map (\<lambda>u. if unat u < 128 then char_of (unat u) else CHR ''?'') w))\<rparr>"

lemma ascii_codepage_ok: "codepage_ok ascii_codepage"
  by (simp add: codepage_ok_def ascii_codepage_def length_cstr_le)

end
