(* ===== verification/GuiDrawing.thy ===== *)
theory GuiDrawing
  imports ReportView Wide
begin

text \<open>
  What the desktop window draws itself (src/gui/gui_window.c): its fonts, the colours of a verdict
  and the owner-drawn banner with its glyph. A drawing function is the sequence of its GDI calls;
  the coordinates are C ints, and their division truncates towards zero.
\<close>

type_synonym colorref = "nat \<times> nat \<times> nat"

record gui_rect =
  r_left :: int
  r_top :: int
  r_right :: int
  r_bottom :: int

datatype gui_font = FONT_BANNER | FONT_DETAIL | FONT_OLD

datatype gdi_call =
    FillRect gui_rect colorref
  | SelectPen int colorref
  | RestorePen
  | Polyline "(int \<times> int) list"
  | HollowEllipse int int int int
  | SetBkModeTransparent
  | RestoreBkMode
  | SetTextColor colorref
  | RestoreTextColor
  | SelectFont gui_font
  | DrawHeadline wide gui_rect
  | DrawDetail wide gui_rect

definition c_div :: "int \<Rightarrow> int \<Rightarrow> int" where
  "c_div a b = sgn a * sgn b * (\<bar>a\<bar> div \<bar>b\<bar>)"

text \<open>
  The fonts are made from the message font of the system, or from a named face where the system
  does not tell; a negative height, which is a character height, grows by half for the banner.
\<close>

record log_font =
  lf_height :: int
  lf_weight :: int
  lf_face :: wide

definition FW_NORMAL :: int where "FW_NORMAL = 400"
definition FW_SEMIBOLD :: int where "FW_SEMIBOLD = 600"

definition create_fonts :: "log_font option \<Rightarrow> log_font \<times> log_font \<times> log_font" where
  "create_fonts message_font =
     (let base = (case message_font of Some f \<Rightarrow> f | None \<Rightarrow> \<lparr>lf_height = - 12, lf_weight = 0, lf_face = wide_lit ''Segoe UI''\<rparr>)
      in (base,
          base\<lparr>lf_height := (if lf_height base < 0 then c_div (lf_height base * 3) 2 else lf_height base),
               lf_weight := FW_SEMIBOLD\<rparr>,
          base\<lparr>lf_weight := FW_NORMAL\<rparr>))"

text \<open>The background and the ink.\<close>

definition banner_colors :: "gui_verdict \<Rightarrow> colorref \<times> colorref" where
  "banner_colors verdict =
     ((case verdict of
         GUI_VERDICT_THREAT \<Rightarrow> (183, 28, 38)
       | GUI_VERDICT_SUSPICIOUS \<Rightarrow> (176, 106, 12)
       | GUI_VERDICT_INCOMPLETE \<Rightarrow> (74, 96, 130)
       | GUI_VERDICT_CLEAN \<Rightarrow> (22, 122, 70)), (255, 255, 255))"

definition banner_draw_glyph :: "gui_rect \<Rightarrow> gui_verdict \<Rightarrow> colorref \<Rightarrow> gdi_call list" where
  "banner_draw_glyph box verdict ink =
     (let size = r_bottom box - r_top box;
          cx = r_left box + c_div size 2;
          cy = r_top box + c_div size 2;
          radius = c_div size 2
      in SelectPen (if c_div size 8 > 0 then c_div size 8 else 1) ink #
         (if verdict = GUI_VERDICT_CLEAN then
            [Polyline [(cx - c_div (radius * 55) 100, cy),
                       (cx - c_div (radius * 15) 100, cy + c_div (radius * 42) 100),
                       (cx + c_div (radius * 60) 100, cy - c_div (radius * 48) 100)]]
          else
            [Polyline [(cx, cy - c_div (radius * 62) 100), (cx, cy + c_div (radius * 14) 100)],
             Polyline [(cx, cy + c_div (radius * 50) 100), (cx, cy + c_div (radius * 52) 100)],
             HollowEllipse (cx - radius) (cy - radius) (cx + radius) (cy + radius)]) @
         [RestorePen])"

definition glyph_box :: "gui_rect \<Rightarrow> gui_rect" where
  "glyph_box rect =
     (let glyph_size = max 12 (r_bottom rect - r_top rect - 20);
          l = r_left rect + 14;
          t = r_top rect + c_div (r_bottom rect - r_top rect - glyph_size) 2
      in \<lparr>r_left = l, r_top = t, r_right = l + glyph_size, r_bottom = t + glyph_size\<rparr>)"

definition banner_draw :: "gui_verdict \<Rightarrow> wide \<Rightarrow> wide \<Rightarrow> gui_rect \<Rightarrow> gdi_call list" where
  "banner_draw verdict headline detail rect =
     (case banner_colors verdict of
        (background, foreground) \<Rightarrow>
          (let box = glyph_box rect;
               text_box = rect\<lparr>r_left := r_right box + 14, r_right := r_right rect - 12, r_top := r_top rect + 7\<rparr>
           in [FillRect rect background] @ banner_draw_glyph box verdict foreground @
              [SetBkModeTransparent, SetTextColor foreground, SelectFont FONT_BANNER, DrawHeadline headline text_box,
               SelectFont FONT_DETAIL, DrawDetail detail (text_box\<lparr>r_top := r_top text_box + 22\<rparr>),
               SelectFont FONT_OLD, RestoreTextColor, RestoreBkMode]))"

text \<open>
  What the colour says agrees with what the glyph says: the check mark is drawn, and the green of
  a clean device filled in, for the clean verdict and for no other.
\<close>

lemma banner_green_iff: "fst (banner_colors v) = (22, 122, 70) \<longleftrightarrow> v = GUI_VERDICT_CLEAN"
  by (cases v) (simp_all add: banner_colors_def)

lemma banner_ring_iff:
  "(\<exists>a b c d. HollowEllipse a b c d \<in> set (banner_draw v headline detail rect)) \<longleftrightarrow> v \<noteq> GUI_VERDICT_CLEAN"
  by (cases v) (auto simp: banner_draw_def banner_colors_def banner_draw_glyph_def Let_def)

end
