(* ===== verification/GuiWindow.thy ===== *)
theory GuiWindow
  imports GuiDrawing Worker
begin

text \<open>
  The desktop window of src/gui/gui_window.c: its state, what it asks of the controls, the device
  list, progress bar, verdict banner and results view, the automatic scan, and every handler of
  its window procedure.

  What the code tells the user interface is the sequence of calls it makes, kept in the state in
  the order they are made; what it learns from it (the selected item, a check box, the client
  area, the clock) are functions of the world. Handles are not kept apart: every control is its
  name, and the state itself is there or not, which is the NULL test on the window's user data.
\<close>

section \<open>Controls and calls\<close>

datatype gui_control =
    LABEL_DEVICE | COMBO_DEVICES | BTN_REFRESH | BTN_SCAN | BTN_CANCEL | BTN_OPENDIR | CHK_AUTOSCAN
  | CHK_ALLDRIVES | PROGRESS_BAR | BANNER | EDIT_RESULTS | LABEL_STATUS

text \<open>A character format is what the code sets of one.\<close>

record char_format =
  cr_text_color :: colorref
  cf_bold :: bool
  y_height :: int

datatype gui_ask =
    CB_RESETCONTENT
  | CB_ADDSTRING wide
  | CB_SETCURSEL nat
  | PBM_SETRANGE32 int int
  | PBM_SETPOS int
  | PBM_SETMARQUEE bool int
  | BM_SETCHECK bool
  | WM_SETFONT
  | WM_SETREDRAW bool
  | EM_SETTEXTEX wide
  | EM_EXLIMITTEXT nat
  | EM_SETBKGNDCOLOR colorref
  | EM_SETEVENTMASK nat
  | EM_SETSEL int int
  | EM_SETCHARFORMAT char_format
  | EM_REPLACESEL wide
  | EM_SCROLLCARET
  | EM_EMPTYUNDOBUFFER
  | WM_VSCROLL_TOP

datatype window_class = CLS_STATIC | CLS_COMBOBOX | CLS_BUTTON | CLS_PROGRESS | CLS_RICHEDIT | CLS_EDIT

datatype window_style =
    WS_VISIBLE | WS_TABSTOP | WS_DISABLED | WS_VSCROLL | BS_DEFPUSHBUTTON | BS_AUTOCHECKBOX | CBS_DROPDOWNLIST
  | SS_CENTERIMAGE | SS_OWNERDRAW | SS_ENDELLIPSIS | PBS_SMOOTH | ES_MULTILINE | ES_READONLY | ES_AUTOVSCROLL
  | ES_NOHIDESEL

datatype gui_call =
    CreateControl gui_control window_class wide "window_style list"
  | SetWindowText gui_control wide
  | EnableWindow gui_control bool
  | ShowControl gui_control bool
  | MoveWindow gui_control int int int int
  | InvalidateRect gui_control
  | UpdateWindow gui_control
  | SendMessage gui_control gui_ask
  | SetMarqueeStyle bool
  | Draw gdi_call
  | StatusColours colorref
  | ShellOpen wide
  | WarnScanInProgress
  | UnregisterDeviceNotification
  | PostQuitMessage

section \<open>State\<close>

definition GUI_AUTO_SCAN_TRACK_MAX :: nat where "GUI_AUTO_SCAN_TRACK_MAX = 8"
definition GUI_PROGRESS_RANGE :: nat where "GUI_PROGRESS_RANGE = 1000"
definition SIZEOF_GUI_STATE :: nat where "SIZEOF_GUI_STATE = 6328"
definition SIZEOF_PROGRESS :: nat where "SIZEOF_PROGRESS = 24"
definition SIZEOF_DONE_PAYLOAD :: nat where "SIZEOF_DONE_PAYLOAD = 16"
definition SIZEOF_WORKER_LAUNCH :: nat where "SIZEOF_WORKER_LAUNCH = 3200"

text \<open>
  The fields of \<open>gui_state_t\<close>, handles of controls and fonts aside: \<open>controls_exist\<close> is that
  \<open>combo_devices\<close> is not NULL, \<open>worker_thread\<close> and \<open>dev_notify\<close> that the handle is there. The
  identities are those below \<open>auto_scanned_count\<close>.
\<close>

record gui_state =
  gw_devices :: usbs_device_list
  show_all_drives :: bool
  scan_started_tick :: usbs_u64
  gw_store :: usbs_store
  have_store :: bool
  gw_cancel_flag :: gui_cancel_flag
  worker_thread :: bool
  scanning :: bool
  last_report_dir :: string
  have_last_report_dir :: bool
  dev_notify :: bool
  auto_scan_enabled :: bool
  auto_scanned_identities :: "string list"
  progress_total_bytes :: usbs_u64
  progress_determinate :: bool
  progress_last_pos :: nat
  last_progress :: usbs_scan_progress
  have_progress :: bool
  banner_visible :: bool
  banner_verdict :: gui_verdict
  banner_headline :: wide
  banner_detail :: wide
  last_progress_tick :: usbs_u64
  final_progress :: usbs_scan_progress
  have_final_progress :: bool
  results_is_rich :: bool
  controls_exist :: bool

text \<open>
  The process around it: the calls made so far, the thread of a running scan, the messages that
  thread has posted and the window has not handled, and everything else.
\<close>

datatype gui_posted =
    WM_APP_SCAN_PROGRESS usbs_scan_progress
  | WM_APP_SCAN_DONE usbs_status "usbs_scan_result option"

datatype gui_thread = NO_THREAD | THREAD_SCANNING usbs_device | THREAD_ENDED

record 'w gui = gui_state +
  gw_alive :: bool
  gw_calls :: "gui_call list"
  gw_thread :: gui_thread
  gw_queue :: "gui_posted list"
  gw_world :: 'w

text \<open>
  What the process is given. \<open>ge_selection\<close> is what CB_GETCURSEL answers (-1 is CB_ERR),
  \<open>ge_client\<close> the size of the client area or the failure to ask for it.
\<close>

record 'w gui_env =
  ge_platform :: "'w platform"
  ge_devices :: "usbs_enum_mode \<Rightarrow> ('w \<Rightarrow> usbs_device_list \<Rightarrow> usbs_status \<times> usbs_device_list \<times> 'w) option"
  ge_codepage :: codepage
  ge_version :: string
  ge_fuel :: nat
  ge_selection :: "'w \<Rightarrow> int"
  ge_checked :: "gui_control \<Rightarrow> 'w \<Rightarrow> bool"
  ge_client :: "'w \<Rightarrow> (int \<times> int) option"
  ge_tick :: "'w \<Rightarrow> usbs_u64 \<times> 'w"
  ge_spawn :: "'w \<Rightarrow> bool \<times> 'w"
  ge_post :: "'w \<Rightarrow> bool \<times> 'w"
  ge_rich_edit :: "'w \<Rightarrow> bool \<times> 'w"

abbreviation ge_mem :: "'w gui_env \<Rightarrow> allocator" where
  "ge_mem X \<equiv> p_mem (ge_platform X)"

definition ui :: "gui_call \<Rightarrow> 'w gui \<Rightarrow> 'w gui" where
  "ui c g = g\<lparr>gw_calls := gw_calls g @ [c]\<rparr>"

definition uis :: "gui_call list \<Rightarrow> 'w gui \<Rightarrow> 'w gui" where
  "uis cs g = g\<lparr>gw_calls := gw_calls g @ cs\<rparr>"

definition set_status_utf8 :: "'w gui_env \<Rightarrow> string \<Rightarrow> 'w gui \<Rightarrow> 'w gui" where
  "set_status_utf8 X utf8 g =
     (case utf8_to_wide (ge_codepage X) utf8 256 of
        None \<Rightarrow> g
      | Some wide \<Rightarrow> ui (SetWindowText LABEL_STATUS wide) g)"

text \<open>The same text as the report view's \<open>format_size\<close>, in a function of its own.\<close>

definition format_bytes :: "usbs_u64 \<Rightarrow> nat \<Rightarrow> string" where
  "format_bytes bytes cap =
     (let m = double_of_u64 (unat bytes); unit = unit_loop (length size_units - 1) m 0
      in if unit = 0 then snprintf_buf cap (dec_of_nat (unat bytes) @ '' B'')
         else snprintf_buf cap (fixed_tenths m (1024 ^ unit) @ '' '' @ size_units ! unit))"

definition enum_mode :: "'m gui_state_scheme \<Rightarrow> usbs_enum_mode" where
  "enum_mode g = (if show_all_drives g then USBS_ENUM_ALL_VOLUMES else USBS_ENUM_USB_ONLY)"

section \<open>Results view\<close>

text \<open>\<open>k_styles\<close>: colour, weight, and what is added to the base size in points.\<close>

fun k_style :: "gui_text_style \<Rightarrow> colorref \<times> bool \<times> int" where
  "k_style GUI_STYLE_TITLE = ((17, 24, 39), True, 2)"
| "k_style GUI_STYLE_SECTION = ((30, 58, 110), True, 0)"
| "k_style GUI_STYLE_LABEL = ((90, 98, 112), False, 0)"
| "k_style GUI_STYLE_BODY = ((28, 32, 38), False, 0)"
| "k_style GUI_STYLE_MUTED = ((114, 122, 136), False, 0)"
| "k_style GUI_STYLE_GOOD = ((14, 118, 62), True, 0)"
| "k_style GUI_STYLE_WARNING = ((174, 94, 0), True, 0)"
| "k_style GUI_STYLE_THREAT = ((190, 24, 38), True, 0)"

text \<open>The text gathered for the plain control; a NULL buffer is \<open>None\<close>, its length is \<open>plain_len\<close>.\<close>

record rich_sink =
  sink_rich :: bool
  base_size :: int
  plain :: "wide option"
  plain_cap :: nat

function double_until :: "nat \<Rightarrow> nat \<Rightarrow> nat" where
  "double_until cap need = (if 0 < cap \<and> cap < need then double_until (cap * 2) need else cap)"
  by pat_completeness auto

termination by (relation "measure (\<lambda>(cap, need). need - cap)") auto

declare double_until.simps [simp del]

definition plain_text :: "rich_sink \<Rightarrow> wide" where
  "plain_text sink = (case plain sink of None \<Rightarrow> [] | Some t \<Rightarrow> t)"

definition rich_sink_append_plain :: "allocator \<Rightarrow> wide \<Rightarrow> rich_sink \<Rightarrow> rich_sink" where
  "rich_sink_append_plain mem t sink =
     (let need = length (plain_text sink) + length t + 1
      in if need > plain_cap sink then
           (let new_cap = double_until (if plain_cap sink = 0 then 8192 else plain_cap sink) need
            in if \<not> mem (new_cap * 2) then sink
               else sink\<lparr>plain := Some (plain_text sink @ t), plain_cap := new_cap\<rparr>)
         else sink\<lparr>plain := Some (plain_text sink @ t)\<rparr>)"

definition rich_emit :: "'w gui_env \<Rightarrow> gui_run \<Rightarrow> rich_sink \<times> 'w gui \<Rightarrow> rich_sink \<times> 'w gui" where
  "rich_emit X run sg =
     (case (run, sg) of
        ((style, utf8), (sink, g)) \<Rightarrow>
          if utf8 = [] then (sink, g)
          else
            (let wide = cp_wide (ge_codepage X) utf8; needed = length wide + 1
             in if needed > 1024 \<and> \<not> ge_mem X (needed * 2) then (sink, g)
                else if \<not> sink_rich sink then (rich_sink_append_plain (ge_mem X) wide sink, g)
                else
                  (case k_style style of
                     (colour, bold, point_delta) \<Rightarrow>
                       (sink,
                        uis [SendMessage EDIT_RESULTS (EM_SETSEL (- 1) (- 1)),
                             SendMessage EDIT_RESULTS
                               (EM_SETCHARFORMAT \<lparr>cr_text_color = colour, cf_bold = bold,
                                                   y_height = base_size sink + point_delta * 20\<rparr>),
                             SendMessage EDIT_RESULTS (EM_REPLACESEL wide)] g))))"

definition results_set_plain_message :: "wide \<Rightarrow> 'w gui \<Rightarrow> 'w gui" where
  "results_set_plain_message message g = ui (SetWindowText EDIT_RESULTS message) g"

definition results_render :: "'w gui_env \<Rightarrow> usbs_scan_result \<Rightarrow> 'w gui \<Rightarrow> 'w gui" where
  "results_render X result g =
     (let sink = \<lparr>sink_rich = results_is_rich g, base_size = 9 * 20, plain = None, plain_cap = 0\<rparr>;
          g1 = ui (SendMessage EDIT_RESULTS (WM_SETREDRAW False)) g;
          g2 = (if sink_rich sink then ui (SendMessage EDIT_RESULTS (EM_SETTEXTEX [])) g1 else g1);
          totals = (if have_progress g
                    then Some \<lparr>total_files = files_scanned (last_progress g), total_bytes = bytes_scanned (last_progress g)\<rparr>
                    else None)
      in (case fold (rich_emit X) (gui_report_render_runs (Some result) totals) (sink, g2) of
            (sink1, g3) \<Rightarrow>
              (let g4 = (if sink_rich sink1 then g3
                         else results_set_plain_message
                                (case plain sink1 of
                                   None \<Rightarrow> wide_lit ''(scan completed - see the saved JSON/CSV report)''
                                 | Some t \<Rightarrow> t) g3);
                   g5 = ui (SendMessage EDIT_RESULTS (WM_SETREDRAW True)) g4;
                   g6 = (if sink_rich sink1 then ui (SendMessage EDIT_RESULTS EM_EMPTYUNDOBUFFER) g5 else g5)
               in uis [InvalidateRect EDIT_RESULTS, UpdateWindow EDIT_RESULTS] g6)))"

definition results_scroll_to_top :: "'w gui \<Rightarrow> 'w gui" where
  "results_scroll_to_top g =
     (let g1 = uis [SendMessage EDIT_RESULTS (EM_SETSEL 0 0), SendMessage EDIT_RESULTS EM_SCROLLCARET] g
      in if results_is_rich g then ui (SendMessage EDIT_RESULTS WM_VSCROLL_TOP) g1 else g1)"

definition results_clear :: "'w gui \<Rightarrow> 'w gui" where
  "results_clear g =
     (if results_is_rich g then ui (SendMessage EDIT_RESULTS (EM_SETTEXTEX [])) g
      else ui (SetWindowText EDIT_RESULTS []) g)"

section \<open>Verdict banner and progress bar\<close>

definition banner_hide :: "'w gui \<Rightarrow> 'w gui" where
  "banner_hide g = ui (ShowControl BANNER False) (g\<lparr>banner_visible := False\<rparr>)"

definition banner_show :: "'w gui_env \<Rightarrow> gui_report_summary \<Rightarrow> 'w gui \<Rightarrow> 'w gui" where
  "banner_show X summary g =
     (let headline = utf8_to_wide (ge_codepage X) (gui_verdict_headline (gs_verdict summary)) 64;
          detail = utf8_to_wide (ge_codepage X) (gui_verdict_detail (Some summary) 256) 256
      in uis [ShowControl BANNER True, InvalidateRect BANNER]
           (g\<lparr>banner_verdict := gs_verdict summary,
              banner_headline := (case headline of None \<Rightarrow> banner_headline g | Some w \<Rightarrow> w),
              banner_detail := (case detail of None \<Rightarrow> banner_detail g | Some w \<Rightarrow> w),
              banner_visible := True\<rparr>))"

definition progress_set_marquee :: "bool \<Rightarrow> 'w gui \<Rightarrow> 'w gui" where
  "progress_set_marquee on g =
     (if on then uis [SetMarqueeStyle True, SendMessage PROGRESS_BAR (PBM_SETMARQUEE True 30)] g
      else uis [SendMessage PROGRESS_BAR (PBM_SETMARQUEE False 0), SetMarqueeStyle False] g)"

definition progress_begin :: "usbs_device \<Rightarrow> 'w gui \<Rightarrow> 'w gui" where
  "progress_begin d g =
     (let used = (if capacity_bytes d > 0 \<and> free_bytes d \<le> capacity_bytes d then capacity_bytes d - free_bytes d else 0);
          g1 = uis [SendMessage PROGRESS_BAR (PBM_SETRANGE32 0 (int GUI_PROGRESS_RANGE)), SendMessage PROGRESS_BAR (PBM_SETPOS 0)]
                 (g\<lparr>progress_total_bytes := used, progress_determinate := (used > 0), progress_last_pos := 0\<rparr>);
          g2 = progress_set_marquee (\<not> progress_determinate g1) g1;
          g3 = (if progress_determinate g2 then ui (SendMessage PROGRESS_BAR (PBM_SETPOS 0)) g2 else g2)
      in ui (ShowControl PROGRESS_BAR True) g3)"

text \<open>The product of the bytes and the range wraps at 64 bits, as in the code.\<close>

definition bar_position :: "usbs_u64 \<Rightarrow> usbs_u64 \<Rightarrow> nat" where
  "bar_position bytes used =
     (if bytes \<ge> used then GUI_PROGRESS_RANGE else unat ((bytes * of_nat GUI_PROGRESS_RANGE) div used))"

definition progress_update :: "usbs_scan_progress \<Rightarrow> 'w gui \<Rightarrow> 'w gui" where
  "progress_update progress g =
     (if \<not> progress_determinate g \<or> progress_total_bytes g = 0 then g
      else
        (let raw = bar_position (bytes_scanned progress) (progress_total_bytes g);
             pos = (if raw < progress_last_pos g then progress_last_pos g else raw)
         in ui (SendMessage PROGRESS_BAR (PBM_SETPOS (int pos))) (g\<lparr>progress_last_pos := pos\<rparr>)))"

definition progress_end :: "'w gui \<Rightarrow> 'w gui" where
  "progress_end g =
     (let g1 = (if progress_determinate g
                then ui (SendMessage PROGRESS_BAR (PBM_SETPOS (int GUI_PROGRESS_RANGE))) g else g);
          g2 = progress_set_marquee False g1
      in uis [ShowControl PROGRESS_BAR False, SendMessage PROGRESS_BAR (PBM_SETPOS 0)] g2
           \<lparr>progress_determinate := False, progress_last_pos := 0\<rparr>)"

section \<open>Devices\<close>

definition auto_scan_set_contains :: "string \<Rightarrow> 'm gui_state_scheme \<Rightarrow> bool" where
  "auto_scan_set_contains identity g \<longleftrightarrow> identity \<in> set (auto_scanned_identities g)"

definition auto_scan_set_add :: "string \<Rightarrow> 'm gui_state_scheme \<Rightarrow> 'm gui_state_scheme" where
  "auto_scan_set_add identity g =
     (if auto_scan_set_contains identity g then g
      else if length (auto_scanned_identities g) < GUI_AUTO_SCAN_TRACK_MAX
      then g\<lparr>auto_scanned_identities := auto_scanned_identities g @ [snprintf_buf USBS_IDENTITY_MAX identity]\<rparr>
      else g)"

text \<open>The identity of a device as the code asks for it; \<open>None\<close> when the call fails.\<close>

definition identity_of :: "usbs_device \<Rightarrow> string option" where
  "identity_of d =
     (case usbs_device_identity d USBS_IDENTITY_MAX of (st, i) \<Rightarrow> if usbs_ok st then Some i else None)"

text \<open>
  The loop keeps, in order, the tracked identities of which some listed device has the same; the
  copy of an entry over an earlier one is a \<open>snprintf\<close> from an array of the same size.
\<close>

definition auto_scan_set_prune_absent :: "'m gui_state_scheme \<Rightarrow> 'm gui_state_scheme" where
  "auto_scan_set_prune_absent g =
     g\<lparr>auto_scanned_identities :=
         filter (\<lambda>tracked. list_ex (\<lambda>d. identity_of d = Some tracked) (v_items (gw_devices g))) (auto_scanned_identities g)\<rparr>"

definition first_mount_point :: "usbs_device \<Rightarrow> string" where
  "first_mount_point d = (case mount_points d of [] \<Rightarrow> [] | m # _ \<Rightarrow> m)"

definition device_entry_text :: "usbs_device \<Rightarrow> string" where
  "device_entry_text d =
     (let gap = (if label d \<noteq> [] then ''  '' else [])
      in if bus_type d = USBS_BUS_USB then
           (if mount_points d \<noteq> [] then first_mount_point d else ''(no letter)'') @ gap @ label d @ ''  ['' @
           snd (usbs_device_identity d USBS_IDENTITY_MAX) @ '']''
         else
           first_mount_point d @ gap @ label d @ ''  ['' @ usbs_bus_type_string (bus_type d) @ '', '' @
           format_bytes (capacity_bytes d) 32 @ '']'')"

definition device_label :: "usbs_device \<Rightarrow> string" where
  "device_label d = snprintf_buf 256 (device_entry_text d)"

text \<open>
  One turn of the loop over the enumerated volumes. The status of the push is not looked at;
  \<open>restore_index\<close> is -1 while no device with the previous identity has come by.
\<close>

definition list_drive ::
  "'w gui_env \<Rightarrow> string option \<Rightarrow> usbs_device \<Rightarrow> int \<times> 'w gui \<Rightarrow> int \<times> 'w gui" where
  "list_drive X previous d acc =
     (case acc of
        (restore_index, g) \<Rightarrow>
          if \<not> usbs_device_is_scannable d (enum_mode g) then (restore_index, g)
          else
            (let g1 = (case utf8_to_wide (ge_codepage X) (device_label d) 320 of
                         None \<Rightarrow> g
                       | Some wide \<Rightarrow> ui (SendMessage COMBO_DEVICES (CB_ADDSTRING wide)) g);
                 restore1 = (if restore_index < 0 \<and> previous = Some (snd (usbs_device_identity d USBS_IDENTITY_MAX))
                             then int (length (v_items (gw_devices g))) else restore_index)
             in (restore1, g1\<lparr>gw_devices := snd (usbs_device_list_push (ge_mem X) (gw_devices g1) d)\<rparr>)))"

definition selected_device :: "'w gui_env \<Rightarrow> 'w gui \<Rightarrow> usbs_device option" where
  "selected_device X g =
     (let sel = ge_selection X (gw_world g)
      in if sel < 0 \<or> nat sel \<ge> length (v_items (gw_devices g)) then None
         else Some (v_items (gw_devices g) ! nat sel))"

definition populate_devices :: "'w gui_env \<Rightarrow> 'w gui \<Rightarrow> 'w gui" where
  "populate_devices X g =
     (let previous = (case selected_device X g of None \<Rightarrow> None | Some d \<Rightarrow> identity_of d);
          g1 = (ui (SendMessage COMBO_DEVICES CB_RESETCONTENT) g)\<lparr>gw_devices := vec_init\<rparr>
      in (case usbs_device_enumerate (ge_devices X (enum_mode g1)) (gw_world g1) of
            (st, raw, w1) \<Rightarrow>
              (let g2 = g1\<lparr>gw_world := w1\<rparr>
               in if \<not> usbs_ok st then set_status_utf8 X ''Device enumeration failed.'' g2
                  else
                    (case fold (list_drive X previous) (v_items raw) (- 1, g2) of
                       (restore_index, g3) \<Rightarrow>
                         (let g4 = auto_scan_set_prune_absent g3; n = length (v_items (gw_devices g4))
                          in if n > 0 then
                               set_status_utf8 X
                                 (snprintf_buf 64 (dec_of_nat n @
                                    (if show_all_drives g4 then '' drive(s) found.'' else '' USB device(s) found.'')))
                                 (ui (SendMessage COMBO_DEVICES (CB_SETCURSEL (if restore_index \<ge> 0 then nat restore_index else 0))) g4)
                             else if show_all_drives g4 then set_status_utf8 X (snprintf_buf 64 ''No readable drive found.'') g4
                             else set_status_utf8 X
                                    (snprintf_buf 64 ''No USB device found. Insert one and click Refresh.'') g4)))))"

section \<open>Creation and layout\<close>

definition create_results_control :: "'w gui_env \<Rightarrow> 'w gui \<Rightarrow> 'w gui" where
  "create_results_control X g =
     (case ge_rich_edit X (gw_world g) of
        (rich, w1) \<Rightarrow>
          (let g1 = g\<lparr>gw_world := w1, results_is_rich := rich\<rparr>
           in if rich then
                uis [CreateControl EDIT_RESULTS CLS_RICHEDIT []
                       [WS_VISIBLE, WS_VSCROLL, WS_TABSTOP, ES_MULTILINE, ES_READONLY, ES_AUTOVSCROLL, ES_NOHIDESEL],
                     SendMessage EDIT_RESULTS (EM_EXLIMITTEXT (2 ^ 22)),
                     SendMessage EDIT_RESULTS (EM_SETBKGNDCOLOR (252, 252, 253)),
                     SendMessage EDIT_RESULTS (EM_SETEVENTMASK 0)] g1
              else
                ui (CreateControl EDIT_RESULTS CLS_EDIT []
                      [WS_VISIBLE, WS_VSCROLL, WS_TABSTOP, ES_MULTILINE, ES_READONLY, ES_AUTOVSCROLL]) g1))"

definition create_calls :: "gui_call list" where
  "create_calls =
     [CreateControl LABEL_DEVICE CLS_STATIC (wide_lit ''Device'') [WS_VISIBLE, SS_CENTERIMAGE],
      CreateControl COMBO_DEVICES CLS_COMBOBOX [] [WS_VISIBLE, WS_TABSTOP, CBS_DROPDOWNLIST, WS_VSCROLL],
      CreateControl BTN_REFRESH CLS_BUTTON (wide_lit ''Refresh'') [WS_VISIBLE, WS_TABSTOP],
      CreateControl BTN_SCAN CLS_BUTTON (wide_lit ''Scan'') [WS_VISIBLE, WS_TABSTOP, BS_DEFPUSHBUTTON],
      CreateControl BTN_CANCEL CLS_BUTTON (wide_lit ''Cancel'') [WS_VISIBLE, WS_TABSTOP, WS_DISABLED],
      CreateControl BTN_OPENDIR CLS_BUTTON (wide_lit ''Open Reports Folder'') [WS_VISIBLE, WS_TABSTOP, WS_DISABLED],
      CreateControl CHK_AUTOSCAN CLS_BUTTON (wide_lit ''Auto-scan new devices'') [WS_VISIBLE, WS_TABSTOP, BS_AUTOCHECKBOX],
      SendMessage CHK_AUTOSCAN (BM_SETCHECK False),
      CreateControl CHK_ALLDRIVES CLS_BUTTON (wide_lit ''Show all drives (Internal && External)'')
        [WS_VISIBLE, WS_TABSTOP, BS_AUTOCHECKBOX],
      SendMessage CHK_ALLDRIVES (BM_SETCHECK False),
      CreateControl PROGRESS_BAR CLS_PROGRESS [] [PBS_SMOOTH],
      SendMessage PROGRESS_BAR (PBM_SETRANGE32 0 (int GUI_PROGRESS_RANGE)),
      CreateControl BANNER CLS_STATIC [] [SS_OWNERDRAW],
      CreateControl LABEL_STATUS CLS_STATIC (wide_lit ''Ready.'') [WS_VISIBLE, SS_CENTERIMAGE, SS_ENDELLIPSIS]]"

definition create_controls :: "'w gui_env \<Rightarrow> 'w gui \<Rightarrow> 'w gui" where
  "create_controls X g =
     uis (map (\<lambda>c. SendMessage c WM_SETFONT)
            [LABEL_DEVICE, COMBO_DEVICES, BTN_REFRESH, BTN_SCAN, BTN_CANCEL, BTN_OPENDIR, CHK_AUTOSCAN,
             CHK_ALLDRIVES, LABEL_STATUS, EDIT_RESULTS])
       (create_results_control X (uis create_calls (g\<lparr>controls_exist := True\<rparr>)))"

definition GUI_MARGIN :: int where "GUI_MARGIN = 14"
definition GUI_ROW_H :: int where "GUI_ROW_H = 26"
definition GUI_GAP :: int where "GUI_GAP = 8"
definition GUI_BANNER_H :: int where "GUI_BANNER_H = 52"

definition layout_controls :: "int \<Rightarrow> int \<Rightarrow> 'w gui \<Rightarrow> 'w gui" where
  "layout_controls width height g =
     (if \<not> controls_exist g then g
      else
        (let m = GUI_MARGIN; right = width - GUI_MARGIN; label_w = 48; refresh_w = 88;
             combo_w = max 120 (right - m - label_w - GUI_GAP - refresh_w - GUI_GAP);
             y1 = GUI_MARGIN; y2 = y1 + GUI_ROW_H + 4; y3 = y2 + 20 + GUI_GAP + 2; y4 = y3 + 30 + GUI_GAP + 2;
             y5 = y4 + 16 + GUI_GAP;
             results_top = (if banner_visible g then y5 + GUI_BANNER_H + GUI_GAP else y5);
             results_bottom = max (results_top + 60) (height - GUI_MARGIN - GUI_ROW_H - GUI_GAP)
         in uis [MoveWindow LABEL_DEVICE m y1 label_w GUI_ROW_H,
                 MoveWindow COMBO_DEVICES (m + label_w + GUI_GAP) y1 combo_w 240,
                 MoveWindow BTN_REFRESH (m + label_w + GUI_GAP + combo_w + GUI_GAP) y1 refresh_w GUI_ROW_H,
                 MoveWindow CHK_ALLDRIVES (m + label_w + GUI_GAP) y2 260 20,
                 MoveWindow CHK_AUTOSCAN (right - 170) y2 170 20,
                 MoveWindow BTN_SCAN m y3 104 30,
                 MoveWindow BTN_CANCEL (m + 112) y3 104 30,
                 MoveWindow BTN_OPENDIR (m + 224) y3 168 30,
                 MoveWindow PROGRESS_BAR m y4 (right - m) 16,
                 MoveWindow BANNER m y5 (right - m) GUI_BANNER_H,
                 MoveWindow EDIT_RESULTS m results_top (right - m) (results_bottom - results_top),
                 MoveWindow LABEL_STATUS m (results_bottom + GUI_GAP) (right - m) GUI_ROW_H] g))"

definition relayout :: "'w gui_env \<Rightarrow> 'w gui \<Rightarrow> 'w gui" where
  "relayout X g =
     (case ge_client X (gw_world g) of None \<Rightarrow> g | Some (width, height) \<Rightarrow> layout_controls width height g)"

section \<open>Saving the reports\<close>

text \<open>The directory of a path: what stands before its last backslash, or the whole of it.\<close>

definition cut_last_separator :: "string \<Rightarrow> string" where
  "cut_last_separator path =
     (if CHR 0x5C \<in> set path then rev (tl (dropWhile (\<lambda>c. c \<noteq> CHR 0x5C) (rev path))) else path)"

definition gui_save_json :: "'w gui_env \<Rightarrow> string \<Rightarrow> usbs_scan_result \<Rightarrow> 'w gui \<Rightarrow> (bool \<times> 'w gui) option" where
  "gui_save_json X identity result g =
     (case usbs_report_build_json (ge_mem X) (ge_version X) result of
        Inl _ \<Rightarrow> Some (False, g)
      | Inr t \<Rightarrow>
          (case usbs_store_write_report (ge_fuel X) (ge_platform X) (gw_store g) identity (scan_id result)
                  (started_at result) t USBS_STORE_PATH_MAX (gw_world g) of
             None \<Rightarrow> None
           | Some (Inl _, w1) \<Rightarrow> Some (False, g\<lparr>gw_world := w1\<rparr>)
           | Some (Inr saved_path, w1) \<Rightarrow>
               Some (True, g\<lparr>gw_world := w1, last_report_dir := snprintf_buf USBS_STORE_PATH_MAX saved_path\<rparr>)))"

definition gui_save_csv :: "'w gui_env \<Rightarrow> string \<Rightarrow> usbs_scan_result \<Rightarrow> 'w gui \<Rightarrow> 'w gui" where
  "gui_save_csv X identity result g =
     (case usbs_report_build_csv (ge_mem X) result of
        Inl _ \<Rightarrow> g
      | Inr t \<Rightarrow>
          g\<lparr>gw_world := snd (usbs_store_write_report_csv (ge_platform X) (gw_store g) identity (scan_id result)
                               (started_at result) t USBS_STORE_PATH_MAX (gw_world g))\<rparr>)"

definition save_reports :: "'w gui_env \<Rightarrow> usbs_scan_result \<Rightarrow> 'w gui \<Rightarrow> 'w gui option" where
  "save_reports X result g =
     (if \<not> have_store g then Some g
      else
        (case identity_of (scan_device result) of
           None \<Rightarrow> Some g
         | Some identity \<Rightarrow>
             (case gui_save_json X identity result g of
                None \<Rightarrow> None
              | Some (saved_any, g1) \<Rightarrow>
                  (let g2 = gui_save_csv X identity result g1
                   in Some (if saved_any
                            then ui (EnableWindow BTN_OPENDIR True)
                                   (g2\<lparr>last_report_dir := cut_last_separator (last_report_dir g2), have_last_report_dir := True\<rparr>)
                            else g2)))))"

section \<open>The worker's messages\<close>

definition join_worker :: "'w gui \<Rightarrow> 'w gui" where
  "join_worker g =
     (if worker_thread g then
        (let g1 = g\<lparr>worker_thread := False, gw_thread := NO_THREAD\<rparr>
         in if have_final_progress g1 then g1\<lparr>last_progress := final_progress g1, have_progress := True\<rparr> else g1)
      else g)"

definition done_status_line :: "gui_report_summary \<Rightarrow> string" where
  "done_status_line s =
     (let line = (if completed s then ''Scan complete'' else ''Scan stopped early'') @ ''  -  '' @
                 dec_of_nat (finding_count s) @ '' finding(s) across '' @
                 dec_of_nat (checks_run s + checks_skipped s + checks_failed s) @ '' check(s)'';
          more = (if gs_paths_skipped s > 0
                  then '', '' @ dec_of_nat (unat (gs_paths_skipped s)) @ '' protected location(s) skipped.'' else ''.'')
      in if length line < 160 then line @ snprintf_buf (160 - length line) more else snprintf_buf 160 line)"

definition leave_scan :: "'w gui \<Rightarrow> 'w gui" where
  "leave_scan g =
     progress_end
       (uis [EnableWindow BTN_SCAN True, EnableWindow BTN_REFRESH True, EnableWindow COMBO_DEVICES True,
             EnableWindow CHK_ALLDRIVES True, EnableWindow BTN_CANCEL False] (g\<lparr>scanning := False\<rparr>))"

definition handle_scan_done ::
  "'w gui_env \<Rightarrow> usbs_status \<Rightarrow> usbs_scan_result option \<Rightarrow> 'w gui \<Rightarrow> 'w gui option" where
  "handle_scan_done X status result g =
     (let g1 = leave_scan (join_worker g)
      in (case result of
            None \<Rightarrow> Some (set_status_utf8 X ''Scan could not be started.'' (relayout X (banner_hide g1)))
          | Some r \<Rightarrow>
              if \<not> usbs_ok status
              then Some (set_status_utf8 X ''Scan could not be started.'' (relayout X (banner_hide g1)))
              else
                (let summary = gui_report_summarize (Some r);
                     g2 = results_scroll_to_top (relayout X (banner_show X summary (results_render X r g1)))
                 in map_option (set_status_utf8 X (done_status_line summary)) (save_reports X r g2))))"

definition pad2 :: "nat \<Rightarrow> string" where
  "pad2 n = (if n < 10 then ''0'' else []) @ dec_of_nat n"

definition elapsed_text :: "nat \<Rightarrow> string" where
  "elapsed_text seconds =
     snprintf_buf 32
       (if seconds \<ge> 3600
        then dec_of_nat (seconds div 3600) @ ''h '' @ pad2 ((seconds div 60) mod 60) @ ''m '' @ pad2 (seconds mod 60) @ ''s''
        else dec_of_nat (seconds div 60) @ ''m '' @ pad2 (seconds mod 60) @ ''s'')"

definition gui_handle_progress :: "'w gui_env \<Rightarrow> usbs_scan_progress \<Rightarrow> 'w gui \<Rightarrow> 'w gui" where
  "gui_handle_progress X progress g =
     (case ge_tick X (gw_world g) of
        (now, w1) \<Rightarrow>
          (let seconds = unat ((now - scan_started_tick g) div 1000);
               g1 = progress_update progress (g\<lparr>gw_world := w1, last_progress := progress, have_progress := True\<rparr>);
               skipped = (if progress_paths_skipped progress > 0
                          then snprintf_buf 48 ('', '' @ dec_of_nat (unat (progress_paths_skipped progress)) @ '' skipped'') else []);
               msg = ''Scanning...  '' @ dec_of_nat (unat (files_scanned progress)) @ '' file(s), '' @
                     format_bytes (bytes_scanned progress) 32 @ skipped @
                     (if progress_determinate g1
                      then ''  ('' @ dec_of_nat (progress_last_pos g1 div (GUI_PROGRESS_RANGE div 100)) @ ''%)  -  ''
                      else ''  -  '') @ elapsed_text seconds
           in set_status_utf8 X (snprintf_buf 200 msg) g1))"

section \<open>On the worker thread\<close>

definition post_message :: "'w gui_env \<Rightarrow> gui_posted \<Rightarrow> 'w gui \<Rightarrow> 'w gui" where
  "post_message X m g =
     (case ge_post X (gw_world g) of
        (posted, w1) \<Rightarrow>
          if posted then g\<lparr>gw_world := w1, gw_queue := gw_queue g @ [m]\<rparr> else g\<lparr>gw_world := w1\<rparr>)"

definition gui_on_progress :: "'w gui_env \<Rightarrow> usbs_scan_progress \<Rightarrow> 'w gui \<Rightarrow> 'w gui" where
  "gui_on_progress X progress g =
     (case ge_tick X (gw_world g) of
        (now, w1) \<Rightarrow>
          (let g1 = g\<lparr>gw_world := w1, final_progress := progress, have_final_progress := True\<rparr>
           in if now - last_progress_tick g1 < 100 then g1
              else
                (let g2 = g1\<lparr>last_progress_tick := now\<rparr>
                 in if \<not> ge_mem X SIZEOF_PROGRESS then g2 else post_message X (WM_APP_SCAN_PROGRESS progress) g2)))"

definition gui_on_done :: "'w gui_env \<Rightarrow> usbs_status \<Rightarrow> usbs_scan_result option \<Rightarrow> 'w gui \<Rightarrow> 'w gui" where
  "gui_on_done X status result g =
     (if \<not> ge_mem X SIZEOF_DONE_PAYLOAD then g else post_message X (WM_APP_SCAN_DONE status result) g)"

section \<open>Buttons\<close>

definition zero_scan_progress :: usbs_scan_progress where
  "zero_scan_progress = \<lparr>files_scanned = 0, bytes_scanned = 0, progress_paths_skipped = 0\<rparr>"

definition enter_scan :: "'w gui_env \<Rightarrow> usbs_device \<Rightarrow> 'w gui \<Rightarrow> 'w gui" where
  "enter_scan X d g =
     (case ge_tick X (gw_world g) of
        (now, w1) \<Rightarrow>
          (let g1 = g\<lparr>gw_world := w1, scanning := True, have_progress := False, scan_started_tick := now,
                      last_progress := zero_scan_progress\<rparr>;
               g2 = uis [EnableWindow BTN_SCAN False, EnableWindow BTN_REFRESH False, EnableWindow COMBO_DEVICES False,
                         EnableWindow CHK_ALLDRIVES False, EnableWindow BTN_CANCEL True] g1
           in set_status_utf8 X ''Scanning...'' (progress_begin d (relayout X (results_clear (banner_hide g2))))))"

definition open_store_once :: "'w gui_env \<Rightarrow> 'w gui \<Rightarrow> bool \<times> 'w gui" where
  "open_store_once X g =
     (if have_store g then (True, g)
      else
        (case usbs_store_open (ge_platform X) (gw_world g) of
           (Inl _, w1) \<Rightarrow> (False, g\<lparr>gw_world := w1\<rparr>)
         | (Inr store, w1) \<Rightarrow> (True, g\<lparr>gw_world := w1, gw_store := store, have_store := True\<rparr>)))"

definition start_scan_for_device :: "'w gui_env \<Rightarrow> usbs_device \<Rightarrow> 'w gui \<Rightarrow> 'w gui" where
  "start_scan_for_device X d g =
     (if scanning g then g
      else
        (case open_store_once X g of
           (opened, g1) \<Rightarrow>
             if \<not> opened then set_status_utf8 X ''Could not open the report store.'' g1
             else if \<not> ge_mem X SIZEOF_WORKER_LAUNCH then set_status_utf8 X ''Out of memory.'' g1
             else
               (let g2 = g1\<lparr>gw_cancel_flag := 0, last_progress_tick := 0, have_final_progress := False,
                            final_progress := zero_scan_progress\<rparr>
                in (case ge_spawn X (gw_world g2) of
                      (spawned, w1) \<Rightarrow>
                        if \<not> spawned
                        then set_status_utf8 X ''Could not start the scan worker thread.'' (g2\<lparr>gw_world := w1, worker_thread := False\<rparr>)
                        else enter_scan X d (g2\<lparr>gw_world := w1, worker_thread := True, gw_thread := THREAD_SCANNING d\<rparr>)))))"

definition on_scan_clicked :: "'w gui_env \<Rightarrow> 'w gui \<Rightarrow> 'w gui" where
  "on_scan_clicked X g =
     (if scanning g then g
      else
        (case selected_device X g of
           None \<Rightarrow> set_status_utf8 X ''Select a device first.'' g
         | Some d \<Rightarrow> start_scan_for_device X d g))"

definition on_cancel_clicked :: "'w gui_env \<Rightarrow> 'w gui \<Rightarrow> 'w gui" where
  "on_cancel_clicked X g =
     (if \<not> scanning g then g
      else set_status_utf8 X ''Cancelling...'' (ui (EnableWindow BTN_CANCEL False) (g\<lparr>gw_cancel_flag := 1\<rparr>)))"

definition on_open_folder_clicked :: "'w gui_env \<Rightarrow> 'w gui \<Rightarrow> 'w gui" where
  "on_open_folder_clicked X g =
     (if \<not> have_last_report_dir g then set_status_utf8 X ''No report saved yet.'' g
      else
        (case utf8_to_wide (ge_codepage X) (last_report_dir g) USBS_STORE_PATH_MAX of
           None \<Rightarrow> g
         | Some wide \<Rightarrow> ui (ShellOpen wide) g))"

definition on_autoscan_toggled :: "'w gui_env \<Rightarrow> 'w gui \<Rightarrow> 'w gui" where
  "on_autoscan_toggled X g = g\<lparr>auto_scan_enabled := ge_checked X CHK_AUTOSCAN (gw_world g)\<rparr>"

definition on_alldrives_toggled :: "'w gui_env \<Rightarrow> 'w gui \<Rightarrow> 'w gui" where
  "on_alldrives_toggled X g =
     (if scanning g then g
      else populate_devices X (g\<lparr>show_all_drives := ge_checked X CHK_ALLDRIVES (gw_world g)\<rparr>))"

text \<open>The loop over the listed devices, up to the first that is to be scanned.\<close>

fun auto_scan_loop :: "'w gui_env \<Rightarrow> usbs_device list \<Rightarrow> 'w gui \<Rightarrow> 'w gui" where
  "auto_scan_loop X [] g = g"
| "auto_scan_loop X (d # ds) g =
     (case identity_of d of
        None \<Rightarrow> auto_scan_loop X ds g
      | Some identity \<Rightarrow>
          if gui_should_auto_scan (Some d) (auto_scan_enabled g) (scanning g) (auto_scan_set_contains identity g)
          then start_scan_for_device X d (auto_scan_set_add identity g)
          else auto_scan_loop X ds g)"

definition handle_device_change :: "'w gui_env \<Rightarrow> 'w gui \<Rightarrow> 'w gui" where
  "handle_device_change X g =
     (if scanning g then g
      else
        (let g1 = populate_devices X g
         in if \<not> auto_scan_enabled g1 then g1 else auto_scan_loop X (v_items (gw_devices g1)) g1))"

section \<open>The window\<close>

definition gui_state_zero :: "'w gui \<Rightarrow> 'w gui" where
  "gui_state_zero g =
     g\<lparr>gw_devices := vec_init, show_all_drives := False, scan_started_tick := 0, gw_store := \<lparr>store_root = []\<rparr>,
       have_store := False, gw_cancel_flag := 0, worker_thread := False, scanning := False, last_report_dir := [],
       have_last_report_dir := False, dev_notify := False, auto_scan_enabled := False, auto_scanned_identities := [],
       progress_total_bytes := 0, progress_determinate := False, progress_last_pos := 0,
       last_progress := zero_scan_progress, have_progress := False, banner_visible := False,
       banner_verdict := GUI_VERDICT_CLEAN, banner_headline := [], banner_detail := [], last_progress_tick := 0,
       final_progress := zero_scan_progress, have_final_progress := False, results_is_rich := False,
       controls_exist := False\<rparr>"

definition on_create :: "'w gui_env \<Rightarrow> 'w gui \<Rightarrow> int \<times> 'w gui" where
  "on_create X g =
     (if \<not> ge_mem X SIZEOF_GUI_STATE then (- 1, g)
      else
        (let g1 = populate_devices X (relayout X (create_controls X ((gui_state_zero g)\<lparr>gw_alive := True\<rparr>)))
         in (0, (case usbs_store_open (ge_platform X) (gw_world g1) of
                   (Inr store, w1) \<Rightarrow> g1\<lparr>gw_world := w1, gw_store := store, have_store := True\<rparr>
                 | (Inl _, w1) \<Rightarrow>
                     set_status_utf8 X ''Warning: could not open the report store; scans will not be saved.''
                       (g1\<lparr>gw_world := w1\<rparr>)))))"

text \<open>
  Destroying the window waits for a worker that still runs, so it happens when the thread has
  ended; the state is freed, which \<open>gw_alive\<close> records.
\<close>

definition on_destroy :: "'w gui \<Rightarrow> 'w gui" where
  "on_destroy g =
     (let g1 = (if gw_alive g then
                  (let g0 = (if dev_notify g then ui UnregisterDeviceNotification g else g);
                       g2 = (if worker_thread g0 then g0\<lparr>gw_thread := NO_THREAD\<rparr> else g0)
                   in g2\<lparr>gw_alive := False\<rparr>)
                else g)
      in ui PostQuitMessage g1)"

datatype device_change = DBT_DEVICEARRIVAL | DBT_DEVICEREMOVECOMPLETE | DBT_OTHER

datatype gui_message =
    WM_CREATE
  | WM_SIZE nat nat
  | WM_GETMINMAXINFO
  | WM_DRAWITEM gui_control gui_rect
  | WM_CTLCOLORSTATIC gui_control
  | WM_COMMAND gui_control bool
  | WM_DEVICECHANGE device_change
  | WM_POSTED gui_posted
  | WM_CLOSE
  | WM_DESTROY
  | WM_UNHANDLED nat

text \<open>What the procedure returns: a number, the smallest frame, a brush, or the system's default.\<close>

datatype gui_result = LRESULT int | MIN_TRACK_SIZE int int | BTNFACE_BRUSH | DEFAULT_PROC

definition on_command :: "'w gui_env \<Rightarrow> gui_control \<Rightarrow> bool \<Rightarrow> 'w gui \<Rightarrow> 'w gui" where
  "on_command X c clicked g =
     (case c of
        BTN_SCAN \<Rightarrow> on_scan_clicked X g
      | BTN_CANCEL \<Rightarrow> on_cancel_clicked X g
      | BTN_REFRESH \<Rightarrow> (if \<not> scanning g then populate_devices X g else g)
      | BTN_OPENDIR \<Rightarrow> on_open_folder_clicked X g
      | CHK_AUTOSCAN \<Rightarrow> on_autoscan_toggled X g
      | CHK_ALLDRIVES \<Rightarrow> (if clicked then on_alldrives_toggled X g else g)
      | _ \<Rightarrow> g)"

definition wnd_proc :: "'w gui_env \<Rightarrow> gui_message \<Rightarrow> 'w gui \<Rightarrow> (gui_result \<times> 'w gui) option" where
  "wnd_proc X msg g =
     (case msg of
        WM_CREATE \<Rightarrow> (case on_create X g of (r, g1) \<Rightarrow> Some (LRESULT r, g1))
      | WM_SIZE width height \<Rightarrow>
          Some (LRESULT 0, if gw_alive g then layout_controls (int width) (int height) g else g)
      | WM_GETMINMAXINFO \<Rightarrow> Some (MIN_TRACK_SIZE 620 520, g)
      | WM_DRAWITEM c rect \<Rightarrow>
          if gw_alive g \<and> c = BANNER
          then Some (LRESULT 1,
                     uis (map Draw (banner_draw (banner_verdict g) (banner_headline g) (banner_detail g) rect)) g)
          else Some (DEFAULT_PROC, g)
      | WM_CTLCOLORSTATIC c \<Rightarrow>
          if gw_alive g \<and> c = LABEL_STATUS then Some (BTNFACE_BRUSH, ui (StatusColours (90, 98, 112)) g)
          else Some (DEFAULT_PROC, g)
      | WM_COMMAND c clicked \<Rightarrow> Some (LRESULT 0, if gw_alive g then on_command X c clicked g else g)
      | WM_DEVICECHANGE change \<Rightarrow>
          Some (LRESULT 1,
                if gw_alive g \<and> (change = DBT_DEVICEARRIVAL \<or> change = DBT_DEVICEREMOVECOMPLETE)
                then handle_device_change X g else g)
      | WM_POSTED (WM_APP_SCAN_PROGRESS p) \<Rightarrow> Some (LRESULT 0, if gw_alive g then gui_handle_progress X p g else g)
      | WM_POSTED (WM_APP_SCAN_DONE status result) \<Rightarrow>
          if gw_alive g then map_option (\<lambda>g1. (LRESULT 0, g1)) (handle_scan_done X status result g)
          else Some (LRESULT 0, g)
      | WM_CLOSE \<Rightarrow>
          Some (LRESULT 0, if gw_alive g \<and> scanning g then ui WarnScanInProgress g else on_destroy g)
      | WM_DESTROY \<Rightarrow> Some (LRESULT 0, on_destroy g)
      | WM_UNHANDLED _ \<Rightarrow> Some (DEFAULT_PROC, g))"

text \<open>
  \<open>gui_window_run\<close> from the creation of the window on: \<open>CreateWindowExW\<close> sends WM_CREATE, then the
  notification of device changes is registered, where that succeeds.
\<close>

definition open_window :: "'w gui_env \<Rightarrow> bool \<Rightarrow> 'w gui \<Rightarrow> 'w gui option" where
  "open_window X registered g =
     (case on_create X g of
        (r, g1) \<Rightarrow>
          if r = - 1 then None
          else Some (if registered \<and> gw_alive g1 then g1\<lparr>dev_notify := True\<rparr> else g1))"

text \<open>
  The worker thread runs one scan with the window's callbacks, over the process as its world: its
  platform is the parameter \<open>P\<close>, and what the callbacks change is the window's own state.
\<close>

definition launch_args :: "'w gui_env \<Rightarrow> usbs_device \<Rightarrow> 'w gui \<Rightarrow> 'w gui gui_worker_args" where
  "launch_args X d g =
     \<lparr>wa_device = d, wa_store = gw_store g, wa_cancel_flag = Some gw_cancel_flag,
      wa_on_progress = Some (gui_on_progress X), wa_on_done = Some (gui_on_done X)\<rparr>"

definition worker_thread_proc ::
  "(usbs_signature list \<Rightarrow> usbs_signature list) \<Rightarrow> 'w gui platform \<Rightarrow> 'w gui libc \<Rightarrow> 'w gui_env \<Rightarrow> usbs_device \<Rightarrow>
     bool \<Rightarrow> hash_globals \<Rightarrow> 'w gui \<Rightarrow> (bool \<times> hash_globals \<times> 'w gui) option" where
  "worker_thread_proc srt P C X d seeded h g =
     gui_worker_run srt (ge_fuel X) P C (launch_args X d g) seeded h g"

text \<open>Its last action is the one call of \<open>gui_on_done\<close>, with a result exactly when the status is USBS_OK.\<close>

lemma worker_thread_ends_with_done:
  assumes "worker_thread_proc srt P C X d seeded h g = Some (seeded', h', g')"
  obtains st r g1 where "g' = gui_on_done X st r g1" and "usbs_ok st \<longleftrightarrow> r \<noteq> None"
proof (rule gui_worker_run_reports_once [OF assms [unfolded worker_thread_proc_def]])
  fix st r g1
  assume "g' = report_outcome (launch_args X d g) st r g1" and "usbs_ok st \<longleftrightarrow> r \<noteq> None"
  then show thesis by (intro that) (simp_all add: report_outcome_def launch_args_def)
qed

end
