(* ===== verification/GuiSafety.thy ===== *)
theory GuiSafety
  imports GuiWindow
begin

text \<open>
  The desktop window as two threads: the steps of the window procedure and of the scan worker, the
  states they reach, and what holds in all of them. What the user sees is read off the calls the
  window has made: a control is enabled, shown, or filled as the last call about it left it.
\<close>

section \<open>What the user sees\<close>

definition enabled_after :: "gui_control \<Rightarrow> gui_call \<Rightarrow> bool \<Rightarrow> bool" where
  "enabled_after c call e =
     (case call of
        EnableWindow c' b \<Rightarrow> if c' = c then b else e
      | CreateControl c' _ _ styles \<Rightarrow> if c' = c then WS_DISABLED \<notin> set styles else e
      | _ \<Rightarrow> e)"

definition shown_after :: "gui_control \<Rightarrow> gui_call \<Rightarrow> bool \<Rightarrow> bool" where
  "shown_after c call s =
     (case call of
        ShowControl c' b \<Rightarrow> if c' = c then b else s
      | CreateControl c' _ _ styles \<Rightarrow> if c' = c then WS_VISIBLE \<in> set styles else s
      | _ \<Rightarrow> s)"

definition items_after :: "gui_call \<Rightarrow> wide list \<Rightarrow> wide list" where
  "items_after call items =
     (case call of
        SendMessage c CB_RESETCONTENT \<Rightarrow> if c = COMBO_DEVICES then [] else items
      | SendMessage c (CB_ADDSTRING w) \<Rightarrow> if c = COMBO_DEVICES then items @ [w] else items
      | _ \<Rightarrow> items)"

definition control_enabled :: "gui_control \<Rightarrow> gui_call list \<Rightarrow> bool" where
  "control_enabled c calls = fold (enabled_after c) calls False"

definition control_shown :: "gui_control \<Rightarrow> gui_call list \<Rightarrow> bool" where
  "control_shown c calls = fold (shown_after c) calls False"

definition combo_items :: "gui_call list \<Rightarrow> wide list" where
  "combo_items calls = fold items_after calls []"

lemma seen_Nil: "control_enabled c [] = False" "control_shown c [] = False" "combo_items [] = []"
  by (simp_all add: control_enabled_def control_shown_def combo_items_def)

lemma seen_snoc [simp]:
  "control_enabled c (calls @ [x]) = enabled_after c x (control_enabled c calls)"
  "control_shown c (calls @ [x]) = shown_after c x (control_shown c calls)"
  "combo_items (calls @ [x]) = items_after x (combo_items calls)"
  by (simp_all add: control_enabled_def control_shown_def combo_items_def)

text \<open>A call that none of the three looks at.\<close>

definition quiet_call :: "gui_call \<Rightarrow> bool" where
  "quiet_call call \<longleftrightarrow>
     (case call of
        EnableWindow _ _ \<Rightarrow> False
      | ShowControl c _ \<Rightarrow> c = PROGRESS_BAR
      | CreateControl _ _ _ _ \<Rightarrow> False
      | SendMessage c _ \<Rightarrow> c \<noteq> COMBO_DEVICES
      | _ \<Rightarrow> True)"

lemma quiet_seen:
  assumes "list_all quiet_call cs"
  shows "control_enabled c (calls @ cs) = control_enabled c calls"
    and "c \<noteq> PROGRESS_BAR \<Longrightarrow> control_shown c (calls @ cs) = control_shown c calls"
    and "combo_items (calls @ cs) = combo_items calls"
proof -
  have "enabled_after c x = (\<lambda>e. e)" "c \<noteq> PROGRESS_BAR \<Longrightarrow> shown_after c x = (\<lambda>e. e)" "items_after x = (\<lambda>e. e)"
    if "quiet_call x" for x
    using that
    by (auto simp: quiet_call_def enabled_after_def shown_after_def items_after_def fun_eq_iff
        split: gui_call.splits gui_ask.splits)
  with assms have "fold (enabled_after c) cs e = e" "c \<noteq> PROGRESS_BAR \<Longrightarrow> fold (shown_after c) cs e = e"
      "fold items_after cs i = i" for e i
    by (induction cs arbitrary: e i) auto
  then show "control_enabled c (calls @ cs) = control_enabled c calls"
    and "c \<noteq> PROGRESS_BAR \<Longrightarrow> control_shown c (calls @ cs) = control_shown c calls"
    and "combo_items (calls @ cs) = combo_items calls"
    by (simp_all add: control_enabled_def control_shown_def combo_items_def)
qed

section \<open>Operations that change nothing but the window's looks\<close>

definition quietly :: "'w gui \<Rightarrow> 'w gui \<Rightarrow> bool" where
  "quietly g g' \<longleftrightarrow>
     (\<exists>cs w. list_all quiet_call cs \<and> g' = g\<lparr>gw_calls := gw_calls g @ cs, gw_world := w\<rparr>)"

lemma quietly_refl [simp]: "quietly g g"
  unfolding quietly_def by (rule exI [of _ "[]"], rule exI [of _ "gw_world g"]) simp

lemma quietly_trans [trans]:
  assumes "quietly a b" and "quietly b c"
  shows "quietly a c"
proof -
  from assms(1) obtain cs w where 1: "list_all quiet_call cs" "b = a\<lparr>gw_calls := gw_calls a @ cs, gw_world := w\<rparr>"
    unfolding quietly_def by blast
  from assms(2) obtain ds v where 2: "list_all quiet_call ds" "c = b\<lparr>gw_calls := gw_calls b @ ds, gw_world := v\<rparr>"
    unfolding quietly_def by blast
  from 1 2 have "list_all quiet_call (cs @ ds) \<and> c = a\<lparr>gw_calls := gw_calls a @ (cs @ ds), gw_world := v\<rparr>" by simp
  then show ?thesis unfolding quietly_def by blast
qed

lemma quietly_uis: "list_all quiet_call cs \<Longrightarrow> quietly g (uis cs g)"
  unfolding quietly_def uis_def by (rule exI [of _ cs], rule exI [of _ "gw_world g"]) simp

lemma quietly_ui: "quiet_call c \<Longrightarrow> quietly g (ui c g)"
  using quietly_uis [of "[c]" g] by (simp add: ui_def uis_def)

lemma quietly_world: "quietly g (g\<lparr>gw_world := w\<rparr>)"
  unfolding quietly_def by (rule exI [of _ "[]"], rule exI [of _ w]) simp

lemma quietly_status: "quietly g (set_status_utf8 X t g)"
  by (auto simp: set_status_utf8_def quiet_call_def intro!: quietly_ui split: option.splits)

lemma quietly_layout: "quietly g (layout_controls width height g)"
  by (auto simp: layout_controls_def quiet_call_def Let_def intro!: quietly_uis)

lemma quietly_relayout: "quietly g (relayout X g)"
  by (auto simp: relayout_def quietly_layout split: option.splits prod.splits)

lemma quietly_results_clear: "quietly g (results_clear g)"
  by (auto simp: results_clear_def quiet_call_def intro!: quietly_ui)

lemma quietly_scroll: "quietly g (results_scroll_to_top g)"
proof -
  let ?cs = "[SendMessage EDIT_RESULTS (EM_SETSEL 0 0), SendMessage EDIT_RESULTS EM_SCROLLCARET]"
  have "quietly g (uis ?cs g)" by (rule quietly_uis) (simp add: quiet_call_def)
  moreover have "quietly (uis ?cs g) (ui (SendMessage EDIT_RESULTS WM_VSCROLL_TOP) (uis ?cs g))"
    by (rule quietly_ui) (simp add: quiet_call_def)
  ultimately show ?thesis by (auto simp: results_scroll_to_top_def Let_def intro: quietly_trans)
qed

lemma quietly_marquee: "quietly g (progress_set_marquee on g)"
  by (auto simp: progress_set_marquee_def quiet_call_def intro!: quietly_uis)

lemma quietly_rich_emit:
  assumes "rich_emit X run (sink, g) = (sink', g')"
  shows "quietly g g'"
  using assms
  by (auto simp: rich_emit_def Let_def quiet_call_def intro!: quietly_uis split: prod.splits if_splits)

lemma quietly_emits:
  assumes "fold (rich_emit X) runs (sink, g) = (sink', g')"
  shows "quietly g g'"
  using assms
proof (induction runs arbitrary: sink g)
  case (Cons run runs)
  obtain s1 g1 where 1: "rich_emit X run (sink, g) = (s1, g1)" by (cases "rich_emit X run (sink, g)") blast
  with Cons.prems have "fold (rich_emit X) runs (s1, g1) = (sink', g')" by simp
  from Cons.IH [OF this] quietly_rich_emit [OF 1] show ?case by (blast intro: quietly_trans)
qed simp

lemma quietly_render: "quietly g (results_render X r g)"
proof -
  let ?sink = "\<lparr>sink_rich = results_is_rich g, base_size = 9 * 20, plain = None, plain_cap = 0\<rparr>"
  let ?g1 = "ui (SendMessage EDIT_RESULTS (WM_SETREDRAW False)) g"
  let ?g2 = "if sink_rich ?sink then ui (SendMessage EDIT_RESULTS (EM_SETTEXTEX [])) ?g1 else ?g1"
  let ?totals = "if have_progress g
    then Some \<lparr>total_files = files_scanned (last_progress g), total_bytes = bytes_scanned (last_progress g)\<rparr> else None"
  obtain sink1 g3 where fold: "fold (rich_emit X) (gui_report_render_runs (Some r) ?totals) (?sink, ?g2) = (sink1, g3)"
    by fastforce
  let ?t = "case plain sink1 of None \<Rightarrow> wide_lit ''(scan completed - see the saved JSON/CSV report)'' | Some t \<Rightarrow> t"
  let ?g4 = "if sink_rich sink1 then g3 else results_set_plain_message ?t g3"
  let ?g5 = "ui (SendMessage EDIT_RESULTS (WM_SETREDRAW True)) ?g4"
  let ?g6 = "if sink_rich sink1 then ui (SendMessage EDIT_RESULTS EM_EMPTYUNDOBUFFER) ?g5 else ?g5"
  have "quietly g ?g1" by (rule quietly_ui) (simp add: quiet_call_def)
  also have "quietly ?g1 ?g2" by (auto simp: quiet_call_def intro: quietly_ui)
  also have "quietly ?g2 g3" by (rule quietly_emits [OF fold])
  also have "quietly g3 ?g4" by (auto simp: results_set_plain_message_def quiet_call_def intro: quietly_ui)
  also have "quietly ?g4 ?g5" by (rule quietly_ui) (simp add: quiet_call_def)
  also have "quietly ?g5 ?g6" by (auto simp: quiet_call_def intro: quietly_ui)
  also have "quietly ?g6 (uis [InvalidateRect EDIT_RESULTS, UpdateWindow EDIT_RESULTS] ?g6)"
    by (rule quietly_uis) (simp add: quiet_call_def)
  also have "uis [InvalidateRect EDIT_RESULTS, UpdateWindow EDIT_RESULTS] ?g6 = results_render X r g"
    unfolding results_render_def Let_def fold prod.case ..
  finally show ?thesis .
qed

lemmas quiet_operations =
  quietly_refl quietly_world quietly_status quietly_layout quietly_relayout quietly_results_clear quietly_scroll
  quietly_marquee quietly_render

section \<open>The invariant\<close>

definition frozen_controls :: "gui_control list" where
  "frozen_controls = [BTN_SCAN, BTN_REFRESH, COMBO_DEVICES, CHK_ALLDRIVES]"

fun is_progress :: "gui_posted \<Rightarrow> bool" where
  "is_progress (WM_APP_SCAN_PROGRESS _) = True"
| "is_progress (WM_APP_SCAN_DONE _ _) = False"

text \<open>What the queue can hold: nothing without a thread, and at most one result, as the last message.\<close>

definition queue_ok :: "gui_thread \<Rightarrow> gui_posted list \<Rightarrow> bool" where
  "queue_ok t q \<longleftrightarrow>
     (case t of
        NO_THREAD \<Rightarrow> q = []
      | THREAD_SCANNING _ \<Rightarrow> list_all is_progress q
      | THREAD_ENDED \<Rightarrow> list_all is_progress (butlast q))"

text \<open>The controls agree with the state.\<close>

definition controls_ok :: "'w gui \<Rightarrow> bool" where
  "controls_ok g \<longleftrightarrow>
     (\<forall>c \<in> set frozen_controls. control_enabled c (gw_calls g) \<longleftrightarrow> \<not> scanning g) \<and>
     (control_enabled BTN_CANCEL (gw_calls g) \<longleftrightarrow> scanning g \<and> gw_cancel_flag g = 0) \<and>
     (control_enabled BTN_OPENDIR (gw_calls g) \<longleftrightarrow> have_last_report_dir g) \<and>
     (control_shown BANNER (gw_calls g) \<longleftrightarrow> banner_visible g)"

definition labels_ok :: "codepage \<Rightarrow> 'w gui \<Rightarrow> bool" where
  "labels_ok U g \<longleftrightarrow>
     take (length (v_items (gw_devices g))) (combo_items (gw_calls g)) =
       map (\<lambda>d. cp_wide U (device_label d)) (v_items (gw_devices g))"

definition live_ok :: "codepage \<Rightarrow> 'w gui \<Rightarrow> bool" where
  "live_ok U g \<longleftrightarrow>
     controls_ok g \<and> labels_ok U g \<and>
     (scanning g \<longleftrightarrow> worker_thread g) \<and> (worker_thread g \<longleftrightarrow> gw_thread g \<noteq> NO_THREAD) \<and>
     (banner_visible g \<longrightarrow> \<not> scanning g) \<and> queue_ok (gw_thread g) (gw_queue g) \<and>
     progress_last_pos g \<le> GUI_PROGRESS_RANGE \<and> length (auto_scanned_identities g) \<le> GUI_AUTO_SCAN_TRACK_MAX"

definition gui_inv :: "codepage \<Rightarrow> 'w gui \<Rightarrow> bool" where
  "gui_inv U g \<longleftrightarrow> (if gw_alive g then live_ok U g else gw_thread g = NO_THREAD)"

lemma quietly_same:
  assumes "quietly g g'"
  shows "gw_devices g' = gw_devices g" "show_all_drives g' = show_all_drives g" "scanning g' = scanning g"
    "worker_thread g' = worker_thread g" "gw_cancel_flag g' = gw_cancel_flag g"
    "have_last_report_dir g' = have_last_report_dir g" "banner_visible g' = banner_visible g"
    "progress_last_pos g' = progress_last_pos g" "progress_determinate g' = progress_determinate g"
    "auto_scanned_identities g' = auto_scanned_identities g" "auto_scan_enabled g' = auto_scan_enabled g"
    "gw_alive g' = gw_alive g" "gw_thread g' = gw_thread g" "gw_queue g' = gw_queue g" "have_store g' = have_store g"
    "last_progress g' = last_progress g" "have_progress g' = have_progress g"
    "control_enabled c (gw_calls g') = control_enabled c (gw_calls g)"
    "control_shown BANNER (gw_calls g') = control_shown BANNER (gw_calls g)"
    "combo_items (gw_calls g') = combo_items (gw_calls g)"
  using assms quiet_seen unfolding quietly_def by auto

lemma quietly_inv: "quietly g g' \<Longrightarrow> gui_inv U g' \<longleftrightarrow> gui_inv U g"
  unfolding gui_inv_def live_ok_def controls_ok_def labels_ok_def by (simp add: quietly_same [of g g'])

section \<open>The progress bar\<close>

text \<open>
  The multiplication wraps for counts beyond 2^64 / 1000, and the quotient stays in the range all
  the same: then the divisor is so large that no 64-bit dividend reaches the range's end.
\<close>

lemma bar_position_le: "bar_position bytes used \<le> GUI_PROGRESS_RANGE"
proof (cases "bytes \<ge> used")
  case True
  then show ?thesis by (simp add: bar_position_def)
next
  case False
  let ?b = "unat bytes" and ?u = "unat used" and ?p = "unat (bytes * of_nat GUI_PROGRESS_RANGE)"
  from False have less: "?b < ?u" by (simp add: not_le word_less_nat_alt)
  have p: "?p = (?b * 1000) mod 2 ^ 64"
    by (simp add: GUI_PROGRESS_RANGE_def unat_word_ariths)
  have "?p < 1000 * ?u"
  proof (cases "?b * 1000 < 2 ^ 64")
    case True
    with p less show ?thesis by simp
  next
    case False
    with less have "2 ^ 64 \<le> 1000 * ?u" by linarith
    moreover have "?p < 2 ^ 64" using p by simp
    ultimately show ?thesis by linarith
  qed
  with less have "?p div ?u < 1000" by (simp add: less_mult_imp_div_less)
  with False show ?thesis by (simp add: bar_position_def unat_div GUI_PROGRESS_RANGE_def)
qed

lemma progress_update_shape:
  obtains h pos where "quietly g h" "progress_update p g = h\<lparr>progress_last_pos := pos\<rparr>"
    "progress_last_pos g \<le> pos" "progress_last_pos g \<le> GUI_PROGRESS_RANGE \<Longrightarrow> pos \<le> GUI_PROGRESS_RANGE"
proof (cases "\<not> progress_determinate g \<or> progress_total_bytes g = 0")
  case True
  then show ?thesis using that [of g "progress_last_pos g"] by (simp add: progress_update_def)
next
  case False
  let ?raw = "bar_position (bytes_scanned p) (progress_total_bytes g)"
  let ?pos = "if ?raw < progress_last_pos g then progress_last_pos g else ?raw"
  let ?h = "ui (SendMessage PROGRESS_BAR (PBM_SETPOS (int ?pos))) g"
  have "progress_update p g = ?h\<lparr>progress_last_pos := ?pos\<rparr>"
    using False by (simp add: progress_update_def ui_def Let_def)
  then show ?thesis
    using that [of ?h ?pos] bar_position_le [of "bytes_scanned p" "progress_total_bytes g"]
    by (simp add: quietly_ui quiet_call_def)
qed

lemma progress_end_shape:
  obtains h where "quietly g h" "progress_end g = h\<lparr>progress_determinate := False, progress_last_pos := 0\<rparr>"
proof
  let ?g1 = "if progress_determinate g then ui (SendMessage PROGRESS_BAR (PBM_SETPOS (int GUI_PROGRESS_RANGE))) g else g"
  let ?g2 = "progress_set_marquee False ?g1"
  let ?h = "uis [ShowControl PROGRESS_BAR False, SendMessage PROGRESS_BAR (PBM_SETPOS 0)] ?g2"
  have "quietly g ?g1" by (auto simp: quiet_call_def intro: quietly_ui)
  also have "quietly ?g1 ?g2" by (rule quietly_marquee)
  also have "quietly ?g2 ?h" by (rule quietly_uis) (simp add: quiet_call_def)
  finally show "quietly g ?h" .
  show "progress_end g = ?h\<lparr>progress_determinate := False, progress_last_pos := 0\<rparr>"
    by (simp add: progress_end_def Let_def)
qed

lemma progress_begin_shape:
  obtains h used where "quietly g h"
    "progress_begin d g =
       h\<lparr>progress_total_bytes := used, progress_determinate := (used > 0), progress_last_pos := 0\<rparr>"
proof
  let ?used = "if capacity_bytes d > 0 \<and> free_bytes d \<le> capacity_bytes d then capacity_bytes d - free_bytes d else 0"
  let ?bar = "\<lambda>g :: 'a gui. g\<lparr>progress_total_bytes := ?used, progress_determinate := (?used > 0), progress_last_pos := 0\<rparr>"
  let ?c1 = "[SendMessage PROGRESS_BAR (PBM_SETRANGE32 0 (int GUI_PROGRESS_RANGE)), SendMessage PROGRESS_BAR (PBM_SETPOS 0)]"
  let ?on = "\<not> (?used > 0)"
  let ?g1 = "uis ?c1 g"
  let ?g2 = "progress_set_marquee ?on ?g1"
  let ?g3 = "if ?used > 0 then ui (SendMessage PROGRESS_BAR (PBM_SETPOS 0)) ?g2 else ?g2"
  let ?h = "ui (ShowControl PROGRESS_BAR True) ?g3"
  have "quietly g ?g1" by (rule quietly_uis) (simp add: quiet_call_def)
  also have "quietly ?g1 ?g2" by (rule quietly_marquee)
  also have "quietly ?g2 ?g3" by (auto simp: quiet_call_def intro: quietly_ui)
  also have "quietly ?g3 ?h" by (rule quietly_ui) (simp add: quiet_call_def)
  finally show "quietly g ?h" .
  show "progress_begin d g = ?bar ?h"
    by (simp add: progress_begin_def progress_set_marquee_def ui_def uis_def Let_def)
qed

section \<open>The device list\<close>

text \<open>What \<open>populate_devices\<close> may change: the list, the tracked identities, and calls that enable or show nothing.\<close>

definition listing_call :: "gui_call \<Rightarrow> bool" where
  "listing_call call \<longleftrightarrow> quiet_call call \<or> (\<exists>m. call = SendMessage COMBO_DEVICES m)"

definition listing :: "'w gui \<Rightarrow> 'w gui \<Rightarrow> bool" where
  "listing g g' \<longleftrightarrow>
     (\<exists>ds ids cs w. list_all listing_call cs \<and> length ids \<le> length (auto_scanned_identities g) \<and>
        g' = g\<lparr>gw_devices := ds, auto_scanned_identities := ids, gw_calls := gw_calls g @ cs, gw_world := w\<rparr>)"

lemma quietly_listing:
  assumes "quietly g g'"
  shows "listing g g'"
proof -
  from assms obtain cs w where 1: "list_all quiet_call cs" "g' = g\<lparr>gw_calls := gw_calls g @ cs, gw_world := w\<rparr>"
    unfolding quietly_def by blast
  from 1(1) have "list_all listing_call cs" by (auto simp: listing_call_def list_all_iff)
  with 1(2) show ?thesis unfolding listing_def
    by (intro exI [of _ "gw_devices g"] exI [of _ "auto_scanned_identities g"] exI [of _ cs] exI [of _ w]) simp
qed

lemma listing_trans [trans]:
  assumes "listing a b" and "listing b c"
  shows "listing a c"
proof -
  from assms(1) obtain ds ids cs w where 1: "list_all listing_call cs" "length ids \<le> length (auto_scanned_identities a)"
      "b = a\<lparr>gw_devices := ds, auto_scanned_identities := ids, gw_calls := gw_calls a @ cs, gw_world := w\<rparr>"
    unfolding listing_def by blast
  from assms(2) obtain ds' ids' cs' w' where 2: "list_all listing_call cs'" "length ids' \<le> length (auto_scanned_identities b)"
      "c = b\<lparr>gw_devices := ds', auto_scanned_identities := ids', gw_calls := gw_calls b @ cs', gw_world := w'\<rparr>"
    unfolding listing_def by blast
  from 1 2 show ?thesis unfolding listing_def
    by (intro exI [of _ ds'] exI [of _ ids'] exI [of _ "cs @ cs'"] exI [of _ w']) simp
qed

lemma listing_list: "listing g (g\<lparr>gw_devices := ds\<rparr>)"
  unfolding listing_def
  by (intro exI [of _ ds] exI [of _ "auto_scanned_identities g"] exI [of _ "[]"] exI [of _ "gw_world g"]) simp

lemma listing_combo: "listing g (ui (SendMessage COMBO_DEVICES m) g)"
  unfolding listing_def ui_def
  by (intro exI [of _ "gw_devices g"] exI [of _ "auto_scanned_identities g"] exI [of _ "[SendMessage COMBO_DEVICES m]"]
      exI [of _ "gw_world g"]) (simp add: listing_call_def)

lemma listing_prune: "listing g (auto_scan_set_prune_absent g)"
proof -
  let ?kept = "filter (\<lambda>tracked. list_ex (\<lambda>d. identity_of d = Some tracked) (v_items (gw_devices g)))
    (auto_scanned_identities g)"
  show ?thesis unfolding listing_def auto_scan_set_prune_absent_def
    by (intro exI [of _ "gw_devices g"] exI [of _ ?kept] exI [of _ "[]"] exI [of _ "gw_world g"]) simp
qed

lemma listing_seen:
  assumes "list_all listing_call cs"
  shows "control_enabled c (calls @ cs) = control_enabled c calls"
    and "control_shown BANNER (calls @ cs) = control_shown BANNER calls"
proof -
  have "enabled_after c x = (\<lambda>e. e)" "shown_after BANNER x = (\<lambda>e. e)" if "listing_call x" for x
    using that
    by (auto simp: listing_call_def quiet_call_def enabled_after_def shown_after_def fun_eq_iff split: gui_call.splits)
  with assms have "fold (enabled_after c) cs e = e" "fold (shown_after BANNER) cs e = e" for e
    by (induction cs arbitrary: e) auto
  then show "control_enabled c (calls @ cs) = control_enabled c calls"
    and "control_shown BANNER (calls @ cs) = control_shown BANNER calls"
    by (simp_all add: control_enabled_def control_shown_def)
qed

lemma listing_same:
  assumes "listing g g'"
  shows "show_all_drives g' = show_all_drives g" "scanning g' = scanning g" "worker_thread g' = worker_thread g"
    "gw_cancel_flag g' = gw_cancel_flag g" "have_last_report_dir g' = have_last_report_dir g"
    "banner_visible g' = banner_visible g" "progress_last_pos g' = progress_last_pos g"
    "auto_scan_enabled g' = auto_scan_enabled g" "gw_alive g' = gw_alive g" "gw_thread g' = gw_thread g"
    "gw_queue g' = gw_queue g"
    "length (auto_scanned_identities g') \<le> length (auto_scanned_identities g)"
    "control_enabled c (gw_calls g') = control_enabled c (gw_calls g)"
    "control_shown BANNER (gw_calls g') = control_shown BANNER (gw_calls g)"
  using assms listing_seen unfolding listing_def by auto

lemma list_drive_listing:
  assumes "list_drive X previous d (i, g) = (i', g')"
  shows "listing g g'"
proof (cases "usbs_device_is_scannable d (enum_mode g)")
  case False
  with assms show ?thesis by (simp add: list_drive_def quietly_listing)
next
  case True
  let ?g1 = "case utf8_to_wide (ge_codepage X) (device_label d) 320 of
    None \<Rightarrow> g | Some wide \<Rightarrow> ui (SendMessage COMBO_DEVICES (CB_ADDSTRING wide)) g"
  have "listing g ?g1" by (simp add: listing_combo quietly_listing split: option.split)
  also have "listing ?g1 (?g1\<lparr>gw_devices := snd (usbs_device_list_push (ge_mem X) (gw_devices ?g1) d)\<rparr>)"
    by (rule listing_list)
  finally show ?thesis using assms True by (simp add: list_drive_def Let_def)
qed

lemma list_drives_listing: "fold (list_drive X previous) raw (i, g) = (i', g') \<Longrightarrow> listing g g'"
proof (induction raw arbitrary: i g)
  case (Cons d raw)
  obtain i1 g1 where 1: "list_drive X previous d (i, g) = (i1, g1)" by (cases "list_drive X previous d (i, g)") blast
  with Cons.prems have "fold (list_drive X previous) raw (i1, g1) = (i', g')" by simp
  from Cons.IH [OF this] list_drive_listing [OF 1] show ?case by (blast intro: listing_trans)
qed (simp add: quietly_listing)

text \<open>
  The labels: while every push succeeds each device has its item; once one has failed for want of
  memory the array is full and every later one fails as well, so the items only run ahead.
\<close>

definition listed_ok :: "'w gui_env \<Rightarrow> 'w gui \<Rightarrow> bool" where
  "listed_ok X g \<longleftrightarrow>
     labels_ok (ge_codepage X) g \<and> length (v_items (gw_devices g)) \<le> length (combo_items (gw_calls g)) \<and>
     (length (combo_items (gw_calls g)) = length (v_items (gw_devices g)) \<or>
      (\<forall>d. fst (usbs_device_list_push (ge_mem X) (gw_devices g) d) \<noteq> USBS_OK))"

lemma push_fails_for_all:
  "fst (usbs_device_list_push mem v d) \<noteq> USBS_OK \<Longrightarrow> fst (usbs_device_list_push mem v d') \<noteq> USBS_OK"
  by (auto simp: usbs_device_list_push_def vec_push_def Let_def split: if_splits)

lemma list_drive_labels:
  assumes "codepage_ok (ge_codepage X)" and "listed_ok X g" and "list_drive X previous d (i, g) = (i', g')"
  shows "listed_ok X g'"
proof (cases "usbs_device_is_scannable d (enum_mode g)")
  case False
  with assms show ?thesis by (simp add: list_drive_def)
next
  case True
  let ?w = "cp_wide (ge_codepage X) (device_label d)"
  have "length (device_label d) < 256" unfolding device_label_def by (rule length_snprintf_buf) simp
  then have wide: "utf8_to_wide (ge_codepage X) (device_label d) 320 = Some ?w"
    using assms(1) by (intro utf8_to_wide_fits) simp_all
  obtain st v where push: "usbs_device_list_push (ge_mem X) (gw_devices g) d = (st, v)"
    by (cases "usbs_device_list_push (ge_mem X) (gw_devices g) d") blast
  have g': "gw_devices g' = v" "combo_items (gw_calls g') = combo_items (gw_calls g) @ [?w]"
    using assms(3) True push by (auto simp: list_drive_def Let_def wide ui_def items_after_def)
  show ?thesis
  proof (cases "st = USBS_OK")
    case True
    with push have items: "v_items v = v_items (gw_devices g) @ [d]" by (auto dest: device_list.push_ok)
    have "length (combo_items (gw_calls g)) = length (v_items (gw_devices g))"
      using assms(2) push True unfolding listed_ok_def by (metis fst_conv)
    with assms(2) show ?thesis unfolding listed_ok_def labels_ok_def g' items by simp
  next
    case False
    with push have v: "v = gw_devices g" by (auto dest: device_list.push_error)
    have "fst (usbs_device_list_push (ge_mem X) (gw_devices g) e) \<noteq> USBS_OK" for e
      using push_fails_for_all [of "ge_mem X" "gw_devices g" d e] push False by simp
    with assms(2) show ?thesis unfolding listed_ok_def labels_ok_def g' v by simp
  qed
qed

lemma list_drives_labels:
  "codepage_ok (ge_codepage X) \<Longrightarrow> listed_ok X g \<Longrightarrow> fold (list_drive X previous) raw (i, g) = (i', g') \<Longrightarrow> listed_ok X g'"
proof (induction raw arbitrary: i g)
  case (Cons d raw)
  obtain i1 g1 where 1: "list_drive X previous d (i, g) = (i1, g1)" by (cases "list_drive X previous d (i, g)") blast
  with Cons.prems list_drive_labels [of X g] Cons.IH [of g1 i1] show ?case by simp
qed simp

text \<open>
  Refilling the list: the enumeration, the loop, and then nothing but looks, but for the selection.
\<close>

definition cleared_list :: "'w gui \<Rightarrow> 'w gui" where
  "cleared_list g = (ui (SendMessage COMBO_DEVICES CB_RESETCONTENT) g)\<lparr>gw_devices := vec_init\<rparr>"

lemma populate_devices_shape:
  obtains w where "quietly ((cleared_list g)\<lparr>gw_world := w\<rparr>) (populate_devices X g)"
  | previous raw w i g3 h where
    "fold (list_drive X previous) raw (- 1, (cleared_list g)\<lparr>gw_world := w\<rparr>) = (i, g3)"
    "h = auto_scan_set_prune_absent g3 \<or> (\<exists>n. h = ui (SendMessage COMBO_DEVICES (CB_SETCURSEL n)) (auto_scan_set_prune_absent g3))"
    "quietly h (populate_devices X g)"
proof -
  let ?previous = "case selected_device X g of None \<Rightarrow> None | Some d \<Rightarrow> identity_of d"
  let ?g1 = "(ui (SendMessage COMBO_DEVICES CB_RESETCONTENT) g)\<lparr>gw_devices := vec_init\<rparr>"
  obtain st raw w1 where enum: "usbs_device_enumerate (ge_devices X (enum_mode ?g1)) (gw_world ?g1) = (st, raw, w1)"
    by (cases "usbs_device_enumerate (ge_devices X (enum_mode ?g1)) (gw_world ?g1)") auto
  let ?g2 = "?g1\<lparr>gw_world := w1\<rparr>"
  show thesis
  proof (cases "usbs_ok st")
    case False
    with enum have "populate_devices X g = set_status_utf8 X ''Device enumeration failed.'' ?g2"
      unfolding populate_devices_def Let_def by (simp only: enum prod.case not_False_eq_True if_True)
    then show thesis using that(1) [of w1] by (simp add: cleared_list_def quietly_status)
  next
    case True
    obtain i g3 where fold: "fold (list_drive X ?previous) (v_items raw) (- 1, ?g2) = (i, g3)"
      by (cases "fold (list_drive X ?previous) (v_items raw) (- 1, ?g2)") blast
    let ?g4 = "auto_scan_set_prune_absent g3"
    let ?sel = "ui (SendMessage COMBO_DEVICES (CB_SETCURSEL (if i \<ge> 0 then nat i else 0))) ?g4"
    have "\<exists>h. (h = ?g4 \<or> h = ?sel) \<and> quietly h (populate_devices X g)"
    proof (cases "length (v_items (gw_devices ?g4)) > 0")
      case len: True
      have "quietly ?sel (populate_devices X g)"
        unfolding populate_devices_def Let_def enum prod.case fold
        by (simp only: True not_True_eq_False if_False len if_True quietly_status)
      then show ?thesis by blast
    next
      case len: False
      have "quietly ?g4 (populate_devices X g)"
        unfolding populate_devices_def Let_def enum prod.case fold
        by (simp only: True not_True_eq_False if_False len quietly_status split: if_split) simp
      then show ?thesis by blast
    qed
    then show thesis using that(2) fold unfolding cleared_list_def by blast
  qed
qed

lemma populate_devices_ok:
  assumes "codepage_ok (ge_codepage X)"
  shows "listing g (populate_devices X g) \<and> labels_ok (ge_codepage X) (populate_devices X g)"
proof -
  have clear: "listing g ((cleared_list g)\<lparr>gw_world := w\<rparr>)" "listed_ok X ((cleared_list g)\<lparr>gw_world := w\<rparr>)" for w
  proof -
    have "listing g (ui (SendMessage COMBO_DEVICES CB_RESETCONTENT) g)" by (rule listing_combo)
    also have "listing (ui (SendMessage COMBO_DEVICES CB_RESETCONTENT) g) (cleared_list g)"
      unfolding cleared_list_def by (rule listing_list)
    also have "listing (cleared_list g) ((cleared_list g)\<lparr>gw_world := w\<rparr>)" by (rule quietly_listing, rule quietly_world)
    finally show "listing g ((cleared_list g)\<lparr>gw_world := w\<rparr>)" .
    show "listed_ok X ((cleared_list g)\<lparr>gw_world := w\<rparr>)"
      by (simp add: listed_ok_def labels_ok_def cleared_list_def ui_def items_after_def vec_init_def)
  qed
  have looks: "listing g g' \<and> labels_ok (ge_codepage X) g'"
    if "quietly h g'" "listing g h" "labels_ok (ge_codepage X) h" for h g'
    using that listing_trans [OF that(2) quietly_listing [OF that(1)]]
    by (simp add: labels_ok_def quietly_same [OF that(1)])
  show ?thesis
  proof (cases rule: populate_devices_shape [of g X])
    case (1 w)
    with clear [of w] show ?thesis by (intro looks [OF 1]) (simp_all add: listed_ok_def)
  next
    case (2 previous raw w i g3 h)
    have l: "listing g (auto_scan_set_prune_absent g3)"
      using listing_trans [OF listing_trans [OF clear(1) list_drives_listing [OF 2(1)]] listing_prune] .
    have "listed_ok X g3" by (rule list_drives_labels [OF assms clear(2) 2(1)])
    with 2(2) have "labels_ok (ge_codepage X) h"
      by (auto simp: listed_ok_def labels_ok_def auto_scan_set_prune_absent_def ui_def items_after_def)
    moreover have "listing g h" using 2(2) l listing_trans [OF l listing_combo] by blast
    ultimately show ?thesis by (intro looks [OF 2(3)])
  qed
qed

lemma populate_devices_inv:
  assumes "codepage_ok (ge_codepage X)" and "gui_inv (ge_codepage X) g"
  shows "gui_inv (ge_codepage X) (populate_devices X g)"
proof -
  from populate_devices_ok [OF assms(1), of g]
  have l: "listing g (populate_devices X g)" and lab: "labels_ok (ge_codepage X) (populate_devices X g)" by simp_all
  have "length (auto_scanned_identities (populate_devices X g)) \<le> GUI_AUTO_SCAN_TRACK_MAX"
    if "length (auto_scanned_identities g) \<le> GUI_AUTO_SCAN_TRACK_MAX"
    using le_trans [OF listing_same(12) [OF l] that] .
  with assms(2) lab show ?thesis
    by (auto simp: gui_inv_def live_ok_def controls_ok_def listing_same(1-11,13,14) [OF l])
qed

section \<open>Starting a scan\<close>

lemma open_store_quiet:
  assumes "open_store_once X g = (opened, g')"
  obtains h st b where "quietly g h" "g' = h\<lparr>gw_store := st, have_store := b\<rparr>"
proof -
  have same: "h = h\<lparr>gw_store := gw_store h, have_store := have_store h\<rparr>" for h :: "'a gui" by simp
  have "\<exists>h st b. quietly g h \<and> g' = h\<lparr>gw_store := st, have_store := b\<rparr>"
  proof (cases "have_store g")
    case True
    with assms show ?thesis
      by (intro exI [of _ g] exI [of _ "gw_store g"] exI [of _ "have_store g"]) (simp add: open_store_once_def)
  next
    case False
    obtain r w1 where o: "usbs_store_open (ge_platform X) (gw_world g) = (r, w1)"
      by (cases "usbs_store_open (ge_platform X) (gw_world g)") blast
    show ?thesis
    proof (cases r)
      case (Inl e)
      with False assms o have "g' = g\<lparr>gw_world := w1\<rparr>" by (simp add: open_store_once_def)
      with same [of g'] quietly_world [of g w1] show ?thesis by metis
    next
      case (Inr store)
      with False assms o show ?thesis
        by (intro exI [of _ "g\<lparr>gw_world := w1\<rparr>"] exI [of _ store] exI [of _ True])
           (simp add: open_store_once_def quietly_world)
    qed
  qed
  then show thesis using that by blast
qed

text \<open>Appending a few calls: the observations step through them.\<close>

lemma seen_append:
  "control_enabled c (calls @ cs) = fold (enabled_after c) cs (control_enabled c calls)"
  "control_shown c (calls @ cs) = fold (shown_after c) cs (control_shown c calls)"
  "combo_items (calls @ cs) = fold items_after cs (combo_items calls)"
  by (simp_all add: control_enabled_def control_shown_def combo_items_def)

lemmas seen_steps = enabled_after_def shown_after_def items_after_def ui_def uis_def

lemma enter_scan_ok:
  assumes "live_ok U (g\<lparr>worker_thread := False, gw_thread := NO_THREAD\<rparr>)" and "\<not> scanning g"
    and "worker_thread g" and "gw_thread g = THREAD_SCANNING d" and "gw_cancel_flag g = 0"
  shows "live_ok U (enter_scan X d g) \<and> gw_thread (enter_scan X d g) = THREAD_SCANNING d \<and>
    gw_alive (enter_scan X d g) = gw_alive g \<and> gw_devices (enter_scan X d g) = gw_devices g \<and>
    auto_scanned_identities (enter_scan X d g) = auto_scanned_identities g"
proof -
  obtain now w1 where tick: "ge_tick X (gw_world g) = (now, w1)" by (cases "ge_tick X (gw_world g)") blast
  let ?g1 = "g\<lparr>gw_world := w1, scanning := True, have_progress := False, scan_started_tick := now,
    last_progress := zero_scan_progress\<rparr>"
  let ?g2 = "uis [EnableWindow BTN_SCAN False, EnableWindow BTN_REFRESH False, EnableWindow COMBO_DEVICES False,
    EnableWindow CHK_ALLDRIVES False, EnableWindow BTN_CANCEL True] ?g1"
  let ?b = "banner_hide ?g2"
  let ?c = "relayout X (results_clear ?b)"
  obtain h used where h: "quietly ?c h"
    and bar: "progress_begin d ?c =
      h\<lparr>progress_total_bytes := used, progress_determinate := (used > 0), progress_last_pos := 0\<rparr>"
    by (rule progress_begin_shape)
  have q: "quietly ?b h" using quietly_results_clear quietly_relayout h by (blast intro: quietly_trans)
  have e: "quietly (progress_begin d ?c) (enter_scan X d g)"
    unfolding enter_scan_def tick prod.case Let_def by (rule quietly_status)
  have b: "controls_ok ?b" "labels_ok U ?b" "gw_thread ?b = THREAD_SCANNING d" "gw_queue ?b = gw_queue g"
      "worker_thread ?b" "scanning ?b" "\<not> banner_visible ?b" "gw_devices ?b = gw_devices g"
      "auto_scanned_identities ?b = auto_scanned_identities g" "gw_alive ?b = gw_alive g"
    using assms
    by (auto simp: live_ok_def controls_ok_def labels_ok_def frozen_controls_def banner_hide_def seen_append seen_steps)
  have "queue_ok (THREAD_SCANNING d) (gw_queue g)" using assms(1) by (simp add: live_ok_def queue_ok_def)
  with b assms(1) show ?thesis
    unfolding live_ok_def controls_ok_def labels_ok_def
    by (auto simp: quietly_same [OF e] bar quietly_same [OF q] GUI_PROGRESS_RANGE_def)
qed

lemma start_scan_ok:
  assumes "live_ok U g" and "\<not> scanning g"
  shows "live_ok U (start_scan_for_device X d g) \<and> gw_alive (start_scan_for_device X d g) = gw_alive g \<and>
    gw_devices (start_scan_for_device X d g) = gw_devices g \<and>
    auto_scanned_identities (start_scan_for_device X d g) = auto_scanned_identities g \<and>
    (gw_thread (start_scan_for_device X d g) = NO_THREAD \<or> gw_thread (start_scan_for_device X d g) = THREAD_SCANNING d)"
    (is "?goal (start_scan_for_device X d g)")
proof -
  from assms have idle: "gw_thread g = NO_THREAD" "\<not> worker_thread g" by (auto simp: live_ok_def)
  obtain opened g1 where o: "open_store_once X g = (opened, g1)" by (cases "open_store_once X g") blast
  obtain h st b where h: "quietly g h" "g1 = h\<lparr>gw_store := st, have_store := b\<rparr>" by (rule open_store_quiet [OF o])
  have live1: "live_ok U g1" "gw_alive g1 = gw_alive g" "gw_devices g1 = gw_devices g"
      "auto_scanned_identities g1 = auto_scanned_identities g" "gw_thread g1 = NO_THREAD" "\<not> scanning g1" "\<not> worker_thread g1"
    using assms idle by (simp_all add: h(2) live_ok_def controls_ok_def labels_ok_def quietly_same [OF h(1)])
  have quiet: "?goal g'" if "quietly g2 g'" "live_ok U g2" "gw_alive g2 = gw_alive g" "gw_devices g2 = gw_devices g"
      "auto_scanned_identities g2 = auto_scanned_identities g" "gw_thread g2 = NO_THREAD" for g2 g'
    using that(2-) by (simp add: live_ok_def controls_ok_def labels_ok_def quietly_same [OF that(1)])
  let ?g2 = "g1\<lparr>gw_cancel_flag := 0, last_progress_tick := 0, have_final_progress := False,
    final_progress := zero_scan_progress\<rparr>"
  obtain spawned w1 where sp: "ge_spawn X (gw_world ?g2) = (spawned, w1)" by (cases "ge_spawn X (gw_world ?g2)") blast
  let ?g3 = "?g2\<lparr>gw_world := w1, worker_thread := True, gw_thread := THREAD_SCANNING d\<rparr>"
  let ?g4 = "?g2\<lparr>gw_world := w1, worker_thread := False\<rparr>"
  have live2: "live_ok U ?g4" "live_ok U (?g3\<lparr>worker_thread := False, gw_thread := NO_THREAD\<rparr>)"
    using live1 by (auto simp: live_ok_def controls_ok_def labels_ok_def)
  show ?thesis
  proof (cases "opened \<and> ge_mem X SIZEOF_WORKER_LAUNCH")
    case False
    then have "quietly g1 (start_scan_for_device X d g)"
      using assms(2) unfolding start_scan_for_device_def o prod.case by (simp add: quietly_status)
    then show ?thesis using live1 by (intro quiet)
  next
    case True
    then have eq: "start_scan_for_device X d g =
        (if \<not> spawned then set_status_utf8 X ''Could not start the scan worker thread.'' ?g4 else enter_scan X d ?g3)"
      using assms(2) unfolding start_scan_for_device_def o prod.case Let_def sp by simp
    show ?thesis
    proof (cases spawned)
      case False
      then have "quietly ?g4 (start_scan_for_device X d g)" by (simp only: eq not_False_eq_True if_True quietly_status)
      then show ?thesis by (rule quiet) (use live1 live2 in simp_all)
    next
      case True
      then have "start_scan_for_device X d g = enter_scan X d ?g3" using eq by simp
      with enter_scan_ok [OF live2(2), of d X] live1 show ?thesis by simp
    qed
  qed
qed

section \<open>The handlers keep the invariant\<close>

lemma quietly_live: "quietly g g' \<Longrightarrow> live_ok U g' \<longleftrightarrow> live_ok U g"
  unfolding live_ok_def controls_ok_def labels_ok_def by (simp add: quietly_same [of g g'])

lemma populate_live:
  assumes "codepage_ok (ge_codepage X)" and "live_ok (ge_codepage X) g" and "gw_alive g"
  shows "live_ok (ge_codepage X) (populate_devices X g)" "gw_alive (populate_devices X g)"
proof -
  from populate_devices_ok [OF assms(1), of g] have l: "listing g (populate_devices X g)" by simp
  show "gw_alive (populate_devices X g)" using assms(3) by (simp add: listing_same [OF l])
  with populate_devices_inv [OF assms(1), of g] assms(2,3) show "live_ok (ge_codepage X) (populate_devices X g)"
    by (simp add: gui_inv_def)
qed

lemma auto_scan_add_live:
  "live_ok U g \<Longrightarrow> live_ok U (auto_scan_set_add identity g)"
  "scanning (auto_scan_set_add identity g) = scanning g" "gw_alive (auto_scan_set_add identity g) = gw_alive g"
  "gw_devices (auto_scan_set_add identity g) = gw_devices g" "gw_thread (auto_scan_set_add identity g) = gw_thread g"
  by (auto simp: auto_scan_set_add_def live_ok_def controls_ok_def labels_ok_def)

lemma auto_scan_loop_live:
  "live_ok U g \<Longrightarrow> \<not> scanning g \<Longrightarrow> live_ok U (auto_scan_loop X ds g) \<and> gw_alive (auto_scan_loop X ds g) = gw_alive g"
proof (induction ds)
  case (Cons d ds)
  show ?case
  proof (cases "identity_of d")
    case None
    with Cons show ?thesis by simp
  next
    case (Some identity)
    let ?g = "auto_scan_set_add identity g"
    have "live_ok U (start_scan_for_device X d ?g) \<and> gw_alive (start_scan_for_device X d ?g) = gw_alive ?g"
      using start_scan_ok [of U ?g X d] Cons.prems by (simp add: auto_scan_add_live)
    with Cons Some show ?thesis by (simp add: auto_scan_add_live)
  qed
qed simp

lemma scan_clicked_live:
  assumes "live_ok U g"
  shows "live_ok U (on_scan_clicked X g) \<and> gw_alive (on_scan_clicked X g) = gw_alive g"
proof (cases "scanning g")
  case True
  with assms show ?thesis by (simp add: on_scan_clicked_def)
next
  case False
  have s: "quietly g (set_status_utf8 X ''Select a device first.'' g)" by (rule quietly_status)
  show ?thesis
  proof (cases "selected_device X g")
    case None
    with False have "on_scan_clicked X g = set_status_utf8 X ''Select a device first.'' g" by (simp add: on_scan_clicked_def)
    with assms show ?thesis using quietly_live [OF s] quietly_same(12) [OF s] by simp
  next
    case (Some d)
    with False start_scan_ok [OF assms False, of X d] show ?thesis by (simp add: on_scan_clicked_def)
  qed
qed

lemma cancel_clicked_live:
  assumes "live_ok U g"
  shows "live_ok U (on_cancel_clicked X g) \<and> gw_alive (on_cancel_clicked X g) = gw_alive g"
proof (cases "scanning g")
  case False
  with assms show ?thesis by (simp add: on_cancel_clicked_def)
next
  case True
  let ?h = "ui (EnableWindow BTN_CANCEL False) (g\<lparr>gw_cancel_flag := 1\<rparr>)"
  have "live_ok U ?h"
    using assms by (auto simp: live_ok_def controls_ok_def labels_ok_def frozen_controls_def seen_steps)
  moreover have q: "quietly ?h (on_cancel_clicked X g)" using True by (simp add: on_cancel_clicked_def quietly_status)
  ultimately show ?thesis using quietly_live [OF q] quietly_same(12) [OF q] by (simp add: ui_def)
qed

lemma open_folder_live: "quietly g (on_open_folder_clicked X g)"
  by (auto simp: on_open_folder_clicked_def quietly_status quiet_call_def intro: quietly_ui split: option.splits)

lemma command_live:
  assumes "codepage_ok (ge_codepage X)" and "live_ok (ge_codepage X) g" and "gw_alive g"
  shows "live_ok (ge_codepage X) (on_command X c clicked g) \<and> gw_alive (on_command X c clicked g)"
proof -
  have all: "live_ok (ge_codepage X) (g\<lparr>show_all_drives := b\<rparr>)" and
      auto: "live_ok (ge_codepage X) (g\<lparr>auto_scan_enabled := b\<rparr>)" for b
    using assms(2) by (auto simp: live_ok_def controls_ok_def labels_ok_def)
  note folder = quietly_live [OF open_folder_live] quietly_same(12) [OF open_folder_live]
  show ?thesis
    using assms scan_clicked_live [of "ge_codepage X" g X] cancel_clicked_live [of "ge_codepage X" g X]
      populate_live [OF assms(1), of g] populate_live [OF assms(1) all]
    by (cases c) (simp_all add: on_command_def folder auto on_autoscan_toggled_def on_alldrives_toggled_def)
qed

lemma device_change_live:
  assumes "codepage_ok (ge_codepage X)" and "live_ok (ge_codepage X) g" and "gw_alive g"
  shows "live_ok (ge_codepage X) (handle_device_change X g) \<and> gw_alive (handle_device_change X g)"
proof (cases "scanning g")
  case True
  with assms show ?thesis by (simp add: handle_device_change_def)
next
  case False
  let ?p = "populate_devices X g"
  have "listing g ?p" using populate_devices_ok [OF assms(1)] by blast
  from listing_same(2) [OF this] False have "\<not> scanning ?p" by simp
  with auto_scan_loop_live [OF populate_live(1) [OF assms], of X "v_items (gw_devices ?p)"] populate_live [OF assms] False
  show ?thesis by (simp add: handle_device_change_def Let_def)
qed

lemma progress_live:
  assumes "live_ok U g"
  shows "live_ok U (gui_handle_progress X p g) \<and> gw_alive (gui_handle_progress X p g) = gw_alive g \<and>
    gw_queue (gui_handle_progress X p g) = gw_queue g"
proof -
  obtain now w1 where tick: "ge_tick X (gw_world g) = (now, w1)" by (cases "ge_tick X (gw_world g)") blast
  let ?g0 = "g\<lparr>gw_world := w1, last_progress := p, have_progress := True\<rparr>"
  obtain h pos where h: "quietly ?g0 h" "progress_update p ?g0 = h\<lparr>progress_last_pos := pos\<rparr>"
      "progress_last_pos ?g0 \<le> GUI_PROGRESS_RANGE \<Longrightarrow> pos \<le> GUI_PROGRESS_RANGE"
    using progress_update_shape [of ?g0 p] by blast
  have q: "quietly (progress_update p ?g0) (gui_handle_progress X p g)"
    unfolding gui_handle_progress_def tick prod.case Let_def by (rule quietly_status)
  from assms h(3) show ?thesis
    by (auto simp: quietly_live [OF q] quietly_same [OF q] live_ok_def controls_ok_def labels_ok_def h(2) quietly_same [OF h(1)])
qed

text \<open>
  Saving may enable the folder button; nothing else the invariant looks at changes. Running out
  of the fuel of the index refresh is the only way to have no next state.
\<close>

lemma save_reports_shape:
  assumes "save_reports X r g = Some g'"
  obtains w dir where "g' = g\<lparr>gw_world := w, last_report_dir := dir\<rparr>"
  | w dir where "g' = ui (EnableWindow BTN_OPENDIR True) (g\<lparr>gw_world := w, last_report_dir := dir, have_last_report_dir := True\<rparr>)"
proof -
  have same: "g = g\<lparr>gw_world := gw_world g, last_report_dir := last_report_dir g\<rparr>" for g :: "'a gui" by simp
  show thesis
  proof (cases "\<not> have_store g \<or> identity_of (scan_device r) = None")
    case True
    with assms have "g' = g" by (auto simp: save_reports_def split: option.splits)
    with that(1) [of "last_report_dir g" "gw_world g"] show thesis by simp
  next
    case False
    then obtain i where i: "identity_of (scan_device r) = Some i" and s: "have_store g" by auto
    with assms obtain saved g1 where j: "gui_save_json X i r g = Some (saved, g1)"
      and g': "g' = (let g2 = gui_save_csv X i r g1 in
        if saved then ui (EnableWindow BTN_OPENDIR True)
          (g2\<lparr>last_report_dir := cut_last_separator (last_report_dir g2), have_last_report_dir := True\<rparr>) else g2)"
      by (auto simp: save_reports_def Let_def split: option.splits prod.splits)
    have "\<exists>w dir. g1 = g\<lparr>gw_world := w, last_report_dir := dir\<rparr>"
    proof (cases "usbs_report_build_json (ge_mem X) (ge_version X) r")
      case (Inl st)
      with j have "g1 = g" by (simp add: gui_save_json_def)
      with same [of g] show ?thesis by metis
    next
      case (Inr t)
      with j obtain res w1 where
        "usbs_store_write_report (ge_fuel X) (ge_platform X) (gw_store g) i (scan_id r) (started_at r) t
           USBS_STORE_PATH_MAX (gw_world g) = Some (res, w1)"
        by (auto simp: gui_save_json_def split: option.splits)
      with j Inr have "g1 = g\<lparr>gw_world := w1, last_report_dir := last_report_dir g\<rparr> \<or>
          (\<exists>dir. g1 = g\<lparr>gw_world := w1, last_report_dir := dir\<rparr>)"
        by (cases res) (auto simp: gui_save_json_def)
      then show ?thesis by blast
    qed
    then obtain w dir where g1: "g1 = g\<lparr>gw_world := w, last_report_dir := dir\<rparr>" by blast
    have "\<exists>v. gui_save_csv X i r g1 = g1\<lparr>gw_world := v\<rparr>"
    proof (cases "usbs_report_build_csv (ge_mem X) r")
      case (Inl st)
      then have "gui_save_csv X i r g1 = g1\<lparr>gw_world := gw_world g1\<rparr>" by (simp add: gui_save_csv_def)
      then show ?thesis by blast
    next
      case (Inr t)
      then show ?thesis unfolding gui_save_csv_def by auto
    qed
    then obtain v where g2: "gui_save_csv X i r g1 = g1\<lparr>gw_world := v\<rparr>" by blast
    note shape = g' [unfolded g2, unfolded g1 Let_def, simplified]
    show thesis
    proof (cases saved)
      case True
      with shape that(2) [of "cut_last_separator dir" v] show thesis by simp
    next
      case False
      with shape that(1) [of dir v] show thesis by simp
    qed
  qed
qed

lemma save_reports_live:
  assumes "save_reports X r g = Some g'" and "live_ok U g"
  shows "live_ok U g'" "gw_alive g' = gw_alive g" "gw_thread g' = gw_thread g"
  using assms(2) save_reports_shape [OF assms(1)]
proof -
  have saved: "live_ok U (ui (EnableWindow BTN_OPENDIR True) (g\<lparr>gw_world := w, last_report_dir := dir, have_last_report_dir := True\<rparr>))"
      "live_ok U (g\<lparr>gw_world := w, last_report_dir := dir\<rparr>)" for w dir
    using assms(2) by (auto simp: live_ok_def controls_ok_def labels_ok_def frozen_controls_def seen_steps)
  from save_reports_shape [OF assms(1)] obtain w dir where
    "g' = g\<lparr>gw_world := w, last_report_dir := dir\<rparr> \<or>
     g' = ui (EnableWindow BTN_OPENDIR True) (g\<lparr>gw_world := w, last_report_dir := dir, have_last_report_dir := True\<rparr>)"
    by metis
  with saved show "live_ok U g'" "gw_alive g' = gw_alive g" "gw_thread g' = gw_thread g"
    by (auto simp: ui_def)
qed

text \<open>Leaving a scan, with the queue the handler finds once it has taken the result from it.\<close>

lemma leave_scan_live:
  assumes "live_ok U (g\<lparr>gw_queue := m # gw_queue g\<rparr>)" and "gw_thread g = THREAD_ENDED" and "\<not> is_progress m"
  shows "live_ok U (leave_scan (join_worker g))" "gw_alive (leave_scan (join_worker g)) = gw_alive g"
    "gw_thread (leave_scan (join_worker g)) = NO_THREAD" "\<not> scanning (leave_scan (join_worker g))"
proof -
  let ?j = "join_worker g"
  let ?u = "uis [EnableWindow BTN_SCAN True, EnableWindow BTN_REFRESH True, EnableWindow COMBO_DEVICES True,
    EnableWindow CHK_ALLDRIVES True, EnableWindow BTN_CANCEL False] (?j\<lparr>scanning := False\<rparr>)"
  obtain h where h: "quietly ?u h" "progress_end ?u = h\<lparr>progress_determinate := False, progress_last_pos := 0\<rparr>"
    by (rule progress_end_shape)
  have "gw_queue g = []"
    using assms by (cases "gw_queue g") (auto simp: live_ok_def queue_ok_def)
  then have u: "live_ok U ?u" "gw_alive ?u = gw_alive g" "gw_thread ?u = NO_THREAD" "\<not> scanning ?u"
    using assms
    by (auto simp: join_worker_def Let_def live_ok_def controls_ok_def labels_ok_def frozen_controls_def seen_append
        seen_steps queue_ok_def)
  then have "live_ok U h" by (simp add: quietly_live [OF h(1)])
  then have "live_ok U (h\<lparr>progress_determinate := False, progress_last_pos := 0\<rparr>)"
    by (auto simp: live_ok_def controls_ok_def labels_ok_def)
  then show "live_ok U (leave_scan ?j)" "gw_alive (leave_scan ?j) = gw_alive g"
      "gw_thread (leave_scan ?j) = NO_THREAD" "\<not> scanning (leave_scan ?j)"
    using u by (simp_all add: leave_scan_def h(2) quietly_same [OF h(1)])
qed

lemma banner_live:
  assumes "live_ok U g" and "\<not> scanning g"
  shows "live_ok U (banner_hide g)" "live_ok U (banner_show X s g)"
    "gw_alive (banner_hide g) = gw_alive g" "gw_alive (banner_show X s g) = gw_alive g"
    "gw_thread (banner_hide g) = gw_thread g" "gw_thread (banner_show X s g) = gw_thread g"
  using assms
  by (auto simp: banner_hide_def banner_show_def Let_def live_ok_def controls_ok_def labels_ok_def frozen_controls_def
      seen_append seen_steps)

lemma scan_done_live:
  assumes "handle_scan_done X st r g = Some g'"
    and "live_ok U (g\<lparr>gw_queue := m # gw_queue g\<rparr>)" and "gw_thread g = THREAD_ENDED" and "\<not> is_progress m"
  shows "live_ok U g' \<and> gw_alive g' = gw_alive g \<and> gw_thread g' = NO_THREAD"
proof -
  let ?g1 = "leave_scan (join_worker g)"
  note left = leave_scan_live [OF assms(2-4)]
  let ?f = "set_status_utf8 X ''Scan could not be started.'' (relayout X (banner_hide ?g1))"
  have "quietly (banner_hide ?g1) ?f" using quietly_relayout quietly_status by (blast intro: quietly_trans)
  note f = quietly_live [OF this] quietly_same(12,13) [OF this]
  show ?thesis
  proof (cases "\<not> usbs_ok st \<or> r = None")
    case True
    with assms(1) have "g' = ?f" by (cases r) (auto simp: handle_scan_done_def Let_def)
    with left f banner_live [OF left(1,4)] show ?thesis by simp
  next
    case False
    then obtain v where r: "r = Some v" and ok: "usbs_ok st" by auto
    let ?s = "gui_report_summarize (Some v)"
    let ?a = "results_render X v ?g1"
    let ?b = "banner_show X ?s ?a"
    let ?c = "results_scroll_to_top (relayout X ?b)"
    from assms(1) obtain g2 where g2: "save_reports X v ?c = Some g2" "g' = set_status_utf8 X (done_status_line ?s) g2"
      unfolding handle_scan_done_def Let_def r option.case using ok by auto
    have qa: "quietly ?g1 ?a" by (rule quietly_render)
    have a: "live_ok U ?a" "\<not> scanning ?a" using left by (simp_all add: quietly_live [OF qa] quietly_same [OF qa])
    have qc: "quietly ?b ?c" using quietly_relayout quietly_scroll by (blast intro: quietly_trans)
    have c: "live_ok U ?c" using banner_live(2) [OF a] by (simp add: quietly_live [OF qc])
    have q: "quietly g2 g'" unfolding g2(2) by (rule quietly_status)
    show ?thesis
      using save_reports_live [OF g2(1) c] left banner_live [OF a]
      by (simp add: quietly_live [OF q] quietly_same [OF q] quietly_same [OF qc] quietly_same [OF qa])
  qed
qed

end
