(* ===== verification/GuiSteps.thy ===== *)
theory GuiSteps
  imports GuiSafety
begin

text \<open>
  The two threads of the desktop window (src/gui/gui_window.c): what the message loop and the
  worker can do next, the states that are reached, and the properties of the window that rest on
  the invariant of theory GuiSafety.

  A step of the window is one message handled to its end; a handler that waits for the worker
  takes its step when the thread has ended. A step of the worker is one of its two callbacks. The
  world may change at any time, which covers what the user selects and ticks.
\<close>

section \<open>Steps\<close>

definition is_user_message :: "gui_message \<Rightarrow> bool" where
  "is_user_message msg \<longleftrightarrow> (case msg of WM_CREATE \<Rightarrow> False | WM_POSTED _ \<Rightarrow> False | _ \<Rightarrow> True)"

definition thread_runs :: "gui_thread \<Rightarrow> bool" where
  "thread_runs t \<longleftrightarrow> (case t of THREAD_SCANNING _ \<Rightarrow> True | _ \<Rightarrow> False)"

inductive gui_step :: "'w gui_env \<Rightarrow> 'w gui \<Rightarrow> 'w gui \<Rightarrow> bool" for X where
  step_user: "\<lbrakk>is_user_message msg; msg = WM_DESTROY \<Longrightarrow> \<not> thread_runs (gw_thread g); wnd_proc X msg g = Some (res, g')\<rbrakk>
    \<Longrightarrow> gui_step X g g'"
| step_posted: "\<lbrakk>gw_queue g = m # q; \<not> is_progress m \<Longrightarrow> \<not> thread_runs (gw_thread g);
    wnd_proc X (WM_POSTED m) (g\<lparr>gw_queue := q\<rparr>) = Some (res, g')\<rbrakk> \<Longrightarrow> gui_step X g g'"
| step_progress: "thread_runs (gw_thread g) \<Longrightarrow> gui_step X g (gui_on_progress X p g)"
| step_done: "\<lbrakk>thread_runs (gw_thread g); usbs_ok st \<longleftrightarrow> r \<noteq> None\<rbrakk>
    \<Longrightarrow> gui_step X g ((gui_on_done X st r g)\<lparr>gw_thread := THREAD_ENDED\<rparr>)"
| step_world: "gui_step X g (g\<lparr>gw_world := w\<rparr>)"

inductive gui_reachable :: "'w gui_env \<Rightarrow> 'w gui \<Rightarrow> bool" for X where
  reach_open: "\<lbrakk>gw_calls g = []; gw_thread g = NO_THREAD; gw_queue g = []; \<not> gw_alive g; open_window X registered g = Some g'\<rbrakk>
    \<Longrightarrow> gui_reachable X g'"
| reach_step: "\<lbrakk>gui_reachable X g; gui_step X g g'\<rbrakk> \<Longrightarrow> gui_reachable X g'"

inductive_cases gui_stepE: "gui_step X g g'"

section \<open>Opening\<close>

lemma create_controls_seen:
  assumes "gw_calls g = []"
  shows "control_enabled c (gw_calls (create_controls X g)) \<longleftrightarrow> c \<noteq> BTN_CANCEL \<and> c \<noteq> BTN_OPENDIR"
    and "\<not> control_shown BANNER (gw_calls (create_controls X g))"
    and "combo_items (gw_calls (create_controls X g)) = []"
proof -
  obtain rich w1 where rich: "ge_rich_edit X (gw_world g) = (rich, w1)" by (cases "ge_rich_edit X (gw_world g)") blast
  note made = create_controls_def create_results_control_def create_calls_def ui_def uis_def rich assms Let_def
  show "control_enabled c (gw_calls (create_controls X g)) \<longleftrightarrow> c \<noteq> BTN_CANCEL \<and> c \<noteq> BTN_OPENDIR"
    by (cases rich; cases c) (simp_all add: made control_enabled_def enabled_after_def)
  show "\<not> control_shown BANNER (gw_calls (create_controls X g))"
    by (cases rich) (simp_all add: made control_shown_def shown_after_def)
  show "combo_items (gw_calls (create_controls X g)) = []"
    by (cases rich) (simp_all add: made combo_items_def items_after_def)
qed

lemma create_controls_fields:
  "gw_devices (create_controls X g) = gw_devices g" "gw_thread (create_controls X g) = gw_thread g"
  "gw_queue (create_controls X g) = gw_queue g" "gw_alive (create_controls X g) = gw_alive g"
  "scanning (create_controls X g) = scanning g" "worker_thread (create_controls X g) = worker_thread g"
  "have_last_report_dir (create_controls X g) = have_last_report_dir g" "banner_visible (create_controls X g) = banner_visible g"
  "progress_last_pos (create_controls X g) = progress_last_pos g"
  "auto_scanned_identities (create_controls X g) = auto_scanned_identities g"
  by (simp_all add: create_controls_def create_results_control_def Let_def ui_def uis_def split: prod.split)

lemma opened_live:
  assumes "codepage_ok (ge_codepage X)" and "gw_calls g = []" and "gw_thread g = NO_THREAD" and "gw_queue g = []"
    and "open_window X registered g = Some g'"
  shows "live_ok (ge_codepage X) g'" "gw_alive g'" "gw_thread g' = NO_THREAD"
proof -
  let ?U = "ge_codepage X"
  let ?z = "(gui_state_zero g)\<lparr>gw_alive := True\<rparr>"
  let ?c = "create_controls X ?z"
  let ?p = "populate_devices X (relayout X ?c)"
  have z: "gw_calls ?z = []" using assms(2) by (simp add: gui_state_zero_def)
  have c: "live_ok ?U ?c" "gw_alive ?c" "gw_thread ?c = NO_THREAD"
    using assms(3,4) create_controls_seen [OF z, where X = X]
    by (auto simp: live_ok_def controls_ok_def labels_ok_def create_controls_fields gui_state_zero_def frozen_controls_def
        queue_ok_def vec_init_def GUI_PROGRESS_RANGE_def GUI_AUTO_SCAN_TRACK_MAX_def)
  have q: "quietly ?c (relayout X ?c)" by (rule quietly_relayout)
  have "live_ok ?U (relayout X ?c)" "gw_alive (relayout X ?c)"
    using c by (simp_all add: quietly_live [OF q] quietly_same [OF q])
  note p = populate_live [OF assms(1) this]
  have l: "listing (relayout X ?c) ?p" using populate_devices_ok [OF assms(1)] by blast
  have t: "gw_thread ?p = NO_THREAD" using c by (simp add: listing_same [OF l] quietly_same [OF q])
  have field: "live_ok ?U (h\<lparr>gw_world := w, gw_store := st, have_store := b\<rparr>)" "live_ok ?U (h\<lparr>gw_world := w\<rparr>)"
      "live_ok ?U (h\<lparr>dev_notify := n\<rparr>)" if "live_ok ?U h" for h :: "'a gui" and w st b n
    using that by (auto simp: live_ok_def controls_ok_def labels_ok_def)
  obtain r w1 where o: "usbs_store_open (ge_platform X) (gw_world ?p) = (r, w1)"
    by (cases "usbs_store_open (ge_platform X) (gw_world ?p)") blast
  obtain g1 where create: "on_create X g = (0, g1)" and g1: "live_ok ?U g1" "gw_alive g1" "gw_thread g1 = NO_THREAD"
  proof (cases r)
    case (Inl st)
    let ?s = "set_status_utf8 X ''Warning: could not open the report store; scans will not be saved.'' (?p\<lparr>gw_world := w1\<rparr>)"
    have qs: "quietly (?p\<lparr>gw_world := w1\<rparr>) ?s" by (rule quietly_status)
    have "on_create X g = (0, ?s)"
      using assms(5) unfolding open_window_def on_create_def Let_def o Inl prod.case sum.case by (auto split: if_splits)
    moreover have "live_ok ?U ?s" "gw_alive ?s" "gw_thread ?s = NO_THREAD"
      using field(2) [OF p(1)] p(2) t by (simp_all add: quietly_live [OF qs] quietly_same [OF qs])
    ultimately show ?thesis by (rule that)
  next
    case (Inr store)
    let ?s = "?p\<lparr>gw_world := w1, gw_store := store, have_store := True\<rparr>"
    have "on_create X g = (0, ?s)"
      using assms(5) unfolding open_window_def on_create_def Let_def o Inr prod.case sum.case by (auto split: if_splits)
    moreover have "live_ok ?U ?s" "gw_alive ?s" "gw_thread ?s = NO_THREAD"
      using field(1) [OF p(1)] p(2) t by simp_all
    ultimately show ?thesis by (rule that)
  qed
  from assms(5) create have "g' = (if registered \<and> gw_alive g1 then g1\<lparr>dev_notify := True\<rparr> else g1)"
    by (simp add: open_window_def)
  with g1 field(3) [OF g1(1)] show "live_ok ?U g'" "gw_alive g'" "gw_thread g' = NO_THREAD" by simp_all
qed

section \<open>Every step keeps the invariant\<close>

lemma destroy_inv: "gui_inv U g \<Longrightarrow> \<not> thread_runs (gw_thread g) \<Longrightarrow> gw_thread (on_destroy g) = NO_THREAD \<and> \<not> gw_alive (on_destroy g)"
  by (cases "gw_alive g"; cases "worker_thread g")
     (auto simp: gui_inv_def live_ok_def on_destroy_def ui_def Let_def)

lemma draw_quiet: "quietly g (uis (map Draw ds) g)"
  by (rule quietly_uis) (simp add: quiet_call_def list_all_iff)

lemma user_message_inv:
  assumes "codepage_ok (ge_codepage X)" and "gui_inv (ge_codepage X) g" and "is_user_message msg"
    and "msg = WM_DESTROY \<Longrightarrow> \<not> thread_runs (gw_thread g)" and "wnd_proc X msg g = Some (res, g')"
  shows "gui_inv (ge_codepage X) g'"
proof (cases "gw_alive g")
  case False
  with assms(2-5) show ?thesis
    by (auto simp: wnd_proc_def is_user_message_def gui_inv_def on_destroy_def ui_def split: gui_message.splits)
next
  case True
  with assms(2) have live: "live_ok (ge_codepage X) g" by (simp add: gui_inv_def)
  have quiet: "gui_inv (ge_codepage X) g'" if "quietly g g'" using quietly_inv [OF that] assms(2) by simp
  have closed: "gui_inv (ge_codepage X) (on_destroy g)" if "\<not> thread_runs (gw_thread g)"
    using destroy_inv [OF assms(2) that] by (simp add: gui_inv_def)
  show ?thesis
  proof (cases msg)
    case (WM_COMMAND c clicked)
    with assms(5) True command_live [OF assms(1) live True] show ?thesis by (auto simp: wnd_proc_def gui_inv_def)
  next
    case (WM_DEVICECHANGE change)
    with assms(5) True device_change_live [OF assms(1) live True] live show ?thesis
      by (auto simp: wnd_proc_def gui_inv_def split: if_splits)
  next
    case (WM_SIZE width height)
    with assms(5) True show ?thesis by (auto simp: wnd_proc_def quietly_layout intro!: quiet)
  next
    case (WM_DRAWITEM c rect)
    with assms(5) True show ?thesis by (auto simp: wnd_proc_def draw_quiet intro!: quiet split: if_splits)
  next
    case (WM_CTLCOLORSTATIC c)
    with assms(5) True show ?thesis
      by (auto simp: wnd_proc_def quiet_call_def quietly_ui intro!: quiet split: if_splits)
  next
    case WM_CLOSE
    show ?thesis
    proof (cases "scanning g")
      case True
      with WM_CLOSE assms(5) \<open>gw_alive g\<close> show ?thesis
        by (auto simp: wnd_proc_def quiet_call_def quietly_ui intro!: quiet)
    next
      case False
      with live have "\<not> thread_runs (gw_thread g)" by (auto simp: live_ok_def thread_runs_def)
      with WM_CLOSE assms(5) False closed show ?thesis by (simp add: wnd_proc_def)
    qed
  next
    case WM_DESTROY
    with assms(4,5) closed show ?thesis by (simp add: wnd_proc_def)
  next
    case WM_GETMINMAXINFO
    with assms(2,5) show ?thesis by (simp add: wnd_proc_def)
  next
    case (WM_UNHANDLED n)
    with assms(2,5) show ?thesis by (simp add: wnd_proc_def)
  qed (use assms(3) in \<open>simp_all add: is_user_message_def\<close>)
qed

lemma posted_inv:
  assumes "gui_inv (ge_codepage X) g" and "gw_queue g = m # q" and "\<not> is_progress m \<Longrightarrow> \<not> thread_runs (gw_thread g)"
    and "wnd_proc X (WM_POSTED m) (g\<lparr>gw_queue := q\<rparr>) = Some (res, g')"
  shows "gui_inv (ge_codepage X) g'"
proof (cases "gw_alive g")
  case False
  with assms(1,4) show ?thesis by (cases m) (auto simp: wnd_proc_def gui_inv_def)
next
  case True
  let ?h = "g\<lparr>gw_queue := q\<rparr>"
  from True assms(1) have live: "live_ok (ge_codepage X) g" by (simp add: gui_inv_def)
  with assms(2) have started: "gw_thread g \<noteq> NO_THREAD" by (auto simp: live_ok_def queue_ok_def)
  show ?thesis
  proof (cases m)
    case (WM_APP_SCAN_PROGRESS p)
    have "queue_ok (gw_thread g) q"
      using live started assms(2)
      by (cases "gw_thread g"; cases q) (auto simp: live_ok_def queue_ok_def split: if_splits)
    with live have "live_ok (ge_codepage X) ?h" by (auto simp: live_ok_def controls_ok_def labels_ok_def)
    from progress_live [OF this, of X p] WM_APP_SCAN_PROGRESS True assms(4) show ?thesis
      by (simp add: wnd_proc_def gui_inv_def)
  next
    case (WM_APP_SCAN_DONE st r)
    with assms(3) started have ended: "gw_thread ?h = THREAD_ENDED" by (cases "gw_thread g") (auto simp: thread_runs_def)
    have "?h\<lparr>gw_queue := m # gw_queue ?h\<rparr> = g" by (simp add: assms(2) [symmetric])
    with live have full: "live_ok (ge_codepage X) (?h\<lparr>gw_queue := m # gw_queue ?h\<rparr>)" by simp
    from WM_APP_SCAN_DONE True assms(4) have "handle_scan_done X st r ?h = Some g'" by (auto simp: wnd_proc_def)
    from scan_done_live [OF this full ended] WM_APP_SCAN_DONE True show ?thesis by (simp add: gui_inv_def)
  qed
qed

lemma post_message_fields:
  "gw_alive (post_message X m g) = gw_alive g" "gw_thread (post_message X m g) = gw_thread g"
  "live_ok U (g\<lparr>gw_queue := gw_queue g @ [m]\<rparr>) \<Longrightarrow> live_ok U g \<Longrightarrow> live_ok U (post_message X m g)"
  by (auto simp: post_message_def live_ok_def controls_ok_def labels_ok_def split: prod.split)

lemma on_progress_inv:
  assumes "gui_inv U g" and "thread_runs (gw_thread g)"
  shows "gui_inv U (gui_on_progress X p g)"
proof -
  from assms have alive: "gw_alive g" and live: "live_ok U g" by (auto simp: gui_inv_def thread_runs_def split: if_splits)
  obtain now w1 where tick: "ge_tick X (gw_world g) = (now, w1)" by (cases "ge_tick X (gw_world g)") blast
  let ?g1 = "g\<lparr>gw_world := w1, final_progress := p, have_final_progress := True\<rparr>"
  let ?g2 = "?g1\<lparr>last_progress_tick := now\<rparr>"
  have q: "queue_ok (gw_thread g) (gw_queue g @ [WM_APP_SCAN_PROGRESS p])"
    using live assms(2) by (auto simp: live_ok_def queue_ok_def thread_runs_def split: gui_thread.splits)
  have kept: "live_ok U ?g1" "live_ok U ?g2" "live_ok U (?g2\<lparr>gw_queue := gw_queue ?g2 @ [WM_APP_SCAN_PROGRESS p]\<rparr>)"
    using live q by (auto simp: live_ok_def controls_ok_def labels_ok_def)
  show ?thesis
    using alive kept post_message_fields(3) [OF kept(3,2), of X]
    by (auto simp: gui_inv_def gui_on_progress_def tick Let_def post_message_fields)
qed

lemma on_done_inv:
  assumes "gui_inv U g" and "thread_runs (gw_thread g)"
  shows "gui_inv U ((gui_on_done X st r g)\<lparr>gw_thread := THREAD_ENDED\<rparr>)"
proof -
  from assms have alive: "gw_alive g" and live: "live_ok U g" by (auto simp: gui_inv_def thread_runs_def split: if_splits)
  obtain posted w1 where post: "ge_post X (gw_world g) = (posted, w1)" by (cases "ge_post X (gw_world g)") blast
  have q: "list_all is_progress (gw_queue g)" using live assms(2)
    by (auto simp: live_ok_def queue_ok_def thread_runs_def split: gui_thread.splits)
  then have "list_all is_progress (butlast (gw_queue g))" by (auto simp: list_all_iff dest: in_set_butlastD)
  with q live assms(2) alive show ?thesis
    by (auto simp: gui_on_done_def post_message_def post gui_inv_def live_ok_def controls_ok_def labels_ok_def
        queue_ok_def thread_runs_def)
qed

lemma step_inv:
  assumes "codepage_ok (ge_codepage X)" and "gui_step X g g'" and "gui_inv (ge_codepage X) g"
  shows "gui_inv (ge_codepage X) g'"
  using assms(2,3)
proof (cases rule: gui_step.cases)
  case (step_user msg res)
  with user_message_inv [OF assms(1,3)] show ?thesis by blast
next
  case (step_posted m q res)
  with posted_inv [OF assms(3)] show ?thesis by blast
next
  case (step_progress p)
  with on_progress_inv [OF assms(3)] show ?thesis by simp
next
  case (step_done st r)
  with on_done_inv [OF assms(3)] show ?thesis by simp
next
  case (step_world w)
  with assms(3) show ?thesis by (simp add: quietly_inv [OF quietly_world])
qed

lemma gui_reachable_inv:
  assumes "codepage_ok (ge_codepage X)" and "gui_reachable X g"
  shows "gui_inv (ge_codepage X) g"
  using assms(2)
proof induction
  case (reach_open g registered g')
  show ?case using opened_live [OF assms(1) reach_open(1,2,3,5)] by (simp add: gui_inv_def)
next
  case (reach_step g g')
  show ?case by (rule step_inv [OF assms(1) reach_step.hyps(2) reach_step.IH])
qed

section \<open>A window\<close>

text \<open>
  One stick is plugged in, the first item is selected, both boxes are ticked, every call succeeds
  and the clock stands still.
\<close>

definition gui_fixture :: "string list gui_env" where
  "gui_fixture =
     \<lparr>ge_platform = fixture_platform\<lparr>p_host := Windows, p_env := (\<lambda>n. if n = ''LOCALAPPDATA'' then Some ''C:'' else None)\<rparr>,
      ge_devices = (\<lambda>_. Some (\<lambda>w l. (USBS_OK, snd (usbs_device_list_push mem_always l sample_stick), w))),
      ge_codepage = ascii_codepage, ge_version = ''1'', ge_fuel = 0, ge_selection = (\<lambda>_. 0),
      ge_checked = (\<lambda>_ _. True), ge_client = (\<lambda>_. None), ge_tick = (\<lambda>w. (0, w)), ge_spawn = (\<lambda>w. (True, w)),
      ge_post = (\<lambda>w. (True, w)), ge_rich_edit = (\<lambda>w. (True, w))\<rparr>"

definition gui_blank :: "string list gui" where
  "gui_blank = gui_state_zero
     \<lparr>gw_devices = vec_init, show_all_drives = False, scan_started_tick = 0, gw_store = \<lparr>store_root = []\<rparr>,
      have_store = False, gw_cancel_flag = 0, worker_thread = False, scanning = False, last_report_dir = [],
      have_last_report_dir = False, dev_notify = False, auto_scan_enabled = False, auto_scanned_identities = [],
      progress_total_bytes = 0, progress_determinate = False, progress_last_pos = 0,
      last_progress = zero_scan_progress, have_progress = False, banner_visible = False,
      banner_verdict = GUI_VERDICT_CLEAN, banner_headline = [], banner_detail = [], last_progress_tick = 0,
      final_progress = zero_scan_progress, have_final_progress = False, results_is_rich = False,
      controls_exist = False, gw_alive = False, gw_calls = [], gw_thread = NO_THREAD, gw_queue = [], gw_world = []\<rparr>"

definition gui_opened :: "string list gui" where
  "gui_opened = the (open_window gui_fixture True gui_blank)"

definition gui_started :: "string list gui" where
  "gui_started = on_scan_clicked gui_fixture gui_opened"

lemma fixture_codepage: "codepage_ok (ge_codepage gui_fixture)"
  by (simp add: gui_fixture_def ascii_codepage_ok)

lemma opened_reachable: "gui_reachable gui_fixture gui_opened"
proof -
  have "case open_window gui_fixture True gui_blank of None \<Rightarrow> False | Some _ \<Rightarrow> True" by code_simp
  then have "open_window gui_fixture True gui_blank = Some gui_opened" by (simp add: gui_opened_def split: option.splits)
  from reach_open [OF _ _ _ _ this] show ?thesis by (simp add: gui_blank_def gui_state_zero_def)
qed

lemma opened_facts:
  "v_items (gw_devices gui_opened) = [sample_stick]" "scanning gui_opened = False" "gw_alive gui_opened"
  by code_simp+

lemma started_thread: "gw_thread gui_started = THREAD_SCANNING sample_stick"
  by code_simp

lemma started_reachable: "gui_reachable gui_fixture gui_started"
proof -
  have "wnd_proc gui_fixture (WM_COMMAND BTN_SCAN True) gui_opened = Some (LRESULT 0, gui_started)"
    using opened_facts(3) by (simp add: wnd_proc_def on_command_def gui_started_def)
  then have "gui_step gui_fixture gui_opened gui_started"
    by (intro step_user [of "WM_COMMAND BTN_SCAN True"]) (simp_all add: is_user_message_def)
  with opened_reachable show ?thesis by (rule reach_step)
qed

section \<open>Properties\<close>

text \<open>
  C3 The window says what is happening: in every state the two threads reach, while the window is
  there, Scan, Refresh, the device list and the choice of drives are enabled exactly when no worker
  exists, Cancel exactly while a scan runs that has not been cancelled, a verdict is shown only when
  none runs, and at most one result is waiting; and when the window's state is gone, so is the worker.
\<close>

theorem window_agrees_with_the_scan:
  assumes "gui_reachable X g" and "codepage_ok (ge_codepage X)"
  shows "if gw_alive g then
      (scanning g \<longleftrightarrow> gw_thread g \<noteq> NO_THREAD) \<and>
      (\<forall>c \<in> {BTN_SCAN, BTN_REFRESH, COMBO_DEVICES, CHK_ALLDRIVES}. control_enabled c (gw_calls g) \<longleftrightarrow> gw_thread g = NO_THREAD) \<and>
      (control_enabled BTN_CANCEL (gw_calls g) \<longleftrightarrow> gw_thread g \<noteq> NO_THREAD \<and> gw_cancel_flag g = 0) \<and>
      (control_shown BANNER (gw_calls g) \<longrightarrow> gw_thread g = NO_THREAD) \<and>
      length (filter (\<lambda>m. \<not> is_progress m) (gw_queue g)) \<le> 1
    else gw_thread g = NO_THREAD"
proof -
  have one: "length (filter (\<lambda>m. \<not> is_progress m) q) \<le> 1" if "list_all is_progress (butlast q)" for q
    using that by (cases q rule: rev_cases) (auto simp: list_all_iff filter_empty_conv)
  have "length (filter (\<lambda>m. \<not> is_progress m) q) \<le> 1" if "queue_ok t q" for t q
    using that one [of q] by (cases t) (auto simp: queue_ok_def list_all_iff filter_empty_conv)
  with gui_reachable_inv [OF assms(2,1)] show ?thesis
    by (auto simp: gui_inv_def live_ok_def controls_ok_def frozen_controls_def)
qed

lemma window_agrees_with_the_scan_witness:
  "\<not> control_enabled BTN_SCAN (gw_calls gui_started) \<and> \<not> control_shown BANNER (gw_calls gui_started)"
proof -
  have alive: "gw_alive gui_started" by code_simp
  from window_agrees_with_the_scan [OF started_reachable fixture_codepage] alive started_thread show ?thesis by simp
qed



text \<open>
  C26 The bar stays in its range and never runs backwards: whatever counts the scan reports, those
  whose product with the range does not fit 64 bits included, an update leaves the position
  between the previous one and the end, and shows exactly that position.
\<close>

theorem progress_bar_is_monotone:
  assumes "progress_last_pos g \<le> GUI_PROGRESS_RANGE" and "progress_determinate g" and "progress_total_bytes g \<noteq> 0"
  shows "progress_last_pos g \<le> progress_last_pos (progress_update p g) \<and>
    progress_last_pos (progress_update p g) \<le> GUI_PROGRESS_RANGE \<and>
    gw_calls (progress_update p g) =
      gw_calls g @ [SendMessage PROGRESS_BAR (PBM_SETPOS (int (progress_last_pos (progress_update p g))))]"
  using assms bar_position_le [of "bytes_scanned p" "progress_total_bytes g"]
  by (simp add: progress_update_def Let_def ui_def)

definition wrapping_bar :: "string list gui" where
  "wrapping_bar = gui_blank\<lparr>progress_determinate := True, progress_total_bytes := 0xFFFFFFFFFFFFFFFF, progress_last_pos := 7\<rparr>"

lemma progress_bar_is_monotone_witness:
  "progress_last_pos (progress_update \<lparr>files_scanned = 1, bytes_scanned = 0xFFFFFFFFFFFFFF00, progress_paths_skipped = 0\<rparr> wrapping_bar) \<in> {7..1000}"
  using progress_bar_is_monotone [of wrapping_bar "\<lparr>files_scanned = 1, bytes_scanned = 0xFFFFFFFFFFFFFF00, progress_paths_skipped = 0\<rparr>"]
  by (simp add: wrapping_bar_def GUI_PROGRESS_RANGE_def)

section \<open>Automatic scans\<close>

lemma list_drives_keep_tracked:
  "fold (list_drive X previous) raw (i, g) = (i', g') \<Longrightarrow> auto_scanned_identities g' = auto_scanned_identities g"
proof (induction raw arbitrary: i g)
  case (Cons d raw)
  obtain i1 g1 where 1: "list_drive X previous d (i, g) = (i1, g1)" by (cases "list_drive X previous d (i, g)") blast
  then have "auto_scanned_identities g1 = auto_scanned_identities g"
    by (auto simp: list_drive_def Let_def ui_def split: if_splits option.splits)
  with Cons 1 show ?case by simp
qed simp

text \<open>A device that is tracked and still listed stays tracked.\<close>

lemma populate_keeps_tracked:
  assumes "d \<in> set (v_items (gw_devices (populate_devices X g)))" and "identity_of d = Some i"
    and "i \<in> set (auto_scanned_identities g)"
  shows "i \<in> set (auto_scanned_identities (populate_devices X g))"
proof (cases rule: populate_devices_shape [of g X])
  case (1 w)
  then have "gw_devices (populate_devices X g) = vec_init" by (simp add: quietly_same cleared_list_def)
  with assms(1) show ?thesis by (simp add: vec_init_def)
next
  case (2 previous raw w n g3 h)
  let ?g4 = "auto_scan_set_prune_absent g3"
  have "auto_scanned_identities g3 = auto_scanned_identities g"
    using list_drives_keep_tracked [OF 2(1)] by (simp add: cleared_list_def ui_def)
  then have "auto_scanned_identities ?g4 =
      filter (\<lambda>t. list_ex (\<lambda>d. identity_of d = Some t) (v_items (gw_devices ?g4))) (auto_scanned_identities g)"
    by (simp add: auto_scan_set_prune_absent_def)
  moreover have "gw_devices (populate_devices X g) = gw_devices ?g4"
    "auto_scanned_identities (populate_devices X g) = auto_scanned_identities ?g4"
    using 2(2) by (auto simp: quietly_same [OF 2(3)] ui_def)
  ultimately show ?thesis using assms by (auto simp: list_ex_iff)
qed

lemma auto_scan_loop_starts:
  assumes "live_ok U g" and "\<not> scanning g" and "gw_thread (auto_scan_loop X ds g) = THREAD_SCANNING d"
  shows "d \<in> set ds \<and> usbs_device_is_scannable_usb d \<and>
    (\<exists>i. identity_of d = Some i \<and> i \<notin> set (auto_scanned_identities g) \<and>
       auto_scanned_identities (auto_scan_loop X ds g) = auto_scanned_identities (auto_scan_set_add i g))"
  using assms(3)
proof (induction ds)
  case Nil
  with assms(1,2) show ?case by (auto simp: live_ok_def)
next
  case (Cons e ds)
  show ?case
  proof (cases "identity_of e")
    case None
    with Cons show ?thesis by simp
  next
    case (Some i)
    show ?thesis
    proof (cases "gui_should_auto_scan (Some e) (auto_scan_enabled g) (scanning g) (auto_scan_set_contains i g)")
      case False
      with Some Cons show ?thesis by simp
    next
      case True
      let ?a = "auto_scan_set_add i g"
      have live: "live_ok U ?a" "\<not> scanning ?a" using auto_scan_add_live assms(1,2) by blast+
      from True Some have loop: "auto_scan_loop X (e # ds) g = start_scan_for_device X e ?a" by simp
      with start_scan_ok [OF live, of X e] Cons.prems have "e = d" by auto
      with True Some loop start_scan_ok [OF live, of X e] show ?thesis
        by (auto simp: gui_should_auto_scan_def auto_scan_set_contains_def)
    qed
  qed
qed


definition gui_waiting :: "string list gui" where
  "gui_waiting = on_autoscan_toggled gui_fixture gui_opened"


section \<open>A result that is lost\<close>

text \<open>
  When the worker cannot allocate or post its last message, nothing tells the window that the scan
  is over: in whatever the user does next, short of destroying the window from outside, it stays
  in the scanning state, and closing it is answered with the warning that a scan is in progress.
\<close>

lemma lost_result_is_forever:
  assumes "codepage_ok (ge_codepage X)" and "gui_inv (ge_codepage X) g" and "gw_alive g" and "gw_thread g = THREAD_ENDED"
    and "list_all is_progress (gw_queue g)" and "msg \<noteq> WM_DESTROY" and "is_user_message msg"
    and "wnd_proc X msg g = Some (res, g')"
  shows "gw_alive g' \<and> scanning g' \<and> gw_thread g' = THREAD_ENDED \<and> gw_queue g' = gw_queue g"
proof -
  from assms(2-4) have s: "scanning g" by (simp add: gui_inv_def live_ok_def)
  have same: "gw_alive h \<and> scanning h \<and> gw_thread h = THREAD_ENDED \<and> gw_queue h = gw_queue g" if "quietly g h" for h
    using s assms(3,4) by (simp add: quietly_same [OF that])
  have cancelled: "gw_alive h \<and> scanning h \<and> gw_thread h = THREAD_ENDED \<and> gw_queue h = gw_queue g"
    if "h = on_cancel_clicked X g" for h
  proof -
    have "quietly (ui (EnableWindow BTN_CANCEL False) (g\<lparr>gw_cancel_flag := 1\<rparr>)) h"
      using s that by (simp add: on_cancel_clicked_def quietly_status)
    then show ?thesis using s assms(3,4) by (simp add: quietly_same ui_def)
  qed
  show ?thesis
  proof (cases msg)
    case (WM_COMMAND c clicked)
    with assms(3,8) have "g' = on_command X c clicked g" by (simp add: wnd_proc_def)
    then show ?thesis
      using s assms(3,4) cancelled [of g'] same [OF open_folder_live]
      by (cases c) (simp_all add: on_command_def on_scan_clicked_def on_alldrives_toggled_def on_autoscan_toggled_def)
  next
    case (WM_DEVICECHANGE change)
    with assms(3,4,8) s show ?thesis by (auto simp: wnd_proc_def handle_device_change_def split: if_splits)
  next
    case (WM_SIZE width height)
    with assms(3,8) show ?thesis by (auto simp: wnd_proc_def intro!: same [OF quietly_layout])
  next
    case (WM_DRAWITEM c rect)
    with assms(3,8) have "quietly g g'" by (auto simp: wnd_proc_def draw_quiet split: if_splits)
    then show ?thesis by (rule same)
  next
    case (WM_CTLCOLORSTATIC c)
    with assms(3,8) have "quietly g g'" by (auto simp: wnd_proc_def quiet_call_def quietly_ui split: if_splits)
    then show ?thesis by (rule same)
  next
    case WM_CLOSE
    with assms(3,8) s show ?thesis by (auto simp: wnd_proc_def quiet_call_def quietly_ui intro!: same)
  next
    case WM_GETMINMAXINFO
    with assms(3,4,8) s show ?thesis by (simp add: wnd_proc_def)
  next
    case (WM_UNHANDLED n)
    with assms(3,4,8) s show ?thesis by (simp add: wnd_proc_def)
  qed (use assms(6,7) in \<open>simp_all add: is_user_message_def\<close>)
qed

end
