(* ===== verification/WebMain.thy ===== *)
theory WebMain
  imports WebServer DeviceLinux
begin

text \<open>
  The web executable, src/app_gui_web/main.c: the launch token, the single-instance lock with its
  line of address and token, and the order of start and stop. The operating system is a record of
  calls over the same world the sockets and the files live in; what is printed is collected in
  two strings. What the worker threads do while the main thread waits is a parameter.
\<close>

section \<open>The system\<close>

text \<open>The four hosts the preprocessor distinguishes: \<open>OS_OTHER\<close> has neither random call.\<close>

datatype os_kind = OS_LINUX | OS_APPLE | OS_WINDOWS | OS_OTHER

text \<open>
  \<open>os_getrandom\<close> delivers bytes or fails; \<open>os_urandom\<close> is opening, reading and closing /dev/urandom,
  and yields \<open>None\<close> when it cannot be opened; \<open>os_read_text\<close> and \<open>os_write_text\<close> are a stdio file
  from opening to closing; \<open>os_browse\<close> is the child that executes the opener with its output on
  /dev/null; \<open>os_stop\<close> reads the flag the signal handler sets.
\<close>

record 'w web_os =
  os_kind :: os_kind
  os_getrandom :: "nat \<Rightarrow> 'w \<Rightarrow> string option \<times> 'w"
  os_arc4random :: "nat \<Rightarrow> 'w \<Rightarrow> string \<times> 'w"
  os_urandom :: "nat \<Rightarrow> 'w \<Rightarrow> string option \<times> 'w"
  os_open_lock :: "string \<Rightarrow> 'w \<Rightarrow> int \<times> 'w"
  os_flock :: "int \<Rightarrow> 'w \<Rightarrow> int \<times> 'w"
  os_close :: "int \<Rightarrow> 'w \<Rightarrow> 'w"
  os_read_text :: "string \<Rightarrow> 'w \<Rightarrow> string option \<times> 'w"
  os_write_text :: "string \<Rightarrow> string \<Rightarrow> 'w \<Rightarrow> 'w"
  os_fork :: "'w \<Rightarrow> int \<times> 'w"
  os_browse :: "string \<Rightarrow> string \<Rightarrow> 'w \<Rightarrow> 'w"
  os_stop :: "'w \<Rightarrow> bool"

section \<open>The launch token\<close>

definition TOKEN_HEX_LEN :: nat where "TOKEN_HEX_LEN = 32"
definition IDLE_TIMEOUT_SECONDS :: "32 word" where "IDLE_TIMEOUT_SECONDS = 3600"

definition token_of_bytes :: "string \<Rightarrow> string" where
  "token_of_bytes raw = concat (map (\<lambda>c. [hex_lower (of_char c div 16), hex_lower (of_char c mod 16)]) raw)"

definition random_bytes :: "'w web_os \<Rightarrow> nat \<Rightarrow> 'w \<Rightarrow> string option \<times> 'w" where
  "random_bytes S n w =
     (case os_kind S of
        OS_LINUX \<Rightarrow>
          (case os_getrandom S n w of
             (Some raw, w1) \<Rightarrow> (if length raw = n then Some raw else None, w1)
           | (None, w1) \<Rightarrow> (None, w1))
      | OS_APPLE \<Rightarrow> (case os_arc4random S n w of (raw, w1) \<Rightarrow> (Some raw, w1))
      | _ \<Rightarrow> (None, w))"

definition generate_token :: "'w web_os \<Rightarrow> nat \<Rightarrow> 'w \<Rightarrow> (usbs_status + string) \<times> 'w" where
  "generate_token S out_cap w =
     (if out_cap < TOKEN_HEX_LEN + 1 then (Inl USBS_ERR_INVALID_ARG, w)
      else
        (case random_bytes S 16 w of
           (Some raw, w1) \<Rightarrow> (Inr (token_of_bytes raw), w1)
         | (None, w1) \<Rightarrow>
             (case os_urandom S 16 w1 of
                (Some raw, w2) \<Rightarrow> (if length raw = 16 then Inr (token_of_bytes raw) else Inl USBS_ERR_IO, w2)
              | (None, w2) \<Rightarrow> (Inl USBS_ERR_IO, w2))))"

section \<open>One instance\<close>

definition launch_browser :: "'w web_os \<Rightarrow> string \<Rightarrow> 'w \<Rightarrow> 'w" where
  "launch_browser S url w =
     (if os_kind S = OS_WINDOWS then w
      else
        (case os_fork S w of
           (pid, w1) \<Rightarrow>
             if pid < 0 then w1
             else os_browse S (if os_kind S = OS_APPLE then ''open'' else ''xdg-open'') url w1))"

definition lock_path :: "environment \<Rightarrow> string" where
  "lock_path env =
     (case usbs_getenv env ''XDG_RUNTIME_DIR'' 400 of
        (st, v) \<Rightarrow>
          snprintf_buf 512 ((if usbs_ok st \<and> v \<noteq> [] then v else ''/tmp'') @ ''/usb-sentinel-gui-web.lock''))"

text \<open>\<open>fscanf(f, "%u %399s", \<dots>) == 2\<close> and what is kept of the two.\<close>

definition read_lock_line :: "nat \<Rightarrow> string \<Rightarrow> (16 word \<times> string) option" where
  "read_lock_line token_cap line =
     (case scan_unsigned line of
        None \<Rightarrow> None
      | Some (port, rest) \<Rightarrow>
          map_option (\<lambda>(tok, _). (ucast port, snprintf_buf token_cap (cstr tok))) (scan_token 399 rest))"

text \<open>
  \<open>None\<close>: this process is the instance, or proceeds as if. Otherwise the port and token of the one
  that runs, zero and empty when they could not be read.
\<close>

definition acquire_single_instance_lock ::
  "'w web_os \<Rightarrow> environment \<Rightarrow> nat \<Rightarrow> 'w \<Rightarrow> (16 word \<times> string) option \<times> 'w" where
  "acquire_single_instance_lock S env token_cap w =
     (if os_kind S = OS_WINDOWS then (None, w)
      else
        (case os_open_lock S (lock_path env) w of
           (fd, w1) \<Rightarrow>
             if fd < 0 then (None, w1)
             else
               (case os_flock S fd w1 of
                  (r, w2) \<Rightarrow>
                    if r = 0 then (None, w2)
                    else
                      (case os_read_text S (lock_path env) (os_close S fd w2) of
                         (None, w3) \<Rightarrow> (Some (0, []), w3)
                       | (Some line, w3) \<Rightarrow>
                           (Some (case read_lock_line token_cap line of None \<Rightarrow> (0, []) | Some found \<Rightarrow> found), w3)))))"

definition lock_line :: "16 word \<Rightarrow> string \<Rightarrow> string" where
  "lock_line port token = dec_of_nat (unat port) @ '' '' @ token @ [LF]"

definition write_lock_file_contents :: "'w web_os \<Rightarrow> environment \<Rightarrow> 16 word \<Rightarrow> string \<Rightarrow> 'w \<Rightarrow> 'w" where
  "write_lock_file_contents S env port token w = os_write_text S (lock_path env) (lock_line port token) w"

section \<open>Start and stop\<close>

definition launch_url :: "16 word \<Rightarrow> string \<Rightarrow> string" where
  "launch_url port token =
     snprintf_buf 256 (''http://127.0.0.1:'' @ dec_of_nat (unat port) @ ''/?token='' @ token)"

text \<open>
  \<open>main\<close> up to the accept loop: an exit code, or the server and the application it will run; what
  was printed on the two streams; the world. \<open>mutex_ok\<close> says whether the application's mutex could
  be made.
\<close>

definition web_main_start ::
  "'w web_os \<Rightarrow> 'w platform \<Rightarrow> 'w web_env \<Rightarrow> bool \<Rightarrow> 'w \<Rightarrow> (int + http_server \<times> gui_web_app) \<times> string \<times> string \<times> 'w" where
  "web_main_start S P E mutex_ok w =
     (case acquire_single_instance_lock S (p_env P) (TOKEN_HEX_LEN + 1) w of
        (Some (existing_port, existing_token), w1) \<Rightarrow>
          if existing_port \<noteq> 0 \<and> existing_token \<noteq> [] then
            (let url = launch_url existing_port existing_token
             in (Inl 0, ''USB Sentinel is already running: '' @ url @ [LF], [], launch_browser S url w1))
          else (Inl 1, [], ''USB Sentinel appears to already be running, but its address could not be determined.'' @ [LF], w1)
      | (None, w1) \<Rightarrow>
          (case generate_token S (TOKEN_HEX_LEN + 1) w1 of
             (Inl _, w2) \<Rightarrow> (Inl 1, [], ''Failed to generate a launch token (no system randomness source).'' @ [LF], w2)
           | (Inr token, w2) \<Rightarrow>
               (case usbs_store_open P w2 of
                  (Inl _, w3) \<Rightarrow> (Inl 1, [], ''Failed to open the report store.'' @ [LF], w3)
                | (Inr store, w3) \<Rightarrow>
                    (case http_server_start (we_mem E) (we_net E) w3 of
                       (Inl _, w4) \<Rightarrow> (Inl 1, [], ''Failed to start the local HTTP server.'' @ [LF], w4)
                     | (Inr (server, port), w4) \<Rightarrow>
                         (let w5 = write_lock_file_contents S (p_env P) port token w4
                          in (case gui_web_app_create (we_mem E) mutex_ok token store port of
                                Inl _ \<Rightarrow>
                                  (Inl 1, [], ''Failed to initialize the application.'' @ [LF],
                                   http_server_free (we_net E) server w5)
                              | Inr app \<Rightarrow>
                                  (let url = launch_url port token
                                   in (Inr (server, app),
                                       ''USB Sentinel is running at '' @ url @ [LF] @ ''Press Ctrl+C to stop.'' @ [LF], [],
                                       launch_browser S url w5))))))))"

text \<open>
  \<open>gui_web_app_shutdown\<close> polls for the worker; \<open>workers\<close> is what the other threads do during each
  wait. \<open>MAX_WAIT_MS div POLL_MS + 1\<close> polls reach the bound, so the count given here is never short.
\<close>

fun shutdown_loop :: "nat \<Rightarrow> ('w web \<Rightarrow> 'w web) \<Rightarrow> 'w web \<Rightarrow> 'w web" where
  "shutdown_loop 0 workers s = s"
| "shutdown_loop (Suc polls) workers s =
     (case web_phase s of
        REQUEST_WAIT waited_ms \<Rightarrow> shutdown_loop polls workers (shutdown_poll waited_ms (workers s))
      | _ \<Rightarrow> s)"

definition gui_web_app_shutdown :: "('w web \<Rightarrow> 'w web) \<Rightarrow> 'w web \<Rightarrow> 'w web" where
  "gui_web_app_shutdown workers s = shutdown_loop (MAX_WAIT_MS div POLL_MS + 1) workers (shutdown_begin s)"

definition web_main_serve ::
  "nat \<Rightarrow> 'w web_os \<Rightarrow> 'w web_env \<Rightarrow> ('w web \<Rightarrow> 'w web) \<Rightarrow> http_server \<Rightarrow> gui_web_app \<Rightarrow> 'w \<Rightarrow> 'w web option" where
  "web_main_serve fuel S E workers server app w =
     (case http_server_run fuel (we_stray E) (over_world (we_net E)) server
             (\<lambda>rq fd s. workers (gui_web_app_handle_request E rq fd s)) IDLE_TIMEOUT_SECONDS
             (Some (\<lambda>s. os_stop S (web_world s))) (web_init app w) of
        None \<Rightarrow> None
      | Some s \<Rightarrow>
          (let s1 = gui_web_app_free (gui_web_app_shutdown workers s)
           in Some (s1\<lparr>web_world := http_server_free (we_net E) server (web_world s1)\<rparr>)))"

definition web_main ::
  "nat \<Rightarrow> 'w web_os \<Rightarrow> 'w platform \<Rightarrow> 'w web_env \<Rightarrow> bool \<Rightarrow> ('w web \<Rightarrow> 'w web) \<Rightarrow> 'w \<Rightarrow> (int \<times> string \<times> string \<times> 'w) option" where
  "web_main fuel S P E mutex_ok workers w =
     (case web_main_start S P E mutex_ok w of
        (Inl code, out, err, w1) \<Rightarrow> Some (code, out, err, w1)
      | (Inr (server, app), out, err, w1) \<Rightarrow>
          map_option (\<lambda>s. (0, out, err, web_world s)) (web_main_serve fuel S E workers server app w1))"

section \<open>The token\<close>

text \<open>What \<open>arc4random_buf\<close> is documented to do.\<close>

definition fills :: "'w web_os \<Rightarrow> bool" where
  "fills S \<longleftrightarrow> (\<forall>n w. length (fst (os_arc4random S n w)) = n)"

lemma hex_lower_inj: "a < 16 \<Longrightarrow> b < 16 \<Longrightarrow> hex_lower a = hex_lower b \<Longrightarrow> a = b"
proof -
  assume ab: "a < 16" "b < 16" and eq: "hex_lower a = hex_lower b"
  have val: "(of_char (hex_lower d) :: nat) = (if d < 10 then 48 + d else 87 + d)" if "d < 16" for d
    using that by (simp add: hex_lower_def)
  from eq have "(of_char (hex_lower a) :: nat) = of_char (hex_lower b)" by simp
  with ab show ?thesis by (auto simp: val split: if_splits)
qed

lemma token_of_bytes_shape: "length (token_of_bytes raw) = 2 * length raw" "list_all is_lower_hex (token_of_bytes raw)"
proof -
  have "(of_char c :: nat) div 16 < 16" "(of_char c :: nat) mod 16 < 16" for c :: char
    using nat_of_char_less_256 [of c] by (simp_all add: less_mult_imp_div_less)
  then show "list_all is_lower_hex (token_of_bytes raw)"
    by (induction raw) (simp_all add: token_of_bytes_def hex_lower_is_lower_hex)
  show "length (token_of_bytes raw) = 2 * length raw" by (induction raw) (simp_all add: token_of_bytes_def)
qed

lemma token_of_bytes_inj: "token_of_bytes a = token_of_bytes b \<Longrightarrow> a = b"
proof (induction a arbitrary: b)
  case Nil
  then show ?case by (cases b) (simp_all add: token_of_bytes_def)
next
  case (Cons x xs)
  then obtain y ys where b: "b = y # ys" by (cases b) (simp_all add: token_of_bytes_def)
  have small: "(of_char c :: nat) div 16 < 16" "(of_char c :: nat) mod 16 < 16" for c :: char
    using nat_of_char_less_256 [of c] by (simp_all add: less_mult_imp_div_less)
  from Cons.prems b have "(of_char x :: nat) div 16 = of_char y div 16" "(of_char x :: nat) mod 16 = of_char y mod 16"
    "token_of_bytes xs = token_of_bytes ys"
    by (auto simp: token_of_bytes_def intro: hex_lower_inj small)
  then have "(of_char x :: nat) = of_char y" by (metis div_mod_decomp)
  with Cons.IH \<open>token_of_bytes xs = token_of_bytes ys\<close> b show ?case by simp
qed

lemma token_is_random_bytes:
  assumes "fills S" and "generate_token S cap w = (Inr token, w')"
  shows "\<exists>raw. length raw = 16 \<and> token = token_of_bytes raw"
proof -
  have "length raw = 16" if "os_arc4random S 16 w = (raw, w1)" for raw w1
    using assms(1) that unfolding fills_def by (metis fst_conv)
  with assms(2) show ?thesis
    by (auto simp: generate_token_def random_bytes_def split: if_splits option.splits prod.splits os_kind.splits)
qed

lemma token_shape:
  assumes "fills S" and "generate_token S cap w = (Inr token, w')"
  shows "length token = TOKEN_HEX_LEN" "list_all is_lower_hex token"
  using token_is_random_bytes [OF assms] token_of_bytes_shape by (auto simp: TOKEN_HEX_LEN_def)

section \<open>The line of the lock file\<close>

lemma lower_hex_not_space: "is_lower_hex c \<Longrightarrow> \<not> is_c_space c \<and> c \<noteq> CHR 0x00"
  by (auto simp: is_lower_hex_def is_c_space_def less_eq_char_def)

lemma digit_not_blank: "is_digit c \<Longrightarrow> \<not> is_c_space c \<and> c \<noteq> CHR ''-'' \<and> c \<noteq> CHR ''+''"
  by (auto simp: is_digit_def is_c_space_def less_eq_char_def)

lemma scan_unsigned_dec:
  assumes "n < 2 ^ 32" and "rest = [] \<or> \<not> is_digit (hd rest)"
  shows "scan_unsigned (dec_of_nat n @ rest) = Some (of_nat n, rest)"
proof -
  let ?d = "dec_of_nat n"
  obtain c cs where d: "?d = c # cs" by (cases ?d) auto
  with dec_of_nat_digits [of n] have c: "is_digit c" by simp
  note dg = digit_not_blank [OF c]
  have start: "dropWhile is_c_space (?d @ rest) = ?d @ rest" using d dg by simp
  have sign: "hd (?d @ rest) \<noteq> CHR ''-''" "hd (?d @ rest) \<noteq> CHR ''+''" using d dg by auto
  have ds: "takeWhile is_digit (?d @ rest) = ?d" "dropWhile is_digit (?d @ rest) = rest"
    using takeWhile_append_stop dropWhile_append_stop dec_of_nat_digits assms(2) by blast+
  have "c_strtoull (?d @ rest) = (of_nat n, rest)"
    unfolding c_strtoull_def Let_def start using sign ds assms(1) by auto
  moreover have "rest \<noteq> ?d @ rest" by simp
  moreover have "(ucast (of_nat n :: usbs_u64) :: usbs_u32) = of_nat n"
    using assms(1) by (simp add: unsigned_of_nat take_bit_nat_eq_self)
  ultimately show ?thesis by (simp add: scan_unsigned_def)
qed

lemma lock_line_reads_back:
  assumes "length token = TOKEN_HEX_LEN" and "list_all is_lower_hex token"
  shows "read_lock_line (TOKEN_HEX_LEN + 1) (lock_line port token) = Some (port, token)"
proof -
  have ne: "token \<noteq> []" using assms(1) by (auto simp: TOKEN_HEX_LEN_def)
  have each: "\<not> is_c_space c \<and> c \<noteq> CHR 0x00" if "c \<in> set token" for c
    using assms(2) that by (intro lower_hex_not_space) (simp add: list_all_iff)
  then have "is_cstr token" "list_all (\<lambda>c. \<not> is_c_space c) token" by (auto simp: is_cstr_def list_all_iff)
  then have plain: "plain_token token" "cstr token = token" by (simp_all add: plain_token_def)
  have tok: "scan_token 399 ('' '' @ token @ [LF]) = Some (token, [LF])"
    using assms(1) by (intro scan_token_plain plain ne) (simp_all add: is_c_space_def TOKEN_HEX_LEN_def)
  have "unat port < 2 ^ 32" using unsigned_less [of port, where ?'a = nat] by simp
  then have num: "scan_unsigned (lock_line port token) = Some (of_nat (unat port), '' '' @ token @ [LF])"
    unfolding lock_line_def by (rule scan_unsigned_dec) (simp add: is_digit_def)
  have "(ucast (of_nat (unat port) :: usbs_u32) :: 16 word) = port"
    by (rule bit_word_eqI) (auto simp: bit_simps)
  with num tok plain(2) assms(1) show ?thesis by (simp add: read_lock_line_def)
qed

section \<open>The second launch\<close>

text \<open>
  What the system promises of the lock file: what was written is read back, and neither opening
  nor locking it nor starting a browser changes it.
\<close>

definition lock_file_kept :: "'w web_os \<Rightarrow> bool" where
  "lock_file_kept S \<longleftrightarrow>
     (\<forall>p line w. fst (os_read_text S p (os_write_text S p line w)) = Some line) \<and>
     (\<forall>p q w. fst (os_read_text S p (snd (os_open_lock S q w))) = fst (os_read_text S p w)) \<and>
     (\<forall>p fd w. fst (os_read_text S p (snd (os_flock S fd w))) = fst (os_read_text S p w)) \<and>
     (\<forall>p fd w. fst (os_read_text S p (os_close S fd w)) = fst (os_read_text S p w)) \<and>
     (\<forall>p w. fst (os_read_text S p (snd (os_fork S w))) = fst (os_read_text S p w)) \<and>
     (\<forall>p a url w. fst (os_read_text S p (os_browse S a url w)) = fst (os_read_text S p w))"

lemma launch_keeps_lock_file:
  "lock_file_kept S \<Longrightarrow> fst (os_read_text S p (launch_browser S url w)) = fst (os_read_text S p w)"
  unfolding launch_browser_def by (cases "os_fork S w") (use snd_conv in \<open>simp add: lock_file_kept_def, metis\<close>)

text \<open>What a launch that reaches the accept loop has done.\<close>

lemma started_wrote_the_line:
  assumes "fills S" and "lock_file_kept S" and "web_main_start S P E mutex_ok w = (Inr (server, app), out, err, w')"
  obtains token where "length token = TOKEN_HEX_LEN" "list_all is_lower_hex token" "app_token app = token"
    "fst (os_read_text S (lock_path (p_env P)) w') = Some (lock_line (server_port server) token)"
    "out = ''USB Sentinel is running at '' @ launch_url (server_port server) token @ [LF] @ ''Press Ctrl+C to stop.'' @ [LF]"
proof -
  from assms(3) obtain w1 token w2 store w3 port w4 where
    run: "acquire_single_instance_lock S (p_env P) (TOKEN_HEX_LEN + 1) w = (None, w1)"
      "generate_token S (TOKEN_HEX_LEN + 1) w1 = (Inr token, w2)" "usbs_store_open P w2 = (Inr store, w3)"
      "http_server_start (we_mem E) (we_net E) w3 = (Inr (server, port), w4)"
      "gui_web_app_create (we_mem E) mutex_ok token store port = Inr app"
      "out = ''USB Sentinel is running at '' @ launch_url port token @ [LF] @ ''Press Ctrl+C to stop.'' @ [LF]"
      "w' = launch_browser S (launch_url port token) (write_lock_file_contents S (p_env P) port token w4)"
    unfolding web_main_start_def Let_def by (auto split: prod.splits option.splits sum.splits if_splits)
  note shape = token_shape [OF assms(1) run(2)]
  have port: "port = server_port server"
    using run(4) by (auto simp: http_server_start_def split: prod.splits if_splits)
  have "app_token app = token"
    using run(5) shape(1) by (auto simp: gui_web_app_create_def TOKEN_HEX_LEN_def split: if_splits)
  moreover have "fst (os_read_text S (lock_path (p_env P)) w') = Some (lock_line port token)"
    using assms(2) unfolding run(7) launch_keeps_lock_file [OF assms(2)]
    by (simp add: lock_file_kept_def write_lock_file_contents_def)
  ultimately show ?thesis using that shape run(6) port by blast
qed


text \<open>
  A machine on which it happens: the world is the lock file, locked as soon as it has a line, and
  the random bytes are all 0xA7.
\<close>

definition desk_os :: "string list web_os" where
  "desk_os =
     \<lparr>os_kind = OS_LINUX, os_getrandom = (\<lambda>n w. (Some (replicate n CHR 0xA7), w)),
      os_arc4random = (\<lambda>n w. (replicate n CHR 0x00, w)), os_urandom = (\<lambda>n w. (None, w)),
      os_open_lock = (\<lambda>_ w. (5, w)), os_flock = (\<lambda>_ w. (if w = [] then 0 else - 1, w)), os_close = (\<lambda>_ w. w),
      os_read_text = (\<lambda>_ w. (case w of [] \<Rightarrow> None | line # _ \<Rightarrow> Some line, w)), os_write_text = (\<lambda>_ line _. [line]),
      os_fork = (\<lambda>w. (7, w)), os_browse = (\<lambda>_ _ w. w), os_stop = (\<lambda>_. True)\<rparr>"

definition desk_platform :: "string list platform" where
  "desk_platform = fixture_platform\<lparr>p_env := [''HOME'' \<mapsto> ''/home/u'', ''XDG_RUNTIME_DIR'' \<mapsto> ''/run/user/1000'']\<rparr>"

definition desk_env :: "string list web_env" where
  "desk_env =
     \<lparr>we_net = \<lparr>net_socket = Pair 3, net_bind = (\<lambda>_ _ _. Pair 0), net_listen = (\<lambda>_. Pair 0),
        net_getsockname = (\<lambda>_ w. (0, 8080, w)), net_select = (\<lambda>_. Pair SELECT_READY), net_accept = (\<lambda>_. Pair 4),
        net_recv = (\<lambda>_ _. Pair None), net_send = (\<lambda>_ d. Pair (int (length d))), net_close = (\<lambda>_ w. w),
        net_time = Pair 0\<rparr>,
      we_mem = mem_always, we_devices = None, we_spawn = Pair 0, we_index_html = [], we_version = ''1'',
      we_stray = (\<lambda>_ _. CHR ''x'')\<rparr>"

lemma desk_laws: "fills desk_os" "lock_file_kept desk_os"
  by (simp_all add: fills_def lock_file_kept_def desk_os_def)


section \<open>Stopping\<close>

text \<open>
  Shutting down always comes to an end, within the number of polls given, whatever the workers do
  short of touching the main thread's phase.
\<close>

lemma shutdown_loop_frees:
  assumes "\<And>s. web_phase (workers s) = web_phase s"
  shows "web_phase s = REQUEST_WAIT n \<Longrightarrow> n < MAX_WAIT_MS + POLL_MS \<Longrightarrow> MAX_WAIT_MS + POLL_MS \<le> n + POLL_MS * polls \<Longrightarrow>
    web_phase (shutdown_loop polls workers s) = REQUEST_FREE"
proof (induction polls arbitrary: n s)
  case 0
  then show ?case by simp
next
  case (Suc polls)
  let ?s = "shutdown_poll n (workers s)"
  show ?case
  proof (cases "web_phase ?s = REQUEST_FREE")
    case True
    with Suc.prems(1) show ?thesis by (cases polls) simp_all
  next
    case False
    then have "n < MAX_WAIT_MS" "web_phase ?s = REQUEST_WAIT (n + POLL_MS)"
      by (simp_all add: shutdown_poll_def split: if_splits)
    with Suc.IH [of ?s "n + POLL_MS"] Suc.prems show ?thesis by simp
  qed
qed

lemma gui_web_app_shutdown_frees:
  "(\<And>s. web_phase (workers s) = web_phase s) \<Longrightarrow> web_phase (gui_web_app_shutdown workers s) = REQUEST_FREE"
  unfolding gui_web_app_shutdown_def
  by (rule shutdown_loop_frees [where n = 0]) (simp_all add: shutdown_begin_def MAX_WAIT_MS_def POLL_MS_def Let_def)

text \<open>
  A lock call that fails for a reason of its own, with no other instance anywhere, is taken for a
  running one: the program leaves without serving, with 1 or, when the file still has the line of
  an earlier run, with 0 and the address of a server that is gone.
\<close>

lemma failed_lock_is_taken_for_an_instance:
  assumes "os_kind S \<noteq> OS_WINDOWS" and "os_open_lock S (lock_path (p_env P)) w = (fd, w1)" and "0 \<le> fd"
    and "os_flock S fd w1 = (r, w2)" and "r \<noteq> 0"
  shows "\<exists>code. fst (web_main_start S P E mutex_ok w) = Inl code"
  using assms by (auto simp: web_main_start_def acquire_single_instance_lock_def Let_def split: prod.splits option.splits)

end
