(* ===== verification/Win32.thy ===== *)
theory Win32
  imports Wide Platform Sha256
begin

text \<open>
  The Windows half of the file layer, src/platform/fs_win32.c. The system is a record of Win32 calls
  over an arbitrary state \<open>'s\<close>; a call that fails answers with what GetLastError says after it. Paths
  go through the code page of theory Wide into buffers of 1024 units. The one loop that waits for
  the system, writing a file, moves at least a byte each time round, so it needs no fuel.
\<close>

section \<open>Win32 calls\<close>

datatype win32_error =
    ERROR_SUCCESS | ERROR_ACCESS_DENIED | ERROR_SHARING_VIOLATION | ERROR_PRIVILEGE_NOT_HELD | ERROR_LOCK_VIOLATION
  | ERROR_VIRUS_INFECTED | ERROR_VIRUS_DELETED | ERROR_CANT_ACCESS_FILE | ERROR_ACCESS_DISABLED_BY_POLICY
  | ERROR_FILE_NOT_FOUND | ERROR_PATH_NOT_FOUND | ERROR_NO_MORE_FILES | ERROR_DEV_NOT_EXIST
  | ERROR_NOT_ENOUGH_MEMORY | ERROR_OUTOFMEMORY
  | ERROR_INVALID_PARAMETER | ERROR_INVALID_NAME | ERROR_FILENAME_EXCED_RANGE | ERROR_DIRECTORY
  | ERROR_NOT_SUPPORTED | ERROR_INVALID_FUNCTION
  | ERROR_NOT_READY | ERROR_DEVICE_NOT_CONNECTED | ERROR_MEDIA_CHANGED | ERROR_UNRECOGNIZED_MEDIA | ERROR_IO_DEVICE
  | ERROR_CRC | ERROR_BAD_NETPATH | ERROR_NETNAME_DELETED | ERROR_UNEXP_NET_ERR
  | ERROR_ALREADY_EXISTS | ERROR_MORE_DATA | ERROR_OTHER nat

text \<open>What the code reads of a WIN32_FIND_DATAW; the size comes in two halves.\<close>

record find_data =
  fd_name :: wide
  attr_directory :: bool
  attr_reparse_point :: bool
  attr_hidden :: bool
  attr_system :: bool
  size_low :: usbs_u32
  size_high :: usbs_u32

text \<open>
  The ways the code calls CreateFileW: for sequential reading without recall, for writing with
  CREATE_ALWAYS, with no access rights for a device, and for reading as a probe.
\<close>

datatype file_access = READ_NO_RECALL | WRITE_CREATE_ALWAYS | ZERO_ACCESS | READ_PROBE

text \<open>
  \<open>w_write_file\<close> answers whether it succeeded, how many bytes it wrote, and the last error after it:
  the code asks for the last error of a successful call as well, when nothing was written.
\<close>

record 's win32 =
  w_codepage :: codepage
  w_find_first :: "wide \<Rightarrow> 's \<Rightarrow> (win32_error + nat \<times> find_data) \<times> 's"
  w_find_next :: "nat \<Rightarrow> 's \<Rightarrow> (win32_error + find_data) \<times> 's"
  w_find_close :: "nat \<Rightarrow> 's \<Rightarrow> 's"
  w_create_file :: "file_access \<Rightarrow> wide \<Rightarrow> 's \<Rightarrow> (win32_error + nat) \<times> 's"
  w_read_file :: "nat \<Rightarrow> nat \<Rightarrow> 's \<Rightarrow> (win32_error + string) \<times> 's"
  w_write_file :: "nat \<Rightarrow> string \<Rightarrow> 's \<Rightarrow> (bool \<times> nat \<times> win32_error) \<times> 's"
  w_flush :: "nat \<Rightarrow> 's \<Rightarrow> win32_error option \<times> 's"
  w_close_handle :: "nat \<Rightarrow> 's \<Rightarrow> 's"
  w_create_directory :: "wide \<Rightarrow> 's \<Rightarrow> win32_error option \<times> 's"
  w_move_file :: "wide \<Rightarrow> wide \<Rightarrow> 's \<Rightarrow> win32_error option \<times> 's"
  w_delete_file :: "wide \<Rightarrow> 's \<Rightarrow> win32_error option \<times> 's"

definition status_from_win32 :: "win32_error \<Rightarrow> usbs_status" where
  "status_from_win32 e =
     (if e = ERROR_SUCCESS then USBS_OK
      else if e \<in> {ERROR_ACCESS_DENIED, ERROR_SHARING_VIOLATION, ERROR_PRIVILEGE_NOT_HELD, ERROR_LOCK_VIOLATION,
                   ERROR_VIRUS_INFECTED, ERROR_VIRUS_DELETED, ERROR_CANT_ACCESS_FILE, ERROR_ACCESS_DISABLED_BY_POLICY}
        then USBS_ERR_ACCESS_DENIED
      else if e \<in> {ERROR_FILE_NOT_FOUND, ERROR_PATH_NOT_FOUND, ERROR_NO_MORE_FILES, ERROR_DEV_NOT_EXIST}
        then USBS_ERR_NOT_FOUND
      else if e \<in> {ERROR_NOT_ENOUGH_MEMORY, ERROR_OUTOFMEMORY} then USBS_ERR_NO_MEMORY
      else if e \<in> {ERROR_INVALID_PARAMETER, ERROR_INVALID_NAME, ERROR_FILENAME_EXCED_RANGE, ERROR_DIRECTORY}
        then USBS_ERR_INVALID_ARG
      else if e \<in> {ERROR_NOT_SUPPORTED, ERROR_INVALID_FUNCTION} then USBS_ERR_UNSUPPORTED
      else if e \<in> {ERROR_NOT_READY, ERROR_DEVICE_NOT_CONNECTED, ERROR_MEDIA_CHANGED, ERROR_UNRECOGNIZED_MEDIA,
                   ERROR_IO_DEVICE, ERROR_CRC, ERROR_BAD_NETPATH, ERROR_NETNAME_DELETED, ERROR_UNEXP_NET_ERR}
        then USBS_ERR_IO
      else USBS_ERR_INTERNAL)"

lemma status_from_win32_ok [simp]: "status_from_win32 e = USBS_OK \<longleftrightarrow> e = ERROR_SUCCESS"
  by (simp add: status_from_win32_def)

definition WIDE_PATH_MAX :: nat where "WIDE_PATH_MAX = 1024"

abbreviation wide_path :: "'s win32 \<Rightarrow> string \<Rightarrow> wide option" where
  "wide_path W path \<equiv> utf8_to_wide (w_codepage W) path WIDE_PATH_MAX"

section \<open>Directories\<close>

definition SIZEOF_WIN32_DIR_ITER :: nat where "SIZEOF_WIN32_DIR_ITER = 608"

text \<open>The iterator, with the data of the entry that FindFirstFileW or FindNextFileW fetched last.\<close>

record win32_iter =
  it_handle :: nat
  it_data :: find_data
  have_pending :: bool
  exhausted :: bool

definition is_wide_sep :: "16 word \<Rightarrow> bool" where
  "is_wide_sep u \<longleftrightarrow> u = wide_char CHR 0x5C \<or> u = wide_char CHR ''/''"

text \<open>\<open>pattern\<close> has 16 units more than the path buffer, so \<open>swprintf_s\<close> has room for what is appended.\<close>

definition search_pattern :: "wide \<Rightarrow> wide" where
  "search_pattern path =
     path @ (if path \<noteq> [] \<and> is_wide_sep (last path) then [wide_char CHR ''*'']
             else [wide_char CHR 0x5C, wide_char CHR ''*''])"

definition is_wide_dot_entry :: "wide \<Rightarrow> bool" where
  "is_wide_dot_entry name \<longleftrightarrow> name = [wide_char CHR ''.''] \<or> name = [wide_char CHR ''.'', wide_char CHR ''.'']"

definition win32_fill_entry :: "codepage \<Rightarrow> find_data \<Rightarrow> usbs_dir_entry" where
  "win32_fill_entry U d =
     \<lparr>entry_name = snd (wide_to_utf8 U (fd_name d) USBS_NAME_MAX), is_directory = attr_directory d,
      is_reparse_point = attr_reparse_point d, is_hidden = (attr_hidden d \<or> attr_system d),
      size_bytes = (if attr_directory d then 0 else word_cat (size_high d) (size_low d))\<rparr>"

definition win32_dir_open :: "allocator \<Rightarrow> 's win32 \<Rightarrow> string \<Rightarrow> 's \<Rightarrow> (usbs_status + win32_iter) \<times> 's" where
  "win32_dir_open mem W path s =
     (case wide_path W path of
        None \<Rightarrow> (Inl USBS_ERR_INVALID_ARG, s)
      | Some wide \<Rightarrow>
          if \<not> mem SIZEOF_WIN32_DIR_ITER then (Inl USBS_ERR_NO_MEMORY, s)
          else
            (case w_find_first W (search_pattern wide) s of
               (Inl e, s1) \<Rightarrow> (Inl (status_from_win32 e), s1)
             | (Inr (h, d), s1) \<Rightarrow>
                 (Inr \<lparr>it_handle = h, it_data = d, have_pending = True, exhausted = False\<rparr>, s1)))"

fun win32_dir_next ::
  "nat \<Rightarrow> 's win32 \<Rightarrow> win32_iter \<Rightarrow> 's \<Rightarrow> ((usbs_status + usbs_dir_entry) \<times> win32_iter \<times> 's) option" where
  "win32_dir_next 0 W it s = None"
| "win32_dir_next (Suc fuel) W it s =
     (if exhausted it then Some (Inl USBS_ERR_NOT_FOUND, it, s)
      else
        (case (if have_pending it then (Inr (it_data it), s) else w_find_next W (it_handle it) s) of
           (Inl e, s1) \<Rightarrow>
             Some (Inl (if e \<noteq> ERROR_NO_MORE_FILES then status_from_win32 e else USBS_ERR_NOT_FOUND),
                   it\<lparr>exhausted := True\<rparr>, s1)
         | (Inr d, s1) \<Rightarrow>
             (let it1 = it\<lparr>it_data := d, have_pending := False\<rparr>
              in if is_wide_dot_entry (fd_name d) then win32_dir_next fuel W it1 s1
                 else Some (Inr (win32_fill_entry (w_codepage W) d), it1, s1))))"

definition win32_dir_close :: "'s win32 \<Rightarrow> win32_iter \<Rightarrow> 's \<Rightarrow> 's" where
  "win32_dir_close W it s = w_find_close W (it_handle it) s"

section \<open>Reading\<close>

definition SIZEOF_WIN32_FILE :: nat where "SIZEOF_WIN32_FILE = 8"
definition IO_CLAMP :: nat where "IO_CLAMP = 0x10000000"

definition win32_file_open_read :: "allocator \<Rightarrow> 's win32 \<Rightarrow> string \<Rightarrow> 's \<Rightarrow> (usbs_status + nat) \<times> 's" where
  "win32_file_open_read mem W path s =
     (case wide_path W path of
        None \<Rightarrow> (Inl USBS_ERR_INVALID_ARG, s)
      | Some wide \<Rightarrow>
          (case w_create_file W READ_NO_RECALL wide s of
             (Inl e, s1) \<Rightarrow> (Inl (status_from_win32 e), s1)
           | (Inr h, s1) \<Rightarrow>
               if \<not> mem SIZEOF_WIN32_FILE then (Inl USBS_ERR_NO_MEMORY, w_close_handle W h s1) else (Inr h, s1)))"

definition win32_file_read :: "'s win32 \<Rightarrow> nat \<Rightarrow> nat \<Rightarrow> 's \<Rightarrow> (usbs_status + string) \<times> 's" where
  "win32_file_read W h cap s =
     (case w_read_file W h (if cap > IO_CLAMP then IO_CLAMP else cap) s of
        (Inl e, s1) \<Rightarrow> (Inl (status_from_win32 e), s1)
      | (Inr bytes, s1) \<Rightarrow> (Inr bytes, s1))"

definition win32_file_close :: "'s win32 \<Rightarrow> nat \<Rightarrow> 's \<Rightarrow> 's" where
  "win32_file_close W h s = w_close_handle W h s"

section \<open>The store's own writes\<close>

text \<open>
  The loop of \<open>make_dirs\<close>: \<open>parent\<close> is the part of the path before \<open>rest\<close>. A bare drive, two units with
  a colon second, is not created.
\<close>

fun win32_mkdir_loop :: "'s win32 \<Rightarrow> wide \<Rightarrow> wide \<Rightarrow> 's \<Rightarrow> usbs_status \<times> 's" where
  "win32_mkdir_loop W parent rest s =
     (let step = (if (rest = [] \<or> is_wide_sep (rest ! 0)) \<and> parent \<noteq> [] \<and> \<not> (length parent = 2 \<and> parent ! 1 = wide_char CHR '':'')
                  then w_create_directory W parent s else (None, s))
      in (case step of
            (r, s1) \<Rightarrow>
              if r \<noteq> None \<and> r \<noteq> Some ERROR_ALREADY_EXISTS then (status_from_win32 (the r), s1)
              else (case rest of [] \<Rightarrow> (USBS_OK, s1) | u # us \<Rightarrow> win32_mkdir_loop W (parent @ [u]) us s1)))"

declare win32_mkdir_loop.simps [simp del]

definition win32_make_dirs :: "'s win32 \<Rightarrow> string \<Rightarrow> 's \<Rightarrow> usbs_status \<times> 's" where
  "win32_make_dirs W path s =
     (case wide_path W path of
        None \<Rightarrow> (USBS_ERR_INVALID_ARG, s)
      | Some wide \<Rightarrow> if wide = [] then (USBS_ERR_INVALID_ARG, s) else win32_mkdir_loop W [] wide s)"

text \<open>The loop ends with \<open>None\<close> when all is written; a status is what it gives up with, the handle closed.\<close>

function win32_write_loop :: "'s win32 \<Rightarrow> nat \<Rightarrow> string \<Rightarrow> 's \<Rightarrow> usbs_status option \<times> 's" where
  "win32_write_loop W h remaining s =
     (if remaining = [] then (None, s)
      else
        (case w_write_file W h (take IO_CLAMP remaining) s of
           ((ok, written, last_error), s1) \<Rightarrow>
             if \<not> ok \<or> written = 0
             then (Some (status_from_win32 last_error), w_close_handle W h s1)
             else win32_write_loop W h (drop written remaining) s1))"
  by pat_completeness auto

termination
  by (relation "measure (\<lambda>(W, h, remaining, s). length remaining)") auto

declare win32_write_loop.simps [simp del]

definition win32_write_file :: "'s win32 \<Rightarrow> string \<Rightarrow> string \<Rightarrow> 's \<Rightarrow> usbs_status \<times> 's" where
  "win32_write_file W path data s =
     (case wide_path W path of
        None \<Rightarrow> (USBS_ERR_INVALID_ARG, s)
      | Some wide \<Rightarrow>
          (case w_create_file W WRITE_CREATE_ALWAYS wide s of
             (Inl e, s1) \<Rightarrow> (status_from_win32 e, s1)
           | (Inr h, s1) \<Rightarrow>
               (case win32_write_loop W h data s1 of
                  (Some st, s2) \<Rightarrow> (st, s2)
                | (None, s2) \<Rightarrow>
                    (case w_flush W h s2 of
                       (Some e, s3) \<Rightarrow> (status_from_win32 e, w_close_handle W h s3)
                     | (None, s3) \<Rightarrow> (USBS_OK, w_close_handle W h s3)))))"

definition win32_replace_file :: "'s win32 \<Rightarrow> string \<Rightarrow> string \<Rightarrow> 's \<Rightarrow> usbs_status \<times> 's" where
  "win32_replace_file W dest src s =
     (case (wide_path W dest, wide_path W src) of
        (Some wide_dest, Some wide_src) \<Rightarrow>
          (case w_move_file W wide_src wide_dest s of
             (Some e, s1) \<Rightarrow> (status_from_win32 e, s1)
           | (None, s1) \<Rightarrow> (USBS_OK, s1))
      | _ \<Rightarrow> (USBS_ERR_INVALID_ARG, s))"

definition win32_delete_file :: "'s win32 \<Rightarrow> string \<Rightarrow> 's \<Rightarrow> usbs_status \<times> 's" where
  "win32_delete_file W path s =
     (case wide_path W path of
        None \<Rightarrow> (USBS_ERR_INVALID_ARG, s)
      | Some wide \<Rightarrow>
          (case w_delete_file W wide s of
             (Some e, s1) \<Rightarrow>
               (if e = ERROR_FILE_NOT_FOUND \<or> e = ERROR_PATH_NOT_FOUND then USBS_OK else status_from_win32 e, s1)
           | (None, s1) \<Rightarrow> (USBS_OK, s1)))"

section \<open>SHA-256 by CNG\<close>

text \<open>
  The calls of bcrypt.dll: a provider, the size of its hash objects, a hash from creation to
  destruction. The provider is opened once and kept in a static, which is passed along.
\<close>

record 's bcrypt =
  bc_open_provider :: "'s \<Rightarrow> nat option \<times> 's"
  bc_object_length :: "nat \<Rightarrow> 's \<Rightarrow> nat option \<times> 's"
  bc_create_hash :: "nat \<Rightarrow> nat \<Rightarrow> 's \<Rightarrow> nat option \<times> 's"
  bc_hash_data :: "nat \<Rightarrow> string \<Rightarrow> 's \<Rightarrow> bool \<times> 's"
  bc_finish_hash :: "nat \<Rightarrow> 's \<Rightarrow> string option \<times> 's"
  bc_destroy_hash :: "nat \<Rightarrow> 's \<Rightarrow> 's"

definition SIZEOF_HASH_CTX :: nat where "SIZEOF_HASH_CTX = 16"

definition ensure_sha256_alg :: "'s bcrypt \<Rightarrow> nat option \<Rightarrow> 's \<Rightarrow> usbs_status \<times> nat option \<times> 's" where
  "ensure_sha256_alg B alg s =
     (case alg of
        Some a \<Rightarrow> (USBS_OK, alg, s)
      | None \<Rightarrow>
          (case bc_open_provider B s of
             (None, s1) \<Rightarrow> (USBS_ERR_INTERNAL, None, s1)
           | (Some a, s1) \<Rightarrow> (USBS_OK, Some a, s1)))"

definition win32_hash_begin :: "allocator \<Rightarrow> 's bcrypt \<Rightarrow> nat option \<Rightarrow> 's \<Rightarrow> (usbs_status + nat) \<times> nat option \<times> 's" where
  "win32_hash_begin mem B alg s =
     (case ensure_sha256_alg B alg s of
        (st, alg1, s1) \<Rightarrow>
          if \<not> usbs_ok st then (Inl USBS_ERR_INTERNAL, alg1, s1)
          else
            (case bc_object_length B (the alg1) s1 of
               (r, s2) \<Rightarrow>
                 if r = None \<or> r = Some 0 then (Inl USBS_ERR_INTERNAL, alg1, s2)
                 else if \<not> mem SIZEOF_HASH_CTX \<or> \<not> mem (the r) then (Inl USBS_ERR_NO_MEMORY, alg1, s2)
                 else
                   (case bc_create_hash B (the alg1) (the r) s2 of
                      (None, s3) \<Rightarrow> (Inl USBS_ERR_INTERNAL, alg1, s3)
                    | (Some h, s3) \<Rightarrow> (Inr h, alg1, s3))))"

definition win32_hash_update :: "'s bcrypt \<Rightarrow> nat \<Rightarrow> string \<Rightarrow> 's \<Rightarrow> usbs_status \<times> 's" where
  "win32_hash_update B h data s =
     (if data = [] then (USBS_OK, s)
      else if length data > 0xFFFFFFFF then (USBS_ERR_INVALID_ARG, s)
      else (case bc_hash_data B h data s of (ok, s1) \<Rightarrow> (if ok then USBS_OK else USBS_ERR_INTERNAL, s1)))"

definition win32_hash_abort :: "'s bcrypt \<Rightarrow> nat \<Rightarrow> 's \<Rightarrow> 's" where
  "win32_hash_abort B h s = bc_destroy_hash B h s"

text \<open>The digest and its hexadecimal text.\<close>

definition win32_hash_finish :: "'s bcrypt \<Rightarrow> nat \<Rightarrow> 's \<Rightarrow> (usbs_status + string \<times> string) \<times> 's" where
  "win32_hash_finish B h s =
     (case bc_finish_hash B h s of
        (None, s1) \<Rightarrow> (Inl USBS_ERR_INTERNAL, win32_hash_abort B h s1)
      | (Some digest, s1) \<Rightarrow> (Inr (digest, hex_of_digest digest), bc_destroy_hash B h s1))"

end
