(* ===== verification/DeviceWin32.thy ===== *)
theory DeviceWin32
  imports Win32
begin

text \<open>
  Windows device enumeration, capability probing and cancellation: src/platform/device_win32.c. The
  volume, storage, SetupAPI, CfgMgr32 and network calls are a record over the same state as the
  file calls. Strings the system fills into fixed buffers arrive already cut to them.
\<close>

section \<open>The system\<close>

datatype storage_bus_type =
    BusTypeUnknown | BusTypeScsi | BusTypeUsb | BusTypeSata | BusTypeSd | BusTypeMmc | BusTypeNvme | BusTypeOther nat

text \<open>
  The storage descriptor: \<open>sd_buffer\<close> is the buffer the system filled, followed by whatever memory
  lies behind it; \<open>sd_returned\<close> is how much of it the system says is valid.
\<close>

record storage_descriptor =
  sd_bus_type :: storage_bus_type
  sd_removable_media :: bool
  sd_vendor_id_offset :: nat
  sd_product_id_offset :: nat
  sd_serial_number_offset :: nat
  sd_buffer :: string
  sd_returned :: nat

definition SIZEOF_STORAGE_DEVICE_DESCRIPTOR :: nat where "SIZEOF_STORAGE_DEVICE_DESCRIPTOR = 40"
definition SIZEOF_WCHAR :: nat where "SIZEOF_WCHAR = 2"

text \<open>A multi-string call: its names, or the last error and the number of units it needs.\<close>

datatype path_names = PATH_NAMES "wide list" | PATH_NAMES_FAILED win32_error nat

record 's win32_devices =
  wd_win32 :: "'s win32"
  wd_set_error_mode :: "nat \<Rightarrow> 's \<Rightarrow> nat option \<times> 's"
  wd_find_first_volume :: "nat \<Rightarrow> 's \<Rightarrow> (win32_error + nat \<times> wide) \<times> 's"
  wd_find_next_volume :: "nat \<Rightarrow> nat \<Rightarrow> 's \<Rightarrow> wide option \<times> 's"
  wd_find_volume_close :: "nat \<Rightarrow> 's \<Rightarrow> 's"
  wd_volume_information :: "wide \<Rightarrow> nat \<Rightarrow> nat \<Rightarrow> 's \<Rightarrow> (wide \<times> wide) option \<times> 's"
  wd_disk_free_space :: "wide \<Rightarrow> 's \<Rightarrow> (usbs_u64 \<times> usbs_u64) option \<times> 's"
  wd_path_names :: "wide \<Rightarrow> nat \<Rightarrow> 's \<Rightarrow> path_names \<times> 's"
  wd_disk_number :: "nat \<Rightarrow> 's \<Rightarrow> usbs_u32 option \<times> 's"
  wd_storage_descriptor :: "nat \<Rightarrow> nat \<Rightarrow> 's \<Rightarrow> storage_descriptor option \<times> 's"
  wd_class_devices :: "'s \<Rightarrow> nat option \<times> 's"
  wd_enum_interface :: "nat \<Rightarrow> nat \<Rightarrow> 's \<Rightarrow> nat option \<times> 's"
  wd_interface_detail_size :: "nat \<Rightarrow> nat \<Rightarrow> 's \<Rightarrow> nat \<times> 's"
  wd_interface_detail :: "nat \<Rightarrow> nat \<Rightarrow> nat \<Rightarrow> 's \<Rightarrow> (wide \<times> nat) option \<times> 's"
  wd_destroy_list :: "nat \<Rightarrow> 's \<Rightarrow> 's"
  wd_parent :: "nat \<Rightarrow> 's \<Rightarrow> nat option \<times> 's"
  wd_device_id :: "nat \<Rightarrow> nat \<Rightarrow> 's \<Rightarrow> wide option \<times> 's"
  wd_logical_drives :: "'s \<Rightarrow> usbs_u32 \<times> 's"
  wd_drive_is_remote :: "wide \<Rightarrow> 's \<Rightarrow> bool \<times> 's"
  wd_connection :: "wide \<Rightarrow> nat \<Rightarrow> 's \<Rightarrow> wide option \<times> 's"
  wd_set_ctrl_handler :: "'s \<Rightarrow> win32_error option \<times> 's"

abbreviation wd_codepage :: "'s win32_devices \<Rightarrow> codepage" where
  "wd_codepage D \<equiv> w_codepage (wd_win32 D)"

section \<open>Helpers\<close>

definition utf8_from_wide :: "codepage \<Rightarrow> wide \<Rightarrow> nat \<Rightarrow> string" where
  "utf8_from_wide U src cap = snd (wide_to_utf8 U src cap)"

definition copy_trimmed :: "string \<Rightarrow> nat \<Rightarrow> string" where
  "copy_trimmed src cap =
     (if cap = 0 then []
      else take (cap - 1) (rev (dropWhile (\<lambda>c. c \<le> CHR '' '') (rev (dropWhile (\<lambda>c. c \<le> CHR '' '') src)))))"

fun bus_type_from_storage :: "storage_bus_type \<Rightarrow> usbs_bus_type" where
  "bus_type_from_storage BusTypeUsb = USBS_BUS_USB"
| "bus_type_from_storage BusTypeSata = USBS_BUS_SATA"
| "bus_type_from_storage BusTypeNvme = USBS_BUS_NVME"
| "bus_type_from_storage BusTypeScsi = USBS_BUS_SCSI"
| "bus_type_from_storage BusTypeSd = USBS_BUS_SD"
| "bus_type_from_storage BusTypeMmc = USBS_BUS_SD"
| "bus_type_from_storage BusTypeUnknown = USBS_BUS_UNKNOWN"
| "bus_type_from_storage (BusTypeOther _) = USBS_BUS_OTHER"

definition open_device_zero_access :: "'s win32_devices \<Rightarrow> wide \<Rightarrow> 's \<Rightarrow> (win32_error + nat) \<times> 's" where
  "open_device_zero_access D path = w_create_file (wd_win32 D) ZERO_ACCESS path"

definition strip_trailing_slash :: "wide \<Rightarrow> wide" where
  "strip_trailing_slash path =
     (if path \<noteq> [] \<and> last path = wide_char CHR 0x5C then butlast path else path)"

section \<open>One volume\<close>

definition query_disk_number :: "'s win32_devices \<Rightarrow> nat \<Rightarrow> 's \<Rightarrow> usbs_u32 option \<times> 's" where
  "query_disk_number D volume s = wd_disk_number D volume s"

text \<open>A string of the descriptor: it starts at its offset and ends at the first NUL from there.\<close>

definition descriptor_field :: "storage_descriptor \<Rightarrow> nat \<Rightarrow> nat \<Rightarrow> string option" where
  "descriptor_field desc offset cap =
     (if offset \<noteq> 0 \<and> offset < sd_returned desc then Some (copy_trimmed (cstr (drop offset (sd_buffer desc))) cap)
      else None)"

definition query_storage_descriptor :: "'s win32_devices \<Rightarrow> nat \<Rightarrow> usbs_device \<Rightarrow> 's \<Rightarrow> usbs_device \<times> 's" where
  "query_storage_descriptor D volume d s =
     (case wd_storage_descriptor D volume 1024 s of
        (None, s1) \<Rightarrow> (d, s1)
      | (Some desc, s1) \<Rightarrow>
          if sd_returned desc < SIZEOF_STORAGE_DEVICE_DESCRIPTOR then (d, s1)
          else
            (let d1 = d\<lparr>bus_type := bus_type_from_storage (sd_bus_type desc), removable_media := sd_removable_media desc\<rparr>;
                 d2 = (case descriptor_field desc (sd_vendor_id_offset desc) 128 of None \<Rightarrow> d1 | Some t \<Rightarrow> d1\<lparr>vendor := t\<rparr>);
                 d3 = (case descriptor_field desc (sd_product_id_offset desc) 128 of None \<Rightarrow> d2 | Some t \<Rightarrow> d2\<lparr>product := t\<rparr>);
                 d4 = (case descriptor_field desc (sd_serial_number_offset desc) 128 of None \<Rightarrow> d3 | Some t \<Rightarrow> d3\<lparr>serial := t\<rparr>)
             in (d4, s1)))"

definition fill_volume_info :: "'s win32_devices \<Rightarrow> wide \<Rightarrow> usbs_device \<Rightarrow> 's \<Rightarrow> usbs_device \<times> 's" where
  "fill_volume_info D volume d s =
     (case wd_volume_information D volume 128 32 s of
        (None, s1) \<Rightarrow> (d\<lparr>media_present := False\<rparr>, s1)
      | (Some (lbl, fs), s1) \<Rightarrow>
          (let d1 = d\<lparr>media_present := True, label := utf8_from_wide (wd_codepage D) lbl 128,
                      filesystem := utf8_from_wide (wd_codepage D) fs 32\<rparr>
           in (case wd_disk_free_space D volume s1 of
                 (None, s2) \<Rightarrow> (d1, s2)
               | (Some (total_bytes, free), s2) \<Rightarrow> (d1\<lparr>capacity_bytes := total_bytes, free_bytes := free\<rparr>, s2))))"

text \<open>One name of the multi-string: without its last backslash, cut to the array, converted.\<close>

definition trimmed_mount_point :: "codepage \<Rightarrow> wide \<Rightarrow> string" where
  "trimmed_mount_point U name =
     utf8_from_wide U (take (USBS_MOUNT_POINT_MAX - 1) (strip_trailing_slash name)) USBS_MOUNT_POINT_MAX"

definition fill_mount_points :: "allocator \<Rightarrow> 's win32_devices \<Rightarrow> wide \<Rightarrow> usbs_device \<Rightarrow> 's \<Rightarrow> usbs_device \<times> 's" where
  "fill_mount_points mem D volume d s =
     (case wd_path_names D volume 0 s of
        (PATH_NAMES _, s1) \<Rightarrow> (d, s1)
      | (PATH_NAMES_FAILED e needed, s1) \<Rightarrow>
          if e \<noteq> ERROR_MORE_DATA \<or> needed = 0 then (d, s1)
          else if \<not> mem (needed * SIZEOF_WCHAR) then (d, s1)
          else
            (case wd_path_names D volume needed s1 of
               (PATH_NAMES_FAILED _ _, s2) \<Rightarrow> (d, s2)
             | (PATH_NAMES names, s2) \<Rightarrow>
                 (d\<lparr>mount_points := mount_points d @
                      map (trimmed_mount_point (wd_codepage D))
                        (take (USBS_MOUNT_POINTS_MAX - length (mount_points d)) names)\<rparr>, s2)))"

section \<open>USB ids\<close>

text \<open>\<open>wcsstr\<close>: what starts at the first occurrence.\<close>

fun wcsstr :: "wide \<Rightarrow> wide \<Rightarrow> wide option" where
  "wcsstr [] needle = (if needle = [] then Some [] else None)"
| "wcsstr (u # us) needle = (if prefix needle (u # us) then Some (u # us) else wcsstr us needle)"

text \<open>The four units behind the mark; a string that ends sooner ends the copy.\<close>

definition parse_vid_pid :: "codepage \<Rightarrow> wide \<Rightarrow> usbs_device \<Rightarrow> usbs_device option" where
  "parse_vid_pid U device_id d =
     (case (wcsstr device_id (wide_lit ''VID_''), wcsstr device_id (wide_lit ''PID_'')) of
        (Some vid, Some pid) \<Rightarrow>
          Some (d\<lparr>usb_vid := utf8_from_wide U (take 4 (drop 4 vid)) 5, usb_pid := utf8_from_wide U (take 4 (drop 4 pid)) 5\<rparr>)
      | _ \<Rightarrow> None)"

definition MAX_DEVICE_ID_LEN :: nat where "MAX_DEVICE_ID_LEN = 200"

fun walk_up_for_usb :: "nat \<Rightarrow> 's win32_devices \<Rightarrow> nat \<Rightarrow> usbs_device \<Rightarrow> 's \<Rightarrow> usbs_device \<times> 's" where
  "walk_up_for_usb 0 D current d s = (d, s)"
| "walk_up_for_usb (Suc depth) D current d s =
     (case wd_parent D current s of
        (None, s1) \<Rightarrow> (d, s1)
      | (Some parent, s1) \<Rightarrow>
          (case wd_device_id D parent MAX_DEVICE_ID_LEN s1 of
             (None, s2) \<Rightarrow> (d, s2)
           | (Some device_id, s2) \<Rightarrow>
               (case parse_vid_pid (wd_codepage D) device_id d of
                  Some d1 \<Rightarrow> (d1, s2)
                | None \<Rightarrow> walk_up_for_usb depth D parent d s2)))"

text \<open>The disk interfaces in order, until the one with the number is found or none is left.\<close>

definition interface_matches :: "'s win32_devices \<Rightarrow> usbs_u32 \<Rightarrow> wide \<Rightarrow> 's \<Rightarrow> bool \<times> 's" where
  "interface_matches D disk_number' path s =
     (case open_device_zero_access D path s of
        (Inl _, s1) \<Rightarrow> (False, s1)
      | (Inr disk, s1) \<Rightarrow>
          (case query_disk_number D disk s1 of
             (found, s2) \<Rightarrow> (found = Some disk_number', w_close_handle (wd_win32 D) disk s2)))"

fun lookup_loop ::
  "nat \<Rightarrow> allocator \<Rightarrow> 's win32_devices \<Rightarrow> nat \<Rightarrow> nat \<Rightarrow> usbs_u32 \<Rightarrow> usbs_device \<Rightarrow> 's \<Rightarrow> (usbs_device \<times> 's) option" where
  "lookup_loop 0 mem D set' index disk_number' d s = None"
| "lookup_loop (Suc fuel) mem D set' index disk_number' d s =
     (case wd_enum_interface D set' index s of
        (None, s1) \<Rightarrow> Some (d, s1)
      | (Some iface, s1) \<Rightarrow>
          (case wd_interface_detail_size D set' iface s1 of
             (needed, s2) \<Rightarrow>
               if needed = 0 then lookup_loop fuel mem D set' (Suc index) disk_number' d s2
               else if \<not> mem needed then Some (d, s2)
               else
                 (case wd_interface_detail D set' iface needed s2 of
                    (None, s3) \<Rightarrow> lookup_loop fuel mem D set' (Suc index) disk_number' d s3
                  | (Some (path, inst), s3) \<Rightarrow>
                      (case interface_matches D disk_number' path s3 of
                         (matched, s4) \<Rightarrow>
                           if matched then Some (walk_up_for_usb 8 D inst d s4)
                           else lookup_loop fuel mem D set' (Suc index) disk_number' d s4))))"

definition lookup_usb_ids ::
  "nat \<Rightarrow> allocator \<Rightarrow> 's win32_devices \<Rightarrow> usbs_u32 \<Rightarrow> usbs_device \<Rightarrow> 's \<Rightarrow> (usbs_device \<times> 's) option" where
  "lookup_usb_ids fuel mem D disk_number' d s =
     (case wd_class_devices D s of
        (None, s1) \<Rightarrow> Some (d, s1)
      | (Some set', s1) \<Rightarrow>
          map_option (\<lambda>(d1, s2). (d1, wd_destroy_list D set' s2)) (lookup_loop fuel mem D set' 0 disk_number' d s1))"

section \<open>Mapped network drives\<close>

definition drive_letters :: string where "drive_letters = ''ABCDEFGHIJKLMNOPQRSTUVWXYZ''"

text \<open>
  \<open>swprintf_s\<close> is taken to return a negative number when the share's path does not fit, as the
  code expects of it.
\<close>

definition unc_volume :: "wide \<Rightarrow> wide option" where
  "unc_volume remote =
     (let t = wide_lit [CHR 0x5C, CHR 0x5C, CHR ''?'', CHR 0x5C, CHR ''U'', CHR ''N'', CHR ''C'', CHR 0x5C] @
              drop 2 (strip_trailing_slash remote) @ [wide_char CHR 0x5C]
      in if length t < USBS_VOLUME_PATH_MAX then Some t else None)"

definition network_drive :: "'s win32_devices \<Rightarrow> char \<Rightarrow> 's \<Rightarrow> usbs_device option \<times> 's" where
  "network_drive D letter s =
     (let root = wide_lit [letter, CHR '':'', CHR 0x5C]; local_name = wide_lit [letter, CHR '':'']
      in (case wd_drive_is_remote D root s of
            (remote_drive, s1) \<Rightarrow>
              if \<not> remote_drive then (None, s1)
              else
                (case wd_connection D local_name USBS_VOLUME_PATH_MAX s1 of
                   (None, s2) \<Rightarrow> (None, s2)
                 | (Some remote, s2) \<Rightarrow>
                     if \<not> prefix (wide_lit [CHR 0x5C, CHR 0x5C]) remote then (None, s2)
                     else
                       (case unc_volume remote of
                          None \<Rightarrow> (None, s2)
                        | Some unc \<Rightarrow>
                            (case fill_volume_info D root
                                    (usbs_device_init\<lparr>bus_type := USBS_BUS_NETWORK,
                                       volume_path := utf8_from_wide (wd_codepage D) unc USBS_VOLUME_PATH_MAX,
                                       mount_points := [utf8_from_wide (wd_codepage D) local_name USBS_MOUNT_POINT_MAX]\<rparr>) s2 of
                               (d, s3) \<Rightarrow> (Some d, s3))))))"

fun network_loop ::
  "allocator \<Rightarrow> 's win32_devices \<Rightarrow> usbs_u32 \<Rightarrow> string \<Rightarrow> usbs_device_list \<Rightarrow> 's \<Rightarrow> usbs_status \<times> usbs_device_list \<times> 's" where
  "network_loop mem D drives [] l s = (USBS_OK, l, s)"
| "network_loop mem D drives (letter # letters) l s =
     (if \<not> bit drives (of_char letter - of_char CHR ''A'') then network_loop mem D drives letters l s
      else
        (case network_drive D letter s of
           (None, s1) \<Rightarrow> network_loop mem D drives letters l s1
         | (Some d, s1) \<Rightarrow>
             (case usbs_device_list_push mem l d of
                (st, l1) \<Rightarrow> if \<not> usbs_ok st then (st, l1, s1) else network_loop mem D drives letters l1 s1)))"

definition enumerate_network_drives ::
  "allocator \<Rightarrow> 's win32_devices \<Rightarrow> usbs_device_list \<Rightarrow> 's \<Rightarrow> usbs_status \<times> usbs_device_list \<times> 's" where
  "enumerate_network_drives mem D l s =
     (case wd_logical_drives D s of (drives, s1) \<Rightarrow> network_loop mem D drives drive_letters l s1)"

section \<open>Enumeration\<close>

definition SEM_FAILCRITICALERRORS :: nat where "SEM_FAILCRITICALERRORS = 1"

definition volume_device ::
  "nat \<Rightarrow> allocator \<Rightarrow> 's win32_devices \<Rightarrow> wide \<Rightarrow> 's \<Rightarrow> (usbs_device \<times> 's) option" where
  "volume_device fuel mem D volume s =
     (let d0 = usbs_device_init\<lparr>volume_path := utf8_from_wide (wd_codepage D) volume USBS_VOLUME_PATH_MAX\<rparr>
      in (case fill_volume_info D volume d0 s of
            (d1, s1) \<Rightarrow>
              (case fill_mount_points mem D volume d1 s1 of
                 (d2, s2) \<Rightarrow>
                   (case (case open_device_zero_access D (strip_trailing_slash volume) s2 of
                            (Inl _, s3) \<Rightarrow> (d2, s3)
                          | (Inr handle, s3) \<Rightarrow>
                              (case query_disk_number D handle s3 of
                                 (n, s4) \<Rightarrow>
                                   (case query_storage_descriptor D handle
                                           (case n of None \<Rightarrow> d2 | Some k \<Rightarrow> d2\<lparr>disk_number := k, has_disk_number := True\<rparr>) s4 of
                                      (d3, s5) \<Rightarrow> (d3, w_close_handle (wd_win32 D) handle s5)))) of
                      (d4, s6) \<Rightarrow>
                        if bus_type d4 = USBS_BUS_USB \<and> has_disk_number d4
                        then lookup_usb_ids fuel mem D (disk_number d4) d4 s6
                        else Some (d4, s6)))))"

text \<open>The volumes, one per unit of fuel; the handle is closed however the loop is left.\<close>

fun volume_loop ::
  "nat \<Rightarrow> allocator \<Rightarrow> 's win32_devices \<Rightarrow> nat \<Rightarrow> wide \<Rightarrow> usbs_device_list \<Rightarrow> 's \<Rightarrow>
     (usbs_status \<times> usbs_device_list \<times> 's) option" where
  "volume_loop 0 mem D find' volume l s = None"
| "volume_loop (Suc fuel) mem D find' volume l s =
     (case volume_device fuel mem D volume s of
        None \<Rightarrow> None
      | Some (d, s1) \<Rightarrow>
          (case usbs_device_list_push mem l d of
             (st, l1) \<Rightarrow>
               if \<not> usbs_ok st then Some (st, l1, wd_find_volume_close D find' s1)
               else
                 (case wd_find_next_volume D find' USBS_VOLUME_PATH_MAX s1 of
                    (None, s2) \<Rightarrow> Some (USBS_OK, l1, wd_find_volume_close D find' s2)
                  | (Some next_volume, s2) \<Rightarrow> volume_loop fuel mem D find' next_volume l1 s2)))"

definition restore_error_mode :: "'s win32_devices \<Rightarrow> nat option \<Rightarrow> 's \<Rightarrow> 's" where
  "restore_error_mode D previous s = (case previous of None \<Rightarrow> s | Some mode \<Rightarrow> snd (wd_set_error_mode D mode s))"

definition win32_enumerate ::
  "nat \<Rightarrow> allocator \<Rightarrow> 's win32_devices \<Rightarrow> usbs_enum_mode \<Rightarrow> 's \<Rightarrow> usbs_device_list \<Rightarrow>
     (usbs_status \<times> usbs_device_list \<times> 's) option" where
  "win32_enumerate fuel mem D mode s l =
     (case wd_set_error_mode D SEM_FAILCRITICALERRORS s of
        (previous, s1) \<Rightarrow>
          (case wd_find_first_volume D USBS_VOLUME_PATH_MAX s1 of
             (Inl e, s2) \<Rightarrow> Some (status_from_win32 e, l, restore_error_mode D previous s2)
           | (Inr (find', volume), s2) \<Rightarrow>
               (case volume_loop fuel mem D find' volume l s2 of
                  None \<Rightarrow> None
                | Some (st, l1, s3) \<Rightarrow>
                    if \<not> usbs_ok st then Some (st, l1, restore_error_mode D previous s3)
                    else if mode = USBS_ENUM_ALL_VOLUMES then
                      (case enumerate_network_drives mem D l1 s3 of
                         (st2, l2, s4) \<Rightarrow> Some (if usbs_ok st2 then USBS_OK else st2, l2, restore_error_mode D previous s4))
                    else Some (USBS_OK, l1, restore_error_mode D previous s3))))"

text \<open>The source in the form the callers use.\<close>

definition win32_device_source_ex ::
  "nat \<Rightarrow> allocator \<Rightarrow> 's win32_devices \<Rightarrow> usbs_enum_mode \<Rightarrow>
     ('s \<Rightarrow> usbs_device_list \<Rightarrow> usbs_status \<times> usbs_device_list \<times> 's) option" where
  "win32_device_source_ex fuel mem D mode =
     Some (\<lambda>s l. case win32_enumerate fuel mem D mode s l of None \<Rightarrow> (USBS_ERR_INTERNAL, l, s) | Some r \<Rightarrow> r)"

definition win32_device_source ::
  "nat \<Rightarrow> allocator \<Rightarrow> 's win32_devices \<Rightarrow> ('s \<Rightarrow> usbs_device_list \<Rightarrow> usbs_status \<times> usbs_device_list \<times> 's) option" where
  "win32_device_source fuel mem D = win32_device_source_ex fuel mem D USBS_ENUM_USB_ONLY"

section \<open>Capabilities\<close>

definition can_open_for_read :: "'s win32 \<Rightarrow> wide \<Rightarrow> 's \<Rightarrow> bool \<times> 's" where
  "can_open_for_read W path s =
     (case w_create_file W READ_PROBE path s of
        (Inl _, s1) \<Rightarrow> (False, s1)
      | (Inr h, s1) \<Rightarrow> (True, w_close_handle W h s1))"

definition physical_drive :: "usbs_u32 \<Rightarrow> wide" where
  "physical_drive n =
     wide_lit ([CHR 0x5C, CHR 0x5C, CHR ''.'', CHR 0x5C] @ ''PhysicalDrive'' @ dec_of_nat (unat n))"

definition win32_probe_capabilities :: "'s win32 \<Rightarrow> usbs_device \<Rightarrow> 's \<Rightarrow> usbs_status \<times> usbs_capabilities \<times> 's" where
  "win32_probe_capabilities W d s =
     (let none = \<lparr>can_read_raw_volume = False, can_read_physical_disk = False\<rparr>
      in if bus_type d = USBS_BUS_NETWORK then (USBS_OK, none, s)
         else
           (case (case utf8_to_wide (w_codepage W) (volume_path d) 64 of
                    None \<Rightarrow> (False, s)
                  | Some path \<Rightarrow> can_open_for_read W (strip_trailing_slash path) s) of
              (raw, s1) \<Rightarrow>
                (case (if has_disk_number d then can_open_for_read W (physical_drive (disk_number d)) s1 else (False, s1)) of
                   (phys, s2) \<Rightarrow> (USBS_OK, \<lparr>can_read_raw_volume = raw, can_read_physical_disk = phys\<rparr>, s2))))"

section \<open>Cancellation\<close>

datatype control_event = CTRL_C_EVENT | CTRL_BREAK_EVENT | CTRL_CLOSE_EVENT | CTRL_OTHER_EVENT

text \<open>Whether the event was handled, and the flag after it: nothing clears it.\<close>

definition console_control_handler :: "control_event \<Rightarrow> bool \<Rightarrow> bool \<times> bool" where
  "console_control_handler event g_cancel_requested' =
     (if event = CTRL_OTHER_EVENT then (False, g_cancel_requested') else (True, True))"

definition win32_install_cancel_handler :: "'s win32_devices \<Rightarrow> 's \<Rightarrow> usbs_status \<times> 's" where
  "win32_install_cancel_handler D s =
     (case wd_set_ctrl_handler D s of
        (Some e, s1) \<Rightarrow> (status_from_win32 e, s1)
      | (None, s1) \<Rightarrow> (USBS_OK, s1))"

definition win32_cancel_requested :: "bool \<Rightarrow> bool" where
  "win32_cancel_requested g_cancel_requested' = g_cancel_requested'"

end
