(* ===== verification/Win32Facts.thy ===== *)
theory Win32Facts
  imports DeviceWin32
begin

text \<open>
  What Windows enumeration promises of the devices it lists, whatever the system answers, and where
  the descriptor of a device is read beyond its buffer.
\<close>

section \<open>Well-formed devices\<close>

text \<open>
  What is kept while a volume's device is filled: its fields fit their arrays, it is not taken for a
  share, and ids come only with the USB bus and a disk number.
\<close>

definition volume_wf :: "usbs_device \<Rightarrow> bool" where
  "volume_wf d \<longleftrightarrow> device_wf d \<and> bus_type d \<noteq> USBS_BUS_NETWORK \<and>
     (usb_vid d \<noteq> [] \<or> usb_pid d \<noteq> [] \<longrightarrow> bus_type d = USBS_BUS_USB \<and> has_disk_number d)"

definition share_wf :: "usbs_device \<Rightarrow> bool" where
  "share_wf d \<longleftrightarrow> device_wf d \<and> bus_type d = USBS_BUS_NETWORK \<and> length (mount_points d) = 1 \<and>
     usb_vid d = [] \<and> usb_pid d = [] \<and> vendor d = [] \<and> product d = [] \<and> serial d = [] \<and> \<not> has_disk_number d"

lemma utf8_from_wide_bound: "0 < cap \<Longrightarrow> length (utf8_from_wide U w cap) < cap"
  by (simp add: utf8_from_wide_def wide_to_utf8_bound)

lemma copy_trimmed_bound: "0 < cap \<Longrightarrow> length (copy_trimmed s cap) < cap"
  by (simp add: copy_trimmed_def)

lemma descriptor_field_bound: "descriptor_field desc off cap = Some t \<Longrightarrow> 0 < cap \<Longrightarrow> length t < cap"
  by (auto simp: descriptor_field_def copy_trimmed_bound split: if_splits)

lemma bus_type_from_storage_local: "bus_type_from_storage b \<noteq> USBS_BUS_NETWORK"
  by (cases b) simp_all

lemma fill_volume_info_keeps:
  assumes "fill_volume_info D volume d s = (d', s')" and "device_wf d"
  shows "device_wf d' \<and> volume_path d' = volume_path d \<and> mount_points d' = mount_points d \<and> bus_type d' = bus_type d \<and>
    usb_vid d' = usb_vid d \<and> usb_pid d' = usb_pid d \<and> vendor d' = vendor d \<and> product d' = product d \<and>
    serial d' = serial d \<and> has_disk_number d' = has_disk_number d"
  using assms utf8_from_wide_bound [of 128 "wd_codepage D"] utf8_from_wide_bound [of 32 "wd_codepage D"]
  by (auto simp: fill_volume_info_def device_wf_def Let_def split: prod.splits option.splits)

lemma fill_mount_points_wf:
  assumes "fill_mount_points mem D volume d s = (d', s')" and "volume_wf d" and "mount_points d = []"
  shows "volume_wf d'"
  using assms
  by (auto simp: fill_mount_points_def volume_wf_def device_wf_def USBS_MOUNT_POINTS_MAX_def split: prod.splits path_names.splits if_splits)

lemma query_descriptor_wf:
  assumes "query_storage_descriptor D h d s = (d', s')" and "volume_wf d" and "usb_vid d = []" and "usb_pid d = []"
  shows "volume_wf d'"
proof -
  have b: "length t < 128" if "descriptor_field desc off 128 = Some t" for desc off t
    using descriptor_field_bound [OF that] by simp
  from assms show ?thesis
    by (auto simp: query_storage_descriptor_def volume_wf_def device_wf_def Let_def bus_type_from_storage_local
        split: prod.splits option.splits if_splits dest!: b)
qed

lemma parse_vid_pid_wf:
  "parse_vid_pid U i d = Some d' \<Longrightarrow> volume_wf d \<Longrightarrow> bus_type d = USBS_BUS_USB \<Longrightarrow> has_disk_number d \<Longrightarrow> volume_wf d'"
  using utf8_from_wide_bound [of 5 U]
  by (auto simp: parse_vid_pid_def volume_wf_def device_wf_def split: option.splits)

lemma walk_up_wf:
  "walk_up_for_usb n D cur d s = (d', s') \<Longrightarrow> volume_wf d \<Longrightarrow> bus_type d = USBS_BUS_USB \<Longrightarrow> has_disk_number d \<Longrightarrow> volume_wf d'"
  by (induction n arbitrary: cur s) (auto split: prod.splits option.splits dest: parse_vid_pid_wf)

lemma lookup_loop_wf:
  "lookup_loop fuel mem D st i n d s = Some (d', s') \<Longrightarrow> volume_wf d \<Longrightarrow> bus_type d = USBS_BUS_USB \<Longrightarrow> has_disk_number d \<Longrightarrow>
     volume_wf d'"
  by (induction fuel arbitrary: i s)
    (auto simp del: walk_up_for_usb.simps split: prod.splits option.splits if_splits dest: walk_up_wf)

lemma volume_device_wf:
  assumes "volume_device fuel mem D volume s = Some (d, s')"
  shows "volume_wf d"
proof -
  let ?d0 = "usbs_device_init\<lparr>volume_path := utf8_from_wide (wd_codepage D) volume USBS_VOLUME_PATH_MAX\<rparr>"
  obtain d1 s1 where d1: "fill_volume_info D volume ?d0 s = (d1, s1)" by fastforce
  obtain d2 s2 where d2: "fill_mount_points mem D volume d1 s1 = (d2, s2)" by fastforce
  have "device_wf ?d0"
    using utf8_from_wide_bound [of USBS_VOLUME_PATH_MAX "wd_codepage D" volume]
    by (simp add: device_wf_def usbs_device_init_def USBS_VOLUME_PATH_MAX_def)
  from fill_volume_info_keeps [OF d1 this]
  have w1: "volume_wf d1" "mount_points d1 = []" "usb_vid d1 = []" "usb_pid d1 = []"
    by (simp_all add: volume_wf_def usbs_device_init_def)
  have w2: "volume_wf d2" using fill_mount_points_wf [OF d2 w1(1,2)] .
  have ids: "usb_vid d2 = []" "usb_pid d2 = []"
    using d2 w1(3,4) by (auto simp: fill_mount_points_def split: prod.splits path_names.splits if_splits)
  have named: "volume_wf (case n of None \<Rightarrow> d2 | Some k \<Rightarrow> d2\<lparr>disk_number := k, has_disk_number := True\<rparr>)" for n
    using w2 by (auto simp: volume_wf_def device_wf_def split: option.split)
  define opened where "opened = (case open_device_zero_access D (strip_trailing_slash volume) s2 of
      (Inl _, s3) \<Rightarrow> (d2, s3)
    | (Inr handle, s3) \<Rightarrow>
        (case query_disk_number D handle s3 of
           (n, s4) \<Rightarrow>
             (case query_storage_descriptor D handle
                     (case n of None \<Rightarrow> d2 | Some k \<Rightarrow> d2\<lparr>disk_number := k, has_disk_number := True\<rparr>) s4 of
                (d3, s5) \<Rightarrow> (d3, w_close_handle (wd_win32 D) handle s5))))"
  obtain d4 s6 where d4: "opened = (d4, s6)" by fastforce
  have w4: "volume_wf d4"
  proof -
    have "volume_wf d3" if "query_storage_descriptor D h (case n of None \<Rightarrow> d2 | Some k \<Rightarrow> d2\<lparr>disk_number := k, has_disk_number := True\<rparr>) s4 = (d3, s5)"
      for h n s4 d3 s5
      using query_descriptor_wf [OF that named] ids by (cases n) simp_all
    with d4 w2 show ?thesis unfolding opened_def by (auto split: prod.splits sum.splits)
  qed
  have "(if bus_type d4 = USBS_BUS_USB \<and> has_disk_number d4 then lookup_usb_ids fuel mem D (disk_number d4) d4 s6
      else Some (d4, s6)) = Some (d, s')"
    using assms unfolding volume_device_def Let_def d1 d2 prod.case opened_def [symmetric] d4 .
  with w4 show ?thesis
    by (auto simp: lookup_usb_ids_def split: if_splits option.splits prod.splits dest: lookup_loop_wf)
qed

lemma push_wf:
  assumes "usbs_device_list_push mem l d = (st, l')" and "Q d" and "\<forall>x \<in> set (v_items l). Q x"
  shows "\<forall>x \<in> set (v_items l'). Q x"
proof (cases "st = USBS_OK")
  case True
  with assms device_list.push_ok [of mem l d l'] show ?thesis by auto
next
  case False
  with assms device_list.push_error [of mem l d st l'] show ?thesis by auto
qed

lemma volume_loop_wf:
  "volume_loop fuel mem D h volume l s = Some (st, l', s') \<Longrightarrow> \<forall>x \<in> set (v_items l). volume_wf x \<Longrightarrow>
     \<forall>x \<in> set (v_items l'). volume_wf x"
proof (induction fuel arbitrary: volume l s)
  case (Suc fuel)
  from Suc.prems(1) obtain d s1 where d: "volume_device fuel mem D volume s = Some (d, s1)"
    by (auto split: option.splits)
  obtain st1 l1 where p: "usbs_device_list_push mem l d = (st1, l1)" by fastforce
  have l1: "\<forall>x \<in> set (v_items l1). volume_wf x" using push_wf [OF p volume_device_wf [OF d] Suc.prems(2)] .
  from Suc.prems(1) d p l1 show ?case by (auto split: if_splits prod.splits option.splits dest: Suc.IH)
qed simp

definition share_init :: "codepage \<Rightarrow> wide \<Rightarrow> wide \<Rightarrow> usbs_device" where
  "share_init U unc local_name = usbs_device_init\<lparr>bus_type := USBS_BUS_NETWORK,
     volume_path := utf8_from_wide U unc USBS_VOLUME_PATH_MAX,
     mount_points := [utf8_from_wide U local_name USBS_MOUNT_POINT_MAX]\<rparr>"

lemma share_init_wf: "share_wf (share_init U unc local_name)"
  using utf8_from_wide_bound [of USBS_VOLUME_PATH_MAX U unc]
  by (simp add: share_init_def share_wf_def device_wf_def usbs_device_init_def USBS_VOLUME_PATH_MAX_def)

lemma network_drive_wf:
  assumes "network_drive D letter s = (Some d, s')"
  shows "share_wf d"
proof -
  obtain root unc loc s2 where "fill_volume_info D root (share_init (wd_codepage D) unc loc) s2 = (d, s')"
    using assms unfolding network_drive_def Let_def share_init_def [symmetric]
    by (auto split: prod.splits if_splits option.splits)
  from fill_volume_info_keeps [OF this] share_init_wf [of "wd_codepage D" unc loc] show ?thesis
    by (simp add: share_wf_def)
qed

lemma network_loop_wf:
  "network_loop mem D drives letters l s = (st, l', s') \<Longrightarrow> \<forall>x \<in> set (v_items l). volume_wf x \<or> share_wf x \<Longrightarrow>
     \<forall>x \<in> set (v_items l'). volume_wf x \<or> share_wf x"
proof (induction letters arbitrary: l s)
  case (Cons c cs)
  show ?case
  proof (cases "bit drives (of_char c - of_char CHR ''A'')")
    case False
    with Cons show ?thesis by simp
  next
    case True
    obtain o1 s1 where o1: "network_drive D c s = (o1, s1)" by fastforce
    show ?thesis
    proof (cases o1)
      case None
      with True o1 Cons show ?thesis by simp
    next
      case (Some d)
      obtain st1 l1 where p: "usbs_device_list_push mem l d = (st1, l1)" by fastforce
      have l1: "\<forall>x \<in> set (v_items l1). volume_wf x \<or> share_wf x"
        using push_wf [OF p, of "\<lambda>x. volume_wf x \<or> share_wf x"] network_drive_wf [OF o1 [unfolded Some]] Cons.prems(2) by blast
      show ?thesis
      proof (cases "usbs_ok st1")
        case True
        with Cons.prems(1) \<open>bit drives _\<close> o1 Some p have "network_loop mem D drives cs l1 s1 = (st, l', s')" by simp
        then show ?thesis using l1 by (rule Cons.IH)
      next
        case False
        with Cons.prems(1) \<open>bit drives _\<close> o1 Some p l1 show ?thesis by simp
      qed
    qed
  qed
qed simp

lemma enumerate_wf:
  assumes "win32_enumerate fuel mem D mode s l0 = Some (st, l, s')" and "v_items l0 = []"
  shows "\<forall>x \<in> set (v_items l). volume_wf x \<or> mode = USBS_ENUM_ALL_VOLUMES \<and> share_wf x"
proof -
  obtain previous s1 where m: "wd_set_error_mode D SEM_FAILCRITICALERRORS s = (previous, s1)" by fastforce
  obtain f s2 where f: "wd_find_first_volume D USBS_VOLUME_PATH_MAX s1 = (f, s2)" by fastforce
  show ?thesis
  proof (cases f)
    case (Inl e)
    with assms m f show ?thesis by (simp add: win32_enumerate_def)
  next
    case (Inr hv)
    obtain h volume where hv: "hv = (h, volume)" by (cases hv)
    obtain st1 l1 s3 where loop: "volume_loop fuel mem D h volume l0 s2 = Some (st1, l1, s3)"
      using assms(1) m f Inr hv by (auto simp: win32_enumerate_def split: option.splits)
    have l1: "\<forall>x \<in> set (v_items l1). volume_wf x" using volume_loop_wf [OF loop] assms(2) by simp
    show ?thesis
    proof (cases "usbs_ok st1 \<and> mode = USBS_ENUM_ALL_VOLUMES")
      case True
      obtain st2 l2 s4 where net: "enumerate_network_drives mem D l1 s3 = (st2, l2, s4)" by (metis prod_cases3)
      then have "\<forall>x \<in> set (v_items l2). volume_wf x \<or> share_wf x"
        using l1 by (auto simp: enumerate_network_drives_def split: prod.splits dest!: network_loop_wf)
      with True assms(1) m f Inr hv loop net show ?thesis by (simp add: win32_enumerate_def)
    next
      case False
      with assms(1) m f Inr hv loop l1 show ?thesis by (auto simp: win32_enumerate_def split: if_splits)
    qed
  qed
qed

text \<open>
  C13 Every device Windows enumeration lists is well formed: whatever the volume, storage, SetupAPI and
  network calls answer, each field fits its array, so the identity is never cut; a device has a USB
  vendor or product id only when its bus is USB and its disk number is known; and a share appears
  only when all volumes were asked for, under one drive letter, with no hardware of its own.
\<close>

theorem win32_devices_are_well_formed:
  assumes "usbs_device_enumerate (win32_device_source_ex fuel mem D mode) s = (st, l, s')" and "d \<in> set (v_items l)"
  shows "device_wf d \<and> usbs_device_identity d USBS_IDENTITY_MAX = (USBS_OK, identity_text d) \<and>
    (usb_vid d \<noteq> [] \<or> usb_pid d \<noteq> [] \<longrightarrow> bus_type d = USBS_BUS_USB \<and> has_disk_number d) \<and>
    (bus_type d = USBS_BUS_NETWORK \<longrightarrow> mode = USBS_ENUM_ALL_VOLUMES \<and> length (mount_points d) = 1 \<and> \<not> has_disk_number d)"
proof -
  have "volume_wf d \<or> mode = USBS_ENUM_ALL_VOLUMES \<and> share_wf d"
  proof (cases "win32_enumerate fuel mem D mode s vec_init")
    case None
    with assms show ?thesis
      by (auto simp: usbs_device_enumerate_def win32_device_source_ex_def vec_init_def split: if_splits)
  next
    case (Some r)
    obtain st1 l1 s1 where r: "r = (st1, l1, s1)" by (cases r)
    have "l = l1 \<or> l = vec_init"
      using assms(1) Some r by (auto simp: usbs_device_enumerate_def win32_device_source_ex_def split: if_splits)
    with enumerate_wf [OF Some [unfolded r]] assms(2) show ?thesis by (auto simp: vec_init_def)
  qed
  then show ?thesis by (auto simp: volume_wf_def share_wf_def identity_fits)
qed

section \<open>A stick and a share\<close>

definition idle_win32 :: "unit win32" where
  "idle_win32 =
     \<lparr>w_codepage = ascii_codepage, w_find_first = (\<lambda>_ s. (Inl ERROR_FILE_NOT_FOUND, s)),
      w_find_next = (\<lambda>_ s. (Inl ERROR_NO_MORE_FILES, s)), w_find_close = (\<lambda>_ s. s),
      w_create_file = (\<lambda>_ _ s. (Inr 1, s)), w_read_file = (\<lambda>_ _ s. (Inr [], s)),
      w_write_file = (\<lambda>_ d s. ((True, length d, ERROR_SUCCESS), s)), w_flush = (\<lambda>_ s. (None, s)), w_close_handle = (\<lambda>_ s. s),
      w_create_directory = (\<lambda>_ s. (None, s)), w_move_file = (\<lambda>_ _ s. (None, s)), w_delete_file = (\<lambda>_ s. (None, s))\<rparr>"

definition stick_descriptor :: storage_descriptor where
  "stick_descriptor =
     \<lparr>sd_bus_type = BusTypeUsb, sd_removable_media = True, sd_vendor_id_offset = 0, sd_product_id_offset = 0,
      sd_serial_number_offset = 40, sd_buffer = replicate 40 CHR 0x00 @ '' A1'' @ [CHR 0x00], sd_returned = 44\<rparr>"

definition desk_devices :: "unit win32_devices" where
  "desk_devices =
     \<lparr>wd_win32 = idle_win32, wd_set_error_mode = (\<lambda>_. Pair (Some 0)),
      wd_find_first_volume = (\<lambda>_. Pair (Inr (2, wide_lit [CHR 0x5C, CHR 0x5C, CHR ''?'', CHR 0x5C, CHR ''V'', CHR 0x5C]))),
      wd_find_next_volume = (\<lambda>_ _. Pair None), wd_find_volume_close = (\<lambda>_ s. s),
      wd_volume_information = (\<lambda>_ _ _. Pair (Some (wide_lit ''STICK'', wide_lit ''FAT32''))),
      wd_disk_free_space = (\<lambda>_. Pair None), wd_path_names = (\<lambda>_ n. Pair (if n = 0 then PATH_NAMES_FAILED ERROR_MORE_DATA 5
        else PATH_NAMES [wide_lit [CHR ''E'', CHR '':'', CHR 0x5C]])),
      wd_disk_number = (\<lambda>_. Pair (Some 1)), wd_storage_descriptor = (\<lambda>_ _. Pair (Some stick_descriptor)),
      wd_class_devices = Pair (Some 3), wd_enum_interface = (\<lambda>_ n. Pair (if n = 0 then Some 0 else None)),
      wd_interface_detail_size = (\<lambda>_ _. Pair 64), wd_interface_detail = (\<lambda>_ _ _. Pair (Some (wide_lit ''d'', 9))),
      wd_destroy_list = (\<lambda>_ s. s), wd_parent = (\<lambda>n. Pair (Some (Suc n))),
      wd_device_id = (\<lambda>n _. Pair (Some (wide_lit (if n = 11 then ''USB-VID_0781&PID_5583'' else ''USBSTOR'')))),
      wd_logical_drives = Pair 0x2000000, wd_drive_is_remote = (\<lambda>_. Pair True),
      wd_connection = (\<lambda>_ _. Pair (Some (wide_lit [CHR 0x5C, CHR 0x5C, CHR ''s'', CHR 0x5C, CHR ''f'']))),
      wd_set_ctrl_handler = Pair None\<rparr>"

definition desk_list :: "usbs_device list" where
  "desk_list = v_items (fst (snd
     (usbs_device_enumerate (win32_device_source_ex 3 mem_always desk_devices USBS_ENUM_USB_ONLY) ())))"

lemma desk_list_seen: "map (\<lambda>d. (identity_text d, mount_points d)) desk_list = [(''usb:0781-5583:A1'', [''E:''])]"
  by code_simp

lemma win32_devices_are_well_formed_witness:
  "usbs_device_identity (hd desk_list) USBS_IDENTITY_MAX = (USBS_OK, ''usb:0781-5583:A1'')"
proof -
  let ?e = "usbs_device_enumerate (win32_device_source_ex 3 mem_always desk_devices USBS_ENUM_USB_ONLY) ()"
  obtain st l w where e: "?e = (st, l, w)" by (metis prod_cases3)
  obtain d where d: "desk_list = [d]" "identity_text d = ''usb:0781-5583:A1''"
    using desk_list_seen unfolding map_eq_Cons_conv by auto
  have "v_items l = desk_list" by (simp add: desk_list_def e)
  also note d(1)
  finally have "d \<in> set (v_items l)" by simp
  from win32_devices_are_well_formed [OF e this] d(2) show ?thesis unfolding d(1) by simp
qed

text \<open>
  The strings of the descriptor are read up to a NUL, not up to what the system returned: with a
  descriptor that fills the buffer, bytes of the stack behind it become part of the serial number,
  and so of the identity under which the device's reports are kept.
\<close>

lemma descriptor_is_read_past_its_buffer:
  assumes "sd_buffer desc = buffer @ behind" and "length buffer = 1024" and "sd_returned desc = 1024"
    and "drop 1022 buffer = ''A1''" and "behind = ''??'' @ [CHR 0x00]"
  shows "descriptor_field desc 1022 128 = Some ''A1??''"
  using assms by (simp add: descriptor_field_def copy_trimmed_def cstr_def less_eq_char_def)

end
