(* ===== verification/Win32Store.thy ===== *)
theory Win32Store
  imports DeviceWin32 StoreWrite ReadOnly
begin

text \<open>
  The Windows file layer as an implementation of the platform boundary. \<open>win32_files\<close> states what
  the layer relies on of the system, over wide paths; from it come the store's atomic report write
  and the read-only scan, for every way calls stop short or fail. A concrete system with a script
  of such events interprets the interface. Paths that convert to one wide string are one file, so
  the store is read through the conversion, which need not be injective.
\<close>

section \<open>The platform made of Win32 calls\<close>

text \<open>The process: the system, and the iterators that \<open>dir_open\<close> has allocated.\<close>

record 's win32_process =
  wp_system :: 's
  wp_iters :: "nat \<Rightarrow> win32_iter option"
  wp_next :: nat

definition on_system :: "('s \<Rightarrow> 'a \<times> 's) \<Rightarrow> 's win32_process \<Rightarrow> 'a \<times> 's win32_process" where
  "on_system f q = (case f (wp_system q) of (r, s) \<Rightarrow> (r, q\<lparr>wp_system := s\<rparr>))"

definition open_iter :: "allocator \<Rightarrow> 's win32 \<Rightarrow> string \<Rightarrow> 's win32_process \<Rightarrow> (usbs_status + nat) \<times> 's win32_process" where
  "open_iter mem W path q =
     (case on_system (win32_dir_open mem W path) q of
        (Inl st, q1) \<Rightarrow> (Inl st, q1)
      | (Inr it, q1) \<Rightarrow> (Inr (wp_next q1), q1\<lparr>wp_iters := (wp_iters q1)(wp_next q1 \<mapsto> it), wp_next := Suc (wp_next q1)\<rparr>))"

text \<open>A listing longer than the budget gives up with an internal error.\<close>

definition next_entry :: "('s \<Rightarrow> nat) \<Rightarrow> 's win32 \<Rightarrow> nat \<Rightarrow> 's win32_process \<Rightarrow> (usbs_status + usbs_dir_entry) \<times> 's win32_process" where
  "next_entry budget W i q =
     (case wp_iters q i of
        None \<Rightarrow> (Inl USBS_ERR_INVALID_ARG, q)
      | Some it \<Rightarrow>
          (case win32_dir_next (budget (wp_system q)) W it (wp_system q) of
             None \<Rightarrow> (Inl USBS_ERR_INTERNAL, q)
           | Some (r, it1, s1) \<Rightarrow> (r, q\<lparr>wp_system := s1, wp_iters := (wp_iters q)(i \<mapsto> it1)\<rparr>)))"

definition close_iter :: "'s win32 \<Rightarrow> nat \<Rightarrow> 's win32_process \<Rightarrow> 's win32_process" where
  "close_iter W i q =
     (case wp_iters q i of
        None \<Rightarrow> q
      | Some it \<Rightarrow> q\<lparr>wp_system := win32_dir_close W it (wp_system q), wp_iters := (wp_iters q)(i := None)\<rparr>)"

definition win32_platform :: "('s \<Rightarrow> nat) \<Rightarrow> environment \<Rightarrow> allocator \<Rightarrow> 's win32 \<Rightarrow> 's win32_process platform" where
  "win32_platform budget env mem W =
     \<lparr>p_host = Windows, p_env = env, p_mem = mem,
      dir_open = open_iter mem W,
      dir_next = next_entry budget W,
      dir_close = close_iter W,
      file_open_read = (\<lambda>p. on_system (win32_file_open_read mem W p)),
      file_read = (\<lambda>h n. on_system (win32_file_read W h n)),
      file_close = (\<lambda>h q. q\<lparr>wp_system := win32_file_close W h (wp_system q)\<rparr>),
      make_dirs = (\<lambda>p. on_system (win32_make_dirs W p)),
      write_file = (\<lambda>p c. on_system (win32_write_file W p c)),
      replace_file = (\<lambda>dst src. on_system (win32_replace_file W dst src)),
      delete_file = (\<lambda>p. on_system (win32_delete_file W p)),
      probe_capabilities = (\<lambda>d q. case win32_probe_capabilities W d (wp_system q) of (st, caps, s) \<Rightarrow> (st, caps, q\<lparr>wp_system := s\<rparr>))\<rparr>"

section \<open>What the layer relies on\<close>

text \<open>
  \<open>writes s h\<close> is the file that the handle was created on for writing. A write that stops short of
  its first byte leaves an error behind: the code asks for it even when the call succeeded.
\<close>

locale win32_files =
  fixes W :: "'s win32"
    and files :: "'s \<Rightarrow> wide \<Rightarrow> string option"
    and writes :: "'s \<Rightarrow> nat \<Rightarrow> wide option"
  assumes create_fails: "w_create_file W a p s = (Inl e, s') \<Longrightarrow> e \<noteq> ERROR_SUCCESS \<and> files s' = files s"
    and create_opens: "a \<noteq> WRITE_CREATE_ALWAYS \<Longrightarrow> w_create_file W a p s = (Inr h, s') \<Longrightarrow> files s' = files s"
    and create_truncates: "w_create_file W WRITE_CREATE_ALWAYS p s = (Inr h, s') \<Longrightarrow>
      files s' = (files s)(p \<mapsto> []) \<and> writes s' h = Some p"
    and write_appends: "w_write_file W h d s = ((ok, n, e), s') \<Longrightarrow> writes s h = Some p \<Longrightarrow> files s p = Some c \<Longrightarrow>
      n \<le> length d \<and> files s' = (files s)(p \<mapsto> c @ take n d) \<and> writes s' h = Some p"
    and write_stops: "w_write_file W h d s = ((ok, n, e), s') \<Longrightarrow> d \<noteq> [] \<Longrightarrow> \<not> ok \<or> n = 0 \<Longrightarrow> e \<noteq> ERROR_SUCCESS"
    and read_same: "w_read_file W h n s = (rr, s') \<Longrightarrow> files s' = files s"
    and flush_same: "w_flush W h s = (m, s') \<Longrightarrow> m \<noteq> Some ERROR_SUCCESS \<and> files s' = files s"
    and close_same: "files (w_close_handle W h s) = files s"
    and mkdir_same: "w_create_directory W p s = (m, s') \<Longrightarrow> files s' = files s"
    and move_moves: "w_move_file W src dst s = (None, s') \<Longrightarrow>
      \<exists>c. files s src = Some c \<and> files s' = (files s)(src := None, dst \<mapsto> c)"
    and move_fails: "w_move_file W src dst s = (Some e, s') \<Longrightarrow> e \<noteq> ERROR_SUCCESS \<and> files s' = files s"
    and delete_only: "w_delete_file W p s = (m, s') \<Longrightarrow> q \<noteq> p \<Longrightarrow> files s' q = files s q"
    and find_first_same: "w_find_first W p s = (rf, s') \<Longrightarrow> files s' = files s"
    and find_next_same: "w_find_next W i s = (rn, s') \<Longrightarrow> files s' = files s"
    and find_close_same: "files (w_find_close W i s) = files s"
begin

abbreviation wname :: "string \<Rightarrow> wide" where
  "wname p \<equiv> cp_wide (w_codepage W) p"

lemma wide_path_wname: "wide_path W p = Some w \<Longrightarrow> w = wname p"
  by (simp add: utf8_to_wide_def Let_def split: if_splits)

text \<open>However the data is cut up, what has been written is a part of it, or all of it.\<close>

lemma write_loop_appends:
  "win32_write_loop W h data s = (r, s') \<Longrightarrow> writes s h = Some p \<Longrightarrow> files s p = Some c \<Longrightarrow>
     (\<exists>d. files s' = (files s)(p \<mapsto> c @ d) \<and> (r = None \<longrightarrow> d = data)) \<and> r \<noteq> Some USBS_OK"
proof (induction "length data" arbitrary: data s c rule: less_induct)
  case less
  show ?case
  proof (cases "data = []")
    case True
    with less.prems show ?thesis
      by (auto intro!: exI [of _ "[]"] simp: map_upd_triv win32_write_loop.simps)
  next
    case data: False
    let ?chunk = "take IO_CLAMP data"
    have chunk: "?chunk \<noteq> []" using data by (simp add: IO_CLAMP_def)
    obtain ok n e s1 where w: "w_write_file W h ?chunk s = ((ok, n, e), s1)" by (metis prod_cases3 surj_pair)
    from write_appends [OF w less.prems(2,3)] have n: "n \<le> length ?chunk"
      "files s1 = (files s)(p \<mapsto> c @ take n ?chunk)" "writes s1 h = Some p" by simp_all
    show ?thesis
    proof (cases "\<not> ok \<or> n = 0")
      case True
      with less.prems(1) data w have r: "r = Some (status_from_win32 e)" "s' = w_close_handle W h s1"
        by (auto simp: win32_write_loop.simps)
      with write_stops [OF w chunk True] n(2) show ?thesis
        by (intro conjI exI [of _ "take n ?chunk"]) (simp_all add: close_same)
    next
      case False
      with less.prems(1) data w have go: "win32_write_loop W h (drop n data) s1 = (r, s')"
        by (subst (asm) win32_write_loop.simps) simp
      have "length (drop n data) < length data" using False data by simp
      from less.hyps [OF this go n(3), of "c @ take n ?chunk"] n(2) obtain d where
        d: "files s' = (files s1)(p \<mapsto> (c @ take n ?chunk) @ d)" "r = None \<longrightarrow> d = drop n data" "r \<noteq> Some USBS_OK"
        by auto
      have "n \<le> IO_CLAMP" using n(1) by simp
      then have "take n ?chunk = take n data" by (simp add: min_absorb1)
      with d n(2) show ?thesis by (intro conjI exI [of _ "take n data @ d"]) auto
    qed
  qed
qed

text \<open>So a write that reports success has written everything, and a write touches only its file.\<close>

lemma write_file_cases:
  assumes "win32_write_file W path data s = (st, s')"
  shows "(st = USBS_OK \<longrightarrow> files s' = (files s)(wname path \<mapsto> data)) \<and> (\<forall>q. q \<noteq> wname path \<longrightarrow> files s' q = files s q)"
proof (cases "wide_path W path")
  case None
  with assms show ?thesis by (auto simp: win32_write_file_def)
next
  case (Some wide)
  then have wide: "wide = wname path" by (rule wide_path_wname)
  obtain o1 s1 where o1: "w_create_file W WRITE_CREATE_ALWAYS wide s = (o1, s1)" by fastforce
  show ?thesis
  proof (cases o1)
    case (Inl e)
    with assms Some o1 create_fails [of WRITE_CREATE_ALWAYS wide s e s1] show ?thesis
      by (auto simp: win32_write_file_def)
  next
    case (Inr h)
    with create_truncates o1 have t: "files s1 = (files s)(wide \<mapsto> [])" "writes s1 h = Some wide" by blast+
    obtain r s2 where l: "win32_write_loop W h data s1 = (r, s2)" by fastforce
    from write_loop_appends [OF l t(2), of "[]"] t(1) obtain d where
      d: "files s2 = (files s)(wide \<mapsto> d)" "r = None \<longrightarrow> d = data" "r \<noteq> Some USBS_OK" by auto
    show ?thesis
    proof (cases r)
      case (Some st2)
      with assms \<open>wide_path W path = Some wide\<close> o1 Inr l d wide show ?thesis by (auto simp: win32_write_file_def)
    next
      case None
      obtain m s3 where f: "w_flush W h s2 = (m, s3)" by fastforce
      with flush_same have "m \<noteq> Some ERROR_SUCCESS" "files s3 = files s2" by blast+
      with assms \<open>wide_path W path = Some wide\<close> o1 Inr l None f d wide show ?thesis
        by (cases m) (auto simp: win32_write_file_def close_same)
    qed
  qed
qed

lemma replace_file_cases:
  assumes "win32_replace_file W dst src s = (st, s')"
  shows "if st = USBS_OK then \<exists>c. files s (wname src) = Some c \<and> files s' = (files s)(wname src := None, wname dst \<mapsto> c)
    else files s' = files s"
proof (cases "wide_path W dst")
  case None
  with assms show ?thesis by (simp add: win32_replace_file_def)
next
  case d: (Some wd)
  show ?thesis
  proof (cases "wide_path W src")
    case None
    with d assms show ?thesis by (simp add: win32_replace_file_def)
  next
    case (Some ws)
    obtain m s1 where m: "w_move_file W ws wd s = (m, s1)" by fastforce
    note names = wide_path_wname [OF d] wide_path_wname [OF Some]
    show ?thesis
    proof (cases m)
      case None
      from move_moves m None have "\<exists>c. files s ws = Some c \<and> files s1 = (files s)(ws := None, wd \<mapsto> c)" by blast
      with None d Some m assms names show ?thesis by (auto simp: win32_replace_file_def)
    next
      case (Some e)
      from move_fails m Some have "e \<noteq> ERROR_SUCCESS" "files s1 = files s" by blast+
      with Some d \<open>wide_path W src = Some ws\<close> m assms show ?thesis by (auto simp: win32_replace_file_def)
    qed
  qed
qed

lemma delete_file_other:
  assumes "win32_delete_file W p s = (st, s')" and "q \<noteq> wname p"
  shows "files s' q = files s q"
proof (cases "wide_path W p")
  case None
  with assms show ?thesis by (simp add: win32_delete_file_def)
next
  case (Some wide)
  obtain m s1 where m: "w_delete_file W wide s = (m, s1)" by fastforce
  with assms(2) wide_path_wname [OF Some] have "files s1 q = files s q" using delete_only by blast
  with assms(1) Some m show ?thesis by (cases m) (auto simp: win32_delete_file_def)
qed

lemma mkdir_loop_same: "win32_mkdir_loop W parent rest s = (st, s') \<Longrightarrow> files s' = files s"
proof (induction rest arbitrary: parent s)
  case Nil
  then show ?case by (subst (asm) win32_mkdir_loop.simps) (auto simp: Let_def split: if_splits prod.splits dest: mkdir_same)
next
  case (Cons u us)
  define step where "step = (if ((u # us) = [] \<or> is_wide_sep ((u # us) ! 0)) \<and> parent \<noteq> [] \<and>
      \<not> (length parent = 2 \<and> parent ! 1 = wide_char CHR '':'') then w_create_directory W parent s else (None, s))"
  obtain m s1 where s1: "step = (m, s1)" by fastforce
  then have "files s1 = files s" unfolding step_def by (auto split: if_splits dest: mkdir_same)
  moreover have "win32_mkdir_loop W parent (u # us) s =
      (case step of (m, s1) \<Rightarrow>
         if m \<noteq> None \<and> m \<noteq> Some ERROR_ALREADY_EXISTS then (status_from_win32 (the m), s1)
         else win32_mkdir_loop W (parent @ [u]) us s1)"
    unfolding step_def by (subst win32_mkdir_loop.simps) (simp add: Let_def split: prod.split)
  ultimately show ?case using Cons.prems s1 by (auto split: if_splits dest: Cons.IH [OF sym])
qed

lemma make_dirs_keep: "win32_make_dirs W p s = (st, s') \<Longrightarrow> files s' = files s"
  by (auto simp: win32_make_dirs_def split: option.splits if_splits dest: mkdir_loop_same)

lemma dir_open_keep: "win32_dir_open mem W p s = (ri, s') \<Longrightarrow> files s' = files s"
  by (auto simp: win32_dir_open_def split: option.splits if_splits prod.splits sum.splits dest: find_first_same)

lemma dir_next_keep: "win32_dir_next fuel W it s = Some (re, it', s') \<Longrightarrow> files s' = files s"
proof (induction fuel arbitrary: it s)
  case (Suc fuel)
  define got where "got = (if have_pending it then (Inr (it_data it), s) else w_find_next W (it_handle it) s)"
  obtain f s1 where f: "got = (f, s1)" by fastforce
  then have "files s1 = files s" unfolding got_def by (auto split: if_splits dest: find_next_same)
  with Suc.prems f Suc.IH show ?case
    unfolding win32_dir_next.simps got_def [symmetric] by (auto simp: Let_def split: if_splits sum.splits)
qed simp

lemma file_open_keep: "win32_file_open_read mem W p s = (rh, s') \<Longrightarrow> files s' = files s"
  using create_opens [of READ_NO_RECALL]
  by (auto simp: win32_file_open_read_def close_same split: option.splits if_splits prod.splits sum.splits dest: create_fails)

lemma probe_keep: "win32_probe_capabilities W d s = (st, caps, s') \<Longrightarrow> files s' = files s"
proof -
  have can: "files s2 = files s1" if "can_open_for_read W p s1 = (b, s2)" for p s1 b s2
    using that create_opens [of READ_PROBE]
    by (auto simp: can_open_for_read_def close_same split: prod.splits sum.splits dest: create_fails)
  assume "win32_probe_capabilities W d s = (st, caps, s')"
  then show ?thesis
    unfolding win32_probe_capabilities_def Let_def by (auto split: if_splits option.splits prod.splits dest!: can)
qed

end

section \<open>The store and the scan\<close>

sublocale win32_files \<subseteq> store: store_dirs "win32_platform budget env mem W" "\<lambda>q. files (wp_system q)"
  by unfold_locales (auto simp: win32_platform_def on_system_def split: prod.splits dest: make_dirs_keep)

text \<open>No reading operation changes a file.\<close>

sublocale win32_files \<subseteq> reads: keeps_reads "win32_platform budget env mem W" "\<lambda>q. files (wp_system q) = F"
proof
  fix p q q' ri i re h n rs d st caps
  let ?P = "win32_platform budget env mem W"
  show "dir_open ?P p q = (ri, q') \<Longrightarrow> files (wp_system q) = F \<Longrightarrow> files (wp_system q') = F"
    by (auto simp: win32_platform_def open_iter_def on_system_def split: prod.splits sum.splits dest: dir_open_keep)
  show "dir_next ?P i q = (re, q') \<Longrightarrow> files (wp_system q) = F \<Longrightarrow> files (wp_system q') = F"
    by (auto simp: win32_platform_def next_entry_def split: option.splits dest: dir_next_keep)
  show "files (wp_system q) = F \<Longrightarrow> files (wp_system (dir_close ?P i q)) = F"
    by (auto simp: win32_platform_def close_iter_def win32_dir_close_def find_close_same split: option.split)
  show "file_open_read ?P p q = (ri, q') \<Longrightarrow> files (wp_system q) = F \<Longrightarrow> files (wp_system q') = F"
    by (auto simp: win32_platform_def on_system_def split: prod.splits dest: file_open_keep)
  show "file_read ?P i n q = (rs, q') \<Longrightarrow> files (wp_system q) = F \<Longrightarrow> files (wp_system q') = F"
    by (auto simp: win32_platform_def on_system_def win32_file_read_def split: prod.splits sum.splits dest: read_same)
  show "files (wp_system q) = F \<Longrightarrow> files (wp_system (file_close ?P i q)) = F"
    by (simp add: win32_platform_def win32_file_close_def close_same)
  show "probe_capabilities ?P d q = (st, caps, q') \<Longrightarrow> files (wp_system q) = F \<Longrightarrow> files (wp_system q') = F"
    by (auto simp: win32_platform_def split: prod.splits dest: probe_keep)
qed

text \<open>
  The conversion of a name with ASCII characters behind it is the conversion of the name with their
  units behind it: so the temporary file is another file than the report.
\<close>

definition codepage_appends :: "codepage \<Rightarrow> bool" where
  "codepage_appends U \<longleftrightarrow> (\<forall>s. is_cstr s \<longrightarrow> cp_wide U (s @ ''.tmp'') = cp_wide U s @ wide_lit ''.tmp'')"

context win32_files
begin

lemma publish_atomic:
  assumes "store_dirs.publish (win32_platform budget env mem W) dst tmp c q = (st, q')" and "wname dst \<noteq> wname tmp"
  shows "(\<forall>w. w \<noteq> wname dst \<longrightarrow> w \<noteq> wname tmp \<longrightarrow> files (wp_system q') w = files (wp_system q) w) \<and>
    files (wp_system q') (wname dst) = (if st = USBS_OK then Some c else files (wp_system q) (wname dst)) \<and>
    (st = USBS_OK \<longrightarrow> files (wp_system q') (wname tmp) = None)"
proof -
  obtain st1 s1 where wr: "win32_write_file W tmp c (wp_system q) = (st1, s1)" by fastforce
  note wrote = write_file_cases [OF wr]
  obtain st2 s2 where re: "win32_replace_file W dst tmp s1 = (st2, s2)" by fastforce
  note moved = replace_file_cases [OF re]
  have del: "files (snd (win32_delete_file W tmp s)) w = files s w" if "w \<noteq> wname tmp" for s w
    using delete_file_other [of tmp s] that by (cases "win32_delete_file W tmp s") simp
  have "st = (if st1 = USBS_OK then st2 else st1)"
    "wp_system q' = (if st1 \<noteq> USBS_OK then snd (win32_delete_file W tmp s1)
       else if st2 \<noteq> USBS_OK then snd (win32_delete_file W tmp s2) else s2)"
    using assms(1) wr re unfolding store.publish_def
    by (auto simp: win32_platform_def on_system_def usbs_ok_def split: if_splits prod.splits)
  with wrote moved assms(2) show ?thesis by (auto simp: del split: if_splits)
qed

lemma report_atomic:
  assumes "write_report_file (win32_platform budget env mem W) store' identity i stamp ext c cap q = (r, q')"
    and "usbs_store_safe_id identity USBS_STORE_PATH_MAX = Inr safe"
    and "compact_timestamp stamp 17 = Inr compact"
    and "final = report_path Windows store' safe i compact ext"
    and "length final + 4 < USBS_STORE_PATH_MAX" and "is_cstr final" and "codepage_appends (w_codepage W)"
  shows "(\<forall>w. w \<noteq> wname final \<longrightarrow> w \<noteq> wname (final @ ''.tmp'') \<longrightarrow> files (wp_system q') w = files (wp_system q) w) \<and>
    (case r of
       Inr path \<Rightarrow> files (wp_system q') (wname final) = Some c \<and> files (wp_system q') (wname (final @ ''.tmp'')) = None \<and>
         path = snprintf_buf cap final
     | Inl st \<Rightarrow> st \<noteq> USBS_OK \<and> files (wp_system q') (wname final) = files (wp_system q) (wname final))"
proof -
  have host: "p_host (win32_platform budget env mem W) = Windows" by (simp add: win32_platform_def)
  have tmp: "snprintf_buf USBS_STORE_PATH_MAX (final @ ''.tmp'') = final @ ''.tmp''" using assms(5) by simp
  have names: "wname final \<noteq> wname (final @ ''.tmp'')" using assms(6,7) by (simp add: codepage_appends_def wide_lit_def)
  from store.write_report_cases [OF assms(1)] assms(2-4) tmp host
  consider (early) st where "r = Inl st" "files (wp_system q') = files (wp_system q)" "st \<noteq> USBS_OK"
    | (publish) q1 st where "files (wp_system q1) = files (wp_system q)"
        "store_dirs.publish (win32_platform budget env mem W) final (final @ ''.tmp'') c q1 = (st, q')"
        "r = (if usbs_ok st then Inr (snprintf_buf cap final) else Inl st)"
    by auto
  then show ?thesis
  proof cases
    case early
    then show ?thesis by simp
  next
    case publish
    with publish_atomic [OF publish(2) names] show ?thesis by (auto simp: usbs_ok_def)
  qed
qed

end

section \<open>A system\<close>

text \<open>
  Files by wide path, directories with the entries a search of them finds, fresh handles, and two
  scripts: what happens to the next reads and writes, and what the next other calls fail with.
\<close>

datatype nt_event = Nt_fails win32_error | Nt_moves nat

record nt =
  nt_files :: "wide \<Rightarrow> string option"
  nt_dirs :: "wide \<Rightarrow> find_data list option"
  nt_handles :: "nat \<Rightarrow> (wide \<times> nat) option"
  nt_finds :: "nat \<Rightarrow> find_data list option"
  nt_next :: nat
  nt_io :: "nt_event list"
  nt_faults :: "win32_error list"

definition real_error :: "win32_error \<Rightarrow> win32_error" where
  "real_error e = (if e = ERROR_SUCCESS then ERROR_IO_DEVICE else e)"

definition nt_fault :: "nt \<Rightarrow> win32_error \<times> nt" where
  "nt_fault u = (case nt_faults u of [] \<Rightarrow> (ERROR_SUCCESS, u) | e # es \<Rightarrow> (e, u\<lparr>nt_faults := es\<rparr>))"

definition nt_find_first :: "wide \<Rightarrow> nt \<Rightarrow> (win32_error + nat \<times> find_data) \<times> nt" where
  "nt_find_first pattern u =
     (case nt_fault u of
        (e, u1) \<Rightarrow>
          if e \<noteq> ERROR_SUCCESS then (Inl e, u1)
          else
            (case nt_dirs u1 pattern of
               None \<Rightarrow> (Inl ERROR_PATH_NOT_FOUND, u1)
             | Some [] \<Rightarrow> (Inl ERROR_FILE_NOT_FOUND, u1)
             | Some (d # ds) \<Rightarrow>
                 (Inr (nt_next u1, d), u1\<lparr>nt_finds := (nt_finds u1)(nt_next u1 \<mapsto> ds), nt_next := Suc (nt_next u1)\<rparr>)))"

definition nt_find_next :: "nat \<Rightarrow> nt \<Rightarrow> (win32_error + find_data) \<times> nt" where
  "nt_find_next h u =
     (case nt_fault u of
        (e, u1) \<Rightarrow>
          if e \<noteq> ERROR_SUCCESS then (Inl e, u1)
          else
            (case nt_finds u1 h of
               None \<Rightarrow> (Inl (ERROR_OTHER 6), u1)
             | Some [] \<Rightarrow> (Inl ERROR_NO_MORE_FILES, u1)
             | Some (d # ds) \<Rightarrow> (Inr d, u1\<lparr>nt_finds := (nt_finds u1)(h \<mapsto> ds)\<rparr>)))"

definition nt_create_file :: "file_access \<Rightarrow> wide \<Rightarrow> nt \<Rightarrow> (win32_error + nat) \<times> nt" where
  "nt_create_file a p u =
     (case nt_fault u of
        (e, u1) \<Rightarrow>
          if e \<noteq> ERROR_SUCCESS then (Inl e, u1)
          else if a \<noteq> WRITE_CREATE_ALWAYS \<and> nt_files u1 p = None then (Inl ERROR_FILE_NOT_FOUND, u1)
          else
            (Inr (nt_next u1),
             u1\<lparr>nt_files := (if a = WRITE_CREATE_ALWAYS then (nt_files u1)(p \<mapsto> []) else nt_files u1),
                nt_handles := (nt_handles u1)(nt_next u1 \<mapsto> (p, 0)), nt_next := Suc (nt_next u1)\<rparr>))"

definition nt_read_file :: "nat \<Rightarrow> nat \<Rightarrow> nt \<Rightarrow> (win32_error + string) \<times> nt" where
  "nt_read_file h n u =
     (case (case nt_io u of [] \<Rightarrow> (Nt_moves n, u) | x # xs \<Rightarrow> (x, u\<lparr>nt_io := xs\<rparr>)) of
        (Nt_fails e, u1) \<Rightarrow> (Inl (real_error e), u1)
      | (Nt_moves m, u1) \<Rightarrow>
          (case nt_handles u1 h of
             None \<Rightarrow> (Inl (ERROR_OTHER 6), u1)
           | Some (p, off) \<Rightarrow>
               (case nt_files u1 p of
                  None \<Rightarrow> (Inl ERROR_IO_DEVICE, u1)
                | Some c \<Rightarrow>
                    (let bytes = take (min m n) (drop off c)
                     in (Inr bytes, u1\<lparr>nt_handles := (nt_handles u1)(h \<mapsto> (p, off + length bytes))\<rparr>)))))"

definition nt_write_file :: "nat \<Rightarrow> string \<Rightarrow> nt \<Rightarrow> (bool \<times> nat \<times> win32_error) \<times> nt" where
  "nt_write_file h d u =
     (case (case nt_io u of [] \<Rightarrow> (Nt_moves (length d), u) | x # xs \<Rightarrow> (x, u\<lparr>nt_io := xs\<rparr>)) of
        (Nt_fails e, u1) \<Rightarrow> ((False, 0, real_error e), u1)
      | (Nt_moves m, u1) \<Rightarrow>
          (case nt_handles u1 h of
             None \<Rightarrow> ((False, 0, ERROR_OTHER 6), u1)
           | Some (p, off) \<Rightarrow>
               (case nt_files u1 p of
                  None \<Rightarrow> ((False, 0, ERROR_IO_DEVICE), u1)
                | Some c \<Rightarrow>
                    (let n = min m (length d)
                     in ((True, n, if n = 0 then ERROR_OTHER 112 else ERROR_SUCCESS),
                         u1\<lparr>nt_files := (nt_files u1)(p \<mapsto> c @ take n d)\<rparr>)))))"

definition nt_step :: "(nt \<Rightarrow> nt) \<Rightarrow> nt \<Rightarrow> win32_error option \<times> nt" where
  "nt_step f u = (case nt_fault u of (e, u1) \<Rightarrow> if e \<noteq> ERROR_SUCCESS then (Some e, u1) else (None, f u1))"

definition nt_move_file :: "wide \<Rightarrow> wide \<Rightarrow> nt \<Rightarrow> win32_error option \<times> nt" where
  "nt_move_file src dst u =
     (case nt_files u src of
        None \<Rightarrow> (Some ERROR_FILE_NOT_FOUND, u)
      | Some c \<Rightarrow> nt_step (\<lambda>u1. u1\<lparr>nt_files := (nt_files u1)(src := None, dst \<mapsto> c)\<rparr>) u)"

definition nt_win32 :: "codepage \<Rightarrow> nt win32" where
  "nt_win32 U =
     \<lparr>w_codepage = U, w_find_first = nt_find_first, w_find_next = nt_find_next,
      w_find_close = (\<lambda>h u. u\<lparr>nt_finds := (nt_finds u)(h := None)\<rparr>),
      w_create_file = nt_create_file, w_read_file = nt_read_file, w_write_file = nt_write_file,
      w_flush = (\<lambda>h. nt_step id), w_close_handle = (\<lambda>h u. u\<lparr>nt_handles := (nt_handles u)(h := None)\<rparr>),
      w_create_directory = (\<lambda>p. nt_step id), w_move_file = nt_move_file,
      w_delete_file = (\<lambda>p. nt_step (\<lambda>u. u\<lparr>nt_files := (nt_files u)(p := None)\<rparr>))\<rparr>"

lemma nt_fault_frame: "nt_fault u = (e, u1) \<Longrightarrow> nt_files u1 = nt_files u \<and> nt_handles u1 = nt_handles u"
  by (auto simp: nt_fault_def split: list.splits)

lemma real_error [simp]: "real_error e \<noteq> ERROR_SUCCESS"
  by (simp add: real_error_def)

interpretation nt: win32_files "nt_win32 U" nt_files "\<lambda>u h. map_option fst (nt_handles u h)"
proof
  fix a p s e s' h d ok n c rr m src dst q rf rn i and pos :: wide
  let ?W = "nt_win32 U"
  show "e \<noteq> ERROR_SUCCESS \<and> nt_files s' = nt_files s" if "w_create_file ?W a p s = (Inl e, s')"
    using that by (auto simp: nt_win32_def nt_create_file_def split: prod.splits if_splits dest: nt_fault_frame)
  show "nt_files s' = nt_files s" if "a \<noteq> WRITE_CREATE_ALWAYS" "w_create_file ?W a p s = (Inr h, s')"
    using that by (auto simp: nt_win32_def nt_create_file_def split: prod.splits if_splits dest: nt_fault_frame)
  show "nt_files s' = (nt_files s)(p \<mapsto> []) \<and> map_option fst (nt_handles s' h) = Some p"
    if "w_create_file ?W WRITE_CREATE_ALWAYS p s = (Inr h, s')"
    using that by (auto simp: nt_win32_def nt_create_file_def split: prod.splits if_splits dest: nt_fault_frame)
  show "n \<le> length d \<and> nt_files s' = (nt_files s)(p \<mapsto> c @ take n d) \<and> map_option fst (nt_handles s' h) = Some p"
    if "w_write_file ?W h d s = ((ok, n, e), s')" "map_option fst (nt_handles s h) = Some p" "nt_files s p = Some c"
    using that
    by (auto simp: nt_win32_def nt_write_file_def Let_def map_upd_triv split: list.splits nt_event.splits)
  show "e \<noteq> ERROR_SUCCESS" if "w_write_file ?W h d s = ((ok, n, e), s')" "d \<noteq> []" "\<not> ok \<or> n = 0"
    using that
    by (auto simp: nt_win32_def nt_write_file_def Let_def split: list.splits nt_event.splits option.splits if_splits)
  show "nt_files s' = nt_files s" if "w_read_file ?W h n s = (rr, s')"
    using that
    by (auto simp: nt_win32_def nt_read_file_def Let_def split: list.splits nt_event.splits option.splits)
  show "m \<noteq> Some ERROR_SUCCESS \<and> nt_files s' = nt_files s" if "w_flush ?W h s = (m, s')"
    using that by (auto simp: nt_win32_def nt_step_def split: prod.splits if_splits dest: nt_fault_frame)
  show "nt_files (w_close_handle ?W h s) = nt_files s" by (simp add: nt_win32_def)
  show "nt_files s' = nt_files s" if "w_create_directory ?W p s = (m, s')"
    using that by (auto simp: nt_win32_def nt_step_def split: prod.splits if_splits dest: nt_fault_frame)
  show "\<exists>c. nt_files s src = Some c \<and> nt_files s' = (nt_files s)(src := None, dst \<mapsto> c)"
    if "w_move_file ?W src dst s = (None, s')"
    using that by (auto simp: nt_win32_def nt_move_file_def nt_step_def split: option.splits prod.splits if_splits dest: nt_fault_frame)
  show "e \<noteq> ERROR_SUCCESS \<and> nt_files s' = nt_files s" if "w_move_file ?W src dst s = (Some e, s')"
    using that by (auto simp: nt_win32_def nt_move_file_def nt_step_def split: option.splits prod.splits if_splits dest: nt_fault_frame)
  show "nt_files s' q = nt_files s q" if "w_delete_file ?W p s = (m, s')" "q \<noteq> p"
    using that by (auto simp: nt_win32_def nt_step_def split: prod.splits if_splits dest: nt_fault_frame)
  show "nt_files s' = nt_files s" if "w_find_first ?W p s = (rf, s')"
    using that by (auto simp: nt_win32_def nt_find_first_def split: prod.splits option.splits list.splits if_splits dest: nt_fault_frame)
  show "nt_files s' = nt_files s" if "w_find_next ?W i s = (rn, s')"
    using that by (auto simp: nt_win32_def nt_find_next_def split: prod.splits option.splits list.splits if_splits dest: nt_fault_frame)
  show "nt_files (w_find_close ?W i s) = nt_files s" by (simp add: nt_win32_def)
qed

section \<open>Properties\<close>


lemma ascii_codepage_appends: "codepage_appends ascii_codepage"
  by (auto simp: codepage_appends_def ascii_codepage_def wide_lit_def wide_char_def)

text \<open>The system takes two bytes, then the disk is full: the old report stays.\<close>

definition full_nt :: "nt win32_process" where
  "full_nt =
     \<lparr>wp_system = \<lparr>nt_files = [cp_wide ascii_codepage (''s'' @ [CHR 0x5C] @ ''scans'' @ [CHR 0x5C] @ ''usb_3A1'' @ [CHR 0x5C] @
          ''20260911T140203Z-ab.json'') \<mapsto> ''old''],
        nt_dirs = Map.empty, nt_handles = Map.empty, nt_finds = Map.empty, nt_next = 1,
        nt_io = [Nt_moves 2, Nt_moves 0], nt_faults = []\<rparr>,
      wp_iters = Map.empty, wp_next = 1\<rparr>"

definition nt_platform :: "nt win32_process platform" where
  "nt_platform = win32_platform (\<lambda>_. 9) Map.empty mem_always (nt_win32 ascii_codepage)"


text \<open>
  Nor does a scan touch a file: no call the scanner makes through this layer changes one.
\<close>

context win32_files
begin

lemma scan_is_read_only:
  assumes "usbs_scanner_scan srt fuel (win32_platform budget env mem W) C d store' None None seeded g q = Some (res, seeded', g', q')"
    and "keeps_reads.libc_keeps_it (\<lambda>x. files (wp_system x) = files (wp_system q)) C"
  shows "files (wp_system q') = files (wp_system q)"
  using reads.keep_scan [OF assms(1,2)] by simp

end

section \<open>Where Windows differs\<close>

text \<open>
  Without the law that a write of nothing leaves an error, the layer reports success for data it
  did not write: the status it returns is the conversion of a last error of no error. The POSIX
  layer has a status of its own for that case.
\<close>

lemma write_of_nothing_is_reported_as_success:
  assumes "wide_path W path = Some wide" and "w_create_file W WRITE_CREATE_ALWAYS wide s = (Inr h, s1)" and "data \<noteq> []"
    and "w_write_file W h (take IO_CLAMP data) s1 = ((True, 0, ERROR_SUCCESS), s2)"
  shows "win32_write_file W path data s = (USBS_OK, w_close_handle W h s2)"
  using assms by (simp add: win32_write_file_def win32_write_loop.simps status_from_win32_def)

text \<open>
  The root directory of a FAT volume has no dot entries: when it is empty, the search for its first
  entry finds nothing, opening it fails, and the walk fails at its root instead of visiting nothing.
\<close>

lemma empty_root_cannot_be_walked:
  assumes "wide_path W path = Some wide" and "mem SIZEOF_WIN32_DIR_ITER"
    and "w_find_first W (search_pattern wide) (wp_system q) = (Inl ERROR_FILE_NOT_FOUND, s1)"
    and "\<not> ts_cancelled ts" and "\<not> ts_device_removed ts"
  shows "walk_dir (Suc fuel) (win32_platform budget env mem W) path 0 ts q = Some (USBS_ERR_NOT_FOUND, ts, q\<lparr>wp_system := s1\<rparr>)"
  using assms
  by (simp add: win32_platform_def open_iter_def on_system_def win32_dir_open_def status_from_win32_def)

end
