(* ===== verification/DeviceMacos.thy ===== *)
theory DeviceMacos
  imports Device Paths Platform
begin

text \<open>
  macOS device enumeration, src/platform/device_macos.c. DiskArbitration, IOKit and statvfs are a
  record of calls over a state \<open>'s\<close>. Registry objects are numbers whose retain counts the code
  manages by hand: every retain, release and call that hands out an object is kept. Core Foundation
  values are plain values; a CFString is its UTF-8 bytes.
\<close>

section \<open>The system\<close>

datatype cf_value = CF_STRING string | CF_NUMBER int | CF_BOOLEAN bool | CF_URL string | CF_OTHER

type_synonym cf_dictionary = "string \<Rightarrow> cf_value option"

text \<open>
  \<open>mc_same_name\<close> is CFStringCompare ignoring case; \<open>mc_statvfs\<close> yields the available blocks and
  their size; \<open>mc_disk\<close> is a disk by its BSD name, and \<open>mc_media\<close> the registry object behind it.
\<close>

record 's macos =
  mc_mem :: allocator
  mc_same_name :: "string \<Rightarrow> string \<Rightarrow> bool"
  mc_session_create :: "'s \<Rightarrow> bool \<times> 's"
  mc_service_matching :: "'s \<Rightarrow> bool \<times> 's"
  mc_matching_services :: "'s \<Rightarrow> nat option \<times> 's"
  mc_iterator_next :: "nat \<Rightarrow> 's \<Rightarrow> nat option \<times> 's"
  mc_property :: "nat \<Rightarrow> string \<Rightarrow> 's \<Rightarrow> cf_value option \<times> 's"
  mc_conforms :: "nat \<Rightarrow> string \<Rightarrow> 's \<Rightarrow> bool \<times> 's"
  mc_parent :: "nat \<Rightarrow> 's \<Rightarrow> nat option \<times> 's"
  mc_retain :: "nat \<Rightarrow> 's \<Rightarrow> 's"
  mc_release :: "nat \<Rightarrow> 's \<Rightarrow> 's"
  mc_disk :: "string \<Rightarrow> 's \<Rightarrow> nat option \<times> 's"
  mc_description :: "nat \<Rightarrow> 's \<Rightarrow> cf_dictionary option \<times> 's"
  mc_media :: "nat \<Rightarrow> 's \<Rightarrow> nat option \<times> 's"
  mc_statvfs :: "string \<Rightarrow> 's \<Rightarrow> (usbs_u64 \<times> usbs_u64) option \<times> 's"

section \<open>Values\<close>

definition cfstring_to_utf8 :: "cf_value option \<Rightarrow> nat \<Rightarrow> string" where
  "cfstring_to_utf8 str cap =
     (case str of Some (CF_STRING s) \<Rightarrow> if length s < cap then s else [] | _ \<Rightarrow> [])"

text \<open>\<open>CFNumberGetValue\<close> to a signed 64-bit integer: it fails for a number that does not fit.\<close>

definition cf_int64 :: "cf_value option \<Rightarrow> int option" where
  "cf_int64 v = (case v of Some (CF_NUMBER n) \<Rightarrow> if - (2 ^ 63) \<le> n \<and> n < 2 ^ 63 then Some n else None | _ \<Rightarrow> None)"

definition cfdict_get_u64 :: "cf_dictionary \<Rightarrow> string \<Rightarrow> usbs_u64 \<Rightarrow> usbs_u64" where
  "cfdict_get_u64 dict key old = (case cf_int64 (dict key) of Some n \<Rightarrow> of_int n | None \<Rightarrow> old)"

definition cfdict_get_bool :: "cf_dictionary \<Rightarrow> string \<Rightarrow> bool \<Rightarrow> bool" where
  "cfdict_get_bool dict key default_value = (case dict key of Some (CF_BOOLEAN b) \<Rightarrow> b | _ \<Rightarrow> default_value)"

definition protocol_table :: "(string \<times> usbs_bus_type) list" where
  "protocol_table =
     [(''USB'', USBS_BUS_USB), (''ATA'', USBS_BUS_SATA), (''Serial ATA'', USBS_BUS_SATA), (''PCI-Express'', USBS_BUS_NVME),
      (''SCSI'', USBS_BUS_SCSI), (''Secure Digital'', USBS_BUS_SD)]"

definition bus_type_from_protocol :: "'s macos \<Rightarrow> cf_value option \<Rightarrow> usbs_bus_type" where
  "bus_type_from_protocol M protocol =
     (case protocol of
        Some (CF_STRING s) \<Rightarrow>
          (case find (\<lambda>row. mc_same_name M s (fst row)) protocol_table of Some row \<Rightarrow> snd row | None \<Rightarrow> USBS_BUS_OTHER)
      | _ \<Rightarrow> USBS_BUS_UNKNOWN)"

section \<open>The registry walk\<close>

text \<open>\<open>%04llx\<close> of the low 16 bits.\<close>

definition id_hex :: "int \<Rightarrow> string" where
  "id_hex v =
     (let n = nat (v mod 65536)
      in [hex_lower (n div 4096), hex_lower (n div 256 mod 16), hex_lower (n div 16 mod 16), hex_lower (n mod 16)])"

definition is_cf_string :: "cf_value option \<Rightarrow> bool" where
  "is_cf_string v = (case v of Some (CF_STRING _) \<Rightarrow> True | _ \<Rightarrow> False)"

definition fill_usb_device :: "'s macos \<Rightarrow> nat \<Rightarrow> usbs_device \<Rightarrow> 's \<Rightarrow> usbs_device \<times> 's" where
  "fill_usb_device M current d s =
     (case mc_property M current ''idVendor'' s of
        (vendor_id, s1) \<Rightarrow>
          (case mc_property M current ''idProduct'' s1 of
             (product_id, s2) \<Rightarrow>
               (case mc_property M current ''USB Serial Number'' s2 of
                  (serial_str, s3) \<Rightarrow>
                    (case mc_property M current ''USB Vendor Name'' s3 of
                       (vendor_str, s4) \<Rightarrow>
                         (case mc_property M current ''USB Product Name'' s4 of
                            (product_str, s5) \<Rightarrow>
                              (let d1 = d\<lparr>bus_type := USBS_BUS_USB\<rparr>;
                                   d2 = (case cf_int64 vendor_id of Some v \<Rightarrow> d1\<lparr>usb_vid := id_hex v\<rparr> | None \<Rightarrow> d1);
                                   d3 = (case cf_int64 product_id of Some v \<Rightarrow> d2\<lparr>usb_pid := id_hex v\<rparr> | None \<Rightarrow> d2);
                                   d4 = (if is_cf_string serial_str then d3\<lparr>serial := cfstring_to_utf8 serial_str 128\<rparr> else d3);
                                   d5 = (if is_cf_string vendor_str then d4\<lparr>vendor := cfstring_to_utf8 vendor_str 128\<rparr> else d4);
                                   d6 = (if is_cf_string product_str then d5\<lparr>product := cfstring_to_utf8 product_str 128\<rparr> else d5)
                               in (d6, s5)))))))"

text \<open>The loop owns one reference to \<open>current\<close>, and gives it up on every way out.\<close>

fun ancestor_loop :: "nat \<Rightarrow> 's macos \<Rightarrow> nat \<Rightarrow> usbs_device \<Rightarrow> 's \<Rightarrow> usbs_device \<times> 's" where
  "ancestor_loop 0 M current d s = (d, mc_release M current s)"
| "ancestor_loop (Suc levels) M current d s =
     (case mc_conforms M current ''IOUSBHostDevice'' s of
        (modern, s1) \<Rightarrow>
          (case (if modern then (True, s1) else mc_conforms M current ''IOUSBDevice'' s1) of
             (is_usb, s2) \<Rightarrow>
               if is_usb then (case fill_usb_device M current d s2 of (d1, s3) \<Rightarrow> (d1, mc_release M current s3))
               else
                 (case mc_parent M current s2 of
                    (None, s3) \<Rightarrow> (d, mc_release M current s3)
                  | (Some parent, s3) \<Rightarrow> ancestor_loop levels M parent d (mc_release M current s3))))"

definition usb_ancestor_walk :: "'s macos \<Rightarrow> nat \<Rightarrow> usbs_device \<Rightarrow> 's \<Rightarrow> usbs_device \<times> 's" where
  "usb_ancestor_walk M media_service d s = ancestor_loop 20 M media_service d (mc_retain M media_service s)"

section \<open>One volume\<close>

text \<open>The mount point of the description, when it has one that fits the buffer.\<close>

definition fill_mount :: "'s macos \<Rightarrow> cf_value option \<Rightarrow> usbs_device \<Rightarrow> 's \<Rightarrow> usbs_device \<times> 's" where
  "fill_mount M volume_url d s =
     (case volume_url of
        Some (CF_URL mount_point) \<Rightarrow>
          if length mount_point \<ge> USBS_MOUNT_POINT_MAX then (d, s)
          else
            (let d1 = d\<lparr>media_present := True,
                        mount_points := (if length (mount_points d) < USBS_MOUNT_POINTS_MAX
                                         then mount_points d @ [snprintf_buf USBS_MOUNT_POINT_MAX mount_point]
                                         else mount_points d),
                        volume_path := snd (usbs_path_join MacOS USBS_VOLUME_PATH_MAX mount_point [])\<rparr>
             in (case mc_statvfs M mount_point s of
                   (None, s1) \<Rightarrow> (d1, s1)
                 | (Some (bavail, frsize), s1) \<Rightarrow> (d1\<lparr>free_bytes := bavail * frsize\<rparr>, s1)))
      | _ \<Rightarrow> (d, s))"

definition fill_from_disk_arbitration :: "'s macos \<Rightarrow> string \<Rightarrow> usbs_device \<Rightarrow> 's \<Rightarrow> usbs_device \<times> 's" where
  "fill_from_disk_arbitration M bsd_name d s =
     (case mc_disk M bsd_name s of
        (None, s1) \<Rightarrow> (d, s1)
      | (Some disk, s1) \<Rightarrow>
          (case mc_description M disk s1 of
             (None, s2) \<Rightarrow> (d, s2)
           | (Some description, s2) \<Rightarrow>
               (let d1 = d\<lparr>removable_media := cfdict_get_bool description ''DAMediaRemovable'' False,
                           capacity_bytes := cfdict_get_u64 description ''DAMediaSize'' (capacity_bytes d),
                           bus_type := bus_type_from_protocol M (description ''DADeviceProtocol''),
                           label := cfstring_to_utf8 (description ''DAVolumeName'') 128,
                           filesystem := cfstring_to_utf8 (description ''DAVolumeKind'') 32\<rparr>
                in (case fill_mount M (description ''DAVolumePath'') d1 s2 of
                      (d2, s3) \<Rightarrow>
                        (case mc_media M disk s3 of
                           (None, s4) \<Rightarrow> (d2, s4)
                         | (Some media_service, s4) \<Rightarrow>
                             (case usb_ancestor_walk M media_service d2 s4 of
                                (d3, s5) \<Rightarrow> (d3, mc_release M media_service s5)))))))"

section \<open>Enumeration\<close>

text \<open>
  What one media object adds: nothing when it is not a leaf or has no BSD name. It is released in
  every case.
\<close>

definition media_device :: "'s macos \<Rightarrow> nat \<Rightarrow> 's \<Rightarrow> usbs_device option \<times> 's" where
  "media_device M media_service s =
     (case mc_property M media_service ''Leaf'' s of
        (leaf, s1) \<Rightarrow>
          if leaf \<noteq> Some (CF_BOOLEAN True) then (None, s1)
          else
            (case mc_property M media_service ''BSD Name'' s1 of
               (None, s2) \<Rightarrow> (None, s2)
             | (Some bsd_name_ref, s2) \<Rightarrow>
                 (case fill_from_disk_arbitration M (cfstring_to_utf8 (Some bsd_name_ref) 64) usbs_device_init s2 of
                    (d, s3) \<Rightarrow> (Some d, s3))))"

fun media_loop :: "nat \<Rightarrow> 's macos \<Rightarrow> nat \<Rightarrow> usbs_device_list \<Rightarrow> 's \<Rightarrow> (usbs_status \<times> usbs_device_list \<times> 's) option" where
  "media_loop 0 M iterator l s = None"
| "media_loop (Suc fuel) M iterator l s =
     (case mc_iterator_next M iterator s of
        (None, s1) \<Rightarrow> Some (USBS_OK, l, s1)
      | (Some media_service, s1) \<Rightarrow>
          (case media_device M media_service s1 of
             (None, s2) \<Rightarrow> media_loop fuel M iterator l (mc_release M media_service s2)
           | (Some d, s2) \<Rightarrow>
               (case usbs_device_list_push (mc_mem M) l d of
                  (st, l1) \<Rightarrow>
                    let s3 = mc_release M media_service s2
                    in if \<not> usbs_ok st then Some (st, l1, s3) else media_loop fuel M iterator l1 s3)))"

definition macos_enumerate ::
  "nat \<Rightarrow> 's macos \<Rightarrow> 's \<Rightarrow> usbs_device_list \<Rightarrow> (usbs_status \<times> usbs_device_list \<times> 's) option" where
  "macos_enumerate fuel M s l =
     (case mc_session_create M s of
        (session, s1) \<Rightarrow>
          if \<not> session then Some (USBS_ERR_INTERNAL, l, s1)
          else
            (case mc_service_matching M s1 of
               (matching, s2) \<Rightarrow>
                 if \<not> matching then Some (USBS_ERR_INTERNAL, l, s2)
                 else
                   (case mc_matching_services M s2 of
                      (None, s3) \<Rightarrow> Some (USBS_ERR_INTERNAL, l, s3)
                    | (Some iterator, s3) \<Rightarrow>
                        map_option (\<lambda>(st, l1, s4). (st, l1, mc_release M iterator s4)) (media_loop fuel M iterator l s3))))"

definition macos_device_source ::
  "nat \<Rightarrow> 's macos \<Rightarrow> ('s \<Rightarrow> usbs_device_list \<Rightarrow> usbs_status \<times> usbs_device_list \<times> 's) option" where
  "macos_device_source fuel M =
     Some (\<lambda>s l. case macos_enumerate fuel M s l of None \<Rightarrow> (USBS_ERR_INTERNAL, l, s) | Some r \<Rightarrow> r)"

definition macos_probe_capabilities :: "usbs_device \<Rightarrow> 's \<Rightarrow> usbs_status \<times> usbs_capabilities \<times> 's" where
  "macos_probe_capabilities d s =
     (USBS_ERR_UNSUPPORTED, \<lparr>can_read_raw_volume = False, can_read_physical_disk = False\<rparr>, s)"

section \<open>Retain counts\<close>

text \<open>
  What the system promises of the counts: a retain adds one, a release takes one, an object that
  is handed out comes with one, and nothing else touches them.
\<close>

locale macos_refs =
  fixes M :: "'s macos" and refs :: "'s \<Rightarrow> nat \<Rightarrow> int"
  assumes retain_adds: "refs (mc_retain M j s) = (refs s)(j := refs s j + 1)"
    and release_takes: "refs (mc_release M j s) = (refs s)(j := refs s j - 1)"
    and services_some: "mc_matching_services M s = (Some j, s') \<Longrightarrow> refs s' = (refs s)(j := refs s j + 1)"
    and services_none: "mc_matching_services M s = (None, s') \<Longrightarrow> refs s' = refs s"
    and next_some: "mc_iterator_next M i s = (Some j, s') \<Longrightarrow> refs s' = (refs s)(j := refs s j + 1)"
    and next_none: "mc_iterator_next M i s = (None, s') \<Longrightarrow> refs s' = refs s"
    and parent_some: "mc_parent M i s = (Some j, s') \<Longrightarrow> refs s' = (refs s)(j := refs s j + 1)"
    and parent_none: "mc_parent M i s = (None, s') \<Longrightarrow> refs s' = refs s"
    and media_some: "mc_media M i s = (Some j, s') \<Longrightarrow> refs s' = (refs s)(j := refs s j + 1)"
    and media_none: "mc_media M i s = (None, s') \<Longrightarrow> refs s' = refs s"
    and session_same: "mc_session_create M s = (b, s') \<Longrightarrow> refs s' = refs s"
    and matching_same: "mc_service_matching M s = (b, s') \<Longrightarrow> refs s' = refs s"
    and property_same: "mc_property M i key s = (v, s') \<Longrightarrow> refs s' = refs s"
    and conforms_same: "mc_conforms M i cls s = (b, s') \<Longrightarrow> refs s' = refs s"
    and disk_same: "mc_disk M name s = (dk, s') \<Longrightarrow> refs s' = refs s"
    and description_same: "mc_description M k s = (dd, s') \<Longrightarrow> refs s' = refs s"
    and statvfs_same: "mc_statvfs M path s = (vfs, s') \<Longrightarrow> refs s' = refs s"
begin

lemmas same = session_same matching_same property_same conforms_same disk_same description_same statvfs_same

lemma fill_usb_device_refs: "fill_usb_device M i d s = (d', s') \<Longrightarrow> refs s' = refs s"
  unfolding fill_usb_device_def Let_def by (auto split: prod.splits dest!: same)

text \<open>The loop uses up the one reference it is given.\<close>

lemma ancestor_loop_refs: "ancestor_loop n M i d s = (d', s') \<Longrightarrow> refs s' = (refs s)(i := refs s i - 1)"
proof (induction n arbitrary: i s)
  case 0
  then show ?case by (auto simp: release_takes)
next
  case (Suc n)
  obtain b1 s1 where c1: "mc_conforms M i ''IOUSBHostDevice'' s = (b1, s1)" by fastforce
  obtain b2 s2 where c2: "(if b1 then (True, s1) else mc_conforms M i ''IOUSBDevice'' s1) = (b2, s2)" by fastforce
  have r2: "refs s2 = refs s" using same(4) [OF c1] c2 by (auto split: if_splits dest: same(4))
  show ?case
  proof (cases b2)
    case True
    obtain d1 s3 where f: "fill_usb_device M i d s2 = (d1, s3)" by fastforce
    with Suc.prems c1 c2 True have "s' = mc_release M i s3" by simp
    with fill_usb_device_refs [OF f] r2 show ?thesis by (simp add: release_takes)
  next
    case False
    obtain p s3 where p: "mc_parent M i s2 = (p, s3)" by fastforce
    show ?thesis
    proof (cases p)
      case None
      with Suc.prems c1 c2 False p have "s' = mc_release M i s3" by simp
      with parent_none p None r2 show ?thesis by (simp add: release_takes)
    next
      case (Some j)
      with Suc.prems c1 c2 False p have "ancestor_loop n M j d (mc_release M i s3) = (d', s')" by simp
      from Suc.IH [OF this] parent_some [of i s2 j s3] p Some r2 show ?thesis by (auto simp: release_takes fun_eq_iff)
    qed
  qed
qed

lemma usb_ancestor_walk_refs: "usb_ancestor_walk M i d s = (d', s') \<Longrightarrow> refs s' = refs s"
  unfolding usb_ancestor_walk_def by (drule ancestor_loop_refs) (simp add: retain_adds)

lemma fill_mount_refs: "fill_mount M u d s = (d', s') \<Longrightarrow> refs s' = refs s"
  unfolding fill_mount_def Let_def
  by (auto split: option.splits cf_value.splits if_splits prod.splits dest: statvfs_same)

lemma fill_disk_refs: "fill_from_disk_arbitration M n d s = (d', s') \<Longrightarrow> refs s' = refs s"
  unfolding fill_from_disk_arbitration_def Let_def
  by (auto simp: release_takes fun_eq_iff split: prod.splits option.splits
      dest!: disk_same description_same fill_mount_refs media_none media_some usb_ancestor_walk_refs)

lemma media_device_refs: "media_device M i s = (r, s') \<Longrightarrow> refs s' = refs s"
  unfolding media_device_def
  by (auto split: prod.splits option.splits if_splits dest!: property_same fill_disk_refs)

lemma media_loop_refs: "media_loop fuel M it l s = Some (st, l', s') \<Longrightarrow> refs s' = refs s"
proof (induction fuel arbitrary: l s)
  case (Suc fuel)
  obtain o1 s1 where n: "mc_iterator_next M it s = (o1, s1)" by fastforce
  show ?case
  proof (cases o1)
    case None
    with Suc.prems n next_none show ?thesis by simp
  next
    case (Some i)
    obtain r s2 where m: "media_device M i s1 = (r, s2)" by fastforce
    have "refs (mc_release M i s2) = refs s"
      using next_some [of it s i s1] n Some media_device_refs [OF m] by (simp add: release_takes)
    with Suc.prems n Some m Suc.IH show ?thesis
      by (cases r) (fastforce simp: Let_def split: prod.splits if_splits)+
  qed
qed simp

lemma enumerate_refs: "macos_enumerate fuel M s l = Some (st, l', s') \<Longrightarrow> refs s' = refs s"
  unfolding macos_enumerate_def
  by (auto simp: release_takes split: prod.splits if_splits option.splits
      dest!: session_same matching_same services_none services_some media_loop_refs)

end

end
