(* ===== verification/MacosFacts.thy ===== *)
theory MacosFacts
  imports DeviceMacos
begin

text \<open>
  What macOS enumeration promises: every registry object is given back, every device is well formed.
  A machine with an arbitrary registry interprets the interface of retain counts.
\<close>

section \<open>Well-formed devices\<close>

definition is_usb_id :: "string \<Rightarrow> bool" where
  "is_usb_id t \<longleftrightarrow> length t = 4 \<and> list_all is_lower_hex t"

definition macos_device :: "usbs_device \<Rightarrow> bool" where
  "macos_device d \<longleftrightarrow> device_wf d \<and> (volume_path d \<noteq> [] \<longrightarrow> mount_points d \<noteq> [] \<and> media_present d) \<and>
     (usb_vid d \<noteq> [] \<longrightarrow> bus_type d = USBS_BUS_USB \<and> is_usb_id (usb_vid d)) \<and>
     (usb_pid d \<noteq> [] \<longrightarrow> bus_type d = USBS_BUS_USB \<and> is_usb_id (usb_pid d))"

lemma cfstring_bound: "0 < cap \<Longrightarrow> length (cfstring_to_utf8 v cap) < cap"
  by (auto simp: cfstring_to_utf8_def split: option.split cf_value.split)

lemma id_hex_is_usb_id: "is_usb_id (id_hex v)"
proof -
  have "nat (v mod 65536) < 65536" by (simp add: nat_less_iff)
  then have "nat (v mod 65536) div 4096 < 16" by simp
  then show ?thesis by (simp add: id_hex_def is_usb_id_def Let_def hex_lower_is_lower_hex)
qed

lemma macos_device_updates:
  "macos_device d \<Longrightarrow> macos_device (d\<lparr>bus_type := USBS_BUS_USB\<rparr>)"
  "macos_device d \<Longrightarrow> bus_type d = USBS_BUS_USB \<Longrightarrow> macos_device (d\<lparr>usb_vid := id_hex v\<rparr>)"
  "macos_device d \<Longrightarrow> bus_type d = USBS_BUS_USB \<Longrightarrow> macos_device (d\<lparr>usb_pid := id_hex v\<rparr>)"
  "macos_device d \<Longrightarrow> macos_device (d\<lparr>serial := cfstring_to_utf8 x 128\<rparr>)"
  "macos_device d \<Longrightarrow> macos_device (d\<lparr>vendor := cfstring_to_utf8 x 128\<rparr>)"
  "macos_device d \<Longrightarrow> macos_device (d\<lparr>product := cfstring_to_utf8 x 128\<rparr>)"
  using id_hex_is_usb_id [of v] cfstring_bound [of 128 x]
  by (simp_all add: macos_device_def device_wf_def is_usb_id_def)

lemma fill_usb_device_wf:
  assumes "fill_usb_device M i d s = (d', s')" and "macos_device d"
  shows "macos_device d'"
proof -
  obtain a s1 where p1: "mc_property M i ''idVendor'' s = (a, s1)" by fastforce
  obtain b s2 where p2: "mc_property M i ''idProduct'' s1 = (b, s2)" by fastforce
  obtain c s3 where p3: "mc_property M i ''USB Serial Number'' s2 = (c, s3)" by fastforce
  obtain e s4 where p4: "mc_property M i ''USB Vendor Name'' s3 = (e, s4)" by fastforce
  obtain f s5 where p5: "mc_property M i ''USB Product Name'' s4 = (f, s5)" by fastforce
  let ?d1 = "d\<lparr>bus_type := USBS_BUS_USB\<rparr>"
  let ?d2 = "case cf_int64 a of Some v \<Rightarrow> ?d1\<lparr>usb_vid := id_hex v\<rparr> | None \<Rightarrow> ?d1"
  let ?d3 = "case cf_int64 b of Some v \<Rightarrow> ?d2\<lparr>usb_pid := id_hex v\<rparr> | None \<Rightarrow> ?d2"
  have "macos_device ?d1" using assms(2) by (rule macos_device_updates)
  then have d2: "macos_device ?d2" "bus_type ?d2 = USBS_BUS_USB"
    by (auto intro: macos_device_updates split: option.split)
  then have d3: "macos_device ?d3" by (auto intro: macos_device_updates split: option.split)
  from assms(1) have "d' = (let d4 = (if is_cf_string c then ?d3\<lparr>serial := cfstring_to_utf8 c 128\<rparr> else ?d3);
      d5 = (if is_cf_string e then d4\<lparr>vendor := cfstring_to_utf8 e 128\<rparr> else d4)
    in if is_cf_string f then d5\<lparr>product := cfstring_to_utf8 f 128\<rparr> else d5)"
    unfolding fill_usb_device_def p1 p2 p3 p4 p5 prod.case Let_def by simp
  with d3 show ?thesis by (simp only: Let_def) (simp split: if_split add: macos_device_updates)
qed

lemma ancestor_loop_wf: "ancestor_loop n M i d s = (d', s') \<Longrightarrow> macos_device d \<Longrightarrow> macos_device d'"
  by (induction n arbitrary: i s) (auto split: prod.splits if_splits option.splits dest: fill_usb_device_wf)

lemma fill_disk_wf:
  assumes "fill_from_disk_arbitration M n usbs_device_init s = (d', s')"
  shows "macos_device d'"
proof -
  have init: "macos_device usbs_device_init"
    by (simp add: macos_device_def device_wf_def usbs_device_init_def USBS_VOLUME_PATH_MAX_def)
  have path: "length (snd (usbs_path_join MacOS USBS_VOLUME_PATH_MAX mp [])) < USBS_VOLUME_PATH_MAX" for mp
    by (auto simp: usbs_path_join_def Let_def snprintf_buf_def USBS_VOLUME_PATH_MAX_def)
  have described: "macos_device d2"
    if "fill_mount M u (usbs_device_init\<lparr>removable_media := r, capacity_bytes := c, bus_type := b,
          label := cfstring_to_utf8 x 128, filesystem := cfstring_to_utf8 y 32\<rparr>) s2 = (d2, s3)" for u r c b x y s2 d2 s3
    using that path cfstring_bound [of 128 x] cfstring_bound [of 32 y]
    by (auto simp: fill_mount_def macos_device_def device_wf_def usbs_device_init_def Let_def
        USBS_VOLUME_PATH_MAX_def USBS_MOUNT_POINTS_MAX_def
        split: option.splits cf_value.splits if_splits prod.splits)
  from assms init show ?thesis
    unfolding fill_from_disk_arbitration_def Let_def usb_ancestor_walk_def
    by (auto simp del: ancestor_loop.simps split: prod.splits option.splits dest!: described ancestor_loop_wf)
qed

lemma push_macos:
  assumes "usbs_device_list_push mem l d = (st, l')" and "macos_device d" and "\<forall>x \<in> set (v_items l). macos_device x"
  shows "\<forall>x \<in> set (v_items l'). macos_device x"
proof (cases "st = USBS_OK")
  case True
  with assms device_list.push_ok [of mem l d l'] show ?thesis by auto
next
  case False
  with assms device_list.push_error [of mem l d st l'] show ?thesis by auto
qed

lemma media_loop_wf:
  "media_loop fuel M it l s = Some (st, l', s') \<Longrightarrow> \<forall>x \<in> set (v_items l). macos_device x \<Longrightarrow>
     \<forall>x \<in> set (v_items l'). macos_device x"
proof (induction fuel arbitrary: l s)
  case (Suc fuel)
  obtain o1 s1 where n: "mc_iterator_next M it s = (o1, s1)" by fastforce
  show ?case
  proof (cases o1)
    case None
    with Suc.prems n show ?thesis by simp
  next
    case (Some i)
    obtain r s2 where m: "media_device M i s1 = (r, s2)" by fastforce
    show ?thesis
    proof (cases r)
      case None
      with Suc.prems n Some m Suc.IH show ?thesis by simp
    next
      case (Some d)
      then have d: "macos_device d"
        using m by (auto simp: media_device_def split: prod.splits if_splits option.splits dest: fill_disk_wf)
      obtain st1 l1 where p: "usbs_device_list_push (mc_mem M) l d = (st1, l1)" by fastforce
      have l1: "\<forall>x \<in> set (v_items l1). macos_device x" using push_macos [OF p d Suc.prems(2)] .
      with Suc.prems n \<open>o1 = Some i\<close> m Some p Suc.IH show ?thesis by (auto simp: Let_def split: if_splits)
    qed
  qed
qed simp

section \<open>A machine\<close>

text \<open>
  A registry is a forest of objects with properties and classes, and the disks with their
  descriptions; the state counts references and holds the media still to be handed out.
\<close>

record registry =
  rg_media :: "nat list"
  rg_parent :: "nat \<Rightarrow> nat option"
  rg_class :: "nat \<Rightarrow> string"
  rg_property :: "nat \<Rightarrow> string \<Rightarrow> cf_value option"
  rg_disk :: "string \<Rightarrow> nat option"
  rg_description :: "nat \<Rightarrow> cf_dictionary"

record mac =
  mac_refs :: "nat \<Rightarrow> int"
  mac_left :: "nat list"

definition mac_give :: "nat \<Rightarrow> mac \<Rightarrow> mac" where
  "mac_give j m = m\<lparr>mac_refs := (mac_refs m)(j := mac_refs m j + 1)\<rparr>"

definition mac_hand_out :: "nat option \<Rightarrow> mac \<Rightarrow> nat option \<times> mac" where
  "mac_hand_out r m = (r, case r of None \<Rightarrow> m | Some j \<Rightarrow> mac_give j m)"

definition mac_system :: "registry \<Rightarrow> mac macos" where
  "mac_system R =
     \<lparr>mc_mem = mem_always, mc_same_name = (\<lambda>a b. fold_case a = fold_case b),
      mc_session_create = Pair True, mc_service_matching = Pair True,
      mc_matching_services = (\<lambda>m. (Some 0, (mac_give 0 m)\<lparr>mac_left := rg_media R\<rparr>)),
      mc_iterator_next = (\<lambda>_ m. case mac_left m of [] \<Rightarrow> (None, m) | i # is \<Rightarrow> (Some i, (mac_give i m)\<lparr>mac_left := is\<rparr>)),
      mc_property = (\<lambda>i key. Pair (rg_property R i key)), mc_conforms = (\<lambda>i cls. Pair (rg_class R i = cls)),
      mc_parent = (\<lambda>i. mac_hand_out (rg_parent R i)), mc_retain = mac_give,
      mc_release = (\<lambda>j m. m\<lparr>mac_refs := (mac_refs m)(j := mac_refs m j - 1)\<rparr>),
      mc_disk = (\<lambda>name. Pair (rg_disk R name)), mc_description = (\<lambda>i. Pair (Some (rg_description R i))),
      mc_media = (\<lambda>i. mac_hand_out (Some i)), mc_statvfs = (\<lambda>_. Pair None)\<rparr>"

interpretation mac: macos_refs "mac_system R" mac_refs
  by unfold_locales
    (auto simp: mac_system_def mac_give_def mac_hand_out_def split: list.splits option.splits)

section \<open>The property\<close>


text \<open>One mounted partition of a stick: the partition's medium, its driver, the USB device.\<close>

definition desk_registry :: registry where
  "desk_registry =
     \<lparr>rg_media = [9, 10], rg_parent = (\<lambda>i. if i < 12 then Some (Suc i) else None),
      rg_class = (\<lambda>i. if i = 12 then ''IOUSBHostDevice'' else ''IOMedia''),
      rg_property = (\<lambda>i key.
        if i = 10 \<and> key = ''Leaf'' then Some (CF_BOOLEAN True)
        else if i = 10 \<and> key = ''BSD Name'' then Some (CF_STRING ''disk2s1'')
        else if i = 12 \<and> key = ''idVendor'' then Some (CF_NUMBER 1921)
        else if i = 12 \<and> key = ''idProduct'' then Some (CF_NUMBER 21891)
        else if i = 12 \<and> key = ''USB Serial Number'' then Some (CF_STRING ''A1'') else None),
      rg_disk = (\<lambda>name. if name = ''disk2s1'' then Some 10 else None),
      rg_description = (\<lambda>i key.
        if key = ''DADeviceProtocol'' then Some (CF_STRING ''USB'')
        else if key = ''DAVolumePath'' then Some (CF_URL ''/Volumes/STICK'') else None)\<rparr>"


text \<open>
  A volume of a disk image has a protocol of its own, which the table does not hold: it is listed as
  another bus, a known one, and so identified by its volume path even when it carries a serial.
\<close>

lemma disk_image_is_not_unknown:
  "bus_type_from_protocol (mac_system R) (Some (CF_STRING ''Disk Image'')) = USBS_BUS_OTHER"
  by (simp add: bus_type_from_protocol_def protocol_table_def mac_system_def) code_simp

end
