(* ===== verification/Unsupported.thy ===== *)
theory Unsupported
  imports Storage
begin

text \<open>
  A host that is neither Windows nor POSIX, src/platform/platform_unsupported.c, and a UNIX without an
  enumeration backend of its own, src/platform/device_posix_unsupported.c: every operation reports
  that it is not supported, instead of an empty result.
\<close>

section \<open>The operations\<close>

definition unsupported_status_from_win32 :: "nat \<Rightarrow> usbs_status" where
  "unsupported_status_from_win32 win32_error = USBS_ERR_UNSUPPORTED"

type_synonym 'w device_source = "('w \<Rightarrow> usbs_device_list \<Rightarrow> usbs_status \<times> usbs_device_list \<times> 'w) option"

definition unsupported_device_source :: "'w device_source" where
  "unsupported_device_source = None"

definition unsupported_device_source_ex :: "usbs_enum_mode \<Rightarrow> 'w device_source" where
  "unsupported_device_source_ex mode = unsupported_device_source"

definition unsupported_probe_capabilities :: "usbs_device \<Rightarrow> 'w \<Rightarrow> usbs_status \<times> usbs_capabilities \<times> 'w" where
  "unsupported_probe_capabilities d w =
     (USBS_ERR_UNSUPPORTED, \<lparr>can_read_raw_volume = False, can_read_physical_disk = False\<rparr>, w)"

definition unsupported_install_cancel_handler :: "'w \<Rightarrow> usbs_status \<times> 'w" where
  "unsupported_install_cancel_handler w = (USBS_ERR_UNSUPPORTED, w)"

definition unsupported_cancel_requested :: bool where
  "unsupported_cancel_requested = False"

definition unsupported_dir_open :: "string \<Rightarrow> 'w \<Rightarrow> (usbs_status + nat) \<times> 'w" where
  "unsupported_dir_open path w = (Inl USBS_ERR_UNSUPPORTED, w)"

definition unsupported_dir_next :: "nat \<Rightarrow> 'w \<Rightarrow> (usbs_status + usbs_dir_entry) \<times> 'w" where
  "unsupported_dir_next it w = (Inl USBS_ERR_UNSUPPORTED, w)"

definition unsupported_dir_close :: "nat \<Rightarrow> 'w \<Rightarrow> 'w" where
  "unsupported_dir_close it w = w"

definition unsupported_file_open_read :: "string \<Rightarrow> 'w \<Rightarrow> (usbs_status + nat) \<times> 'w" where
  "unsupported_file_open_read path w = (Inl USBS_ERR_UNSUPPORTED, w)"

definition unsupported_file_read :: "nat \<Rightarrow> nat \<Rightarrow> 'w \<Rightarrow> (usbs_status + string) \<times> 'w" where
  "unsupported_file_read fh cap w = (Inl USBS_ERR_UNSUPPORTED, w)"

definition unsupported_file_close :: "nat \<Rightarrow> 'w \<Rightarrow> 'w" where
  "unsupported_file_close fh w = w"

definition unsupported_make_dirs :: "string \<Rightarrow> 'w \<Rightarrow> usbs_status \<times> 'w" where
  "unsupported_make_dirs path w = (USBS_ERR_UNSUPPORTED, w)"

definition unsupported_write_file :: "string \<Rightarrow> string \<Rightarrow> 'w \<Rightarrow> usbs_status \<times> 'w" where
  "unsupported_write_file path data w = (USBS_ERR_UNSUPPORTED, w)"

definition unsupported_replace_file :: "string \<Rightarrow> string \<Rightarrow> 'w \<Rightarrow> usbs_status \<times> 'w" where
  "unsupported_replace_file dest src w = (USBS_ERR_UNSUPPORTED, w)"

definition unsupported_delete_file :: "string \<Rightarrow> 'w \<Rightarrow> usbs_status \<times> 'w" where
  "unsupported_delete_file path w = (USBS_ERR_UNSUPPORTED, w)"

definition unsupported_hash_begin :: "usbs_status + nat" where
  "unsupported_hash_begin = Inl USBS_ERR_UNSUPPORTED"

definition unsupported_hash_update :: "nat \<Rightarrow> string \<Rightarrow> usbs_status" where
  "unsupported_hash_update c data = USBS_ERR_UNSUPPORTED"

definition unsupported_hash_finish :: "nat \<Rightarrow> usbs_status + string \<times> string" where
  "unsupported_hash_finish c = Inl USBS_ERR_UNSUPPORTED"

text \<open>The UNIX without a backend has the file layer of fs_posix.c and only these two stubs.\<close>

definition posix_unsupported_device_source :: "'w device_source" where
  "posix_unsupported_device_source = None"

definition posix_unsupported_probe_capabilities :: "usbs_device \<Rightarrow> 'w \<Rightarrow> usbs_status \<times> usbs_capabilities \<times> 'w" where
  "posix_unsupported_probe_capabilities d w =
     (USBS_ERR_UNSUPPORTED, \<lparr>can_read_raw_volume = False, can_read_physical_disk = False\<rparr>, w)"

section \<open>The platform they make\<close>

text \<open>\<open>path.c\<close> and \<open>env.c\<close> are compiled with their branch for a host that is not Windows.\<close>

definition unsupported_platform :: "environment \<Rightarrow> allocator \<Rightarrow> 'w platform" where
  "unsupported_platform env mem =
     \<lparr>p_host = Posix, p_env = env, p_mem = mem,
      dir_open = unsupported_dir_open, dir_next = unsupported_dir_next, dir_close = unsupported_dir_close,
      file_open_read = unsupported_file_open_read, file_read = unsupported_file_read, file_close = unsupported_file_close,
      make_dirs = unsupported_make_dirs, write_file = unsupported_write_file, replace_file = unsupported_replace_file,
      delete_file = unsupported_delete_file, probe_capabilities = unsupported_probe_capabilities\<rparr>"

text \<open>Nothing is passed off as a result: the store does not open, and no list of devices is empty.\<close>

lemma unsupported_store_does_not_open: "\<exists>st. usbs_store_open (unsupported_platform env mem) w = (Inl st, w) \<and> st \<noteq> USBS_OK"
  by (auto simp: usbs_store_open_def usbs_store_open_at_def unsupported_platform_def unsupported_make_dirs_def usbs_ok_def
      split: prod.split)

lemma unsupported_enumeration_fails:
  "fst (usbs_device_enumerate (unsupported_device_source_ex mode) w) = USBS_ERR_UNSUPPORTED"
  "fst (usbs_device_enumerate posix_unsupported_device_source w) = USBS_ERR_UNSUPPORTED"
  by (simp_all add: usbs_device_enumerate_def unsupported_device_source_ex_def unsupported_device_source_def
      posix_unsupported_device_source_def)

end
