(* ===== verification/Log.thy ===== *)
theory Log
  imports Prelude
begin

text \<open>
  The leveled logger, src/core/log.c, with the threshold and the stream as a state that is passed
  along; the other theories leave its calls out. A stream is a number, and the lines written are
  kept per stream. The version strings of src/core/version.c stand here too; the version itself is
  generated by the build.
\<close>

section \<open>State\<close>

datatype usbs_log_level = USBS_LOG_TRACE | USBS_LOG_DEBUG | USBS_LOG_INFO | USBS_LOG_WARN | USBS_LOG_ERROR | USBS_LOG_OFF

fun level_rank :: "usbs_log_level \<Rightarrow> nat" where
  "level_rank USBS_LOG_TRACE = 0"
| "level_rank USBS_LOG_DEBUG = 1"
| "level_rank USBS_LOG_INFO = 2"
| "level_rank USBS_LOG_WARN = 3"
| "level_rank USBS_LOG_ERROR = 4"
| "level_rank USBS_LOG_OFF = 5"

instantiation usbs_log_level :: linorder
begin

definition less_eq_usbs_log_level :: "usbs_log_level \<Rightarrow> usbs_log_level \<Rightarrow> bool" where
  "less_eq_usbs_log_level a b \<longleftrightarrow> level_rank a \<le> level_rank b"

definition less_usbs_log_level :: "usbs_log_level \<Rightarrow> usbs_log_level \<Rightarrow> bool" where
  "less_usbs_log_level a b \<longleftrightarrow> level_rank a < level_rank b"

instance
proof
  fix a b :: usbs_log_level
  show "a \<le> b \<Longrightarrow> b \<le> a \<Longrightarrow> a = b"
    by (cases a; cases b) (simp_all add: less_eq_usbs_log_level_def)
qed (auto simp: less_eq_usbs_log_level_def less_usbs_log_level_def)

end

definition STDERR :: nat where "STDERR = 2"

record log_state =
  g_level :: usbs_log_level
  g_stream :: "nat option"
  log_lines :: "nat \<Rightarrow> string list"

definition log_init :: log_state where
  "log_init = \<lparr>g_level = USBS_LOG_INFO, g_stream = None, log_lines = (\<lambda>_. [])\<rparr>"

section \<open>Operations\<close>

definition log_stream :: "log_state \<Rightarrow> nat" where
  "log_stream g = (case g_stream g of Some f \<Rightarrow> f | None \<Rightarrow> STDERR)"

definition usbs_log_set_level :: "usbs_log_level \<Rightarrow> log_state \<Rightarrow> log_state" where
  "usbs_log_set_level l g = g\<lparr>g_level := l\<rparr>"

definition usbs_log_get_level :: "log_state \<Rightarrow> usbs_log_level" where
  "usbs_log_get_level g = g_level g"

definition usbs_log_set_stream :: "nat option \<Rightarrow> log_state \<Rightarrow> log_state" where
  "usbs_log_set_stream f g = g\<lparr>g_stream := f\<rparr>"

definition usbs_log_enabled :: "usbs_log_level \<Rightarrow> log_state \<Rightarrow> bool" where
  "usbs_log_enabled l g =
     (if g_level g \<ge> USBS_LOG_OFF then False else if l \<ge> USBS_LOG_OFF then False else l \<ge> g_level g)"

fun usbs_log_level_string :: "usbs_log_level \<Rightarrow> string" where
  "usbs_log_level_string USBS_LOG_TRACE = ''TRACE''"
| "usbs_log_level_string USBS_LOG_DEBUG = ''DEBUG''"
| "usbs_log_level_string USBS_LOG_INFO = ''INFO''"
| "usbs_log_level_string USBS_LOG_WARN = ''WARN''"
| "usbs_log_level_string USBS_LOG_ERROR = ''ERROR''"
| "usbs_log_level_string USBS_LOG_OFF = ''OFF''"

text \<open>\<open>clock\<close> is the local time as \<open>localtime\<close> and \<open>strftime\<close> print it, when they can.\<close>

definition format_timestamp :: "nat \<Rightarrow> string option \<Rightarrow> string" where
  "format_timestamp cap clock =
     (case clock of
        Some t \<Rightarrow> if t \<noteq> [] \<and> length t < cap then t else snprintf_buf cap ''--:--:--''
      | None \<Rightarrow> snprintf_buf cap ''--:--:--'')"

text \<open>\<open>message\<close> is the formatted text; \<open>%-5s\<close> pads the level's name to five characters.\<close>

definition log_line :: "string \<Rightarrow> usbs_log_level \<Rightarrow> string \<Rightarrow> string" where
  "log_line stamp l message =
     ''['' @ stamp @ ''] '' @ usbs_log_level_string l @
     replicate (5 - length (usbs_log_level_string l)) (CHR '' '') @ '' '' @ message @ [CHR 0x0A]"

definition usbs_log_write :: "string option \<Rightarrow> usbs_log_level \<Rightarrow> string \<Rightarrow> log_state \<Rightarrow> log_state" where
  "usbs_log_write clock l message g =
     (if \<not> usbs_log_enabled l g then g
      else g\<lparr>log_lines := (log_lines g)(log_stream g := log_lines g (log_stream g) @ [log_line (format_timestamp 16 clock) l message])\<rparr>)"

section \<open>Facts\<close>

text \<open>Raising the threshold only silences, and OFF, as a threshold or as a level, silences all.\<close>

lemma log_threshold_is_monotone:
  "g_level g \<le> l \<Longrightarrow> usbs_log_enabled m (usbs_log_set_level l g) \<Longrightarrow> usbs_log_enabled m g"
  by (auto simp: usbs_log_enabled_def usbs_log_set_level_def split: if_splits)

lemma log_off_is_silent:
  "g_level g = USBS_LOG_OFF \<or> l = USBS_LOG_OFF \<Longrightarrow> usbs_log_write clock l message g = g"
  by (auto simp: usbs_log_write_def usbs_log_enabled_def)

lemma log_write_other_streams: "f \<noteq> log_stream g \<Longrightarrow> log_lines (usbs_log_write clock l message g) f = log_lines g f"
  by (simp add: usbs_log_write_def)

section \<open>Version strings\<close>

definition usbs_version_string :: "string \<Rightarrow> string" where
  "usbs_version_string version = version"

definition usbs_version_banner :: "string \<Rightarrow> string" where
  "usbs_version_banner version = ''USB Sentinel'' @ '' '' @ version"

end
